(* ===== verification/Prelude.thy ===== *)
theory Prelude
  imports Main "HOL-Library.Word"
begin

text \<open>
  What every component of the development shares: the outcomes of C++ code (a value, a
  thrown exception, undefined behaviour), 32-bit signed arithmetic, the C and C++ string
  operations the program uses, and generic lemmas on lists and maps.
\<close>

section \<open>Outcomes\<close>

text \<open>
  A C++ call returns, throws, or runs into undefined behaviour.  The program throws
  \<open>VaeDbQueryError\<close> and \<open>VaeDbInternalError\<close> (\<^verbatim>\<open>src/site.h\<close>); every other exception
  is a \<open>StdError\<close>, with its \<open>what()\<close> text, or \<open>OtherThrow\<close> (the string literals the pools
  throw).  Undefined behaviour is a value of its own, so that a theorem can
  say that a call never reaches it, or exhibit an input that does; so are a call that
  never returns (\<open>Diverges\<close>) and a failed assertion (\<open>Aborts\<close>).
\<close>

datatype ub =
    NullDeref
  | OutOfBounds
  | UseAfterFree
  | Uninitialised
  | SignedOverflow
  | FloatToIntRange

datatype error =
    VaeDbQueryError string
  | VaeDbInternalError string
  | StdError string
  | OtherThrow string
  | Diverges
  | Aborts
  | UB ub

type_synonym 'a outcome = "error + 'a"

definition ebind :: "'a outcome \<Rightarrow> ('a \<Rightarrow> 'b outcome) \<Rightarrow> 'b outcome" where
  "ebind m f = (case m of Inl e \<Rightarrow> Inl e | Inr x \<Rightarrow> f x)"

lemma ebind_simps [simp]:
  "ebind (Inl e) f = Inl e"
  "ebind (Inr x) f = f x"
  by (simp_all add: ebind_def)

lemma ebind_eq_Inr_iff: "ebind m f = Inr y \<longleftrightarrow> (\<exists>x. m = Inr x \<and> f x = Inr y)"
  by (cases m) auto

lemma ebind_eq_Inl_iff:
  "ebind m f = Inl e \<longleftrightarrow> m = Inl e \<or> (\<exists>x. m = Inr x \<and> f x = Inl e)"
  by (cases m) auto

lemma ebind_cong [fundef_cong]:
  "m = m' \<Longrightarrow> (\<And>x. m' = Inr x \<Longrightarrow> f x = f' x) \<Longrightarrow> ebind m f = ebind m' f'"
  by (cases m') auto

lemma ebind_assoc: "ebind (ebind m f) g = ebind m (\<lambda>x. ebind (f x) g)"
  by (cases m) auto

text \<open>Running an action for each element of a list, in order, stopping at the first error.\<close>

fun emap :: "('a \<Rightarrow> 'b outcome) \<Rightarrow> 'a list \<Rightarrow> ('b list) outcome" where
  "emap f [] = Inr []"
| "emap f (x # xs) = ebind (f x) (\<lambda>y. ebind (emap f xs) (\<lambda>ys. Inr (y # ys)))"

lemma emap_Inr: "(\<And>x. x \<in> set xs \<Longrightarrow> f x = Inr (g x)) \<Longrightarrow> emap f xs = Inr (map g xs)"
  by (induction xs) auto

lemma emap_cong [fundef_cong]:
  "xs = ys \<Longrightarrow> (\<And>x. x \<in> set ys \<Longrightarrow> f x = g x) \<Longrightarrow> emap f xs = emap g ys"
  by (induction ys arbitrary: xs) auto

lemma emap_length: "emap f xs = Inr ys \<Longrightarrow> length ys = length xs"
  by (induction xs arbitrary: ys) (auto simp: ebind_eq_Inr_iff)

section \<open>Stateful code\<close>

text \<open>
  Code that reads and changes an object takes its state and returns the changed one.  The
  state is kept when an exception is thrown: what was done before the throw stays done.
\<close>

type_synonym ('s, 'a) sm = "'s \<Rightarrow> 'a outcome \<times> 's"

definition sret :: "'a \<Rightarrow> ('s, 'a) sm" where "sret x = (\<lambda>s. (Inr x, s))"
definition sthrow :: "error \<Rightarrow> ('s, 'a) sm" where "sthrow e = (\<lambda>s. (Inl e, s))"

definition sbind :: "('s, 'a) sm \<Rightarrow> ('a \<Rightarrow> ('s, 'b) sm) \<Rightarrow> ('s, 'b) sm" where
  "sbind m f = (\<lambda>s. case m s of (Inl e, s') \<Rightarrow> (Inl e, s') | (Inr x, s') \<Rightarrow> f x s')"

text \<open>A pure read of the state, which may fail, and a change that does not.\<close>

definition sread :: "('s \<Rightarrow> 'a outcome) \<Rightarrow> ('s, 'a) sm" where "sread f = (\<lambda>s. (f s, s))"
definition smodify :: "('s \<Rightarrow> 's) \<Rightarrow> ('s, unit) sm" where "smodify f = (\<lambda>s. (Inr (), f s))"

fun smap :: "('a \<Rightarrow> ('s, 'b) sm) \<Rightarrow> 'a list \<Rightarrow> ('s, 'b list) sm" where
  "smap f [] = sret []"
| "smap f (x # xs) = sbind (f x) (\<lambda>y. sbind (smap f xs) (\<lambda>ys. sret (y # ys)))"

named_theorems sm_simps \<open>unfolding a stateful program on a given state\<close>

lemma sret_apply [sm_simps]: "sret x s = (Inr x, s)"
  by (simp add: sret_def)

lemma sthrow_apply [sm_simps]: "sthrow e s = (Inl e, s)"
  by (simp add: sthrow_def)

lemma sread_apply [simp, sm_simps]: "sread f s = (f s, s)"
  by (simp add: sread_def)

lemma smodify_apply [simp, sm_simps]: "smodify f s = (Inr (), f s)"
  by (simp add: smodify_def)

lemma sbind_Inr [simp, sm_simps]: "m s = (Inr x, s') \<Longrightarrow> sbind m f s = f x s'"
  by (simp add: sbind_def)

lemma sbind_Inl [simp, sm_simps]: "m s = (Inl e, s') \<Longrightarrow> sbind m f s = (Inl e, s')"
  by (simp add: sbind_def)

lemma sbind_simps [simp, sm_simps]:
  "sbind (sret x) f s = f x s"
  "sbind (sthrow e) f s = (Inl e, s)"
  "sbind (smodify g) h s = h () (g s)"
  by (simp_all add: sbind_def sret_def sthrow_def)

lemma sbind_sread: "sbind (sread g) f s = (case g s of Inl e \<Rightarrow> (Inl e, s) | Inr x \<Rightarrow> f x s)"
  by (simp add: sbind_def split: sum.split)

lemma sbind_eq_Inr_iff:
  "sbind m f s = (Inr y, s'') \<longleftrightarrow> (\<exists>x s'. m s = (Inr x, s') \<and> f x s' = (Inr y, s''))"
  by (auto simp: sbind_def split: prod.splits sum.splits)

text \<open>What holds of the result and the state after a run.\<close>

definition post :: "('s, 'a) sm \<Rightarrow> 's \<Rightarrow> ('a outcome \<Rightarrow> 's \<Rightarrow> bool) \<Rightarrow> bool" where
  "post m s P = (case m s of (r, s') \<Rightarrow> P r s')"

named_theorems post_simps \<open>weakest preconditions of the program constructors\<close>

lemma post_sret [post_simps]: "post (sret x) s P = P (Inr x) s"
  by (simp add: post_def sret_def)

lemma post_sthrow [post_simps]: "post (sthrow e) s P = P (Inl e) s"
  by (simp add: post_def sthrow_def)

lemma post_sread [post_simps]: "post (sread f) s P = P (f s) s"
  by (simp add: post_def)

lemma post_smodify [post_simps]: "post (smodify f) s P = P (Inr ()) (f s)"
  by (simp add: post_def)

lemma post_sbind [post_simps]:
  "post (sbind m f) s P =
     post m s (\<lambda>r s'. case r of Inl e \<Rightarrow> P (Inl e) s' | Inr x \<Rightarrow> post (f x) s' P)"
  by (simp add: post_def sbind_def split: prod.split sum.split)

lemma post_if [post_simps]:
  "post (if b then m else m') s P = (if b then post m s P else post m' s P)"
  by simp

lemma post_mono: "post m s P \<Longrightarrow> (\<And>r s'. P r s' \<Longrightarrow> Q r s') \<Longrightarrow> post m s Q"
  by (auto simp: post_def split: prod.splits)

lemma postD: "post m s P \<Longrightarrow> m s = (r, s') \<Longrightarrow> P r s'"
  by (simp add: post_def)

text \<open>A condition on the state that every step of a program keeps, whether it throws or not.\<close>

definition keeps :: "('s \<Rightarrow> bool) \<Rightarrow> ('s, 'a) sm \<Rightarrow> bool" where
  "keeps P m \<longleftrightarrow> (\<forall>s. P s \<longrightarrow> P (snd (m s)))"

named_theorems keeps_intro \<open>programs that keep an invariant\<close>

lemma keepsI: "(\<And>s. P s \<Longrightarrow> P (snd (m s))) \<Longrightarrow> keeps P m"
  by (simp add: keeps_def)

lemma keepsD: "keeps P m \<Longrightarrow> P s \<Longrightarrow> P (snd (m s))"
  by (simp add: keeps_def)

lemma keeps_sret [keeps_intro]: "keeps P (sret x)"
  by (simp add: keeps_def sret_def)

lemma keeps_sthrow [keeps_intro]: "keeps P (sthrow e)"
  by (simp add: keeps_def sthrow_def)

lemma keeps_sread [keeps_intro]: "keeps P (sread f)"
  by (simp add: keeps_def)

lemma keeps_smodify: "(\<And>s. P s \<Longrightarrow> P (f s)) \<Longrightarrow> keeps P (smodify f)"
  by (simp add: keeps_def)

lemma keeps_sbind [keeps_intro]:
  "keeps P m \<Longrightarrow> (\<And>x. keeps P (f x)) \<Longrightarrow> keeps P (sbind m f)"
  by (auto simp: keeps_def sbind_def split: prod.splits sum.splits)

lemma keeps_smap [keeps_intro]: "(\<And>x. keeps P (f x)) \<Longrightarrow> keeps P (smap f xs)"
  by (induction xs) (auto intro: keeps_sret keeps_sbind)

lemma keeps_case_option [keeps_intro]:
  "keeps P m \<Longrightarrow> (\<And>x. keeps P (f x)) \<Longrightarrow> keeps P (case p of None \<Rightarrow> m | Some x \<Rightarrow> f x)"
  by (cases p) auto

lemma keeps_case_prod [keeps_intro]:
  "(\<And>x y. keeps P (f x y)) \<Longrightarrow> keeps P (case p of (x, y) \<Rightarrow> f x y)"
  by (cases p) auto

lemma keeps_if [keeps_intro]: "keeps P m \<Longrightarrow> keeps P m' \<Longrightarrow> keeps P (if b then m else m')"
  by simp

text \<open>Two states that a relation makes indistinguishable: the program gives the same result on both,
  and leaves them indistinguishable.\<close>

definition uniform :: "('s \<Rightarrow> 's \<Rightarrow> bool) \<Rightarrow> ('s, 'a) sm \<Rightarrow> bool" where
  "uniform R m \<longleftrightarrow> (\<forall>s s'. R s s' \<longrightarrow> fst (m s) = fst (m s') \<and> R (snd (m s)) (snd (m s')))"

named_theorems uniform_intro \<open>programs that respect an indistinguishability\<close>

lemma uniformI:
  "(\<And>s s'. R s s' \<Longrightarrow> fst (m s) = fst (m s') \<and> R (snd (m s)) (snd (m s'))) \<Longrightarrow> uniform R m"
  by (simp add: uniform_def)

lemma uniformD:
  "uniform R m \<Longrightarrow> R s s' \<Longrightarrow> fst (m s) = fst (m s') \<and> R (snd (m s)) (snd (m s'))"
  by (simp add: uniform_def)

lemma uniform_sret [uniform_intro]: "uniform R (sret x)"
  by (simp add: uniform_def sret_def)

lemma uniform_sthrow [uniform_intro]: "uniform R (sthrow e)"
  by (simp add: uniform_def sthrow_def)

lemma uniform_sread: "(\<And>s s'. R s s' \<Longrightarrow> f s = f s') \<Longrightarrow> uniform R (sread f)"
  by (simp add: uniform_def)

lemma uniform_sread_const [uniform_intro]: "uniform R (sread (\<lambda>_. x))"
  by (simp add: uniform_def)

lemma uniform_smodify: "(\<And>s s'. R s s' \<Longrightarrow> R (f s) (f s')) \<Longrightarrow> uniform R (smodify f)"
  by (simp add: uniform_def)

lemma uniform_sbind [uniform_intro]:
  assumes "uniform R m" and "\<And>x. uniform R (f x)"
  shows "uniform R (sbind m f)"
proof (rule uniformI)
  fix s s' assume r: "R s s'"
  obtain x t where m: "m s = (x, t)" by (metis surj_pair)
  obtain t' where m': "m s' = (x, t')" and t: "R t t'"
    using uniformD [OF assms(1) r] m by (metis fst_conv snd_conv surj_pair)
  show "fst (sbind m f s) = fst (sbind m f s') \<and> R (snd (sbind m f s)) (snd (sbind m f s'))"
    using uniformD [OF assms(2) t] t by (cases x) (simp_all add: m m')
qed

lemma uniform_if [uniform_intro]:
  "uniform R m \<Longrightarrow> uniform R m' \<Longrightarrow> uniform R (if b then m else m')"
  by simp

lemma uniform_case_option [uniform_intro]:
  "uniform R m \<Longrightarrow> (\<And>x. uniform R (f x)) \<Longrightarrow> uniform R (case p of None \<Rightarrow> m | Some x \<Rightarrow> f x)"
  by (cases p) auto

lemma uniform_case_prod [uniform_intro]:
  "(\<And>x y. uniform R (f x y)) \<Longrightarrow> uniform R (case p of (x, y) \<Rightarrow> f x y)"
  by (cases p) auto

lemma uniform_smap [uniform_intro]: "(\<And>x. uniform R (f x)) \<Longrightarrow> uniform R (smap f xs)"
  by (induction xs) (auto intro: uniform_sret uniform_sbind)

section \<open>Lists\<close>

lemma upt_join: "a \<le> b \<Longrightarrow> b \<le> c \<Longrightarrow> [a ..< b] @ [b ..< c] = [a ..< c]"
  using upt_add_eq_append [of a b "c - b"] by simp

section \<open>Association lists\<close>

lemma filter_fresh: "k \<notin> fst ` set xs \<Longrightarrow> filter (\<lambda>p. fst p \<noteq> k) xs = xs"
  by (intro filter_True) (auto intro: rev_image_eqI)

lemma filter_fresh_map_of: "map_of xs k = None \<Longrightarrow> filter (\<lambda>p. fst p \<noteq> k) xs = xs"
  by (simp add: filter_fresh map_of_eq_None_iff)

lemma map_of_filter_neq: "map_of (filter (\<lambda>p. fst p \<noteq> k) xs) = (map_of xs)(k := None)"
  by (induction xs) auto

section \<open>32-bit signed integers\<close>

text \<open>
  \<open>int\<close> and \<open>int32_t\<close> values are mathematical integers in the 32-bit range; an operation
  whose exact result leaves the range is undefined behaviour (signed overflow).
\<close>

definition int32_min :: int where "int32_min = - 2147483648"
definition int32_max :: int where "int32_max = 2147483647"

definition in_int32 :: "int \<Rightarrow> bool" where
  "in_int32 x \<longleftrightarrow> int32_min \<le> x \<and> x \<le> int32_max"

definition checked_int32 :: "int \<Rightarrow> int outcome" where
  "checked_int32 x = (if in_int32 x then Inr x else Inl (UB SignedOverflow))"

lemmas int32_defs = in_int32_def int32_min_def int32_max_def

lemma checked_int32_Inr [simp]: "in_int32 x \<Longrightarrow> checked_int32 x = Inr x"
  by (simp add: checked_int32_def)

lemma checked_int32_eq_Inr_iff: "checked_int32 x = Inr y \<longleftrightarrow> y = x \<and> in_int32 x"
  by (auto simp: checked_int32_def)

text \<open>Conversion of an integer of any width to \<open>int32_t\<close> keeps the low 32 bits.\<close>

definition to_int32 :: "int \<Rightarrow> int" where
  "to_int32 x = (x + 2147483648) mod 4294967296 - 2147483648"

lemma to_int32_range: "in_int32 (to_int32 x)"
proof -
  have "0 \<le> (x + 2147483648) mod 4294967296" "(x + 2147483648) mod 4294967296 < 4294967296"
    by simp_all
  then show ?thesis unfolding to_int32_def int32_defs by linarith
qed

lemma to_int32_id [simp]: "in_int32 x \<Longrightarrow> to_int32 x = x"
  by (simp add: to_int32_def int32_defs)

text \<open>Likewise for \<open>int64_t\<close>.\<close>

definition to_int64 :: "int \<Rightarrow> int" where
  "to_int64 x = (x + 9223372036854775808) mod 18446744073709551616 - 9223372036854775808"

lemma to_int64_id [simp]: "- (2 ^ 63) \<le> x \<Longrightarrow> x < 2 ^ 63 \<Longrightarrow> to_int64 x = x"
  by (simp add: to_int64_def)

end
