(* ===== verification/CStrings.thy ===== *)
theory CStrings
  imports Prelude "HOL-Library.Char_ord" "HOL-Library.List_Lexorder"
begin

text \<open>
  The C and C++ library functions on strings that the program calls.  A \<open>std::string\<close> is a
  list of bytes; \<open>operator<\<close> on strings is the lexicographic order on the bytes as unsigned
  numbers, which is the order of \<open>string\<close> set up by the library theories imported here.
\<close>

section \<open>Characters\<close>

definition is_digit :: "char \<Rightarrow> bool" where
  "is_digit c \<longleftrightarrow> 48 \<le> (of_char c :: nat) \<and> (of_char c :: nat) \<le> 57"

definition digit_value :: "char \<Rightarrow> int" where
  "digit_value c = int (of_char c) - 48"

definition is_space :: "char \<Rightarrow> bool" where
  "is_space c \<longleftrightarrow> (of_char c :: nat) = 32 \<or> 9 \<le> (of_char c :: nat) \<and> (of_char c :: nat) \<le> 13"

definition to_lower :: "char \<Rightarrow> char" where
  "to_lower c = (if 65 \<le> (of_char c :: nat) \<and> (of_char c :: nat) \<le> 90
     then char_of ((of_char c :: nat) + 32) else c)"

text \<open>\<open>isdigit\<close> returns some non-zero value, the same for all digits in one C library, or 0.\<close>

definition isdigit :: "int \<Rightarrow> char \<Rightarrow> int" where
  "isdigit nz c = (if is_digit c then nz else 0)"

section \<open>Numbers\<close>

fun digits_value :: "int \<Rightarrow> string \<Rightarrow> int" where
  "digits_value acc [] = acc"
| "digits_value acc (c # s) =
     (if is_digit c then digits_value (10 * acc + digit_value c) s else acc)"

definition int64_min :: int where "int64_min = - 9223372036854775808"
definition int64_max :: int where "int64_max = 9223372036854775807"

text \<open>\<open>strtol(s, NULL, 10)\<close> saturates at the bounds of \<open>long\<close>.\<close>

definition strtol10 :: "string \<Rightarrow> int" where
  "strtol10 s =
     (let t = dropWhile is_space s;
          v = (case t of
                 [] \<Rightarrow> 0
               | c # u \<Rightarrow> (if c = CHR ''-'' then - digits_value 0 u
                           else if c = CHR ''+'' then digits_value 0 u
                           else digits_value 0 t))
      in max int64_min (min int64_max v))"

text \<open>\<open>atoi(s)\<close> is \<open>(int) strtol(s, NULL, 10)\<close>.\<close>

definition atoi :: "string \<Rightarrow> int" where
  "atoi s = to_int32 (strtol10 s)"

lemma atoi_range: "in_int32 (atoi s)"
  by (simp add: atoi_def to_int32_range)

section \<open>Comparison and search\<close>

text \<open>\<open>strcasecmp(s, t) == 0\<close> in the C locale.\<close>

definition strcaseeq :: "string \<Rightarrow> string \<Rightarrow> bool" where
  "strcaseeq s t \<longleftrightarrow> map to_lower s = map to_lower t"

fun starts_with :: "string \<Rightarrow> string \<Rightarrow> bool" where
  "starts_with [] s = True"
| "starts_with (c # p) [] = False"
| "starts_with (c # p) (d # s) = (c = d \<and> starts_with p s)"

lemma starts_with_iff: "starts_with p s \<longleftrightarrow> (\<exists>t. s = p @ t)"
  by (induction p s rule: starts_with.induct) auto

text \<open>\<open>strstr(s, p) != NULL\<close>\<close>

fun contains :: "string \<Rightarrow> string \<Rightarrow> bool" where
  "contains [] p = (p = [])"
| "contains (c # s) p = (starts_with p (c # s) \<or> contains s p)"

lemma contains_iff: "contains s p \<longleftrightarrow> (\<exists>u v. s = u @ p @ v)"
proof (induction s)
  case Nil
  then show ?case by auto
next
  case (Cons c s)
  have "(\<exists>u v. c # s = u @ p @ v) \<longleftrightarrow> (\<exists>v. c # s = p @ v) \<or> (\<exists>u v. s = u @ p @ v)"
    by (metis append_Cons append_Nil list.exhaust list.inject)
  with Cons show ?case by (simp add: starts_with_iff)
qed

text \<open>\<open>strcasestr(s, p) != NULL\<close>\<close>

definition containscase :: "string \<Rightarrow> string \<Rightarrow> bool" where
  "containscase s p = contains (map to_lower s) (map to_lower p)"

text \<open>Decimal output of an integer, as \<open>operator<<\<close> and \<open>to_string\<close> print it.\<close>

fun show_nat :: "nat \<Rightarrow> string" where
  "show_nat n = (if n < 10 then [char_of (48 + n)] else show_nat (n div 10) @ [char_of (48 + n mod 10)])"

declare show_nat.simps [simp del]

definition show_int :: "int \<Rightarrow> string" where
  "show_int i = (if i < 0 then CHR ''-'' # show_nat (nat (- i)) else show_nat (nat i))"

lemma of_char_48: "d < 10 \<Longrightarrow> of_char (char_of (48 + d) :: char) = 48 + (d::nat)"
  by (simp add: of_char_of)

lemma show_nat_digits: "\<forall>c \<in> set (show_nat n). is_digit c"
proof (induction n rule: show_nat.induct)
  case (1 n)
  then show ?case
    by (cases "n < 10") (simp_all add: show_nat.simps [of n] is_digit_def of_char_48)
qed

lemma show_nat_nonempty [simp]: "show_nat n \<noteq> []"
  by (simp add: show_nat.simps [of n])

lemma digits_value_append:
  "\<forall>c \<in> set s. is_digit c \<Longrightarrow> digits_value a (s @ t) = digits_value (digits_value a s) t"
  by (induction s arbitrary: a) auto

lemma digit_value_48: "d < 10 \<Longrightarrow> digit_value (char_of (48 + d)) = int d"
  by (simp add: digit_value_def of_char_48)

lemma digits_value_show_nat: "digits_value 0 (show_nat n) = int n"
proof (induction n rule: show_nat.induct)
  case (1 n)
  show ?case
  proof (cases "n < 10")
    case True
    then show ?thesis
      by (simp add: show_nat.simps [of n] is_digit_def of_char_48 digit_value_48)
  next
    case False
    have "digits_value 0 (show_nat n) = 10 * int (n div 10) + int (n mod 10)"
      using False 1
      by (simp add: show_nat.simps [of n] digits_value_append [OF show_nat_digits] is_digit_def
          of_char_48 digit_value_48)
    also have "\<dots> = int (10 * (n div 10) + n mod 10)" by (simp only: of_nat_add of_nat_mult of_nat_numeral)
    finally show ?thesis by simp
  qed
qed

lemma strtol10_show_int: "int64_min \<le> i \<Longrightarrow> i \<le> int64_max \<Longrightarrow> strtol10 (show_int i) = i"
proof -
  assume i: "int64_min \<le> i" "i \<le> int64_max"
  have sp: "\<not> is_space c \<and> c \<noteq> CHR ''-'' \<and> c \<noteq> CHR ''+''" if "is_digit c" for c
    using that by (auto simp: is_digit_def is_space_def)
  show ?thesis
  proof (cases "i < 0")
    case True
    with i show ?thesis
      by (simp add: strtol10_def show_int_def digits_value_show_nat is_space_def)
  next
    case False
    obtain c s where cs: "show_nat (nat i) = c # s" using show_nat_nonempty by (cases "show_nat (nat i)") auto
    then have "is_digit c" using show_nat_digits [of "nat i"] by simp
    with sp [of c] cs False i digits_value_show_nat [of "nat i"] show ?thesis
      by (simp add: strtol10_def show_int_def)
  qed
qed

section \<open>Characters without a literal\<close>

definition backslash :: string where "backslash = [CHR 0x5C]"
definition dquote :: string where "dquote = [CHR 0x22]"
definition squote :: string where "squote = [CHR 0x27]"
definition newline_char :: char where "newline_char = CHR 0x0A"

text \<open>\<open>c_str()\<close> handed to a C function: the text up to the first null character.\<close>

definition c_str :: "string \<Rightarrow> string" where
  "c_str s = takeWhile (\<lambda>c. c \<noteq> CHR 0x00) s"

end
