(* ===== verification/Dom.thy ===== *)
theory Dom
  imports CStrings
begin

text \<open>
  The libxml2 document tree as the program sees it: nodes in a heap, linked by pointers.
  The program walks sibling chains by \<open>next\<close> and, when it resolves associations, rewires
  \<open>children\<close>, \<open>next\<close>, \<open>last\<close> and \<open>properties\<close> itself, so that chains are shared between nodes;
  a tree of child lists would not show that.  libxml2's own functions are parameters.
\<close>

section \<open>Nodes\<close>

type_synonym addr = nat
type_synonym ctxref = nat

datatype node_type = ElementNode | TextNode | OtherNode

text \<open>
  The attributes are the list at \<open>properties\<close>: names with the text of their first child,
  \<open>None\<close> when there is no such child.  Nobody changes an attribute after parsing, so sharing
  an attribute list is the same as having an equal one.  Names, contents and attribute values
  are C strings, without a null character.  \<open>xn_private\<close> is the \<open>Context\<close>.
\<close>

record xnode =
  xn_type :: node_type
  xn_name :: "string option"
  xn_content :: string
  xn_parent :: "addr option"
  xn_children :: "addr option"
  xn_last :: "addr option"
  xn_next :: "addr option"
  xn_prev :: "addr option"
  xn_props :: "(string \<times> string option) list"
  xn_private :: "ctxref option"

text \<open>The heap: a freed address has no node; addresses are below \<open>dom_top\<close>.\<close>

record dom =
  dom_nodes :: "(addr \<times> xnode) list"
  dom_top :: nat

definition node_at_addr :: "dom \<Rightarrow> addr \<Rightarrow> xnode option" where
  "node_at_addr d a = map_of (dom_nodes d) a"

definition deref :: "dom \<Rightarrow> addr option \<Rightarrow> xnode outcome" where
  "deref d p = (case p of
     None \<Rightarrow> Inl (UB NullDeref)
   | Some a \<Rightarrow> (case node_at_addr d a of None \<Rightarrow> Inl (UB UseAfterFree) | Some n \<Rightarrow> Inr n))"

definition update_node :: "addr \<Rightarrow> (xnode \<Rightarrow> xnode) \<Rightarrow> dom \<Rightarrow> dom" where
  "update_node a f d = d\<lparr>dom_nodes := map (\<lambda>(b, n). if b = a then (b, f n) else (b, n)) (dom_nodes d)\<rparr>"

lemma node_at_update_node:
  "node_at_addr (update_node a f d) b = (if b = a then map_option f (node_at_addr d b) else node_at_addr d b)"
proof -
  have "map_of (map (\<lambda>(b, n). if b = a then (b, f n) else (b, n)) xs) b =
      (if b = a then map_option f (map_of xs b) else map_of xs b)" for xs
    by (induction xs) auto
  then show ?thesis by (simp add: node_at_addr_def update_node_def)
qed

lemma dom_top_update_node [simp]: "dom_top (update_node a f d) = dom_top d"
  by (simp add: update_node_def)

text \<open>Writing through a pointer.\<close>

definition store_node :: "addr option \<Rightarrow> (xnode \<Rightarrow> xnode) \<Rightarrow> dom \<Rightarrow> dom outcome" where
  "store_node p f d = ebind (deref d p) (\<lambda>_. Inr (update_node (the p) f d))"

section \<open>Sibling chains\<close>

text \<open>
  The loops \<open>for (child = first; child; child = child->next)\<close> whose body does not change the
  links.  A chain longer than the heap has a cycle, and the loop does not end.
\<close>

fun chain_fuel :: "nat \<Rightarrow> dom \<Rightarrow> addr option \<Rightarrow> (addr \<times> xnode) list outcome" where
  "chain_fuel n d None = Inr []"
| "chain_fuel 0 d (Some a) = Inl Diverges"
| "chain_fuel (Suc n) d (Some a) =
     ebind (deref d (Some a)) (\<lambda>x. ebind (chain_fuel n d (xn_next x)) (\<lambda>xs. Inr ((a, x) # xs)))"

definition chain :: "dom \<Rightarrow> addr option \<Rightarrow> (addr \<times> xnode) list outcome" where
  "chain d p = chain_fuel (length (dom_nodes d)) d p"

text \<open>The path of a chain: what \<open>chain\<close> returns, described without fuel.\<close>

inductive chain_path :: "dom \<Rightarrow> addr option \<Rightarrow> (addr \<times> xnode) list \<Rightarrow> bool" for d where
  chain_nil: "chain_path d None []"
| chain_cons: "node_at_addr d a = Some x \<Longrightarrow> chain_path d (xn_next x) xs \<Longrightarrow>
    chain_path d (Some a) ((a, x) # xs)"

inductive_cases chain_path_SomeE: "chain_path d (Some a) xs"
inductive_simps chain_path_None [simp]: "chain_path d None xs"
inductive_simps chain_path_Some: "chain_path d (Some a) xs"

lemma deref_Some_eq [simp]:
  "deref d (Some a) = (case node_at_addr d a of None \<Rightarrow> Inl (UB UseAfterFree) | Some n \<Rightarrow> Inr n)"
  by (simp add: deref_def)

lemma deref_eq_Inr_iff: "deref d p = Inr x \<longleftrightarrow> (\<exists>a. p = Some a \<and> node_at_addr d a = Some x)"
  by (auto simp: deref_def split: option.splits)

lemma chain_fuel_path: "chain_fuel n d p = Inr xs \<Longrightarrow> chain_path d p xs"
proof (induction n d p arbitrary: xs rule: chain_fuel.induct)
  case (3 n d a)
  then show ?case
    by (auto simp: ebind_eq_Inr_iff intro: chain_cons split: option.splits)
qed auto

lemma chain_path_det: "chain_path d p xs \<Longrightarrow> chain_path d p ys \<Longrightarrow> xs = ys"
proof (induction p xs arbitrary: ys rule: chain_path.induct)
  case (chain_cons a x xs)
  from chain_cons.prems obtain zs where "ys = (a, x) # zs" "chain_path d (xn_next x) zs"
    using chain_cons.hyps(1) by (auto simp: chain_path_Some)
  with chain_cons.IH show ?case by simp
qed simp

lemma path_chain_fuel: "chain_path d p xs \<Longrightarrow> length xs \<le> n \<Longrightarrow> chain_fuel n d p = Inr xs"
proof (induction p xs arbitrary: n rule: chain_path.induct)
  case (chain_cons a x xs)
  then obtain n' where "n = Suc n'" by (cases n) auto
  with chain_cons show ?case by simp
qed simp

text \<open>No node occurs twice on a path, so the heap bounds its length.\<close>

lemma chain_path_suffix:
  "chain_path d p xs \<Longrightarrow> (a, x) \<in> set xs \<Longrightarrow> \<exists>ys zs. xs = ys @ zs \<and> chain_path d (Some a) zs \<and> zs \<noteq> []"
proof (induction p xs rule: chain_path.induct)
  case (chain_cons b y xs)
  show ?case
  proof (cases "(a, x) = (b, y)")
    case True
    then show ?thesis
      using chain_cons.hyps
      by (intro exI [of _ "[]"] exI [of _ "(b, y) # xs"]) (auto intro: chain_path.intros)
  next
    case False
    then obtain ys zs where "xs = ys @ zs" "chain_path d (Some a) zs" "zs \<noteq> []"
      using chain_cons by auto
    then show ?thesis by (intro exI [of _ "(b, y) # ys"] exI [of _ zs]) simp
  qed
qed simp

lemma chain_path_distinct: "chain_path d p xs \<Longrightarrow> distinct (map fst xs)"
proof (induction p xs rule: chain_path.induct)
  case (chain_cons a x xs)
  have "a \<notin> fst ` set xs"
  proof
    assume "a \<in> fst ` set xs"
    then obtain y where "(a, y) \<in> set xs" by auto
    from chain_path_suffix [OF chain_cons.hyps(2) this] obtain ys zs
      where "xs = ys @ zs" "chain_path d (Some a) zs" by blast
    note sp = this
    have "chain_path d (Some a) ((a, x) # xs)"
      using chain_cons.hyps by (rule chain_path.chain_cons)
    then have "(a, x) # xs = zs" using sp(2) by (rule chain_path_det)
    with sp(1) have "length xs = length ys + Suc (length xs)" by (metis length_Cons length_append)
    then show False by simp
  qed
  with chain_cons.IH show ?case by simp
qed simp

lemma chain_path_subset: "chain_path d p xs \<Longrightarrow> fst ` set xs \<subseteq> fst ` set (dom_nodes d)"
  by (induction p xs rule: chain_path.induct) (auto simp: node_at_addr_def dest!: map_of_SomeD
    intro: rev_image_eqI)

lemma chain_path_length:
  assumes "chain_path d p xs"
  shows "length xs \<le> length (dom_nodes d)"
proof -
  have "length xs = card (fst ` set xs)"
    using distinct_card [OF chain_path_distinct [OF assms]] by simp
  also have "\<dots> \<le> card (fst ` set (dom_nodes d))"
    by (intro card_mono chain_path_subset [OF assms]) simp
  also have "\<dots> \<le> length (dom_nodes d)"
    using card_length [of "map fst (dom_nodes d)"] by simp
  finally show ?thesis .
qed

text \<open>The fuel is enough: \<open>chain\<close> returns the nodes of a chain exactly when the chain ends.\<close>

lemma chain_eq_Inr_iff: "chain d p = Inr xs \<longleftrightarrow> chain_path d p xs"
  unfolding chain_def by (meson chain_fuel_path path_chain_fuel chain_path_length)

section \<open>A small document\<close>

text \<open>For examples: an element with an element child that holds a text.\<close>

definition plain_node :: "node_type \<Rightarrow> string \<Rightarrow> string \<Rightarrow> addr option \<Rightarrow> xnode" where
  "plain_node ty name content child = \<lparr>xn_type = ty, xn_name = Some name, xn_content = content,
     xn_parent = None, xn_children = child, xn_last = child, xn_next = None, xn_prev = None,
     xn_props = [], xn_private = None\<rparr>"

definition demo_dom :: dom where
  "demo_dom = \<lparr>dom_nodes = [(0, plain_node ElementNode ''artist'' [] (Some 1)),
     (1, plain_node ElementNode ''name'' [] (Some 2)), (2, plain_node TextNode ''text'' ''Hello'' None)],
     dom_top = 3\<rparr>"

end
