(* ===== verification/Memo.thy ===== *)
theory Memo
  imports Prelude
begin

text \<open>
  The interface between the code that remembers results (\<open>Site::fetch_query\<close>,
  \<open>Context::getCount\<close>, \<open>Context::getData\<close>) and the stores it keeps them in (the LRU cache, maps).
  A store may forget; what it still knows is what was put in last.
\<close>

section \<open>Remembering a function\<close>

definition memo :: "('s \<Rightarrow> 'k \<Rightarrow> 'v option) \<Rightarrow> ('k \<Rightarrow> 'v \<Rightarrow> 's \<Rightarrow> 's) \<Rightarrow> ('k \<Rightarrow> 'v outcome) \<Rightarrow> 'k \<Rightarrow> ('s, 'v) sm" where
  "memo lookup store f k = (\<lambda>s.
     (case lookup s k of
        Some v \<Rightarrow> (Inr v, s)
      | None \<Rightarrow> (case f k of Inl e \<Rightarrow> (Inl e, s) | Inr v \<Rightarrow> (Inr v, store k v s))))"

text \<open>Everything remembered is what the function gives.\<close>

definition coherent :: "('s \<Rightarrow> 'k \<Rightarrow> 'v option) \<Rightarrow> ('k \<Rightarrow> 'v outcome) \<Rightarrow> 's \<Rightarrow> bool" where
  "coherent lookup f s \<longleftrightarrow> (\<forall>k v. lookup s k = Some v \<longrightarrow> f k = Inr v)"

locale memo_cache =
  fixes inv :: "'s \<Rightarrow> bool"
    and lookup :: "'s \<Rightarrow> 'k \<Rightarrow> 'v option"
    and store :: "'k \<Rightarrow> 'v \<Rightarrow> 's \<Rightarrow> 's"
  assumes store_inv: "inv s \<Longrightarrow> inv (store k v s)"
    and store_sound: "inv s \<Longrightarrow> lookup (store k v s) k' = Some v' \<Longrightarrow>
      (k' = k \<and> v' = v) \<or> (k' \<noteq> k \<and> lookup s k' = Some v')"
begin

lemma coherent_store:
  assumes "inv s" and "coherent lookup f s" and "f k = Inr v"
  shows "coherent lookup f (store k v s)"
  using store_sound [OF assms(1)] assms(2,3) unfolding coherent_def by blast

lemma memo_result: "coherent lookup f s \<Longrightarrow> fst (memo lookup store f k s) = f k"
  by (auto simp: memo_def coherent_def split: option.split sum.split)

lemma memo_keeps:
  assumes "inv s" and "coherent lookup f s"
  shows "inv (snd (memo lookup store f k s)) \<and> coherent lookup f (snd (memo lookup store f k s))"
  using assms store_inv coherent_store
  by (auto simp: memo_def split: option.split sum.split)

end

text \<open>A store that does not lose the entry it has just been given.\<close>

locale retaining_cache = memo_cache +
  assumes store_retains: "inv s \<Longrightarrow> lookup (store k v s) k = Some v"
begin

lemma memo_again:
  assumes "inv s" and "fst (memo lookup store f k s) = Inr v"
  shows "memo lookup store g k (snd (memo lookup store f k s)) = (Inr v, snd (memo lookup store f k s))"
  using assms store_retains [OF assms(1), of k]
  by (auto simp: memo_def split: option.splits sum.splits)

end

end
