(* ===== verification/LruCache.thy ===== *)
theory LruCache
  imports Memo
begin

text \<open>
  \<^verbatim>\<open>src/lru_cache.h\<close>: the template \<open>LRUCache<Key, Data, Sizefn>\<close>.  The cache keeps its
  pairs in a \<open>std::list\<close>, most recently inserted or touched first, and an index from keys
  to list iterators.  A list node is identified by a number (an iterator is the number of
  the node it points to), so an iterator that outlives its node is visible in the model:
  dereferencing it is undefined behaviour, here \<open>None\<close>.  Sizes are \<open>unsigned long\<close>, kept
  at 64 bits.  Each operation runs under the cache's mutex, hence as one step.
\<close>

section \<open>State and operations\<close>

record ('k, 'd) lru =
  lru_list :: "(nat \<times> 'k \<times> 'd) list"
  lru_index :: "'k \<rightharpoonup> nat"
  lru_max_size :: "64 word"
  lru_curr_size :: "64 word"
  lru_next_node :: nat

definition countfn :: "'d \<Rightarrow> 64 word" where
  "countfn x = 1"

definition lru_new :: "64 word \<Rightarrow> ('k, 'd) lru" where
  "lru_new sz = \<lparr>lru_list = [], lru_index = Map.empty, lru_max_size = sz,
     lru_curr_size = 0, lru_next_node = 0\<rparr>"

definition lru_clear :: "('k, 'd) lru \<Rightarrow> ('k, 'd) lru" where
  "lru_clear c = c\<lparr>lru_list := [], lru_index := Map.empty, lru_curr_size := 0\<rparr>"

definition lru_size :: "('k, 'd) lru \<Rightarrow> 64 word" where
  "lru_size c = lru_curr_size c"

definition lru_capacity :: "('k, 'd) lru \<Rightarrow> 64 word" where
  "lru_capacity c = lru_max_size c"

definition lru_exists :: "('k, 'd) lru \<Rightarrow> 'k \<Rightarrow> bool" where
  "lru_exists c k \<longleftrightarrow> lru_index c k \<noteq> None"

text \<open>Dereferencing a list iterator.\<close>

definition node_at :: "('k, 'd) lru \<Rightarrow> nat \<Rightarrow> ('k \<times> 'd) option" where
  "node_at c i = map_of (lru_list c) i"

text \<open>\<open>_list.splice(_list.begin(), _list, it)\<close>: the node keeps its identity.\<close>

definition splice_front :: "('k, 'd) lru \<Rightarrow> nat \<Rightarrow> ('k, 'd) lru option" where
  "splice_front c i =
     (case node_at c i of
        None \<Rightarrow> None
      | Some kd \<Rightarrow> Some (c\<lparr>lru_list := (i, kd) # filter (\<lambda>n. fst n \<noteq> i) (lru_list c)\<rparr>))"

text \<open>\<open>_touch\<close> returns the index iterator: the key if it is there, \<open>end()\<close> otherwise.\<close>

definition touch_aux :: "('k, 'd) lru \<Rightarrow> 'k \<Rightarrow> ('k option \<times> ('k, 'd) lru) option" where
  "touch_aux c k =
     (case lru_index c k of
        None \<Rightarrow> Some (None, c)
      | Some i \<Rightarrow> map_option (Pair (Some k)) (splice_front c i))"

definition lru_touch :: "('k, 'd) lru \<Rightarrow> 'k \<Rightarrow> ('k, 'd) lru option" where
  "lru_touch c k = map_option snd (touch_aux c k)"

text \<open>\<open>_remove(miter)\<close>, where the index iterator is the key it points at; \<open>end()\<close> cannot
  be dereferenced.\<close>

definition remove_at :: "('d \<Rightarrow> 64 word) \<Rightarrow> ('k, 'd) lru \<Rightarrow> 'k \<Rightarrow> ('k, 'd) lru option" where
  "remove_at sizefn c k =
     (case lru_index c k of
        None \<Rightarrow> None
      | Some i \<Rightarrow>
          (case node_at c i of
             None \<Rightarrow> None
           | Some kd \<Rightarrow> Some (c\<lparr>
               lru_curr_size := lru_curr_size c - sizefn (snd kd),
               lru_list := filter (\<lambda>n. fst n \<noteq> i) (lru_list c),
               lru_index := (lru_index c)(k := None)\<rparr>)))"

definition lru_remove :: "('d \<Rightarrow> 64 word) \<Rightarrow> ('k, 'd) lru \<Rightarrow> 'k \<Rightarrow> ('k, 'd) lru option" where
  "lru_remove sizefn c k = (if lru_index c k = None then Some c else remove_at sizefn c k)"

text \<open>\<open>fetch_ptr\<close>: the flag \<open>touch\<close> is accepted and not looked at.\<close>

definition lru_fetch_ptr ::
  "('k, 'd) lru \<Rightarrow> 'k \<Rightarrow> bool \<Rightarrow> ('d option \<times> ('k, 'd) lru) option" where
  "lru_fetch_ptr c k touch =
     (case lru_index c k of
        None \<Rightarrow> Some (None, c)
      | Some i \<Rightarrow>
          (case touch_aux c k of
             None \<Rightarrow> None
           | Some (_, c') \<Rightarrow> map_option (\<lambda>kd. (Some (snd kd), c')) (node_at c' i)))"

text \<open>\<open>fetch\<close> by value: \<open>dflt\<close> is the value-initialised \<open>Data()\<close>.\<close>

definition lru_fetch ::
  "'d \<Rightarrow> ('k, 'd) lru \<Rightarrow> 'k \<Rightarrow> bool \<Rightarrow> ('d \<times> ('k, 'd) lru) option" where
  "lru_fetch dflt c k touch_data =
     (case lru_index c k of
        None \<Rightarrow> Some (dflt, c)
      | Some i \<Rightarrow>
          (case node_at c i of
             None \<Rightarrow> None
           | Some kd \<Rightarrow>
               (if touch_data then map_option (Pair (snd kd)) (lru_touch c k)
                else Some (snd kd, c))))"

text \<open>\<open>fetch\<close> into a reference: the result says whether the reference was filled.\<close>

definition lru_fetch_into ::
  "('k, 'd) lru \<Rightarrow> 'k \<Rightarrow> 'd \<Rightarrow> bool \<Rightarrow> (bool \<times> 'd \<times> ('k, 'd) lru) option" where
  "lru_fetch_into c k data touch_data =
     (case lru_index c k of
        None \<Rightarrow> Some (False, data, c)
      | Some i \<Rightarrow>
          (case (if touch_data then splice_front c i else Some c) of
             None \<Rightarrow> None
           | Some c' \<Rightarrow> map_option (\<lambda>kd. (True, snd kd, c')) (node_at c' i)))"

text \<open>The eviction loop of \<open>insert\<close>: decrementing \<open>end()\<close> of an empty list is undefined.\<close>

lemma remove_at_shrinks:
  "remove_at sizefn c k = Some c' \<Longrightarrow> length (lru_list c') < length (lru_list c)"
  by (auto simp: remove_at_def node_at_def split: option.splits
      intro!: length_filter_less dest!: map_of_SomeD)

function evict :: "('d \<Rightarrow> 64 word) \<Rightarrow> ('k, 'd) lru \<Rightarrow> ('k, 'd) lru option" where
  "evict sizefn c =
     (if lru_max_size c < lru_curr_size c then
        (if lru_list c = [] then None
         else (case remove_at sizefn c (fst (snd (last (lru_list c)))) of
                 None \<Rightarrow> None
               | Some c' \<Rightarrow> evict sizefn c'))
      else Some c)"
  by pat_completeness auto
termination
  by (relation "measure (\<lambda>(_, c). length (lru_list c))") (auto dest: remove_at_shrinks)

declare evict.simps [simp del]

definition lru_insert ::
  "('d \<Rightarrow> 64 word) \<Rightarrow> ('k, 'd) lru \<Rightarrow> 'k \<Rightarrow> 'd \<Rightarrow> ('k, 'd) lru option" where
  "lru_insert sizefn c k d =
     Option.bind (touch_aux c k) (\<lambda>(it, c1).
     Option.bind (case it of None \<Rightarrow> Some c1 | Some k' \<Rightarrow> remove_at sizefn c1 k') (\<lambda>c2.
       evict sizefn (c2\<lparr>
         lru_list := (lru_next_node c2, k, d) # lru_list c2,
         lru_index := (case lru_index c2 k of
            None \<Rightarrow> (lru_index c2)(k \<mapsto> lru_next_node c2) | Some _ \<Rightarrow> lru_index c2),
         lru_curr_size := lru_curr_size c2 + sizefn d,
         lru_next_node := Suc (lru_next_node c2)\<rparr>)))"

definition lru_get_all_keys :: "('k, 'd) lru \<Rightarrow> 'k list" where
  "lru_get_all_keys c = map (\<lambda>n. fst (snd n)) (lru_list c)"

section \<open>Well-formedness and the abstract cache\<close>

text \<open>
  The abstract cache is the list of its pairs, most recent first.  The invariant ties the
  index to the list (each key has exactly the node that carries it), keeps nodes and keys
  distinct, and says that the size counter is the sum of the sizes, with no wrap-around.
\<close>

definition lru_abs :: "('k, 'd) lru \<Rightarrow> ('k \<times> 'd) list" where
  "lru_abs c = map snd (lru_list c)"

definition total_size :: "('d \<Rightarrow> 64 word) \<Rightarrow> ('k \<times> 'd) list \<Rightarrow> nat" where
  "total_size sizefn xs = (\<Sum>p\<leftarrow>xs. unat (sizefn (snd p)))"

definition lru_wf :: "('d \<Rightarrow> 64 word) \<Rightarrow> ('k, 'd) lru \<Rightarrow> bool" where
  "lru_wf sizefn c \<longleftrightarrow>
     distinct (map fst (lru_list c)) \<and>
     distinct (map fst (lru_abs c)) \<and>
     (\<forall>n \<in> set (lru_list c). fst n < lru_next_node c) \<and>
     (\<forall>k i. lru_index c k = Some i \<longleftrightarrow> (\<exists>d. (i, k, d) \<in> set (lru_list c))) \<and>
     unat (lru_curr_size c) = total_size sizefn (lru_abs c)"

definition lru_inv :: "('d \<Rightarrow> 64 word) \<Rightarrow> ('k, 'd) lru \<Rightarrow> bool" where
  "lru_inv sizefn c \<longleftrightarrow> lru_wf sizefn c \<and> lru_curr_size c \<le> lru_max_size c"

lemma total_size_simps [simp]:
  "total_size sizefn [] = 0"
  "total_size sizefn (p # xs) = unat (sizefn (snd p)) + total_size sizefn xs"
  "total_size sizefn (xs @ ys) = total_size sizefn xs + total_size sizefn ys"
  by (simp_all add: total_size_def)

lemma total_size_count [simp]: "total_size countfn xs = length xs"
  by (induction xs) (simp_all add: countfn_def)

lemma total_size_remove:
  assumes "distinct (map fst xs)" and "(k, d) \<in> set xs"
  shows "total_size sizefn xs
    = unat (sizefn d) + total_size sizefn (filter (\<lambda>p. fst p \<noteq> k) xs)"
  using assms
proof (induction xs)
  case Nil
  then show ?case by simp
next
  case (Cons p xs)
  show ?case
  proof (cases "fst p = k")
    case True
    have "k \<notin> fst ` set xs" using True Cons.prems(1) by auto
    with Cons.prems(2) have "p = (k, d)" by force
    moreover have "filter (\<lambda>q. fst q \<noteq> k) xs = xs"
      using \<open>k \<notin> fst ` set xs\<close> by (rule filter_fresh)
    ultimately show ?thesis by simp
  next
    case False
    with Cons show ?thesis by auto
  qed
qed

lemma lru_wf_new: "lru_inv sizefn (lru_new sz)"
  by (simp add: lru_inv_def lru_wf_def lru_new_def lru_abs_def)

lemma lru_wf_clear: "lru_inv sizefn (lru_clear c)"
  by (simp add: lru_inv_def lru_wf_def lru_clear_def lru_abs_def)

lemma index_None_iff:
  assumes "lru_wf sizefn c"
  shows "lru_index c k = None \<longleftrightarrow> k \<notin> fst ` set (lru_abs c)"
proof -
  have "lru_index c k \<noteq> None \<longleftrightarrow> (\<exists>i d. (i, k, d) \<in> set (lru_list c))"
    using assms by (auto simp: lru_wf_def)
  also have "\<dots> \<longleftrightarrow> k \<in> fst ` set (lru_abs c)"
    by (force simp: lru_abs_def)
  finally show ?thesis by blast
qed

lemma index_SomeD:
  assumes "lru_wf sizefn c" and "lru_index c k = Some i"
  obtains d where "(i, k, d) \<in> set (lru_list c)" and "node_at c i = Some (k, d)"
    and "(k, d) \<in> set (lru_abs c)" and "map_of (lru_abs c) k = Some d"
proof -
  from assms obtain d where d: "(i, k, d) \<in> set (lru_list c)"
    by (auto simp: lru_wf_def)
  then have "(k, d) \<in> set (lru_abs c)" by (force simp: lru_abs_def)
  with d assms(1) that show thesis
    by (simp add: lru_wf_def node_at_def)
qed

text \<open>Nodes and keys correspond, so removing a node is removing its key.\<close>

lemma map_snd_filter_node:
  assumes "lru_wf sizefn c" and "(i, k, d) \<in> set (lru_list c)"
  shows "filter (\<lambda>n. fst n \<noteq> i) (lru_list c) = filter (\<lambda>n. fst (snd n) \<noteq> k) (lru_list c)"
proof (rule filter_cong [OF refl])
  fix n assume n: "n \<in> set (lru_list c)"
  obtain j k' d' where [simp]: "n = (j, k', d')" by (cases n)
  have "j = i \<longleftrightarrow> k' = k"
  proof
    assume "j = i"
    with n have "(i, k', d') \<in> set (lru_list c)" by simp
    moreover have "distinct (map fst (lru_list c))" using assms(1) by (simp only: lru_wf_def)
    ultimately show "k' = k"
      using eq_key_imp_eq_value [OF _ assms(2)] by blast
  next
    assume "k' = k"
    then have "lru_index c k = Some i" and "lru_index c k = Some j"
      using n assms by (auto simp: lru_wf_def)
    then show "j = i" by simp
  qed
  then show "(fst n \<noteq> i) = (fst (snd n) \<noteq> k)" by simp
qed

lemma lru_abs_filter:
  "map snd (filter (\<lambda>n. fst (snd n) \<noteq> k) xs) = filter (\<lambda>p. fst p \<noteq> k) (map snd xs)"
  by (simp add: filter_map comp_def)

section \<open>Every operation keeps the invariant and refines the abstract cache\<close>

lemma splice_front_spec:
  assumes wf: "lru_wf sizefn c" and k: "lru_index c k = Some i"
  obtains d c' where "splice_front c i = Some c'" and "lru_wf sizefn c'"
    and "lru_abs c' = (k, d) # filter (\<lambda>p. fst p \<noteq> k) (lru_abs c)"
    and "map_of (lru_abs c) k = Some d" and "node_at c' i = Some (k, d)"
    and "lru_index c' = lru_index c" and "lru_max_size c' = lru_max_size c"
    and "lru_curr_size c' = lru_curr_size c"
proof -
  from wf k obtain d where n: "(i, k, d) \<in> set (lru_list c)" and at: "node_at c i = Some (k, d)"
    and kd: "(k, d) \<in> set (lru_abs c)" and look: "map_of (lru_abs c) k = Some d"
    by (rule index_SomeD)
  let ?rest = "filter (\<lambda>n. fst n \<noteq> i) (lru_list c)"
  define c' where "c' = c\<lparr>lru_list := (i, k, d) # ?rest\<rparr>"
  have abs: "lru_abs c' = (k, d) # filter (\<lambda>p. fst p \<noteq> k) (lru_abs c)"
    by (simp add: c'_def lru_abs_def map_snd_filter_node [OF wf n] lru_abs_filter)
  have mem: "set (lru_list c') = set (lru_list c)"
    using n wf by (auto simp: c'_def lru_wf_def dest: eq_key_imp_eq_value)
  have "lru_wf sizefn c'"
    unfolding lru_wf_def
  proof (intro conjI)
    show "distinct (map fst (lru_list c'))"
      using wf by (auto simp: c'_def lru_wf_def distinct_map_filter)
    show "distinct (map fst (lru_abs c'))"
      using wf by (auto simp: abs lru_wf_def distinct_map_filter)
    show "\<forall>n\<in>set (lru_list c'). fst n < lru_next_node c'"
      using wf mem by (auto simp: c'_def lru_wf_def)
    show "\<forall>k i. (lru_index c' k = Some i) = (\<exists>d. (i, k, d) \<in> set (lru_list c'))"
      using wf by (simp only: mem) (simp add: c'_def lru_wf_def)
    show "unat (lru_curr_size c') = total_size sizefn (lru_abs c')"
      using wf total_size_remove [OF _ kd, of sizefn] by (simp add: abs) (simp add: c'_def lru_wf_def)
  qed
  with at abs look show thesis
    by (intro that [of c' d]) (simp_all add: splice_front_def c'_def node_at_def)
qed

lemma remove_at_spec:
  assumes wf: "lru_wf sizefn c" and k: "lru_index c k = Some i"
  obtains c' where "remove_at sizefn c k = Some c'" and "lru_wf sizefn c'"
    and "lru_abs c' = filter (\<lambda>p. fst p \<noteq> k) (lru_abs c)"
    and "lru_index c' = (lru_index c)(k := None)" and "lru_max_size c' = lru_max_size c"
    and "lru_curr_size c' \<le> lru_curr_size c"
proof -
  from wf k obtain d where n: "(i, k, d) \<in> set (lru_list c)" and at: "node_at c i = Some (k, d)"
    and kd: "(k, d) \<in> set (lru_abs c)"
    by (rule index_SomeD)
  have sz: "unat (lru_curr_size c)
      = unat (sizefn d) + total_size sizefn (filter (\<lambda>p. fst p \<noteq> k) (lru_abs c))"
    using wf total_size_remove [OF _ kd, of sizefn] by (simp add: lru_wf_def)
  then have le: "sizefn d \<le> lru_curr_size c"
    by (simp add: word_le_nat_alt)
  define c' where "c' = c\<lparr>
     lru_curr_size := lru_curr_size c - sizefn d,
     lru_list := filter (\<lambda>n. fst (snd n) \<noteq> k) (lru_list c),
     lru_index := (lru_index c)(k := None)\<rparr>"
  have rm: "remove_at sizefn c k = Some c'"
    using k at by (simp add: remove_at_def c'_def map_snd_filter_node [OF wf n])
  have abs: "lru_abs c' = filter (\<lambda>p. fst p \<noteq> k) (lru_abs c)"
    by (simp add: c'_def lru_abs_def lru_abs_filter)
  have "lru_wf sizefn c'"
    unfolding lru_wf_def
  proof (intro conjI)
    show "distinct (map fst (lru_list c'))"
      using wf by (auto simp: c'_def lru_wf_def distinct_map_filter)
    show "distinct (map fst (lru_abs c'))"
      using wf by (auto simp: abs lru_wf_def distinct_map_filter)
    show "\<forall>n\<in>set (lru_list c'). fst n < lru_next_node c'"
      using wf by (auto simp: c'_def lru_wf_def)
    show "\<forall>k i. (lru_index c' k = Some i) = (\<exists>d. (i, k, d) \<in> set (lru_list c'))"
      using wf by (auto simp: c'_def lru_wf_def)
    show "unat (lru_curr_size c') = total_size sizefn (lru_abs c')"
      using sz le unfolding abs by (simp add: c'_def unat_sub)
  qed
  moreover have "lru_curr_size c' \<le> lru_curr_size c"
    using le by (simp add: c'_def word_sub_le)
  ultimately show thesis using rm abs
    by (intro that [of c']) (simp_all add: c'_def)
qed

lemma touch_aux_spec:
  assumes "lru_wf sizefn c"
  obtains c' where "touch_aux c k = Some (map_option (\<lambda>_. k) (lru_index c k), c')"
    and "lru_wf sizefn c'" and "lru_index c' = lru_index c"
    and "lru_max_size c' = lru_max_size c" and "lru_curr_size c' = lru_curr_size c"
    and "lru_abs c' = (case map_of (lru_abs c) k of None \<Rightarrow> lru_abs c
           | Some d \<Rightarrow> (k, d) # filter (\<lambda>p. fst p \<noteq> k) (lru_abs c))"
proof (cases "lru_index c k")
  case None
  with assms have "map_of (lru_abs c) k = None"
    by (simp add: index_None_iff map_of_eq_None_iff)
  with None assms show thesis by (intro that [of c]) (simp_all add: touch_aux_def)
next
  case (Some i)
  with assms obtain d c' where "splice_front c i = Some c'" "lru_wf sizefn c'"
    "lru_abs c' = (k, d) # filter (\<lambda>p. fst p \<noteq> k) (lru_abs c)"
    "map_of (lru_abs c) k = Some d" "lru_index c' = lru_index c"
    "lru_max_size c' = lru_max_size c" "lru_curr_size c' = lru_curr_size c"
    by (rule splice_front_spec)
  with Some show thesis by (intro that [of c']) (simp_all add: touch_aux_def)
qed

text \<open>What \<open>insert\<close>'s loop leaves: the longest prefix that fits.\<close>

function fit_to :: "('d \<Rightarrow> 64 word) \<Rightarrow> nat \<Rightarrow> ('k \<times> 'd) list \<Rightarrow> ('k \<times> 'd) list" where
  "fit_to sizefn m xs =
     (if m < total_size sizefn xs \<and> xs \<noteq> [] then fit_to sizefn m (butlast xs) else xs)"
  by pat_completeness auto
termination
  by (relation "measure (\<lambda>(_, _, xs). length xs)") auto

declare fit_to.simps [simp del]

lemma fit_to_count: "fit_to countfn m xs = take m xs"
proof (induction "length xs - m" arbitrary: xs)
  case 0
  then show ?case by (simp add: fit_to.simps [of _ m xs])
next
  case (Suc n)
  then have "fit_to countfn m xs = fit_to countfn m (butlast xs)"
    by (auto simp: fit_to.simps [of _ m xs])
  also have "\<dots> = take m (butlast xs)"
    using Suc by (intro Suc(1)) simp
  also have "\<dots> = take m xs"
    using Suc(2) by (simp add: take_butlast)
  finally show ?case .
qed

lemma fit_to_prefix: "\<exists>ys. xs = fit_to sizefn m xs @ ys"
proof (induction sizefn m xs rule: fit_to.induct)
  case (1 sizefn m xs)
  show ?case
  proof (cases "m < total_size sizefn xs \<and> xs \<noteq> []")
    case True
    with 1 obtain ys where "butlast xs = fit_to sizefn m (butlast xs) @ ys" by auto
    then have "butlast xs @ [last xs] = fit_to sizefn m (butlast xs) @ ys @ [last xs]"
      by (metis append_assoc)
    with True show ?thesis by (auto simp: fit_to.simps [of sizefn m xs])
  next
    case False
    then show ?thesis by (auto simp: fit_to.simps [of sizefn m xs])
  qed
qed

lemma fit_to_fits: "total_size sizefn (fit_to sizefn m xs) \<le> m"
proof (induction sizefn m xs rule: fit_to.induct)
  case (1 sizefn m xs)
  then show ?case
    by (cases "m < total_size sizefn xs \<and> xs \<noteq> []") (auto simp: fit_to.simps [of sizefn m xs])
qed

lemma filter_last_key:
  assumes "distinct (map fst xs)" and "xs \<noteq> []"
  shows "filter (\<lambda>p. fst p \<noteq> fst (last xs)) xs = butlast xs"
proof -
  from assms(2) obtain ys y where xs: "xs = ys @ [y]" by (metis rev_exhaust)
  with assms(1) have "\<forall>p\<in>set ys. fst p \<noteq> fst y" by (auto simp: image_iff)
  with xs show ?thesis by (auto simp: filter_id_conv)
qed

lemma evict_spec:
  assumes "lru_wf sizefn c"
  shows "\<exists>c'. evict sizefn c = Some c' \<and> lru_inv sizefn c' \<and> lru_max_size c' = lru_max_size c \<and>
    lru_abs c' = fit_to sizefn (unat (lru_max_size c)) (lru_abs c)"
  using assms
proof (induction sizefn c rule: evict.induct)
  case (1 sizefn c)
  have size: "unat (lru_curr_size c) = total_size sizefn (lru_abs c)"
    using "1.prems" by (simp add: lru_wf_def)
  show ?case
  proof (cases "lru_max_size c < lru_curr_size c")
    case False
    with "1.prems" size show ?thesis
      by (auto simp: evict.simps [of sizefn c] fit_to.simps [of sizefn _ "lru_abs c"] lru_inv_def
          word_less_nat_alt word_le_nat_alt)
  next
    case True
    then have big: "unat (lru_max_size c) < total_size sizefn (lru_abs c)"
      using size by (simp add: word_less_nat_alt)
    then have ne: "lru_abs c \<noteq> []" by auto
    then have ne': "lru_list c \<noteq> []" by (auto simp: lru_abs_def)
    let ?k = "fst (last (lru_abs c))"
    have k: "fst (snd (last (lru_list c))) = ?k"
      using ne' by (simp add: lru_abs_def last_map)
    have "lru_index c ?k \<noteq> None"
      using index_None_iff [OF "1.prems"] last_in_set [OF ne] by blast
    then obtain i where "lru_index c ?k = Some i" by blast
    with "1.prems" obtain c1 where rm: "remove_at sizefn c ?k = Some c1" and wf1: "lru_wf sizefn c1"
      and abs1: "lru_abs c1 = filter (\<lambda>p. fst p \<noteq> ?k) (lru_abs c)"
      and max1: "lru_max_size c1 = lru_max_size c"
      by (rule remove_at_spec)
    have abs1': "lru_abs c1 = butlast (lru_abs c)"
      unfolding abs1 using "1.prems" ne
      by (intro filter_last_key) (simp_all only: lru_wf_def not_False_eq_True)
    have "evict sizefn c = evict sizefn c1"
      using True ne' rm k by (simp add: evict.simps [of sizefn c])
    moreover have "fit_to sizefn (unat (lru_max_size c)) (lru_abs c)
        = fit_to sizefn (unat (lru_max_size c)) (butlast (lru_abs c))"
      using big ne by (simp add: fit_to.simps [of sizefn _ "lru_abs c"])
    ultimately show ?thesis
      using "1.IH" [OF True ne' _ wf1] rm k max1 abs1' by simp
  qed
qed

text \<open>\<open>insert\<close>: the pair goes to the front, an older pair with the key goes away, and the
  oldest pairs go until the rest fits.  The one hypothesis says that the size counter does
  not wrap around while the new pair is counted in.\<close>

lemma lru_insert_spec:
  assumes inv: "lru_inv sizefn c" and fits: "unat (lru_max_size c) + unat (sizefn d) < 2 ^ 64"
  shows "\<exists>c'. lru_insert sizefn c k d = Some c' \<and> lru_inv sizefn c' \<and>
    lru_max_size c' = lru_max_size c \<and>
    lru_abs c' = fit_to sizefn (unat (lru_max_size c))
      ((k, d) # filter (\<lambda>p. fst p \<noteq> k) (lru_abs c))"
proof -
  from inv have wf: "lru_wf sizefn c" and cur: "lru_curr_size c \<le> lru_max_size c"
    by (simp_all add: lru_inv_def)
  obtain c1 where t: "touch_aux c k = Some (map_option (\<lambda>_. k) (lru_index c k), c1)"
    and wf1: "lru_wf sizefn c1" and ix1: "lru_index c1 = lru_index c"
    and max1: "lru_max_size c1 = lru_max_size c" and cur1: "lru_curr_size c1 = lru_curr_size c"
    and abs1: "lru_abs c1 = (case map_of (lru_abs c) k of None \<Rightarrow> lru_abs c
           | Some d \<Rightarrow> (k, d) # filter (\<lambda>p. fst p \<noteq> k) (lru_abs c))"
    by (rule touch_aux_spec [OF wf])
  have "\<exists>c2. (case map_option (\<lambda>_. k) (lru_index c k) of
            None \<Rightarrow> Some c1 | Some k' \<Rightarrow> remove_at sizefn c1 k') = Some c2 \<and>
      lru_wf sizefn c2 \<and> lru_index c2 k = None \<and> lru_max_size c2 = lru_max_size c \<and>
      lru_curr_size c2 \<le> lru_max_size c \<and>
      lru_abs c2 = filter (\<lambda>p. fst p \<noteq> k) (lru_abs c)"
  proof (cases "lru_index c k")
    case None
    then have "map_of (lru_abs c) k = None"
      using index_None_iff [OF wf] by (simp add: map_of_eq_None_iff)
    then have "lru_abs c1 = filter (\<lambda>p. fst p \<noteq> k) (lru_abs c)"
      by (simp add: abs1 filter_fresh_map_of)
    with None wf1 ix1 max1 cur1 cur show ?thesis by simp
  next
    case (Some i)
    then obtain d0 where "map_of (lru_abs c) k = Some d0"
      using wf by (elim index_SomeD)
    then have abs1': "filter (\<lambda>p. fst p \<noteq> k) (lru_abs c1) = filter (\<lambda>p. fst p \<noteq> k) (lru_abs c)"
      by (simp add: abs1)
    from Some ix1 have "lru_index c1 k = Some i" by simp
    with wf1 obtain c2 where "remove_at sizefn c1 k = Some c2" "lru_wf sizefn c2"
      "lru_abs c2 = filter (\<lambda>p. fst p \<noteq> k) (lru_abs c1)"
      "lru_index c2 = (lru_index c1)(k := None)" "lru_max_size c2 = lru_max_size c1"
      "lru_curr_size c2 \<le> lru_curr_size c1"
      by (rule remove_at_spec)
    with Some abs1' max1 cur1 cur show ?thesis by auto
  qed
  then obtain c2 where c2: "(case map_option (\<lambda>_. k) (lru_index c k) of
            None \<Rightarrow> Some c1 | Some k' \<Rightarrow> remove_at sizefn c1 k') = Some c2"
    and wf2: "lru_wf sizefn c2" and ix2: "lru_index c2 k = None"
    and max2: "lru_max_size c2 = lru_max_size c" and cur2: "lru_curr_size c2 \<le> lru_max_size c"
    and abs2: "lru_abs c2 = filter (\<lambda>p. fst p \<noteq> k) (lru_abs c)"
    by blast
  define c3 where "c3 = c2\<lparr>
     lru_list := (lru_next_node c2, k, d) # lru_list c2,
     lru_index := (lru_index c2)(k \<mapsto> lru_next_node c2),
     lru_curr_size := lru_curr_size c2 + sizefn d,
     lru_next_node := Suc (lru_next_node c2)\<rparr>"
  have abs3: "lru_abs c3 = (k, d) # filter (\<lambda>p. fst p \<noteq> k) (lru_abs c)"
    by (simp add: c3_def lru_abs_def abs2 [unfolded lru_abs_def])
  have "unat (lru_curr_size c2) + unat (sizefn d) < 2 ^ 64"
    using fits cur2 by (simp add: word_le_nat_alt)
  then have add: "unat (lru_curr_size c2 + sizefn d) = unat (lru_curr_size c2) + unat (sizefn d)"
    by (simp add: unat_word_ariths)
  have wf3: "lru_wf sizefn c3"
    unfolding lru_wf_def
  proof (intro conjI)
    have "lru_next_node c2 \<notin> fst ` set (lru_list c2)"
      using wf2 by (auto simp: lru_wf_def)
    then show "distinct (map fst (lru_list c3))"
      using wf2 by (simp add: c3_def lru_wf_def)
    show "distinct (map fst (lru_abs c3))"
      using wf2 unfolding abs3 abs2 [symmetric]
      by (auto simp: lru_wf_def abs2)
    show "\<forall>n\<in>set (lru_list c3). fst n < lru_next_node c3"
      using wf2 by (auto simp: c3_def lru_wf_def less_Suc_eq)
    have "lru_index c2 k = Some i" if "(i, k, d) \<in> set (lru_list c2)" for i d
      using that wf2 unfolding lru_wf_def by blast
    with ix2 have none: "\<nexists>i d. (i, k, d) \<in> set (lru_list c2)" by auto
    then show "\<forall>k i. (lru_index c3 k = Some i) = (\<exists>d. (i, k, d) \<in> set (lru_list c3))"
      using wf2 by (auto simp: c3_def lru_wf_def)
    show "unat (lru_curr_size c3) = total_size sizefn (lru_abs c3)"
      using wf2 add unfolding abs3 by (simp add: c3_def lru_wf_def abs2)
  qed
  have "lru_insert sizefn c k d = evict sizefn c3"
    by (simp add: lru_insert_def t c2 ix2 c3_def del: case_map_option)
  with evict_spec [OF wf3] show ?thesis
    by (simp add: abs3) (simp add: c3_def max2)
qed

lemma lru_remove_spec:
  assumes "lru_inv sizefn c"
  shows "\<exists>c'. lru_remove sizefn c k = Some c' \<and> lru_inv sizefn c' \<and>
    lru_max_size c' = lru_max_size c \<and> lru_abs c' = filter (\<lambda>p. fst p \<noteq> k) (lru_abs c)"
proof (cases "lru_index c k")
  case None
  moreover from assms have "lru_wf sizefn c" by (simp add: lru_inv_def)
  ultimately have "filter (\<lambda>p. fst p \<noteq> k) (lru_abs c) = lru_abs c"
    using index_None_iff filter_fresh by metis
  with None assms show ?thesis by (simp add: lru_remove_def)
next
  case (Some i)
  from assms have "lru_wf sizefn c" by (simp add: lru_inv_def)
  then obtain c' where "remove_at sizefn c k = Some c'" "lru_wf sizefn c'"
    "lru_abs c' = filter (\<lambda>p. fst p \<noteq> k) (lru_abs c)"
    "lru_max_size c' = lru_max_size c" "lru_curr_size c' \<le> lru_curr_size c"
    using Some by (rule remove_at_spec)
  with Some assms show ?thesis by (auto simp: lru_remove_def lru_inv_def)
qed

text \<open>The effect of a touch on the abstract cache.\<close>

definition abs_touch :: "'k \<Rightarrow> ('k \<times> 'd) list \<Rightarrow> ('k \<times> 'd) list" where
  "abs_touch k xs = (case map_of xs k of None \<Rightarrow> xs
     | Some d \<Rightarrow> (k, d) # filter (\<lambda>p. fst p \<noteq> k) xs)"

lemma lru_touch_spec:
  assumes "lru_inv sizefn c"
  shows "\<exists>c'. lru_touch c k = Some c' \<and> lru_inv sizefn c' \<and>
    lru_max_size c' = lru_max_size c \<and> lru_abs c' = abs_touch k (lru_abs c)"
proof -
  from assms have "lru_wf sizefn c" by (simp add: lru_inv_def)
  then obtain c' where "touch_aux c k = Some (map_option (\<lambda>_. k) (lru_index c k), c')"
    and "lru_wf sizefn c'" and "lru_max_size c' = lru_max_size c"
    and "lru_curr_size c' = lru_curr_size c"
    and "lru_abs c' = (case map_of (lru_abs c) k of None \<Rightarrow> lru_abs c
           | Some d \<Rightarrow> (k, d) # filter (\<lambda>p. fst p \<noteq> k) (lru_abs c))"
    by (rule touch_aux_spec)
  with assms show ?thesis by (simp add: lru_touch_def lru_inv_def abs_touch_def)
qed

lemma index_Some_map_of:
  assumes "lru_inv sizefn c"
  shows "lru_index c k = None \<longleftrightarrow> map_of (lru_abs c) k = None"
  using assms index_None_iff [of sizefn c k] by (auto simp: lru_inv_def map_of_eq_None_iff)

lemma lru_fetch_spec:
  assumes inv: "lru_inv sizefn c"
  shows "\<exists>c'. lru_fetch dflt c k t = Some (case map_of (lru_abs c) k of None \<Rightarrow> dflt | Some d \<Rightarrow> d, c') \<and>
    lru_inv sizefn c' \<and> lru_max_size c' = lru_max_size c \<and>
    lru_abs c' = (if t then abs_touch k (lru_abs c) else lru_abs c)"
proof (cases "lru_index c k")
  case None
  with inv have "map_of (lru_abs c) k = None" using index_Some_map_of [OF inv] by blast
  with None inv show ?thesis by (simp add: lru_fetch_def abs_touch_def)
next
  case (Some i)
  from inv have "lru_wf sizefn c" by (simp add: lru_inv_def)
  then obtain d where "node_at c i = Some (k, d)" and "map_of (lru_abs c) k = Some d"
    using Some by (rule index_SomeD)
  with Some inv lru_touch_spec [OF inv, of k] show ?thesis
    by (auto simp: lru_fetch_def)
qed

lemma lru_fetch_ptr_spec:
  assumes inv: "lru_inv sizefn c"
  shows "\<exists>c'. lru_fetch_ptr c k t = Some (map_of (lru_abs c) k, c') \<and>
    lru_inv sizefn c' \<and> lru_max_size c' = lru_max_size c \<and> lru_abs c' = abs_touch k (lru_abs c)"
proof (cases "lru_index c k")
  case None
  with inv have "map_of (lru_abs c) k = None" using index_Some_map_of [OF inv] by blast
  with None inv show ?thesis by (simp add: lru_fetch_ptr_def abs_touch_def)
next
  case (Some i)
  from inv have "lru_wf sizefn c" by (simp add: lru_inv_def)
  then obtain d c' where "splice_front c i = Some c'" and "lru_wf sizefn c'"
    and "lru_abs c' = (k, d) # filter (\<lambda>p. fst p \<noteq> k) (lru_abs c)"
    and "map_of (lru_abs c) k = Some d" and "node_at c' i = Some (k, d)"
    and "lru_max_size c' = lru_max_size c" and "lru_curr_size c' = lru_curr_size c"
    using Some by (rule splice_front_spec)
  with Some inv show ?thesis
    by (simp add: lru_fetch_ptr_def touch_aux_def lru_inv_def abs_touch_def)
qed

lemma lru_fetch_into_spec:
  assumes inv: "lru_inv sizefn c"
  shows "\<exists>c'. lru_fetch_into c k x t = Some (case map_of (lru_abs c) k of
        None \<Rightarrow> (False, x, c') | Some d \<Rightarrow> (True, d, c')) \<and>
    lru_inv sizefn c' \<and> lru_max_size c' = lru_max_size c \<and>
    lru_abs c' = (if t then abs_touch k (lru_abs c) else lru_abs c)"
proof (cases "lru_index c k")
  case None
  with inv have "map_of (lru_abs c) k = None" using index_Some_map_of [OF inv] by blast
  with None inv show ?thesis by (simp add: lru_fetch_into_def abs_touch_def)
next
  case (Some i)
  from inv have wf: "lru_wf sizefn c" by (simp add: lru_inv_def)
  then obtain d c' where sp: "splice_front c i = Some c'" "lru_wf sizefn c'"
    "lru_abs c' = (k, d) # filter (\<lambda>p. fst p \<noteq> k) (lru_abs c)"
    "map_of (lru_abs c) k = Some d" "node_at c' i = Some (k, d)"
    "lru_max_size c' = lru_max_size c" "lru_curr_size c' = lru_curr_size c"
    using Some by (rule splice_front_spec)
  from wf Some obtain d' where "node_at c i = Some (k, d')" "map_of (lru_abs c) k = Some d'"
    by (rule index_SomeD)
  with Some inv sp show ?thesis
    by (simp add: lru_fetch_into_def lru_inv_def abs_touch_def)
qed

section \<open>Runs of operations\<close>

datatype ('k, 'd) lru_op =
    Clear
  | Remove 'k
  | Touch 'k
  | FetchPtr 'k bool
  | Fetch 'k bool
  | FetchInto 'k 'd bool
  | Insert 'k 'd

text \<open>What an operation gives back.\<close>

datatype 'd lru_result = NoResult | Pointer "'d option" | Fetched 'd | FetchedInto bool 'd

fun lru_step ::
  "('d \<Rightarrow> 64 word) \<Rightarrow> 'd \<Rightarrow> ('k, 'd) lru_op \<Rightarrow> ('k, 'd) lru \<Rightarrow> ('d lru_result \<times> ('k, 'd) lru) option" where
  "lru_step sizefn dflt Clear c = Some (NoResult, lru_clear c)"
| "lru_step sizefn dflt (Remove k) c = map_option (Pair NoResult) (lru_remove sizefn c k)"
| "lru_step sizefn dflt (Touch k) c = map_option (Pair NoResult) (lru_touch c k)"
| "lru_step sizefn dflt (FetchPtr k t) c = map_option (\<lambda>(p, c'). (Pointer p, c')) (lru_fetch_ptr c k t)"
| "lru_step sizefn dflt (Fetch k t) c = map_option (\<lambda>(d, c'). (Fetched d, c')) (lru_fetch dflt c k t)"
| "lru_step sizefn dflt (FetchInto k x t) c =
     map_option (\<lambda>(found, d, c'). (FetchedInto found d, c')) (lru_fetch_into c k x t)"
| "lru_step sizefn dflt (Insert k d) c = map_option (Pair NoResult) (lru_insert sizefn c k d)"

fun lru_run ::
  "('d \<Rightarrow> 64 word) \<Rightarrow> 'd \<Rightarrow> ('k, 'd) lru_op list \<Rightarrow> ('k, 'd) lru \<Rightarrow> ('d lru_result list \<times> ('k, 'd) lru) option" where
  "lru_run sizefn dflt [] c = Some ([], c)"
| "lru_run sizefn dflt (x # xs) c =
     Option.bind (lru_step sizefn dflt x c) (\<lambda>(r, c').
       map_option (\<lambda>(rs, c''). (r # rs, c'')) (lru_run sizefn dflt xs c'))"

text \<open>The same operations on the abstract cache of capacity \<open>m\<close>, a list with the most recent pair first.\<close>

fun abs_step :: "('d \<Rightarrow> 64 word) \<Rightarrow> nat \<Rightarrow> ('k, 'd) lru_op \<Rightarrow> ('k \<times> 'd) list \<Rightarrow> ('k \<times> 'd) list" where
  "abs_step sizefn m Clear xs = []"
| "abs_step sizefn m (Remove k) xs = filter (\<lambda>p. fst p \<noteq> k) xs"
| "abs_step sizefn m (Touch k) xs = abs_touch k xs"
| "abs_step sizefn m (FetchPtr k t) xs = abs_touch k xs"
| "abs_step sizefn m (Fetch k t) xs = (if t then abs_touch k xs else xs)"
| "abs_step sizefn m (FetchInto k x t) xs = (if t then abs_touch k xs else xs)"
| "abs_step sizefn m (Insert k d) xs = fit_to sizefn m ((k, d) # filter (\<lambda>p. fst p \<noteq> k) xs)"

fun abs_result :: "'d \<Rightarrow> ('k, 'd) lru_op \<Rightarrow> ('k \<times> 'd) list \<Rightarrow> 'd lru_result" where
  "abs_result dflt (FetchPtr k t) xs = Pointer (map_of xs k)"
| "abs_result dflt (Fetch k t) xs = Fetched (case map_of xs k of None \<Rightarrow> dflt | Some d \<Rightarrow> d)"
| "abs_result dflt (FetchInto k x t) xs = (case map_of xs k of None \<Rightarrow> FetchedInto False x | Some d \<Rightarrow> FetchedInto True d)"
| "abs_result dflt x xs = NoResult"

fun abs_results :: "('d \<Rightarrow> 64 word) \<Rightarrow> 'd \<Rightarrow> nat \<Rightarrow> ('k, 'd) lru_op list \<Rightarrow> ('k \<times> 'd) list \<Rightarrow> 'd lru_result list" where
  "abs_results sizefn dflt m [] xs = []"
| "abs_results sizefn dflt m (x # ops) xs =
     abs_result dflt x xs # abs_results sizefn dflt m ops (abs_step sizefn m x xs)"

lemma lru_clear_simps [simp]:
  "lru_max_size (lru_clear c) = lru_max_size c" "lru_abs (lru_clear c) = []"
  by (simp_all add: lru_clear_def lru_abs_def)

lemma lru_new_simps [simp]:
  "lru_max_size (lru_new n) = n" "lru_abs (lru_new n) = []"
  by (simp_all add: lru_new_def lru_abs_def)

lemma lru_step_spec:
  assumes "lru_inv sizefn c" and "\<forall>d. unat (lru_max_size c) + unat (sizefn d) < 2 ^ 64"
  shows "\<exists>c'. lru_step sizefn dflt x c = Some (abs_result dflt x (lru_abs c), c') \<and> lru_inv sizefn c' \<and>
    lru_max_size c' = lru_max_size c \<and>
    lru_abs c' = abs_step sizefn (unat (lru_max_size c)) x (lru_abs c)"
proof (cases x)
  case Clear
  then show ?thesis by (simp add: lru_wf_clear)
next
  case (FetchPtr k t)
  with lru_fetch_ptr_spec [OF assms(1), of k t] show ?thesis by auto
next
  case (Fetch k t)
  with lru_fetch_spec [OF assms(1), of dflt k t] show ?thesis by auto
next
  case (FetchInto k d t)
  from lru_fetch_into_spec [OF assms(1), of k d t] obtain c' where
    c': "lru_fetch_into c k d t = Some (case map_of (lru_abs c) k of None \<Rightarrow> (False, d, c') | Some d \<Rightarrow> (True, d, c'))"
      "lru_inv sizefn c'" "lru_max_size c' = lru_max_size c" "lru_abs c' = (if t then abs_touch k (lru_abs c) else lru_abs c)"
    by blast
  with FetchInto show ?thesis by (intro exI [of _ c']) (simp split: option.split)
next
  case (Insert k d)
  with assms(2) lru_insert_spec [OF assms(1), of d k] show ?thesis by auto
qed (use lru_remove_spec [OF assms(1)] lru_touch_spec [OF assms(1)] in auto)

lemma lru_run_spec:
  assumes "lru_inv sizefn c" and "\<forall>d. unat (lru_max_size c) + unat (sizefn d) < 2 ^ 64"
  shows "\<exists>c'. lru_run sizefn dflt xs c =
      Some (abs_results sizefn dflt (unat (lru_max_size c)) xs (lru_abs c), c') \<and> lru_inv sizefn c' \<and>
    lru_max_size c' = lru_max_size c \<and>
    lru_abs c' = fold (abs_step sizefn (unat (lru_max_size c))) xs (lru_abs c)"
  using assms
proof (induction xs arbitrary: c)
  case Nil
  then show ?case by simp
next
  case (Cons x xs)
  from lru_step_spec [OF Cons.prems] obtain c1 where
    c1: "lru_step sizefn dflt x c = Some (abs_result dflt x (lru_abs c), c1)" "lru_inv sizefn c1"
      "lru_max_size c1 = lru_max_size c"
      "lru_abs c1 = abs_step sizefn (unat (lru_max_size c)) x (lru_abs c)" by blast
  with Cons.prems(2) have "\<forall>d. unat (lru_max_size c1) + unat (sizefn d) < 2 ^ 64" by simp
  from Cons.IH [OF c1(2) this] c1 show ?case by auto
qed

section \<open>The cache as a store of results\<close>

text \<open>The store behind \<open>fetch\<close> without touching and \<open>insert\<close>, with the default size function.\<close>

definition lru_lookup :: "('k, 'd) lru \<Rightarrow> 'k \<Rightarrow> 'd option" where
  "lru_lookup c k = map_of (lru_abs c) k"

definition lru_store :: "'k \<Rightarrow> 'd \<Rightarrow> ('k, 'd) lru \<Rightarrow> ('k, 'd) lru" where
  "lru_store k d c = (case lru_insert countfn c k d of Some c' \<Rightarrow> c' | None \<Rightarrow> c)"

definition lru_store_inv :: "('k, 'd) lru \<Rightarrow> bool" where
  "lru_store_inv c \<longleftrightarrow> lru_inv countfn c \<and> 0 < unat (lru_max_size c) \<and> unat (lru_max_size c) + 1 < 2 ^ 64"

lemma lru_insert_countfn:
  assumes "lru_store_inv c"
  shows "\<exists>c'. lru_insert countfn c k d = Some c' \<and> lru_inv countfn c' \<and> lru_max_size c' = lru_max_size c \<and>
    lru_abs c' = take (unat (lru_max_size c)) ((k, d) # filter (\<lambda>p. fst p \<noteq> k) (lru_abs c))"
  using lru_insert_spec [of countfn c d k] assms
  by (auto simp: lru_store_inv_def fit_to_count countfn_def)

lemma lru_store_spec:
  assumes "lru_store_inv c"
  shows "lru_store_inv (lru_store k d c)" and "lru_insert countfn c k d = Some (lru_store k d c)"
    and "lru_abs (lru_store k d c) =
      take (unat (lru_max_size c)) ((k, d) # filter (\<lambda>p. fst p \<noteq> k) (lru_abs c))"
  using lru_insert_countfn [OF assms, of k d] assms
  by (auto simp: lru_store_def lru_store_inv_def)

lemma map_of_take: "map_of (take n xs) k = Some v \<Longrightarrow> map_of xs k = Some v"
  by (induction xs arbitrary: n) (auto split: if_splits simp: take_Cons split: nat.splits)

lemma map_of_filter_other: "map_of (filter (\<lambda>p. fst p \<noteq> k) xs) k' = (if k' = k then None else map_of xs k')"
  by (induction xs) auto

interpretation lru_memo: retaining_cache lru_store_inv lru_lookup lru_store
proof (unfold_locales, goal_cases)
  case (1 s k v)
  then show ?case by (rule lru_store_spec)
next
  case (2 s k v k' v')
  then show ?case
    using map_of_take [of "unat (lru_max_size s)" "(k, v) # filter (\<lambda>p. fst p \<noteq> k) (lru_abs s)" k' v']
    by (auto simp: lru_lookup_def lru_store_spec map_of_filter_other split: if_splits)
next
  case (3 s k v)
  then obtain n where "unat (lru_max_size s) = Suc n" by (auto simp: lru_store_inv_def gr0_conv_Suc)
  with 3 show ?case by (simp add: lru_lookup_def lru_store_spec)
qed

section \<open>Properties\<close>

text \<open>(C9) Every sequence of cache operations from an empty cache runs without undefined
  behaviour (no iterator is dereferenced after its node is erased, \<open>end()\<close> is never removed
  or decremented, the eviction loop ends), gives back what the abstract LRU list gives back, keeps index,
  list and size counter consistent and within the capacity, and leaves exactly what the abstract list holds
  after the same operations.  The hypothesis is that the size of one entry and the capacity together do not
  wrap around.\<close>

theorem lru_runs_refine:
  assumes "\<forall>d. unat sz + unat (sizefn d) < 2 ^ 64"
  shows "\<exists>c. lru_run sizefn dflt ops (lru_new sz) = Some (abs_results sizefn dflt (unat sz) ops [], c) \<and>
    lru_inv sizefn c \<and> lru_abs c = fold (abs_step sizefn (unat sz)) ops []"
  using lru_run_spec [OF lru_wf_new, of sz sizefn dflt ops] assms by auto

theorem lru_runs_refine_witness:
  "\<exists>c. lru_run countfn 0 [Insert ''a'' (1::nat), Insert ''b'' 2, Touch ''a'', Insert ''c'' 3, Fetch ''b'' True, FetchPtr ''a'' False]
      (lru_new 2) = Some ([NoResult, NoResult, NoResult, NoResult, Fetched 0, Pointer (Some 1)], c) \<and>
    lru_inv countfn c \<and> lru_abs c = [(''a'', 1), (''c'', 3)]"
proof -
  have "\<forall>d::nat. unat (2 :: 64 word) + unat (countfn d) < 2 ^ 64"
    by (simp add: countfn_def)
  from lru_runs_refine [OF this, of 0 "[Insert ''a'' 1, Insert ''b'' 2, Touch ''a'', Insert ''c'' 3, Fetch ''b'' True, FetchPtr ''a'' False]"]
  show ?thesis by (simp add: fit_to_count abs_touch_def)
qed

text \<open>With the default \<open>Countfn\<close>, \<open>insert\<close> puts the pair at the front, drops an older
  pair with the same key, and keeps the most recent \<open>max_size\<close> pairs: the least recently
  used ones go.\<close>

theorem lru_insert_evicts_least_recent:
  assumes "lru_inv countfn c" and "unat (lru_max_size c) + 1 < 2 ^ 64"
  shows "\<exists>c'. lru_insert countfn c k d = Some c' \<and> lru_inv countfn c' \<and>
    lru_abs c' = take (unat (lru_max_size c)) ((k, d) # filter (\<lambda>p. fst p \<noteq> k) (lru_abs c))"
  using lru_insert_spec [OF assms(1), of d k] assms(2)
  by (auto simp: fit_to_count countfn_def)

theorem lru_insert_evicts_least_recent_witness:
  "\<exists>c'. lru_insert countfn (lru_new 1) ''k'' (7::nat) = Some c' \<and> lru_inv countfn c' \<and>
    lru_abs c' = [(''k'', 7)]"
  using lru_insert_evicts_least_recent [OF lru_wf_new, of "1" "''k''" "7::nat"] by simp

end
