(* ===== verification/Json.thy ===== *)
theory Json
  imports CStrings Complex_Main
begin

text \<open>
  JSON values and the operations of \<^verbatim>\<open>src/json.hpp\<close> the server applies to them: the indexing
  operator, the conversions of \<open>get\<close>, construction from an initializer list and
  \<open>push_back\<close>.  A finite \<open>double\<close> is its sign and magnitude; the parser lets no infinity or NaN in,
  and the program makes no floating-point JSON value itself, but the binary formats do.
\<close>

section \<open>Values\<close>

datatype dbl = Dbl bool rat | Infinite bool | NotANum

text \<open>\<open>operator==\<close> of \<open>double\<close>: the two zeros are equal, and a NaN equals nothing.\<close>

definition signed_rat :: "bool \<Rightarrow> rat \<Rightarrow> rat" where
  "signed_rat neg x = (if neg then - x else x)"

fun dbl_eq :: "dbl \<Rightarrow> dbl \<Rightarrow> bool" where
  "dbl_eq (Dbl a x) (Dbl b y) = (signed_rat a x = signed_rat b y)"
| "dbl_eq (Infinite a) (Infinite b) = (a = b)"
| "dbl_eq _ _ = False"

lemma dbl_eq_refl [simp]: "dbl_eq x x = (x \<noteq> NotANum)"
  by (cases x) simp_all

datatype json =
    JNull
  | JBool bool
  | JInt int
  | JUnsigned int
  | JFloat dbl
  | JString string
  | JArray "json list"
  | JObject "(string \<times> json) list"

text \<open>\<open>type_name\<close>, and the text of the exceptions (\<open>exception::name\<close>).\<close>

fun type_name :: "json \<Rightarrow> string" where
  "type_name JNull = ''null''"
| "type_name (JObject _) = ''object''"
| "type_name (JArray _) = ''array''"
| "type_name (JString _) = ''string''"
| "type_name (JBool _) = ''boolean''"
| "type_name (JInt _) = ''number''"
| "type_name (JUnsigned _) = ''number''"
| "type_name (JFloat _) = ''number''"

definition exception_name :: "string \<Rightarrow> nat \<Rightarrow> string" where
  "exception_name ename i = ''[json.exception.'' @ ename @ ''.'' @ show_nat i @ ''] ''"

definition type_error :: "nat \<Rightarrow> string \<Rightarrow> error" where
  "type_error i what_arg = StdError (exception_name ''type_error'' i @ what_arg)"

fun is_null :: "json \<Rightarrow> bool" where
  "is_null JNull = True"
| "is_null _ = False"

fun is_object :: "json \<Rightarrow> bool" where
  "is_object (JObject _) = True"
| "is_object _ = False"

section \<open>Objects as ordered maps\<close>

text \<open>
  An object is a \<open>std::map\<close>: its entries are kept in ascending order of their keys, compared
  as byte strings.  \<open>obj_put\<close> stores under a key, \<open>obj_emplace\<close> leaves an existing entry.
\<close>

fun obj_put :: "string \<Rightarrow> 'v \<Rightarrow> (string \<times> 'v) list \<Rightarrow> (string \<times> 'v) list" where
  "obj_put k v [] = [(k, v)]"
| "obj_put k v ((k', v') # kvs) =
     (if k = k' then (k, v) # kvs
      else if k < k' then (k, v) # (k', v') # kvs
      else (k', v') # obj_put k v kvs)"

definition obj_emplace :: "string \<Rightarrow> 'v \<Rightarrow> (string \<times> 'v) list \<Rightarrow> (string \<times> 'v) list" where
  "obj_emplace k v kvs = (case map_of kvs k of None \<Rightarrow> obj_put k v kvs | Some _ \<Rightarrow> kvs)"

definition obj_wf :: "(string \<times> 'v) list \<Rightarrow> bool" where
  "obj_wf kvs \<longleftrightarrow> sorted_wrt (<) (map fst kvs)"

lemma fst_set_obj_put: "fst ` set (obj_put k v kvs) = insert k (fst ` set kvs)"
  by (induction k v kvs rule: obj_put.induct) auto

lemma obj_wf_Nil [simp]: "obj_wf []"
  by (simp add: obj_wf_def)

lemma obj_wf_Cons: "obj_wf ((k, v) # kvs) \<longleftrightarrow> (\<forall>k' \<in> fst ` set kvs. k < k') \<and> obj_wf kvs"
  by (auto simp: obj_wf_def)

lemma obj_wf_put: "obj_wf kvs \<Longrightarrow> obj_wf (obj_put k v kvs)"
proof (induction k v kvs rule: obj_put.induct)
  case (2 k v k' v' kvs)
  then show ?case
    by (auto simp: obj_wf_Cons fst_set_obj_put dest: less_trans)
qed (simp add: obj_wf_Cons)

lemma obj_wf_emplace: "obj_wf kvs \<Longrightarrow> obj_wf (obj_emplace k v kvs)"
  by (simp add: obj_emplace_def obj_wf_put split: option.split)

lemma map_of_obj_put: "map_of (obj_put k v kvs) = (map_of kvs)(k \<mapsto> v)"
  by (induction k v kvs rule: obj_put.induct) (auto simp: fun_upd_twist)

lemma map_of_obj_emplace:
  "map_of (obj_emplace k v kvs) = (case map_of kvs k of None \<Rightarrow> (map_of kvs)(k \<mapsto> v) | Some _ \<Rightarrow> map_of kvs)"
  by (simp add: obj_emplace_def map_of_obj_put split: option.split)

lemma obj_wf_eqI:
  assumes "obj_wf xs" and "obj_wf ys" and "map_of xs = map_of ys"
  shows "xs = ys"
proof -
  have s: "sorted (map fst xs)" "sorted (map fst ys)" "distinct (map fst xs)" "distinct (map fst ys)"
    using assms(1,2) by (auto simp: obj_wf_def strict_sorted_iff)
  have e: "set xs = set ys"
    using map_of_inject_set [OF s(3,4)] assms(3) by blast
  then have "inj_on fst (set xs \<union> set ys)"
    using s(3) by (simp add: distinct_map)
  from map_sorted_distinct_set_unique [OF this s(1,3,2,4) e] show ?thesis .
qed

section \<open>Operations\<close>

text \<open>\<open>operator[]\<close> with a key: null becomes an empty object, a missing key gets a null value.  The
  result is the value and the changed container.\<close>

definition json_index :: "string \<Rightarrow> json \<Rightarrow> (json \<times> json) outcome" where
  "json_index key j =
     (let j1 = (if is_null j then JObject [] else j)
      in case j1 of
           JObject kvs \<Rightarrow>
             (case map_of kvs key of
                Some v \<Rightarrow> Inr (v, j1)
              | None \<Rightarrow> Inr (JNull, JObject (obj_put key JNull kvs)))
         | _ \<Rightarrow> Inl (type_error 305 (''cannot use operator[] with '' @ type_name j1)))"

text \<open>Assignment through \<open>operator[]\<close>.\<close>

definition json_set :: "string \<Rightarrow> json \<Rightarrow> json \<Rightarrow> json outcome" where
  "json_set key v j =
     ebind (json_index key j) (\<lambda>(_, j1).
       case j1 of JObject kvs \<Rightarrow> Inr (JObject (obj_put key v kvs)) | _ \<Rightarrow> Inr j1)"

text \<open>Conversion of a \<open>double\<close> to \<open>int32_t\<close> truncates, and is undefined out of range.\<close>

fun dbl_to_int32 :: "dbl \<Rightarrow> int outcome" where
  "dbl_to_int32 (Dbl neg x) =
     (let t = (if neg then - \<lfloor>x\<rfloor> else \<lfloor>x\<rfloor>)
      in if in_int32 t then Inr t else Inl (UB FloatToIntRange))"
| "dbl_to_int32 _ = Inl (UB FloatToIntRange)"

fun get_int32 :: "json \<Rightarrow> int outcome" where
  "get_int32 (JUnsigned n) = Inr (to_int32 n)"
| "get_int32 (JInt i) = Inr (to_int32 i)"
| "get_int32 (JFloat d) = dbl_to_int32 d"
| "get_int32 (JBool b) = Inr (if b then 1 else 0)"
| "get_int32 j = Inl (type_error 302 (''type must be number, but is '' @ type_name j))"

fun get_string :: "json \<Rightarrow> string outcome" where
  "get_string (JString s) = Inr s"
| "get_string j = Inl (type_error 302 (''type must be string, but is '' @ type_name j))"

text \<open>\<open>get<map<string, string>>\<close>\<close>

fun get_string_map :: "json \<Rightarrow> (string \<times> string) list outcome" where
  "get_string_map (JObject kvs) =
     emap (\<lambda>(k, v). ebind (get_string v) (\<lambda>s. Inr (k, s))) kvs"
| "get_string_map j = Inl (type_error 302 (''type must be object, but is '' @ type_name j))"

text \<open>
  Construction from an initializer list: an object when every element is an array of two
  whose first is a string, else an array.
\<close>

fun pair_of :: "json \<Rightarrow> (string \<times> json) option" where
  "pair_of (JArray [JString k, v]) = Some (k, v)"
| "pair_of _ = None"

definition init_json :: "json list \<Rightarrow> json" where
  "init_json init =
     (if list_all (\<lambda>j. pair_of j \<noteq> None) init
      then JObject (fold (\<lambda>j kvs. case pair_of j of Some (k, v) \<Rightarrow> obj_emplace k v kvs | None \<Rightarrow> kvs)
                      init [])
      else JArray init)"

fun push_back :: "json \<Rightarrow> json \<Rightarrow> json outcome" where
  "push_back JNull v = Inr (JArray [v])"
| "push_back (JArray vs) v = Inr (JArray (vs @ [v]))"
| "push_back j v = Inl (type_error 308 (''cannot use push_back() with '' @ type_name j))"

text \<open>\<open>json(std::map<string, string>)\<close>: the entries in key order.\<close>

definition json_of_map :: "(string \<times> string) list \<Rightarrow> json" where
  "json_of_map kvs = JObject (map (\<lambda>(k, v). (k, JString v)) kvs)"

abbreviation jpair :: "string \<Rightarrow> json \<Rightarrow> json" where
  "jpair k v \<equiv> init_json [JString k, v]"

lemma jpair_eq [simp]: "jpair k v = JArray [JString k, v]"
  by (simp add: init_json_def)

lemma init_json_pairs [simp]:
  "init_json [JArray [JString k, v]] = JObject [(k, v)]"
  "k < k' \<Longrightarrow> init_json [JArray [JString k, v], JArray [JString k', v']] = JObject [(k, v), (k', v')]"
  "k' < k \<Longrightarrow> init_json [JArray [JString k, v], JArray [JString k', v']] = JObject [(k', v'), (k, v)]"
  "init_json [] = JObject []"
  by (auto simp: init_json_def obj_emplace_def)

end
