(* ===== verification/SiteState.thy ===== *)
theory SiteState
  imports Dom LruCache Json
begin

text \<open>
  The objects of \<^verbatim>\<open>src/site.h\<close>, \<^verbatim>\<open>src/context.h\<close> and \<^verbatim>\<open>src/query.h\<close> that refer to each other,
  and the third-party functions they call.  A \<open>Context *\<close> is a reference into the context heap
  of its site.
\<close>

section \<open>Objects\<close>

record vae_structure =
  st_id :: int
  st_name :: string
  st_type :: string
  st_permalink :: string

text \<open>\<open>Context\<close>, without its mutex; \<open>structure\<close> points into the site's \<open>structures\<close>, and is
  given by its key there.\<close>

record vae_context =
  cx_cached_counts :: "(string \<times> int) list"
  cx_cached_queries :: "(string \<times> string) list"
  cx_data :: "(string \<times> string) list"
  cx_data_populated :: bool
  cx_id :: int
  cx_permalink :: "string option"
  cx_pointer_nodes :: "addr list"
  cx_structure :: "vae_structure option"
  cx_type :: string
  cx_node :: addr
  cx_kill_me :: bool

text \<open>\<open>Query\<close>: the XPath object, whose node set may be null, and \<open>size\<close>.\<close>

datatype xpath_obj = NoObj | NodeSet "addr list option"

record query =
  q_obj :: xpath_obj
  q_size :: int

type_synonym lru_key = "ctxref option \<times> string"

record site =
  s_generation :: int
  s_subdomain :: string
  s_secret_keys :: "string list"
  s_structures :: "(int \<times> vae_structure) list"
  s_associations :: "ctxref list"
  s_query_cache :: "(lru_key, query option) lru"
  s_doc :: dom
  s_nodes :: "(int \<times> addr) list"
  s_nodes_to_clean :: "addr list"
  s_nodes_to_clean2 :: "addr list"
  s_permalinks :: "(string \<times> addr) list"
  s_root_design :: "addr option"
  s_root :: "addr option"
  s_staging :: bool
  s_contexts :: "(ctxref \<times> vae_context) list"
  s_next_context :: ctxref

section \<open>Libraries\<close>

text \<open>
  pcrecpp: \<open>pcre_replace\<close> is \<open>RE(pattern).Replace(rewrite, &s)\<close>, the changed text or nothing
  without a match, and \<open>pcre_full_match\<close> is \<open>FullMatch\<close> with the captured groups; both with
  the caseless flag.  boost: \<open>split\<close> at any of the given characters, \<open>join\<close>.
\<close>

record text_lib =
  pcre_replace :: "bool \<Rightarrow> string \<Rightarrow> string \<Rightarrow> string \<Rightarrow> string option"
  pcre_full_match :: "bool \<Rightarrow> string \<Rightarrow> string \<Rightarrow> string list option"
  boost_split :: "string \<Rightarrow> string \<Rightarrow> string list"
  boost_join :: "string \<Rightarrow> string list \<Rightarrow> string"

text \<open>libxml2: the outcome of an XPath evaluation, and the operations on nodes.\<close>

datatype xpath_result =
    XNoContext
  | XFailed
  | XNodes "addr list option"
  | XOther

record xml_lib =
  xpath_eval :: "dom \<Rightarrow> addr option \<Rightarrow> string \<Rightarrow> xpath_result"
  xml_unlink :: "addr \<Rightarrow> dom \<Rightarrow> dom"
  xml_free_node :: "addr \<Rightarrow> dom \<Rightarrow> dom"
  xml_free_node_list :: "addr option \<Rightarrow> dom \<Rightarrow> dom"
  xml_copy_node :: "addr \<Rightarrow> dom \<Rightarrow> addr option \<times> dom"
  xml_add_child :: "addr \<Rightarrow> addr \<Rightarrow> dom \<Rightarrow> dom"
  xml_parse_file :: "string \<Rightarrow> dom option"
  xml_read_memory :: "string \<Rightarrow> string \<Rightarrow> dom option"
  xml_order_elems :: "dom \<Rightarrow> dom"

section \<open>References\<close>

definition context_at :: "site \<Rightarrow> ctxref option \<Rightarrow> vae_context outcome" where
  "context_at s p = (case p of
     None \<Rightarrow> Inl (UB NullDeref)
   | Some r \<Rightarrow> (case map_of (s_contexts s) r of None \<Rightarrow> Inl (UB UseAfterFree) | Some c \<Rightarrow> Inr c))"

text \<open>An update of a map that is kept as an association list, for unordered keys.\<close>

fun put :: "'k \<Rightarrow> 'v \<Rightarrow> ('k \<times> 'v) list \<Rightarrow> ('k \<times> 'v) list" where
  "put k v [] = [(k, v)]"
| "put k v ((k', v') # kvs) = (if k = k' then (k, v) # kvs else (k', v') # put k v kvs)"

lemma map_of_put [simp]: "map_of (put k v kvs) = (map_of kvs)(k \<mapsto> v)"
  by (induction k v kvs rule: put.induct) (auto simp: fun_upd_twist)

interpretation map_memo: retaining_cache "\<lambda>_. True" map_of put
  by unfold_locales (auto split: if_splits)

definition set_context :: "ctxref \<Rightarrow> vae_context \<Rightarrow> site \<Rightarrow> site" where
  "set_context r c s = s\<lparr>s_contexts := put r c (s_contexts s)\<rparr>"

lemma context_at_set_context [simp]:
  "context_at (set_context r c s) (Some r') = (if r' = r then Inr c else context_at s (Some r'))"
  by (simp add: context_at_def set_context_def)

section \<open>A site before loading\<close>

definition query_cache_size :: "64 word" where "query_cache_size = 384"

definition site_empty :: "string \<Rightarrow> bool \<Rightarrow> string list \<Rightarrow> site" where
  "site_empty su staging keys =
     \<lparr>s_generation = - 1, s_subdomain = su, s_secret_keys = keys, s_structures = [], s_associations = [],
      s_query_cache = lru_new query_cache_size, s_doc = \<lparr>dom_nodes = [], dom_top = 0\<rparr>, s_nodes = [],
      s_nodes_to_clean = [], s_nodes_to_clean2 = [], s_permalinks = [], s_root_design = None,
      s_root = None, s_staging = staging, s_contexts = [], s_next_context = 0\<rparr>"

end
