(* ===== verification/QueryEngine.thy ===== *)
theory QueryEngine
  imports SiteState "HOL-Library.While_Combinator"
begin

text \<open>
  \<^verbatim>\<open>src/query.cpp\<close>: a query is resolved by permalink, by numeric id, or rewritten into XPath
  and evaluated.  Constructing a \<open>Query\<close> reads the site and changes nothing in it, so the
  constructor is a function of the site.
\<close>

section \<open>The query object\<close>

definition query_result :: "addr option \<Rightarrow> query" where
  "query_result node = (case node of
     Some a \<Rightarrow> \<lparr>q_obj = NodeSet (Some [a]), q_size = 1\<rparr>
   | None \<Rightarrow> \<lparr>q_obj = NodeSet (Some []), q_size = 0\<rparr>)"

definition get_node :: "query \<Rightarrow> nat \<Rightarrow> addr outcome" where
  "get_node q i = (case q_obj q of
     NodeSet (Some ns) \<Rightarrow> (if i < length ns then Inr (ns ! i) else Inl (UB OutOfBounds))
   | _ \<Rightarrow> Inl (UB NullDeref))"

definition get_size :: "query \<Rightarrow> int" where
  "get_size q = q_size q"

definition query_find :: "site \<Rightarrow> int \<Rightarrow> query" where
  "query_find s i = query_result (map_of (s_nodes s) i)"

text \<open>\<open>getSingleData\<close>: the text of the first node, if its first child is a text node.\<close>

definition text_of_first_child :: "dom \<Rightarrow> xnode \<Rightarrow> string outcome" where
  "text_of_first_child d n = (case xn_children n of
     None \<Rightarrow> Inr []
   | Some a \<Rightarrow> ebind (deref d (Some a)) (\<lambda>child.
       Inr (if xn_type child = TextNode then xn_content child else [])))"

definition get_single_data :: "site \<Rightarrow> query \<Rightarrow> string outcome" where
  "get_single_data s q =
     (if get_size q > 0 then
        ebind (get_node q 0) (\<lambda>a. ebind (deref (s_doc s) (Some a)) (\<lambda>n.
          text_of_first_child (s_doc s) n))
      else Inr [])"

text \<open>\<open>singleData\<close>: one result without an \<open>id\<close> attribute.\<close>

definition single_data :: "site \<Rightarrow> query \<Rightarrow> bool outcome" where
  "single_data s q =
     (if q_size q = 1 then
        ebind (get_node q 0) (\<lambda>a. ebind (deref (s_doc s) (Some a)) (\<lambda>n.
          Inr (\<not> list_ex (\<lambda>p. fst p = ''id'') (xn_props n))))
      else Inr False)"

section \<open>Evaluation\<close>

definition run_raw_query :: "xml_lib \<Rightarrow> site \<Rightarrow> addr option \<Rightarrow> string \<Rightarrow> string \<Rightarrow> query outcome" where
  "run_raw_query X s node q display_query =
     (case xpath_eval X (s_doc s) node (c_str q) of
        XNoContext \<Rightarrow> Inl (VaeDbInternalError ''could not create libxml2 XPath Context'')
      | XFailed \<Rightarrow> Inl (VaeDbQueryError
          (''could not evaluate XPath expression: '' @ squote @ display_query @ squote))
      | XOther \<Rightarrow> Inl (VaeDbInternalError ''libxml2 returned something other than a nodeset?!'')
      | XNodes nodesetval \<Rightarrow>
          (let size = (case nodesetval of Some ns \<Rightarrow> int (length ns) | None \<Rightarrow> 0);
               query = \<lparr>q_obj = NodeSet nodesetval, q_size = size\<rparr>
           in if size \<noteq> 0 then
                ebind (get_node query 0) (\<lambda>a.
                  if Some a = s_root s then Inr (query_result None) else Inr query)
              else Inr query))"

definition run_query :: "xml_lib \<Rightarrow> site \<Rightarrow> ctxref option \<Rightarrow> string \<Rightarrow> string \<Rightarrow> query outcome" where
  "run_query X s cx q display_query =
     (case cx of
        Some _ \<Rightarrow> ebind (context_at s cx) (\<lambda>c. run_raw_query X s (Some (cx_node c)) q display_query)
      | None \<Rightarrow> run_raw_query X s (s_root s) q display_query)"

definition run_design_query :: "xml_lib \<Rightarrow> site \<Rightarrow> ctxref option \<Rightarrow> string \<Rightarrow> query outcome" where
  "run_design_query X s cx query =
     (case cx of
        Some _ \<Rightarrow> ebind (context_at s cx) (\<lambda>c.
          (case cx_structure c of
             None \<Rightarrow> Inl (UB NullDeref)
           | Some st \<Rightarrow>
               (let q = ''/website/design//*[@id='' @ show_int (st_id st) @ '']''
                in ebind (run_raw_query X s None q q) (\<lambda>sub.
                   ebind (get_node sub 0) (\<lambda>node.
                     run_raw_query X s (Some node) query query)))))
      | None \<Rightarrow> run_raw_query X s (s_root_design s) query query)"

section \<open>Construction\<close>

text \<open>A stage of the constructor either finishes the query or goes on with a context and text.\<close>

datatype stage = Finish query | Continue "ctxref option" string

text \<open>\<open>(Context *)node->_private\<close>\<close>

definition private_of :: "site \<Rightarrow> addr \<Rightarrow> ctxref option outcome" where
  "private_of s a = ebind (deref (s_doc s) (Some a)) (\<lambda>n. Inr (xn_private n))"

text \<open>Permalinks: the longest prefix of the path that is a permalink, the rest becomes the query.\<close>

fun permalink_search :: "text_lib \<Rightarrow> site \<Rightarrow> string list \<Rightarrow> nat \<Rightarrow> stage outcome" where
  "permalink_search T s path_parts 0 = Inr (Finish (query_result None))"
| "permalink_search T s path_parts (Suc i) =
     (case map_of (s_permalinks s) (boost_join T ''/'' (take (Suc i) path_parts)) of
        Some node \<Rightarrow>
          (if Suc i = length path_parts then Inr (Finish (query_result (Some node)))
           else ebind (private_of s node) (\<lambda>cx.
             Inr (Continue cx (boost_join T ''/'' (drop (Suc i) path_parts)))))
      | None \<Rightarrow> permalink_search T s path_parts i)"

definition permalink_stage :: "text_lib \<Rightarrow> site \<Rightarrow> ctxref option \<Rightarrow> string \<Rightarrow> stage outcome" where
  "permalink_stage T s cx query =
     (case pcre_full_match T False ''permalink/(.*)'' query of
        Some (permalink # _) \<Rightarrow>
          (let path_parts = boost_split T ''/'' permalink
           in permalink_search T s path_parts (length path_parts))
      | _ \<Rightarrow> Inr (Continue cx query))"

definition id_stage :: "text_lib \<Rightarrow> site \<Rightarrow> ctxref option \<Rightarrow> string \<Rightarrow> stage outcome" where
  "id_stage T s cx query =
     (case pcre_full_match T False ''([0-9]+)(/.*|)'' query of
        Some (i # rest # _) \<Rightarrow>
          (let found = query_find s (atoi (c_str i))
           in if q_size found \<noteq> 0 \<and> 0 < length rest
              then ebind (get_node found 0) (\<lambda>a. ebind (private_of s a) (\<lambda>cx'.
                     Inr (Continue cx' (drop 1 rest))))
              else Inr (Finish found))
      | _ \<Rightarrow> Inr (Continue cx query))"

definition sibling_query :: "site \<Rightarrow> ctxref option \<Rightarrow> string \<Rightarrow> string \<Rightarrow> string outcome" where
  "sibling_query s cx axis msg =
     (case cx of
        None \<Rightarrow> Inl (VaeDbQueryError msg)
      | Some _ \<Rightarrow> ebind (context_at s cx) (\<lambda>c. ebind (deref (s_doc s) (Some (cx_node c))) (\<lambda>n.
          (case xn_name n of
             None \<Rightarrow> Inl (VaeDbQueryError msg)
           | Some name \<Rightarrow> Inr (axis @ name @ ''[1]'')))))"

definition sibling_stage :: "site \<Rightarrow> ctxref option \<Rightarrow> string \<Rightarrow> string outcome" where
  "sibling_stage s cx query =
     ebind (if strcaseeq ''prev()'' (c_str query)
            then sibling_query s cx ''preceding-sibling::'' ''You cannot use PREV() outside of a context.''
            else Inr query) (\<lambda>query1.
       if strcaseeq ''next()'' (c_str query1)
       then sibling_query s cx ''following-sibling::'' ''You cannot use NEXT() outside of a context.''
       else Inr query1)"

text \<open>\<open>while (RE(pattern).Replace(rewrite, &s)) { }\<close>\<close>

definition replace_while :: "text_lib \<Rightarrow> string \<Rightarrow> string \<Rightarrow> string \<Rightarrow> string outcome" where
  "replace_while T pattern rewrite str =
     (case while_option (\<lambda>x. pcre_replace T False pattern rewrite x \<noteq> None)
             (\<lambda>x. the (pcre_replace T False pattern rewrite x)) str of
        Some x \<Rightarrow> Inr x | None \<Rightarrow> Inl Diverges)"

text \<open>The rewriting rules, in order: a numeric step to an id predicate, and \<open>/text()\<close> after the
  names compared in predicates.\<close>

definition rewrite_rules :: "(string \<times> string) list" where
  "rewrite_rules =
    [(''/([0-9]+)'', ''[@id='' @ squote @ backslash @ ''1'' @ squote @ '']''),
     (backslash @ ''[([_a-z])([a-z0-9_/]+)([^(a-z0-9_/])'',
      ''['' @ backslash @ ''1'' @ backslash @ ''2/text()'' @ backslash @ ''3''),
     ('' (or|and) ([_a-z])([a-z0-9_/]+)([^(a-z0-9_/])'',
      '' '' @ backslash @ ''1 '' @ backslash @ ''2'' @ backslash @ ''3/text()'' @ backslash @ ''4''),
     (''([^@])([_a-z])([0-9a-z_/]+) (or|and) '',
      backslash @ ''1'' @ backslash @ ''2'' @ backslash @ ''3/text() '' @ backslash @ ''4 ''),
     (''([^@])([_a-z])([0-9a-z_/]+)'' @ backslash @ '']'',
      backslash @ ''1'' @ backslash @ ''2'' @ backslash @ ''3/text()]'')]"

fun apply_rules :: "text_lib \<Rightarrow> (string \<times> string) list \<Rightarrow> string \<Rightarrow> string outcome" where
  "apply_rules T [] x = Inr x"
| "apply_rules T ((pattern, rewrite) # rules) x =
     ebind (replace_while T pattern rewrite x) (apply_rules T rules)"

definition rewrite_part :: "text_lib \<Rightarrow> string \<Rightarrow> string outcome" where
  "rewrite_part T part =
     ebind (apply_rules T rewrite_rules part) (\<lambda>x.
       if contains (c_str x) ''//''
       then Inl (VaeDbQueryError ''Double-slashes are not supported in Vae queries.'')
       else Inr x)"

text \<open>The parts outside quotes are those with an even index.\<close>

fun rewrite_parts :: "text_lib \<Rightarrow> string list \<Rightarrow> string list outcome" where
  "rewrite_parts T [] = Inr []"
| "rewrite_parts T [part] = ebind (rewrite_part T part) (\<lambda>x. Inr [x])"
| "rewrite_parts T (part # quoted # parts) =
     ebind (rewrite_part T part) (\<lambda>x. ebind (rewrite_parts T parts) (\<lambda>xs. Inr (x # quoted # xs)))"

definition rewrite_stage :: "text_lib \<Rightarrow> string \<Rightarrow> string outcome" where
  "rewrite_stage T query =
     ebind (rewrite_parts T (boost_split T squote query)) (\<lambda>parts.
       Inr (boost_join T squote parts))"

definition first_step_stage :: "text_lib \<Rightarrow> string \<Rightarrow> string outcome" where
  "first_step_stage T query =
     (if contains (c_str query) ''/'' \<and> \<not> contains (c_str query) ''['' then
        (case boost_split T ''/'' query of
           [] \<Rightarrow> Inl (UB OutOfBounds)
         | part # parts \<Rightarrow>
             (if \<not> contains (c_str part) ''.''
              then Inr (boost_join T ''/'' ((part @ ''[@id!='' @ squote @ squote @ '']'') # parts))
              else Inr query))
      else Inr query)"

text \<open>The constructor after the permalinks, and as a whole; \<open>q\<close> is the text of the caller, for messages.\<close>

definition query_rest :: "text_lib \<Rightarrow> xml_lib \<Rightarrow> site \<Rightarrow> string \<Rightarrow> ctxref option \<Rightarrow> string \<Rightarrow> query outcome" where
  "query_rest T X s q cx2 query2 =
     ebind (id_stage T s cx2 query2) (\<lambda>st3.
     case st3 of Finish r \<Rightarrow> Inr r | Continue cx3 query3 \<Rightarrow>
       ebind (sibling_stage s cx3 query3) (\<lambda>query4.
       ebind (rewrite_stage T query4) (\<lambda>query5.
       ebind (first_step_stage T query5) (\<lambda>query6.
         run_query X s cx3 query6 q))))"

definition query_new :: "text_lib \<Rightarrow> xml_lib \<Rightarrow> site \<Rightarrow> ctxref option \<Rightarrow> string \<Rightarrow> query outcome" where
  "query_new T X s cx q =
     (let (cx1, query1) = (case pcre_replace T False ''^/'' [] q of
            Some query' \<Rightarrow> (None, query') | None \<Rightarrow> (cx, q))
      in ebind (permalink_stage T s cx1 query1) (\<lambda>st2.
         case st2 of Finish r \<Rightarrow> Inr r | Continue cx2 query2 \<Rightarrow> query_rest T X s q cx2 query2))"

section \<open>What the text library does\<close>

text \<open>Splitting at one character and joining, and the three patterns of the constructor that need no
  regular expression engine to describe.\<close>

fun split_at_char :: "char \<Rightarrow> string \<Rightarrow> string list" where
  "split_at_char c [] = [[]]"
| "split_at_char c (x # xs) =
     (if x = c then [] # split_at_char c xs
      else (case split_at_char c xs of part # parts \<Rightarrow> (x # part) # parts | [] \<Rightarrow> [[x]]))"

fun join_with :: "string \<Rightarrow> string list \<Rightarrow> string" where
  "join_with sep [] = []"
| "join_with sep [part] = part"
| "join_with sep (part # parts) = part @ sep @ join_with sep parts"

fun drop_slash :: "string \<Rightarrow> string option" where
  "drop_slash [] = None"
| "drop_slash (c # s) = (if c = CHR ''/'' then Some s else None)"

definition permalink_match :: "string \<Rightarrow> string list option" where
  "permalink_match s = (if starts_with ''permalink/'' s \<and> newline_char \<notin> set s then Some [drop 10 s] else None)"

definition id_match :: "string \<Rightarrow> string list option" where
  "id_match s =
     (let d = takeWhile is_digit s; r = dropWhile is_digit s in
      if d \<noteq> [] \<and> (r = [] \<or> (hd r = CHR ''/'' \<and> newline_char \<notin> set r)) then Some [d, r] else None)"

definition text_contract :: "text_lib \<Rightarrow> bool" where
  "text_contract T \<longleftrightarrow>
     (\<forall>c s. boost_split T [c] s = split_at_char c s) \<and>
     (\<forall>sep parts. boost_join T sep parts = join_with sep parts) \<and>
     (\<forall>s. pcre_replace T False ''^/'' [] s = drop_slash s) \<and>
     (\<forall>s. pcre_full_match T False ''permalink/(.*)'' s = permalink_match s) \<and>
     (\<forall>s. pcre_full_match T False ''([0-9]+)(/.*|)'' s = id_match s)"

text \<open>An instance, in which the rewriting rules never apply.\<close>

definition text_ref :: text_lib where
  "text_ref = \<lparr>
     pcre_replace = (\<lambda>_ pattern _ s. if pattern = ''^/'' then drop_slash s else None),
     pcre_full_match = (\<lambda>_ pattern s.
       if pattern = ''permalink/(.*)'' then permalink_match s
       else if pattern = ''([0-9]+)(/.*|)'' then id_match s else None),
     boost_split = (\<lambda>delims s. split_at_char (hd delims) s),
     boost_join = join_with\<rparr>"

lemma text_ref_contract: "text_contract text_ref"
  by (simp add: text_contract_def text_ref_def)

lemma split_at_char_ne: "split_at_char c s \<noteq> []"
  by (induction s) (auto split: list.splits)

lemma join_split: "join_with [c] (split_at_char c s) = s"
proof (induction s)
  case (Cons x xs)
  obtain part parts where p: "split_at_char c xs = part # parts"
    using split_at_char_ne [of c xs] by (cases "split_at_char c xs") auto
  with Cons.IH show ?case by (cases parts) auto
qed simp

section \<open>Permalinks and ids\<close>

lemma permalink_search_found:
  assumes "0 < i" and "map_of (s_permalinks s) (boost_join T ''/'' (take i parts)) = Some node"
    and "\<forall>j. i < j \<and> j \<le> n \<longrightarrow> map_of (s_permalinks s) (boost_join T ''/'' (take j parts)) = None"
    and "i \<le> n"
  shows "permalink_search T s parts n =
    (if i = length parts then Inr (Finish (query_result (Some node)))
     else ebind (private_of s node) (\<lambda>cx. Inr (Continue cx (boost_join T ''/'' (drop i parts)))))"
  using assms(3,4)
proof (induction n)
  case 0
  with assms(1) show ?case by simp
next
  case (Suc n)
  show ?case
  proof (cases "i = Suc n")
    case True
    with assms(2) show ?thesis by simp
  next
    case False
    with Suc.prems have "map_of (s_permalinks s) (boost_join T ''/'' (take (Suc n) parts)) = None" by simp
    with Suc False show ?thesis by simp
  qed
qed

lemma permalink_search_none:
  "(\<forall>j. 0 < j \<and> j \<le> n \<longrightarrow> map_of (s_permalinks s) (boost_join T ''/'' (take j parts)) = None) \<Longrightarrow>
     permalink_search T s parts n = Inr (Finish (query_result None))"
  by (induction n) auto

lemma permalink_match_eq:
  "newline_char \<notin> set p \<Longrightarrow> permalink_match (''permalink/'' @ p) = Some [p]"
  by (simp add: permalink_match_def starts_with_iff newline_char_def)

lemma id_match_digits:
  "list_all is_digit d \<Longrightarrow> d \<noteq> [] \<Longrightarrow> id_match d = Some [d, []]"
  by (simp add: id_match_def list_all_iff takeWhile_eq_all_conv [THEN iffD2] dropWhile_eq_Nil_conv [THEN iffD2])

lemma id_stage_digits:
  assumes "text_contract T" and "list_all is_digit d" and "d \<noteq> []"
  shows "id_stage T s cx d = Inr (Finish (query_result (map_of (s_nodes s) (atoi d))))"
proof -
  have "CHR 0x00 \<notin> set d" using assms(2) by (auto simp: list_all_iff is_digit_def)
  then have "c_str d = d" by (auto simp: c_str_def takeWhile_eq_all_conv)
  then show ?thesis
    using assms(1) id_match_digits [OF assms(2,3)] by (simp add: text_contract_def id_stage_def query_find_def)
qed

text \<open>(C29) A permalink query takes the longest prefix of its path that is a permalink.  The whole path gives
  that node; a path without such a prefix gives the empty result; else what remains of the path is run
  below the context of the node, as a query without the leading slash and the permalink is, so that a number
  is looked up as an id of the site, wherever its node is.  The context of the caller plays no role.\<close>

theorem permalink_query:
  assumes "text_contract T" and "newline_char \<notin> set path"
  shows "(\<forall>node. map_of (s_permalinks s) path = Some node \<longrightarrow>
      query_new T X s cx (''permalink/'' @ path) = Inr (query_result (Some node))) \<and>
    ((\<forall>i. 0 < i \<and> i \<le> length (split_at_char CHR ''/'' path) \<longrightarrow>
        map_of (s_permalinks s) (join_with ''/'' (take i (split_at_char CHR ''/'' path))) = None) \<longrightarrow>
      query_new T X s cx (''permalink/'' @ path) = Inr (query_result None)) \<and>
    (\<forall>i node rest. 0 < i \<and> i < length (split_at_char CHR ''/'' path) \<and>
        map_of (s_permalinks s) (join_with ''/'' (take i (split_at_char CHR ''/'' path))) = Some node \<and>
        (\<forall>j. i < j \<and> j \<le> length (split_at_char CHR ''/'' path) \<longrightarrow>
          map_of (s_permalinks s) (join_with ''/'' (take j (split_at_char CHR ''/'' path))) = None) \<and>
        rest = join_with ''/'' (drop i (split_at_char CHR ''/'' path)) \<longrightarrow>
      query_new T X s cx (''permalink/'' @ path) =
        ebind (private_of s node) (\<lambda>cx'. query_rest T X s (''permalink/'' @ path) cx' rest) \<and>
      (list_all is_digit rest \<and> rest \<noteq> [] \<longrightarrow>
        query_new T X s cx (''permalink/'' @ path) =
          ebind (private_of s node) (\<lambda>_. Inr (query_result (map_of (s_nodes s) (atoi rest))))))"
proof -
  define parts where "parts = split_at_char CHR ''/'' path"
  have t: "boost_split T ''/'' path = parts" "boost_join T sep ps = join_with sep ps"
    "pcre_replace T False ''^/'' [] (''permalink/'' @ path) = None"
    "pcre_full_match T False ''permalink/(.*)'' (''permalink/'' @ path) = permalink_match (''permalink/'' @ path)"
    for sep ps
    using assms unfolding text_contract_def parts_def by auto
  note m = t(4) [unfolded permalink_match_eq [OF assms(2)]]
  have st: "permalink_stage T s cx0 (''permalink/'' @ path) = permalink_search T s parts (length parts)" for cx0
    using t(1-3) m by (simp add: permalink_stage_def)
  have new: "query_new T X s cx (''permalink/'' @ path) = Inr q"
    if "permalink_search T s parts (length parts) = Inr (Finish q)" for q
    using t(3) st that by (simp add: query_new_def)
  have ne: "0 < length parts" using split_at_char_ne by (simp add: parts_def)
  have all: "join_with ''/'' (take (length parts) parts) = path"
    by (simp add: parts_def join_split)
  have 1: "query_new T X s cx (''permalink/'' @ path) = Inr (query_result (Some node))"
    if "map_of (s_permalinks s) path = Some node" for node
    using permalink_search_found [of "length parts" s T parts node "length parts"] that ne all t(2)
    by (intro new) simp
  have 2: "query_new T X s cx (''permalink/'' @ path) = Inr (query_result None)"
    if "\<forall>i. 0 < i \<and> i \<le> length parts \<longrightarrow> map_of (s_permalinks s) (join_with ''/'' (take i parts)) = None"
    using that t(2) by (intro new permalink_search_none) simp
  have 3: "query_new T X s cx (''permalink/'' @ path) = ebind (private_of s node) (\<lambda>cx'.
        query_rest T X s (''permalink/'' @ path) cx' (join_with ''/'' (drop i parts)))"
    if "0 < i" "i < length parts" "map_of (s_permalinks s) (join_with ''/'' (take i parts)) = Some node"
      "\<forall>j. i < j \<and> j \<le> length parts \<longrightarrow> map_of (s_permalinks s) (join_with ''/'' (take j parts)) = None" for i node
    using permalink_search_found [of i s T parts node "length parts"] that t(2,3) st
    by (simp add: query_new_def ebind_assoc)
  have 4: "query_rest T X s q cx' rest = Inr (query_result (map_of (s_nodes s) (atoi rest)))"
    if "list_all is_digit rest" "rest \<noteq> []" for q cx' rest
    using id_stage_digits [OF assms(1) that] by (simp add: query_rest_def)
  have 5: "query_new T X s cx (''permalink/'' @ path) =
        ebind (private_of s node) (\<lambda>_. Inr (query_result (map_of (s_nodes s) (atoi rest))))"
    if "0 < i" "i < length parts" "map_of (s_permalinks s) (join_with ''/'' (take i parts)) = Some node"
      "\<forall>j. i < j \<and> j \<le> length parts \<longrightarrow> map_of (s_permalinks s) (join_with ''/'' (take j parts)) = None"
      "rest = join_with ''/'' (drop i parts)" "list_all is_digit rest" "rest \<noteq> []" for i node rest
    unfolding 3 [OF that(1-4)] that(5) [symmetric] 4 [OF that(6,7)] ..
  show ?thesis using 1 2 3 5 unfolding parts_def by blast
qed

definition demo_site :: site where
  "demo_site = (site_empty ''a'' False [])\<lparr>s_permalinks := [(''music'', 4), (''music/jazz'', 7)],
     s_nodes := [(12, 4), (13, 7)], s_doc := demo_dom\<rparr>"

theorem permalink_query_witness:
  "\<forall>X cx. query_new text_ref X demo_site cx ''permalink/music/jazz'' = Inr (query_result (Some 7)) \<and>
     query_new text_ref X demo_site cx ''permalink/music/12'' =
       ebind (private_of demo_site 4) (\<lambda>_. Inr (query_result (Some 4)))"
proof (intro allI)
  fix X cx
  have "newline_char \<notin> set ''music/jazz''" "newline_char \<notin> set ''music/12''" by code_simp+
  note q = permalink_query [OF text_ref_contract this(1), of demo_site X cx]
    and r = permalink_query [OF text_ref_contract this(2), of demo_site X cx]
  have "map_of (s_permalinks demo_site) ''music/jazz'' = Some 7" by code_simp
  with q have "query_new text_ref X demo_site cx ''permalink/music/jazz'' = Inr (query_result (Some 7))" by simp
  moreover have p: "split_at_char CHR ''/'' ''music/12'' = [''music'', ''12'']" by code_simp
  have "map_of (s_permalinks demo_site) ''music'' = Some 4" "map_of (s_permalinks demo_site) ''music/12'' = None"
    "list_all is_digit ''12''" "map_of (s_nodes demo_site) (atoi ''12'') = Some 4" by code_simp+
  then have "0 < (1 :: nat) \<and> 1 < length [''music'', ''12''] \<and>
      map_of (s_permalinks demo_site) (join_with ''/'' (take 1 [''music'', ''12''])) = Some 4 \<and>
      (\<forall>j. 1 < j \<and> j \<le> length [''music'', ''12''] \<longrightarrow>
        map_of (s_permalinks demo_site) (join_with ''/'' (take j [''music'', ''12''])) = None) \<and>
      ''12'' = join_with ''/'' (drop 1 [''music'', ''12''])"
    by (auto simp: less_Suc_eq_le le_Suc_eq numeral_2_eq_2 dest!: le_antisym)
  from r [THEN conjunct2, THEN conjunct2, unfolded p, rule_format, OF this, THEN conjunct2]
    \<open>list_all is_digit ''12''\<close> \<open>map_of (s_nodes demo_site) (atoi ''12'') = Some 4\<close>
  have "query_new text_ref X demo_site cx ''permalink/music/12'' =
      ebind (private_of demo_site 4) (\<lambda>_. Inr (query_result (Some 4)))" by simp
  ultimately show "query_new text_ref X demo_site cx ''permalink/music/jazz'' = Inr (query_result (Some 7)) \<and>
     query_new text_ref X demo_site cx ''permalink/music/12'' =
       ebind (private_of demo_site 4) (\<lambda>_. Inr (query_result (Some 4)))" by blast
qed

text \<open>A query that is a number gives the node registered under that id, or the empty result,
  whatever the context.\<close>

theorem id_query:
  assumes "text_contract T" and "list_all is_digit d" and "d \<noteq> []"
  shows "query_new T X s cx d = Inr (query_result (map_of (s_nodes s) (atoi d)))"
proof -
  obtain c d' where d: "d = c # d'" using assms(3) by (cases d) auto
  have c: "is_digit c" using assms(2) d by simp
  then have c1: "c \<noteq> CHR ''/''" "c \<noteq> CHR ''p''" by (auto simp: is_digit_def)
  have "permalink_match d = None" using c1 by (simp add: permalink_match_def d)
  then show ?thesis
    using assms c1 id_stage_digits [OF assms] d unfolding text_contract_def
    by (simp add: query_new_def query_rest_def permalink_stage_def)
qed

theorem id_query_witness:
  "\<forall>X cx. query_new text_ref X demo_site cx ''12'' = Inr (query_result (Some 4))"
proof (intro allI)
  fix X cx
  have "map_of (s_nodes demo_site) (atoi ''12'') = Some 4" "list_all is_digit ''12''" by code_simp+
  then show "query_new text_ref X demo_site cx ''12'' = Inr (query_result (Some 4))"
    using id_query [OF text_ref_contract, of "''12''" X demo_site cx] by simp
qed

end
