(* ===== verification/ContextObj.thy ===== *)
theory ContextObj
  imports QueryEngine
begin

text \<open>
  \<^verbatim>\<open>src/context.cpp\<close>: the object behind an XML element, with its caches, and the part of
  \<^verbatim>\<open>src/site.cpp\<close> it calls while a site loads (\<open>structureFromStructureId\<close>).  Operations are
  steps on the site.
\<close>

section \<open>Reading a context\<close>

definition context_of :: "ctxref \<Rightarrow> (site, vae_context) sm" where
  "context_of r = sread (\<lambda>s. context_at s (Some r))"

definition node_of :: "addr option \<Rightarrow> (site, xnode) sm" where
  "node_of p = sread (\<lambda>s. deref (s_doc s) p)"

definition get_id :: "ctxref \<Rightarrow> (site, int) sm" where
  "get_id r = sbind (context_of r) (\<lambda>c. sret (cx_id c))"

definition context_single_data :: "ctxref \<Rightarrow> (site, string) sm" where
  "context_single_data r =
     sbind (context_of r) (\<lambda>c. sbind (node_of (Some (cx_node c))) (\<lambda>n.
       sread (\<lambda>s. text_of_first_child (s_doc s) n)))"

definition get_structure :: "ctxref \<Rightarrow> (site, vae_structure) sm" where
  "get_structure r = sbind (context_of r) (\<lambda>c. sret
     (case cx_structure c of Some st \<Rightarrow> st
      | None \<Rightarrow> \<lparr>st_id = 0, st_name = [], st_type = [], st_permalink = []\<rparr>))"

definition json_fields :: "(string \<times> json) list \<Rightarrow> json \<Rightarrow> json outcome" where
  "json_fields fs j = fold (\<lambda>(k, v) acc. ebind acc (json_set k v)) fs (Inr j)"

definition context_to_json :: "ctxref \<Rightarrow> (site, json) sm" where
  "context_to_json r =
     sbind (context_of r) (\<lambda>c.
     sbind (if cx_id c = 0 then sbind (context_single_data r) (\<lambda>d. sret (''data'', JString d))
            else sret (''id'', JInt (cx_id c))) (\<lambda>last.
       sread (\<lambda>_. json_fields
         ((case cx_structure c of
             Some st \<Rightarrow> [(''structure_id'', JInt (st_id st)), (''type'', JString (cx_type c))]
           | None \<Rightarrow> [])
          @ (case cx_permalink c of Some p \<Rightarrow> [(''permalink'', JString p)] | None \<Rightarrow> [])
          @ [last]) JNull)))"

section \<open>Data and counts\<close>

text \<open>\<open>populateData\<close>: the text of every element child, or \<open>(collection)\<close> if it has more than
  text below it.\<close>

definition COLLECTION_DESC :: string where "COLLECTION_DESC = ''(collection)''"

fun content_of :: "xnode list \<Rightarrow> string option \<Rightarrow> string option" where
  "content_of [] content = content"
| "content_of (n # ns) content =
     (if xn_type n = TextNode then content_of ns (Some (xn_content n)) else Some COLLECTION_DESC)"

fun populate_loop :: "dom \<Rightarrow> xnode list \<Rightarrow> (string \<times> string) list \<Rightarrow> (string \<times> string) list outcome" where
  "populate_loop d [] data = Inr data"
| "populate_loop d (child # children) data =
     (if xn_type child = ElementNode then
        ebind (chain d (xn_children child)) (\<lambda>below.
          populate_loop d children
            (case (content_of (map snd below) None, xn_name child) of
               (Some content, Some name) \<Rightarrow> obj_put name content data
             | _ \<Rightarrow> data))
      else populate_loop d children data)"

definition populate_data :: "ctxref \<Rightarrow> (site, unit) sm" where
  "populate_data r =
     sbind (context_of r) (\<lambda>c.
       if cx_data_populated c then sret ()
       else
         sbind (node_of (Some (cx_node c))) (\<lambda>n.
         sbind (sread (\<lambda>s. chain (s_doc s) (xn_children n))) (\<lambda>children.
         sbind (sread (\<lambda>s. populate_loop (s_doc s) (map snd children) (cx_data c))) (\<lambda>data.
           smodify (set_context r (c\<lparr>cx_data := data, cx_data_populated := True\<rparr>))))))"

definition get_data_map :: "ctxref \<Rightarrow> (site, (string \<times> string) list) sm" where
  "get_data_map r =
     sbind (context_of r) (\<lambda>c.
     sbind (if \<not> cx_data_populated c then populate_data r else sret ()) (\<lambda>_.
     sbind (context_of r) (\<lambda>c'. sret (cx_data c'))))"

definition get_data :: "text_lib \<Rightarrow> xml_lib \<Rightarrow> ctxref \<Rightarrow> string \<Rightarrow> (site, string) sm" where
  "get_data T X r query =
     sbind (get_data_map r) (\<lambda>data.
       if query = [] then sthrow (VaeDbInternalError ''Empty query passed to Context::getData'')
       else (case map_of data query of
         Some v \<Rightarrow> sret v
       | None \<Rightarrow>
           sbind (context_of r) (\<lambda>c.
           (case map_of (cx_cached_queries c) query of
              Some v \<Rightarrow> sret v
            | None \<Rightarrow>
                sbind (sread (\<lambda>s. query_new T X s (Some r) query)) (\<lambda>q.
                sbind (sread (\<lambda>s. get_single_data s q)) (\<lambda>result.
                sbind (context_of r) (\<lambda>c'.
                sbind (smodify (set_context r
                    (c'\<lparr>cx_cached_queries := put query result (cx_cached_queries c')\<rparr>))) (\<lambda>_.
                  sret result))))))))"

definition get_count :: "text_lib \<Rightarrow> xml_lib \<Rightarrow> ctxref \<Rightarrow> string \<Rightarrow> (site, int) sm" where
  "get_count T X r query =
     sbind (context_of r) (\<lambda>c.
     (case map_of (cx_cached_counts c) query of
        Some n \<Rightarrow> sret n
      | None \<Rightarrow>
          sbind (sread (\<lambda>s. query_new T X s (Some r) query)) (\<lambda>q.
          sbind (smodify (set_context r
              (c\<lparr>cx_cached_counts := put query (get_size q) (cx_cached_counts c)\<rparr>))) (\<lambda>_.
            sret (get_size q)))))"

section \<open>Structures\<close>

text \<open>\<open>child->children->content\<close> of an attribute.\<close>

definition attr_text :: "string option \<Rightarrow> string outcome" where
  "attr_text v = (case v of Some t \<Rightarrow> Inr t | None \<Rightarrow> Inl (UB NullDeref))"

fun structure_attrs :: "(string \<times> string option) list \<Rightarrow> vae_structure \<Rightarrow> vae_structure outcome" where
  "structure_attrs [] st = Inr st"
| "structure_attrs ((name, v) # attrs) st =
     (if name = ''name'' then ebind (attr_text v) (\<lambda>t. structure_attrs attrs (st\<lparr>st_name := t\<rparr>))
      else if name = ''permalink'' then ebind (attr_text v) (\<lambda>t. structure_attrs attrs (st\<lparr>st_permalink := t\<rparr>))
      else if name = ''type'' then ebind (attr_text v) (\<lambda>t. structure_attrs attrs (st\<lparr>st_type := t\<rparr>))
      else structure_attrs attrs st)"

definition structure_from_structure_id :: "xml_lib \<Rightarrow> int \<Rightarrow> (site, vae_structure) sm" where
  "structure_from_structure_id X i =
     sbind (sread (\<lambda>s. Inr (map_of (s_structures s) i))) (\<lambda>cached.
     (case cached of
        Some st \<Rightarrow> sret st
      | None \<Rightarrow>
          (let q = ''/website/design//*[@id='' @ show_int i @ '']'' in
           sbind (sread (\<lambda>s. run_raw_query X s None q q)) (\<lambda>query.
           sbind (sread (\<lambda>_. get_node query 0)) (\<lambda>a.
           sbind (node_of (Some a)) (\<lambda>n.
           sbind (sread (\<lambda>_. structure_attrs (xn_props n)
               \<lparr>st_id = i, st_name = [], st_type = [], st_permalink = []\<rparr>)) (\<lambda>st.
           sbind (smodify (\<lambda>s. s\<lparr>s_structures := put i st (s_structures s)\<rparr>)) (\<lambda>_.
             sret st))))))))"

section \<open>Construction\<close>

record context_attrs =
  at_id :: int
  at_structure_id :: int
  at_permalink :: "string option"

text \<open>The attribute loop of \<open>populateAttrs\<close>; the flag is its early return.\<close>

fun attrs_loop :: "bool \<Rightarrow> (string \<times> string option) list \<Rightarrow> context_attrs \<Rightarrow> (context_attrs \<times> bool) outcome" where
  "attrs_loop staging [] acc = Inr (acc, False)"
| "attrs_loop staging ((name, v) # attrs) acc =
     ebind (if name = ''id'' then ebind (attr_text v) (\<lambda>t. Inr (acc\<lparr>at_id := atoi t\<rparr>))
            else if name = ''type'' then ebind (attr_text v) (\<lambda>t. Inr (acc\<lparr>at_structure_id := atoi t\<rparr>))
            else if name = ''permalink'' then ebind (attr_text v) (\<lambda>t. Inr (acc\<lparr>at_permalink := Some t\<rparr>))
            else Inr acc) (\<lambda>acc'.
       if \<not> staging \<and> name = ''staging'' then Inr (acc', True)
       else attrs_loop staging attrs acc')"

definition populate_attrs :: "xml_lib \<Rightarrow> ctxref \<Rightarrow> (site, bool) sm" where
  "populate_attrs X r =
     sbind (context_of r) (\<lambda>c.
     sbind (node_of (Some (cx_node c))) (\<lambda>n.
     sbind (sread (\<lambda>s. attrs_loop (s_staging s) (xn_props n)
        \<lparr>at_id = cx_id c, at_structure_id = 0, at_permalink = cx_permalink c\<rparr>)) (\<lambda>(acc, stop).
     sbind (smodify (set_context r (c\<lparr>cx_id := at_id acc, cx_permalink := at_permalink acc\<rparr>))) (\<lambda>_.
       if stop then sret True
       else if at_structure_id acc > 0 then
         sbind (structure_from_structure_id X (at_structure_id acc)) (\<lambda>st.
         sbind (context_of r) (\<lambda>c'.
         sbind (smodify (set_context r (c'\<lparr>cx_structure := Some st, cx_type := st_type st\<rparr>))) (\<lambda>_.
           sret False)))
       else sret False))))"

definition new_context :: "addr \<Rightarrow> (site, ctxref) sm" where
  "new_context node = (\<lambda>s. (Inr (s_next_context s),
     s\<lparr>s_contexts := (s_next_context s,
          \<lparr>cx_cached_counts = [], cx_cached_queries = [], cx_data = [], cx_data_populated = False,
           cx_id = 0, cx_permalink = None, cx_pointer_nodes = [], cx_structure = None, cx_type = [],
           cx_node = node, cx_kill_me = False\<rparr>) # s_contexts s,
       s_next_context := Suc (s_next_context s)\<rparr>))"

definition delete_context :: "ctxref \<Rightarrow> (site, unit) sm" where
  "delete_context r = smodify (\<lambda>s. s\<lparr>s_contexts := filter (\<lambda>c. fst c \<noteq> r) (s_contexts s)\<rparr>)"

definition on_doc :: "(dom \<Rightarrow> dom) \<Rightarrow> (site, unit) sm" where
  "on_doc f = smodify (\<lambda>s. s\<lparr>s_doc := f (s_doc s)\<rparr>)"

definition store_doc :: "addr option \<Rightarrow> (xnode \<Rightarrow> xnode) \<Rightarrow> (site, unit) sm" where
  "store_doc p f = sbind (node_of p) (\<lambda>_. on_doc (update_node (the p) f))"

text \<open>The end of the constructor: the node is entered under its permalink and its id.\<close>

definition register_context :: "ctxref \<Rightarrow> (site, unit) sm" where
  "register_context r =
     sbind (context_of r) (\<lambda>c. smodify (\<lambda>s.
       s\<lparr>s_permalinks := (case cx_permalink c of Some p \<Rightarrow> put p (cx_node c) (s_permalinks s)
                         | None \<Rightarrow> s_permalinks s),
         s_nodes := put (cx_id c) (cx_node c) (s_nodes s)\<rparr>))"

definition is_association :: "string \<Rightarrow> bool" where
  "is_association ty \<longleftrightarrow> ty = ''AssociationItem'' \<or> ty = ''SingleAssociationItem''"

text \<open>
  \<open>Context::Context\<close> and its loop over the children, which reads \<open>next\<close> before a killed child is
  unlinked and freed.  The flag tells the loop of the constructor, which skips nodes that have
  a context, from the same loop in \<open>Site::loadXmlDoc\<close>, which does not.  Fuel bounds the path
  of child and sibling steps; running out of it is a cycle.
\<close>

fun context_new :: "xml_lib \<Rightarrow> nat \<Rightarrow> addr \<Rightarrow> (site, ctxref) sm"
  and load_children :: "xml_lib \<Rightarrow> nat \<Rightarrow> bool \<Rightarrow> addr option \<Rightarrow> (site, unit) sm" where
  "context_new X 0 node = sthrow Diverges"
| "context_new X (Suc n) node =
     sbind (new_context node) (\<lambda>r.
     sbind (populate_attrs X r) (\<lambda>kill.
       if kill then
         sbind (context_of r) (\<lambda>c.
         sbind (smodify (set_context r (c\<lparr>cx_kill_me := True\<rparr>))) (\<lambda>_. sret r))
       else
         sbind (context_of r) (\<lambda>c.
         sbind (if is_association (cx_type c)
                then smodify (\<lambda>s. s\<lparr>s_associations := s_associations s @ [r]\<rparr>)
                else sbind (node_of (Some node)) (\<lambda>x. load_children X n True (xn_children x))) (\<lambda>_.
         sbind (register_context r) (\<lambda>_. sret r)))))"
| "load_children X n skip None = sret ()"
| "load_children X 0 skip (Some child) = sthrow Diverges"
| "load_children X (Suc n) skip (Some child) =
     sbind (node_of (Some child)) (\<lambda>x.
     sbind (if xn_type x = ElementNode \<and> (skip \<longrightarrow> xn_private x = None) then
              sbind (context_new X n child) (\<lambda>r.
              sbind (context_of r) (\<lambda>c.
                if cx_kill_me c then
                  sbind (on_doc (xml_unlink X child)) (\<lambda>_.
                  sbind (on_doc (xml_free_node X child)) (\<lambda>_.
                    delete_context r))
                else store_doc (Some child) (\<lambda>y. y\<lparr>xn_private := Some r\<rparr>)))
            else sret ()) (\<lambda>_.
       load_children X n skip (xn_next x)))"

section \<open>Associations\<close>

text \<open>The node of an association becomes a view of the associated node: it takes over its children
  (behind its own first child), attributes and context; a copy of the parent is linked below
  the associated node as the way back.\<close>

definition link_association :: "xml_lib \<Rightarrow> ctxref \<Rightarrow> addr \<Rightarrow> addr \<Rightarrow> (site, unit) sm" where
  "link_association X r node associated =
     sbind (smodify (\<lambda>s. s\<lparr>s_nodes_to_clean2 := s_nodes_to_clean2 s @ [node]\<rparr>)) (\<lambda>_.
     sbind (node_of (Some node)) (\<lambda>n.
     sbind (case xn_children n of
              Some c \<Rightarrow> sbind (node_of (Some c)) (\<lambda>cn. on_doc (xml_free_node_list X (xn_next cn)))
            | None \<Rightarrow> sret ()) (\<lambda>_.
     sbind (node_of (Some associated)) (\<lambda>an.
     sbind (store_doc (xn_children n) (\<lambda>y. y\<lparr>xn_next := xn_children an\<rparr>)) (\<lambda>_.
     sbind (store_doc (Some node) (\<lambda>y. y\<lparr>xn_props := xn_props an, xn_last := xn_last an,
         xn_private := xn_private an\<rparr>)) (\<lambda>_.
     sbind (case xn_parent n of
              None \<Rightarrow> sthrow (UB NullDeref)
            | Some parent \<Rightarrow>
                (\<lambda>s. (case xml_copy_node X parent (s_doc s) of
                   (p, d) \<Rightarrow> (Inr p, s\<lparr>s_doc := d\<rparr>)))) (\<lambda>copy.
     (case copy of
        None \<Rightarrow> sthrow (VaeDbInternalError ''xmlCopyNode returned NULL'')
      | Some pointer \<Rightarrow>
          sbind (node_of (xn_parent n)) (\<lambda>pn.
          sbind (store_doc (Some pointer) (\<lambda>y. y\<lparr>xn_private := xn_private pn, xn_children := xn_children pn,
              xn_last := xn_last pn, xn_props := xn_props pn\<rparr>)) (\<lambda>_.
          sbind (smodify (\<lambda>s. s\<lparr>s_nodes_to_clean := s_nodes_to_clean s @ [pointer]\<rparr>)) (\<lambda>_.
          sbind (on_doc (xml_add_child X associated pointer)) (\<lambda>_.
          sbind (node_of (xn_parent n)) (\<lambda>pn'.
          sbind (node_of (Some associated)) (\<lambda>an'.
          sbind (sread (\<lambda>s. context_at s (xn_private pn'))) (\<lambda>pc.
          sbind (smodify (set_context (the (xn_private pn'))
              (pc\<lparr>cx_pointer_nodes := cx_pointer_nodes pc @ [pointer]\<rparr>))) (\<lambda>_.
          sbind (sread (\<lambda>s. context_at s (xn_private an'))) (\<lambda>ac.
          sbind (smap (\<lambda>it. store_doc (Some it) (\<lambda>y. y\<lparr>xn_last := xn_last an'\<rparr>)) (cx_pointer_nodes ac)) (\<lambda>_.
            delete_context r))))))))))))))))))"

definition initialize_association :: "xml_lib \<Rightarrow> ctxref \<Rightarrow> (site, unit) sm" where
  "initialize_association X r =
     sbind (context_of r) (\<lambda>c.
     sbind (context_single_data r) (\<lambda>t.
     sbind (sread (\<lambda>s. Inr (query_find s (atoi t)))) (\<lambda>query.
       if atoi t > 0 \<and> get_size query = 1 then
         sbind (sread (\<lambda>_. get_node query 0)) (\<lambda>associated.
           link_association X r (cx_node c) associated)
       else
         sbind (on_doc (xml_unlink X (cx_node c))) (\<lambda>_.
         sbind (on_doc (xml_free_node X (cx_node c))) (\<lambda>_.
           delete_context r)))))"

end
