(* ===== verification/Site.thy ===== *)
theory Site
  imports ContextObj
begin

text \<open>
  \<^verbatim>\<open>src/site.cpp\<close>: loading a site from its feed, secret keys, and the query cache.  The test
  mode of \<^verbatim>\<open>src/main.cpp\<close> is a flag; \<open>keys\<close> is what \<open>read_s3\<close> returned for the secret.
\<close>

section \<open>Loading\<close>

text \<open>The fuel for the contexts: two per node of a path of child and sibling steps.\<close>

definition load_fuel :: "dom \<Rightarrow> nat" where
  "load_fuel d = Suc (2 * length (dom_nodes d))"

definition find_root :: "xml_lib \<Rightarrow> string \<Rightarrow> string \<Rightarrow> string \<Rightarrow> (site, addr) sm" where
  "find_root X q display msg =
     sbind (sread (\<lambda>s. run_raw_query X s None q display)) (\<lambda>query.
       if get_size query \<noteq> 1 then sthrow (VaeDbInternalError msg)
       else sread (\<lambda>_. get_node query 0))"

definition initialize_associations :: "xml_lib \<Rightarrow> (site, unit) sm" where
  "initialize_associations X =
     sbind (sread (\<lambda>s. Inr (s_associations s))) (\<lambda>rs.
     sbind (smap (initialize_association X) rs) (\<lambda>_.
       smodify (\<lambda>s. s\<lparr>s_associations := []\<rparr>)))"

definition load_generation :: "xml_lib \<Rightarrow> (site, unit) sm" where
  "load_generation X =
     sbind (sread (\<lambda>s. run_raw_query X s None ''/website/generation'' ''website generation node'')) (\<lambda>query.
       if get_size query = 1 then
         sbind (sread (\<lambda>s. get_single_data s query)) (\<lambda>t.
           smodify (\<lambda>s. s\<lparr>s_generation := to_int32 (strtol10 t)\<rparr>))
       else sthrow (VaeDbInternalError ''Could not find feed generation node in XML file''))"

definition load_xml_doc :: "xml_lib \<Rightarrow> bool \<Rightarrow> string \<Rightarrow> (site, unit) sm" where
  "load_xml_doc X test_mode rawxml =
     sbind (sread (\<lambda>s. Inr (if test_mode then xml_parse_file X (s_subdomain s)
                            else xml_read_memory X rawxml (s_subdomain s)))) (\<lambda>doc.
     sbind (if test_mode then smodify (\<lambda>s. s\<lparr>s_subdomain := ''local''\<rparr>) else sret ()) (\<lambda>_.
     (case doc of
        None \<Rightarrow> sthrow (VaeDbInternalError ''Could not open/parse XML file'')
      | Some d \<Rightarrow>
          sbind (smodify (\<lambda>s. s\<lparr>s_doc := xml_order_elems X d, s_root := None, s_root_design := None\<rparr>)) (\<lambda>_.
          sbind (find_root X ''/website/content'' ''website root node''
                   ''Could not find root content node in XML file'') (\<lambda>root.
          sbind (smodify (\<lambda>s. s\<lparr>s_root := Some root\<rparr>)) (\<lambda>_.
          sbind (find_root X ''/website/design'' ''website design node''
                   ''Could not find root design node in XML file'') (\<lambda>design.
          sbind (smodify (\<lambda>s. s\<lparr>s_root_design := Some design\<rparr>)) (\<lambda>_.
          sbind (node_of (Some root)) (\<lambda>n.
          sbind (sread (\<lambda>s. Inr (load_fuel (s_doc s)))) (\<lambda>fuel.
          sbind (load_children X fuel False (xn_children n)) (\<lambda>_.
          sbind (initialize_associations X) (\<lambda>_.
            load_generation X))))))))))))"

text \<open>The constructor; an exception in it leaves no site.\<close>

definition site_new ::
  "text_lib \<Rightarrow> xml_lib \<Rightarrow> bool \<Rightarrow> (string \<Rightarrow> string outcome) \<Rightarrow> string \<Rightarrow> bool \<Rightarrow> string \<Rightarrow> site outcome" where
  "site_new T X test_mode read_s3 su staging rawxml =
     ebind (if test_mode then Inr []
            else ebind (read_s3 (su @ ''-secret'')) (\<lambda>keys.
              Inr (boost_split T ('','' @ '';'' @ [CHR 0x0A]) keys))) (\<lambda>secret_keys.
       (case load_xml_doc X test_mode rawxml (site_empty su staging secret_keys) of
          (Inl e, _) \<Rightarrow> Inl e
        | (Inr _, s) \<Rightarrow> Inr s))"

section \<open>Access\<close>

definition get_generation :: "site \<Rightarrow> int" where "get_generation s = s_generation s"

definition get_subdomain :: "site \<Rightarrow> string" where "get_subdomain s = s_subdomain s"

definition validate_secret_key :: "bool \<Rightarrow> site \<Rightarrow> string \<Rightarrow> unit outcome" where
  "validate_secret_key test_mode s secret_key =
     (if test_mode then Inr ()
      else if list_ex (\<lambda>k. k = secret_key) (s_secret_keys s) then Inr ()
      else Inl (VaeDbInternalError ''Secret Key Mismatch''))"

section \<open>The query cache\<close>

text \<open>\<open>fetch_query\<close>: a null shared pointer means that the key is not cached; the lookup does not
  touch the entry.\<close>

definition fetch_query :: "text_lib \<Rightarrow> xml_lib \<Rightarrow> lru_key \<Rightarrow> (site, query) sm" where
  "fetch_query T X key = (\<lambda>s.
     (case lru_fetch None (s_query_cache s) key False of
        None \<Rightarrow> (Inl (UB UseAfterFree), s)
      | Some (Some q, c) \<Rightarrow> (Inr q, s\<lparr>s_query_cache := c\<rparr>)
      | Some (None, c) \<Rightarrow>
          (let s1 = s\<lparr>s_query_cache := c\<rparr> in
           (case query_new T X s1 (fst key) (snd key) of
              Inl e \<Rightarrow> (Inl e, s1)
            | Inr q \<Rightarrow>
                (case lru_insert countfn (s_query_cache s1) key (Some q) of
                   None \<Rightarrow> (Inl (UB UseAfterFree), s1)
                 | Some c' \<Rightarrow> (Inr q, s1\<lparr>s_query_cache := c'\<rparr>))))))"

section \<open>What queries look at\<close>

text \<open>Queries read the document, the registered nodes and permalinks, the roots, and of a context
  only its node and structure: none of what the caches change.\<close>

definition view_eq :: "site \<Rightarrow> site \<Rightarrow> bool" where
  "view_eq s s' \<longleftrightarrow> s_doc s' = s_doc s \<and> s_nodes s' = s_nodes s \<and> s_permalinks s' = s_permalinks s \<and>
     s_root s' = s_root s \<and> s_root_design s' = s_root_design s \<and>
     (\<forall>r. map_option (\<lambda>c. (cx_node c, cx_structure c)) (map_of (s_contexts s') r) =
          map_option (\<lambda>c. (cx_node c, cx_structure c)) (map_of (s_contexts s) r))"

lemma view_eq_refl [simp]: "view_eq s s"
  by (simp add: view_eq_def)

lemma view_eq_trans: "view_eq s s' \<Longrightarrow> view_eq s' s'' \<Longrightarrow> view_eq s s''"
  by (auto simp: view_eq_def)

lemma view_eqD:
  assumes "view_eq s s'"
  shows "s_doc s' = s_doc s" "s_nodes s' = s_nodes s" "s_permalinks s' = s_permalinks s"
    "s_root s' = s_root s" "s_root_design s' = s_root_design s"
  using assms by (simp_all add: view_eq_def)

lemma context_at_view:
  assumes "view_eq s s'"
  shows "ebind (context_at s' cx) (\<lambda>c. f (cx_node c)) = ebind (context_at s cx) (\<lambda>c. f (cx_node c))"
proof (cases cx)
  case (Some r)
  have "map_option (\<lambda>c. (cx_node c, cx_structure c)) (map_of (s_contexts s') r) =
      map_option (\<lambda>c. (cx_node c, cx_structure c)) (map_of (s_contexts s) r)"
    using assms by (simp add: view_eq_def)
  then show ?thesis
    by (auto simp: context_at_def Some split: option.splits)
qed (simp add: context_at_def)

lemma private_of_view: "view_eq s s' \<Longrightarrow> private_of s' = private_of s"
  by (simp add: private_of_def view_eqD fun_eq_iff)

lemma run_raw_query_view:
  assumes "view_eq s s'"
  shows "run_raw_query X s' = run_raw_query X s"
  unfolding run_raw_query_def fun_eq_iff view_eqD [OF assms] by simp

lemma run_query_view:
  assumes "view_eq s s'"
  shows "run_query X s' cx q d = run_query X s cx q d"
  using context_at_view [OF assms, of cx "\<lambda>n. run_raw_query X s (Some n) q d"]
  by (cases cx) (simp_all add: run_query_def run_raw_query_view [OF assms] view_eqD [OF assms])

lemma permalink_search_view:
  assumes "view_eq s s'"
  shows "permalink_search T s' parts n = permalink_search T s parts n"
  by (induction n) (simp_all add: private_of_view [OF assms] view_eqD [OF assms] split: option.split)

lemma permalink_stage_view:
  assumes "view_eq s s'"
  shows "permalink_stage T s' cx q = permalink_stage T s cx q"
  unfolding permalink_stage_def permalink_search_view [OF assms] ..

lemma id_stage_view:
  assumes "view_eq s s'"
  shows "id_stage T s' cx q = id_stage T s cx q"
  unfolding id_stage_def query_find_def view_eqD [OF assms] private_of_view [OF assms] ..

lemma sibling_query_view:
  assumes "view_eq s s'"
  shows "sibling_query s' cx axis msg = sibling_query s cx axis msg"
proof -
  show ?thesis
    using context_at_view [OF assms, of cx "\<lambda>a. ebind (deref (s_doc s) (Some a)) (\<lambda>n.
          (case xn_name n of None \<Rightarrow> Inl (VaeDbQueryError msg) | Some name \<Rightarrow> Inr (axis @ name @ ''[1]'')))"]
    by (cases cx) (simp_all add: sibling_query_def view_eqD [OF assms])
qed

lemma sibling_stage_view:
  assumes "view_eq s s'"
  shows "sibling_stage s' cx q = sibling_stage s cx q"
  unfolding sibling_stage_def sibling_query_view [OF assms] ..

lemma query_new_view:
  assumes "view_eq s s'"
  shows "query_new T X s' cx q = query_new T X s cx q"
  unfolding query_new_def query_rest_def permalink_stage_view [OF assms] id_stage_view [OF assms]
    sibling_stage_view [OF assms] run_query_view [OF assms] ..

lemma get_single_data_view: "view_eq s s' \<Longrightarrow> get_single_data s' q = get_single_data s q"
  by (simp add: get_single_data_def view_eqD)

section \<open>The caches\<close>

text \<open>The site as a store of queries, with the LRU cache behind it.\<close>

definition cached_query :: "site \<Rightarrow> lru_key \<Rightarrow> query option" where
  "cached_query s k = Option.bind (lru_lookup (s_query_cache s) k) id"

definition cache_query :: "lru_key \<Rightarrow> query \<Rightarrow> site \<Rightarrow> site" where
  "cache_query k q s = s\<lparr>s_query_cache := lru_store k (Some q) (s_query_cache s)\<rparr>"

definition query_cache_inv :: "site \<Rightarrow> bool" where
  "query_cache_inv s \<longleftrightarrow> lru_store_inv (s_query_cache s)"

interpretation query_memo: retaining_cache query_cache_inv cached_query cache_query
proof (unfold_locales, goal_cases)
  case (1 s k v)
  then show ?case by (simp add: query_cache_inv_def cache_query_def lru_memo.store_inv)
next
  case (2 s k v k' v')
  then have i: "lru_store_inv (s_query_cache s)" by (simp add: query_cache_inv_def)
  from 2(2) have "lru_lookup (lru_store k (Some v) (s_query_cache s)) k' = Some (Some v')"
    by (auto simp: cached_query_def cache_query_def bind_eq_Some_conv)
  from lru_memo.store_sound [OF i this] show ?case by (auto simp: cached_query_def)
next
  case (3 s k v)
  then show ?case
    using lru_memo.store_retains [of "s_query_cache s" k "Some v"]
    by (simp add: query_cache_inv_def cached_query_def cache_query_def)
qed

text \<open>\<open>fetch_query\<close> is that store in front of the constructor of \<open>Query\<close>.\<close>

lemma lru_fetch_untouched:
  assumes "lru_inv countfn c"
  shows "lru_fetch dflt c k False = Some (case lru_lookup c k of None \<Rightarrow> dflt | Some d \<Rightarrow> d, c)"
proof (cases "lru_index c k")
  case None
  then show ?thesis
    using index_Some_map_of [OF assms, of k] by (simp add: lru_fetch_def lru_lookup_def)
next
  case (Some i)
  have "lru_wf countfn c" using assms by (simp add: lru_inv_def)
  then obtain d where "node_at c i = Some (k, d)" and "map_of (lru_abs c) k = Some d"
    using Some by (rule index_SomeD)
  with Some show ?thesis by (simp add: lru_fetch_def lru_lookup_def)
qed

lemma fetch_query_memo:
  assumes "query_cache_inv s"
  shows "fetch_query T X key s =
    memo cached_query cache_query (\<lambda>k. query_new T X s (fst k) (snd k)) key s"
proof -
  have i: "lru_store_inv (s_query_cache s)" "lru_inv countfn (s_query_cache s)"
    using assms by (simp_all add: query_cache_inv_def lru_store_inv_def)
  have eq: "s\<lparr>s_query_cache := s_query_cache s\<rparr> = s" by simp
  show ?thesis
    using lru_store_spec(2) [OF i(1)] eq
    by (simp add: fetch_query_def memo_def lru_fetch_untouched [OF i(2)] cached_query_def cache_query_def
        Let_def split: option.split sum.split)
qed

definition queries_coherent :: "text_lib \<Rightarrow> xml_lib \<Rightarrow> site \<Rightarrow> bool" where
  "queries_coherent T X s \<longleftrightarrow> query_cache_inv s \<and>
     coherent cached_query (\<lambda>k. query_new T X s (fst k) (snd k)) s"

lemma view_eq_cache_query [simp]: "view_eq s (cache_query k q s)"
  by (simp add: view_eq_def cache_query_def)

lemma fetch_query_step:
  assumes "queries_coherent T X s"
  shows "fst (fetch_query T X key s) = query_new T X s (fst key) (snd key)"
    and "view_eq s (snd (fetch_query T X key s))"
    and "s_contexts (snd (fetch_query T X key s)) = s_contexts s"
    and "queries_coherent T X (snd (fetch_query T X key s))"
proof -
  define f where "f = (\<lambda>k. query_new T X s (fst k) (snd k))"
  have i: "query_cache_inv s" and c: "coherent cached_query f s"
    using assms by (simp_all add: queries_coherent_def f_def)
  have m: "fetch_query T X key s = memo cached_query cache_query f key s"
    using fetch_query_memo [OF i] by (simp add: f_def)
  show "fst (fetch_query T X key s) = query_new T X s (fst key) (snd key)"
    unfolding m using query_memo.memo_result [OF c, of key] by (simp add: f_def)
  show v: "view_eq s (snd (fetch_query T X key s))"
    unfolding m by (simp add: memo_def split: option.split sum.split)
  show "s_contexts (snd (fetch_query T X key s)) = s_contexts s"
    unfolding m by (simp add: memo_def cache_query_def split: option.split sum.split)
  have "(\<lambda>k. query_new T X (snd (fetch_query T X key s)) (fst k) (snd k)) = f"
    unfolding f_def using query_new_view [OF v] by (simp add: fun_eq_iff)
  then show "queries_coherent T X (snd (fetch_query T X key s))"
    using query_memo.memo_keeps [OF i c, of key] by (simp add: queries_coherent_def m)
qed

section \<open>The caches of the contexts\<close>

text \<open>What \<open>getCount\<close>, the data map and \<open>getData\<close> are, without the caches.\<close>

definition count_of :: "text_lib \<Rightarrow> xml_lib \<Rightarrow> site \<Rightarrow> ctxref \<Rightarrow> string \<Rightarrow> int outcome" where
  "count_of T X s r query = ebind (query_new T X s (Some r) query) (\<lambda>q. Inr (get_size q))"

definition single_of :: "text_lib \<Rightarrow> xml_lib \<Rightarrow> site \<Rightarrow> ctxref \<Rightarrow> string \<Rightarrow> string outcome" where
  "single_of T X s r query = ebind (query_new T X s (Some r) query) (get_single_data s)"

definition node_data :: "dom \<Rightarrow> addr \<Rightarrow> (string \<times> string) list outcome" where
  "node_data d a = ebind (deref d (Some a)) (\<lambda>n. ebind (chain d (xn_children n)) (\<lambda>children.
     populate_loop d (map snd children) []))"

definition data_of :: "text_lib \<Rightarrow> xml_lib \<Rightarrow> site \<Rightarrow> ctxref \<Rightarrow> string \<Rightarrow> string outcome" where
  "data_of T X s r query =
     ebind (ebind (context_at s (Some r)) (\<lambda>c. node_data (s_doc s) (cx_node c))) (\<lambda>data.
       if query = [] then Inl (VaeDbInternalError ''Empty query passed to Context::getData'')
       else (case map_of data query of Some v \<Rightarrow> Inr v | None \<Rightarrow> single_of T X s r query))"

definition context_coherent :: "text_lib \<Rightarrow> xml_lib \<Rightarrow> site \<Rightarrow> ctxref \<Rightarrow> vae_context \<Rightarrow> bool" where
  "context_coherent T X s r c \<longleftrightarrow>
     coherent map_of (count_of T X s r) (cx_cached_counts c) \<and>
     coherent map_of (single_of T X s r) (cx_cached_queries c) \<and>
     (if cx_data_populated c then node_data (s_doc s) (cx_node c) = Inr (cx_data c) else cx_data c = [])"

definition caches_ok :: "text_lib \<Rightarrow> xml_lib \<Rightarrow> site \<Rightarrow> bool" where
  "caches_ok T X s \<longleftrightarrow> queries_coherent T X s \<and>
     (\<forall>r c. map_of (s_contexts s) r = Some c \<longrightarrow> context_coherent T X s r c)"

lemma count_of_view: "view_eq s s' \<Longrightarrow> count_of T X s' = count_of T X s"
  by (simp add: count_of_def fun_eq_iff query_new_view)

lemma single_of_view: "view_eq s s' \<Longrightarrow> single_of T X s' = single_of T X s"
  by (simp add: single_of_def fun_eq_iff query_new_view ebind_def get_single_data_view split: sum.split)

lemma context_coherent_view:
  assumes "view_eq s s'"
  shows "context_coherent T X s' r c = context_coherent T X s r c"
  unfolding context_coherent_def count_of_view [OF assms] single_of_view [OF assms] view_eqD [OF assms] ..

lemma data_of_view:
  assumes "view_eq s s'"
  shows "data_of T X s' r q = data_of T X s r q"
  unfolding data_of_def single_of_view [OF assms] view_eqD [OF assms]
    context_at_view [OF assms, of "Some r" "node_data (s_doc s)"] ..

text \<open>Updating a context in place of one with the same node and structure.\<close>

lemma set_context_step:
  assumes "caches_ok T X s" and "map_of (s_contexts s) r = Some c"
    and "cx_node c' = cx_node c" "cx_structure c' = cx_structure c" and "context_coherent T X s r c'"
  shows "caches_ok T X (set_context r c' s)" and "view_eq s (set_context r c' s)"
proof -
  show v: "view_eq s (set_context r c' s)"
    using assms(2-4) by (simp add: view_eq_def set_context_def)
  have q: "queries_coherent T X s" using assms(1) by (simp add: caches_ok_def)
  have "s_query_cache (set_context r c' s) = s_query_cache s" by (simp add: set_context_def)
  then have "cached_query (set_context r c' s) = cached_query s"
    "query_cache_inv (set_context r c' s) = query_cache_inv s"
    by (simp_all add: cached_query_def query_cache_inv_def fun_eq_iff)
  then have "queries_coherent T X (set_context r c' s)"
    using q query_new_view [OF v] by (simp add: queries_coherent_def coherent_def)
  moreover have "context_coherent T X (set_context r c' s) r' d"
    if "map_of (s_contexts (set_context r c' s)) r' = Some d" for r' d
    unfolding context_coherent_view [OF v]
    using that assms(1,5) by (auto simp: set_context_def caches_ok_def split: if_splits)
  ultimately show "caches_ok T X (set_context r c' s)" by (simp add: caches_ok_def)
qed

lemma context_coherent_put:
  assumes "context_coherent T X s r c"
  shows "count_of T X s r q = Inr n \<Longrightarrow>
      context_coherent T X s r (c\<lparr>cx_cached_counts := put q n (cx_cached_counts c)\<rparr>)"
    and "single_of T X s r q = Inr v \<Longrightarrow>
      context_coherent T X s r (c\<lparr>cx_cached_queries := put q v (cx_cached_queries c)\<rparr>)"
    and "\<not> cx_data_populated c \<Longrightarrow> node_data (s_doc s) (cx_node c) = Inr data \<Longrightarrow>
      context_coherent T X s r (c\<lparr>cx_data := data, cx_data_populated := True\<rparr>)"
  using assms map_memo.coherent_store
  by (auto simp: context_coherent_def)

lemma context_of_live:
  "map_of (s_contexts s) r = Some c \<Longrightarrow> context_of r s = (Inr c, s)"
  by (simp add: context_of_def context_at_def)

lemma get_count_step:
  assumes ok: "caches_ok T X s" and r: "map_of (s_contexts s) r = Some c"
  shows "fst (get_count T X r q s) = count_of T X s r q" and "caches_ok T X (snd (get_count T X r q s))"
    and "view_eq s (snd (get_count T X r q s))"
proof -
  have cc: "context_coherent T X s r c" using ok r by (simp add: caches_ok_def)
  show "fst (get_count T X r q s) = count_of T X s r q"
    using cc by (auto simp: get_count_def context_of_live [OF r] sbind_sread count_of_def
        context_coherent_def coherent_def sret_def split: option.split sum.split)
  have step: "caches_ok T X (snd (get_count T X r q s)) \<and> view_eq s (snd (get_count T X r q s))"
  proof (cases "map_of (cx_cached_counts c) q")
    case (Some n)
    then show ?thesis using ok by (simp add: get_count_def context_of_live [OF r] sret_def)
  next
    case None
    show ?thesis
    proof (cases "query_new T X s (Some r) q")
      case (Inl e)
      with None ok show ?thesis by (simp add: get_count_def context_of_live [OF r] sbind_sread)
    next
      case (Inr x)
      then have "count_of T X s r q = Inr (get_size x)" by (simp add: count_of_def)
      from set_context_step [OF ok r _ _ context_coherent_put(1) [OF cc this]] None Inr
      show ?thesis by (simp add: get_count_def context_of_live [OF r] sbind_sread sret_def)
    qed
  qed
  then show "caches_ok T X (snd (get_count T X r q s))" "view_eq s (snd (get_count T X r q s))" by simp_all
qed

lemma populate_data_step:
  assumes ok: "caches_ok T X s" and r: "map_of (s_contexts s) r = Some c" and np: "\<not> cx_data_populated c"
  shows "case node_data (s_doc s) (cx_node c) of
      Inl e \<Rightarrow> populate_data r s = (Inl e, s)
    | Inr data \<Rightarrow> populate_data r s = (Inr (), set_context r (c\<lparr>cx_data := data, cx_data_populated := True\<rparr>) s)"
proof -
  have "cx_data c = []" using ok r np by (simp add: caches_ok_def context_coherent_def split: if_splits)
  then show ?thesis
    using np by (simp add: populate_data_def context_of_live [OF r] node_of_def sbind_sread node_data_def
        ebind_def smodify_def split: sum.split)
qed

lemma get_data_map_step:
  assumes ok: "caches_ok T X s" and r: "map_of (s_contexts s) r = Some c"
  shows "fst (get_data_map r s) = node_data (s_doc s) (cx_node c)" and "caches_ok T X (snd (get_data_map r s))"
    and "view_eq s (snd (get_data_map r s))"
proof -
  have cc: "context_coherent T X s r c" using ok r by (simp add: caches_ok_def)
  have "fst (get_data_map r s) = node_data (s_doc s) (cx_node c) \<and> caches_ok T X (snd (get_data_map r s)) \<and>
      view_eq s (snd (get_data_map r s))"
  proof (cases "cx_data_populated c")
    case True
    with cc ok show ?thesis
      by (simp add: get_data_map_def context_of_live [OF r] sret_def sbind_def context_coherent_def)
  next
    case False
    note pop = populate_data_step [OF ok r False]
    show ?thesis
    proof (cases "node_data (s_doc s) (cx_node c)")
      case (Inl e)
      with pop False ok show ?thesis by (simp add: get_data_map_def context_of_live [OF r])
    next
      case (Inr data)
      let ?c = "c\<lparr>cx_data := data, cx_data_populated := True\<rparr>"
      from Inr pop have p: "populate_data r s = (Inr (), set_context r ?c s)" by simp
      have l: "map_of (s_contexts (set_context r ?c s)) r = Some ?c" by (simp add: set_context_def)
      from set_context_step [OF ok r _ _ context_coherent_put(3) [OF cc False Inr]]
      have "caches_ok T X (set_context r ?c s)" "view_eq s (set_context r ?c s)" by simp_all
      with False Inr p show ?thesis
        by (simp add: get_data_map_def context_of_live [OF r] context_of_live [OF l] sret_def)
    qed
  qed
  then show "fst (get_data_map r s) = node_data (s_doc s) (cx_node c)"
    "caches_ok T X (snd (get_data_map r s))" "view_eq s (snd (get_data_map r s))" by simp_all
qed

lemma get_data_tail:
  assumes m: "get_data_map r s = (Inr data, s1)" and q: "q \<noteq> []" and n: "map_of data q = None"
    and r1: "map_of (s_contexts s1) r = Some c1"
  shows "get_data T X r q s =
        (case map_of (cx_cached_queries c1) q of Some v \<Rightarrow> (Inr v, s1)
         | None \<Rightarrow> (case single_of T X s1 r q of Inl e \<Rightarrow> (Inl e, s1)
             | Inr v \<Rightarrow> (Inr v, set_context r (c1\<lparr>cx_cached_queries := put q v (cx_cached_queries c1)\<rparr>) s1)))"
  using m q n
  by (simp add: get_data_def context_of_live [OF r1] sret_def sbind_sread single_of_def ebind_def
      split: option.split sum.split)

lemma get_data_step:
  assumes ok: "caches_ok T X s" and r: "map_of (s_contexts s) r = Some c"
  shows "fst (get_data T X r q s) = data_of T X s r q \<and> caches_ok T X (snd (get_data T X r q s)) \<and>
    view_eq s (snd (get_data T X r q s))"
proof -
  obtain res s1 where m: "get_data_map r s = (res, s1)" by (metis surj_pair)
  from get_data_map_step [OF ok r] m have res: "res = node_data (s_doc s) (cx_node c)"
    and ok1: "caches_ok T X s1" and v1: "view_eq s s1" by simp_all
  have d: "ebind (context_at s (Some r)) (\<lambda>c. node_data (s_doc s) (cx_node c)) = res"
    using r res by (simp add: context_at_def)
  show ?thesis
  proof (cases res)
    case (Inl e)
    with m d ok1 v1 show ?thesis by (simp add: get_data_def data_of_def)
  next
    case (Inr data)
    note dm = d [unfolded Inr]
    show ?thesis
    proof (cases "q = [] \<or> map_of data q \<noteq> None")
      case True
      with m Inr dm ok1 v1 show ?thesis
        by (auto simp: get_data_def data_of_def sret_def sthrow_def)
    next
      case False
      then have q: "q \<noteq> []" and n: "map_of data q = None" by simp_all
      have "map_option (\<lambda>c. (cx_node c, cx_structure c)) (map_of (s_contexts s1) r) =
          Some (cx_node c, cx_structure c)"
        using v1 r by (simp add: view_eq_def)
      then obtain c1 where r1: "map_of (s_contexts s1) r = Some c1" by auto
      have cc: "context_coherent T X s1 r c1" using ok1 r1 by (simp add: caches_ok_def)
      have so: "single_of T X s1 r q = single_of T X s r q" using single_of_view [OF v1] by simp
      have data: "data_of T X s r q = single_of T X s1 r q"
        using dm q n so by (simp add: data_of_def)
      note unfold_tail = get_data_tail [OF m [unfolded Inr] q n r1, of T X]
      show ?thesis
      proof (cases "map_of (cx_cached_queries c1) q")
        case (Some v)
        then have "single_of T X s1 r q = Inr v"
          using cc by (simp add: context_coherent_def coherent_def)
        with Some ok1 v1 data unfold_tail show ?thesis by simp
      next
        case None
        show ?thesis
        proof (cases "single_of T X s1 r q")
          case (Inl e)
          with None ok1 v1 data unfold_tail show ?thesis by simp
        next
          case (Inr v)
          let ?c = "c1\<lparr>cx_cached_queries := put q v (cx_cached_queries c1)\<rparr>"
          from set_context_step [OF ok1 r1 _ _ context_coherent_put(2) [OF cc Inr]]
          have "caches_ok T X (set_context r ?c s1)" "view_eq s1 (set_context r ?c s1)" by simp_all
          with None Inr data unfold_tail v1 show ?thesis by (auto intro: view_eq_trans)
        qed
      qed
    qed
  qed
qed

lemma fetch_query_ok:
  assumes "caches_ok T X s"
  shows "caches_ok T X (snd (fetch_query T X key s))"
proof -
  have q: "queries_coherent T X s" using assms by (simp add: caches_ok_def)
  show ?thesis
    using assms fetch_query_step [OF q, of key]
    by (simp add: caches_ok_def context_coherent_view)
qed

text \<open>A freshly loaded site: nothing is cached.\<close>

lemma caches_ok_fresh:
  assumes "s_query_cache s = lru_new query_cache_size"
    and "\<forall>r c. map_of (s_contexts s) r = Some c \<longrightarrow>
      cx_cached_counts c = [] \<and> cx_cached_queries c = [] \<and> cx_data c = [] \<and> \<not> cx_data_populated c"
  shows "caches_ok T X s"
proof -
  have "lru_store_inv (s_query_cache s)"
    using assms(1) by (simp add: lru_store_inv_def lru_wf_new query_cache_size_def)
  moreover have "lru_lookup (s_query_cache s) k = None" for k
    using assms(1) by (simp add: lru_lookup_def)
  ultimately show ?thesis
    using assms(2)
    by (simp add: caches_ok_def queries_coherent_def query_cache_inv_def coherent_def cached_query_def
        context_coherent_def)
qed

section \<open>Properties\<close>

text \<open>(C15) The caches are transparent: with the LRU cache of queries and the per-context caches of
  counts, values and data in whatever state earlier requests left them, \<open>fetch_query\<close>, \<open>getCount\<close>
  and \<open>getData\<close> return (or throw) exactly what evaluating the query afresh does, and leave the caches
  coherent.\<close>

theorem caches_transparent:
  assumes "caches_ok T X s"
  shows "(\<forall>key. fst (fetch_query T X key s) = query_new T X s (fst key) (snd key) \<and>
      caches_ok T X (snd (fetch_query T X key s))) \<and>
    (\<forall>r c q. map_of (s_contexts s) r = Some c \<longrightarrow>
      fst (get_count T X r q s) = ebind (query_new T X s (Some r) q) (\<lambda>x. Inr (get_size x)) \<and>
      caches_ok T X (snd (get_count T X r q s)) \<and>
      fst (get_data T X r q s) = ebind (node_data (s_doc s) (cx_node c)) (\<lambda>data.
        if q = [] then Inl (VaeDbInternalError ''Empty query passed to Context::getData'')
        else (case map_of data q of Some v \<Rightarrow> Inr v
              | None \<Rightarrow> ebind (query_new T X s (Some r) q) (get_single_data s))) \<and>
      caches_ok T X (snd (get_data T X r q s)))"
proof -
  have q: "queries_coherent T X s" using assms by (simp add: caches_ok_def)
  have "fst (get_data T X r q s) = ebind (node_data (s_doc s) (cx_node c)) (\<lambda>data.
        if q = [] then Inl (VaeDbInternalError ''Empty query passed to Context::getData'')
        else (case map_of data q of Some v \<Rightarrow> Inr v
              | None \<Rightarrow> ebind (query_new T X s (Some r) q) (get_single_data s)))"
    if "map_of (s_contexts s) r = Some c" for r c q
    using get_data_step [OF assms that] that unfolding data_of_def single_of_def
    by (simp add: context_at_def)
  moreover have "fst (get_count T X r q s) = ebind (query_new T X s (Some r) q) (\<lambda>x. Inr (get_size x)) \<and>
      caches_ok T X (snd (get_count T X r q s)) \<and> caches_ok T X (snd (get_data T X r q s))"
    if "map_of (s_contexts s) r = Some c" for r c q
    using get_count_step [OF assms that] get_data_step [OF assms that] by (simp add: count_of_def)
  ultimately show ?thesis
    using fetch_query_step(1) [OF q] fetch_query_ok [OF assms] by blast
qed

definition fresh_context :: "addr \<Rightarrow> vae_context" where
  "fresh_context a = \<lparr>cx_cached_counts = [], cx_cached_queries = [], cx_data = [], cx_data_populated = False,
     cx_id = 0, cx_permalink = None, cx_pointer_nodes = [], cx_structure = None, cx_type = [],
     cx_node = a, cx_kill_me = False\<rparr>"

theorem caches_transparent_witness:
  "\<forall>X. fst (get_data text_ref X 0 ''name'' (demo_site\<lparr>s_contexts := [(0, fresh_context 0)]\<rparr>)) = Inr ''Hello'' \<and>
   fst (get_count text_ref X 0 ''12'' (demo_site\<lparr>s_contexts := [(0, fresh_context 0)]\<rparr>)) = Inr 1"
proof
  fix X
  let ?s = "demo_site\<lparr>s_contexts := [(0, fresh_context 0)]\<rparr>"
  have "caches_ok text_ref X ?s"
    by (rule caches_ok_fresh) (auto simp: demo_site_def site_empty_def fresh_context_def split: if_splits)
  note t = caches_transparent [OF this]
  have "node_data (s_doc ?s) (cx_node (fresh_context 0)) = Inr [(''name'', ''Hello'')]" by code_simp
  moreover have "query_new text_ref X ?s (Some 0) ''12'' = Inr (query_result (Some 4))" by code_simp
  moreover have "map_of (s_contexts ?s) 0 = Some (fresh_context 0)" by simp
  ultimately show "fst (get_data text_ref X 0 ''name'' ?s) = Inr ''Hello'' \<and>
      fst (get_count text_ref X 0 ''12'' ?s) = Inr 1"
    using t by (simp add: query_result_def get_size_def)
qed

end
