(* ===== verification/Floats.thy ===== *)
theory Floats
  imports Complex_Main Prelude
begin

text \<open>
  Binary floating point, as far as the program uses it: finite values are rationals, and an
  operation computes the exact result and rounds it to \<open>p\<close> significant bits, to nearest, ties
  to even (\<open>p = 24\<close> for \<open>float\<close>, \<open>p = 53\<close> for \<open>double\<close>).  The program's operands are
  32-bit integers and short decimal numbers, so neither the exponent's upper bound nor the
  subnormal range is reached.
\<close>

section \<open>Rounding\<close>

fun bit_length :: "nat \<Rightarrow> nat" where
  "bit_length n = (if n = 0 then 0 else Suc (bit_length (n div 2)))"

declare bit_length.simps [simp del]

lemma bit_length_bounds: "0 < n \<Longrightarrow> 2 ^ (bit_length n - 1) \<le> n \<and> n < 2 ^ bit_length n"
proof (induction n rule: bit_length.induct)
  case (1 n)
  have b: "bit_length n = Suc (bit_length (n div 2))"
    using "1.prems" by (simp add: bit_length.simps [of n])
  show ?case
  proof (cases "n div 2 = 0")
    case True
    then have "bit_length (n div 2) = 0" by (simp add: bit_length.simps)
    with True "1.prems" b show ?thesis by (simp add: div_eq_0_iff)
  next
    case False
    with 1 have ih: "2 ^ (bit_length (n div 2) - 1) \<le> n div 2" "n div 2 < 2 ^ bit_length (n div 2)"
      by auto
    have "0 < bit_length (n div 2)" using False by (simp add: bit_length.simps [of "n div 2"])
    then have "2 ^ bit_length (n div 2) = 2 * (2::nat) ^ (bit_length (n div 2) - 1)"
      by (simp add: power_eq_if)
    moreover from this b have "2 ^ (bit_length n - 1) = 2 * (2::nat) ^ (bit_length (n div 2) - 1)"
      and "2 ^ bit_length n = 4 * (2::nat) ^ (bit_length (n div 2) - 1)" by simp_all
    ultimately show ?thesis using ih by linarith
  qed
qed

lemma bit_length_powi:
  assumes "0 < x"
  shows "2 powi (int (bit_length (nat x)) - 1) \<le> rat_of_int x"
    and "rat_of_int x < 2 powi (int (bit_length (nat x)))"
proof -
  have "0 < bit_length (nat x)" using assms by (simp add: bit_length.simps [of "nat x"])
  then have k: "int (bit_length (nat x)) - 1 = int (bit_length (nat x) - 1)" by simp
  have x: "rat_of_int x = of_nat (nat x)" using assms by simp
  have b: "2 ^ (bit_length (nat x) - 1) \<le> nat x" "nat x < 2 ^ bit_length (nat x)"
    using bit_length_bounds [of "nat x"] assms by simp_all
  show "2 powi (int (bit_length (nat x)) - 1) \<le> rat_of_int x"
    unfolding k x power_int_of_nat using b(1) by (metis of_nat_le_iff of_nat_numeral of_nat_power)
  show "rat_of_int x < 2 powi (int (bit_length (nat x)))"
    unfolding x power_int_of_nat using b(2) by (metis of_nat_less_iff of_nat_numeral of_nat_power)
qed

definition log2_floor :: "rat \<Rightarrow> int" where
  "log2_floor r =
     (let (a, b) = quotient_of r;
          e = int (bit_length (nat a)) - int (bit_length (nat b))
      in if 2 powi e \<le> r then e else e - 1)"

lemma log2_floor_bounds:
  assumes "0 < r"
  shows "2 powi (log2_floor r) \<le> r" and "r < 2 powi (log2_floor r + 1)"
proof -
  obtain a b where q: "quotient_of r = (a, b)" by (cases "quotient_of r")
  then have r: "r = of_int a / of_int b" and b: "0 < b"
    by (auto dest: quotient_of_div quotient_of_denom_pos)
  with assms have a: "0 < a" by (simp add: zero_less_divide_iff)
  define la where "la = int (bit_length (nat a))"
  define lb where "lb = int (bit_length (nat b))"
  define e where "e = la - lb"
  have bounds: "2 powi (la - 1) \<le> rat_of_int a" "rat_of_int a < 2 powi la"
    "2 powi (lb - 1) \<le> rat_of_int b" "rat_of_int b < 2 powi lb"
    using bit_length_powi [OF a] bit_length_powi [OF b] by (simp_all add: la_def lb_def)
  have e1: "2 powi (e - 1) \<le> r"
  proof -
    have "(2::rat) powi (e - 1) = 2 powi (la - 1) / 2 powi lb"
      by (subst power_int_diff [symmetric]) (simp_all add: e_def algebra_simps)
    also have "\<dots> \<le> of_int a / of_int b"
      using bounds a b by (intro frac_le) auto
    finally show ?thesis by (simp add: r)
  qed
  have e2: "r < 2 powi (e + 1)"
  proof -
    have "r < 2 powi la / 2 powi (lb - 1)"
      unfolding r using bounds a by (intro frac_less) auto
    also have "\<dots> = 2 powi (e + 1)"
      by (subst power_int_diff [symmetric]) (simp_all add: e_def algebra_simps)
    finally show ?thesis .
  qed
  have l: "log2_floor r = (if 2 powi e \<le> r then e else e - 1)"
    by (simp add: log2_floor_def q e_def la_def lb_def)
  show "2 powi (log2_floor r) \<le> r" using e1 by (simp add: l)
  show "r < 2 powi (log2_floor r + 1)" using e2 by (simp add: l)
qed

definition round_half_even :: "rat \<Rightarrow> int" where
  "round_half_even x =
     (let f = \<lfloor>x\<rfloor>; d = x - of_int f
      in if d < 1 / 2 then f else if 1 / 2 < d then f + 1 else if even f then f else f + 1)"

lemma round_half_even_error: "\<bar>of_int (round_half_even x) - x\<bar> \<le> 1 / 2"
proof -
  have "of_int \<lfloor>x\<rfloor> \<le> x" "x < of_int \<lfloor>x\<rfloor> + 1" by linarith+
  then show ?thesis by (auto simp: round_half_even_def Let_def)
qed

lemma round_half_even_cases: "round_half_even x = \<lfloor>x\<rfloor> \<or> round_half_even x = \<lfloor>x\<rfloor> + 1 \<and> x \<notin> \<int>"
proof (cases "x \<in> \<int>")
  case True
  then show ?thesis by (auto simp: round_half_even_def Let_def elim: Ints_cases)
qed (auto simp: round_half_even_def Let_def)

lemma round_half_even_ge: "of_int n \<le> x \<Longrightarrow> n \<le> round_half_even x"
  using round_half_even_cases [of x] le_floor_iff [of n x] by auto

lemma round_half_even_le: "x \<le> of_int n \<Longrightarrow> round_half_even x \<le> n"
proof -
  assume "x \<le> of_int n"
  then have "\<lfloor>x\<rfloor> \<le> n" and "x \<notin> \<int> \<Longrightarrow> \<lfloor>x\<rfloor> < n"
    by linarith (metis Ints_of_int \<open>x \<le> rat_of_int n\<close> floor_less_iff order_le_less)
  with round_half_even_cases [of x] show ?thesis by auto
qed

text \<open>\<open>fl p r\<close> is \<open>r\<close> rounded to \<open>p\<close> significant bits.\<close>

definition fl :: "nat \<Rightarrow> rat \<Rightarrow> rat" where
  "fl p r =
     (if r = 0 then 0
      else (let u = 2 powi (log2_floor \<bar>r\<bar> - int p + 1)
            in of_int (round_half_even (r / u)) * u))"

lemma fl_0 [simp]: "fl p 0 = 0"
  by (simp add: fl_def)

lemma fl_error:
  assumes "0 < r"
  shows "\<bar>fl p r - r\<bar> \<le> r / 2 powi (int p)"
proof -
  define e where "e = log2_floor r"
  define u where "u = (2::rat) powi (e - int p + 1)"
  have u: "0 < u" by (simp add: u_def)
  have fl: "fl p r = of_int (round_half_even (r / u)) * u"
    using assms by (simp add: fl_def u_def e_def Let_def)
  have "\<bar>fl p r - r\<bar> = \<bar>of_int (round_half_even (r / u)) - r / u\<bar> * u"
    using u by (simp add: fl abs_mult_pos left_diff_distrib)
  also have "\<dots> \<le> 1 / 2 * u"
    using round_half_even_error u by (intro mult_right_mono) simp_all
  also have "\<dots> = 2 powi e / 2 powi (int p)"
  proof -
    have "u = 2 powi e / 2 powi (int p) * 2"
      unfolding u_def by (subst power_int_add, simp, subst power_int_diff) simp_all
    then show ?thesis by simp
  qed
  also have "\<dots> \<le> r / 2 powi (int p)"
    using log2_floor_bounds(1) [OF assms] by (simp add: e_def divide_right_mono)
  finally show ?thesis .
qed

lemma fl_lower: "0 < r \<Longrightarrow> r - r / 2 ^ p \<le> fl p r"
  using fl_error [of r p] unfolding power_int_of_nat by linarith

text \<open>Rounding never crosses an integer of at most \<open>p\<close> bits.\<close>

lemma fl_integer_bounds:
  assumes "0 < r" and "r < 2 ^ p"
  shows "of_int n \<le> r \<Longrightarrow> of_int n \<le> fl p r" and "r \<le> of_int n \<Longrightarrow> fl p r \<le> of_int n"
proof -
  define e where "e = log2_floor r"
  have "(2::rat) powi e < 2 powi (int p)"
    using log2_floor_bounds(1) [OF assms(1)] assms(2) by (simp add: e_def)
  then have "e < int p" using power_int_increasing [of "int p" e "2::rat"] by fastforce
  then obtain k :: nat where k: "int p = e + 1 + int k"
    by (metis add.commute zless_iff_Suc_zadd zle_iff_zadd zless_imp_add1_zle)
  have fl: "fl p r = of_int (round_half_even (r * 2 ^ k)) / 2 ^ k"
  proof -
    have "(2::rat) powi (e - int p + 1) = 1 / 2 ^ k"
      using k by (simp add: power_int_minus divide_inverse)
    with assms show ?thesis by (simp add: fl_def e_def [symmetric] divide_inverse)
  qed
  show "of_int n \<le> fl p r" if "of_int n \<le> r"
  proof -
    have "of_int (n * 2 ^ k) \<le> r * 2 ^ k" using that by simp
    then have "n * 2 ^ k \<le> round_half_even (r * 2 ^ k)" by (rule round_half_even_ge)
    then have "rat_of_int (n * 2 ^ k) \<le> of_int (round_half_even (r * 2 ^ k))"
      by (simp only: of_int_le_iff)
    then show ?thesis by (simp add: fl field_simps)
  qed
  show "fl p r \<le> of_int n" if "r \<le> of_int n"
  proof -
    have "r * 2 ^ k \<le> of_int (n * 2 ^ k)" using that by simp
    then have "round_half_even (r * 2 ^ k) \<le> n * 2 ^ k" by (rule round_half_even_le)
    then have "rat_of_int (round_half_even (r * 2 ^ k)) \<le> of_int (n * 2 ^ k)"
      by (simp only: of_int_le_iff)
    then show ?thesis by (simp add: fl field_simps)
  qed
qed

lemma fl_minus: "fl p (- r) = - fl p r"
proof -
  have "round_half_even (- x) = - round_half_even x" for x :: rat
  proof (cases "x \<in> \<int>")
    case True
    then show ?thesis by (auto simp: round_half_even_def elim!: Ints_cases)
  next
    case False
    then have "\<lfloor>- x\<rfloor> = - \<lfloor>x\<rfloor> - 1"
      by (metis ceiling_def ceiling_altdef Ints_of_int add.inverse_inverse diff_minus_eq_add
          minus_add_distrib uminus_add_conv_diff add.commute)
    moreover have "of_int \<lfloor>x\<rfloor> < x" using False by (metis Ints_of_int of_int_floor_le order_le_less)
    ultimately show ?thesis by (auto simp: round_half_even_def Let_def)
  qed
  then show ?thesis by (simp add: fl_def Let_def)
qed

lemma fl_of_int:
  assumes "\<bar>n\<bar> < 2 ^ p"
  shows "fl p (of_int n) = of_int n"
proof -
  have pos: "fl p (of_int m) = of_int m" if "0 < m" "m < 2 ^ p" for m
  proof -
    from that have "(of_int m :: rat) < of_int (2 ^ p)" by (simp only: of_int_less_iff)
    with that fl_integer_bounds [of "of_int m" p m] show ?thesis by simp
  qed
  show ?thesis
  proof (cases n "0 :: int" rule: linorder_cases)
    case less
    with assms pos [of "- n"] show ?thesis by (simp add: fl_minus)
  qed (use assms pos [of n] in simp_all)
qed

text \<open>The one computation the program does in \<open>float\<close>: \<open>ceil((float) a / b)\<close> for \<open>int\<close>s
  \<open>a\<close> and \<open>b\<close>, where \<open>b\<close> is converted to \<open>float\<close> too.  Division by zero gives an infinity
  or a NaN, whose conversion back to \<open>int\<close> is undefined.\<close>

definition ceil_float_div :: "int \<Rightarrow> int \<Rightarrow> int outcome" where
  "ceil_float_div a b =
     (if b = 0 then Inl (UB FloatToIntRange)
      else (let c = \<lceil>fl 24 (fl 24 (of_int a) / fl 24 (of_int b))\<rceil>
            in if in_int32 c then Inr c else Inl (UB FloatToIntRange)))"

lemma fl_pos: "0 < r \<Longrightarrow> 0 < p \<Longrightarrow> 0 < fl p r"
proof -
  assume r: "0 < r" and "0 < p"
  then have "(1::rat) < 2 powi (int p)" by (simp add: one_less_power)
  then have "r / 2 powi (int p) < r" using r by (simp add: divide_less_eq)
  with fl_error [OF r, of p] show ?thesis by linarith
qed

lemma ceil_fl_quotient:
  assumes a: "0 < a" "a < 2 ^ 24" and b: "0 < b"
  shows "\<lceil>fl 24 (of_int a / of_int b)\<rceil> = \<lceil>rat_of_int a / of_int b\<rceil>"
proof -
  define q where "q = rat_of_int a / of_int b"
  have q0: "0 < q" using a b by (simp add: q_def)
  have qb: "q * of_int b = of_int a" using b by (simp add: q_def)
  have "q \<le> of_int a" using a b by (simp add: q_def divide_le_eq)
  moreover have "rat_of_int a < 2 ^ 24" using a by (simp add: of_int_less_iff [symmetric] del: of_int_less_iff)
  ultimately have q24: "q < 2 ^ 24" by linarith
  have "fl 24 q \<le> of_int \<lceil>q\<rceil>"
    using fl_integer_bounds(2) [OF q0 q24] by simp
  moreover have "of_int (\<lceil>q\<rceil> - 1) < fl 24 q"
  proof -
    have "(\<lceil>q\<rceil> - 1) * b < a"
    proof -
      have "rat_of_int (\<lceil>q\<rceil> - 1) < q" using ceiling_correct [of q] by simp
      then have "rat_of_int (\<lceil>q\<rceil> - 1) * of_int b < of_int a"
        using b qb by (metis mult_strict_right_mono of_int_0_less_iff)
      then show ?thesis by (simp only: of_int_mult [symmetric] of_int_less_iff)
    qed
    then have "rat_of_int ((\<lceil>q\<rceil> - 1) * b + 1) \<le> of_int a" by (simp only: of_int_le_iff)
    then have "rat_of_int (\<lceil>q\<rceil> - 1) * of_int b + 1 \<le> q * of_int b" using qb by simp
    then have gap: "rat_of_int (\<lceil>q\<rceil> - 1) + 1 / of_int b \<le> q"
      using b by (simp add: field_simps)
    have "q / 2 ^ 24 < 1 / of_int b"
      using b a by (simp add: q_def field_simps of_int_less_iff [symmetric] del: of_int_less_iff)
    with fl_lower [OF q0, of 24] gap show ?thesis by linarith
  qed
  ultimately show ?thesis
    unfolding q_def [symmetric] by (intro ceiling_unique) simp_all
qed

lemma ceil_float_div_exact:
  assumes a: "0 \<le> a" "a < 2 ^ 24" and b: "0 < b"
  shows "ceil_float_div a b = Inr (- (- a div b))"
proof (cases "a = 0")
  case True
  with b show ?thesis by (simp add: ceil_float_div_def int32_defs)
next
  case False
  with a have a0: "0 < a" by simp
  have fa: "fl 24 (of_int a) = of_int a" using a by (intro fl_of_int) simp
  have c: "\<lceil>fl 24 (of_int a / fl 24 (of_int b))\<rceil> = \<lceil>rat_of_int a / of_int b\<rceil>"
  proof (cases "b < 2 ^ 24")
    case True
    then have "fl 24 (of_int b) = of_int b" using b by (intro fl_of_int) simp
    with ceil_fl_quotient [OF a0 a(2) b] show ?thesis by simp
  next
    case False
    have fb: "2 ^ 24 - 1 \<le> fl 24 (rat_of_int b)"
    proof -
      have "rat_of_int (2 ^ 24) \<le> of_int b" using False by (simp only: of_int_le_iff)
      moreover have "of_int b - of_int b / 2 ^ 24 \<le> fl 24 (rat_of_int b)"
        using b by (intro fl_lower) simp
      ultimately show ?thesis by (simp add: field_simps)
    qed
    moreover have "rat_of_int a \<le> of_int (2 ^ 24 - 1)" using a by (simp only: of_int_le_iff)
    ultimately have le: "rat_of_int a \<le> fl 24 (of_int b)" by simp
    then have pos: "0 < rat_of_int a / fl 24 (of_int b)" and "rat_of_int a / fl 24 (of_int b) \<le> 1"
      using a0 fb by (simp_all add: divide_le_eq)
    then have "fl 24 (of_int a / fl 24 (of_int b)) \<le> of_int 1"
      by (intro fl_integer_bounds(2)) simp_all
    with fl_pos [OF pos, of 24] have "\<lceil>fl 24 (rat_of_int a / fl 24 (of_int b))\<rceil> = 1"
      by (intro ceiling_unique) simp_all
    moreover have "\<lceil>rat_of_int a / of_int b\<rceil> = 1"
    proof (intro ceiling_unique)
      have "rat_of_int a \<le> of_int b" using a False by (simp only: of_int_le_iff)
      then show "rat_of_int a / of_int b \<le> of_int 1" using b by (simp add: divide_le_eq)
    qed (use a0 b in simp)
    ultimately show ?thesis by simp
  qed
  have d: "\<lceil>rat_of_int a / of_int b\<rceil> = - (- a div b)" by (rule ceiling_divide_eq_div)
  have "0 \<le> - (- a div b)" using a0 b by (simp add: div_nonpos_pos_le0 pos_imp_zdiv_nonneg_iff)
  moreover have "- (- a div b) \<le> a"
    using zdiv_mono2_neg [of "- a" 1 b] a0 b by simp
  ultimately have "in_int32 (- (- a div b))" using a by (simp add: int32_defs)
  with b c d fa show ?thesis by (simp add: ceil_float_div_def)
qed

lemma ceil_float_div_neg:
  assumes "- 2147483648 \<le> a" "a \<le> 0" and "0 < b" and "ceil_float_div a b = Inr c"
  shows "c \<le> 0"
proof -
  have "0 \<le> fl 24 (of_int (- a))"
    using assms(2) fl_pos [of "of_int (- a)" 24] by (cases "a = 0") (simp_all add: less_imp_le)
  then have fa: "fl 24 (of_int a) \<le> 0" using fl_minus [of 24 "of_int a"] by simp
  have fb: "0 < fl 24 (rat_of_int b)" using assms(3) by (intro fl_pos) simp_all
  have "fl 24 (of_int a) / fl 24 (of_int b) \<le> 0"
    using fa fb by (simp add: divide_nonpos_pos)
  moreover have "0 \<le> fl 24 (- x)" if "x \<le> 0" for x
    using that fl_pos [of "- x" 24] by (cases "x = 0") (simp_all add: less_imp_le)
  ultimately have "0 \<le> fl 24 (- (fl 24 (of_int a) / fl 24 (of_int b)))" by blast
  then have "fl 24 (fl 24 (of_int a) / fl 24 (of_int b)) \<le> 0" by (simp add: fl_minus)
  with assms(3,4) show ?thesis
    by (auto simp: ceil_float_div_def Let_def ceiling_le_zero split: if_splits)
qed

end
