(* ===== verification/Util.thy ===== *)
theory Util
  imports Floats CStrings
begin

text \<open>
  \<^verbatim>\<open>src/util.cpp\<close>: search and replace, and the "natural" string order that sorts query
  results (digit runs compare as numbers).  Positions are \<open>nat\<close>: they stay below the string's
  length, which fits the code's \<open>int\<close> and \<open>ptrdiff_t\<close>.

  Two things are arguments: \<open>nz\<close>, the non-zero value that the C library's \<open>isdigit\<close> returns
  for a digit, and \<open>lexd\<close>, boost's \<open>lexical_cast<double>\<close>: \<open>None\<close> is \<open>bad_lexical_cast\<close>, and
  \<open>Some d\<close> is the exact value of the double.
\<close>

section \<open>Search and replace\<close>

text \<open>The inner loop: how far \<open>search\<close> matches \<open>subject\<close> from position \<open>i\<close>.\<close>

function match_at :: "string \<Rightarrow> string \<Rightarrow> nat \<Rightarrow> nat \<Rightarrow> nat" where
  "match_at search subject i j =
     (if i + j < length subject \<and> j < length search \<and> subject ! (i + j) = search ! j
      then match_at search subject i (Suc j) else j)"
  by pat_completeness auto
termination by (relation "measure (\<lambda>(se, su, i, j). length se - j)") auto

declare match_at.simps [simp del]

text \<open>The outer loop; its caller has returned if \<open>search\<close> is empty.\<close>

function str_replace_loop :: "string \<Rightarrow> string \<Rightarrow> string \<Rightarrow> nat \<Rightarrow> string \<Rightarrow> string" where
  "str_replace_loop search replace subject i buffer =
     (if i < length subject \<and> search \<noteq> [] then
        (let j = match_at search subject i 0
         in if j = length search
            then str_replace_loop search replace subject (i + length search) (buffer @ replace)
            else str_replace_loop search replace subject (i + 1) (buffer @ [subject ! i]))
      else buffer)"
  by pat_completeness auto
termination
  by (relation "measure (\<lambda>(se, re, su, i, b). length su - i)")
    (auto simp flip: length_greater_0_conv)

declare str_replace_loop.simps [simp del]

definition str_replace :: "string \<Rightarrow> string \<Rightarrow> string \<Rightarrow> string" where
  "str_replace search replace subject =
     (if search = [] then subject else str_replace_loop search replace subject 0 [])"

section \<open>Tokens\<close>

text \<open>\<open>token_end\<close>: skip characters while \<open>isdigit(c) ^ strmode\<close> is non-zero, where the
  exclusive or is the bitwise one on \<open>int\<close>.\<close>

function token_end :: "int \<Rightarrow> string \<Rightarrow> nat \<Rightarrow> bool \<Rightarrow> nat" where
  "token_end nz s b strmode =
     (if b < length s \<and> Bit_Operations.xor (isdigit nz (s ! b)) (of_bool strmode) \<noteq> 0
      then token_end nz s (Suc b) strmode else b)"
  by pat_completeness auto
termination by (relation "measure (\<lambda>(nz, s, b, m). length s - b)") auto

declare token_end.simps [simp del]

lemma xor_eq_0_iff: "Bit_Operations.xor (a :: int) b = 0 \<longleftrightarrow> a = b"
  by (simp add: bit_eq_iff bit_simps)

lemma token_end_stop:
  "b < length s \<Longrightarrow> isdigit nz (s ! b) = of_bool m \<Longrightarrow> token_end nz s b m = b"
  by (simp add: token_end.simps [of nz s b m] xor_eq_0_iff)

lemma token_end_go:
  "b < length s \<Longrightarrow> isdigit nz (s ! b) \<noteq> of_bool m \<Longrightarrow> token_end nz s b m = token_end nz s (Suc b) m"
  by (subst token_end.simps [of nz s b m]) (simp add: xor_eq_0_iff)

lemma token_end_bounds: "b \<le> token_end nz s b m \<and> (b \<le> length s \<longrightarrow> token_end nz s b m \<le> length s)"
proof (induction nz s b m rule: token_end.induct)
  case (1 nz s b m)
  then show ?case
    by (cases "b < length s \<and> isdigit nz (s ! b) \<noteq> of_bool m")
      (auto simp: token_end.simps [of nz s b m] xor_eq_0_iff)
qed

text \<open>An empty token flips the mode, and the next token cannot be empty too.\<close>

lemma token_end_progress:
  assumes "b < length s" and "token_end nz s b m = b"
  shows "b < token_end nz s b (\<not> m)"
proof -
  have "isdigit nz (s ! b) = of_bool m"
    using assms token_end_go [of b s nz m] token_end_bounds [of "Suc b" nz s m] by fastforce
  then have "isdigit nz (s ! b) \<noteq> of_bool (\<not> m)" by (cases m) auto
  with assms(1) have "token_end nz s b (\<not> m) = token_end nz s (Suc b) (\<not> m)"
    by (rule token_end_go)
  then show ?thesis using token_end_bounds [of "Suc b" nz s "\<not> m"] by simp
qed

text \<open>The \<open>do\<close> loop of \<open>tokenize_string\<close>, from the end \<open>e\<close> of the previous token.\<close>

function tokenize_loop :: "int \<Rightarrow> string \<Rightarrow> nat \<Rightarrow> bool \<Rightarrow> string list" where
  "tokenize_loop nz s e mstr =
     (let b = e; m = (\<not> mstr); e' = token_end nz s b m
      in take (e' - b) (drop b s) # (if b < length s then tokenize_loop nz s e' m else []))"
  by pat_completeness auto
termination
proof (relation "measure (\<lambda>(nz, s, e, m). 2 * (length s - e) + of_bool (token_end nz s e (\<not> m) = e))",
    goal_cases)
  case (2 nz s e mstr b m e')
  show ?case
  proof (cases "e' = e")
    case True
    with 2 token_end_progress [of e s nz m] show ?thesis by auto
  next
    case False
    with 2 token_end_bounds [of e nz s m] show ?thesis by auto
  qed
qed simp

declare tokenize_loop.simps [simp del]

definition tokenize_string :: "int \<Rightarrow> string \<Rightarrow> string list" where
  "tokenize_string nz s = tokenize_loop nz s 0 False"

text \<open>\<open>merge_floats\<close>: three tokens \<open>l\<close>, \<open>"."\<close>, \<open>r\<close> become one when \<open>l\<close> and \<open>r\<close> are not empty;
  the last two tokens are copied.\<close>

fun merge_floats :: "string list \<Rightarrow> string list" where
  "merge_floats (l # c # r # ts) =
     (if c = ''.'' \<and> l \<noteq> [] \<and> r \<noteq> [] then (l @ c @ r) # merge_floats ts
      else l # merge_floats (c # r # ts))"
| "merge_floats ts = ts"

section \<open>The natural order\<close>

text \<open>\<open>EPS\<close> is the double nearest to \<open>1e-10\<close>.\<close>

definition EPS :: rat where
  "EPS = fl 53 (1 / 10 ^ 10)"

text \<open>\<open>abs(d1-d2) < EPS\<close> in double arithmetic.\<close>

definition close :: "rat \<Rightarrow> rat \<Rightarrow> bool" where
  "close d1 d2 \<longleftrightarrow> \<bar>fl 53 (d1 - d2)\<bar> < EPS"

text \<open>One pair of tokens: \<open>Some r\<close> returns \<open>r\<close>, \<open>None\<close> goes on.\<close>

definition compare_token :: "(string \<Rightarrow> rat option) \<Rightarrow> bool \<Rightarrow> string \<Rightarrow> string \<Rightarrow> int option" where
  "compare_token lexd mstr stok1 stok2 =
     (if length stok1 = length stok2 \<and> length stok1 = 0 then None
      else if stok1 = [] \<or> stok2 = [] then Some (if length stok1 < length stok2 then 1 else - 1)
      else (case (if mstr then None
                  else Option.bind (lexd stok1) (\<lambda>d1. map_option (Pair d1) (lexd stok2))) of
              Some (d1, d2) \<Rightarrow> (if close d1 d2 then None else Some (if d1 < d2 then 1 else - 1))
            | None \<Rightarrow>
                (if stok1 = stok2 then None else Some (if stok1 < stok2 then 1 else - 1))))"

fun compare_tokens :: "(string \<Rightarrow> rat option) \<Rightarrow> bool \<Rightarrow> string list \<Rightarrow> string list \<Rightarrow> int option" where
  "compare_tokens lexd mstr (t1 # ts1) (t2 # ts2) =
     (case compare_token lexd (\<not> mstr) t1 t2 of
        None \<Rightarrow> compare_tokens lexd (\<not> mstr) ts1 ts2
      | Some r \<Rightarrow> Some r)"
| "compare_tokens lexd mstr _ _ = None"

definition str_compare_nat :: "int \<Rightarrow> (string \<Rightarrow> rat option) \<Rightarrow> string \<Rightarrow> string \<Rightarrow> int" where
  "str_compare_nat nz lexd s1 s2 =
     (let comp_tok1 = merge_floats (tokenize_string nz s1);
          comp_tok2 = merge_floats (tokenize_string nz s2);
          l1 = length comp_tok1; l2 = length comp_tok2
      in case compare_tokens lexd False comp_tok1 comp_tok2 of
           Some r \<Rightarrow> r
         | None \<Rightarrow> (if l1 = l2 then 0 else if l1 < l2 then 1 else - 1))"

section \<open>Search and replace, as a recursion on the string\<close>

fun replace_all :: "string \<Rightarrow> string \<Rightarrow> string \<Rightarrow> string" where
  "replace_all search replace s =
     (if s = [] \<or> search = [] then s
      else if starts_with search s then replace @ replace_all search replace (drop (length search) s)
      else hd s # replace_all search replace (tl s))"

declare replace_all.simps [simp del]

lemma match_at_complete:
  assumes "j \<le> length search" and "take j search = take j (drop i subject)"
    and "i + j \<le> length subject"
  shows "match_at search subject i j = length search \<longleftrightarrow> starts_with search (drop i subject)"
  using assms
proof (induction search subject i j rule: match_at.induct)
  case (1 search subject i j)
  show ?case
  proof (cases "i + j < length subject \<and> j < length search \<and> subject ! (i + j) = search ! j")
    case True
    then have "take (Suc j) search = take (Suc j) (drop i subject)"
      using "1.prems" by (simp add: take_Suc_conv_app_nth less_diff_conv add.commute)
    with 1 True show ?thesis by (simp add: match_at.simps [of search subject i j])
  next
    case False
    then have m: "match_at search subject i j = j" by (subst match_at.simps) auto
    show ?thesis
    proof (cases "j = length search")
      case True
      with "1.prems" m show ?thesis
        by (auto simp: starts_with_iff intro: exI [of _ "drop j (drop i subject)"])
          (metis append_take_drop_id take_all order_refl drop_drop)
    next
      case neq: False
      have "\<not> starts_with search (drop i subject)"
      proof
        assume "starts_with search (drop i subject)"
        then obtain t where t: "drop i subject = search @ t" by (auto simp: starts_with_iff)
        then have "length search \<le> length subject - i" by (metis length_append length_drop le_add1)
        with neq "1.prems"(1,3) have lt: "j < length search" "i + j < length subject" by auto
        then have "subject ! (i + j) = drop i subject ! j" by simp
        with t lt False show False by (simp add: nth_append)
      qed
      with neq m show ?thesis by simp
    qed
  qed
qed

lemma str_replace_loop_eq:
  "i \<le> length subject \<Longrightarrow> search \<noteq> [] \<Longrightarrow>
   str_replace_loop search replace subject i buffer
     = buffer @ replace_all search replace (drop i subject)"
proof (induction search replace subject i buffer rule: str_replace_loop.induct)
  case (1 search replace subject i buffer)
  let ?s = "drop i subject"
  note unfold = str_replace_loop.simps [of search replace subject i buffer]
    replace_all.simps [of search replace ?s]
  show ?case
  proof (cases "i < length subject")
    case False
    with "1.prems" show ?thesis by (subst unfold(1), subst unfold(2)) simp
  next
    case True
    then have hd: "?s \<noteq> []" "hd ?s = subject ! i" "tl ?s = drop (Suc i) subject"
      by (simp_all add: hd_drop_conv_nth drop_Suc tl_drop)
    have m: "match_at search subject i 0 = length search \<longleftrightarrow> starts_with search ?s"
      using True by (intro match_at_complete) simp_all
    show ?thesis
    proof (cases "starts_with search ?s")
      case sw: True
      then have "i + length search \<le> length subject"
        using True by (auto simp: starts_with_iff)
          (metis True add_le_mono1 le_add1 le_add_diff_inverse2 length_append length_drop
            less_imp_le_nat add.commute)
      with 1 sw m True hd show ?thesis by (simp add: unfold drop_drop add.commute)
    next
      case False
      with 1 m True hd show ?thesis by (simp add: unfold)
    qed
  qed
qed

lemma str_replace_eq: "str_replace search replace subject = replace_all search replace subject"
  by (simp add: str_replace_def str_replace_loop_eq replace_all.simps [of search])

lemma replace_all_absent: "\<not> contains s search \<Longrightarrow> replace_all search replace s = s"
proof (induction s)
  case Nil
  then show ?case by (simp add: replace_all.simps)
next
  case (Cons c s)
  then show ?case by (simp add: replace_all.simps [of _ _ "c # s"])
qed

lemma replace_all_same: "replace_all search search s = s"
proof (induction "length s" arbitrary: s rule: less_induct)
  case less
  show ?case
  proof (cases "s = [] \<or> search = []")
    case True
    then show ?thesis by (subst replace_all.simps) simp
  next
    case False
    with less [of "tl s"] less [of "drop (length search) s"] show ?thesis
      by (auto simp: replace_all.simps [of search _ s] starts_with_iff)
  qed
qed

section \<open>Tokens: nothing is lost\<close>

lemma concat_tokenize_loop: "e \<le> length s \<Longrightarrow> concat (tokenize_loop nz s e m) = drop e s"
proof (induction nz s e m rule: tokenize_loop.induct)
  case (1 nz s e m)
  let ?e' = "token_end nz s e (\<not> m)"
  have b: "e \<le> ?e'" "?e' \<le> length s" using token_end_bounds "1.prems" by blast+
  have ih: "e < length s \<Longrightarrow> concat (tokenize_loop nz s ?e' (\<not> m)) = drop ?e' s"
    using "1.IH" [OF refl refl refl] b by simp
  have "take (?e' - e) (drop e s) @ drop ?e' s = drop e s"
    using b by (metis append_take_drop_id drop_drop le_add_diff_inverse2)
  with ih b "1.prems" show ?case
    by (cases "e < length s") (simp_all add: tokenize_loop.simps [of nz s e m] Let_def)
qed

lemma concat_tokenize_string: "concat (tokenize_string nz s) = s"
  by (simp add: tokenize_string_def concat_tokenize_loop)

lemma concat_merge_floats: "concat (merge_floats ts) = concat ts"
  by (induction ts rule: merge_floats.induct) auto

section \<open>The comparison is antisymmetric\<close>

lemma EPS_pos: "0 < EPS"
  unfolding EPS_def by (rule fl_pos) simp_all

lemma EPS_le_1: "EPS \<le> 1"
  unfolding EPS_def using fl_integer_bounds(2) [of "1 / 10 ^ 10" 53 1] by simp

lemma close_sym: "close d1 d2 \<longleftrightarrow> close d2 d1"
proof -
  have "fl 53 (d1 - d2) = - fl 53 (d2 - d1)" by (simp add: fl_minus [symmetric])
  then show ?thesis by (simp add: close_def)
qed

lemma close_refl [simp]: "close d d"
  by (simp add: close_def EPS_pos)

lemma compare_token_antisym:
  "compare_token lexd m s t = map_option uminus (compare_token lexd m t s)"
proof -
  have num: "(if close d1 d2 then None else Some (if d1 < d2 then 1 else - 1))
      = map_option uminus (if close d2 d1 then None else Some (if d2 < d1 then 1 else (- 1 :: int)))"
    for d1 d2
    using close_sym [of d1 d2] by (cases d1 d2 rule: linorder_cases) auto
  show ?thesis
  proof (cases "s = [] \<or> t = []")
    case True
    then show ?thesis by (auto simp: compare_token_def)
  next
    case ne: False
    show ?thesis
    proof (cases "\<not> m \<and> lexd s \<noteq> None \<and> lexd t \<noteq> None")
      case True
      then obtain d1 d2 where "lexd s = Some d1" "lexd t = Some d2" by auto
      with True ne num [of d1 d2] show ?thesis by (simp add: compare_token_def)
    next
      case False
      then have "(if m then None else Option.bind (lexd s) (\<lambda>d1. map_option (Pair d1) (lexd t))) = None"
        "(if m then None else Option.bind (lexd t) (\<lambda>d1. map_option (Pair d1) (lexd s))) = None"
        by (auto split: Option.bind_splits)
      with ne show ?thesis
        by (cases s t rule: linorder_cases) (auto simp: compare_token_def)
    qed
  qed
qed

lemma compare_tokens_antisym:
  "compare_tokens lexd m ss ts = map_option uminus (compare_tokens lexd m ts ss)"
proof (induction lexd m ss ts rule: compare_tokens.induct)
  case (1 lexd m s ss t ts)
  have "compare_token lexd (\<not> m) s t = map_option uminus (compare_token lexd (\<not> m) t s)"
    by (rule compare_token_antisym)
  with 1 show ?case by (cases "compare_token lexd (\<not> m) t s") simp_all
qed (auto simp: neq_Nil_conv)

lemma compare_tokens_refl: "compare_tokens lexd m ts ts = None"
proof (induction ts arbitrary: m)
  case (Cons t ts)
  have "compare_token lexd (\<not> m) t t = None"
    by (cases "lexd t") (simp_all add: compare_token_def)
  with Cons show ?case by simp
qed simp

section \<open>Digit runs compare as numbers\<close>

lemma token_end_run:
  assumes "b \<le> b'" and "b' \<le> length s"
    and "\<And>i. b \<le> i \<Longrightarrow> i < b' \<Longrightarrow> isdigit nz (s ! i) \<noteq> of_bool m"
    and "b' < length s \<Longrightarrow> isdigit nz (s ! b') = of_bool m"
  shows "token_end nz s b m = b'"
  using assms
proof (induction nz s b m rule: token_end.induct)
  case (1 nz s b m)
  show ?case
  proof (cases "b = b'")
    case True
    with "1.prems" show ?thesis
      by (cases "b < length s") (auto simp: token_end_stop token_end.simps [of nz s "length s"])
  next
    case False
    with "1.prems" have lt: "b < length s" and go: "isdigit nz (s ! b) \<noteq> of_bool m" by auto
    have "token_end nz s (Suc b) m = b'"
      using "1.prems" False lt go by (intro "1.IH") (simp_all add: xor_eq_0_iff)
    with lt go show ?thesis by (simp add: token_end_go)
  qed
qed

lemma tokenize_prefix_digits:
  assumes p: "\<forall>c \<in> set p. \<not> is_digit c" and d: "\<forall>c \<in> set ds. is_digit c" and ne: "ds \<noteq> []"
  shows "tokenize_string 1 (p @ ds) = [p, ds, []]"
proof -
  let ?s = "p @ ds"
  have ds: "is_digit (?s ! i)" if "length p \<le> i" "i < length ?s" for i
    using that d by (auto simp: nth_append)
  have e1: "token_end 1 ?s 0 True = length p"
    using p d ne by (intro token_end_run) (auto simp: isdigit_def nth_append)
  have e2: "token_end 1 ?s (length p) False = length ?s"
    using ds by (intro token_end_run) (auto simp: isdigit_def)
  have e3: "token_end 1 ?s (length ?s) True = length ?s"
    by (intro token_end_run) auto
  show ?thesis using ne e1 e2 e3
    by (simp add: tokenize_string_def tokenize_loop.simps [of _ _ 0]
        tokenize_loop.simps [of _ _ "length p"] tokenize_loop.simps [of _ _ "length p + length ds"])
qed

lemma close_integers:
  assumes "\<bar>m - n\<bar> < 2 ^ 53"
  shows "close (of_int m) (of_int n) \<longleftrightarrow> m = n"
proof -
  have "fl 53 (of_int m - of_int n) = of_int (m - n)"
    using fl_of_int [OF assms] by simp
  moreover have "EPS \<le> \<bar>rat_of_int (m - n)\<bar>" if "m \<noteq> n"
  proof -
    have "1 \<le> \<bar>rat_of_int (m - n)\<bar>" using that by linarith
    then show ?thesis using EPS_le_1 by linarith
  qed
  ultimately show ?thesis by (cases "m = n") (simp_all add: close_def [of "of_int m"] EPS_pos)
qed

lemma compare_prefix_digits:
  assumes "\<forall>c \<in> set p. \<not> is_digit c"
    and "lexd (show_nat m) = Some (of_nat m)" and "lexd (show_nat n) = Some (of_nat n)"
    and "m < 2 ^ 53" and "n < 2 ^ 53"
  shows "str_compare_nat 1 lexd (p @ show_nat m) (p @ show_nat n)
    = (if m = n then 0 else if m < n then 1 else - 1)"
proof -
  have mf: "merge_floats [p, show_nat k, []] = [p, show_nat k, []]" for k by simp
  have pp: "compare_token lexd True p p = None" by (simp add: compare_token_def)
  have "close (of_nat m) (of_nat n) \<longleftrightarrow> m = n"
    using close_integers [of "int m" "int n"] assms(4,5) by simp
  then have num: "compare_token lexd False (show_nat m) (show_nat n)
      = (if m = n then None else Some (if m < n then 1 else - 1))"
    using assms(2,3) by (simp add: compare_token_def)
  have "compare_token lexd True [] [] = None" by (simp add: compare_token_def)
  with pp num show ?thesis
    by (simp add: str_compare_nat_def tokenize_prefix_digits [OF assms(1) show_nat_digits] mf)
qed

section \<open>A library with another \<open>isdigit\<close>\<close>

text \<open>If \<open>isdigit\<close> answers a digit with anything but 1 (glibc's table lookup gives 2048), a text
  token never ends, so there are no number tokens.\<close>

lemma tokenize_not_1:
  assumes "nz \<noteq> 1" and "s \<noteq> []"
  shows "tokenize_string nz s = [s, []]"
proof -
  have 1: "token_end nz s 0 True = length s"
    using assms(1) by (intro token_end_run) (auto simp: isdigit_def)
  have 2: "token_end nz s (length s) False = length s"
    by (intro token_end_run) auto
  from 1 2 assms(2) show ?thesis
    by (simp add: tokenize_string_def tokenize_loop.simps [of _ _ 0]
        tokenize_loop.simps [of _ _ "length s"])
qed

lemma tokenize_empty: "tokenize_string nz [] = [[]]"
  by (simp add: tokenize_string_def tokenize_loop.simps token_end.simps)

text \<open>\<open>lexical_cast<double>\<close> on unsigned decimal numbers without an exponent: the double
  nearest to the number.\<close>

definition decimal_cast :: "string \<Rightarrow> rat option" where
  "decimal_cast s =
     (let a = takeWhile is_digit s; r = dropWhile is_digit s; f = tl r
      in if a = [] then None
         else if r = [] then Some (fl 53 (of_int (digits_value 0 a)))
         else if hd r = CHR ''.'' \<and> f \<noteq> [] \<and> list_all is_digit f
         then Some (fl 53 (of_int (digits_value 0 (a @ f)) / 10 ^ length f))
         else None)"

lemma decimal_cast_show_nat:
  assumes "n < 2 ^ 53"
  shows "decimal_cast (show_nat n) = Some (of_nat n)"
proof -
  have tw: "takeWhile is_digit (show_nat n) = show_nat n"
    and dw: "dropWhile is_digit (show_nat n) = []"
    using show_nat_digits by (simp_all add: takeWhile_eq_all_conv dropWhile_eq_Nil_conv)
  have "fl 53 (of_int (int n)) = of_int (int n)"
    using assms by (intro fl_of_int) simp
  then show ?thesis unfolding decimal_cast_def Let_def tw dw by (simp add: digits_value_show_nat)
qed

lemma fl_53_bounds:
  assumes "0 < r"
  shows "r * (999 / 1000) \<le> fl 53 r" and "fl 53 r \<le> r * (1001 / 1000)"
proof -
  have "(2::rat) powi (int 53) = 9007199254740992" by (simp add: power_int_def)
  then have "\<bar>fl 53 r - r\<bar> \<le> r / 9007199254740992" using fl_error [OF assms, of 53] by simp
  also have "\<dots> \<le> r / 1000" using assms by (intro divide_left_mono) simp_all
  finally have "\<bar>fl 53 r - r\<bar> \<le> r / 1000" .
  then show "r * (999 / 1000) \<le> fl 53 r" "fl 53 r \<le> r * (1001 / 1000)" by linarith+
qed

text \<open>The doubles nearest to 6e-11 and 12e-11: within the tolerance of 0 and of each other,
  while 0 and the second are not.\<close>

lemma close_chain:
  defines "b \<equiv> fl 53 (6 / 10 ^ 11)" and "c \<equiv> fl 53 (12 / 10 ^ 11)"
  shows "close 0 b" and "close b c" and "\<not> close 0 c" and "0 < c"
proof -
  have b: "6 / 10 ^ 11 * (999 / 1000) \<le> b" "b \<le> 6 / 10 ^ 11 * (1001 / 1000)"
    unfolding b_def by (rule fl_53_bounds; simp)+
  have c: "12 / 10 ^ 11 * (999 / 1000) \<le> c" "c \<le> 12 / 10 ^ 11 * (1001 / 1000)"
    unfolding c_def by (rule fl_53_bounds; simp)+
  have e: "1 / 10 ^ 10 * (999 / 1000) \<le> EPS" "EPS \<le> 1 / 10 ^ 10 * (1001 / 1000)"
    unfolding EPS_def by (rule fl_53_bounds; simp)+
  from b(1) c(1) have pos: "0 < b" "0 < c" by (simp_all add: field_simps)
  have d: "0 < c - b" using b c by (simp add: field_simps)
  have neg: "\<bar>fl 53 (x - y)\<bar> = fl 53 (y - x)" if "0 < y - x" for x y
    using fl_minus [of 53 "y - x"] fl_pos [OF that, of 53] by simp
  have "fl 53 b < EPS" using fl_53_bounds(2) [OF pos(1)] b e by (simp add: field_simps)
  then show "close 0 b" using neg [of b 0] pos by (simp add: close_def)
  have "fl 53 (c - b) < EPS" using fl_53_bounds(2) [OF d] b c e by (simp add: field_simps)
  then show "close b c" using neg [of c b] d by (simp add: close_def)
  have "EPS < fl 53 c" using fl_53_bounds(1) [OF pos(2)] c e by (simp add: field_simps)
  then show "\<not> close 0 c" using neg [of c 0] pos by (simp add: close_def)
  show "0 < c" by (rule pos(2))
qed

lemma compare_decimals:
  assumes "decimal_cast s = Some d1" and "decimal_cast t = Some d2"
    and "merge_floats (tokenize_string 1 s) = [[], s, []]"
    and "merge_floats (tokenize_string 1 t) = [[], t, []]" and "s \<noteq> []" and "t \<noteq> []"
  shows "str_compare_nat 1 decimal_cast s t = (if close d1 d2 then 0 else if d1 < d2 then 1 else - 1)"
  using assms by (simp add: str_compare_nat_def compare_token_def)

section \<open>Properties\<close>

text \<open>Splitting a string into text and digit tokens and merging decimal fractions loses
  no character and changes no order.\<close>

theorem tokens_concat: "concat (merge_floats (tokenize_string nz s)) = s"
  by (simp add: concat_merge_floats concat_tokenize_string)

text \<open>The comparison is antisymmetric (swapping the strings negates the result) and a
  string compares equal to itself, whatever \<open>lexical_cast\<close> and \<open>isdigit\<close> do.\<close>

theorem str_compare_nat_antisym:
  "str_compare_nat nz lexd s t = - str_compare_nat nz lexd t s \<and> str_compare_nat nz lexd s s = 0"
proof
  let ?c = "\<lambda>s. merge_floats (tokenize_string nz s)"
  show "str_compare_nat nz lexd s t = - str_compare_nat nz lexd t s"
    using compare_tokens_antisym [of lexd False "?c s" "?c t"]
    by (cases "compare_tokens lexd False (?c t) (?c s)") (simp_all add: str_compare_nat_def Let_def)
  show "str_compare_nat nz lexd s s = 0"
    by (simp add: str_compare_nat_def compare_tokens_refl)
qed

text \<open>The natural order needs an \<open>isdigit\<close> that returns exactly 1: with any other non-zero
  value the comparison is the plain byte order of the strings, and digits never compare as
  numbers.\<close>

lemma str_compare_nat_other_isdigit:
  assumes "nz \<noteq> 1"
  shows "str_compare_nat nz lexd s t = (if s = t then 0 else if s < t then 1 else - 1)"
proof -
  have mf: "merge_floats (tokenize_string nz s) = (if s = [] then [[]] else [s, []])" for s
    using assms by (simp add: tokenize_not_1 tokenize_empty)
  show ?thesis
    by (cases s t rule: linorder_cases; cases "s = []"; cases "t = []")
      (simp_all add: str_compare_nat_def mf compare_token_def)
qed

text \<open>(C35) Two strings with a common prefix without digits and a decimal number below \<open>2 ^ 53\<close> behind it:
  where the \<open>isdigit\<close> of the C library gives 1 for a digit they compare by the value of the numbers (1 means that
  the first comes first); where it gives any other non-zero value, as the C standard allows, they compare as plain
  byte strings, so that 10 comes before 9.\<close>

theorem str_compare_nat_numbers:
  assumes "\<forall>c \<in> set p. \<not> is_digit c"
    and "lexd (show_nat m) = Some (of_nat m)" and "lexd (show_nat n) = Some (of_nat n)"
    and "m < 2 ^ 53" and "n < 2 ^ 53"
  shows "str_compare_nat nz lexd (p @ show_nat m) (p @ show_nat n) =
    (if nz = 1 then (if m = n then 0 else if m < n then 1 else - 1)
     else (if m = n then 0 else if p @ show_nat m < p @ show_nat n then 1 else - 1))"
proof (cases "nz = 1")
  case True
  with compare_prefix_digits [OF assms] show ?thesis by simp
next
  case False
  have "m = n" if e: "show_nat m = show_nat n"
  proof -
    from assms(2,3) have "(of_nat m :: rat) = of_nat n" unfolding e by (metis option.inject)
    then show ?thesis by (simp only: of_nat_eq_iff)
  qed
  then show ?thesis using False by (auto simp: str_compare_nat_other_isdigit)
qed

theorem str_compare_nat_numbers_witness:
  "str_compare_nat 1 decimal_cast (''img'' @ show_nat 9) (''img'' @ show_nat 10) = 1 \<and>
   str_compare_nat 2048 decimal_cast (''img'' @ show_nat 9) (''img'' @ show_nat 10) = - 1"
proof -
  have "show_nat 9 = ''9''" "show_nat 10 = ''10''" by code_simp+
  then show ?thesis
    using str_compare_nat_numbers [of "''img''" decimal_cast 9 10 1] str_compare_nat_numbers [of "''img''" decimal_cast 9 10 2048]
      decimal_cast_show_nat [of 9] decimal_cast_show_nat [of 10]
    by (simp add: is_digit_def)
qed

text \<open>Equality of the comparison is not transitive: with the tolerance of \<open>1e-10\<close>, 0 and
  0.00000000006 compare equal, 0.00000000006 and 0.00000000012 compare equal, and 0 comes
  before 0.00000000012.  So the comparator that \<open>std::sort\<close> gets is not a strict weak order.\<close>

theorem str_compare_nat_not_transitive:
  "str_compare_nat 1 decimal_cast ''0'' ''0.00000000006'' = 0 \<and>
   str_compare_nat 1 decimal_cast ''0.00000000006'' ''0.00000000012'' = 0 \<and>
   str_compare_nat 1 decimal_cast ''0'' ''0.00000000012'' = 1"
proof -
  have cast: "decimal_cast ''0'' = Some 0"
    "decimal_cast ''0.00000000006'' = Some (fl 53 (6 / 10 ^ 11))"
    "decimal_cast ''0.00000000012'' = Some (fl 53 (12 / 10 ^ 11))"
    by (simp_all add: decimal_cast_def is_digit_def digit_value_def)
  have tok: "merge_floats (tokenize_string 1 ''0'') = [[], ''0'', []]"
    "merge_floats (tokenize_string 1 ''0.00000000006'') = [[], ''0.00000000006'', []]"
    "merge_floats (tokenize_string 1 ''0.00000000012'') = [[], ''0.00000000012'', []]"
    by code_simp+
  show ?thesis
    using close_chain
    by (simp add: compare_decimals [OF cast(1,2) tok(1,2)] compare_decimals [OF cast(2,3) tok(2,3)]
        compare_decimals [OF cast(1,3) tok(1,3)])
qed

end
