(* ===== verification/Response.thy ===== *)
theory Response
  imports Site Util Floats
begin

text \<open>
  \<^verbatim>\<open>src/response.cpp\<close>: the options of a query, pagination, filtering, uniqueness, sorting, and
  the JSON of the result.  \<open>std::sort\<close> is a parameter that is handed the comparison of the
  program, which reads and fills caches and may throw.
\<close>

section \<open>Objects\<close>

record response_context =
  rc_contexts :: "ctxref list"
  rc_total :: int

record create_info =
  ci_structure_id :: "int option"
  ci_row_id :: int

datatype sort_type = SortNone | SortReverse | SortShuffle | SortSpecific
datatype sort_order = Asc | Desc

record sort_field =
  sf_field :: string
  sf_count :: bool
  sf_direction :: sort_order

record options =
  o_filter :: bool
  o_filter_terms :: "string list"
  o_groups :: int
  o_page :: int
  o_paginate :: int
  o_sort_fields :: "sort_field list"
  o_sort_type :: sort_type
  o_skip :: int
  o_unique :: bool
  o_unique_fields :: "string list"

record response =
  rs_contexts :: "response_context list"
  rs_create_infos :: "create_info list"

text \<open>The standard library's sort and shuffle, and what the string comparison takes from it
  and boost: the non-zero result of \<open>isdigit\<close>, and \<open>lexical_cast<double>\<close>.\<close>

record sort_lib =
  std_sort :: "(ctxref \<Rightarrow> ctxref \<Rightarrow> (site, bool) sm) \<Rightarrow> ctxref list \<Rightarrow> (site, ctxref list) sm"
  random_shuffle :: "ctxref list \<Rightarrow> ctxref list"
  isdigit_result :: int
  lexical_cast :: "string \<Rightarrow> rat option"

section \<open>Options\<close>

text \<open>\<open>while (ss >> buf)\<close>: the words between white space, each cut at a null character.\<close>

function words_of :: "string \<Rightarrow> string list" where
  "words_of s =
     (let t = dropWhile is_space s in
      if t = [] then []
      else c_str (takeWhile (\<lambda>c. \<not> is_space c) t) # words_of (dropWhile (\<lambda>c. \<not> is_space c) t))"
  by pat_completeness auto
termination
proof (relation "measure length", goal_cases)
  case (2 s t)
  then have "dropWhile is_space s = t" "t \<noteq> []" by simp_all
  then obtain c u where t: "t = c # u" by (cases t) auto
  have c: "\<not> is_space c"
    using hd_dropWhile [of is_space s] \<open>dropWhile is_space s = t\<close> t by simp
  have "length (dropWhile (\<lambda>c. \<not> is_space c) t) \<le> length u"
    using c length_dropWhile_le [of _ u] by (simp add: t)
  also have "\<dots> < length s"
    using length_dropWhile_le [of is_space s] \<open>dropWhile is_space s = t\<close> t by simp
  finally show ?case by simp
qed simp

declare words_of.simps [simp del]

definition options_default :: options where
  "options_default = \<lparr>o_filter = False, o_filter_terms = [], o_groups = 0, o_page = 1,
     o_paginate = 99999999, o_sort_fields = [], o_sort_type = SortNone, o_skip = 0,
     o_unique = False, o_unique_fields = []\<rparr>"

text \<open>The regular expressions of the order option.\<close>

definition field_pattern :: "string \<Rightarrow> string" where
  "field_pattern f = f @ backslash @ ''(([.@A-Za-z0-9_()'' @ backslash @ ''/]+)'' @ backslash @ '')''"

definition sort_field_of :: "text_lib \<Rightarrow> string \<Rightarrow> sort_field" where
  "sort_field_of T term =
     (let (field, direction) = (case pcre_full_match T True (field_pattern ''DESC'') term of
            Some (f # _) \<Rightarrow> (f, Desc) | _ \<Rightarrow> (term, Asc))
      in (case pcre_full_match T True (field_pattern ''COUNT'') field of
            Some (f # _) \<Rightarrow> \<lparr>sf_field = f, sf_count = True, sf_direction = direction\<rparr>
          | _ \<Rightarrow> \<lparr>sf_field = field, sf_count = False, sf_direction = direction\<rparr>))"

definition order_option :: "text_lib \<Rightarrow> string \<Rightarrow> options \<Rightarrow> options" where
  "order_option T order p =
     (if order = [] then p
      else
        let order' = (case pcre_replace T True (''REVERSE'' @ backslash @ ''('') ''DESC('' order of
              Some x \<Rightarrow> x | None \<Rightarrow> order)
        in if strcaseeq (c_str order') ''DESC()'' then p\<lparr>o_sort_type := SortReverse\<rparr>
           else if strcaseeq (c_str order') ''RAND()'' then p\<lparr>o_sort_type := SortShuffle\<rparr>
           else p\<lparr>o_sort_type := SortSpecific,
             o_sort_fields := map (sort_field_of T) (boost_split T '','' order')\<rparr>)"

definition page_option :: "string \<Rightarrow> options \<Rightarrow> options" where
  "page_option v p =
     (if v = ''last()'' \<or> v = ''last'' then p\<lparr>o_page := - 1\<rparr>
      else if v = ''all'' \<or> v = ''all()'' then p\<lparr>o_paginate := 999999999\<rparr>
      else p\<lparr>o_page := atoi (c_str v)\<rparr>)"

definition with_option :: "(string \<times> string) list \<Rightarrow> string \<Rightarrow> (string \<Rightarrow> options \<Rightarrow> options) \<Rightarrow> options \<Rightarrow> options" where
  "with_option opts name f p = (case map_of opts name of Some v \<Rightarrow> f v p | None \<Rightarrow> p)"

definition parse_options :: "text_lib \<Rightarrow> (string \<times> string) list \<Rightarrow> options" where
  "parse_options T opts =
     (with_option opts ''order'' (order_option T)
     (with_option opts ''filter'' (\<lambda>v p. p\<lparr>o_filter := True, o_filter_terms := words_of v\<rparr>)
     (with_option opts ''page'' page_option
     (with_option opts ''unique'' (\<lambda>v p. p\<lparr>o_unique := True, o_unique_fields := boost_split T '','' v\<rparr>)
     (with_option opts ''paginate'' (\<lambda>v p. p\<lparr>o_paginate := atoi (c_str v)\<rparr>)
     (with_option opts ''limit'' (\<lambda>v p. p\<lparr>o_paginate := atoi (c_str v)\<rparr>)
     (with_option opts ''groups'' (\<lambda>v p. p\<lparr>o_groups := atoi (c_str v)\<rparr>)
     (with_option opts ''skip'' (\<lambda>v p. p\<lparr>o_skip := atoi (c_str v)\<rparr>)
        options_default))))))))"

section \<open>Pagination\<close>

text \<open>
  The window of \<open>Response::query\<close>: \<open>skip_\<close>, \<open>paginate_\<close>, \<open>start\<close>, \<open>end\<close>.  All of it is \<open>int\<close>
  arithmetic, so an overflow is undefined; the quotients are rounded up in \<open>float\<close>.
\<close>

fun group_pages :: "int \<Rightarrow> int \<Rightarrow> nat \<Rightarrow> nat \<Rightarrow> int \<Rightarrow> int \<Rightarrow> (int \<times> int) outcome" where
  "group_pages sz groups j 0 skip paginate = Inr (skip, paginate)"
| "group_pages sz groups j (Suc n) skip paginate =
     ebind (if 0 < j then checked_int32 (skip + paginate) else Inr skip) (\<lambda>skip'.
     ebind (checked_int32 (sz - skip')) (\<lambda>rest.
     ebind (checked_int32 (groups - int j)) (\<lambda>left.
     ebind (ceil_float_div rest left) (\<lambda>paginate'.
       group_pages sz groups (Suc j) n skip' paginate'))))"

definition plain_pages :: "int \<Rightarrow> int \<Rightarrow> int \<Rightarrow> int \<Rightarrow> (int \<times> int) outcome" where
  "plain_pages sz page skip paginate =
     ebind (if page = - 1
            then ebind (checked_int32 (sz - skip)) (\<lambda>rest. ceil_float_div rest paginate)
            else Inr page) (\<lambda>page1.
     let page2 = (if page1 \<le> 0 then 1 else page1) in
     ebind (checked_int32 ((page2 - 1) * paginate)) (\<lambda>offset.
     ebind (checked_int32 (skip + offset)) (\<lambda>skip'. Inr (skip', paginate))))"

record window =
  w_skip :: int
  w_paginate :: int
  w_start :: int
  w_end :: int

definition page_window :: "options \<Rightarrow> int \<Rightarrow> window outcome" where
  "page_window p sz =
     ebind (if o_groups p \<noteq> 0
            then group_pages sz (o_groups p) 0 (nat (if o_page p \<le> 0 then 1 else o_page p)) (o_skip p) (o_paginate p)
            else plain_pages sz (o_page p) (o_skip p) (o_paginate p)) (\<lambda>(skip1, paginate1).
     let paginate2 = (if paginate1 < 1 then 1 else paginate1);
         skip2 = (if skip1 < 0 then 0 else skip1)
     in ebind (if o_sort_type p = SortNone
               then ebind (checked_int32 (paginate2 + skip2)) (\<lambda>upto.
                 Inr (skip2, if upto < sz then upto else sz))
               else Inr (0, sz)) (\<lambda>(start, stop).
        Inr \<lparr>w_skip = skip2, w_paginate = paginate2, w_start = start,
             w_end = (if stop > sz then sz else stop)\<rparr>))"

section \<open>Filtering and uniqueness\<close>

text \<open>\<open>filterMatchRecursive\<close>: the terms not yet found, after the text of the node's children and
  of their children.\<close>

fun filter_texts :: "xnode list \<Rightarrow> string list \<Rightarrow> string list" where
  "filter_texts [] terms = terms"
| "filter_texts (child # children) terms =
     filter_texts children
       (if xn_type child = TextNode then filter (\<lambda>t. \<not> containscase (xn_content child) t) terms else terms)"

fun filter_match_loop :: "dom \<Rightarrow> xnode list \<Rightarrow> string list \<Rightarrow> string list outcome" where
  "filter_match_loop d [] terms = Inr terms"
| "filter_match_loop d (child # children) terms =
     (case xn_type child of
        ElementNode \<Rightarrow> ebind (chain d (xn_children child)) (\<lambda>below.
          filter_match_loop d children (filter_texts (map snd below) terms))
      | TextNode \<Rightarrow> filter_match_loop d children (filter (\<lambda>t. \<not> containscase (xn_content child) t) terms)
      | OtherNode \<Rightarrow> filter_match_loop d children terms)"

definition filter_match :: "dom \<Rightarrow> string list \<Rightarrow> addr \<Rightarrow> bool outcome" where
  "filter_match d terms node =
     ebind (deref d (Some node)) (\<lambda>n. ebind (chain d (xn_children n)) (\<lambda>children.
     ebind (filter_match_loop d (map snd children) terms) (\<lambda>remaining. Inr (remaining = []))))"

fun unique_value :: "text_lib \<Rightarrow> xml_lib \<Rightarrow> ctxref \<Rightarrow> string list \<Rightarrow> string \<Rightarrow> (site, string) sm" where
  "unique_value T X r [] val = sret val"
| "unique_value T X r (f # fs) val =
     sbind (get_data T X r f) (\<lambda>d. unique_value T X r fs (val @ d @ ''~!~''))"

text \<open>\<open>uniqueMatch\<close>: whether the value is new, and the values found.\<close>

definition unique_match ::
  "text_lib \<Rightarrow> xml_lib \<Rightarrow> string list \<Rightarrow> addr \<Rightarrow> string list \<Rightarrow> (site, bool \<times> string list) sm" where
  "unique_match T X flds node found =
     sbind (sread (\<lambda>s. private_of s node)) (\<lambda>p.
     (case p of
        None \<Rightarrow> (case flds of [] \<Rightarrow> sret ([] \<notin> set found, if [] \<in> set found then found else [] # found)
                 | _ \<Rightarrow> sthrow (UB NullDeref))
      | Some r \<Rightarrow> sbind (unique_value T X r flds []) (\<lambda>val.
          sret (if val \<in> set found then (False, found) else (True, val # found)))))"

definition node_matches ::
  "text_lib \<Rightarrow> xml_lib \<Rightarrow> options \<Rightarrow> addr \<Rightarrow> string list \<Rightarrow> (site, bool \<times> string list) sm" where
  "node_matches T X p node found =
     sbind (if o_filter p then sread (\<lambda>s. filter_match (s_doc s) (o_filter_terms p) node) else sret True) (\<lambda>m.
       if \<not> m then sret (False, found)
       else if o_unique p then unique_match T X (o_unique_fields p) node found
       else sret (True, found))"

text \<open>The selecting loop over the results, with its counters.\<close>

record selection =
  sel_total :: int
  sel_skipped :: int
  sel_included :: int
  sel_contexts :: "ctxref list"
  sel_found :: "string list"

fun select_loop ::
  "text_lib \<Rightarrow> xml_lib \<Rightarrow> options \<Rightarrow> int \<Rightarrow> int \<Rightarrow> query \<Rightarrow> nat \<Rightarrow> nat \<Rightarrow> selection \<Rightarrow> (site, selection) sm" where
  "select_loop T X p start stop q i 0 sel = sret sel"
| "select_loop T X p start stop q i (Suc n) sel =
     sbind (sread (\<lambda>_. get_node q i)) (\<lambda>node.
     sbind (node_matches T X p node (sel_found sel)) (\<lambda>(m, found).
     sbind (if \<not> m then sret (sel\<lparr>sel_found := found\<rparr>)
            else
              let sel1 = sel\<lparr>sel_found := found, sel_total := sel_total sel + 1\<rparr> in
              if sel_skipped sel < start then sret (sel1\<lparr>sel_skipped := sel_skipped sel + 1\<rparr>)
              else if sel_included sel + sel_skipped sel < stop then
                sbind (sread (\<lambda>s. private_of s node)) (\<lambda>c. sret
                  (case c of
                     None \<Rightarrow> sel1
                   | Some r \<Rightarrow> sel1\<lparr>sel_contexts := sel_contexts sel @ [r],
                       sel_included := sel_included sel + 1\<rparr>))
              else sret sel1) (\<lambda>sel'.
       select_loop T X p start stop q (Suc i) n sel')))"

fun context_loop :: "query \<Rightarrow> nat \<Rightarrow> nat \<Rightarrow> (site, ctxref list) sm" where
  "context_loop q i 0 = sret []"
| "context_loop q i (Suc n) =
     sbind (sread (\<lambda>_. get_node q i)) (\<lambda>node.
     sbind (sread (\<lambda>s. private_of s node)) (\<lambda>c.
     sbind (context_loop q (Suc i) n) (\<lambda>rest.
       sret (case c of None \<Rightarrow> rest | Some r \<Rightarrow> r # rest))))"

section \<open>Sorting\<close>

fun sort_callback ::
  "text_lib \<Rightarrow> xml_lib \<Rightarrow> sort_lib \<Rightarrow> sort_field list \<Rightarrow> ctxref \<Rightarrow> ctxref \<Rightarrow> (site, bool) sm" where
  "sort_callback T X S [] lhs rhs = sret False"
| "sort_callback T X S (f # fs) lhs rhs =
     (let decide = (\<lambda>comp. sret (if sf_direction f = Desc then \<not> comp else comp)) in
      if sf_field f = ''id'' then
        sbind (get_id lhs) (\<lambda>l. sbind (get_id rhs) (\<lambda>r. decide (l < r)))
      else if sf_count f then
        sbind (get_count T X lhs (sf_field f)) (\<lambda>l. sbind (get_count T X rhs (sf_field f)) (\<lambda>r.
          if l = r then sort_callback T X S fs lhs rhs else decide (l < r)))
      else
        sbind (get_data T X lhs (sf_field f)) (\<lambda>l. sbind (get_data T X rhs (sf_field f)) (\<lambda>r.
          let icomp = str_compare_nat (isdigit_result S) (lexical_cast S) l r in
          if icomp = 0 then sort_callback T X S fs lhs rhs else decide (icomp > 0))))"

definition sort_contexts ::
  "text_lib \<Rightarrow> xml_lib \<Rightarrow> sort_lib \<Rightarrow> options \<Rightarrow> ctxref list \<Rightarrow> (site, ctxref list) sm" where
  "sort_contexts T X S p cs = (case o_sort_type p of
     SortNone \<Rightarrow> sret cs
   | SortReverse \<Rightarrow> sret (rev cs)
   | SortShuffle \<Rightarrow> sret (random_shuffle S cs)
   | SortSpecific \<Rightarrow> std_sort S (sort_callback T X S (o_sort_fields p)) cs)"

section \<open>The query\<close>

definition response_query ::
  "text_lib \<Rightarrow> xml_lib \<Rightarrow> sort_lib \<Rightarrow> options \<Rightarrow> ctxref option \<Rightarrow> string \<Rightarrow> (site, response_context) sm" where
  "response_query T X S p cx q =
     sbind (fetch_query T X (cx, q)) (\<lambda>p_query.
     let sz = get_size p_query in
     sbind (sread (\<lambda>_. page_window p sz)) (\<lambda>w.
     sbind (if o_filter p \<or> o_unique p then
              sbind (select_loop T X p (w_start w) (w_end w) p_query 0 (nat sz)
                \<lparr>sel_total = 0, sel_skipped = 0, sel_included = 0, sel_contexts = [], sel_found = []\<rparr>) (\<lambda>sel.
                sret (sel_contexts sel, sel_total sel))
            else
              sbind (context_loop p_query (nat (w_start w)) (nat (w_end w - w_start w))) (\<lambda>cs.
                sret (cs, sz))) (\<lambda>(cs, total).
     sbind (sort_contexts T X S p cs) (\<lambda>sorted.
       sret \<lparr>rc_contexts =
               (if o_sort_type p = SortNone then sorted
                else take (nat (w_paginate w)) (drop (nat (w_skip w)) sorted)),
             rc_total = total\<rparr>))))"

definition parent_contexts :: "response option \<Rightarrow> ctxref option list" where
  "parent_contexts parent = (case parent of
     None \<Rightarrow> [None]
   | Some r \<Rightarrow> map Some (concat (map rc_contexts (rs_contexts r))))"

definition response_new ::
  "text_lib \<Rightarrow> xml_lib \<Rightarrow> sort_lib \<Rightarrow> response option \<Rightarrow> string \<Rightarrow> (string \<times> string) list \<Rightarrow> (site, response) sm" where
  "response_new T X S parent q opts =
     sbind (smap (\<lambda>cx. response_query T X S (parse_options T opts) cx q) (parent_contexts parent)) (\<lambda>rcs.
       sret \<lparr>rs_contexts = rcs, rs_create_infos = []\<rparr>)"

section \<open>Paths for creating rows\<close>

fun structure_id_attrs :: "(string \<times> string option) list \<Rightarrow> int option \<Rightarrow> int option outcome" where
  "structure_id_attrs [] sid = Inr sid"
| "structure_id_attrs ((name, v) # attrs) sid =
     (if name = ''id'' then ebind (attr_text v) (\<lambda>t. structure_id_attrs attrs (Some (atoi t)))
      else structure_id_attrs attrs sid)"

definition create_info_for ::
  "text_lib \<Rightarrow> xml_lib \<Rightarrow> ctxref option \<Rightarrow> string \<Rightarrow> (site, create_info) sm" where
  "create_info_for T X cx query =
     (let query_parts = boost_split T ''/'' query in
      if query_parts = [] then sthrow (UB OutOfBounds)
      else
        let last_part = last query_parts;
            front = butlast query_parts;
            main_query = boost_join T ''/'' front
        in sbind (if main_query = [] \<and> last_part \<noteq> [] \<and> front \<noteq> [] then sret None
                  else if main_query \<noteq> [] then
                    sbind (fetch_query T X (cx, main_query)) (\<lambda>p_query.
                      if get_size p_query > 0 then
                        sbind (sread (\<lambda>_. get_node p_query 0)) (\<lambda>a. sread (\<lambda>s. private_of s a))
                      else sret cx)
                  else sret cx) (\<lambda>cx'.
           sbind (case cx' of Some r \<Rightarrow> get_id r | None \<Rightarrow> sret 0) (\<lambda>row_id.
           if atoi (c_str last_part) \<noteq> 0 then
             sthrow (VaeDbQueryError (''invalid path for creating: '' @ squote @ query @ squote))
           else
             sbind (sread (\<lambda>s. run_design_query X s cx' last_part)) (\<lambda>structure_query.
               if get_size structure_query > 0 then
                 sbind (sread (\<lambda>_. get_node structure_query 0)) (\<lambda>a.
                 sbind (node_of (Some a)) (\<lambda>n.
                 sbind (sread (\<lambda>_. structure_id_attrs (xn_props n) None)) (\<lambda>sid.
                   sret \<lparr>ci_structure_id = sid, ci_row_id = row_id\<rparr>)))
               else sthrow (VaeDbQueryError
                 (''could not find path for creating: '' @ squote @ query @ squote))))))"

definition response_create_info ::
  "text_lib \<Rightarrow> xml_lib \<Rightarrow> response option \<Rightarrow> string \<Rightarrow> (site, response) sm" where
  "response_create_info T X parent query =
     sbind (smap (\<lambda>cx. create_info_for T X cx query) (parent_contexts parent)) (\<lambda>cis.
       sret \<lparr>rs_contexts = [], rs_create_infos = cis\<rparr>)"

section \<open>JSON\<close>

definition contexts_to_json :: "ctxref list \<Rightarrow> (site, json) sm" where
  "contexts_to_json cs = sbind (smap context_to_json cs) (\<lambda>js. sret (JArray js))"

definition response_context_to_json :: "response_context \<Rightarrow> (site, json) sm" where
  "response_context_to_json rc =
     sbind (contexts_to_json (rc_contexts rc)) (\<lambda>cs.
       sret (init_json [jpair ''totalItems'' (JInt (rc_total rc)), jpair ''contexts'' cs]))"

definition create_info_to_json :: "create_info \<Rightarrow> json outcome" where
  "create_info_to_json ci = (case ci_structure_id ci of
     None \<Rightarrow> Inl (UB Uninitialised)
   | Some i \<Rightarrow> Inr (init_json [jpair ''structure_id'' (JInt i), jpair ''row_id'' (JInt (ci_row_id ci))]))"

definition structure_to_json :: "vae_structure \<Rightarrow> json" where
  "structure_to_json st =
     init_json [jpair ''id'' (JInt (st_id st)), jpair ''name'' (JString (st_name st)),
       jpair ''type'' (JString (st_type st)), jpair ''permalink'' (JString (st_permalink st))]"

definition response_get_json :: "response \<Rightarrow> (site, json) sm" where
  "response_get_json r =
     sbind (smap response_context_to_json (rs_contexts r)) (\<lambda>js.
       sret (init_json [jpair ''contexts'' (JArray js)]))"

definition response_get_create_info :: "response \<Rightarrow> json outcome" where
  "response_get_create_info r =
     ebind (emap create_info_to_json (rs_create_infos r)) (\<lambda>js. Inr (JArray js))"

definition response_get_data :: "response \<Rightarrow> (site, json) sm" where
  "response_get_data r =
     sbind (smap (\<lambda>c. sbind (get_data_map c) (\<lambda>d. sret (json_of_map d)))
        (concat (map rc_contexts (rs_contexts r)))) (\<lambda>js.
       sret (JArray js))"

definition response_get_structure :: "response \<Rightarrow> (site, json) sm" where
  "response_get_structure r =
     sbind (smap (\<lambda>c. sbind (get_structure c) (\<lambda>st. sret (structure_to_json st)))
        (concat (map rc_contexts (rs_contexts r)))) (\<lambda>js.
       sret (JArray js))"

section \<open>Pagination: lemmas\<close>

lemma plain_window:
  assumes "o_groups p = 0" and "o_sort_type p = SortNone" and "1 \<le> o_page p" and "1 \<le> o_paginate p"
    and "0 \<le> o_skip p" and "o_skip p + o_page p * o_paginate p \<le> int32_max"
  shows "page_window p sz = Inr \<lparr>w_skip = o_skip p + (o_page p - 1) * o_paginate p, w_paginate = o_paginate p,
    w_start = o_skip p + (o_page p - 1) * o_paginate p,
    w_end = min sz (o_skip p + o_page p * o_paginate p)\<rparr>"
proof -
  define k where "k = (o_page p - 1) * o_paginate p"
  have e: "o_page p * o_paginate p = k + o_paginate p" by (simp add: k_def algebra_simps)
  have n: "0 \<le> k" using assms(3,4) by (simp add: k_def)
  have i: "in_int32 k" "in_int32 (o_skip p + k)" "in_int32 (o_paginate p + (o_skip p + k))"
    using assms(4-6) n e unfolding int32_defs by linarith+
  have "0 \<le> o_skip p + k" using assms(5) n by simp
  then show ?thesis
    using assms(1-5) i n unfolding e k_def [symmetric]
    by (simp add: page_window_def plain_pages_def Let_def min_def k_def [symmetric])
qed

lemma ceil_div_bounds:
  assumes "(0::int) \<le> a" "0 < b"
  shows "0 \<le> - (- a div b)" "- (- a div b) \<le> a" "a \<le> - (- a div b) * b" "- (- a div b) * b < a + b"
proof -
  have h: "- a = b * (- a div b) + (- a) mod b" by (rule mult_div_mod_eq [symmetric])
  have "- (- a div b) * b = - (b * (- a div b))" by simp
  with h have m: "- (- a div b) * b = a + (- a) mod b" by linarith
  have r: "0 \<le> (- a) mod b" "(- a) mod b < b" using assms by simp_all
  show "a \<le> - (- a div b) * b" "- (- a div b) * b < a + b" unfolding m using r by simp_all
  have "- a div b \<le> 0" using assms by (simp add: div_nonpos_pos_le0)
  then show "0 \<le> - (- a div b)" by simp
  have "(- a) * b \<le> - a" using assms by (simp add: mult_le_cancel_left1)
  then have "(- a) * b div b \<le> - a div b" using assms by (intro zdiv_mono1)
  moreover have "(- a) * b div b = - a" using assms(2) by (intro nonzero_mult_div_cancel_right) simp
  ultimately show "- (- a div b) \<le> a" by linarith
qed

lemma last_page_window:
  assumes "o_groups p = 0" and "o_sort_type p = SortNone" and "o_page p = - 1" and "1 \<le> o_paginate p"
    and "0 \<le> o_skip p" and "o_skip p < sz" and "sz < 2 ^ 24" and "o_paginate p < 2 ^ 24"
  shows "\<exists>k. 0 \<le> k \<and> page_window p sz = Inr \<lparr>w_skip = o_skip p + k * o_paginate p, w_paginate = o_paginate p,
      w_start = o_skip p + k * o_paginate p, w_end = sz\<rparr> \<and>
    o_skip p + k * o_paginate p < sz \<and> sz \<le> o_skip p + k * o_paginate p + o_paginate p"
proof -
  define b where "b = o_paginate p"
  define a where "a = sz - o_skip p"
  define c where "c = - (- a div b)"
  have a: "0 < a" "a < 2 ^ 24" and b: "0 < b" "b < 2 ^ 24" using assms by (simp_all add: a_def b_def)
  have cq: "ceil_float_div a b = Inr c"
    using ceil_float_div_exact [of a b] a b by (simp add: c_def)
  have cb: "a \<le> c * b" "c * b < a + b"
    using ceil_div_bounds [of a b] a b by (simp_all add: c_def)
  have c1: "1 \<le> c" using cb(1) a(1) b(1) by (metis int_one_le_iff_zero_less zero_less_mult_pos2 order_less_le_trans)
  define k where "k = c - 1"
  have k: "0 \<le> k" using c1 by (simp add: k_def)
  have kb: "k * b = c * b - b" by (simp add: k_def algebra_simps)
  have kb0: "0 \<le> k * b" using k b by simp
  have s0: "0 \<le> o_skip p + k * b" using kb0 assms(5) by simp
  have edge: "o_skip p + k * b < sz" "sz \<le> o_skip p + k * b + b" "sz \<le> b + (o_skip p + k * b)"
    using kb cb by (simp_all add: a_def)
  have i: "in_int32 a" "in_int32 (k * b)" "in_int32 (o_skip p + k * b)" "in_int32 (b + (o_skip p + k * b))"
    using a b kb kb0 cb assms(5,6,7) unfolding int32_defs by (simp_all add: a_def)
  have "page_window p sz = Inr \<lparr>w_skip = o_skip p + k * b, w_paginate = b, w_start = o_skip p + k * b, w_end = sz\<rparr>"
    using assms(1-3) cq i b(1) c1 s0 edge
    by (simp add: page_window_def plain_pages_def Let_def a_def [symmetric] b_def [symmetric] k_def [symmetric])
  then show ?thesis using k edge unfolding b_def by (intro exI [of _ k]) simp
qed

text \<open>The groups: \<open>group_skip j\<close> is where page \<open>j\<close> (from 0) begins.\<close>

fun group_skip :: "int \<Rightarrow> int \<Rightarrow> int \<Rightarrow> nat \<Rightarrow> int" where
  "group_skip sz groups skip 0 = skip"
| "group_skip sz groups skip (Suc j) =
     (let s = group_skip sz groups skip j in s + - (- (sz - s) div (groups - int j)))"

lemma group_skip_bounds:
  assumes "0 \<le> skip" "skip \<le> sz" "int j \<le> groups"
  shows "skip \<le> group_skip sz groups skip j" "group_skip sz groups skip j \<le> sz"
  using assms
proof (induction j)
  case (Suc j)
  {
    case 1
    with Suc ceil_div_bounds [of "sz - group_skip sz groups skip j" "groups - int j"]
    show ?case by (simp add: Let_def)
  next
    case 2
    with Suc ceil_div_bounds [of "sz - group_skip sz groups skip j" "groups - int j"]
    show ?case by (simp add: Let_def)
  }
qed simp_all

lemma group_skip_all:
  assumes "0 \<le> skip" "skip \<le> sz"
  shows "group_skip sz (int (Suc j)) skip (Suc j) = sz"
  by (simp add: Let_def)

lemma group_skip_Suc:
  "group_skip sz groups skip (Suc j) - group_skip sz groups skip j =
     - (- (sz - group_skip sz groups skip j) div (groups - int j))"
  by (simp add: Let_def)

lemma group_pages_eq:
  assumes "0 \<le> skip" "skip \<le> sz" "sz < 2 ^ 24" "groups \<le> int32_max"
    and "int (j + Suc n) \<le> groups"
    and "0 < j \<longrightarrow> s + pag = group_skip sz groups skip j" and "j = 0 \<longrightarrow> s = skip"
  shows "group_pages sz groups j (Suc n) s pag =
    Inr (group_skip sz groups skip (j + n),
         group_skip sz groups skip (Suc (j + n)) - group_skip sz groups skip (j + n))"
  using assms(5-7)
proof (induction n arbitrary: j s pag)
  case (0 j s pag)
  define a where "a = group_skip sz groups skip j"
  have a: "skip \<le> a" "a \<le> sz" unfolding a_def using group_skip_bounds [OF assms(1,2)] 0(1) by simp_all
  have b: "0 < groups - int j" using 0(1) by simp
  have i: "in_int32 a" "in_int32 (sz - a)" "in_int32 (groups - int j)"
    using a b assms(1-4) unfolding int32_defs by auto
  have q: "ceil_float_div (sz - a) (groups - int j) = Inr (- (- (sz - a) div (groups - int j)))"
    using a b assms(1,3) by (intro ceil_float_div_exact) simp_all
  show ?case
    using 0 i q a_def by (cases "j = 0") (simp_all add: Let_def)
next
  case (Suc n j s pag)
  define a where "a = group_skip sz groups skip j"
  have a: "skip \<le> a" "a \<le> sz" unfolding a_def using group_skip_bounds [OF assms(1,2)] Suc(2) by simp_all
  have b: "0 < groups - int j" using Suc(2) by simp
  have i: "in_int32 a" "in_int32 (sz - a)" "in_int32 (groups - int j)"
    using a b assms(1-4) unfolding int32_defs by auto
  have q: "ceil_float_div (sz - a) (groups - int j) = Inr (- (- (sz - a) div (groups - int j)))"
    using a b assms(1,3) by (intro ceil_float_div_exact) simp_all
  have st: "group_pages sz groups j (Suc (Suc n)) s pag =
      group_pages sz groups (Suc j) (Suc n) a (- (- (sz - a) div (groups - int j)))"
    using Suc(3,4) i q a_def by (cases "j = 0") simp_all
  have "group_pages sz groups (Suc j) (Suc n) a (- (- (sz - a) div (groups - int j))) =
      Inr (group_skip sz groups skip (Suc j + n),
         group_skip sz groups skip (Suc (Suc j + n)) - group_skip sz groups skip (Suc j + n))"
    by (rule Suc.IH) (use Suc(2) in \<open>simp_all add: a_def Let_def\<close>)
  with st show ?case by simp
qed

lemma group_window:
  assumes "0 < o_groups p" "o_groups p \<le> int32_max" and "o_sort_type p = SortNone"
    and "1 \<le> o_page p" "o_page p \<le> o_groups p"
    and "0 \<le> o_skip p" "o_skip p \<le> sz" "sz < 2 ^ 24"
  shows "\<exists>w. page_window p sz = Inr w \<and>
    w_start w = group_skip sz (o_groups p) (o_skip p) (nat (o_page p) - 1) \<and>
    w_end w = group_skip sz (o_groups p) (o_skip p) (nat (o_page p))"
proof -
  define n where "n = nat (o_page p) - 1"
  have n: "nat (o_page p) = Suc n" "int (Suc n) \<le> o_groups p" using assms(4,5) by (simp_all add: n_def)
  define a where "a = group_skip sz (o_groups p) (o_skip p) n"
  define b where "b = group_skip sz (o_groups p) (o_skip p) (Suc n)"
  have a: "0 \<le> a" "a \<le> sz" and b: "b \<le> sz" "b - a = - (- (sz - a) div (o_groups p - int n))"
    unfolding a_def b_def
    using group_skip_bounds [OF assms(6,7), of n "o_groups p"] group_skip_bounds [OF assms(6,7), of "Suc n" "o_groups p"] n(2) assms(6)
    by (simp_all only: group_skip_Suc) simp_all
  have ba: "0 \<le> b - a" "sz - a \<le> (b - a) * (o_groups p - int n)"
    unfolding b(2) using ceil_div_bounds [of "sz - a" "o_groups p - int n"] a n(2) by simp_all
  have g: "group_pages sz (o_groups p) 0 (Suc n) (o_skip p) (o_paginate p) = Inr (a, b - a)"
    using group_pages_eq [OF assms(6,7,8,2), of 0 n "o_skip p" "o_paginate p"] n(2)
    by (simp add: a_def b_def del: group_skip.simps group_pages.simps)
  have pg: "(if o_page p \<le> 0 then 1 else o_page p) = o_page p" using assms(4) by simp
  show ?thesis
  proof (cases "b - a < 1")
    case True
    then have e: "b = a" using ba(1) by simp
    with ba(2) a have "a = sz" by simp
    moreover have "in_int32 (1 + a)" using a assms(8) unfolding int32_defs by auto
    ultimately show ?thesis
      using assms(1,3) g e a
      by (simp add: page_window_def pg n(1) Let_def a_def [symmetric] b_def [symmetric] del: group_skip.simps group_pages.simps)
  next
    case False
    moreover have "in_int32 (b - a + a)" using ba(1) a(1) b(1) assms(8) by (auto simp: int32_defs)
    ultimately show ?thesis
      using assms(1,3) g a b(1)
      by (simp add: page_window_def pg n(1) Let_def a_def [symmetric] b_def [symmetric] del: group_skip.simps group_pages.simps)
  qed
qed

section \<open>Filtering: lemmas\<close>

lemma filter_texts_eq:
  "filter_texts children terms = filter (\<lambda>t. \<not> (\<exists>child\<in>set children. xn_type child = TextNode \<and>
     containscase (xn_content child) t)) terms"
  by (induction children terms rule: filter_texts.induct) (auto intro!: filter_cong)

text \<open>The texts a filter looks at: those of the children and of the children's children.\<close>

definition filter_text :: "dom \<Rightarrow> xnode list \<Rightarrow> string \<Rightarrow> bool" where
  "filter_text d children x \<longleftrightarrow> (\<exists>child\<in>set children.
     (xn_type child = TextNode \<and> xn_content child = x) \<or>
     (xn_type child = ElementNode \<and> (\<exists>below. chain d (xn_children child) = Inr below \<and>
        (\<exists>y\<in>snd ` set below. xn_type y = TextNode \<and> xn_content y = x))))"

lemma filter_match_loop_eq:
  assumes "\<And>child. child \<in> set children \<Longrightarrow> xn_type child = ElementNode \<Longrightarrow>
    \<exists>below. chain d (xn_children child) = Inr below"
  shows "filter_match_loop d children terms =
    Inr (filter (\<lambda>t. \<not> (\<exists>x. filter_text d children x \<and> containscase x t)) terms)"
  using assms
proof (induction d children terms rule: filter_match_loop.induct)
  case (1 d terms)
  then show ?case by (simp add: filter_text_def)
next
  case (2 d child children terms)
  have rest: "\<And>c. c \<in> set children \<Longrightarrow> xn_type c = ElementNode \<Longrightarrow> \<exists>below. chain d (xn_children c) = Inr below"
    using "2.prems" by simp
  have ft: "filter_text d (child # children) x \<longleftrightarrow> filter_text d [child] x \<or> filter_text d children x" for x
    by (auto simp: filter_text_def)
  show ?case
  proof (cases "xn_type child")
    case ElementNode
    then obtain below where b: "chain d (xn_children child) = Inr below" using "2.prems" by auto
    have t: "filter_text d [child] x \<longleftrightarrow> (\<exists>y\<in>snd ` set below. xn_type y = TextNode \<and> xn_content y = x)" for x
      using ElementNode b by (auto simp: filter_text_def)
    show ?thesis
      using "2.IH"(1) [OF ElementNode b rest] ElementNode b
      by (auto simp: filter_texts_eq ft t intro!: filter_cong)
  next
    case TextNode
    have t: "filter_text d [child] x \<longleftrightarrow> xn_content child = x" for x
      using TextNode by (auto simp: filter_text_def)
    show ?thesis
      using "2.IH"(2) [OF TextNode rest] TextNode by (auto simp: ft t intro!: filter_cong)
  next
    case OtherNode
    have t: "\<not> filter_text d [child] x" for x using OtherNode by (auto simp: filter_text_def)
    show ?thesis using "2.IH"(3) [OF OtherNode rest] OtherNode by (simp add: ft t)
  qed
qed

section \<open>Properties\<close>

definition window_range :: "window outcome \<Rightarrow> nat list" where
  "window_range r = (case r of Inr w \<Rightarrow> [nat (w_start w) ..< nat (w_end w)] | Inl _ \<Rightarrow> [])"

text \<open>The last page: asking for page \<open>last()\<close> gives the window of the final page that is not
  empty, whole pages before it and at most one page of results in it; the division in \<open>float\<close> is
  exact for up to \<open>2 ^ 24\<close> results.\<close>

theorem last_page:
  assumes "o_groups p = 0" and "o_sort_type p = SortNone" and "o_page p = - 1"
    and "1 \<le> o_paginate p" "o_paginate p < 2 ^ 24" and "0 \<le> o_skip p" "o_skip p < sz" "sz < 2 ^ 24"
  shows "\<exists>k. 0 \<le> k \<and> window_range (page_window p sz) = [nat (o_skip p + k * o_paginate p) ..< nat sz] \<and>
    o_skip p + k * o_paginate p < sz \<and> sz \<le> o_skip p + (k + 1) * o_paginate p"
  using last_page_window [OF assms(1-4,6,7,8,5)]
  by (auto simp: window_range_def algebra_simps)

theorem last_page_witness:
  "\<exists>k. 0 \<le> k \<and> window_range (page_window (options_default\<lparr>o_paginate := 2, o_page := - 1\<rparr>) 5) = [nat (k * 2) ..< 5] \<and>
    k * 2 < 5 \<and> 5 \<le> (k + 1) * (2 :: int)"
  using last_page [of "options_default\<lparr>o_paginate := 2, o_page := - 1\<rparr>" 5]
  by (simp add: options_default_def)

text \<open>Groups partition the results: with the option \<open>groups\<close> the pages 1 to \<open>groups\<close> split the
  results after \<open>skip\<close> into that many consecutive runs, the last of which ends with the last
  result.\<close>

theorem groups_partition:
  assumes "0 < o_groups p" "o_groups p \<le> int32_max" and "o_sort_type p = SortNone"
    and "0 \<le> o_skip p" "o_skip p \<le> sz" "sz < 2 ^ 24"
  shows "concat (map (\<lambda>k. window_range (page_window (p\<lparr>o_page := int k\<rparr>) sz)) [1 ..< Suc (nat (o_groups p))]) =
    [nat (o_skip p) ..< nat sz]"
proof -
  define S where "S = group_skip sz (o_groups p) (o_skip p)"
  have up: "concat (map (\<lambda>k. window_range (page_window (p\<lparr>o_page := int k\<rparr>) sz)) [1 ..< Suc n]) =
      [nat (o_skip p) ..< nat (S n)]" if "int n \<le> o_groups p" for n
    using that
  proof (induction n)
    case 0
    then show ?case by (simp add: S_def)
  next
    case (Suc n)
    have "nat (1 + int n) = Suc n" by simp
    with group_window [of "p\<lparr>o_page := int (Suc n)\<rparr>" sz] assms Suc.prems
    have w: "window_range (page_window (p\<lparr>o_page := int (Suc n)\<rparr>) sz) = [nat (S n) ..< nat (S (Suc n))]"
      by (auto simp: window_range_def S_def simp del: group_skip.simps)
    have "0 \<le> - (- (sz - S n) div (o_groups p - int n))"
      using ceil_div_bounds(1) [of "sz - S n" "o_groups p - int n"] Suc.prems
        group_skip_bounds(2) [OF assms(4,5), of n "o_groups p"] by (simp add: S_def)
    then have le: "S n \<le> S (Suc n)" by (simp add: S_def Let_def)
    have "o_skip p \<le> S n"
      using group_skip_bounds(1) [OF assms(4,5), of n "o_groups p"] Suc.prems by (simp add: S_def)
    then have "[nat (o_skip p) ..< nat (S n)] @ [nat (S n) ..< nat (S (Suc n))] = [nat (o_skip p) ..< nat (S (Suc n))]"
      using le by (intro upt_join nat_mono)
    then show ?case using Suc w by (simp del: upt_Suc add: upt_Suc_append)
  qed
  obtain g where g: "nat (o_groups p) = Suc g" using assms(1) by (metis gr0_conv_Suc zero_less_nat_eq)
  then have "o_groups p = int (Suc g)" by simp
  then have "S (Suc g) = sz" using group_skip_all [OF assms(4,5), of g] by (simp add: S_def)
  then show ?thesis using up [of "nat (o_groups p)"] assms(1) g by simp
qed

theorem groups_partition_witness:
  "concat (map (\<lambda>k. window_range (page_window (options_default\<lparr>o_groups := 3, o_page := int k\<rparr>) 7)) [1, 2, 3]) =
    [0, 1, 2, 3, 4, 5, 6]"
proof -
  have "concat (map (\<lambda>k. window_range (page_window (options_default\<lparr>o_groups := 3, o_page := int k\<rparr>) 7)) [1 ..< Suc (nat 3)]) =
      [nat 0 ..< nat 7]"
    using groups_partition [of "options_default\<lparr>o_groups := 3\<rparr>" 7]
    by (simp add: options_default_def int32_max_def del: upt_Suc)
  then show ?thesis by (simp add: upt_rec)
qed

text \<open>When \<open>int\<close> overflows in the window of a page, for a query without groups: exactly when the
  first index behind the page, or for a sorted query the first index of it, is no \<open>int\<close>.\<close>

lemma page_window_overflow:
  assumes "o_groups p = 0" and "1 \<le> o_page p" and "1 \<le> o_paginate p" and "0 \<le> o_skip p" "o_skip p \<le> int32_max"
  shows "page_window p sz = Inl (UB SignedOverflow) \<longleftrightarrow>
    int32_max < o_skip p + (if o_sort_type p = SortNone then o_page p else o_page p - 1) * o_paginate p"
proof -
  define k where "k = (o_page p - 1) * o_paginate p"
  have e: "o_page p * o_paginate p = k + o_paginate p" by (simp add: k_def algebra_simps)
  have n: "0 \<le> k" using assms(2,3) by (simp add: k_def)
  have w: "page_window p sz = ebind (checked_int32 k) (\<lambda>off. ebind (checked_int32 (o_skip p + off)) (\<lambda>skip.
      ebind (if o_sort_type p = SortNone
             then ebind (checked_int32 (o_paginate p + skip)) (\<lambda>upto. Inr (skip, if upto < sz then upto else sz))
             else Inr (0, sz)) (\<lambda>(start, stop).
        Inr \<lparr>w_skip = skip, w_paginate = o_paginate p, w_start = start, w_end = (if stop > sz then sz else stop)\<rparr>)))"
    using assms n unfolding page_window_def plain_pages_def Let_def
    by (simp add: k_def [symmetric] checked_int32_def)
  show ?thesis
    unfolding w using assms(3-5) n e by (auto simp: checked_int32_def int32_defs k_def [symmetric])
qed



text \<open>(C31) A node matches a filter exactly when every term occurs, in any case, in the text of a
  child or grandchild of the node; the children are walked without running into a cycle.\<close>

theorem filter_match_iff:
  assumes "node_at_addr d node = Some n" and "chain_path d (xn_children n) children"
    and "\<forall>c\<in>snd ` set children. xn_type c = ElementNode \<longrightarrow> (\<exists>below. chain_path d (xn_children c) below)"
  shows "filter_match d terms node =
    Inr (\<forall>t\<in>set terms. \<exists>x. filter_text d (map snd children) x \<and> containscase x t)"
proof -
  have "chain d (xn_children n) = Inr children" using assms(2) by (simp add: chain_eq_Inr_iff)
  moreover have "filter_match_loop d (map snd children) terms =
      Inr (filter (\<lambda>t. \<not> (\<exists>x. filter_text d (map snd children) x \<and> containscase x t)) terms)"
    by (rule filter_match_loop_eq) (use assms(3) in \<open>auto simp: chain_eq_Inr_iff\<close>)
  ultimately show ?thesis
    using assms(1) by (auto simp: filter_match_def filter_empty_conv)
qed

theorem filter_match_iff_witness:
  "filter_match demo_dom [''hell''] 0 = Inr True"
proof -
  define children where "children = [(1 :: addr, plain_node ElementNode ''name'' [] (Some 2))]"
  define below where "below = [(2 :: addr, plain_node TextNode ''text'' ''Hello'' None)]"
  have n: "node_at_addr demo_dom 0 = Some (plain_node ElementNode ''artist'' [] (Some 1))"
    by (simp add: demo_dom_def node_at_addr_def)
  have c: "chain_path demo_dom (xn_children (plain_node ElementNode ''artist'' [] (Some 1))) children"
    and b: "chain demo_dom (Some 2) = Inr below"
    unfolding chain_eq_Inr_iff [symmetric] children_def below_def by code_simp+
  have bp: "\<forall>c\<in>snd ` set children. xn_type c = ElementNode \<longrightarrow> (\<exists>below. chain_path demo_dom (xn_children c) below)"
    using b by (auto simp: children_def plain_node_def chain_eq_Inr_iff)
  have "filter_text demo_dom (map snd children) ''Hello''"
    using b by (auto simp: filter_text_def children_def below_def plain_node_def)
  moreover have "containscase ''Hello'' ''hell''" by code_simp
  ultimately show ?thesis
    using filter_match_iff [OF n c bp, of "[''hell'']"] by auto
qed

end
