(* ===== verification/Session.thy ===== *)
theory Session
  imports Response
begin

text \<open>
  \<^verbatim>\<open>src/session.cpp\<close>: a session numbers the responses it has given, from 1, so that a later
  request can query below one of them.  The operations are steps on the session's site.
\<close>

record session =
  se_created_at :: int
  se_responses :: "response list"
  se_site :: nat

definition session_new :: "nat \<Rightarrow> int \<Rightarrow> session" where
  "session_new site_ref now = \<lparr>se_created_at = now, se_responses = [], se_site = site_ref\<rparr>"

text \<open>\<open>responses.size() >= responseId\<close> compares unsigned, so a negative id is above any size; the
  index \<open>responseId - 1\<close> wraps around for 0.\<close>

definition response_known :: "session \<Rightarrow> int \<Rightarrow> bool" where
  "response_known se response_id \<longleftrightarrow> uint (word_of_int response_id :: 64 word) \<le> int (length (se_responses se))"

definition response_at :: "session \<Rightarrow> int \<Rightarrow> response outcome" where
  "response_at se response_id =
     (let i = unat (word_of_int (response_id - 1) :: 64 word)
      in if i < length (se_responses se) then Inr (se_responses se ! i) else Inl (UB OutOfBounds))"

definition session_parent :: "session \<Rightarrow> int \<Rightarrow> response option outcome" where
  "session_parent se response_id =
     (if response_id \<noteq> 0 then
        (if response_known se response_id then ebind (response_at se response_id) (\<lambda>r. Inr (Some r))
         else Inl (VaeDbInternalError ''Invalid responseId''))
      else Inr None)"

definition session_response :: "session \<Rightarrow> int \<Rightarrow> response outcome" where
  "session_response se response_id =
     (if response_known se response_id then response_at se response_id
      else Inl (VaeDbInternalError ''Invalid responseId''))"

definition session_create_info ::
  "text_lib \<Rightarrow> xml_lib \<Rightarrow> session \<Rightarrow> int \<Rightarrow> string \<Rightarrow> (site, json) sm" where
  "session_create_info T X se response_id query =
     sbind (sread (\<lambda>_. session_parent se response_id)) (\<lambda>parent.
     sbind (response_create_info T X parent query) (\<lambda>response.
       sread (\<lambda>_. response_get_create_info response)))"

definition session_data :: "session \<Rightarrow> int \<Rightarrow> (site, json) sm" where
  "session_data se response_id =
     sbind (sread (\<lambda>_. session_response se response_id)) response_get_data"

definition session_structure :: "session \<Rightarrow> int \<Rightarrow> (site, json) sm" where
  "session_structure se response_id =
     sbind (sread (\<lambda>_. session_response se response_id)) response_get_structure"

text \<open>\<open>get\<close> keeps the response only when its JSON has been made; the session is returned.\<close>

definition session_get ::
  "text_lib \<Rightarrow> xml_lib \<Rightarrow> sort_lib \<Rightarrow> session \<Rightarrow> int \<Rightarrow> string \<Rightarrow> (string \<times> string) list
     \<Rightarrow> (site, json \<times> session) sm" where
  "session_get T X S se response_id query opts =
     sbind (sread (\<lambda>_. session_parent se response_id)) (\<lambda>parent.
     sbind (response_new T X S parent query opts) (\<lambda>response.
     sbind (response_get_json response) (\<lambda>res.
     sbind (sread (\<lambda>_. json_set ''id'' (JUnsigned (int (length (se_responses se)) + 1)) res)) (\<lambda>res'.
       sret (res', se\<lparr>se_responses := se_responses se @ [response]\<rparr>)))))"

lemma uint_word_of_int64: "0 \<le> i \<Longrightarrow> i < 2 ^ 64 \<Longrightarrow> uint (word_of_int i :: 64 word) = i"
  by (simp add: uint_word_of_int_eq take_bit_int_eq_self)

lemma uint_word_of_int64_neg:
  assumes "in_int32 i" "i < 0"
  shows "uint (word_of_int i :: 64 word) = i + 2 ^ 64"
proof -
  have "(word_of_int i :: 64 word) = word_of_int (i + 2 ^ 64)"
    by (rule word_of_int_eq_iff [THEN iffD2]) (simp add: take_bit_eq_mod)
  moreover have "uint (word_of_int (i + 2 ^ 64) :: 64 word) = i + 2 ^ 64"
    using assms by (intro uint_word_of_int64) (simp_all add: int32_defs)
  ultimately show ?thesis by (simp only:)
qed

text \<open>What the comparison and the index come to, for the sizes a vector can have.\<close>

lemma response_known_iff:
  assumes "in_int32 i" and "length (se_responses se) < 2 ^ 62"
  shows "response_known se i \<longleftrightarrow> 0 \<le> i \<and> i \<le> int (length (se_responses se))"
proof (cases "0 \<le> i")
  case True
  then show ?thesis using assms(1) by (simp add: response_known_def uint_word_of_int64 int32_defs)
next
  case False
  then have "int (length (se_responses se)) < i + 2 ^ 64"
    using assms by (simp add: int32_defs)
  with False show ?thesis
    using uint_word_of_int64_neg [OF assms(1)] by (simp add: response_known_def)
qed

lemma response_at_eq:
  assumes "1 \<le> i" and "in_int32 i"
  shows "response_at se i = (if nat (i - 1) < length (se_responses se)
    then Inr (se_responses se ! nat (i - 1)) else Inl (UB OutOfBounds))"
proof -
  have "unat (word_of_int (i - 1) :: 64 word) = nat (i - 1)"
    using assms uint_word_of_int64 [of "i - 1"] by (simp add: unat_eq_nat_uint int32_defs)
  then show ?thesis by (simp add: response_at_def Let_def)
qed

lemma response_at_0:
  assumes "length (se_responses se) < 2 ^ 62"
  shows "response_at se 0 = Inl (UB OutOfBounds)"
proof -
  have "unat (word_of_int (0 - 1) :: 64 word) = 2 ^ 64 - 1"
    by (simp add: unsigned_minus_1_eq_mask mask_eq_exp_minus_1)
  with assms show ?thesis by (simp add: response_at_def)
qed

lemma session_response_eq:
  assumes "in_int32 i" and "length (se_responses se) < 2 ^ 62"
  shows "session_response se i =
    (if i < 0 \<or> int (length (se_responses se)) < i then Inl (VaeDbInternalError ''Invalid responseId'')
     else if i = 0 then Inl (UB OutOfBounds)
     else Inr (se_responses se ! nat (i - 1)))"
  using response_known_iff [OF assms] response_at_0 [OF assms(2)] response_at_eq [OF _ assms(1), of se]
  by (auto simp: session_response_def)

lemma session_parent_eq:
  assumes "in_int32 i" and "length (se_responses se) < 2 ^ 62"
  shows "session_parent se i =
    (if i = 0 then Inr None
     else if i < 0 \<or> int (length (se_responses se)) < i then Inl (VaeDbInternalError ''Invalid responseId'')
     else Inr (Some (se_responses se ! nat (i - 1))))"
  using session_response_eq [OF assms]
  by (auto simp: session_parent_def session_response_def split: if_splits)

end
