(* ===== verification/Pool.thy ===== *)
theory Pool
  imports Prelude
begin

text \<open>
  The connection pools of \<^verbatim>\<open>src/memcache_proxy.cpp\<close> and \<^verbatim>\<open>src/mysql_proxy.cpp\<close>.  The two
  classes carry the same code over different connection types, so the pool is polymorphic in
  the connection pointer; \<^verbatim>\<open>MysqlProxy.thy\<close> and \<^verbatim>\<open>MemcacheProxy.thy\<close> instantiate it.  A pool is
  a \<open>std::map\<close> from connections to a status, here the list of its entries in iteration order.
  The first part has the operations, the second the threads that share a pool through its
  mutex and condition variable.
\<close>

section \<open>Operations\<close>

datatype pool_status = POOL_FREE | POOL_INUSE

record 'c pool =
  conn_pool :: "('c \<times> pool_status) list"
  available_connections :: int

text \<open>Construction: a quarter of the workers, at least one; connections that could not be
  opened (\<open>NULL\<close>) are left out.  \<open>created\<close> holds the results of \<open>createConnection\<close> in order.\<close>

definition pool_size :: "int \<Rightarrow> nat" where
  "pool_size workers =
     (let n = (if 0 \<le> workers then workers div 4 else - ((- workers) div 4))
      in nat (if n < 1 then 1 else n))"

fun pool_fill :: "'c option list \<Rightarrow> 'c pool \<Rightarrow> 'c pool" where
  "pool_fill [] p = p"
| "pool_fill (None # cs) p = pool_fill cs p"
| "pool_fill (Some c # cs) p =
     pool_fill cs \<lparr>conn_pool = (if c \<in> fst ` set (conn_pool p)
          then map (\<lambda>e. if fst e = c then (c, POOL_FREE) else e) (conn_pool p)
          else conn_pool p @ [(c, POOL_FREE)]),
        available_connections = available_connections p + 1\<rparr>"

definition pool_new :: "'c option list \<Rightarrow> int \<Rightarrow> 'c pool" where
  "pool_new created workers =
     pool_fill (take (pool_size workers) created) \<lparr>conn_pool = [], available_connections = 0\<rparr>"

text \<open>\<open>getConnection\<close>: it waits while nothing is available, then takes the first free entry;
  if there is none it throws.\<close>

datatype 'c acquired = Waits | Throws | Gets 'c "'c pool"

fun take_free :: "('c \<times> pool_status) list \<Rightarrow> ('c \<times> ('c \<times> pool_status) list) option" where
  "take_free [] = None"
| "take_free ((c, st) # es) =
     (if st = POOL_FREE then Some (c, (c, POOL_INUSE) # es)
      else map_option (\<lambda>(c', es'). (c', (c, st) # es')) (take_free es))"

definition get_connection :: "'c pool \<Rightarrow> 'c acquired" where
  "get_connection p =
     (if available_connections p = 0 then Waits
      else (case take_free (conn_pool p) of
              Some (c, es) \<Rightarrow> Gets c (p\<lparr>conn_pool := es,
                 available_connections := available_connections p - 1\<rparr>)
            | None \<Rightarrow> Throws))"

definition free_connection :: "'c \<Rightarrow> 'c pool \<Rightarrow> 'c pool" where
  "free_connection con p =
     p\<lparr>conn_pool := map (\<lambda>e. if fst e = con then (fst e, POOL_FREE) else e) (conn_pool p),
       available_connections := available_connections p
         + int (length (filter (\<lambda>e. fst e = con) (conn_pool p)))\<rparr>"

section \<open>The pool invariant\<close>

text \<open>The counter counts the free entries, and no connection is listed twice.\<close>

definition free_count :: "('c \<times> pool_status) list \<Rightarrow> nat" where
  "free_count es = length (filter (\<lambda>e. snd e = POOL_FREE) es)"

definition pool_inv :: "'c pool \<Rightarrow> bool" where
  "pool_inv p \<longleftrightarrow> distinct (map fst (conn_pool p)) \<and>
     available_connections p = int (free_count (conn_pool p))"

definition in_use :: "'c pool \<Rightarrow> 'c set" where
  "in_use p = {c. (c, POOL_INUSE) \<in> set (conn_pool p)}"

definition conns :: "'c pool \<Rightarrow> 'c set" where
  "conns p = fst ` set (conn_pool p)"

lemma free_count_simps [simp]:
  "free_count [] = 0"
  "free_count (e # es) = (if snd e = POOL_FREE then Suc (free_count es) else free_count es)"
  "free_count (es @ fs) = free_count es + free_count fs"
  by (simp_all add: free_count_def)

lemma take_free_spec:
  "take_free es = Some (c, es') \<Longrightarrow>
     map fst es' = map fst es \<and> (c, POOL_FREE) \<in> set es \<and> free_count es = Suc (free_count es') \<and>
     (distinct (map fst es) \<longrightarrow> set es' = insert (c, POOL_INUSE) (set es - {(c, POOL_FREE)}))"
proof (induction es arbitrary: c es')
  case (Cons e es)
  obtain d st where e: "e = (d, st)" by (cases e)
  show ?case
  proof (cases "st = POOL_FREE")
    case True
    with Cons.prems e show ?thesis by force
  next
    case False
    with Cons.prems e obtain es'' where t: "take_free es = Some (c, es'')"
      and es': "es' = (d, st) # es''" by auto
    from Cons.IH [OF t] False e es' show ?thesis by auto
  qed
qed simp

lemma take_free_None: "take_free es = None \<longleftrightarrow> free_count es = 0"
  by (induction es rule: take_free.induct) auto

lemma get_connection_Gets:
  assumes "pool_inv p" and "get_connection p = Gets c q"
  shows "pool_inv q" and "c \<in> conns p" and "c \<notin> in_use p" and "in_use q = insert c (in_use p)"
    and "conns q = conns p" and "available_connections q = available_connections p - 1"
    and "0 < available_connections p"
proof -
  from assms(2) obtain es where t: "take_free (conn_pool p) = Some (c, es)"
    and q: "q = p\<lparr>conn_pool := es, available_connections := available_connections p - 1\<rparr>"
    and av: "available_connections p \<noteq> 0"
    by (auto simp: get_connection_def split: if_splits option.splits)
  from assms(1) have d: "distinct (map fst (conn_pool p))"
    and a: "available_connections p = int (free_count (conn_pool p))"
    by (simp_all only: pool_inv_def)
  note sp = take_free_spec [OF t]
  show "pool_inv q" using sp d a by (simp add: q pool_inv_def)
  show "c \<in> conns p" using sp by (force simp: conns_def)
  show "c \<notin> in_use p"
    using sp d eq_key_imp_eq_value [OF d, of c POOL_FREE POOL_INUSE] by (auto simp: in_use_def)
  show "in_use q = insert c (in_use p)" using sp d by (auto simp: q in_use_def)
  have "set (map fst es) = set (map fst (conn_pool p))" using sp by metis
  then show "conns q = conns p" by (simp add: q conns_def)
  show "available_connections q = available_connections p - 1" by (simp add: q)
  show "0 < available_connections p" using a av by simp
qed

text \<open>Under the invariant, the "should never get here" exception is not thrown.\<close>

lemma get_connection_not_Throws: "pool_inv p \<Longrightarrow> get_connection p \<noteq> Throws"
  by (auto simp: get_connection_def pool_inv_def take_free_None split: option.splits)

lemma get_connection_Waits: "get_connection p = Waits \<longleftrightarrow> available_connections p = 0"
  by (auto simp: get_connection_def split: option.splits)

lemma free_count_update:
  assumes "distinct (map fst es)" and "(c, POOL_INUSE) \<in> set es"
  shows "free_count (map (\<lambda>e. if fst e = c then (fst e, POOL_FREE) else e) es) = Suc (free_count es)"
  using assms
proof (induction es)
  case (Cons e es)
  show ?case
  proof (cases "fst e = c")
    case True
    with Cons.prems(1) have new: "c \<notin> fst ` set es" by auto
    with Cons.prems(2) have e: "e = (c, POOL_INUSE)" by force
    from new have "map (\<lambda>e. if fst e = c then (fst e, POOL_FREE) else e) es = es"
      by (intro map_idI) force
    with e show ?thesis by simp
  next
    case False
    with Cons show ?thesis by auto
  qed
qed simp

lemma length_filter_key:
  "distinct (map fst es) \<Longrightarrow> c \<in> fst ` set es \<Longrightarrow> length (filter (\<lambda>e. fst e = c) es) = 1"
proof (induction es)
  case (Cons e es)
  then show ?case
    by (cases "fst e = c") (auto simp: filter_empty_conv image_iff)
qed simp

lemma free_connection_spec:
  assumes "pool_inv p" and "c \<in> in_use p"
  shows "pool_inv (free_connection c p)" and "in_use (free_connection c p) = in_use p - {c}"
    and "conns (free_connection c p) = conns p"
    and "available_connections (free_connection c p) = available_connections p + 1"
proof -
  from assms have d: "distinct (map fst (conn_pool p))" and u: "(c, POOL_INUSE) \<in> set (conn_pool p)"
    and a: "available_connections p = int (free_count (conn_pool p))"
    by (simp_all only: pool_inv_def in_use_def mem_Collect_eq)
  have one: "length (filter (\<lambda>e. fst e = c) (conn_pool p)) = 1"
    using d u by (intro length_filter_key) force+
  have keys: "map fst (map (\<lambda>e. if fst e = c then (fst e, POOL_FREE) else e) (conn_pool p))
      = map fst (conn_pool p)" by simp
  show "available_connections (free_connection c p) = available_connections p + 1"
    using one by (simp add: free_connection_def)
  show "pool_inv (free_connection c p)"
    using d a one free_count_update [OF d u] keys
    by (simp add: free_connection_def pool_inv_def del: map_map)
  show "in_use (free_connection c p) = in_use p - {c}"
    by (auto simp: free_connection_def in_use_def split: if_splits)
  show "conns (free_connection c p) = conns p"
  proof -
    have "conn_pool (free_connection c p)
        = map (\<lambda>e. if fst e = c then (fst e, POOL_FREE) else e) (conn_pool p)"
      by (simp add: free_connection_def)
    then have "conns (free_connection c p) = set (map fst (conn_pool p))"
      by (simp only: conns_def set_map [symmetric] keys)
    then show ?thesis by (simp add: conns_def)
  qed
qed

lemma pool_fill_inv:
  assumes "pool_inv p" and "distinct (map the (filter (\<lambda>c. c \<noteq> None) cs))"
    and "\<forall>c. Some c \<in> set cs \<longrightarrow> c \<notin> conns p" and "in_use p = {}"
  shows "pool_inv (pool_fill cs p) \<and> in_use (pool_fill cs p) = {} \<and>
    conns (pool_fill cs p) = conns p \<union> {c. Some c \<in> set cs}"
  using assms
proof (induction cs p rule: pool_fill.induct)
  case (3 c cs p)
  let ?q = "\<lparr>conn_pool = conn_pool p @ [(c, POOL_FREE)],
        available_connections = available_connections p + 1\<rparr>"
  have new: "c \<notin> fst ` set (conn_pool p)" using "3.prems"(3) by (simp add: conns_def)
  have "pool_inv ?q" using "3.prems"(1) new by (auto simp: pool_inv_def)
  moreover have "in_use ?q = {}" using "3.prems"(4) by (auto simp: in_use_def)
  moreover have cq: "conns ?q = insert c (conns p)" by (auto simp: conns_def)
  moreover have "c' \<noteq> c" if "Some c' \<in> set cs" for c'
    using "3.prems"(2) that by (force simp: image_iff)
  then have "\<forall>c'. Some c' \<in> set cs \<longrightarrow> c' \<notin> conns ?q"
    using "3.prems"(3) cq by auto
  ultimately show ?case using "3.IH" "3.prems"(2) new by auto
qed auto

section \<open>Threads sharing a pool\<close>

text \<open>
  A thread is idle, waits on the condition variable, has been woken (it must re-check the
  counter), holds a connection, or has failed with the exception.  Each step is one critical
  section of the pool's mutex.  \<open>notify_one\<close> wakes one waiting thread, if there is one; a
  waiting thread may also wake up spuriously.
\<close>

datatype 'c thread = Idle | Waiting | Woken | Holding 'c | Failed

record 'c pool_sys =
  sys_pool :: "'c pool"
  sys_thread :: "nat \<Rightarrow> 'c thread"

inductive pool_step :: "'c pool_sys \<Rightarrow> 'c pool_sys \<Rightarrow> bool" where
  acquire: "sys_thread s t \<in> {Idle, Woken} \<Longrightarrow> get_connection (sys_pool s) = Gets c p \<Longrightarrow>
     pool_step s (s\<lparr>sys_pool := p, sys_thread := (sys_thread s)(t := Holding c)\<rparr>)"
| wait: "sys_thread s t \<in> {Idle, Woken} \<Longrightarrow> get_connection (sys_pool s) = Waits \<Longrightarrow>
     pool_step s (s\<lparr>sys_thread := (sys_thread s)(t := Waiting)\<rparr>)"
| fail: "sys_thread s t \<in> {Idle, Woken} \<Longrightarrow> get_connection (sys_pool s) = Throws \<Longrightarrow>
     pool_step s (s\<lparr>sys_thread := (sys_thread s)(t := Failed)\<rparr>)"
| spurious: "sys_thread s t = Waiting \<Longrightarrow>
     pool_step s (s\<lparr>sys_thread := (sys_thread s)(t := Woken)\<rparr>)"
| release_notify: "sys_thread s t = Holding c \<Longrightarrow> sys_thread s w = Waiting \<Longrightarrow>
     pool_step s (s\<lparr>sys_pool := free_connection c (sys_pool s),
       sys_thread := (sys_thread s)(t := Idle, w := Woken)\<rparr>)"
| release: "sys_thread s t = Holding c \<Longrightarrow> \<forall>w. sys_thread s w \<noteq> Waiting \<Longrightarrow>
     pool_step s (s\<lparr>sys_pool := free_connection c (sys_pool s),
       sys_thread := (sys_thread s)(t := Idle)\<rparr>)"

inductive_cases pool_stepE: "pool_step s s'"

inductive pool_reachable :: "'c pool_sys \<Rightarrow> 'c pool_sys \<Rightarrow> bool" for s0 where
  start: "pool_reachable s0 s0"
| step: "pool_reachable s0 s \<Longrightarrow> pool_step s s' \<Longrightarrow> pool_reachable s0 s'"

definition pool_start :: "'c option list \<Rightarrow> int \<Rightarrow> 'c pool_sys" where
  "pool_start created workers =
     \<lparr>sys_pool = pool_new created workers, sys_thread = (\<lambda>_. Idle)\<rparr>"

text \<open>
  The invariant: the pool's own; the connections in use are exactly those held, each by one
  thread; nobody has failed; and wake-ups are not lost: as long as a thread waits, at least as
  many threads are woken as connections are available.
\<close>

definition woken :: "'c pool_sys \<Rightarrow> nat set" where
  "woken s = {t. sys_thread s t = Woken}"

definition sys_inv :: "'c pool_sys \<Rightarrow> bool" where
  "sys_inv s \<longleftrightarrow> pool_inv (sys_pool s) \<and>
     (\<forall>c. c \<in> in_use (sys_pool s) \<longleftrightarrow> (\<exists>t. sys_thread s t = Holding c)) \<and>
     (\<forall>t u c. sys_thread s t = Holding c \<longrightarrow> sys_thread s u = Holding c \<longrightarrow> t = u) \<and>
     (\<forall>t. sys_thread s t \<noteq> Failed) \<and>
     finite (woken s) \<and>
     ((\<exists>t. sys_thread s t = Waiting) \<longrightarrow>
        available_connections (sys_pool s) \<le> int (card (woken s)))"

lemma woken_simps [simp]:
  "woken (s\<lparr>sys_thread := f\<rparr>) = {t. f t = Woken}"
  "woken (s\<lparr>sys_pool := p, sys_thread := f\<rparr>) = {t. f t = Woken}"
  by (simp_all add: woken_def)

lemma woken_upd:
  "{t. (f(u := x)) t = Woken} = (if x = Woken then insert u {t. f t = Woken}
     else {t. f t = Woken} - {u})"
  by auto

lemma finite_woken_upd:
  "finite {t. f t = Woken} \<Longrightarrow> finite {t. (f(u := x)) t = Woken}"
  by (simp only: woken_upd) simp

lemma card_woken_upd:
  "finite {t. f t = Woken} \<Longrightarrow> f u \<noteq> Woken \<or> x = Woken \<Longrightarrow>
     card {t. f t = Woken} \<le> card {t. (f(u := x)) t = Woken}"
  by (rule card_mono [OF finite_woken_upd]) auto

text \<open>Moving a thread between the states without a connection changes no holder.\<close>

lemma sys_inv_thread:
  assumes inv: "sys_inv s" and t: "sys_thread s t \<in> {Idle, Waiting, Woken}"
    and x: "x \<in> {Idle, Waiting, Woken}"
    and ok: "\<And>w. ((sys_thread s)(t := x)) w = Waiting \<Longrightarrow>
       available_connections (sys_pool s) \<le> int (card {u. ((sys_thread s)(t := x)) u = Woken})"
  shows "sys_inv (s\<lparr>sys_thread := (sys_thread s)(t := x)\<rparr>)"
proof -
  have hold: "((sys_thread s)(t := x)) u = Holding d \<longleftrightarrow> sys_thread s u = Holding d" for u d
    using t x by auto
  have fail: "((sys_thread s)(t := x)) u \<noteq> Failed" for u
    using inv x by (auto simp: sys_inv_def)
  have fin: "finite {u. ((sys_thread s)(t := x)) u = Woken}"
    using inv by (intro finite_woken_upd) (simp add: sys_inv_def woken_def)
  show ?thesis
    using inv fail fin ok hold unfolding sys_inv_def by (simp del: fun_upd_apply) blast
qed

lemma sys_inv_acquire:
  assumes inv: "sys_inv s" and t: "sys_thread s t \<in> {Idle, Woken}"
    and g: "get_connection (sys_pool s) = Gets c p"
  shows "sys_inv (s\<lparr>sys_pool := p, sys_thread := (sys_thread s)(t := Holding c)\<rparr>)"
proof -
  from inv have pi: "pool_inv (sys_pool s)" by (simp add: sys_inv_def)
  note gs = get_connection_Gets [OF pi g]
  have hold: "((sys_thread s)(t := Holding c)) u = Holding d
      \<longleftrightarrow> u = t \<and> c = d \<or> sys_thread s u = Holding d" for u d
    using t by auto
  have fin: "finite {u. sys_thread s u = Woken}" using inv by (simp add: sys_inv_def woken_def)
  have card: "available_connections p \<le> int (card {u. ((sys_thread s)(t := Holding c)) u = Woken})"
    if "((sys_thread s)(t := Holding c)) w = Waiting" for w
  proof -
    from that have "sys_thread s w = Waiting" by (auto split: if_splits)
    with inv have "available_connections (sys_pool s) \<le> int (card {u. sys_thread s u = Woken})"
      by (auto simp: sys_inv_def woken_def)
    moreover have "card {u. sys_thread s u = Woken} \<le> Suc (card ({u. sys_thread s u = Woken} - {t}))"
      using fin by (auto simp: card_Diff_singleton_if)
    ultimately show ?thesis using gs(6) by (simp only: woken_upd) simp
  qed
  have fin': "finite {u. ((sys_thread s)(t := Holding c)) u = Woken}"
    by (rule finite_woken_upd [OF fin])
  have fail: "((sys_thread s)(t := Holding c)) u \<noteq> Failed" for u
    using inv by (auto simp: sys_inv_def)
  have uniq: "u = v" if "u = t \<and> c = d \<or> sys_thread s u = Holding d"
    "v = t \<and> c = d \<or> sys_thread s v = Holding d" for u v d
    using that inv gs(3) by (auto simp: sys_inv_def)
  show ?thesis
    using inv gs(1,4) fin' fail card uniq unfolding sys_inv_def
    by (simp del: fun_upd_apply add: hold) blast
qed

lemma sys_inv_release:
  assumes inv: "sys_inv s" and t: "sys_thread s t = Holding c"
    and f: "f = (sys_thread s)(t := Idle) \<and> (\<forall>w. sys_thread s w \<noteq> Waiting) \<or>
      (\<exists>w. f = (sys_thread s)(t := Idle, w := Woken) \<and> sys_thread s w = Waiting)"
  shows "sys_inv (s\<lparr>sys_pool := free_connection c (sys_pool s), sys_thread := f\<rparr>)"
proof -
  from inv have pi: "pool_inv (sys_pool s)" by (simp add: sys_inv_def)
  from inv t have cu: "c \<in> in_use (sys_pool s)" by (auto simp: sys_inv_def)
  note fs = free_connection_spec [OF pi cu]
  have hold: "f u = Holding d \<longleftrightarrow> sys_thread s u = Holding d \<and> u \<noteq> t" for u d
    using f by (auto split: if_splits)
  have wait: "f u = Waiting \<Longrightarrow> sys_thread s u = Waiting" for u
    using f by (auto split: if_splits)
  have fin: "finite {u. sys_thread s u = Woken}" using inv by (simp add: sys_inv_def woken_def)
  have fin': "finite {u. f u = Woken}"
    using f fin by (auto simp del: fun_upd_apply intro!: finite_woken_upd)
  have card: "available_connections (free_connection c (sys_pool s)) \<le> int (card {u. f u = Woken})"
    if "f v = Waiting" for v
  proof -
    from that wait have v: "sys_thread s v = Waiting" by blast
    with f obtain w where w: "f = (sys_thread s)(t := Idle, w := Woken)" "sys_thread s w = Waiting"
      by blast
    have "{u. f u = Woken} = insert w {u. sys_thread s u = Woken}"
      using w t by auto
    then have "card {u. f u = Woken} = Suc (card {u. sys_thread s u = Woken})"
      using fin w(2) by simp
    moreover have "available_connections (sys_pool s) \<le> int (card {u. sys_thread s u = Woken})"
      using inv v by (auto simp: sys_inv_def woken_def)
    ultimately show ?thesis using fs(4) by simp
  qed
  show ?thesis
    unfolding sys_inv_def
  proof (intro conjI allI impI)
    fix d
    show "d \<in> in_use (sys_pool (s\<lparr>sys_pool := free_connection c (sys_pool s), sys_thread := f\<rparr>))
        \<longleftrightarrow> (\<exists>u. sys_thread (s\<lparr>sys_pool := free_connection c (sys_pool s), sys_thread := f\<rparr>) u = Holding d)"
      using inv t fs(2) by (auto simp: sys_inv_def hold)
  next
    fix u show "sys_thread (s\<lparr>sys_pool := free_connection c (sys_pool s), sys_thread := f\<rparr>) u \<noteq> Failed"
      using inv f by (auto simp: sys_inv_def split: if_splits)
  qed (use inv fs(1) fin' card in \<open>auto simp: sys_inv_def hold\<close>)
qed

lemma sys_inv_step: "pool_step s s' \<Longrightarrow> sys_inv s \<Longrightarrow> sys_inv s'"
proof (induction rule: pool_step.induct)
  case (wait s t)
  then show ?case by (intro sys_inv_thread) (auto simp: get_connection_Waits)
next
  case (fail s t)
  then show ?case using get_connection_not_Throws by (auto simp: sys_inv_def)
next
  case (spurious s t)
  have "available_connections (sys_pool s) \<le> int (card {u. sys_thread s u = Woken})"
    and "finite {u. sys_thread s u = Woken}"
    using spurious by (auto simp: sys_inv_def woken_def)
  with card_woken_upd [of "sys_thread s" t Woken] spurious show ?case
    by (intro sys_inv_thread) (auto simp del: fun_upd_apply)
qed (blast intro: sys_inv_acquire sys_inv_release)+

lemma sys_inv_reachable: "pool_reachable s0 s \<Longrightarrow> sys_inv s0 \<Longrightarrow> sys_inv s"
  by (induction rule: pool_reachable.induct) (auto intro: sys_inv_step)

lemma pool_new_spec:
  fixes created :: "'c option list"
  assumes "distinct (map the (filter (\<lambda>c. c \<noteq> None) created))"
  shows "pool_inv (pool_new created workers) \<and> in_use (pool_new created workers) = {} \<and>
    conns (pool_new created workers) = {c. Some c \<in> set (take (pool_size workers) created)}"
proof -
  let ?cs = "take (pool_size workers) created"
  have "filter (\<lambda>c. c \<noteq> None) created
      = filter (\<lambda>c. c \<noteq> None) ?cs @ filter (\<lambda>c. c \<noteq> None) (drop (pool_size workers) created)"
    by (metis append_take_drop_id filter_append)
  with assms have "distinct (map the (filter (\<lambda>c. c \<noteq> None) ?cs))"
    by (metis distinct_append map_append)
  moreover define e where "e = (\<lparr>conn_pool = [], available_connections = 0\<rparr> :: 'c pool)"
  moreover have "pool_inv e" "in_use e = {}" "conns e = {}"
    by (simp_all add: e_def pool_inv_def in_use_def conns_def)
  ultimately show ?thesis
    unfolding pool_new_def e_def [symmetric] using pool_fill_inv [of e ?cs] by simp
qed

lemma sys_inv_start:
  assumes "distinct (map the (filter (\<lambda>c. c \<noteq> None) created))"
  shows "sys_inv (pool_start created workers)"
  using pool_new_spec [OF assms, of workers]
  by (simp add: sys_inv_def pool_start_def woken_def)

lemma pool_step_conns:
  assumes "pool_step s s'" and "sys_inv s"
  shows "conns (sys_pool s') = conns (sys_pool s)"
  using assms(1)
proof cases
  case (acquire t c p)
  from assms(2) have "pool_inv (sys_pool s)" by (simp add: sys_inv_def)
  with acquire get_connection_Gets(5) [of "sys_pool s" c p] show ?thesis by simp
next
  case (release_notify t c w)
  with assms(2) show ?thesis
    by simp (metis free_connection_spec(3) sys_inv_def)
next
  case (release t c)
  with assms(2) show ?thesis
    by simp (metis free_connection_spec(3) sys_inv_def)
qed simp_all

lemma reachable_conns:
  "pool_reachable s0 s \<Longrightarrow> sys_inv s0 \<Longrightarrow> conns (sys_pool s) = conns (sys_pool s0)"
  by (induction rule: pool_reachable.induct) (auto simp: pool_step_conns sys_inv_reachable)

text \<open>Under the invariant a holder's connection is one of the pool's.\<close>

lemma holding_in_conns:
  assumes "sys_inv s" and "sys_thread s t = Holding c"
  shows "c \<in> conns (sys_pool s)"
proof -
  from assms have "(c, POOL_INUSE) \<in> set (conn_pool (sys_pool s))"
    by (auto simp: sys_inv_def in_use_def)
  then show ?thesis by (force simp: conns_def)
qed

text \<open>Executable moves: a thread tries to take a connection, or returns its connection and
  wakes a given waiting thread.\<close>

fun pool_move :: "nat \<times> nat \<Rightarrow> 'c pool_sys \<Rightarrow> 'c pool_sys option" where
  "pool_move (t, w) s =
     (case sys_thread s t of
        Holding c \<Rightarrow> (if sys_thread s w = Waiting
          then Some (s\<lparr>sys_pool := free_connection c (sys_pool s),
                 sys_thread := (sys_thread s)(t := Idle, w := Woken)\<rparr>) else None)
      | Waiting \<Rightarrow> None
      | Failed \<Rightarrow> None
      | _ \<Rightarrow> (case get_connection (sys_pool s) of
          Gets c p \<Rightarrow> Some (s\<lparr>sys_pool := p, sys_thread := (sys_thread s)(t := Holding c)\<rparr>)
        | Waits \<Rightarrow> Some (s\<lparr>sys_thread := (sys_thread s)(t := Waiting)\<rparr>)
        | Throws \<Rightarrow> Some (s\<lparr>sys_thread := (sys_thread s)(t := Failed)\<rparr>)))"

fun pool_moves :: "(nat \<times> nat) list \<Rightarrow> 'c pool_sys \<Rightarrow> 'c pool_sys option" where
  "pool_moves [] s = Some s"
| "pool_moves (m # ms) s = Option.bind (pool_move m s) (pool_moves ms)"

lemma pool_move_step: "pool_move m s = Some s' \<Longrightarrow> pool_step s s'"
  by (cases m)
    (auto split: thread.splits acquired.splits if_splits
      intro: pool_step.acquire pool_step.wait pool_step.fail pool_step.release_notify)

lemma pool_moves_reachable:
  "pool_moves ms s = Some s' \<Longrightarrow> pool_reachable s0 s \<Longrightarrow> pool_reachable s0 s'"
proof (induction ms arbitrary: s)
  case (Cons m ms)
  from Cons.prems obtain u where u: "pool_move m s = Some u" "pool_moves ms u = Some s'"
    by (auto simp: bind_eq_Some_conv simp del: pool_move.simps)
  with Cons.prems have "pool_reachable s0 u"
    by (blast intro: pool_reachable.step pool_move_step)
  with u show ?case by (intro Cons.IH)
qed simp

text \<open>One connection, three threads: the first holds it while two others wait; it is returned
  and the second thread is woken.\<close>

definition contended :: "nat pool_sys option" where
  "contended = pool_moves [(0, 0), (1, 0), (2, 0), (0, 1)] (pool_start [Some 7] 4)"

lemma contended_state:
  "\<exists>s. contended = Some s \<and> sys_thread s 1 = Woken \<and> sys_thread s 2 = Waiting \<and>
     available_connections (sys_pool s) = 1"
  by (simp add: contended_def pool_start_def pool_new_def pool_size_def get_connection_def
      free_connection_def)

lemma contended_reachable: "contended = Some s \<Longrightarrow> pool_reachable (pool_start [Some 7] 4) s"
  unfolding contended_def using pool_moves_reachable pool_reachable.start by blast

section \<open>Properties\<close>

lemma started_pool_ok:
  assumes "distinct (map the (filter (\<lambda>c. c \<noteq> None) created))"
    and "pool_reachable (pool_start created workers) s"
  shows "sys_inv s" and "conns (sys_pool s) = {c. Some c \<in> set (take (pool_size workers) created)}"
proof -
  have inv0: "sys_inv (pool_start created workers)" by (rule sys_inv_start [OF assms(1)])
  show "sys_inv s" by (rule sys_inv_reachable [OF assms(2) inv0])
  show "conns (sys_pool s) = {c. Some c \<in> set (take (pool_size workers) created)}"
    using reachable_conns [OF assms(2) inv0] pool_new_spec [OF assms(1), of workers]
    by (simp add: pool_start_def)
qed

text \<open>(C10) Whatever the interleaving of threads that take and return connections: no two
  threads ever hold the same connection, a held connection is one the pool opened, the connections
  marked as in use are exactly those that some thread holds, the counter
  is the number of free connections, and the "should never get here" exception of
  \<open>getConnection\<close> is never thrown.  The hypothesis says that the opened connections are
  different objects.\<close>

theorem pool_safety:
  assumes "distinct (map the (filter (\<lambda>c. c \<noteq> None) created))"
    and "pool_reachable (pool_start created workers) s"
  shows "(\<forall>t u c. sys_thread s t = Holding c \<longrightarrow> sys_thread s u = Holding c \<longrightarrow> t = u) \<and>
    (\<forall>t c. sys_thread s t = Holding c \<longrightarrow> Some c \<in> set (take (pool_size workers) created)) \<and>
    (\<forall>c. (c, POOL_INUSE) \<in> set (conn_pool (sys_pool s)) \<longleftrightarrow> (\<exists>t. sys_thread s t = Holding c)) \<and>
    available_connections (sys_pool s) = int (free_count (conn_pool (sys_pool s))) \<and>
    (\<forall>t. sys_thread s t \<noteq> Failed)"
proof -
  note inv = started_pool_ok(1) [OF assms]
  have "(c, POOL_INUSE) \<in> set (conn_pool (sys_pool s)) \<longleftrightarrow> (\<exists>t. sys_thread s t = Holding c)" for c
    using inv unfolding sys_inv_def in_use_def by blast
  with inv holding_in_conns [OF inv] started_pool_ok(2) [OF assms] show ?thesis
    by (auto simp: sys_inv_def pool_inv_def)
qed

theorem pool_safety_witness:
  "\<exists>s. contended = Some s \<and> sys_thread s 1 = Woken \<and>
    (\<forall>c. (c, POOL_INUSE) \<in> set (conn_pool (sys_pool s)) \<longleftrightarrow> (\<exists>t. sys_thread s t = Holding c)) \<and>
    (\<forall>t u c. sys_thread s t = Holding c \<longrightarrow> sys_thread s u = Holding c \<longrightarrow> t = u)"
proof -
  obtain s where s: "contended = Some s" "sys_thread s 1 = Woken" using contended_state by blast
  have "distinct (map the (filter (\<lambda>c. c \<noteq> None) [Some (7::nat)]))" by simp
  from pool_safety [OF this contended_reachable [OF s(1)]] s show ?thesis by blast
qed

text \<open>(C28) No wake-up is lost: whenever a thread waits although a connection is available, some
  thread has been woken and can take a connection now.\<close>

theorem pool_no_lost_wakeup:
  assumes "distinct (map the (filter (\<lambda>c. c \<noteq> None) created))"
    and "pool_reachable (pool_start created workers) s"
    and "sys_thread s w = Waiting" and "0 < available_connections (sys_pool s)"
  shows "\<exists>t c s'. sys_thread s t = Woken \<and> pool_step s s' \<and> sys_thread s' t = Holding c"
proof -
  have inv: "sys_inv s"
    by (rule sys_inv_reachable [OF assms(2) sys_inv_start [OF assms(1)]])
  with assms(3,4) have "0 < card (woken s)" by (fastforce simp: sys_inv_def)
  then obtain t where t: "sys_thread s t = Woken" by (auto simp: woken_def card_gt_0_iff)
  have "get_connection (sys_pool s) \<noteq> Throws"
    using inv get_connection_not_Throws by (auto simp: sys_inv_def)
  moreover have "get_connection (sys_pool s) \<noteq> Waits"
    using assms(4) by (simp add: get_connection_Waits)
  ultimately obtain c p where "get_connection (sys_pool s) = Gets c p"
    by (cases "get_connection (sys_pool s)") auto
  with t have "pool_step s (s\<lparr>sys_pool := p, sys_thread := (sys_thread s)(t := Holding c)\<rparr>)"
    by (intro pool_step.acquire) auto
  with t show ?thesis by (intro exI conjI) (assumption | simp)+
qed

theorem pool_no_lost_wakeup_witness:
  "\<exists>s t c s'. contended = Some s \<and> sys_thread s t = Woken \<and> pool_step s s' \<and>
    sys_thread s' t = Holding c"
proof -
  obtain s where s: "contended = Some s" "sys_thread s 2 = Waiting"
    "available_connections (sys_pool s) = 1" using contended_state by blast
  have "distinct (map the (filter (\<lambda>c. c \<noteq> None) [Some (7::nat)]))" by simp
  from pool_no_lost_wakeup [OF this contended_reachable [OF s(1)] s(2)] s show ?thesis by auto
qed

text \<open>If no connection could be opened at start-up, no request that needs the pool ever
  proceeds: in every reachable state nobody holds a connection and nobody has failed, so every
  thread that asked is waiting.\<close>

theorem pool_without_connections_blocks:
  assumes "\<forall>c \<in> set created. c = None" and "pool_reachable (pool_start created workers) s"
  shows "sys_thread s t \<in> {Idle, Waiting, Woken} \<and>
    (\<forall>s' u. pool_step s s' \<longrightarrow> sys_thread s' u \<noteq> Holding c)"
proof -
  have "filter (\<lambda>c. c \<noteq> None) created = []" using assms(1) by (simp add: filter_empty_conv)
  then have d: "distinct (map the (filter (\<lambda>c. c \<noteq> None) created))" by simp
  have none: "sys_thread s' u \<noteq> Holding c" if "pool_reachable (pool_start created workers) s'" for s' u c
    using holding_in_conns [OF started_pool_ok(1) [OF d that]] started_pool_ok(2) [OF d that] assms(1)
      in_set_takeD by fastforce
  have "sys_thread s t \<noteq> Failed" using started_pool_ok(1) [OF d assms(2)] by (simp add: sys_inv_def)
  then show ?thesis
    using none [OF assms(2)] none [OF pool_reachable.step [OF assms(2)]]
    by (cases "sys_thread s t") auto
qed

theorem pool_without_connections_blocks_witness:
  "\<exists>s. pool_moves [(0, 0)] (pool_start [None :: nat option] 4) = Some s \<and>
    sys_thread s 0 \<in> {Idle, Waiting, Woken}"
proof -
  have "\<exists>s. pool_moves [(0, 0)] (pool_start [None :: nat option] 4) = Some s"
    by (simp add: pool_start_def pool_new_def pool_size_def get_connection_def)
  then obtain s where s: "pool_moves [(0, 0)] (pool_start [None :: nat option] 4) = Some s" by blast
  have "\<forall>c \<in> set [None :: nat option]. c = None" by simp
  from pool_without_connections_blocks [OF this pool_moves_reachable [OF s pool_reachable.start], of 0]
    s show ?thesis by blast
qed

section \<open>Using a connection\<close>

text \<open>
  How every proxy operation uses the pool: take a connection, run, and give it back when the
  shared pointer is destroyed, on return and on a throw.  Alone, a call that has to wait never
  returns.
\<close>

definition with_connection :: "string \<Rightarrow> ('c \<Rightarrow> ('s, 'a) sm) \<Rightarrow> ('c pool \<times> 's, 'a) sm" where
  "with_connection msg f = (\<lambda>(p, s).
     (case get_connection p of
        Waits \<Rightarrow> (Inl Diverges, (p, s))
      | Throws \<Rightarrow> (Inl (OtherThrow msg), (p, s))
      | Gets c q \<Rightarrow> (case f c s of (r, s') \<Rightarrow> (r, (free_connection c q, s')))))"

lemma take_free_back:
  assumes "distinct (map fst es)" and "take_free es = Some (c, es')"
  shows "map (\<lambda>e. if fst e = c then (fst e, POOL_FREE) else e) es' = es"
    and "length (filter (\<lambda>e. fst e = c) es') = 1"
  using assms
proof (induction es arbitrary: c es')
  case (Cons e es)
  obtain d st where e: "e = (d, st)" by (cases e)
  {
    case 1
    show ?case
    proof (cases "st = POOL_FREE")
      case True
      with 1 e have eq: "c = d" "es' = (d, POOL_INUSE) # es" and new: "d \<notin> fst ` set es" by auto
      have "map (\<lambda>e. if fst e = d then (fst e, POOL_FREE) else e) es = es"
        using new by (intro map_idI) force
      with eq e True show ?thesis by simp
    next
      case False
      with 1 e obtain es'' where t: "take_free es = Some (c, es'')" and es': "es' = (d, st) # es''"
        by auto
      have "c \<in> fst ` set es" using take_free_spec [OF t] by force
      with 1 e have "d \<noteq> c" by auto
      with Cons.IH(1) [OF _ t] 1 e es' show ?thesis by auto
    qed
  next
    case 2
    have d: "distinct (map fst es')"
      using take_free_spec [OF 2(2)] 2(1) by metis
    have "c \<in> fst ` set es'"
      using take_free_spec [OF 2(2)] 2(1) by (metis image_eqI insertI1 fst_conv)
    with d show ?case by (rule length_filter_key)
  }
qed auto

lemma get_free_connection:
  assumes "pool_inv p" and "get_connection p = Gets c q"
  shows "free_connection c q = p"
proof -
  from assms(2) obtain es where t: "take_free (conn_pool p) = Some (c, es)"
    and q: "q = p\<lparr>conn_pool := es, available_connections := available_connections p - 1\<rparr>"
    by (auto simp: get_connection_def split: if_splits option.splits)
  from assms(1) have d: "distinct (map fst (conn_pool p))" by (simp only: pool_inv_def)
  show ?thesis
    unfolding free_connection_def q using take_free_back [OF d t] by simp
qed

text \<open>With a connection available, the pool is as before after the call, and the call is the
  inner one.\<close>

lemma with_connection_eq:
  assumes "pool_inv p" and "0 < available_connections p"
  obtains c where "c \<in> conns p" and "c \<notin> in_use p"
    and "\<And>s. with_connection msg f (p, s) = (fst (f c s), (p, snd (f c s)))"
proof (cases "get_connection p")
  case (Gets c q)
  show ?thesis
  proof (rule that)
    show "c \<in> conns p" "c \<notin> in_use p" using get_connection_Gets [OF assms(1) Gets] by simp_all
    show "with_connection msg f (p, s) = (fst (f c s), (p, snd (f c s)))" for s
      using get_free_connection [OF assms(1) Gets]
      by (simp add: with_connection_def Gets split: prod.split)
  qed
next
  case Waits
  with assms(2) show ?thesis by (simp add: get_connection_Waits)
next
  case Throws
  with get_connection_not_Throws [OF assms(1)] show ?thesis by simp
qed

definition ready :: "'c pool \<Rightarrow> bool" where
  "ready p \<longleftrightarrow> pool_inv p \<and> 0 < available_connections p"

lemma with_ready:
  assumes "ready p"
  shows "\<exists>c. \<forall>s. with_connection msg f (p, s) = (fst (f c s), (p, snd (f c s)))"
  using with_connection_eq [of p msg f] assms unfolding ready_def by metis

lemma with_ready_run:
  assumes "ready p" and "\<And>c. Q (fst (f c s)) (p, snd (f c s))"
  shows "Q (fst (with_connection msg f (p, s))) (snd (with_connection msg f (p, s)))"
  using with_ready [OF assms(1), of msg f] assms(2) by auto

lemma post_with_connection:
  assumes "ready p" and "\<And>c. post (f c) m P"
  shows "post (with_connection msg f) (p, m) (\<lambda>r (p', m'). p' = p \<and> P r m')"
proof -
  obtain c where "with_connection msg f (p, m) = (fst (f c m), (p, snd (f c m)))"
    using with_ready [OF assms(1), of msg f] by blast
  then show ?thesis using assms(2) [of c] by (simp add: post_def split_beta)
qed

end
