(* ===== verification/MemcacheProxy.thy ===== *)
theory MemcacheProxy
  imports Pool CStrings
begin

text \<open>
  \<^verbatim>\<open>src/memcache_proxy.cpp\<close>: the shared cache.  libmemcached and pcrecpp are parameters: the
  first is a record of its three calls on a server state, the second the function
  \<open>RE(p).Replace(r, &s)\<close>, which replaces the first match and returns nothing without one.
\<close>

section \<open>libmemcached\<close>

text \<open>A call yields the bytes it filled in and the exception it threw, if any.\<close>

record ('c, 'm) memcache_lib =
  mc_get :: "'c \<Rightarrow> string \<Rightarrow> 'm \<Rightarrow> (string \<times> error option) \<times> 'm"
  mc_set :: "'c \<Rightarrow> string \<Rightarrow> string \<Rightarrow> int \<Rightarrow> int \<Rightarrow> 'm \<Rightarrow> error option \<times> 'm"
  mc_remove :: "'c \<Rightarrow> string \<Rightarrow> 'm \<Rightarrow> error option \<times> 'm"

text \<open>\<open>catch (std::runtime_error &)\<close>: the program's two exceptions derive from it as well.\<close>

fun is_runtime_error :: "error \<Rightarrow> bool" where
  "is_runtime_error (VaeDbQueryError _) = True"
| "is_runtime_error (VaeDbInternalError _) = True"
| "is_runtime_error (StdError _) = True"
| "is_runtime_error _ = False"

definition swallow :: "error option \<Rightarrow> 'a \<Rightarrow> 'a outcome" where
  "swallow thrown x = (case thrown of
     Some e \<Rightarrow> (if is_runtime_error e then Inr x else Inl e) | None \<Rightarrow> Inr x)"

section \<open>The proxy\<close>

definition memcache_pool_error :: string where
  "memcache_pool_error = ''Memcache Thread Pool Error: Should never get here''"

definition connect_string :: "(string \<Rightarrow> string \<Rightarrow> string \<Rightarrow> string option) \<Rightarrow> string \<Rightarrow> string" where
  "connect_string replace c =
     ''--TCP-KEEPALIVE --BINARY-PROTOCOL --SERVER=''
       @ (case replace '','' '' --SERVER='' c of Some c' \<Rightarrow> c' | None \<Rightarrow> c)"

text \<open>The body of each operation, with its client.\<close>

definition client_get :: "('c, 'm) memcache_lib \<Rightarrow> string \<Rightarrow> 'c \<Rightarrow> ('m, string) sm" where
  "client_get lib key client = (\<lambda>m.
     (case mc_get lib client key m of ((ret_value, thrown), m') \<Rightarrow> (swallow thrown ret_value, m')))"

definition client_set ::
  "('c, 'm) memcache_lib \<Rightarrow> string \<Rightarrow> string \<Rightarrow> int \<Rightarrow> int \<Rightarrow> 'c \<Rightarrow> ('m, unit) sm" where
  "client_set lib key value flags expire client = (\<lambda>m.
     (case mc_set lib client key value expire flags m of (thrown, m') \<Rightarrow> (swallow thrown (), m')))"

definition client_remove :: "('c, 'm) memcache_lib \<Rightarrow> string \<Rightarrow> 'c \<Rightarrow> ('m, unit) sm" where
  "client_remove lib key client = (\<lambda>m.
     (case mc_remove lib client key m of (thrown, m') \<Rightarrow> (swallow thrown (), m')))"

definition memcache_get ::
  "('c, 'm) memcache_lib \<Rightarrow> string \<Rightarrow> int \<Rightarrow> ('c pool \<times> 'm, string) sm" where
  "memcache_get lib key flags = with_connection memcache_pool_error (client_get lib key)"

definition memcache_set ::
  "('c, 'm) memcache_lib \<Rightarrow> string \<Rightarrow> string \<Rightarrow> int \<Rightarrow> int \<Rightarrow> ('c pool \<times> 'm, unit) sm" where
  "memcache_set lib key value flags expire =
     with_connection memcache_pool_error (client_set lib key value flags expire)"

definition memcache_remove :: "('c, 'm) memcache_lib \<Rightarrow> string \<Rightarrow> ('c pool \<times> 'm, unit) sm" where
  "memcache_remove lib key = with_connection memcache_pool_error (client_remove lib key)"

section \<open>What the program relies on\<close>

text \<open>
  A server that keeps what it is told as long as it answers: \<open>contents\<close> reads its contents.  The
  three calls either work, or throw a run-time error and leave the contents alone; a lookup
  that throws has filled in nothing.  Expiry and eviction are the other way to lose an entry:
  \<open>contents\<close> speaks of a server that has room and time.
\<close>

definition memcache_contract :: "('c, 'm) memcache_lib \<Rightarrow> ('m \<Rightarrow> string \<Rightarrow> string option) \<Rightarrow> bool" where
  "memcache_contract lib contents \<longleftrightarrow>
     (\<forall>c key m. let ((v, thrown), m') = mc_get lib c key m in
        contents m' = contents m \<and> (case thrown of
           None \<Rightarrow> v = (case contents m key of Some x \<Rightarrow> x | None \<Rightarrow> [])
         | Some e \<Rightarrow> is_runtime_error e \<and> v = [])) \<and>
     (\<forall>c key value expire flags m. let (thrown, m') = mc_set lib c key value expire flags m in
        (case thrown of None \<Rightarrow> contents m' = (contents m)(key := Some value)
         | Some e \<Rightarrow> is_runtime_error e \<and> contents m' = contents m)) \<and>
     (\<forall>c key m. let (thrown, m') = mc_remove lib c key m in
        (case thrown of None \<Rightarrow> contents m' = (contents m)(key := None)
         | Some e \<Rightarrow> is_runtime_error e \<and> contents m' = contents m))"

text \<open>An instance: a server that always answers.\<close>

definition memcache_ref :: "('c, string \<Rightarrow> string option) memcache_lib" where
  "memcache_ref = \<lparr>
     mc_get = (\<lambda>_ key m. ((case m key of Some x \<Rightarrow> x | None \<Rightarrow> [], None), m)),
     mc_set = (\<lambda>_ key value _ _ m. (None, m(key := Some value))),
     mc_remove = (\<lambda>_ key m. (None, m(key := None)))\<rparr>"

lemma memcache_ref_contract: "memcache_contract memcache_ref (\<lambda>m. m)"
  by (simp add: memcache_contract_def memcache_ref_def)

section \<open>Lemmas\<close>

lemma client_get_contract:
  assumes "memcache_contract lib contents"
  shows "\<exists>v m'. client_get lib key c m = (Inr v, m') \<and> contents m' = contents m \<and>
    (v = [] \<or> contents m key = Some v)"
proof -
  obtain v th m' where g: "mc_get lib c key m = ((v, th), m')" by (metis surj_pair)
  from assms have "let ((v, thrown), m') = mc_get lib c key m in contents m' = contents m \<and>
      (case thrown of None \<Rightarrow> v = (case contents m key of Some x \<Rightarrow> x | None \<Rightarrow> [])
         | Some e \<Rightarrow> is_runtime_error e \<and> v = [])"
    unfolding memcache_contract_def by blast
  then show ?thesis
    by (auto simp: g client_get_def swallow_def split: option.splits)
qed

lemma client_set_contract:
  assumes "memcache_contract lib contents"
  shows "\<exists>m'. client_set lib key value flags expire c m = (Inr (), m') \<and>
    (contents m' = (contents m)(key := Some value) \<or> contents m' = contents m)"
proof -
  obtain th m' where g: "mc_set lib c key value expire flags m = (th, m')" by (metis surj_pair)
  from assms have "let (thrown, m') = mc_set lib c key value expire flags m in
        (case thrown of None \<Rightarrow> contents m' = (contents m)(key := Some value)
         | Some e \<Rightarrow> is_runtime_error e \<and> contents m' = contents m)"
    unfolding memcache_contract_def by blast
  then show ?thesis
    by (auto simp: g client_set_def swallow_def split: option.splits)
qed

lemma client_remove_contract:
  assumes "memcache_contract lib contents"
  shows "\<exists>m'. client_remove lib key c m = (Inr (), m') \<and>
    (contents m' = (contents m)(key := None) \<or> contents m' = contents m)"
proof -
  obtain th m' where g: "mc_remove lib c key m = (th, m')" by (metis surj_pair)
  from assms have "let (thrown, m') = mc_remove lib c key m in
        (case thrown of None \<Rightarrow> contents m' = (contents m)(key := None)
         | Some e \<Rightarrow> is_runtime_error e \<and> contents m' = contents m)"
    unfolding memcache_contract_def by blast
  then show ?thesis
    by (auto simp: g client_remove_def swallow_def split: option.splits)
qed

text \<open>With a pool that has a connection, the operations never throw and give it back.\<close>

lemma memcache_get_ready:
  assumes "memcache_contract lib contents" and "ready p"
  obtains v m' where "memcache_get lib key flags (p, m) = (Inr v, (p, m'))"
    and "contents m' = contents m" and "v = [] \<or> contents m key = Some v"
proof -
  from with_ready [OF assms(2)] obtain c where w:
    "\<And>s. with_connection memcache_pool_error (client_get lib key) (p, s) =
       (fst (client_get lib key c s), (p, snd (client_get lib key c s)))"
    by blast
  from client_get_contract [OF assms(1), of key c m] show ?thesis
    by (auto intro!: that simp: memcache_get_def w)
qed

lemma memcache_set_ready:
  assumes "memcache_contract lib contents" and "ready p"
  obtains m' where "memcache_set lib key value flags expire (p, m) = (Inr (), (p, m'))"
    and "contents m' = (contents m)(key := Some value) \<or> contents m' = contents m"
proof -
  from with_ready [OF assms(2)] obtain c where w:
    "\<And>s. with_connection memcache_pool_error (client_set lib key value flags expire) (p, s) =
       (fst (client_set lib key value flags expire c s), (p, snd (client_set lib key value flags expire c s)))"
    by blast
  from client_set_contract [OF assms(1), of key "value" flags expire c m] show ?thesis
    by (auto intro!: that simp: memcache_set_def w)
qed

lemma memcache_remove_ready:
  assumes "memcache_contract lib contents" and "ready p"
  obtains m' where "memcache_remove lib key (p, m) = (Inr (), (p, m'))"
    and "contents m' = (contents m)(key := None) \<or> contents m' = contents m"
proof -
  from with_ready [OF assms(2)] obtain c where w:
    "\<And>s. with_connection memcache_pool_error (client_remove lib key) (p, s) =
       (fst (client_remove lib key c s), (p, snd (client_remove lib key c s)))"
    by blast
  from client_remove_contract [OF assms(1), of key c m] show ?thesis
    by (auto intro!: that simp: memcache_remove_def w)
qed

end
