(* ===== verification/MysqlProxy.thy ===== *)
theory MysqlProxy
  imports Pool Json
begin

text \<open>
  \<^verbatim>\<open>src/mysql_proxy.cpp\<close>: the session cache, the long-term cache and the site-wide locks,
  all in MySQL.  The Connector/C++ library is a parameter: preparing, executing and querying
  a statement text with its parameters.  \<open>sql_exec\<close> and \<open>sql_select\<close> write down what the
  program's statements mean on the tables of \<^verbatim>\<open>src/db/schema.sql\<close>; they are hypotheses on the
  server, not code of the program.
\<close>

section \<open>The library\<close>

datatype sql_param = PStr string | PInt int

record sql_row =
  get_column_string :: "string \<Rightarrow> string"
  get_column_int :: "string \<Rightarrow> int"

record ('c, 'm) mysql_lib =
  my_prepare :: "'c \<Rightarrow> string \<Rightarrow> 'm \<Rightarrow> error option \<times> 'm"
  my_execute :: "'c \<Rightarrow> string \<Rightarrow> sql_param list \<Rightarrow> 'm \<Rightarrow> error option \<times> 'm"
  my_query :: "'c \<Rightarrow> string \<Rightarrow> sql_param list \<Rightarrow> 'm \<Rightarrow> (sql_row list \<times> error option) \<times> 'm"

text \<open>The calls as steps that throw, and \<open>catch (sql::SQLException &)\<close>.\<close>

definition prepare :: "('c, 'm) mysql_lib \<Rightarrow> 'c \<Rightarrow> string \<Rightarrow> ('m, unit) sm" where
  "prepare lib con sql = (\<lambda>m.
     (case my_prepare lib con sql m of
        (None, m') \<Rightarrow> (Inr (), m') | (Some e, m') \<Rightarrow> (Inl e, m')))"

definition execute :: "('c, 'm) mysql_lib \<Rightarrow> 'c \<Rightarrow> string \<Rightarrow> sql_param list \<Rightarrow> ('m, unit) sm" where
  "execute lib con sql ps = (\<lambda>m.
     (case my_execute lib con sql ps m of
        (None, m') \<Rightarrow> (Inr (), m') | (Some e, m') \<Rightarrow> (Inl e, m')))"

definition execute_query ::
  "('c, 'm) mysql_lib \<Rightarrow> 'c \<Rightarrow> string \<Rightarrow> sql_param list \<Rightarrow> ('m, sql_row list) sm" where
  "execute_query lib con sql ps = (\<lambda>m.
     (case my_query lib con sql ps m of
        ((rows, None), m') \<Rightarrow> (Inr rows, m') | ((_, Some e), m') \<Rightarrow> (Inl e, m')))"

fun is_sql_exception :: "error \<Rightarrow> bool" where
  "is_sql_exception (StdError _) = True"
| "is_sql_exception _ = False"

definition catch_sql :: "('m, 'a) sm \<Rightarrow> ('m, 'a) sm \<Rightarrow> ('m, 'a) sm" where
  "catch_sql body handler = (\<lambda>m.
     (case body m of
        (Inl e, m') \<Rightarrow> (if is_sql_exception e then handler m' else (Inl e, m'))
      | (Inr x, m') \<Rightarrow> (Inr x, m')))"

definition mysql_pool_error :: string where
  "mysql_pool_error = ''MySQL Thread Pool Error: Should never get here''"

section \<open>Statements\<close>

definition sql_gc :: "string \<Rightarrow> string" where
  "sql_gc db = ''DELETE FROM `'' @ db @ ''`.`session_data` WHERE `expires`<UNIX_TIMESTAMP()''"
definition sql_lt_get :: "string \<Rightarrow> string" where
  "sql_lt_get db = ''SELECT `v`,DATEDIFF(`expire_at`,NOW()) AS remaining_days FROM `'' @ db
     @ ''`.`kvstore` WHERE `k`=? AND `subdomain`=?''"
definition sql_lt_renew :: "string \<Rightarrow> string" where
  "sql_lt_renew db = ''UPDATE `'' @ db
     @ ''`.`kvstore` SET `expire_at`=DATE_ADD(NOW(),INTERVAL ? DAY) WHERE `k`=? AND `subdomain`=?''"
definition sql_lt_clear :: "string \<Rightarrow> string" where
  "sql_lt_clear db = ''DELETE FROM `'' @ db @ ''`.`kvstore` WHERE `subdomain`=? AND `k`=?''"
definition sql_lt_insert :: "string \<Rightarrow> string" where
  "sql_lt_insert db = ''INSERT INTO `'' @ db
     @ ''`.`kvstore` (`k`,`subdomain`,`v`,`expire_at`,`is_filename`) VALUES(?,?,?,DATE_ADD(NOW(), INTERVAL ? DAY),?)''"
definition sql_lt_empty :: "string \<Rightarrow> string" where
  "sql_lt_empty db = ''DELETE FROM `'' @ db @ ''`.`kvstore` WHERE `subdomain`=?''"
definition sql_lt_delete :: "string \<Rightarrow> string" where
  "sql_lt_delete db = ''DELETE FROM `'' @ db @ ''`.`kvstore` WHERE `k`=? AND `subdomain`=?''"
definition sql_lt_files :: "string \<Rightarrow> string" where
  "sql_lt_files db = ''SELECT `k`,`v` FROM `'' @ db
     @ ''`.`kvstore` WHERE `is_filename`='' @ [CHR 0x27] @ ''1'' @ [CHR 0x27]
     @ '' AND `subdomain`=?''"
definition sql_lt_expire :: "string \<Rightarrow> string" where
  "sql_lt_expire db = ''DELETE FROM `'' @ db
     @ ''`.`kvstore` WHERE `expire_at`<NOW() AND `subdomain`=?''"
definition sql_session_get :: "string \<Rightarrow> string" where
  "sql_session_get db = ''SELECT `data` FROM `'' @ db
     @ ''`.`session_data` WHERE `id`=? AND `subdomain`=?''"
definition sql_session_delete :: "string \<Rightarrow> string" where
  "sql_session_delete db = ''DELETE FROM `'' @ db
     @ ''`.`session_data` WHERE `id`=? AND `subdomain`=?''"
definition sql_session_insert :: "string \<Rightarrow> string" where
  "sql_session_insert db = ''INSERT INTO `'' @ db
     @ ''`.`session_data` (`id`,`subdomain`,`data`,`expires`) VALUES(?,?,?,UNIX_TIMESTAMP()+?)''"
definition sql_lock_insert :: "string \<Rightarrow> string" where
  "sql_lock_insert db = ''INSERT INTO `'' @ db @ ''`.`locks` (subdomain,created_at) VALUES(?,NOW())''"
definition sql_lock_sweep :: "string \<Rightarrow> string" where
  "sql_lock_sweep db = ''DELETE FROM `'' @ db
     @ ''`.`locks` WHERE created_at<DATE_SUB(NOW(), INTERVAL 1 MINUTE)''"
definition sql_unlock :: "string \<Rightarrow> string" where
  "sql_unlock db = ''DELETE FROM `'' @ db @ ''`.`locks` WHERE `subdomain`=?''"

lemmas sql_defs = sql_gc_def sql_lt_get_def sql_lt_renew_def sql_lt_clear_def sql_lt_insert_def
  sql_lt_empty_def sql_lt_delete_def sql_lt_files_def sql_lt_expire_def sql_session_get_def
  sql_session_delete_def sql_session_insert_def sql_lock_insert_def sql_lock_sweep_def sql_unlock_def

section \<open>Operations\<close>

type_synonym ('c, 'm, 'a) mysql_op = "('c pool \<times> 'm, 'a) sm"

definition mysql_garbage_collect :: "('c, 'm) mysql_lib \<Rightarrow> string \<Rightarrow> ('c, 'm, unit) mysql_op" where
  "mysql_garbage_collect lib db = with_connection mysql_pool_error (\<lambda>con.
     catch_sql
       (sbind (prepare lib con (sql_gc db)) (\<lambda>_. execute lib con (sql_gc db) []))
       (sret ()))"

text \<open>The loop over the rows of \<open>longTermCacheGet\<close>; \<open>out\<close> keeps its value when the renewal
  throws.\<close>

fun long_term_rows ::
  "('c, 'm) mysql_lib \<Rightarrow> string \<Rightarrow> 'c \<Rightarrow> string \<Rightarrow> string \<Rightarrow> int \<Rightarrow> sql_row list \<Rightarrow> string \<Rightarrow> ('m, string) sm" where
  "long_term_rows lib db con subdomain key renew_expiry [] out = sret out"
| "long_term_rows lib db con subdomain key renew_expiry (r # rs) out =
     (let out' = get_column_string r ''v'' in
      if 0 < renew_expiry \<and> get_column_int r ''remaining_days'' < 10
      then catch_sql
             (sbind (execute lib con (sql_lt_renew db) [PInt renew_expiry, PStr key, PStr subdomain]) (\<lambda>_.
                long_term_rows lib db con subdomain key renew_expiry rs out'))
             (sret out')
      else long_term_rows lib db con subdomain key renew_expiry rs out')"

definition mysql_long_term_get ::
  "('c, 'm) mysql_lib \<Rightarrow> string \<Rightarrow> string \<Rightarrow> string \<Rightarrow> int \<Rightarrow> ('c, 'm, string) mysql_op" where
  "mysql_long_term_get lib db subdomain key renew_expiry = with_connection mysql_pool_error (\<lambda>con.
     catch_sql
       (sbind (prepare lib con (sql_lt_get db)) (\<lambda>_.
        sbind (prepare lib con (sql_lt_renew db)) (\<lambda>_.
        sbind (execute_query lib con (sql_lt_get db) [PStr key, PStr subdomain]) (\<lambda>res.
          long_term_rows lib db con subdomain key renew_expiry res []))))
       (sret []))"

definition mysql_long_term_set ::
  "('c, 'm) mysql_lib \<Rightarrow> string \<Rightarrow> string \<Rightarrow> string \<Rightarrow> string \<Rightarrow> int \<Rightarrow> int \<Rightarrow> ('c, 'm, unit) mysql_op" where
  "mysql_long_term_set lib db subdomain key val expire_interval is_filename =
     with_connection mysql_pool_error (\<lambda>con.
     catch_sql
       (sbind (prepare lib con (sql_lt_clear db)) (\<lambda>_.
        sbind (prepare lib con (sql_lt_insert db)) (\<lambda>_.
        sbind (execute lib con (sql_lt_clear db) [PStr subdomain, PStr key]) (\<lambda>_.
          execute lib con (sql_lt_insert db)
            [PStr key, PStr subdomain, PStr val, PInt expire_interval, PInt is_filename]))))
       (sret ()))"

definition mysql_long_term_empty ::
  "('c, 'm) mysql_lib \<Rightarrow> string \<Rightarrow> string \<Rightarrow> ('c, 'm, unit) mysql_op" where
  "mysql_long_term_empty lib db subdomain = with_connection mysql_pool_error (\<lambda>con.
     catch_sql
       (sbind (prepare lib con (sql_lt_empty db)) (\<lambda>_.
          execute lib con (sql_lt_empty db) [PStr subdomain]))
       (sret ()))"

definition mysql_long_term_delete ::
  "('c, 'm) mysql_lib \<Rightarrow> string \<Rightarrow> string \<Rightarrow> string \<Rightarrow> ('c, 'm, unit) mysql_op" where
  "mysql_long_term_delete lib db subdomain key = with_connection mysql_pool_error (\<lambda>con.
     catch_sql
       (sbind (prepare lib con (sql_lt_delete db)) (\<lambda>_.
          execute lib con (sql_lt_delete db) [PStr key, PStr subdomain]))
       (sret ()))"

definition mysql_sweeper_info ::
  "('c, 'm) mysql_lib \<Rightarrow> string \<Rightarrow> string \<Rightarrow> ('c, 'm, json) mysql_op" where
  "mysql_sweeper_info lib db subdomain = with_connection mysql_pool_error (\<lambda>con.
     sbind
       (catch_sql
         (sbind (prepare lib con (sql_lt_files db)) (\<lambda>_.
          sbind (prepare lib con (sql_lt_expire db)) (\<lambda>_.
          sbind (execute lib con (sql_lt_expire db) [PStr subdomain]) (\<lambda>_.
          sbind (execute_query lib con (sql_lt_files db) [PStr subdomain]) (\<lambda>res.
            sret (fold (\<lambda>r. obj_put (get_column_string r ''k'') (get_column_string r ''v'')) res []))))))
         (sret []))
       (\<lambda>rows. sret (json_of_map rows)))"

definition mysql_session_get ::
  "('c, 'm) mysql_lib \<Rightarrow> string \<Rightarrow> string \<Rightarrow> string \<Rightarrow> ('c, 'm, string) mysql_op" where
  "mysql_session_get lib db subdomain key = with_connection mysql_pool_error (\<lambda>con.
     catch_sql
       (sbind (prepare lib con (sql_session_get db)) (\<lambda>_.
        sbind (execute_query lib con (sql_session_get db) [PStr key, PStr subdomain]) (\<lambda>res.
          sret (fold (\<lambda>r _. get_column_string r ''data'') res []))))
       (sret []))"

definition mysql_session_set ::
  "('c, 'm) mysql_lib \<Rightarrow> string \<Rightarrow> string \<Rightarrow> string \<Rightarrow> string \<Rightarrow> ('c, 'm, unit) mysql_op" where
  "mysql_session_set lib db subdomain key val = with_connection mysql_pool_error (\<lambda>con.
     catch_sql
       (sbind (prepare lib con (sql_session_delete db)) (\<lambda>_.
        sbind (prepare lib con (sql_session_insert db)) (\<lambda>_.
        sbind (execute lib con (sql_session_delete db) [PStr key, PStr subdomain]) (\<lambda>_.
          execute lib con (sql_session_insert db)
            [PStr key, PStr subdomain, PStr val, PInt (86400 * 2)]))))
       (sret ()))"

definition mysql_session_delete ::
  "('c, 'm) mysql_lib \<Rightarrow> string \<Rightarrow> string \<Rightarrow> string \<Rightarrow> ('c, 'm, unit) mysql_op" where
  "mysql_session_delete lib db subdomain key = with_connection mysql_pool_error (\<lambda>con.
     catch_sql
       (sbind (prepare lib con (sql_session_delete db)) (\<lambda>_.
          execute lib con (sql_session_delete db) [PStr key, PStr subdomain]))
       (sret ()))"

definition mysql_lock :: "('c, 'm) mysql_lib \<Rightarrow> string \<Rightarrow> string \<Rightarrow> ('c, 'm, int) mysql_op" where
  "mysql_lock lib db subdomain = with_connection mysql_pool_error (\<lambda>con.
     catch_sql
       (sbind (prepare lib con (sql_lock_insert db)) (\<lambda>_.
        sbind (execute lib con (sql_lock_insert db) [PStr subdomain]) (\<lambda>_.
          sret 1)))
       (catch_sql
         (sbind (prepare lib con (sql_lock_sweep db)) (\<lambda>_.
          sbind (execute lib con (sql_lock_sweep db) []) (\<lambda>_.
            sret 0)))
         (sret 0)))"

definition mysql_unlock :: "('c, 'm) mysql_lib \<Rightarrow> string \<Rightarrow> string \<Rightarrow> ('c, 'm, int) mysql_op" where
  "mysql_unlock lib db subdomain = with_connection mysql_pool_error (\<lambda>con.
     catch_sql
       (sbind (prepare lib con (sql_unlock db)) (\<lambda>_.
        sbind (execute lib con (sql_unlock db) [PStr subdomain]) (\<lambda>_.
          sret 1)))
       (sret 0))"

section \<open>What the statements mean\<close>

text \<open>
  The tables of the schema, rows by primary key: \<open>kvstore\<close> by subdomain and key, \<open>locks\<close> by
  name, and \<open>session_data\<close> by \<open>id\<close> alone.  Times are in seconds.
\<close>

record kv_row =
  kv_value :: string
  kv_expire_at :: int
  kv_is_filename :: int

record session_row =
  sess_subdomain :: string
  sess_data :: string
  sess_expires :: int

record tables =
  tb_kv :: "((string \<times> string) \<times> kv_row) list"
  tb_locks :: "(string \<times> int) list"
  tb_sessions :: "(string \<times> session_row) list"

fun sql_exec :: "string \<Rightarrow> int \<Rightarrow> string \<Rightarrow> sql_param list \<Rightarrow> tables \<Rightarrow> tables option" where
  "sql_exec db now sql [] t =
     (if sql = sql_gc db then Some (t\<lparr>tb_sessions := filter (\<lambda>r. \<not> sess_expires (snd r) < now) (tb_sessions t)\<rparr>)
      else if sql = sql_lock_sweep db then Some (t\<lparr>tb_locks := filter (\<lambda>r. \<not> snd r < now - 60) (tb_locks t)\<rparr>)
      else None)"
| "sql_exec db now sql [PStr a] t =
     (if sql = sql_lt_empty db then Some (t\<lparr>tb_kv := filter (\<lambda>r. fst (fst r) \<noteq> a) (tb_kv t)\<rparr>)
      else if sql = sql_lt_expire db then
        Some (t\<lparr>tb_kv := filter (\<lambda>r. \<not> (fst (fst r) = a \<and> kv_expire_at (snd r) < now)) (tb_kv t)\<rparr>)
      else if sql = sql_unlock db then Some (t\<lparr>tb_locks := filter (\<lambda>r. fst r \<noteq> a) (tb_locks t)\<rparr>)
      else if sql = sql_lock_insert db then
        (if map_of (tb_locks t) a = None then Some (t\<lparr>tb_locks := (a, now) # tb_locks t\<rparr>) else None)
      else None)"
| "sql_exec db now sql [PStr a, PStr b] t =
     (if sql = sql_lt_clear db then Some (t\<lparr>tb_kv := filter (\<lambda>r. fst r \<noteq> (a, b)) (tb_kv t)\<rparr>)
      else if sql = sql_lt_delete db then Some (t\<lparr>tb_kv := filter (\<lambda>r. fst r \<noteq> (b, a)) (tb_kv t)\<rparr>)
      else if sql = sql_session_delete db then
        Some (t\<lparr>tb_sessions := filter (\<lambda>r. \<not> (fst r = a \<and> sess_subdomain (snd r) = b)) (tb_sessions t)\<rparr>)
      else None)"
| "sql_exec db now sql [PStr k, PStr s, PStr v, PInt n] t =
     (if sql = sql_session_insert db then
        (if map_of (tb_sessions t) k = None
         then Some (t\<lparr>tb_sessions := (k, \<lparr>sess_subdomain = s, sess_data = v, sess_expires = now + n\<rparr>) # tb_sessions t\<rparr>)
         else None)
      else None)"
| "sql_exec db now sql [PStr k, PStr s, PStr v, PInt days, PInt f] t =
     (if sql = sql_lt_insert db then
        (if map_of (tb_kv t) (s, k) = None
         then Some (t\<lparr>tb_kv := ((s, k), \<lparr>kv_value = v, kv_expire_at = now + 86400 * days, kv_is_filename = f\<rparr>) # tb_kv t\<rparr>)
         else None)
      else None)"
| "sql_exec db now sql [PInt days, PStr k, PStr s] t =
     (if sql = sql_lt_renew db then
        Some (t\<lparr>tb_kv := map (\<lambda>r. if fst r = (s, k) then (fst r, (snd r)\<lparr>kv_expire_at := now + 86400 * days\<rparr>) else r) (tb_kv t)\<rparr>)
      else None)"
| "sql_exec db now sql ps t = None"

definition string_columns :: "(string \<times> string) list \<Rightarrow> int \<Rightarrow> sql_row" where
  "string_columns cols n = \<lparr>get_column_string = (\<lambda>c. case map_of cols c of Some v \<Rightarrow> v | None \<Rightarrow> []),
     get_column_int = (\<lambda>_. n)\<rparr>"

fun sql_select :: "string \<Rightarrow> int \<Rightarrow> string \<Rightarrow> sql_param list \<Rightarrow> tables \<Rightarrow> sql_row list" where
  "sql_select db now sql [PStr a] t =
     (if sql = sql_lt_files db then
        map (\<lambda>r. string_columns [(''k'', snd (fst r)), (''v'', kv_value (snd r))] 0)
          (filter (\<lambda>r. fst (fst r) = a \<and> kv_is_filename (snd r) = 1) (tb_kv t))
      else [])"
| "sql_select db now sql [PStr k, PStr s] t =
     (if sql = sql_lt_get db then
        map (\<lambda>r. string_columns [(''v'', kv_value (snd r))]
             (kv_expire_at (snd r) div 86400 - now div 86400))
          (filter (\<lambda>r. fst r = (s, k)) (tb_kv t))
      else if sql = sql_session_get db then
        map (\<lambda>r. string_columns [(''data'', sess_data (snd r))] 0)
          (filter (\<lambda>r. fst r = k \<and> sess_subdomain (snd r) = s) (tb_sessions t))
      else [])"
| "sql_select db now sql ps t = []"

text \<open>
  The server as the program relies on it.  \<open>plain\<close> are the keys that the columns' collation
  and lengths compare exactly (lower case, short).  Any call may throw, and then changes
  nothing; time does not run backwards.  \<open>reliable\<close>: only a duplicate key is an error.
\<close>

definition plain_keys :: "(string \<Rightarrow> bool) \<Rightarrow> sql_param list \<Rightarrow> bool" where
  "plain_keys plain ps \<longleftrightarrow>
     list_all (\<lambda>p. case p of PStr s \<Rightarrow> plain s | PInt _ \<Rightarrow> True)
       (take 2 (filter (\<lambda>p. case p of PStr _ \<Rightarrow> True | PInt _ \<Rightarrow> False) ps))"

definition mysql_contract ::
  "('c, 'm) mysql_lib \<Rightarrow> string \<Rightarrow> (string \<Rightarrow> bool) \<Rightarrow> ('m \<Rightarrow> tables) \<Rightarrow> ('m \<Rightarrow> int) \<Rightarrow> bool" where
  "mysql_contract lib db plain tables now \<longleftrightarrow>
     (\<forall>c sql m. case my_prepare lib c sql m of (thrown, m') \<Rightarrow>
        tables m' = tables m \<and> now m \<le> now m' \<and> (\<forall>e. thrown = Some e \<longrightarrow> is_sql_exception e)) \<and>
     (\<forall>c sql ps m. plain_keys plain ps \<longrightarrow> (case my_execute lib c sql ps m of (thrown, m') \<Rightarrow>
        now m \<le> now m' \<and>
        (case thrown of
           None \<Rightarrow> sql_exec db (now m') sql ps (tables m) = Some (tables m')
         | Some e \<Rightarrow> is_sql_exception e \<and> tables m' = tables m))) \<and>
     (\<forall>c sql ps m. plain_keys plain ps \<longrightarrow> (case my_query lib c sql ps m of ((rows, thrown), m') \<Rightarrow>
        tables m' = tables m \<and> now m \<le> now m' \<and>
        (case thrown of
           None \<Rightarrow> rows = sql_select db (now m') sql ps (tables m)
         | Some e \<Rightarrow> is_sql_exception e)))"

definition mysql_reliable ::
  "('c, 'm) mysql_lib \<Rightarrow> string \<Rightarrow> ('m \<Rightarrow> tables) \<Rightarrow> ('m \<Rightarrow> int) \<Rightarrow> bool" where
  "mysql_reliable lib db tables now \<longleftrightarrow>
     (\<forall>c sql m. fst (my_prepare lib c sql m) = None) \<and>
     (\<forall>c sql ps m. case my_execute lib c sql ps m of (thrown, m') \<Rightarrow>
        thrown \<noteq> None \<longrightarrow> sql_exec db (now m') sql ps (tables m) = None) \<and>
     (\<forall>c sql ps m. snd (fst (my_query lib c sql ps m)) = None)"

text \<open>An instance: the tables with a clock that ticks once per statement.\<close>

definition mysql_ref :: "string \<Rightarrow> ('c, tables \<times> int) mysql_lib" where
  "mysql_ref db = \<lparr>
     my_prepare = (\<lambda>_ _ m. (None, m)),
     my_execute = (\<lambda>_ sql ps (t, n).
       (case sql_exec db (n + 1) sql ps t of
          Some t' \<Rightarrow> (None, (t', n + 1)) | None \<Rightarrow> (Some (StdError ''sql''), (t, n + 1)))),
     my_query = (\<lambda>_ sql ps (t, n). ((sql_select db n sql ps t, None), (t, n)))\<rparr>"

lemma mysql_ref_contract: "mysql_contract (mysql_ref db) db plain fst snd"
  by (auto simp: mysql_contract_def mysql_ref_def split: option.splits)

lemma mysql_ref_reliable: "mysql_reliable (mysql_ref db) db fst snd"
  by (auto simp: mysql_reliable_def mysql_ref_def split: option.splits)

section \<open>Rules for the calls\<close>

text \<open>The effects on single rows, by name.\<close>

definition drop_session :: "string \<Rightarrow> string \<Rightarrow> tables \<Rightarrow> tables" where
  "drop_session k s t = t\<lparr>tb_sessions := filter (\<lambda>r. \<not> (fst r = k \<and> sess_subdomain (snd r) = s)) (tb_sessions t)\<rparr>"

definition add_session :: "string \<Rightarrow> session_row \<Rightarrow> tables \<Rightarrow> tables" where
  "add_session k row t = t\<lparr>tb_sessions := (k, row) # tb_sessions t\<rparr>"

definition renewed :: "string \<Rightarrow> string \<Rightarrow> int \<Rightarrow> tables \<Rightarrow> tables" where
  "renewed s k e t = t\<lparr>tb_kv :=
     map (\<lambda>r. if fst r = (s, k) then (fst r, (snd r)\<lparr>kv_expire_at := e\<rparr>) else r) (tb_kv t)\<rparr>"

definition drop_kv :: "string \<times> string \<Rightarrow> tables \<Rightarrow> tables" where
  "drop_kv k t = t\<lparr>tb_kv := filter (\<lambda>r. fst r \<noteq> k) (tb_kv t)\<rparr>"

definition add_kv :: "string \<times> string \<Rightarrow> kv_row \<Rightarrow> tables \<Rightarrow> tables" where
  "add_kv k row t = t\<lparr>tb_kv := (k, row) # tb_kv t\<rparr>"

lemma sql_exec_lock_insert [simp]:
  "sql_exec db n (sql_lock_insert db) [PStr a] t =
     (if map_of (tb_locks t) a = None then Some (t\<lparr>tb_locks := (a, n) # tb_locks t\<rparr>) else None)"
  by (simp add: sql_defs)

lemma sql_exec_lock_sweep [simp]:
  "sql_exec db n (sql_lock_sweep db) [] t =
     Some (t\<lparr>tb_locks := filter (\<lambda>r. \<not> snd r < n - 60) (tb_locks t)\<rparr>)"
  by (simp add: sql_defs)

lemma sql_exec_unlock [simp]:
  "sql_exec db n (sql_unlock db) [PStr a] t = Some (t\<lparr>tb_locks := filter (\<lambda>r. fst r \<noteq> a) (tb_locks t)\<rparr>)"
  by (simp add: sql_defs)

lemma sql_exec_gc [simp]:
  "sql_exec db n (sql_gc db) [] t =
     Some (t\<lparr>tb_sessions := filter (\<lambda>r. \<not> sess_expires (snd r) < n) (tb_sessions t)\<rparr>)"
  by (simp add: sql_defs)

lemma sql_exec_session_delete [simp]:
  "sql_exec db n (sql_session_delete db) [PStr k, PStr s] t =
     Some (drop_session k s t)"
  by (simp add: sql_defs drop_session_def)

lemma sql_exec_session_insert [simp]:
  "sql_exec db n (sql_session_insert db) [PStr k, PStr s, PStr v, PInt i] t =
     (if map_of (tb_sessions t) k = None
      then Some (add_session k \<lparr>sess_subdomain = s, sess_data = v, sess_expires = n + i\<rparr> t)
      else None)"
  by (simp add: add_session_def)

lemma sql_exec_lt_insert [simp]:
  "sql_exec db n (sql_lt_insert db) [PStr k, PStr s, PStr v, PInt days, PInt f] t =
     (if map_of (tb_kv t) (s, k) = None
      then Some (add_kv (s, k) \<lparr>kv_value = v, kv_expire_at = n + 86400 * days, kv_is_filename = f\<rparr> t)
      else None)"
  by (simp add: add_kv_def)

lemma sql_exec_lt_renew [simp]:
  "sql_exec db n (sql_lt_renew db) [PInt days, PStr k, PStr s] t =
     Some (renewed s k (n + 86400 * days) t)"
  by (simp add: renewed_def)

lemma sql_exec_lt_clear [simp]:
  "sql_exec db n (sql_lt_clear db) [PStr s, PStr k] t =
     Some (drop_kv (s, k) t)"
  by (simp add: sql_defs drop_kv_def)

lemma sql_exec_lt_delete [simp]:
  "sql_exec db n (sql_lt_delete db) [PStr k, PStr s] t =
     Some (drop_kv (s, k) t)"
  by (simp add: sql_defs drop_kv_def)

lemma sql_exec_lt_empty [simp]:
  "sql_exec db n (sql_lt_empty db) [PStr s] t =
     Some (t\<lparr>tb_kv := filter (\<lambda>r. fst (fst r) \<noteq> s) (tb_kv t)\<rparr>)"
  by (simp add: sql_defs)

lemma sql_select_session [simp]:
  "sql_select db n (sql_session_get db) [PStr k, PStr s] t =
     map (\<lambda>r. string_columns [(''data'', sess_data (snd r))] 0)
       (filter (\<lambda>r. fst r = k \<and> sess_subdomain (snd r) = s) (tb_sessions t))"
  by (simp add: sql_defs)

lemma sql_select_lt [simp]:
  "sql_select db n (sql_lt_get db) [PStr k, PStr s] t =
     map (\<lambda>r. string_columns [(''v'', kv_value (snd r))] (kv_expire_at (snd r) div 86400 - n div 86400))
       (filter (\<lambda>r. fst r = (s, k)) (tb_kv t))"
  by simp

text \<open>From here on the statements are names: only the lemmas above speak of their texts.\<close>

declare sql_exec.simps [simp del] sql_select.simps [simp del]

lemma plain_keys_simps [simp]:
  "plain_keys plain []"
  "plain_keys plain [PStr a] \<longleftrightarrow> plain a"
  "plain_keys plain (PStr a # PStr b # ps) \<longleftrightarrow> plain a \<and> plain b"
  "plain_keys plain [PInt i, PStr a, PStr b] \<longleftrightarrow> plain a \<and> plain b"
  by (simp_all add: plain_keys_def)

lemma post_prepare:
  assumes "mysql_contract lib db plain tables now"
    and "\<And>m'. tables m' = tables m \<Longrightarrow> now m \<le> now m' \<Longrightarrow> P (Inr ()) m'"
    and "\<And>e m'. is_sql_exception e \<Longrightarrow> tables m' = tables m \<Longrightarrow> now m \<le> now m' \<Longrightarrow> P (Inl e) m'"
  shows "post (prepare lib c sql) m P"
proof -
  have "case my_prepare lib c sql m of (thrown, m') \<Rightarrow>
      tables m' = tables m \<and> now m \<le> now m' \<and> (\<forall>e. thrown = Some e \<longrightarrow> is_sql_exception e)"
    by (rule assms(1) [unfolded mysql_contract_def, THEN conjunct1, rule_format])
  then show ?thesis
    using assms(2,3) by (auto simp: post_def prepare_def split: prod.splits option.splits)
qed

lemma post_execute:
  assumes "mysql_contract lib db plain tables now" and "plain_keys plain ps"
    and "\<And>m'. sql_exec db (now m') sql ps (tables m) = Some (tables m') \<Longrightarrow> now m \<le> now m' \<Longrightarrow> P (Inr ()) m'"
    and "\<And>e m'. is_sql_exception e \<Longrightarrow> tables m' = tables m \<Longrightarrow> now m \<le> now m' \<Longrightarrow> P (Inl e) m'"
  shows "post (execute lib c sql ps) m P"
proof -
  have "case my_execute lib c sql ps m of (thrown, m') \<Rightarrow> now m \<le> now m' \<and>
      (case thrown of None \<Rightarrow> sql_exec db (now m') sql ps (tables m) = Some (tables m')
       | Some e \<Rightarrow> is_sql_exception e \<and> tables m' = tables m)"
    by (rule assms(1) [unfolded mysql_contract_def, THEN conjunct2, THEN conjunct1, rule_format, OF assms(2)])
  then show ?thesis
    using assms(3,4) by (auto simp: post_def execute_def split: prod.splits option.splits)
qed

lemma post_execute_query:
  assumes "mysql_contract lib db plain tables now" and "plain_keys plain ps"
    and "\<And>m'. tables m' = tables m \<Longrightarrow> now m \<le> now m' \<Longrightarrow>
           P (Inr (sql_select db (now m') sql ps (tables m))) m'"
    and "\<And>e m'. is_sql_exception e \<Longrightarrow> tables m' = tables m \<Longrightarrow> now m \<le> now m' \<Longrightarrow> P (Inl e) m'"
  shows "post (execute_query lib c sql ps) m P"
proof -
  have "case my_query lib c sql ps m of ((rows, thrown), m') \<Rightarrow> tables m' = tables m \<and> now m \<le> now m' \<and>
      (case thrown of None \<Rightarrow> rows = sql_select db (now m') sql ps (tables m)
       | Some e \<Rightarrow> is_sql_exception e)"
    by (rule assms(1) [unfolded mysql_contract_def, THEN conjunct2, THEN conjunct2, rule_format, OF assms(2)])
  then show ?thesis
    using assms(3,4) by (auto simp: post_def execute_query_def split: prod.splits option.splits)
qed

lemma post_catch_sql:
  "post (catch_sql b h) m P =
     post b m (\<lambda>r m'. case r of Inr x \<Rightarrow> P (Inr x) m'
       | Inl e \<Rightarrow> if is_sql_exception e then post h m' P else P (Inl e) m')"
  by (auto simp: post_def catch_sql_def split: prod.splits sum.splits)

section \<open>Locks\<close>

lemma mysql_lock_post:
  assumes c: "mysql_contract lib db plain tables now" and r: "ready p" and s: "plain s"
  shows "post (mysql_lock lib db s) (p, m) (\<lambda>r (p', m'). p' = p \<and> now m \<le> now m' \<and>
    ((r = Inr 1 \<and> map_of (tb_locks (tables m)) s = None \<and>
        tables m' = (tables m)\<lparr>tb_locks := (s, now m') # tb_locks (tables m)\<rparr>)
     \<or> (r = Inr 0 \<and> (tables m' = tables m \<or>
         tables m' = (tables m)\<lparr>tb_locks := filter (\<lambda>r. \<not> snd r < now m' - 60) (tb_locks (tables m))\<rparr>))))"
  unfolding mysql_lock_def
  by (rule post_with_connection [OF r])
    (auto simp: post_catch_sql post_simps s intro!: post_prepare [OF c] post_execute [OF c]
      split: if_splits)

lemma mysql_unlock_post:
  assumes c: "mysql_contract lib db plain tables now" and r: "ready p" and s: "plain s"
  shows "post (mysql_unlock lib db s) (p, m) (\<lambda>r (p', m'). p' = p \<and> now m \<le> now m' \<and>
    ((r = Inr 1 \<and> tables m' = (tables m)\<lparr>tb_locks := filter (\<lambda>r. fst r \<noteq> s) (tb_locks (tables m))\<rparr>)
     \<or> (r = Inr 0 \<and> tables m' = tables m)))"
  unfolding mysql_unlock_def
  by (rule post_with_connection [OF r])
    (auto simp: post_catch_sql post_simps s intro!: post_prepare [OF c] post_execute [OF c])

text \<open>A sequence of lock and unlock requests, with the status each returns.\<close>

datatype lock_op = Lock string | Unlock string

fun lock_name :: "lock_op \<Rightarrow> string" where
  "lock_name (Lock s) = s"
| "lock_name (Unlock s) = s"

fun lock_step :: "('c, 'm) mysql_lib \<Rightarrow> string \<Rightarrow> lock_op \<Rightarrow> ('c, 'm, int) mysql_op" where
  "lock_step lib db (Lock s) = mysql_lock lib db s"
| "lock_step lib db (Unlock s) = mysql_unlock lib db s"

abbreviation lock_run :: "('c, 'm) mysql_lib \<Rightarrow> string \<Rightarrow> lock_op list \<Rightarrow> ('c, 'm, int list) mysql_op" where
  "lock_run lib db \<equiv> smap (lock_step lib db)"

definition lock_held :: "tables \<Rightarrow> string \<Rightarrow> int \<Rightarrow> bool" where
  "lock_held t s t0 \<longleftrightarrow> (s, t0) \<in> set (tb_locks t)"

lemma lock_held_map_of: "lock_held t s t0 \<Longrightarrow> map_of (tb_locks t) s \<noteq> None"
  by (auto simp: lock_held_def dest: weak_map_of_SomeI)

lemma lock_step_post:
  assumes "mysql_contract lib db plain tables now" and "ready p" and "plain (lock_name a)"
  shows "post (lock_step lib db a) (p, m) (\<lambda>r (p', m'). p' = p \<and> now m \<le> now m' \<and>
    (\<exists>b. r = Inr b \<and> (lock_held (tables m) s t0 \<and> a \<noteq> Unlock s \<and> now m' \<le> t0 + 60 \<longrightarrow>
       lock_held (tables m') s t0 \<and> (a = Lock s \<longrightarrow> b = 0))))"
proof (cases a)
  case (Lock x)
  then show ?thesis
    using assms(3) mysql_lock_post [OF assms(1,2), of x m]
    by (auto elim!: post_mono) (auto simp: lock_held_def dest: weak_map_of_SomeI)
next
  case (Unlock x)
  then show ?thesis
    using assms(3) mysql_unlock_post [OF assms(1,2), of x m]
    by (auto elim!: post_mono) (auto simp: lock_held_def)
qed

lemma lock_run_post:
  assumes "mysql_contract lib db plain tables now" and "ready p" and "\<forall>a\<in>set ops. plain (lock_name a)"
    and "Unlock s \<notin> set ops"
  shows "post (lock_run lib db ops) (p, m) (\<lambda>r (p', m'). p' = p \<and> now m \<le> now m' \<and>
    (\<exists>rs. r = Inr rs \<and> length rs = length ops \<and>
      (lock_held (tables m) s t0 \<and> now m' \<le> t0 + 60 \<longrightarrow>
        lock_held (tables m') s t0 \<and> (\<forall>i<length ops. ops ! i = Lock s \<longrightarrow> rs ! i = 0))))"
  using assms(3,4)
proof (induction ops arbitrary: m)
  case Nil
  then show ?case by (simp add: post_simps)
next
  case (Cons a ops)
  have step: "post (lock_step lib db a) (p, m) (\<lambda>r (p', m'). p' = p \<and> now m \<le> now m' \<and>
    (\<exists>b. r = Inr b \<and> (lock_held (tables m) s t0 \<and> a \<noteq> Unlock s \<and> now m' \<le> t0 + 60 \<longrightarrow>
       lock_held (tables m') s t0 \<and> (a = Lock s \<longrightarrow> b = 0))))"
    using Cons.prems(1) by (intro lock_step_post [OF assms(1,2)]) simp
  have IH: "post (lock_run lib db ops) (p, m1) (\<lambda>r (p', m'). p' = p \<and> now m1 \<le> now m' \<and>
    (\<exists>rs. r = Inr rs \<and> length rs = length ops \<and>
      (lock_held (tables m1) s t0 \<and> now m' \<le> t0 + 60 \<longrightarrow>
        lock_held (tables m') s t0 \<and> (\<forall>i<length ops. ops ! i = Lock s \<longrightarrow> rs ! i = 0))))" for m1
    using Cons.prems by (intro Cons.IH) simp_all
  show ?case
    unfolding smap.simps post_sbind
  proof (rule post_mono [OF step], goal_cases)
    case (1 r s')
    then obtain m1 b where s': "s' = (p, m1)" "r = Inr b" "now m \<le> now m1"
      and b: "lock_held (tables m) s t0 \<and> a \<noteq> Unlock s \<and> now m1 \<le> t0 + 60 \<longrightarrow>
        lock_held (tables m1) s t0 \<and> (a = Lock s \<longrightarrow> b = 0)"
      by (cases s') auto
    show ?case
      using s' b Cons.prems(2)
      by (simp add: post_sbind, intro post_mono [OF IH [of m1]])
        (auto simp: post_simps nth_Cons split: nat.splits)
  qed
qed

section \<open>A server that answers\<close>

lemma post_prepare_reliable:
  assumes "mysql_contract lib db plain tables now" and "mysql_reliable lib db tables now"
    and "\<And>m'. tables m' = tables m \<Longrightarrow> now m \<le> now m' \<Longrightarrow> P (Inr ()) m'"
  shows "post (prepare lib c sql) m P"
proof -
  have "case my_prepare lib c sql m of (thrown, m') \<Rightarrow>
      tables m' = tables m \<and> now m \<le> now m' \<and> (\<forall>e. thrown = Some e \<longrightarrow> is_sql_exception e)"
    by (rule assms(1) [unfolded mysql_contract_def, THEN conjunct1, rule_format])
  moreover have "fst (my_prepare lib c sql m) = None"
    using assms(2) unfolding mysql_reliable_def by blast
  ultimately show ?thesis
    using assms(3) by (auto simp: post_def prepare_def split: prod.splits option.splits)
qed

lemma post_execute_reliable:
  assumes "mysql_contract lib db plain tables now" and "mysql_reliable lib db tables now"
    and "plain_keys plain ps"
    and "\<And>m'. sql_exec db (now m') sql ps (tables m) = Some (tables m') \<Longrightarrow> now m \<le> now m' \<Longrightarrow> P (Inr ()) m'"
    and "\<And>e m'. sql_exec db (now m') sql ps (tables m) = None \<Longrightarrow> is_sql_exception e \<Longrightarrow>
           tables m' = tables m \<Longrightarrow> now m \<le> now m' \<Longrightarrow> P (Inl e) m'"
  shows "post (execute lib c sql ps) m P"
proof -
  have "case my_execute lib c sql ps m of (thrown, m') \<Rightarrow> now m \<le> now m' \<and>
      (case thrown of None \<Rightarrow> sql_exec db (now m') sql ps (tables m) = Some (tables m')
       | Some e \<Rightarrow> is_sql_exception e \<and> tables m' = tables m)"
    by (rule assms(1) [unfolded mysql_contract_def, THEN conjunct2, THEN conjunct1, rule_format, OF assms(3)])
  moreover have "case my_execute lib c sql ps m of (thrown, m') \<Rightarrow>
      thrown \<noteq> None \<longrightarrow> sql_exec db (now m') sql ps (tables m) = None"
    by (rule assms(2) [unfolded mysql_reliable_def, THEN conjunct2, THEN conjunct1, rule_format])
  ultimately show ?thesis
    using assms(4,5) by (auto simp: post_def execute_def split: prod.splits option.splits)
qed

lemma post_execute_query_reliable:
  assumes "mysql_contract lib db plain tables now" and "mysql_reliable lib db tables now"
    and "plain_keys plain ps"
    and "\<And>m'. tables m' = tables m \<Longrightarrow> now m \<le> now m' \<Longrightarrow>
           P (Inr (sql_select db (now m') sql ps (tables m))) m'"
  shows "post (execute_query lib c sql ps) m P"
proof -
  have "case my_query lib c sql ps m of ((rows, thrown), m') \<Rightarrow> tables m' = tables m \<and> now m \<le> now m' \<and>
      (case thrown of None \<Rightarrow> rows = sql_select db (now m') sql ps (tables m)
       | Some e \<Rightarrow> is_sql_exception e)"
    by (rule assms(1) [unfolded mysql_contract_def, THEN conjunct2, THEN conjunct2, rule_format, OF assms(3)])
  moreover have "snd (fst (my_query lib c sql ps m)) = None"
    using assms(2) unfolding mysql_reliable_def by blast
  ultimately show ?thesis
    using assms(4) by (auto simp: post_def execute_query_def split: prod.splits option.splits)
qed

lemmas reliable_rules = post_prepare_reliable post_execute_reliable post_execute_query_reliable

text \<open>The session row of an id, as its owner sees it.\<close>

definition session_value :: "tables \<Rightarrow> string \<Rightarrow> string \<Rightarrow> string" where
  "session_value t s k = (case map_of (tb_sessions t) k of
     Some r \<Rightarrow> (if sess_subdomain r = s then sess_data r else []) | None \<Rightarrow> [])"

definition primary_keys :: "tables \<Rightarrow> bool" where
  "primary_keys t \<longleftrightarrow> distinct (map fst (tb_sessions t)) \<and> distinct (map fst (tb_kv t))"

lemma filter_key:
  assumes "distinct (map fst xs)"
  shows "filter (\<lambda>r. fst r = k \<and> Q (snd r)) xs =
    (case map_of xs k of Some v \<Rightarrow> (if Q v then [(k, v)] else []) | None \<Rightarrow> [])"
  using assms
proof (induction xs)
  case (Cons x xs)
  show ?case
  proof (cases "fst x = k")
    case True
    with Cons.prems have n: "map_of xs k = None" by (auto simp: map_of_eq_None_iff)
    with Cons.IH Cons.prems have "filter (\<lambda>r. fst r = k \<and> Q (snd r)) xs = []" by simp
    with True show ?thesis by (cases x) auto
  next
    case False
    with Cons show ?thesis by (cases x) auto
  qed
qed simp

lemma map_of_filter_not:
  assumes "distinct (map fst xs)"
  shows "map_of (filter (\<lambda>r. \<not> (fst r = k \<and> Q (snd r))) xs) k' =
    (case map_of xs k' of Some v \<Rightarrow> (if k' = k \<and> Q v then None else Some v) | None \<Rightarrow> None)"
  using assms
proof (induction xs)
  case (Cons x xs)
  show ?case
  proof (cases "fst x = k'")
    case True
    with Cons.prems have n: "map_of xs k' = None" by (auto simp: map_of_eq_None_iff)
    with Cons.IH Cons.prems True show ?thesis by (cases x) auto
  next
    case False
    with Cons show ?thesis by (cases x) auto
  qed
qed simp

lemma map_of_drop_session:
  assumes "primary_keys t"
  shows "map_of (tb_sessions (drop_session k s t)) k' =
    (case map_of (tb_sessions t) k' of
       Some r \<Rightarrow> (if k' = k \<and> sess_subdomain r = s then None else Some r) | None \<Rightarrow> None)"
proof -
  have "distinct (map fst (tb_sessions t))" using assms by (simp only: primary_keys_def)
  from map_of_filter_not [OF this, of k "\<lambda>r. sess_subdomain r = s" k'] show ?thesis
    by (simp add: drop_session_def)
qed

lemma map_of_add_session [simp]:
  "map_of (tb_sessions (add_session k row t)) = (map_of (tb_sessions t))(k \<mapsto> row)"
  by (simp add: add_session_def)

lemma primary_keys_drop_session [simp]: "primary_keys t \<Longrightarrow> primary_keys (drop_session k s t)"
  by (simp add: primary_keys_def drop_session_def distinct_map_filter)

lemma primary_keys_add_session [simp]:
  "map_of (tb_sessions t) k = None \<Longrightarrow> primary_keys (add_session k row t) \<longleftrightarrow> primary_keys t"
  by (simp add: primary_keys_def add_session_def map_of_eq_None_iff)

lemma select_session_value:
  assumes "primary_keys t"
  shows "fold (\<lambda>r _. get_column_string r ''data'')
     (sql_select db n (sql_session_get db) [PStr k, PStr s] t) [] = session_value t s k"
proof -
  have "filter (\<lambda>r. fst r = k \<and> sess_subdomain (snd r) = s) (tb_sessions t) =
      (case map_of (tb_sessions t) k of
         Some v \<Rightarrow> (if sess_subdomain v = s then [(k, v)] else []) | None \<Rightarrow> [])"
    by (rule filter_key) (use assms in \<open>simp only: primary_keys_def\<close>)
  then show ?thesis
    by (simp add: session_value_def string_columns_def split: option.splits)
qed

lemma mysql_session_get_post:
  assumes "mysql_contract lib db plain tables now" "mysql_reliable lib db tables now" "ready p"
    "plain s" "plain k" "primary_keys (tables m)"
  shows "post (mysql_session_get lib db s k) (p, m) (\<lambda>r (p', m'). p' = p \<and> now m \<le> now m' \<and>
    tables m' = tables m \<and> r = Inr (session_value (tables m) s k))"
  unfolding mysql_session_get_def
  by (rule post_with_connection [OF assms(3)])
    (use assms(4-6) in \<open>auto simp: post_catch_sql post_simps select_session_value
      simp del: sql_select_session intro!: reliable_rules [OF assms(1,2)]\<close>)

lemma session_value_add_same [simp]:
  "session_value (add_session k \<lparr>sess_subdomain = s, sess_data = v, sess_expires = e\<rparr> t) s k = v"
  by (simp add: session_value_def)

lemma session_value_add_other:
  "map_of (tb_sessions t) k = None \<Longrightarrow> (s', k') \<noteq> (sess_subdomain row, k) \<Longrightarrow>
     session_value (add_session k row t) s' k' = session_value t s' k'"
  by (auto simp: session_value_def)

lemma session_value_drop:
  "primary_keys t \<Longrightarrow>
     session_value (drop_session k s t) s' k' = (if (s', k') = (s, k) then [] else session_value t s' k')"
  by (auto simp: session_value_def map_of_drop_session split: option.splits)

lemma drop_session_None:
  "primary_keys t \<Longrightarrow> map_of (tb_sessions (drop_session k s t)) k = None \<longleftrightarrow>
     (\<forall>r. map_of (tb_sessions t) k = Some r \<longrightarrow> sess_subdomain r = s)"
  by (auto simp: map_of_drop_session split: option.splits)

definition session_set_effect :: "string \<Rightarrow> string \<Rightarrow> string \<Rightarrow> tables \<Rightarrow> tables \<Rightarrow> bool" where
  "session_set_effect s k v t t' \<longleftrightarrow> primary_keys t' \<and>
    session_value t' s k =
      (if \<exists>r. map_of (tb_sessions t) k = Some r \<and> sess_subdomain r \<noteq> s then [] else v) \<and>
    (\<forall>s' k'. (s', k') \<noteq> (s, k) \<longrightarrow> session_value t' s' k' = session_value t s' k')"

lemma session_set_effect_new:
  assumes "primary_keys t" and t1: "drop_session k s t = t1" and "map_of (tb_sessions t1) k = None"
    and "add_session k \<lparr>sess_subdomain = s, sess_data = v, sess_expires = e\<rparr> t1 = t'"
  shows "session_set_effect s k v t t'"
  using assms(1,3,4) unfolding t1 [symmetric]
  by (auto simp: session_set_effect_def session_value_add_other session_value_drop drop_session_None)

lemma session_set_effect_taken:
  assumes "primary_keys t" and "drop_session k s t = t1" and "map_of (tb_sessions t1) k = Some r"
  shows "session_set_effect s k v t t1"
proof -
  have "\<exists>r. map_of (tb_sessions t) k = Some r \<and> sess_subdomain r \<noteq> s"
    using assms(3) unfolding assms(2) [symmetric]
    by (auto simp: map_of_drop_session [OF assms(1)] split: option.splits if_splits)
  then show ?thesis
    using assms(1) unfolding assms(2) [symmetric]
    by (simp add: session_set_effect_def session_value_drop)
qed

lemma mysql_session_set_post:
  assumes "mysql_contract lib db plain tables now" "mysql_reliable lib db tables now" "ready p"
    "plain s" "plain k" "primary_keys (tables m)"
  shows "post (mysql_session_set lib db s k v) (p, m) (\<lambda>r (p', m'). p' = p \<and> now m \<le> now m' \<and>
    r = Inr () \<and> session_set_effect s k v (tables m) (tables m'))"
  unfolding mysql_session_set_def
  by (rule post_with_connection [OF assms(3)])
    (insert assms(4-6), auto simp: post_catch_sql post_simps
      intro!: reliable_rules [OF assms(1,2)] split: if_splits;
      (erule (3) session_set_effect_new | erule (2) session_set_effect_taken))

section \<open>The long-term cache\<close>

definition long_term_value :: "tables \<Rightarrow> string \<Rightarrow> string \<Rightarrow> string" where
  "long_term_value t s k = (case map_of (tb_kv t) (s, k) of Some r \<Rightarrow> kv_value r | None \<Rightarrow> [])"

lemma map_of_drop_kv [simp]:
  "map_of (tb_kv (drop_kv k t)) k' = (if k' = k then None else map_of (tb_kv t) k')"
  by (simp add: drop_kv_def map_of_filter_neq)

lemma map_of_add_kv [simp]: "map_of (tb_kv (add_kv k row t)) = (map_of (tb_kv t))(k \<mapsto> row)"
  by (simp add: add_kv_def)

lemma primary_keys_set_kv:
  "primary_keys t \<Longrightarrow> primary_keys (add_kv k row (drop_kv k t))"
  by (auto simp: primary_keys_def add_kv_def drop_kv_def distinct_map_filter)

lemma select_long_term:
  assumes "primary_keys t"
  shows "sql_select db n (sql_lt_get db) [PStr k, PStr s] t =
    (case map_of (tb_kv t) (s, k) of None \<Rightarrow> []
     | Some r \<Rightarrow> [string_columns [(''v'', kv_value r)] (kv_expire_at r div 86400 - n div 86400)])"
proof -
  have "filter (\<lambda>r. fst r = (s, k) \<and> True) (tb_kv t) =
      (case map_of (tb_kv t) (s, k) of Some v \<Rightarrow> (if True then [((s, k), v)] else []) | None \<Rightarrow> [])"
    by (rule filter_key) (use assms in \<open>simp only: primary_keys_def\<close>)
  then show ?thesis by (simp split: option.splits)
qed

definition long_term_set_effect :: "string \<Rightarrow> string \<Rightarrow> string \<Rightarrow> tables \<Rightarrow> tables \<Rightarrow> bool" where
  "long_term_set_effect s k v t t' \<longleftrightarrow> primary_keys t' \<and> long_term_value t' s k = v \<and>
    (\<forall>s' k'. (s', k') \<noteq> (s, k) \<longrightarrow> long_term_value t' s' k' = long_term_value t s' k')"

lemma mysql_long_term_set_post:
  assumes "mysql_contract lib db plain tables now" "mysql_reliable lib db tables now" "ready p"
    "plain s" "plain k" "primary_keys (tables m)"
  shows "post (mysql_long_term_set lib db s k v days f) (p, m) (\<lambda>r (p', m'). p' = p \<and> now m \<le> now m' \<and>
    r = Inr () \<and> long_term_set_effect s k v (tables m) (tables m'))"
proof -
  have eff: "long_term_set_effect s k v (tables m) t'"
    if "drop_kv (s, k) (tables m) = t1"
      "add_kv (s, k) \<lparr>kv_value = v, kv_expire_at = e, kv_is_filename = f\<rparr> t1 = t'" for t1 t' e
    using that(2) unfolding that(1) [symmetric]
    by (auto simp: long_term_set_effect_def long_term_value_def primary_keys_set_kv [OF assms(6)])
  have no: "map_of (tb_kv t1) (s, k) = None" if "drop_kv (s, k) (tables m) = t1" for t1
    unfolding that [symmetric] by simp
  show ?thesis
    unfolding mysql_long_term_set_def
    by (rule post_with_connection [OF assms(3)])
      (insert assms(4-6), auto simp: post_catch_sql post_simps no
        intro!: reliable_rules [OF assms(1,2)] split: if_splits; (erule (1) eff | simp add: no))
qed

text \<open>The value read is that of the row; the row is renewed exactly when asked for and due.\<close>

definition renewal_due :: "string \<Rightarrow> string \<Rightarrow> int \<Rightarrow> int \<Rightarrow> tables \<Rightarrow> bool" where
  "renewal_due s k renew n t \<longleftrightarrow> 0 < renew \<and>
     (case map_of (tb_kv t) (s, k) of Some row \<Rightarrow> kv_expire_at row div 86400 - n div 86400 < 10
      | None \<Rightarrow> False)"

definition long_term_get_effect ::
  "string \<Rightarrow> string \<Rightarrow> int \<Rightarrow> int \<Rightarrow> int \<Rightarrow> tables \<Rightarrow> tables \<Rightarrow> bool" where
  "long_term_get_effect s k renew lo hi t t' \<longleftrightarrow>
     (\<exists>n. lo \<le> n \<and> n \<le> hi \<and>
       t' = (if renewal_due s k renew n t then renewed s k (hi + 86400 * renew) t else t))"

lemma long_term_get_effectI:
  "lo \<le> n \<Longrightarrow> n \<le> hi \<Longrightarrow> renewal_due s k renew n t \<Longrightarrow> t' = renewed s k (hi + 86400 * renew) t \<Longrightarrow>
     long_term_get_effect s k renew lo hi t t'"
  "lo \<le> n \<Longrightarrow> n \<le> hi \<Longrightarrow> \<not> renewal_due s k renew n t \<Longrightarrow> t' = t \<Longrightarrow>
     long_term_get_effect s k renew lo hi t t'"
  unfolding long_term_get_effect_def by auto

lemma mysql_long_term_get_post:
  assumes "mysql_contract lib db plain tables now" "mysql_reliable lib db tables now" "ready p"
    "plain s" "plain k" "primary_keys (tables m)"
  shows "post (mysql_long_term_get lib db s k renew) (p, m) (\<lambda>r (p', m'). p' = p \<and> now m \<le> now m' \<and>
    r = Inr (long_term_value (tables m) s k) \<and>
    long_term_get_effect s k renew (now m) (now m') (tables m) (tables m'))"
proof (cases "map_of (tb_kv (tables m)) (s, k)")
  case None
  then have same: "long_term_get_effect s k renew lo hi (tables m) (tables m) \<longleftrightarrow> lo \<le> hi" for lo hi
    by (auto simp: long_term_get_effect_def renewal_due_def)
  show ?thesis
    unfolding mysql_long_term_get_def
    by (rule post_with_connection [OF assms(3)])
      (insert assms(4-6) None, auto simp: post_catch_sql post_simps select_long_term long_term_value_def same
        simp del: sql_select_lt intro!: reliable_rules [OF assms(1,2)])
next
  case (Some row)
  then have due: "renewal_due s k renew n (tables m) \<longleftrightarrow>
      0 < renew \<and> kv_expire_at row div 86400 - n div 86400 < 10" for n
    by (simp add: renewal_due_def)
  have row: "get_column_int (string_columns c i) x = i"
    "get_column_string (string_columns [(x, v)] i) x = v" for c i x v
    by (simp_all add: string_columns_def)
  show ?thesis
    unfolding mysql_long_term_get_def
    apply (rule post_with_connection [OF assms(3)])
    apply (insert assms(4-6) Some)
    apply (auto simp: post_catch_sql post_simps select_long_term long_term_value_def row Let_def
        simp del: sql_select_lt intro!: reliable_rules [OF assms(1,2)] split: if_splits)
    subgoal for m1 m2 m3 m4 by (rule long_term_get_effectI(1) [where n = "now m3"]) (simp_all add: due)
    subgoal for m1 m2 m3 by (rule long_term_get_effectI(2) [where n = "now m3"]) (simp_all add: due)
    subgoal for m1 m2 m3 by (rule long_term_get_effectI(2) [where n = "now m3"]) (simp_all add: due)
    done
qed

section \<open>Properties\<close>

text \<open>(C34) Site-wide locks exclude: once a request got the lock, no later request for the same
  name gets it while nobody releases it, for 60 seconds of server time, whatever else is
  locked and unlocked in between and whichever statements fail.\<close>

theorem sitewide_lock_exclusive:
  assumes "mysql_contract lib db plain tables now" and "ready p"
    and "\<forall>a\<in>set (Lock s # ops). plain (lock_name a)" and "Unlock s \<notin> set ops"
    and "lock_run lib db (Lock s # ops) (p, m) = (Inr (1 # rs), (p', m'))"
    and "now m' \<le> now m + 60"
  shows "p' = p \<and> length rs = length ops \<and> (\<forall>i<length ops. ops ! i = Lock s \<longrightarrow> rs ! i = 0)"
proof -
  from assms(5) obtain m1 p1 where l: "mysql_lock lib db s (p, m) = (Inr 1, (p1, m1))"
    and r: "lock_run lib db ops (p1, m1) = (Inr rs, (p', m'))"
    by (auto simp: sbind_eq_Inr_iff sm_simps)
  from postD [OF mysql_lock_post [OF assms(1,2), of s m] l] assms(3)
  have p1: "p1 = p" "now m \<le> now m1" and h: "lock_held (tables m1) s (now m1)"
    by (auto simp: lock_held_def)
  from assms(3) have pl: "\<forall>a\<in>set ops. plain (lock_name a)" by simp
  from postD [OF lock_run_post [OF assms(1,2) pl assms(4), of m1 "now m1"] r [unfolded p1(1)]]
  show ?thesis using h p1(2) assms(6) by auto
qed

definition demo_server :: "nat pool \<times> tables \<times> int" where
  "demo_server = (pool_new [Some 0] 4, \<lparr>tb_kv = [], tb_locks = [], tb_sessions = []\<rparr>, 100)"

definition demo_lib :: "(nat, tables \<times> int) mysql_lib" where
  "demo_lib = mysql_ref ''vaedb''"

lemma demo_contract: "mysql_contract demo_lib ''vaedb'' (\<lambda>_. True) fst snd"
  "mysql_reliable demo_lib ''vaedb'' fst snd"
  by (simp_all only: demo_lib_def mysql_ref_contract mysql_ref_reliable)

lemma demo_ready: "ready (pool_new [Some (0::nat)] 4)"
  by code_simp

lemma demo_primary: "primary_keys (fst (snd demo_server))"
  by code_simp

theorem sitewide_lock_exclusive_witness:
  "fst (lock_run demo_lib ''vaedb'' [Lock ''a'', Lock ''b'', Lock ''a''] demo_server) = Inr [1, 1, 0] \<and>
   [1, 0] ! 1 = (0 :: int)"
proof -
  define r where "r = lock_run demo_lib ''vaedb'' (Lock ''a'' # [Lock ''b'', Lock ''a'']) demo_server"
  have e: "fst r = Inr (1 # [1, 0])" and n: "snd (snd (snd r)) \<le> snd (snd demo_server) + 60"
    unfolding r_def by code_simp+
  have "lock_run demo_lib ''vaedb'' (Lock ''a'' # [Lock ''b'', Lock ''a''])
      (pool_new [Some 0] 4, snd demo_server) = (Inr (1 # [1, 0]), (fst (snd r), snd (snd r)))"
    using e by (simp add: r_def demo_server_def prod_eq_iff del: smap.simps)
  from sitewide_lock_exclusive [OF demo_contract(1) demo_ready _ _ this] n
  have "\<forall>i<2. [Lock ''b'', Lock ''a''] ! i = Lock ''a'' \<longrightarrow> [1, 0] ! i = (0 :: int)"
    by auto
  then have "[1, 0] ! 1 = (0 :: int)" by (auto dest: spec [of _ 1])
  with e show ?thesis by (simp add: r_def del: smap.simps)
qed

text \<open>(C33) The session cache: what is stored for a session id is read back, and no other entry
  of any site changes; but if the id has a row of another site, the value is lost without an
  error, because the primary key of the table is the id alone.\<close>

theorem session_cache_roundtrip:
  assumes "mysql_contract lib db plain tables now" and "mysql_reliable lib db tables now"
    and "ready p" and "plain s" and "plain k" and "primary_keys (tables m)"
  shows "\<exists>m1. mysql_session_set lib db s k v (p, m) = (Inr (), (p, m1)) \<and>
    fst (mysql_session_get lib db s k (p, m1)) =
      Inr (if \<exists>r. map_of (tb_sessions (tables m)) k = Some r \<and> sess_subdomain r \<noteq> s then [] else v) \<and>
    (\<forall>s' k'. plain s' \<and> plain k' \<and> (s', k') \<noteq> (s, k) \<longrightarrow>
      fst (mysql_session_get lib db s' k' (p, m1)) = fst (mysql_session_get lib db s' k' (p, m)))"
proof -
  obtain r p1 m1 where e: "mysql_session_set lib db s k v (p, m) = (r, (p1, m1))" by (metis surj_pair)
  from postD [OF mysql_session_set_post [OF assms(1-6)] e]
  have r: "r = Inr ()" "p1 = p" and eff: "session_set_effect s k v (tables m) (tables m1)" by auto
  have get: "fst (mysql_session_get lib db s' k' (p, m2)) = Inr (session_value (tables m2) s' k')"
    if "plain s'" "plain k'" "primary_keys (tables m2)" for s' k' m2
  proof -
    obtain r p3 m3 where e: "mysql_session_get lib db s' k' (p, m2) = (r, (p3, m3))" by (metis surj_pair)
    from postD [OF mysql_session_get_post [OF assms(1-3) that] e] show ?thesis by (simp add: e)
  qed
  show ?thesis
    using e r eff assms(4-6) by (intro exI [of _ m1]) (auto simp: get session_set_effect_def)
qed

theorem session_cache_roundtrip_witness:
  "\<exists>m1. mysql_session_set demo_lib ''vaedb'' ''a'' ''k'' ''v'' demo_server = (Inr (), (fst demo_server, m1)) \<and>
    fst (mysql_session_get demo_lib ''vaedb'' ''a'' ''k'' (fst demo_server, m1)) = Inr ''v''"
  using session_cache_roundtrip [OF demo_contract demo_ready _ _ _, where s = "''a''" and k = "''k''" and m = "snd demo_server" and v = "''v''"]
    demo_primary
  by (auto simp: demo_server_def)

text \<open>The long-term cache: a stored value is read back whatever was there, a read never
  loses or changes a value, and no entry of another key or site changes.\<close>

theorem long_term_cache_roundtrip:
  assumes "mysql_contract lib db plain tables now" and "mysql_reliable lib db tables now"
    and "ready p" and "plain s" and "plain k" and "primary_keys (tables m)"
  shows "\<exists>m1. mysql_long_term_set lib db s k v days f (p, m) = (Inr (), (p, m1)) \<and>
    (\<forall>renew. fst (mysql_long_term_get lib db s k renew (p, m1)) = Inr v) \<and>
    (\<forall>renew s' k'. plain s' \<and> plain k' \<and> (s', k') \<noteq> (s, k) \<longrightarrow>
      fst (mysql_long_term_get lib db s' k' renew (p, m1)) = fst (mysql_long_term_get lib db s' k' renew (p, m)))"
proof -
  obtain r p1 m1 where e: "mysql_long_term_set lib db s k v days f (p, m) = (r, (p1, m1))"
    by (metis surj_pair)
  from postD [OF mysql_long_term_set_post [OF assms(1-6)] e]
  have r: "r = Inr ()" "p1 = p" and eff: "long_term_set_effect s k v (tables m) (tables m1)" by auto
  have get: "fst (mysql_long_term_get lib db s' k' renew (p, m2)) = Inr (long_term_value (tables m2) s' k')"
    if "plain s'" "plain k'" "primary_keys (tables m2)" for s' k' renew m2
  proof -
    obtain r p3 m3 where e: "mysql_long_term_get lib db s' k' renew (p, m2) = (r, (p3, m3))"
      by (metis surj_pair)
    from postD [OF mysql_long_term_get_post [OF assms(1-3) that] e] show ?thesis by (simp add: e)
  qed
  show ?thesis
    using e r eff assms(4-6) by (intro exI [of _ m1]) (auto simp: get long_term_set_effect_def)
qed

theorem long_term_cache_roundtrip_witness:
  "\<exists>m1. mysql_long_term_set demo_lib ''vaedb'' ''a'' ''k'' ''v'' 7 0 demo_server = (Inr (), (fst demo_server, m1)) \<and>
    fst (mysql_long_term_get demo_lib ''vaedb'' ''a'' ''k'' 30 (fst demo_server, m1)) = Inr ''v''"
  using long_term_cache_roundtrip [OF demo_contract demo_ready _ _ _, where s = "''a''" and k = "''k''"
      and m = "snd demo_server" and v = "''v''" and days = 7 and f = 0]
    demo_primary
  by (auto simp: demo_server_def)

end
