(* ===== verification/QueryLog.thy ===== *)
theory QueryLog
  imports CStrings
begin

text \<open>
  \<^verbatim>\<open>src/query_log.h\<close> and \<^verbatim>\<open>src/query_log.cpp\<close>: the query log.  A \<open>QueryLogEntry\<close> takes
  the next query number when it is made, collects text, and writes it when it is destroyed.
  The escaping loop of the header may not end, so it is a partial function with \<open>None\<close> for
  "does not return"; the numbering is modelled at the level of its memory accesses, because
  the lock that should protect it is a temporary object.
\<close>

section \<open>Escaping of logged values\<close>

text \<open>\<open>str.find(search, loc)\<close>\<close>

function find_from :: "string \<Rightarrow> string \<Rightarrow> nat \<Rightarrow> nat option" where
  "find_from s p loc =
     (if length s < loc then None
      else if starts_with p (drop loc s) then Some loc
      else find_from s p (Suc loc))"
  by pat_completeness auto
termination by (relation "measure (\<lambda>(s, p, loc). Suc (length s) - loc)") auto

declare find_from.simps [simp del]

partial_function (option) log_str_replace :: "string \<Rightarrow> string \<Rightarrow> string \<Rightarrow> nat \<Rightarrow> string option" where
  "log_str_replace str search replacement loc =
     (case find_from str search loc of
        None \<Rightarrow> Some str
      | Some l \<Rightarrow> log_str_replace (take l str @ replacement @ drop (l + length search) str)
                    search replacement (Suc l))"

text \<open>\<open>TypeHelper<T>::Name\<close> and \<open>ValueRep\<close> for the logged types; the map template is taken at
  \<open>map<string, string>\<close>, its entries in key order.\<close>

datatype log_value =
    LString string
  | LChar2 string
  | LMap "(string \<times> string) list"
  | LBool bool
  | LInt int

definition escape_value :: "string \<Rightarrow> string option" where
  "escape_value val =
     Option.bind (log_str_replace val backslash (backslash @ backslash) 0) (\<lambda>e1.
     Option.bind (log_str_replace e1 dquote (backslash @ dquote) 0) (\<lambda>e2.
       Some (dquote @ e2 @ dquote)))"

fun pairs_rep :: "(string \<times> string) list \<Rightarrow> string option" where
  "pairs_rep [] = Some []"
| "pairs_rep ((k, v) # kvs) =
     Option.bind (escape_value k) (\<lambda>sk. Option.bind (escape_value v) (\<lambda>sv.
     Option.bind (pairs_rep kvs) (\<lambda>s. Some (sk @ '':'' @ sv @ '','' @ s))))"

fun value_rep :: "log_value \<Rightarrow> string option" where
  "value_rep (LString val) = escape_value val"
| "value_rep (LChar2 val) = escape_value (takeWhile (\<lambda>c. c \<noteq> CHR 0x00) val)"
| "value_rep (LMap kvs) = map_option (\<lambda>s. ''{'' @ s @ ''}'') (pairs_rep kvs)"
| "value_rep (LBool b) = Some (if b then ''1'' else ''0'')"
| "value_rep (LInt i) = Some (show_int i)"

section \<open>Entries\<close>

record query_log =
  log_has_out :: bool
  log_written :: string
  log_query_id :: "32 word"

record log_entry =
  entry_id :: "32 word"
  entry_start :: int
  entry_text :: string
  entry_subdomain :: string
  entry_method :: string

definition newline :: string where "newline = [CHR 0x0A]"

definition query_log_new :: "bool \<Rightarrow> query_log" where
  "query_log_new has_out = \<lparr>log_has_out = has_out, log_written = [], log_query_id = 0\<rparr>"

definition entry_new :: "query_log \<Rightarrow> log_entry \<times> query_log" where
  "entry_new lg =
     (\<lparr>entry_id = log_query_id lg, entry_start = 0, entry_text = [], entry_subdomain = [],
       entry_method = []\<rparr>,
      lg\<lparr>log_query_id := log_query_id lg + 1\<rparr>)"

definition is_logging :: "query_log \<Rightarrow> bool" where
  "is_logging lg = log_has_out lg"

definition set_subdomain :: "string \<Rightarrow> log_entry \<Rightarrow> log_entry" where
  "set_subdomain sd e = e\<lparr>entry_subdomain := sd\<rparr>"

definition method_call :: "query_log \<Rightarrow> int \<Rightarrow> string \<Rightarrow> log_entry \<Rightarrow> log_entry" where
  "method_call lg now name e =
     (if is_logging lg then
        e\<lparr>entry_method := name,
          entry_text := entry_text e
            @ ''# begin query '' @ show_nat (unat (entry_id e)) @ newline
            @ ''method_call('' @ name @ ''):'' @ newline,
          entry_start := now\<rparr>
      else e)"

definition log_name :: "log_value \<Rightarrow> string" where
  "log_name v = (case v of LString _ \<Rightarrow> ''string'' | LChar2 _ \<Rightarrow> ''char[2]'' | LBool _ \<Rightarrow> ''bool''
     | LInt _ \<Rightarrow> ''i32'' | LMap _ \<Rightarrow> ''map<string,string>'')"

definition log_value_to :: "query_log \<Rightarrow> log_value \<Rightarrow> log_entry \<Rightarrow> log_entry option" where
  "log_value_to lg v e =
     (if is_logging lg then
        map_option (\<lambda>r. e\<lparr>entry_text := entry_text e @ ''  '' @ log_name v @ '':'' @ r @ newline\<rparr>)
          (value_rep v)
      else Some e)"

definition entry_flush :: "log_entry \<Rightarrow> query_log \<Rightarrow> log_entry \<times> query_log" where
  "entry_flush e lg =
     (if is_logging lg
      then (e\<lparr>entry_text := []\<rparr>, lg\<lparr>log_written := log_written lg @ entry_text e\<rparr>)
      else (e, lg))"

definition entry_destroy :: "int \<Rightarrow> log_entry \<Rightarrow> query_log \<Rightarrow> query_log" where
  "entry_destroy now e lg =
     (if \<not> is_logging lg then lg
      else snd (entry_flush (e\<lparr>entry_text := entry_text e
          @ ''# end '' @ entry_method e @ '' query '' @ show_nat (unat (entry_id e)) @ '' after ''
          @ show_int (now - entry_start e) @ '' microseconds''
          @ (if entry_subdomain e \<noteq> [] then '' for '' @ entry_subdomain e else [])
          @ ''.'' @ newline @ newline\<rparr>) lg))"

section \<open>Escaping does not end on the characters it should escape\<close>

lemma find_from_Some:
  assumes "loc \<le> i" and "i < length s" and "s ! i = c"
  shows "\<exists>l. find_from s [c] loc = Some l \<and> loc \<le> l \<and> l < length s \<and> s ! l = c"
  using assms
proof (induction s "[c]" loc rule: find_from.induct)
  case (1 s loc)
  have sw: "starts_with [c] (drop loc s) \<longleftrightarrow> s ! loc = c"
    using 1 by (auto simp: Cons_nth_drop_Suc [symmetric])
  show ?case
  proof (cases "s ! loc = c")
    case True
    with 1 sw show ?thesis by (simp add: find_from.simps [of s _ loc])
  next
    case False
    with 1 have "loc \<noteq> i" by auto
    with 1 sw False show ?thesis
      by (auto simp: find_from.simps [of s _ loc])
  qed
qed

text \<open>If the replacement ends in the character searched for, one occurrence is enough to go
  round for ever: the next search starts inside the replacement.\<close>

lemma log_str_replace_diverges:
  assumes "loc \<le> i" and "i < length s" and "s ! i = c"
  shows "log_str_replace s [c] [d, c] loc = None"
proof (rule ccontr)
  assume "log_str_replace s [c] [d, c] loc \<noteq> None"
  then obtain r where ret: "log_str_replace s [c] [d, c] loc = Some r" by auto
  have "\<not> (\<exists>i\<ge>loc. i < length s \<and> s ! i = c \<and> [c] = [c] \<and> [d, c] = [d, c])"
  proof (rule log_str_replace.raw_induct [where P = "\<lambda>s p q loc r.
      \<not> (\<exists>i\<ge>loc. i < length s \<and> s ! i = c \<and> p = [c] \<and> q = [d, c])", OF _ ret])
    fix f s p q loc r
    assume IH: "\<And>s p q loc r. f s p q loc = Some r \<Longrightarrow>
        \<not> (\<exists>i\<ge>loc. i < length s \<and> s ! i = c \<and> p = [c] \<and> q = [d, c])"
      and eq: "(case find_from s p loc of None \<Rightarrow> Some s
        | Some l \<Rightarrow> f (take l s @ q @ drop (l + length p) s) p q (Suc l)) = Some r"
    show "\<not> (\<exists>i\<ge>loc. i < length s \<and> s ! i = c \<and> p = [c] \<and> q = [d, c])"
    proof
      assume "\<exists>i\<ge>loc. i < length s \<and> s ! i = c \<and> p = [c] \<and> q = [d, c]"
      then obtain i where i: "loc \<le> i" "i < length s" "s ! i = c" and pq: "p = [c]" "q = [d, c]"
        by blast
      from find_from_Some [OF i] obtain l where l: "find_from s [c] loc = Some l" "l < length s"
        by blast
      let ?t = "take l s @ q @ drop (l + length p) s"
      have "f ?t p q (Suc l) = Some r" using eq l pq by simp
      moreover have "Suc l < length ?t" "?t ! Suc l = c"
        using l pq by (simp_all add: nth_append)
      ultimately show False using IH [of ?t p q "Suc l" r] pq by blast
    qed
  qed
  with assms show False by blast
qed

lemma find_from_None: "c \<notin> set s \<Longrightarrow> find_from s [c] loc = None"
proof (induction s "[c]" loc rule: find_from.induct)
  case (1 s loc)
  have "\<not> starts_with [c] (drop loc s)"
    using 1(2) in_set_dropD [of c loc s] by (cases "drop loc s") auto
  with 1 show ?case by (simp add: find_from.simps [of s _ loc])
qed

lemma log_str_replace_absent: "c \<notin> set s \<Longrightarrow> log_str_replace s [c] r 0 = Some s"
  by (simp add: log_str_replace.simps find_from_None)

text \<open>(C39) Logging a string value returns exactly when the string has neither a backslash
  nor a double quote, and then adds only the surrounding quotes: on every string that needs
  escaping, the escaping loop does not end.\<close>

theorem escape_value_returns_iff:
  "escape_value s = (if CHR 0x5C \<in> set s \<or> CHR 0x22 \<in> set s then None
     else Some (dquote @ s @ dquote))"
proof (cases "CHR 0x5C \<in> set s")
  case True
  then obtain i where "i < length s" "s ! i = CHR 0x5C" by (auto simp: in_set_conv_nth)
  then have "log_str_replace s [CHR 0x5C] [CHR 0x5C, CHR 0x5C] 0 = None"
    by (intro log_str_replace_diverges) auto
  with True show ?thesis by (simp add: escape_value_def backslash_def)
next
  case nb: False
  then have 1: "log_str_replace s backslash (backslash @ backslash) 0 = Some s"
    by (simp add: backslash_def log_str_replace_absent)
  show ?thesis
  proof (cases "CHR 0x22 \<in> set s")
    case True
    then obtain i where "i < length s" "s ! i = CHR 0x22" by (auto simp: in_set_conv_nth)
    then have "log_str_replace s [CHR 0x22] [CHR 0x5C, CHR 0x22] 0 = None"
      by (intro log_str_replace_diverges) auto
    with True 1 show ?thesis by (simp add: escape_value_def backslash_def dquote_def)
  next
    case False
    with nb 1 show ?thesis by (simp add: escape_value_def dquote_def log_str_replace_absent)
  qed
qed

section \<open>Numbering under concurrency\<close>

text \<open>
  The constructor of \<open>QueryLogEntry\<close> and its memory accesses.  The statement
  \<open>boost::mutex::scoped_lock(_log._mutex);\<close> makes an unnamed lock that is released at its
  semicolon, so the increment \<open>_query_id = _log._query_id++\<close> (a load, then a store) runs
  unlocked.  Threads are numbers.
\<close>

datatype entry_pc = Entering | Locked | Unlocked | Loaded "32 word" | Numbered "32 word"

record numbering =
  num_counter :: "32 word"
  num_lock :: "nat option"
  num_pc :: "nat \<Rightarrow> entry_pc"

definition numbering_init :: numbering where
  "numbering_init = \<lparr>num_counter = 0, num_lock = None, num_pc = (\<lambda>_. Entering)\<rparr>"

inductive entry_step :: "numbering \<Rightarrow> numbering \<Rightarrow> bool" where
  lock: "num_pc s i = Entering \<Longrightarrow> num_lock s = None \<Longrightarrow>
     entry_step s (s\<lparr>num_pc := (num_pc s)(i := Locked), num_lock := Some i\<rparr>)"
| unlock: "num_pc s i = Locked \<Longrightarrow>
     entry_step s (s\<lparr>num_pc := (num_pc s)(i := Unlocked), num_lock := None\<rparr>)"
| load: "num_pc s i = Unlocked \<Longrightarrow>
     entry_step s (s\<lparr>num_pc := (num_pc s)(i := Loaded (num_counter s))\<rparr>)"
| store: "num_pc s i = Loaded v \<Longrightarrow>
     entry_step s (s\<lparr>num_pc := (num_pc s)(i := Numbered v), num_counter := v + 1\<rparr>)"

text \<open>Each step has exactly one successor once the thread is fixed; the executable form.\<close>

fun entry_move :: "nat \<Rightarrow> numbering \<Rightarrow> numbering option" where
  "entry_move i s =
     (case num_pc s i of
        Entering \<Rightarrow> (if num_lock s = None
          then Some (s\<lparr>num_pc := (num_pc s)(i := Locked), num_lock := Some i\<rparr>) else None)
      | Locked \<Rightarrow> Some (s\<lparr>num_pc := (num_pc s)(i := Unlocked), num_lock := None\<rparr>)
      | Unlocked \<Rightarrow> Some (s\<lparr>num_pc := (num_pc s)(i := Loaded (num_counter s))\<rparr>)
      | Loaded v \<Rightarrow> Some (s\<lparr>num_pc := (num_pc s)(i := Numbered v), num_counter := v + 1\<rparr>)
      | Numbered v \<Rightarrow> None)"

lemma entry_move_step: "entry_move i s = Some t \<Longrightarrow> entry_step s t"
  by (auto intro: entry_step.intros split: entry_pc.splits if_splits)

inductive numbering_reachable :: "numbering \<Rightarrow> bool" where
  start: "numbering_reachable numbering_init"
| step: "numbering_reachable s \<Longrightarrow> entry_step s t \<Longrightarrow> numbering_reachable t"

fun entry_moves :: "nat list \<Rightarrow> numbering \<Rightarrow> numbering option" where
  "entry_moves [] s = Some s"
| "entry_moves (i # is) s = Option.bind (entry_move i s) (entry_moves is)"

lemma entry_moves_reachable:
  "entry_moves is s = Some t \<Longrightarrow> numbering_reachable s \<Longrightarrow> numbering_reachable t"
proof (induction "is" arbitrary: s)
  case (Cons i "is")
  from Cons.prems obtain u where u: "entry_move i s = Some u" "entry_moves is u = Some t"
    by (auto simp: bind_eq_Some_conv simp del: entry_move.simps)
  with Cons.prems have "numbering_reachable u"
    by (blast intro: numbering_reachable.step entry_move_step)
  with u show ?case by (intro Cons.IH)
qed simp

text \<open>Two requests can get the same query number: there is an interleaving of two
  constructors, each of which takes and releases the mutex, after which both entries carry
  the number 0.\<close>

theorem query_id_race:
  "\<exists>s. numbering_reachable s \<and> num_pc s 0 = Numbered 0 \<and> num_pc s 1 = Numbered 0"
proof -
  let ?run = "entry_moves [0, 0, 1, 1, 0, 1, 0, 1] numbering_init"
  have "map_option (\<lambda>s. (num_pc s 0, num_pc s 1)) ?run = Some (Numbered 0, Numbered 0)"
    by (simp add: numbering_init_def)
  then obtain s where "?run = Some s" "num_pc s 0 = Numbered 0" "num_pc s 1 = Numbered 0"
    by auto
  with entry_moves_reachable [OF _ numbering_reachable.start] show ?thesis by blast
qed

text \<open>One request after the other gets consecutive numbers, modulo the counter's width.\<close>

fun entries_seq :: "nat \<Rightarrow> query_log \<Rightarrow> log_entry list" where
  "entries_seq 0 lg = []"
| "entries_seq (Suc n) lg = (let (e, lg') = entry_new lg in e # entries_seq n lg')"

lemma entries_seq_ids:
  "map entry_id (entries_seq n lg) = map (\<lambda>k. log_query_id lg + of_nat k) [0..<n]"
proof (induction n arbitrary: lg)
  case (Suc n)
  have "map (\<lambda>k. log_query_id lg + 1 + of_nat k) [0..<n]
      = map (\<lambda>k. log_query_id lg + of_nat k) (map Suc [0..<n])"
    by simp
  with Suc show ?case
    by (simp add: entry_new_def Let_def map_Suc_upt upt_conv_Cons del: upt_Suc)
qed simp

text \<open>Sequential requests are numbered apart: up to \<open>2 ^ 32\<close> of them from a new log have
  pairwise different numbers.\<close>

theorem query_ids_distinct:
  assumes "n \<le> 2 ^ 32"
  shows "distinct (map entry_id (entries_seq n (query_log_new out)))"
proof -
  have "inj_on (of_nat :: nat \<Rightarrow> 32 word) {0..<n}"
    using assms by (auto intro!: inj_onI simp: word_of_nat_eq_iff take_bit_nat_eq_self)
  then show ?thesis
    by (simp add: entries_seq_ids query_log_new_def distinct_map)
qed

theorem query_ids_distinct_witness:
  "distinct (map entry_id (entries_seq 3 (query_log_new True)))"
  by (rule query_ids_distinct) simp

text \<open>What one request logs: nothing if no log file was given; otherwise the destructor
  appends, in one write, the begin line, the call and the end line with the elapsed time, and
  the subdomain if one was set.\<close>

theorem entry_lifecycle:
  "let (e, lg') = entry_new lg;
       e1 = method_call lg' t0 m e;
       e2 = (if sd = [] then e1 else set_subdomain sd e1)
   in log_written (entry_destroy t1 e2 lg') =
     (if \<not> log_has_out lg then log_written lg
      else log_written lg
        @ ''# begin query '' @ show_nat (unat (log_query_id lg)) @ newline
        @ ''method_call('' @ m @ ''):'' @ newline
        @ ''# end '' @ m @ '' query '' @ show_nat (unat (log_query_id lg)) @ '' after ''
        @ show_int (t1 - t0) @ '' microseconds'' @ (if sd = [] then [] else '' for '' @ sd)
        @ ''.'' @ newline @ newline)"
  by (simp add: entry_new_def method_call_def set_subdomain_def entry_destroy_def entry_flush_def
      is_logging_def Let_def)

end
