(* ===== verification/Server.thy ===== *)
theory Server
  imports Session MemcacheProxy MysqlProxy QueryLog
begin

text \<open>
  \<^verbatim>\<open>src/server.cpp\<close>, with the loop bodies of \<^verbatim>\<open>src/reaper.cpp\<close> and \<^verbatim>\<open>src/bus.cpp\<close>: sessions and
  sites, the request handlers, and the frame that parses a request and turns exceptions into
  statuses.  Each request is one step on the server state; the mutexes of the code make its map
  accesses such steps.
\<close>

section \<open>State and environment\<close>

text \<open>
  \<open>sv_sites\<close> and the sessions hold shared pointers to sites; the sites themselves are in
  \<open>sv_site_store\<close>, so that a session keeps its site when the map drops it.
\<close>

record ('c, 'm, 'd, 'n) server =
  sv_sessions :: "(int \<times> session) list"
  sv_sites :: "(string \<times> nat) list"
  sv_site_store :: "(nat \<times> site) list"
  sv_query_log :: query_log
  sv_memcache :: "'c pool \<times> 'm"
  sv_mysql :: "'d pool \<times> 'n"
  sv_now :: int
  sv_rand_count :: nat

text \<open>What the server is built with: libraries, the test mode, the database name, the S3
  download, and the sequence that \<open>rand()\<close> yields.\<close>

record ('c, 'm, 'd, 'n) env =
  e_text :: text_lib
  e_xml :: xml_lib
  e_sort :: sort_lib
  e_test_mode :: bool
  e_read_s3 :: "string \<Rightarrow> string outcome"
  e_memcache :: "('c, 'm) memcache_lib"
  e_mysql :: "('d, 'n) mysql_lib"
  e_database :: string
  e_rand :: "nat \<Rightarrow> int"

type_synonym ('c, 'm, 'd, 'n, 'a) server_op = "(('c, 'm, 'd, 'n) server, 'a) sm"

section \<open>Parameters of a request\<close>

text \<open>\<open>iparam\<close> and \<open>sparam\<close>: indexing enters a null for a missing name into the parameters.\<close>

definition index_param :: "string \<Rightarrow> (json, json) sm" where
  "index_param name = (\<lambda>params. (case json_index name params of
     Inl e \<Rightarrow> (Inl e, params) | Inr (v, params') \<Rightarrow> (Inr v, params')))"

definition iparam :: "string \<Rightarrow> (json, int) sm" where
  "iparam name = sbind (index_param name) (\<lambda>v.
     if is_null v then sret 0 else sread (\<lambda>_. get_int32 v))"

definition sparam :: "string \<Rightarrow> (json, string) sm" where
  "sparam name = sbind (index_param name) (\<lambda>v.
     if is_null v then sret [] else sread (\<lambda>_. get_string v))"

text \<open>A handler reads its parameters before it acts.\<close>

definition with_params :: "(json, 'p) sm \<Rightarrow> json \<Rightarrow> ('p \<Rightarrow> ('s, 'a) sm) \<Rightarrow> ('s, 'a) sm" where
  "with_params reads params act = (case fst (reads params) of Inl e \<Rightarrow> sthrow e | Inr p \<Rightarrow> act p)"

section \<open>Sites\<close>

definition site_key :: "string \<Rightarrow> bool \<Rightarrow> string" where
  "site_key subdomain staging = (if staging then subdomain @ ''.staging'' else subdomain)"

text \<open>\<open>_getSite\<close>: a loaded site, if the key is one of its own.\<close>

definition lookup_site ::
  "('c, 'm, 'd, 'n) env \<Rightarrow> string \<Rightarrow> string \<Rightarrow> ('c, 'm, 'd, 'n) server \<Rightarrow> nat option outcome" where
  "lookup_site E key secret_key sv =
     (case map_of (sv_sites sv) key of
        None \<Rightarrow> Inr None
      | Some r \<Rightarrow>
          (case map_of (sv_site_store sv) r of
             None \<Rightarrow> Inl (UB UseAfterFree)
           | Some s \<Rightarrow> ebind (validate_secret_key (e_test_mode E) s secret_key) (\<lambda>_. Inr (Some r))))"

definition fresh_ref :: "(nat \<times> 'a) list \<Rightarrow> nat" where
  "fresh_ref kvs = Suc (fold max (map fst kvs) 0)"

text \<open>\<open>_loadSite\<close> enters the site into the map before anybody has checked the key.\<close>

definition load_site ::
  "('c, 'm, 'd, 'n) env \<Rightarrow> string \<Rightarrow> bool \<Rightarrow> string \<Rightarrow> ('c, 'm, 'd, 'n, nat) server_op" where
  "load_site E subdomain staging xml = (\<lambda>sv.
     (case site_new (e_text E) (e_xml E) (e_test_mode E) (e_read_s3 E) subdomain staging xml of
        Inl e \<Rightarrow> (Inl e, sv)
      | Inr s \<Rightarrow>
          (let r = fresh_ref (sv_site_store sv)
           in (Inr r, sv\<lparr>sv_site_store := (r, s) # sv_site_store sv,
                 sv_sites := put (site_key subdomain staging) r (sv_sites sv)\<rparr>))))"

definition site_at :: "nat \<Rightarrow> ('c, 'm, 'd, 'n, site) server_op" where
  "site_at r = sread (\<lambda>sv. case map_of (sv_site_store sv) r of
     None \<Rightarrow> Inl (UB UseAfterFree) | Some s \<Rightarrow> Inr s)"

definition get_site ::
  "('c, 'm, 'd, 'n) env \<Rightarrow> string \<Rightarrow> string \<Rightarrow> bool \<Rightarrow> ('c, 'm, 'd, 'n, nat) server_op" where
  "get_site E subdomain secret_key staging =
     sbind (sread (lookup_site E (site_key subdomain staging) secret_key)) (\<lambda>known.
     (case known of
        Some r \<Rightarrow> sret r
      | None \<Rightarrow>
          sbind (sread (\<lambda>_. if e_test_mode E then Inr [] else e_read_s3 E (subdomain @ ''-feed.xml''))) (\<lambda>xml.
          sbind (load_site E subdomain staging xml) (\<lambda>r.
          sbind (site_at r) (\<lambda>s.
          sbind (sread (\<lambda>_. validate_secret_key (e_test_mode E) s secret_key)) (\<lambda>_.
            sret r))))))"

definition reload_site :: "string \<Rightarrow> ('c, 'm, 'd, 'n) server \<Rightarrow> ('c, 'm, 'd, 'n) server" where
  "reload_site subdomain sv =
     (let sites1 = (if subdomain = ''all'' then [] else sv_sites sv);
          sites2 = (if map_of sites1 subdomain \<noteq> None
                    then filter (\<lambda>p. fst p \<noteq> subdomain) sites1 else sites1);
          sites3 = (if map_of sites2 (subdomain @ ''.staging'') \<noteq> None
                    then filter (\<lambda>p. fst p \<noteq> subdomain @ ''.staging'') sites2 else sites2)
      in sv\<lparr>sv_sites := sites3\<rparr>)"

text \<open>A key is looked up and then erased: the sites that remain.\<close>

lemma erase_found: "map_of (if map_of xs k \<noteq> None then filter (\<lambda>p. fst p \<noteq> k) xs else xs) = (map_of xs)(k := None)"
  by (cases "map_of xs k") (simp_all add: map_of_filter_neq fun_upd_idem)

lemma reload_site_sites:
  "map_of (sv_sites (reload_site su sv)) key =
     (if su = ''all'' \<or> key = su \<or> key = su @ ''.staging'' then None else map_of (sv_sites sv) key)"
proof -
  define s1 where "s1 = (if su = ''all'' then [] else sv_sites sv)"
  define s2 where "s2 = (if map_of s1 su \<noteq> None then filter (\<lambda>p. fst p \<noteq> su) s1 else s1)"
  have "map_of s2 = (map_of s1)(su := None)" unfolding s2_def by (rule erase_found)
  moreover have "sv_sites (reload_site su sv) =
      (if map_of s2 (su @ ''.staging'') \<noteq> None then filter (\<lambda>p. fst p \<noteq> su @ ''.staging'') s2 else s2)"
    by (cases sv) (simp only: reload_site_def Let_def s1_def s2_def server.update_convs server.select_convs)
  ultimately show ?thesis using erase_found [of s2 "su @ ''.staging''"] by (simp add: s1_def)
qed

section \<open>Running on the parts of the server\<close>

text \<open>A step on a site of the store, on the memcache proxy, on the MySQL proxy.\<close>

definition on_site :: "nat \<Rightarrow> (site, 'a) sm \<Rightarrow> ('c, 'm, 'd, 'n, 'a) server_op" where
  "on_site r m = (\<lambda>sv. case map_of (sv_site_store sv) r of
     None \<Rightarrow> (Inl (UB UseAfterFree), sv)
   | Some s \<Rightarrow> (case m s of (res, s') \<Rightarrow> (res, sv\<lparr>sv_site_store := put r s' (sv_site_store sv)\<rparr>)))"

definition on_memcache :: "('c pool \<times> 'm, 'a) sm \<Rightarrow> ('c, 'm, 'd, 'n, 'a) server_op" where
  "on_memcache m = (\<lambda>sv. case m (sv_memcache sv) of (res, x) \<Rightarrow> (res, sv\<lparr>sv_memcache := x\<rparr>))"

definition on_mysql :: "('d pool \<times> 'n, 'a) sm \<Rightarrow> ('c, 'm, 'd, 'n, 'a) server_op" where
  "on_mysql m = (\<lambda>sv. case m (sv_mysql sv) of (res, x) \<Rightarrow> (res, sv\<lparr>sv_mysql := x\<rparr>))"

text \<open>\<open>session->getSite()->getSubdomain()\<close>; the null pointer of an endpoint without a session.\<close>

definition session_subdomain :: "int \<Rightarrow> ('c, 'm, 'd, 'n, string) server_op" where
  "session_subdomain sid = sread (\<lambda>sv. case map_of (sv_sessions sv) sid of
     None \<Rightarrow> Inl (UB NullDeref)
   | Some se \<Rightarrow> (case map_of (sv_site_store sv) (se_site se) of
       None \<Rightarrow> Inl (UB UseAfterFree) | Some s \<Rightarrow> Inr (get_subdomain s)))"

definition session_at :: "int \<Rightarrow> ('c, 'm, 'd, 'n, session) server_op" where
  "session_at sid = sread (\<lambda>sv. case map_of (sv_sessions sv) sid of
     None \<Rightarrow> Inl (UB NullDeref) | Some se \<Rightarrow> Inr se)"

definition long_term_key :: "string \<Rightarrow> string \<Rightarrow> string" where
  "long_term_key subdomain key = ''VaedbProxy:'' @ subdomain @ ''LongTerm2:'' @ key"

definition short_term_key :: "string \<Rightarrow> string \<Rightarrow> string" where
  "short_term_key subdomain key = ''VaedbProxy:'' @ subdomain @ '':'' @ key"

section \<open>Handlers: sessions and queries\<close>

definition h_ping :: "json \<Rightarrow> ('c, 'm, 'd, 'n, json) server_op" where
  "h_ping params = sret (init_json [jpair ''ping'' (JString ''pong'')])"

text \<open>\<open>while (sessions.count(sessionId)) sessionId = rand();\<close>\<close>

definition free_session_id ::
  "(nat \<Rightarrow> int) \<Rightarrow> (int \<times> session) list \<Rightarrow> int \<Rightarrow> nat \<Rightarrow> (int \<times> nat) option" where
  "free_session_id rand sessions sid n =
     while_option (\<lambda>(i, n). map_of sessions i \<noteq> None) (\<lambda>(i, n). (rand n, Suc n)) (sid, n)"

definition h_open_session :: "('c, 'm, 'd, 'n) env \<Rightarrow> json \<Rightarrow> ('c, 'm, 'd, 'n, json) server_op" where
  "h_open_session E params =
     with_params
       (sbind (sparam ''subdomain'') (\<lambda>subdomain. sbind (sparam ''secretKey'') (\<lambda>secret_key.
        sbind (iparam ''stagingMode'') (\<lambda>staging. sbind (iparam ''suggestedSessionId'') (\<lambda>sid.
          sret (subdomain, secret_key, staging, sid))))))
       params (\<lambda>(subdomain, secret_key, staging, sid).
     sbind (get_site E subdomain secret_key (staging \<noteq> 0)) (\<lambda>r.
     sbind (sread (\<lambda>sv. case free_session_id (e_rand E) (sv_sessions sv) sid (sv_rand_count sv) of
        None \<Rightarrow> Inl Diverges | Some x \<Rightarrow> Inr x)) (\<lambda>(sid', n).
     sbind (smodify (\<lambda>sv. sv\<lparr>sv_rand_count := n,
        sv_sessions := put sid' (session_new r (sv_now sv)) (sv_sessions sv)\<rparr>)) (\<lambda>_.
     sbind (site_at r) (\<lambda>s.
       sret (init_json [jpair ''sessionId'' (JInt sid'), jpair ''generation'' (JInt (get_generation s))]))))))"

definition h_close_session :: "json \<Rightarrow> ('c, 'm, 'd, 'n, json) server_op" where
  "h_close_session params = with_params (iparam ''sessionId'') params (\<lambda>sid.
     sbind (smodify (\<lambda>sv.
       if map_of (sv_sessions sv) sid \<noteq> None
       then sv\<lparr>sv_sessions := filter (\<lambda>p. fst p \<noteq> sid) (sv_sessions sv)\<rparr> else sv)) (\<lambda>_.
       sret (init_json [jpair ''session'' (JInt sid)])))"

definition h_create_info :: "('c, 'm, 'd, 'n) env \<Rightarrow> int \<Rightarrow> json \<Rightarrow> ('c, 'm, 'd, 'n, json) server_op" where
  "h_create_info E sid params =
     with_params (sbind (sparam ''query'') (\<lambda>q. sbind (iparam ''responseId'') (\<lambda>i. sret (q, i))))
       params (\<lambda>(query, response_id).
     sbind (session_at sid) (\<lambda>se.
       on_site (se_site se) (session_create_info (e_text E) (e_xml E) se response_id query)))"

definition h_data :: "int \<Rightarrow> json \<Rightarrow> ('c, 'm, 'd, 'n, json) server_op" where
  "h_data sid params = with_params (iparam ''responseId'') params (\<lambda>response_id.
     sbind (session_at sid) (\<lambda>se. on_site (se_site se) (session_data se response_id)))"

definition h_structure :: "int \<Rightarrow> json \<Rightarrow> ('c, 'm, 'd, 'n, json) server_op" where
  "h_structure sid params = with_params (iparam ''responseId'') params (\<lambda>response_id.
     sbind (session_at sid) (\<lambda>se. on_site (se_site se) (session_structure se response_id)))"

definition h_get :: "('c, 'm, 'd, 'n) env \<Rightarrow> int \<Rightarrow> json \<Rightarrow> ('c, 'm, 'd, 'n, json) server_op" where
  "h_get E sid params =
     with_params
       (sbind (sparam ''query'') (\<lambda>q. sbind (iparam ''responseId'') (\<lambda>i.
        sbind (index_param ''options'') (\<lambda>ov.
        sbind (if is_null ov then sret [] else sread (\<lambda>_. get_string_map ov)) (\<lambda>opts. sret (q, i, opts))))))
       params (\<lambda>(query, response_id, opts).
     sbind (session_at sid) (\<lambda>se.
     sbind (on_site (se_site se) (session_get (e_text E) (e_xml E) (e_sort E) se response_id query opts)) (\<lambda>(res, se').
     sbind (smodify (\<lambda>sv. sv\<lparr>sv_sessions := put sid se' (sv_sessions sv)\<rparr>)) (\<lambda>_. sret res))))"

section \<open>Handlers: caches and locks\<close>

definition h_short_term_get :: "('c, 'm, 'd, 'n) env \<Rightarrow> int \<Rightarrow> json \<Rightarrow> ('c, 'm, 'd, 'n, json) server_op" where
  "h_short_term_get E sid params =
     with_params (sbind (sparam ''key'') (\<lambda>key. sbind (iparam ''flags'') (\<lambda>flags. sret (key, flags))))
       params (\<lambda>(key, flags).
     sbind (session_subdomain sid) (\<lambda>su.
     sbind (on_memcache (memcache_get (e_memcache E) (short_term_key su key) flags)) (\<lambda>v.
       sret (init_json [jpair ''key'' (JString key), jpair ''value'' (JString v)]))))"

definition h_short_term_set :: "('c, 'm, 'd, 'n) env \<Rightarrow> int \<Rightarrow> json \<Rightarrow> ('c, 'm, 'd, 'n, json) server_op" where
  "h_short_term_set E sid params =
     with_params
       (sbind (sparam ''key'') (\<lambda>key. sbind (sparam ''value'') (\<lambda>v.
        sbind (iparam ''flags'') (\<lambda>flags. sbind (iparam ''expireInterval'') (\<lambda>ex. sret (key, v, flags, ex))))))
       params (\<lambda>(key, v, flags, ex).
     sbind (session_subdomain sid) (\<lambda>su.
     sbind (on_memcache (memcache_set (e_memcache E) (short_term_key su key) v flags ex)) (\<lambda>_.
       sret (init_json [jpair ''key'' (JString key), jpair ''value'' (JString v)]))))"

definition h_short_term_delete :: "('c, 'm, 'd, 'n) env \<Rightarrow> int \<Rightarrow> json \<Rightarrow> ('c, 'm, 'd, 'n, json) server_op" where
  "h_short_term_delete E sid params =
     with_params (sparam ''key'') params (\<lambda>key.
     sbind (session_subdomain sid) (\<lambda>su.
     sbind (on_memcache (memcache_remove (e_memcache E) (short_term_key su key))) (\<lambda>_.
       sret (init_json [jpair ''key'' (JString key)]))))"

definition h_session_cache_get :: "('c, 'm, 'd, 'n) env \<Rightarrow> int \<Rightarrow> json \<Rightarrow> ('c, 'm, 'd, 'n, json) server_op" where
  "h_session_cache_get E sid params =
     with_params (sparam ''key'') params (\<lambda>key.
     sbind (session_subdomain sid) (\<lambda>su.
     sbind (on_mysql (mysql_session_get (e_mysql E) (e_database E) su key)) (\<lambda>v.
       sret (init_json [jpair ''key'' (JString key), jpair ''value'' (JString v)]))))"

definition h_session_cache_set :: "('c, 'm, 'd, 'n) env \<Rightarrow> int \<Rightarrow> json \<Rightarrow> ('c, 'm, 'd, 'n, json) server_op" where
  "h_session_cache_set E sid params =
     with_params (sbind (sparam ''key'') (\<lambda>key. sbind (sparam ''value'') (\<lambda>v. sret (key, v))))
       params (\<lambda>(key, v).
     sbind (session_subdomain sid) (\<lambda>su.
     sbind (on_mysql (mysql_session_set (e_mysql E) (e_database E) su key v)) (\<lambda>_.
       sret (init_json [jpair ''key'' (JString key), jpair ''value'' (JString v)]))))"

definition h_session_cache_delete :: "('c, 'm, 'd, 'n) env \<Rightarrow> int \<Rightarrow> json \<Rightarrow> ('c, 'm, 'd, 'n, json) server_op" where
  "h_session_cache_delete E sid params =
     with_params (sparam ''key'') params (\<lambda>key.
     sbind (session_subdomain sid) (\<lambda>su.
     sbind (on_mysql (mysql_session_delete (e_mysql E) (e_database E) su key)) (\<lambda>_.
       sret (init_json [jpair ''key'' (JString key)]))))"

text \<open>\<open>longTermCacheGet\<close> asks memcache first when told to, else the database, whose answer it stores
  in memcache for a day.\<close>

definition h_long_term_get :: "('c, 'm, 'd, 'n) env \<Rightarrow> int \<Rightarrow> json \<Rightarrow> ('c, 'm, 'd, 'n, json) server_op" where
  "h_long_term_get E sid params =
     with_params
       (sbind (sparam ''key'') (\<lambda>key. sbind (iparam ''renewExpiry'') (\<lambda>renew.
        sbind (iparam ''useShortTermCache'') (\<lambda>use. sret (key, renew, use)))))
       params (\<lambda>(key, renew, use).
     sbind (session_subdomain sid) (\<lambda>su.
     sbind (if use \<noteq> 0 then on_memcache (memcache_get (e_memcache E) (long_term_key su key) 0)
            else sret []) (\<lambda>answer.
       if 0 < length answer then
         sret (init_json [jpair ''key'' (JString key), jpair ''value'' (JString answer)])
       else
         sbind (on_mysql (mysql_long_term_get (e_mysql E) (e_database E) su key renew)) (\<lambda>v.
         sbind (on_memcache (memcache_set (e_memcache E) (long_term_key su key) v 0 86400)) (\<lambda>_.
           sret (init_json [jpair ''key'' (JString key), jpair ''value'' (JString v)]))))))"

definition h_long_term_set :: "('c, 'm, 'd, 'n) env \<Rightarrow> int \<Rightarrow> json \<Rightarrow> ('c, 'm, 'd, 'n, json) server_op" where
  "h_long_term_set E sid params =
     with_params
       (sbind (sparam ''key'') (\<lambda>key. sbind (sparam ''value'') (\<lambda>v.
        sbind (iparam ''expireInterval'') (\<lambda>ex. sbind (iparam ''isFilename'') (\<lambda>f. sret (key, v, ex, f))))))
       params (\<lambda>(key, v, ex, f).
     sbind (session_subdomain sid) (\<lambda>su.
     sbind (on_mysql (mysql_long_term_set (e_mysql E) (e_database E) su key v ex f)) (\<lambda>_.
     sbind (on_memcache (memcache_set (e_memcache E) (long_term_key su key) v 0 86400)) (\<lambda>_.
       sret (init_json [jpair ''key'' (JString key), jpair ''value'' (JString v)])))))"

definition h_long_term_delete :: "('c, 'm, 'd, 'n) env \<Rightarrow> int \<Rightarrow> json \<Rightarrow> ('c, 'm, 'd, 'n, json) server_op" where
  "h_long_term_delete E sid params =
     with_params (sparam ''key'') params (\<lambda>key.
     sbind (session_subdomain sid) (\<lambda>su.
     sbind (on_mysql (mysql_long_term_delete (e_mysql E) (e_database E) su key)) (\<lambda>_.
     sbind (on_memcache (memcache_remove (e_memcache E) (long_term_key su key))) (\<lambda>_.
       sret (init_json [jpair ''key'' (JString key)])))))"

definition h_long_term_empty :: "('c, 'm, 'd, 'n) env \<Rightarrow> int \<Rightarrow> json \<Rightarrow> ('c, 'm, 'd, 'n, json) server_op" where
  "h_long_term_empty E sid params =
     sbind (session_subdomain sid) (\<lambda>su.
     sbind (on_mysql (mysql_long_term_empty (e_mysql E) (e_database E) su)) (\<lambda>_.
       sret (init_json [jpair ''empty'' (JBool True)])))"

definition h_sweeper_info :: "('c, 'm, 'd, 'n) env \<Rightarrow> int \<Rightarrow> json \<Rightarrow> ('c, 'm, 'd, 'n, json) server_op" where
  "h_sweeper_info E sid params =
     sbind (session_subdomain sid) (\<lambda>su. on_mysql (mysql_sweeper_info (e_mysql E) (e_database E) su))"

definition h_sitewide_lock :: "('c, 'm, 'd, 'n) env \<Rightarrow> int \<Rightarrow> json \<Rightarrow> ('c, 'm, 'd, 'n, json) server_op" where
  "h_sitewide_lock E sid params =
     with_params (sparam ''iden'') params (\<lambda>iden.
     sbind (session_subdomain sid) (\<lambda>su.
     sbind (on_mysql (mysql_lock (e_mysql E) (e_database E) (su @ '':'' @ iden))) (\<lambda>status.
       sret (init_json [jpair ''status'' (JInt status)]))))"

definition h_sitewide_unlock :: "('c, 'm, 'd, 'n) env \<Rightarrow> int \<Rightarrow> json \<Rightarrow> ('c, 'm, 'd, 'n, json) server_op" where
  "h_sitewide_unlock E sid params =
     with_params (sparam ''iden'') params (\<lambda>iden.
     sbind (session_subdomain sid) (\<lambda>su.
     sbind (on_mysql (mysql_unlock (e_mysql E) (e_database E) (su @ '':'' @ iden))) (\<lambda>status.
       sret (init_json [jpair ''status'' (JInt status)]))))"

section \<open>Requests\<close>

datatype endpoint =
    Ping | OpenSession
  | CloseSession | CreateInfo | Data | Get | Structure
  | LongTermCacheGet | LongTermCacheSet | LongTermCacheDelete | LongTermCacheEmpty
  | LongTermCacheSweeperInfo
  | SessionCacheGet | SessionCacheSet | SessionCacheDelete
  | ShortTermCacheGet | ShortTermCacheSet | ShortTermCacheDelete
  | SitewideLock | SitewideUnlock

fun endpoint_name :: "endpoint \<Rightarrow> string" where
  "endpoint_name Ping = ''ping''"
| "endpoint_name OpenSession = ''openSession''"
| "endpoint_name CloseSession = ''closeSession''"
| "endpoint_name CreateInfo = ''createInfo''"
| "endpoint_name Data = ''data''"
| "endpoint_name Get = ''get''"
| "endpoint_name Structure = ''structure''"
| "endpoint_name LongTermCacheGet = ''longTermCacheGet''"
| "endpoint_name LongTermCacheSet = ''longTermCacheSet''"
| "endpoint_name LongTermCacheDelete = ''longTermCacheDelete''"
| "endpoint_name LongTermCacheEmpty = ''longTermCacheEmpty''"
| "endpoint_name LongTermCacheSweeperInfo = ''longTermCacheSweeperInfo''"
| "endpoint_name SessionCacheGet = ''sessionCacheGet''"
| "endpoint_name SessionCacheSet = ''sessionCacheSet''"
| "endpoint_name SessionCacheDelete = ''sessionCacheDelete''"
| "endpoint_name ShortTermCacheGet = ''shortTermCacheGet''"
| "endpoint_name ShortTermCacheSet = ''shortTermCacheSet''"
| "endpoint_name ShortTermCacheDelete = ''shortTermCacheDelete''"
| "endpoint_name SitewideLock = ''sitewideLock''"
| "endpoint_name SitewideUnlock = ''sitewideUnlock''"

definition requires_session :: "endpoint \<Rightarrow> bool" where
  "requires_session ep \<longleftrightarrow> ep \<noteq> Ping \<and> ep \<noteq> OpenSession"

fun handler :: "('c, 'm, 'd, 'n) env \<Rightarrow> endpoint \<Rightarrow> int \<Rightarrow> json \<Rightarrow> ('c, 'm, 'd, 'n, json) server_op" where
  "handler E Ping sid = h_ping"
| "handler E OpenSession sid = h_open_session E"
| "handler E CloseSession sid = h_close_session"
| "handler E CreateInfo sid = h_create_info E sid"
| "handler E Data sid = h_data sid"
| "handler E Get sid = h_get E sid"
| "handler E Structure sid = h_structure sid"
| "handler E LongTermCacheGet sid = h_long_term_get E sid"
| "handler E LongTermCacheSet sid = h_long_term_set E sid"
| "handler E LongTermCacheDelete sid = h_long_term_delete E sid"
| "handler E LongTermCacheEmpty sid = h_long_term_empty E sid"
| "handler E LongTermCacheSweeperInfo sid = h_sweeper_info E sid"
| "handler E SessionCacheGet sid = h_session_cache_get E sid"
| "handler E SessionCacheSet sid = h_session_cache_set E sid"
| "handler E SessionCacheDelete sid = h_session_cache_delete E sid"
| "handler E ShortTermCacheGet sid = h_short_term_get E sid"
| "handler E ShortTermCacheSet sid = h_short_term_set E sid"
| "handler E ShortTermCacheDelete sid = h_short_term_delete E sid"
| "handler E SitewideLock sid = h_sitewide_lock E sid"
| "handler E SitewideUnlock sid = h_sitewide_unlock E sid"

record http_response =
  http_status :: nat
  http_body :: string

text \<open>
  \<open>process\<close>.  \<open>parse\<close> and \<open>dump\<close> are the JSON parser and serialiser; the log entry lives from
  the parsed parameters to the end of the \<open>try\<close> block, between the clock readings \<open>t0\<close> and \<open>t1\<close>.
\<close>

datatype session_lookup = MissingId | InvalidId | FoundSession int string

definition find_session :: "json \<Rightarrow> ('c, 'm, 'd, 'n) server \<Rightarrow> session_lookup outcome" where
  "find_session params sv =
     ebind (json_index ''sessionId'' params) (\<lambda>(v, _).
       if is_null v then Inr MissingId
       else ebind (get_int32 v) (\<lambda>sid.
         (case map_of (sv_sessions sv) sid of
            None \<Rightarrow> Inr InvalidId
          | Some se \<Rightarrow>
              (case map_of (sv_site_store sv) (se_site se) of
                 None \<Rightarrow> Inl (UB UseAfterFree)
               | Some s \<Rightarrow> Inr (FoundSession sid (get_subdomain s))))))"

definition error_body :: "string \<Rightarrow> string" where
  "error_body msg = ''{error:'' @ squote @ msg @ squote @ ''}''"

definition run_handler ::
  "(json \<Rightarrow> string outcome) \<Rightarrow> ('c, 'm, 'd, 'n) env \<Rightarrow> endpoint \<Rightarrow> int \<Rightarrow> json
     \<Rightarrow> ('c, 'm, 'd, 'n, http_response) server_op" where
  "run_handler dump E ep sid params =
     sbind (handler E ep sid params) (\<lambda>j.
       if is_null j then sret \<lparr>http_status = 200, http_body = []\<rparr>
       else sbind (sread (\<lambda>_. dump j)) (\<lambda>b. sret \<lparr>http_status = 200, http_body = b\<rparr>))"

definition serve ::
  "(json \<Rightarrow> string outcome) \<Rightarrow> ('c, 'm, 'd, 'n) env \<Rightarrow> endpoint \<Rightarrow> json \<Rightarrow> log_entry
     \<Rightarrow> ('c, 'm, 'd, 'n) server \<Rightarrow> (http_response outcome \<times> log_entry) \<times> ('c, 'm, 'd, 'n) server" where
  "serve dump E ep params entry sv =
     (if requires_session ep then
        (case find_session params sv of
           Inl e \<Rightarrow> ((Inl e, entry), sv)
         | Inr MissingId \<Rightarrow>
             ((Inr \<lparr>http_status = 400, http_body = error_body ''missing session ID''\<rparr>, entry), sv)
         | Inr InvalidId \<Rightarrow>
             ((Inr \<lparr>http_status = 400, http_body = error_body ''invalid session ID''\<rparr>, entry), sv)
         | Inr (FoundSession sid su) \<Rightarrow>
             (case run_handler dump E ep sid params sv of
                (r, sv') \<Rightarrow> ((r, set_subdomain su entry), sv')))
      else (case run_handler dump E ep 0 params sv of (r, sv') \<Rightarrow> ((r, entry), sv')))"

text \<open>The \<open>catch\<close> clauses; serialising the message may itself throw, and nothing catches that.\<close>

fun error_response :: "(json \<Rightarrow> string outcome) \<Rightarrow> error \<Rightarrow> http_response outcome" where
  "error_response dump (VaeDbQueryError what) =
     ebind (dump (init_json [jpair ''VaedbQueryError'' (JString (c_str what))])) (\<lambda>b.
       Inr \<lparr>http_status = 400, http_body = b\<rparr>)"
| "error_response dump (VaeDbInternalError what) =
     ebind (dump (init_json [jpair ''VaedbInternalError'' (JString (c_str what))])) (\<lambda>b.
       Inr \<lparr>http_status = 500, http_body = b\<rparr>)"
| "error_response dump (StdError what) = Inr \<lparr>http_status = 500, http_body = error_body ''error''\<rparr>"
| "error_response dump (OtherThrow what) = Inr \<lparr>http_status = 500, http_body = error_body ''error''\<rparr>"
| "error_response dump Diverges = Inl Diverges"
| "error_response dump Aborts = Inl Aborts"
| "error_response dump (UB u) = Inl (UB u)"

definition catch_all ::
  "(json \<Rightarrow> string outcome) \<Rightarrow> http_response outcome \<Rightarrow> http_response outcome" where
  "catch_all dump r = (case r of Inr x \<Rightarrow> Inr x | Inl e \<Rightarrow> error_response dump e)"

definition process ::
  "(string \<Rightarrow> json outcome) \<Rightarrow> (json \<Rightarrow> string outcome) \<Rightarrow> ('c, 'm, 'd, 'n) env \<Rightarrow> endpoint \<Rightarrow> string
     \<Rightarrow> int \<Rightarrow> int \<Rightarrow> ('c, 'm, 'd, 'n, http_response) server_op" where
  "process parse dump E ep body t0 t1 = (\<lambda>sv.
     (case (if 0 < length body then parse body else Inr (init_json [])) of
        Inl e \<Rightarrow> (error_response dump e, sv)
      | Inr params \<Rightarrow>
          (case entry_new (sv_query_log sv) of (entry, lg) \<Rightarrow>
          (case serve dump E ep params (method_call lg t0 (endpoint_name ep) entry)
                  (sv\<lparr>sv_query_log := lg\<rparr>) of
             ((r, entry'), sv') \<Rightarrow>
               (catch_all dump r,
                sv'\<lparr>sv_query_log := entry_destroy t1 entry' (sv_query_log sv')\<rparr>)))))"

section \<open>The reaper and the bus\<close>

definition SESSION_REAP_TIME :: int where "SESSION_REAP_TIME = 62"

fun reap_sessions :: "int \<Rightarrow> (int \<times> session) list \<Rightarrow> (int \<times> session) list" where
  "reap_sessions now [] = []"
| "reap_sessions now ((sid, se) # sessions) =
     (if now - se_created_at se > SESSION_REAP_TIME then reap_sessions now sessions
      else (sid, se) # reap_sessions now sessions)"

definition reaper_step :: "('c, 'm, 'd, 'n) env \<Rightarrow> ('c, 'm, 'd, 'n, unit) server_op" where
  "reaper_step E =
     sbind (smodify (\<lambda>sv. sv\<lparr>sv_sessions := reap_sessions (sv_now sv) (sv_sessions sv)\<rparr>)) (\<lambda>_.
       on_mysql (mysql_garbage_collect (e_mysql E) (e_database E)))"

end
