(* ===== verification/CacheFree.thy ===== *)
theory CacheFree
  imports Session
begin

text \<open>
  Requests do not see the caches: two sites that differ only in what their query cache and the
  caches of their contexts hold, each coherent, answer every operation of a session alike.
\<close>

section \<open>Sites without their caches\<close>

definition bare_context :: "vae_context \<Rightarrow> vae_context" where
  "bare_context c = c\<lparr>cx_cached_counts := [], cx_cached_queries := [], cx_data := [], cx_data_populated := False\<rparr>"

definition bare :: "site \<Rightarrow> site" where
  "bare s = s\<lparr>s_query_cache := lru_new query_cache_size,
     s_contexts := map (\<lambda>(r, c). (r, bare_context c)) (s_contexts s)\<rparr>"

text \<open>Two sites with coherent caches that are both \<open>w\<close> but for their caches.\<close>

definition agree :: "text_lib \<Rightarrow> xml_lib \<Rightarrow> site \<Rightarrow> site \<Rightarrow> site \<Rightarrow> bool" where
  "agree T X w s s' \<longleftrightarrow> caches_ok T X s \<and> caches_ok T X s' \<and> bare s = w \<and> bare s' = w"

lemma bare_context_simps [simp]:
  "cx_id (bare_context c) = cx_id c" "cx_permalink (bare_context c) = cx_permalink c"
  "cx_structure (bare_context c) = cx_structure c" "cx_type (bare_context c) = cx_type c"
  "cx_node (bare_context c) = cx_node c"
  by (simp_all add: bare_context_def)

lemma map_of_bare: "map_of (s_contexts (bare s)) r = map_option bare_context (map_of (s_contexts s) r)"
  by (simp add: bare_def map_of_map)

lemma bareD:
  assumes "bare s = bare s'"
  shows "s_generation s' = s_generation s" "s_subdomain s' = s_subdomain s"
    "s_secret_keys s' = s_secret_keys s" "s_doc s' = s_doc s" "s_nodes s' = s_nodes s"
    "s_permalinks s' = s_permalinks s" "s_root s' = s_root s" "s_root_design s' = s_root_design s"
    "map_option bare_context (map_of (s_contexts s') r) = map_option bare_context (map_of (s_contexts s) r)"
proof -
  show "map_option bare_context (map_of (s_contexts s') r) = map_option bare_context (map_of (s_contexts s) r)"
    using assms map_of_bare [of s r] map_of_bare [of s' r] by simp
qed (use arg_cong [OF assms, of s_generation] arg_cong [OF assms, of s_subdomain]
    arg_cong [OF assms, of s_secret_keys] arg_cong [OF assms, of s_doc] arg_cong [OF assms, of s_nodes]
    arg_cong [OF assms, of s_permalinks] arg_cong [OF assms, of s_root]
    arg_cong [OF assms, of s_root_design]
  in \<open>simp_all add: bare_def\<close>)

lemma bare_view:
  assumes "bare s = bare s'"
  shows "view_eq s s'"
proof -
  have "map_option (\<lambda>c. (cx_node c, cx_structure c)) (map_of (s_contexts s') r) =
      map_option (\<lambda>c. (cx_node c, cx_structure c)) (map_of (s_contexts s) r)" for r
    using arg_cong [OF bareD(9) [OF assms, of r], of "map_option (\<lambda>c. (cx_node c, cx_structure c))"]
    by (simp add: option.map_comp comp_def)
  then show ?thesis using bareD [OF assms] by (simp add: view_eq_def)
qed

lemma context_at_bare:
  assumes "bare s = bare s'" and "\<And>c. f (bare_context c) = f c"
  shows "ebind (context_at s cx) f = ebind (context_at s' cx) f"
proof (cases cx)
  case (Some r)
  show ?thesis
  proof (cases "map_of (s_contexts s) r")
    case None
    with bareD(9) [OF assms(1), of r] show ?thesis by (simp add: context_at_def Some)
  next
    case S: (Some c)
    with bareD(9) [OF assms(1), of r] obtain c' where c': "map_of (s_contexts s') r = Some c'"
      and b: "bare_context c' = bare_context c" by auto
    have "f c' = f c" using assms(2) [of c] assms(2) [of c'] b by simp
    with S c' show ?thesis by (simp add: context_at_def Some)
  qed
qed (simp add: context_at_def)

text \<open>Writing a cache of a context leaves the site as it is without caches.\<close>

lemma put_same: "map_of kvs k = Some v \<Longrightarrow> g (k, w) = g (k, v) \<Longrightarrow> map g (put k w kvs) = map g kvs"
  by (induction k w kvs rule: put.induct) (auto split: if_splits)

lemma bare_set_context:
  "map_of (s_contexts s) r = Some c \<Longrightarrow> bare_context c' = bare_context c \<Longrightarrow> bare (set_context r c' s) = bare s"
  by (simp add: bare_def set_context_def put_same)

lemma bare_caches [simp]:
  "bare_context (c\<lparr>cx_cached_counts := x\<rparr>) = bare_context c"
  "bare_context (c\<lparr>cx_cached_queries := y\<rparr>) = bare_context c"
  "bare_context (c\<lparr>cx_data := z, cx_data_populated := b\<rparr>) = bare_context c"
  by (simp_all add: bare_context_def)

section \<open>The cached operations\<close>

lemma context_of_apply: "context_of r s = (context_at s (Some r), s)"
  by (simp add: context_of_def)

lemma context_at_Inr: "context_at s (Some r) = Inr c \<longleftrightarrow> map_of (s_contexts s) r = Some c"
  by (simp add: context_at_def split: option.split)

lemma bare_fetch_query:
  assumes "caches_ok T X s"
  shows "bare (snd (fetch_query T X key s)) = bare s"
proof -
  have "query_cache_inv s" using assms by (simp add: caches_ok_def queries_coherent_def)
  then show ?thesis
    by (simp add: fetch_query_memo memo_def cache_query_def bare_def split: option.split sum.split)
qed

lemma bare_get_count: "bare (snd (get_count T X r q s)) = bare s"
proof (cases "context_at s (Some r)")
  case (Inl e)
  then show ?thesis by (simp add: get_count_def context_of_apply)
next
  case (Inr c)
  then have "map_of (s_contexts s) r = Some c" by (simp add: context_at_Inr)
  with Inr show ?thesis
    by (simp add: get_count_def context_of_apply sbind_sread sret_def bare_set_context
        split: option.split sum.split)
qed

lemma bare_populate_data: "bare (snd (populate_data r s)) = bare s"
proof (cases "context_at s (Some r)")
  case (Inl e)
  then show ?thesis by (simp add: populate_data_def context_of_apply)
next
  case (Inr c)
  then have "map_of (s_contexts s) r = Some c" by (simp add: context_at_Inr)
  with Inr show ?thesis
    by (simp add: populate_data_def context_of_apply node_of_def sbind_sread sret_def bare_set_context
        split: sum.split)
qed

lemma bare_get_data_map: "bare (snd (get_data_map r s)) = bare s"
proof -
  obtain x t where p: "populate_data r s = (x, t)" by (metis surj_pair)
  have t: "bare t = bare s" using bare_populate_data [of r s] p by simp
  show ?thesis
  proof (cases x)
    case (Inl e)
    with p t show ?thesis
      by (simp add: get_data_map_def context_of_def sbind_sread sret_def split: sum.split)
  next
    case (Inr u)
    with p t show ?thesis
      by (simp add: get_data_map_def context_of_def sbind_sread sret_def split: sum.split)
  qed
qed

lemma bare_get_data: "bare (snd (get_data T X r q s)) = bare s"
proof -
  obtain x t where p: "get_data_map r s = (x, t)" by (metis surj_pair)
  have t: "bare t = bare s" using bare_get_data_map [of r s] p by simp
  show ?thesis
  proof (cases x)
    case (Inl e)
    with p t show ?thesis by (simp add: get_data_def)
  next
    case (Inr data)
    show ?thesis
    proof (cases "context_at t (Some r)")
      case (Inl e)
      with Inr p t show ?thesis
        by (simp add: get_data_def context_of_apply sret_def sthrow_def split: option.split)
    next
      case c: (Inr c)
      then have m: "map_of (s_contexts t) r = Some c" by (simp add: context_at_Inr)
      have w: "bare (set_context r (c\<lparr>cx_cached_queries := y\<rparr>) t) = bare t" for y
        by (rule bare_set_context [OF m]) simp
      have d: "get_data_map r s = (Inr data, t)" using p Inr by simp
      show ?thesis
      proof (cases "q = [] \<or> map_of data q \<noteq> None")
        case True
        with d t show ?thesis by (auto simp: get_data_def sret_def sthrow_def)
      next
        case False
        then have q: "q \<noteq> []" and n: "map_of data q = None" by simp_all
        show ?thesis
          using get_data_tail [OF d q n m, of T X] by (simp add: t w split: option.split sum.split)
      qed
    qed
  qed
qed

lemma uniform_pure:
  assumes "\<And>s. caches_ok T X s \<Longrightarrow> fst (m s) = g s \<and> caches_ok T X (snd (m s)) \<and> bare (snd (m s)) = bare s"
    and "\<And>s s'. bare s = bare s' \<Longrightarrow> g s = g s'"
  shows "uniform (agree T X w) m"
proof (rule uniformI)
  fix s s' assume "agree T X w s s'"
  then have a: "caches_ok T X s" "caches_ok T X s'" and b: "bare s = bare s'" and w: "bare s = w"
    by (simp_all add: agree_def)
  from w assms(1) [OF a(1)] assms(1) [OF a(2)] assms(2) [OF b] b
  show "fst (m s) = fst (m s') \<and> agree T X w (snd (m s)) (snd (m s'))"
    unfolding agree_def by metis
qed

lemma uniform_fetch_query [uniform_intro]: "uniform (agree T X w) (fetch_query T X key)"
proof (rule uniform_pure)
  fix s assume ok: "caches_ok T X s"
  then have "queries_coherent T X s" by (simp add: caches_ok_def)
  then show "fst (fetch_query T X key s) = query_new T X s (fst key) (snd key) \<and>
      caches_ok T X (snd (fetch_query T X key s)) \<and> bare (snd (fetch_query T X key s)) = bare s"
    using fetch_query_step(1) fetch_query_ok [OF ok] bare_fetch_query [OF ok] by simp
next
  fix s s' assume "bare s = bare s'"
  from query_new_view [OF bare_view [OF this]]
  show "query_new T X s (fst key) (snd key) = query_new T X s' (fst key) (snd key)" by simp
qed

lemma uniform_get_count [uniform_intro]: "uniform (agree T X w) (get_count T X r q)"
proof (rule uniform_pure)
  fix s assume ok: "caches_ok T X s"
  show "fst (get_count T X r q s) = ebind (context_at s (Some r)) (\<lambda>_. count_of T X s r q) \<and>
      caches_ok T X (snd (get_count T X r q s)) \<and> bare (snd (get_count T X r q s)) = bare s"
  proof (cases "context_at s (Some r)")
    case (Inl e)
    with ok show ?thesis by (simp add: get_count_def context_of_apply)
  next
    case (Inr c)
    then have "map_of (s_contexts s) r = Some c" by (simp add: context_at_Inr)
    with Inr get_count_step [OF ok] bare_get_count show ?thesis by simp
  qed
next
  fix s s' assume b: "bare s = bare s'"
  show "ebind (context_at s (Some r)) (\<lambda>_. count_of T X s r q) =
      ebind (context_at s' (Some r)) (\<lambda>_. count_of T X s' r q)"
    using context_at_bare [OF b, of "\<lambda>_. count_of T X s r q" "Some r"] count_of_view [OF bare_view [OF b]]
    by simp
qed

lemma uniform_get_data_map [uniform_intro]: "uniform (agree T X w) (get_data_map r)"
proof (rule uniform_pure)
  fix s assume ok: "caches_ok T X s"
  show "fst (get_data_map r s) = ebind (context_at s (Some r)) (\<lambda>c. node_data (s_doc s) (cx_node c)) \<and>
      caches_ok T X (snd (get_data_map r s)) \<and> bare (snd (get_data_map r s)) = bare s"
  proof (cases "context_at s (Some r)")
    case (Inl e)
    with ok show ?thesis by (simp add: get_data_map_def context_of_apply)
  next
    case (Inr c)
    then have "map_of (s_contexts s) r = Some c" by (simp add: context_at_Inr)
    with Inr get_data_map_step [OF ok] bare_get_data_map show ?thesis by simp
  qed
next
  fix s s' assume b: "bare s = bare s'"
  show "ebind (context_at s (Some r)) (\<lambda>c. node_data (s_doc s) (cx_node c)) =
      ebind (context_at s' (Some r)) (\<lambda>c. node_data (s_doc s') (cx_node c))"
    using context_at_bare [OF b, of "\<lambda>c. node_data (s_doc s) (cx_node c)" "Some r"] bareD(4) [OF b]
    by simp
qed

lemma uniform_get_data [uniform_intro]: "uniform (agree T X w) (get_data T X r q)"
proof (rule uniform_pure)
  fix s assume ok: "caches_ok T X s"
  show "fst (get_data T X r q s) = data_of T X s r q \<and>
      caches_ok T X (snd (get_data T X r q s)) \<and> bare (snd (get_data T X r q s)) = bare s"
  proof (cases "context_at s (Some r)")
    case (Inl e)
    with ok show ?thesis by (simp add: get_data_def get_data_map_def context_of_apply data_of_def)
  next
    case (Inr c)
    then have "map_of (s_contexts s) r = Some c" by (simp add: context_at_Inr)
    with get_data_step [OF ok] bare_get_data show ?thesis by simp
  qed
next
  fix s s' assume b: "bare s = bare s'"
  show "data_of T X s r q = data_of T X s' r q"
    using data_of_view [OF bare_view [OF b]] by simp
qed

section \<open>What only reads the document and the contexts\<close>

lemma agreeD:
  assumes "agree T X w s s'"
  shows "bare s = bare s'" "private_of s' = private_of s" "s_doc s' = s_doc s"
    "run_design_query X s' cx q = run_design_query X s cx q" "s_subdomain s' = s_subdomain s"
    "s_generation s' = s_generation s" "s_secret_keys s' = s_secret_keys s"
proof -
  show b: "bare s = bare s'" using assms by (simp add: agree_def)
  show "private_of s' = private_of s" by (rule private_of_view [OF bare_view [OF b]])
  show "run_design_query X s' cx q = run_design_query X s cx q"
    using context_at_bare [OF b, of "\<lambda>c. case cx_structure c of None \<Rightarrow> Inl (UB NullDeref)
         | Some st \<Rightarrow> (let qa = ''/website/design//*[@id='' @ show_int (st_id st) @ '']''
             in ebind (run_raw_query X s None qa qa) (\<lambda>sub. ebind (get_node sub 0) (\<lambda>node.
                  run_raw_query X s (Some node) q q)))" cx]
    unfolding run_design_query_def run_raw_query_view [OF bare_view [OF b]] bareD [OF b]
    by (cases cx) simp_all
  show "s_doc s' = s_doc s" "s_subdomain s' = s_subdomain s" "s_generation s' = s_generation s"
    "s_secret_keys s' = s_secret_keys s"
    using bareD [OF b] by simp_all
qed

lemma uniform_reads [uniform_intro]:
  "uniform (agree T X w) (sread (\<lambda>s. private_of s a))"
  "uniform (agree T X w) (sread (\<lambda>s. filter_match (s_doc s) terms a))"
  "uniform (agree T X w) (sread (\<lambda>s. run_design_query X s cx q))"
  "uniform (agree T X w) (sread (\<lambda>s. text_of_first_child (s_doc s) n))"
  "uniform (agree T X w) (node_of p)"
  by (auto intro!: uniform_sread simp: node_of_def agreeD)

lemma uniform_context_of [uniform_intro]:
  assumes "\<And>c. f (bare_context c) = f c" and "\<And>c. uniform (agree T X w) (f c)"
  shows "uniform (agree T X w) (sbind (context_of r) f)"
proof (rule uniformI)
  fix s s' assume a: "agree T X w s s'"
  note b = agreeD(1) [OF a]
  have eq: "ebind (context_at s (Some r)) (\<lambda>c. Inr (bare_context c)) =
      ebind (context_at s' (Some r)) (\<lambda>c. Inr (bare_context c))"
    by (rule context_at_bare [OF b]) (simp add: bare_context_def)
  show "fst (sbind (context_of r) f s) = fst (sbind (context_of r) f s') \<and>
      agree T X w (snd (sbind (context_of r) f s)) (snd (sbind (context_of r) f s'))"
  proof (cases "context_at s (Some r)")
    case (Inl e)
    with eq have "context_at s' (Some r) = Inl e" by (cases "context_at s' (Some r)") auto
    with Inl a show ?thesis by (simp add: context_of_apply)
  next
    case (Inr c)
    with eq obtain c' where c': "context_at s' (Some r) = Inr c'" and "bare_context c' = bare_context c"
      by (cases "context_at s' (Some r)") auto
    then have "f c' = f c" using assms(1) [of c] assms(1) [of c'] by simp
    with Inr c' uniformD [OF assms(2) [of c] a] show ?thesis by (simp add: context_of_apply)
  qed
qed

lemma uniform_get_id [uniform_intro]: "uniform (agree T X w) (get_id r)"
  unfolding get_id_def by (intro uniform_intro) simp

lemma uniform_get_structure [uniform_intro]: "uniform (agree T X w) (get_structure r)"
  unfolding get_structure_def by (intro uniform_intro) simp

lemma uniform_context_single_data [uniform_intro]: "uniform (agree T X w) (context_single_data r)"
  unfolding context_single_data_def by (intro uniform_intro) simp

lemma uniform_context_to_json [uniform_intro]: "uniform (agree T X w) (context_to_json r)"
  unfolding context_to_json_def
  by (rule uniform_context_of, unfold bare_context_simps, rule refl) (intro uniform_intro)

section \<open>Responses\<close>

text \<open>What is used of \<open>std::sort\<close>: it touches the site only through the comparison it is given, so
  that a comparison that cannot tell two sites apart makes a sort that cannot either.\<close>

definition sort_contract :: "sort_lib \<Rightarrow> bool" where
  "sort_contract S \<longleftrightarrow> (\<forall>R cmp xs. (\<forall>x y. uniform R (cmp x y)) \<longrightarrow> uniform R (std_sort S cmp xs))"

text \<open>An instance: insertion sort.\<close>

fun insert_by :: "('a \<Rightarrow> 'a \<Rightarrow> ('s, bool) sm) \<Rightarrow> 'a \<Rightarrow> 'a list \<Rightarrow> ('s, 'a list) sm" where
  "insert_by cmp x [] = sret [x]"
| "insert_by cmp x (y # ys) = sbind (cmp y x) (\<lambda>b.
     if b then sbind (insert_by cmp x ys) (\<lambda>zs. sret (y # zs)) else sret (x # y # ys))"

fun sort_by :: "('a \<Rightarrow> 'a \<Rightarrow> ('s, bool) sm) \<Rightarrow> 'a list \<Rightarrow> ('s, 'a list) sm" where
  "sort_by cmp [] = sret []"
| "sort_by cmp (x # xs) = sbind (sort_by cmp xs) (insert_by cmp x)"

definition sort_ref :: sort_lib where
  "sort_ref = \<lparr>std_sort = sort_by, random_shuffle = rev, isdigit_result = 1, lexical_cast = (\<lambda>_. None)\<rparr>"

lemma uniform_insert_by: "(\<And>x y. uniform R (cmp x y)) \<Longrightarrow> uniform R (insert_by cmp x xs)"
  by (induction xs) (auto intro!: uniform_intro)

lemma uniform_sort_by: "(\<And>x y. uniform R (cmp x y)) \<Longrightarrow> uniform R (sort_by cmp xs)"
  by (induction xs) (auto intro!: uniform_intro uniform_insert_by)

lemma sort_ref_contract: "sort_contract sort_ref"
  by (simp add: sort_contract_def sort_ref_def uniform_sort_by)

lemma uniform_unique_value [uniform_intro]: "uniform (agree T X w) (unique_value T X r fs v)"
  by (induction fs arbitrary: v) (auto intro!: uniform_intro)

lemma uniform_unique_match [uniform_intro]: "uniform (agree T X w) (unique_match T X fs a found)"
  unfolding unique_match_def by (auto intro!: uniform_intro split: list.split)

lemma uniform_node_matches [uniform_intro]: "uniform (agree T X w) (node_matches T X p a found)"
  unfolding node_matches_def by (intro uniform_intro)

lemma uniform_select_loop [uniform_intro]:
  "uniform (agree T X w) (select_loop T X p start stop q i n sel)"
proof (induction n arbitrary: i sel)
  case (Suc n)
  show ?case unfolding select_loop.simps Let_def by (intro uniform_intro Suc)
qed (auto intro: uniform_intro)

lemma uniform_context_loop [uniform_intro]: "uniform (agree T X w) (context_loop q i n)"
  by (induction n arbitrary: i) (auto intro!: uniform_intro)

lemma uniform_sort_callback [uniform_intro]: "uniform (agree T X w) (sort_callback T X S fs l r)"
proof (induction fs)
  case (Cons f fs)
  show ?case unfolding sort_callback.simps Let_def by (intro uniform_intro Cons)
qed (auto intro: uniform_intro)

lemma uniform_sort_contexts:
  assumes "sort_contract S"
  shows "uniform (agree T X w) (sort_contexts T X S p cs)"
  using assms uniform_sort_callback
  by (auto simp: sort_contexts_def sort_contract_def intro: uniform_intro split: sort_type.split)

lemma uniform_response_query:
  assumes "sort_contract S"
  shows "uniform (agree T X w) (response_query T X S p cx q)"
  unfolding response_query_def Let_def by (intro uniform_intro uniform_sort_contexts [OF assms])

lemma uniform_response_new:
  assumes "sort_contract S"
  shows "uniform (agree T X w) (response_new T X S parent q opts)"
  unfolding response_new_def by (intro uniform_intro uniform_response_query [OF assms])

lemma uniform_response_create_info [uniform_intro]:
  "uniform (agree T X w) (response_create_info T X parent q)"
  unfolding response_create_info_def create_info_for_def Let_def by (intro uniform_intro)

lemma uniform_response_json [uniform_intro]:
  "uniform (agree T X w) (response_get_json r)" "uniform (agree T X w) (response_get_data r)"
  "uniform (agree T X w) (response_get_structure r)"
  unfolding response_get_json_def response_get_data_def response_get_structure_def
    response_context_to_json_def contexts_to_json_def by (intro uniform_intro)+

section \<open>Sessions\<close>

lemma uniform_session [uniform_intro]:
  "uniform (agree T X w) (session_create_info T X se i q)" "uniform (agree T X w) (session_data se i)"
  "uniform (agree T X w) (session_structure se i)"
  unfolding session_create_info_def session_data_def session_structure_def by (intro uniform_intro)+

lemma uniform_session_get:
  assumes "sort_contract S"
  shows "uniform (agree T X w) (session_get T X S se i q opts)"
  unfolding session_get_def by (intro uniform_intro uniform_response_new [OF assms])

text \<open>What an operation that cannot see the caches does to one site.\<close>

lemma uniform_agree_step:
  assumes "\<And>w. uniform (agree T X w) m" and "caches_ok T X s"
  shows "caches_ok T X (snd (m s))" and "bare (snd (m s)) = bare s"
  using uniformD [OF assms(1), of "bare s" s s] assms(2) by (simp_all add: agree_def)

section \<open>A loaded site\<close>

text \<open>Loading fills no cache, and keeps what the site was created with.\<close>

definition unused_context :: "vae_context \<Rightarrow> bool" where
  "unused_context c \<longleftrightarrow>
     cx_cached_counts c = [] \<and> cx_cached_queries c = [] \<and> cx_data c = [] \<and> \<not> cx_data_populated c"

definition loading :: "string \<Rightarrow> bool \<Rightarrow> string list \<Rightarrow> site \<Rightarrow> bool" where
  "loading su staging keys s \<longleftrightarrow> s_query_cache s = lru_new query_cache_size \<and>
     (\<forall>r c. map_of (s_contexts s) r = Some c \<longrightarrow> unused_context c) \<and>
     s_subdomain s = su \<and> s_staging s = staging \<and> s_secret_keys s = keys"

lemma keeps_loading_modify [keeps_intro]:
  "keeps (loading su st ks) (on_doc f)"
  "keeps (loading su st ks) (smodify (\<lambda>s. s\<lparr>s_structures := f1 s\<rparr>))"
  "keeps (loading su st ks) (smodify (\<lambda>s. s\<lparr>s_permalinks := f2 s, s_nodes := f3 s\<rparr>))"
  "keeps (loading su st ks) (smodify (\<lambda>s. s\<lparr>s_associations := f4 s\<rparr>))"
  "keeps (loading su st ks) (smodify (\<lambda>s. s\<lparr>s_nodes_to_clean := f5 s\<rparr>))"
  "keeps (loading su st ks) (smodify (\<lambda>s. s\<lparr>s_nodes_to_clean2 := f6 s\<rparr>))"
  "keeps (loading su st ks) (smodify (\<lambda>s. s\<lparr>s_generation := f7 s\<rparr>))"
  "keeps (loading su st ks) (smodify (\<lambda>s. s\<lparr>s_root := f8 s\<rparr>))"
  "keeps (loading su st ks) (smodify (\<lambda>s. s\<lparr>s_root_design := f9 s\<rparr>))"
  "keeps (loading su st ks) (smodify (\<lambda>s. s\<lparr>s_doc := f10 s, s_root := f8 s, s_root_design := f9 s\<rparr>))"
  "keeps (loading su st ks) (node_of p)"
  by (auto simp: keeps_def loading_def on_doc_def node_of_def)

lemma keeps_loading_set_context:
  "unused_context c \<Longrightarrow> keeps (loading su st ks) (smodify (set_context r c))"
  by (auto simp: keeps_def loading_def set_context_def)

lemma keeps_loading_delete_context [keeps_intro]: "keeps (loading su st ks) (delete_context r)"
  by (auto simp: keeps_def loading_def delete_context_def map_of_filter_neq split: if_splits)

lemma keeps_loading_new_context [keeps_intro]: "keeps (loading su st ks) (new_context a)"
  by (auto simp: keeps_def loading_def new_context_def unused_context_def)

lemma context_at_unused: "loading su st ks s \<Longrightarrow> context_at s p = Inr c \<Longrightarrow> unused_context c"
  by (auto simp: loading_def context_at_def split: option.splits)

lemma keeps_loading_context_at:
  assumes "\<And>c. unused_context c \<Longrightarrow> keeps (loading su st ks) (f c)"
  shows "keeps (loading su st ks) (sbind (sread (\<lambda>s. context_at s p)) f)"
proof (rule keepsI)
  fix s assume l: "loading su st ks s"
  show "loading su st ks (snd (sbind (sread (\<lambda>s. context_at s p)) f s))"
  proof (cases "context_at s p")
    case (Inr c)
    with keepsD [OF assms [OF context_at_unused [OF l Inr]] l] show ?thesis by (simp add: sbind_sread)
  qed (simp add: sbind_sread l)
qed

lemmas keeps_loading_context_of =
  keeps_loading_context_at [of _ _ _ _ "Some r" for r, folded context_of_def]

lemma unused_context_update [simp]:
  "unused_context (c\<lparr>cx_id := i, cx_permalink := p\<rparr>) = unused_context c"
  "unused_context (c\<lparr>cx_structure := st, cx_type := t\<rparr>) = unused_context c"
  "unused_context (c\<lparr>cx_kill_me := b\<rparr>) = unused_context c"
  "unused_context (c\<lparr>cx_pointer_nodes := ps\<rparr>) = unused_context c"
  by (simp_all add: unused_context_def)

lemma keeps_loading_structure [keeps_intro]:
  "keeps (loading su st ks) (structure_from_structure_id X i)"
  unfolding structure_from_structure_id_def Let_def by (intro keeps_intro)

lemma keeps_loading_populate_attrs [keeps_intro]: "keeps (loading su st ks) (populate_attrs X r)"
  unfolding populate_attrs_def
  by (rule keeps_loading_context_of | (rule keeps_loading_set_context, simp) | rule keeps_intro)+

lemma keeps_loading_store_doc [keeps_intro]: "keeps (loading su st ks) (store_doc p f)"
  unfolding store_doc_def by (intro keeps_intro)

lemma keeps_loading_register [keeps_intro]: "keeps (loading su st ks) (register_context r)"
  unfolding register_context_def by (rule keeps_loading_context_of) (intro keeps_intro)

lemma keeps_loading_contexts:
  "keeps (loading su st ks) (context_new X n a)" "keeps (loading su st ks) (load_children X n skip p)"
proof -
  have "(\<forall>a. keeps (loading su st ks) (context_new X n a)) \<and>
    (\<forall>skip p. keeps (loading su st ks) (load_children X n skip p))"
  proof (induction n)
    case 0
    have "keeps (loading su st ks) (load_children X 0 skip p)" for skip p
      by (cases p) (simp_all add: keeps_intro)
    then show ?case by (simp add: keeps_intro)
  next
    case (Suc n)
    then have IH: "keeps (loading su st ks) (context_new X n a)"
      "keeps (loading su st ks) (load_children X n skip p)" for a skip p by auto
    have "keeps (loading su st ks) (context_new X (Suc n) a)" for a
      unfolding context_new.simps
      by (rule keeps_loading_context_of IH | (rule keeps_loading_set_context, simp) | rule keeps_intro)+
    moreover have "keeps (loading su st ks) (load_children X (Suc n) skip (Some p))" for skip p
      unfolding load_children.simps
      by (rule keeps_loading_context_of IH | rule keeps_intro)+
    then have "keeps (loading su st ks) (load_children X (Suc n) skip p)" for skip p
      by (cases p) (simp_all add: keeps_intro)
    ultimately show ?case by blast
  qed
  then show "keeps (loading su st ks) (context_new X n a)" "keeps (loading su st ks) (load_children X n skip p)"
    by blast+
qed

lemma keeps_loading_single_data [keeps_intro]: "keeps (loading su st ks) (context_single_data r)"
  unfolding context_single_data_def by (rule keeps_loading_context_of) (intro keeps_intro)

lemma keeps_loading_copy [keeps_intro]:
  "keeps (loading su st ks) (\<lambda>s. case xml_copy_node X a (s_doc s) of (p, d) \<Rightarrow> (Inr p, s\<lparr>s_doc := d\<rparr>))"
  by (auto simp: keeps_def loading_def split: prod.split)

lemma keeps_loading_link [keeps_intro]: "keeps (loading su st ks) (link_association X r node a)"
  unfolding link_association_def
  by (rule keeps_loading_context_at keeps_loading_copy | (rule keeps_loading_set_context, simp) | rule keeps_intro)+

lemma keeps_loading_association [keeps_intro]: "keeps (loading su st ks) (initialize_association X r)"
  unfolding initialize_association_def by (rule keeps_loading_context_of) (intro keeps_intro)

lemma keeps_loading_find_root [keeps_intro]: "keeps (loading su st ks) (find_root X q d m)"
  unfolding find_root_def by (intro keeps_intro)

lemma load_xml_doc_loading:
  assumes "loading su st ks s"
  shows "loading (if test_mode then ''local'' else su) st ks (snd (load_xml_doc X test_mode xml s))"
proof -
  let ?su = "if test_mode then ''local'' else su"
  let ?doc = "if test_mode then xml_parse_file X (s_subdomain s) else xml_read_memory X xml (s_subdomain s)"
  define body where "body = (\<lambda>d. sbind (smodify (\<lambda>s. s\<lparr>s_doc := xml_order_elems X d, s_root := None, s_root_design := None\<rparr>)) (\<lambda>_.
          sbind (find_root X ''/website/content'' ''website root node''
                   ''Could not find root content node in XML file'') (\<lambda>root.
          sbind (smodify (\<lambda>s. s\<lparr>s_root := Some root\<rparr>)) (\<lambda>_.
          sbind (find_root X ''/website/design'' ''website design node''
                   ''Could not find root design node in XML file'') (\<lambda>design.
          sbind (smodify (\<lambda>s. s\<lparr>s_root_design := Some design\<rparr>)) (\<lambda>_.
          sbind (node_of (Some root)) (\<lambda>n.
          sbind (sread (\<lambda>s. Inr (load_fuel (s_doc s)))) (\<lambda>fuel.
          sbind (load_children X fuel False (xn_children n)) (\<lambda>_.
          sbind (initialize_associations X) (\<lambda>_.
            load_generation X))))))))))"
  have k: "keeps (loading ?su st ks) (body d)" for d
    unfolding body_def initialize_associations_def load_generation_def
    by (intro keeps_intro keeps_loading_contexts)
  define s1 where "s1 = (if test_mode then s\<lparr>s_subdomain := ''local''\<rparr> else s)"
  have s1: "loading ?su st ks s1" using assms by (simp add: loading_def s1_def)
  have eq: "load_xml_doc X test_mode xml s = (case ?doc of
      None \<Rightarrow> (Inl (VaeDbInternalError ''Could not open/parse XML file''), s1) | Some d \<Rightarrow> body d s1)"
    by (cases test_mode; cases ?doc)
      (simp_all add: load_xml_doc_def body_def s1_def sbind_sread sret_def sthrow_def)
  have "loading ?su st ks (snd (body d s1))" for d using k s1 unfolding keeps_def by blast
  then show ?thesis unfolding eq by (cases ?doc) (simp_all only: option.case snd_conv s1)
qed

lemma site_new_loaded:
  assumes "site_new T X test_mode read_s3 su st xml = Inr s"
  shows "caches_ok T X s" and "s_staging s = st" and "s_subdomain s = (if test_mode then ''local'' else su)"
    and "\<not> test_mode \<Longrightarrow> \<exists>keys. read_s3 (su @ ''-secret'') = Inr keys \<and>
      s_secret_keys s = boost_split T ('','' @ '';'' @ [CHR 0x0A]) keys"
proof -
  let ?keys = "if test_mode then Inr [] else ebind (read_s3 (su @ ''-secret'')) (\<lambda>keys.
      Inr (boost_split T ('','' @ '';'' @ [CHR 0x0A]) keys))"
  obtain ks where ks: "?keys = Inr ks" using assms by (cases ?keys) (simp_all add: site_new_def)
  obtain r s0 where r: "load_xml_doc X test_mode xml (site_empty su st ks) = (r, s0)" by (metis surj_pair)
  have l: "load_xml_doc X test_mode xml (site_empty su st ks) = (Inr (), s)"
    using assms unfolding site_new_def ks ebind_simps r by (cases r) simp_all
  have "loading su st ks (site_empty su st ks)" by (simp add: loading_def site_empty_def)
  from load_xml_doc_loading [OF this, of test_mode X xml] l
  have s: "loading (if test_mode then ''local'' else su) st ks s" by simp
  then show "caches_ok T X s" by (intro caches_ok_fresh) (auto simp: loading_def unused_context_def)
  from s show "s_staging s = st" "s_subdomain s = (if test_mode then ''local'' else su)"
    by (simp_all add: loading_def)
  from s ks show "\<not> test_mode \<Longrightarrow> \<exists>keys. read_s3 (su @ ''-secret'') = Inr keys \<and>
      s_secret_keys s = boost_split T ('','' @ '';'' @ [CHR 0x0A]) keys"
    by (auto simp: loading_def ebind_eq_Inr_iff)
qed

end
