(* ===== verification/Transparency.thy ===== *)
theory Transparency
  imports Server CacheFree
begin

text \<open>
  The caches of the sites never show in a reply: two servers that are alike but for the query caches
  and the context caches of their sites, each coherent, answer every request alike and stay alike.
\<close>

section \<open>Servers that differ in caches only\<close>

definition alike :: "text_lib \<Rightarrow> xml_lib \<Rightarrow> site \<Rightarrow> site \<Rightarrow> bool" where
  "alike T X s s' \<longleftrightarrow> agree T X (bare s) s s'"

lemma alike_iff: "alike T X s s' \<longleftrightarrow> caches_ok T X s \<and> caches_ok T X s' \<and> bare s = bare s'"
  by (auto simp: alike_def agree_def)

lemma alikeD:
  assumes "alike T X s s'"
  shows "s_subdomain s' = s_subdomain s" "s_generation s' = s_generation s" "s_secret_keys s' = s_secret_keys s"
  using agreeD [OF assms [unfolded alike_def]] by simp_all

lemma uniform_alike:
  assumes "\<And>w. uniform (agree T X w) m"
  shows "uniform (alike T X) m"
  using uniformD [OF assms] by (force simp: uniform_def alike_def agree_def)

definition sites_agree :: "text_lib \<Rightarrow> xml_lib \<Rightarrow> (nat \<times> site) list \<Rightarrow> (nat \<times> site) list \<Rightarrow> bool" where
  "sites_agree T X = list_all2 (\<lambda>(r, s) (r', s'). r = r' \<and> alike T X s s')"

definition servers_agree ::
  "('c, 'm, 'd, 'n) env \<Rightarrow> ('c, 'm, 'd, 'n) server \<Rightarrow> ('c, 'm, 'd, 'n) server \<Rightarrow> bool" where
  "servers_agree E sv sv' \<longleftrightarrow>
     sites_agree (e_text E) (e_xml E) (sv_site_store sv) (sv_site_store sv') \<and>
     sv\<lparr>sv_site_store := []\<rparr> = sv'\<lparr>sv_site_store := []\<rparr>"

lemma sites_agree_map_of:
  assumes "sites_agree T X xs ys"
  shows "rel_option (alike T X) (map_of xs r) (map_of ys r)"
  using assms unfolding sites_agree_def by (induction rule: list_all2_induct) auto

lemma sites_agree_keys: "sites_agree T X xs ys \<Longrightarrow> map fst xs = map fst ys"
  unfolding sites_agree_def by (induction rule: list_all2_induct) auto

lemma sites_agree_put:
  assumes "sites_agree T X xs ys" and "alike T X s s'"
  shows "sites_agree T X (put r s xs) (put r s' ys)"
  using assms(1) unfolding sites_agree_def
  by (induction rule: list_all2_induct) (use assms(2) in auto)

lemma sites_agree_Cons:
  "alike T X s s' \<Longrightarrow> sites_agree T X xs ys \<Longrightarrow> sites_agree T X ((r, s) # xs) ((r, s') # ys)"
  by (simp add: sites_agree_def)

lemma servers_agreeD:
  assumes "servers_agree E sv sv'"
  shows "sv_sessions sv' = sv_sessions sv" "sv_sites sv' = sv_sites sv" "sv_memcache sv' = sv_memcache sv"
    "sv_mysql sv' = sv_mysql sv" "sv_now sv' = sv_now sv" "sv_rand_count sv' = sv_rand_count sv"
    "sv_query_log sv' = sv_query_log sv"
    "rel_option (alike (e_text E) (e_xml E)) (map_of (sv_site_store sv) r) (map_of (sv_site_store sv') r)"
    "fresh_ref (sv_site_store sv') = fresh_ref (sv_site_store sv)"
proof -
  note s = conjunct1 [OF assms [unfolded servers_agree_def]] and e = conjunct2 [OF assms [unfolded servers_agree_def]]
  show "rel_option (alike (e_text E) (e_xml E)) (map_of (sv_site_store sv) r) (map_of (sv_site_store sv') r)"
    by (rule sites_agree_map_of [OF s])
  show "fresh_ref (sv_site_store sv') = fresh_ref (sv_site_store sv)"
    unfolding fresh_ref_def sites_agree_keys [OF s] ..
  show "sv_sessions sv' = sv_sessions sv" "sv_sites sv' = sv_sites sv" "sv_memcache sv' = sv_memcache sv"
    "sv_mysql sv' = sv_mysql sv" "sv_now sv' = sv_now sv" "sv_rand_count sv' = sv_rand_count sv"
    "sv_query_log sv' = sv_query_log sv"
    using arg_cong [OF e, of sv_sessions] arg_cong [OF e, of sv_sites] arg_cong [OF e, of sv_memcache]
      arg_cong [OF e, of sv_mysql] arg_cong [OF e, of sv_now] arg_cong [OF e, of sv_rand_count]
      arg_cong [OF e, of sv_query_log] by simp_all
qed

text \<open>A change that does not look at the sites.\<close>

lemma servers_agree_update:
  assumes "servers_agree E sv sv'"
    and "\<And>ss. sv_site_store (f (sv\<lparr>sv_site_store := ss\<rparr>)) = ss"
    and "\<And>sv ss. (f sv)\<lparr>sv_site_store := ss\<rparr> = f (sv\<lparr>sv_site_store := ss\<rparr>)"
    and "\<And>sv ss. sv_site_store (f sv) = sv_site_store sv"
  shows "servers_agree E (f sv) (f sv')"
  using assms(1) unfolding servers_agree_def assms(3,4) by simp

text \<open>The store reached by a step on one site, and a new site in it.\<close>

lemma servers_agree_store:
  assumes "servers_agree E sv sv'" and "sites_agree (e_text E) (e_xml E) ss ss'"
  shows "servers_agree E (sv\<lparr>sv_site_store := ss\<rparr>) (sv'\<lparr>sv_site_store := ss'\<rparr>)"
  using assms by (simp add: servers_agree_def)

section \<open>The parts of a handler\<close>

lemma uniform_sessions [uniform_intro]:
  "uniform (servers_agree E) (session_at sid)"
  "uniform (servers_agree E) (smodify (\<lambda>sv. sv\<lparr>sv_sessions := f (sv_sessions sv)\<rparr>))"
  "uniform (servers_agree E) (smodify (\<lambda>sv. sv\<lparr>sv_rand_count := n, sv_sessions := g (sv_now sv) (sv_sessions sv)\<rparr>))"
  "uniform (servers_agree E) (sread (\<lambda>sv. h (sv_sessions sv) (sv_rand_count sv)))"
proof -
  show "uniform (servers_agree E) (session_at sid)"
    unfolding session_at_def by (rule uniform_sread) (simp add: servers_agreeD)
  show "uniform (servers_agree E) (sread (\<lambda>sv. h (sv_sessions sv) (sv_rand_count sv)))"
    by (rule uniform_sread) (simp add: servers_agreeD)
  show "uniform (servers_agree E) (smodify (\<lambda>sv. sv\<lparr>sv_sessions := f (sv_sessions sv)\<rparr>))"
    "uniform (servers_agree E) (smodify (\<lambda>sv. sv\<lparr>sv_rand_count := n, sv_sessions := g (sv_now sv) (sv_sessions sv)\<rparr>))"
    by (rule uniform_smodify, erule servers_agree_update, simp_all)+
qed

lemma uniform_on_memcache [uniform_intro]: "uniform (servers_agree E) (on_memcache m)"
proof (rule uniformI)
  fix sv sv' assume a: "servers_agree E sv sv'"
  obtain res x where m: "m (sv_memcache sv) = (res, x)" by (metis surj_pair)
  have "servers_agree E (sv\<lparr>sv_memcache := x\<rparr>) (sv'\<lparr>sv_memcache := x\<rparr>)"
    by (rule servers_agree_update [OF a]) simp_all
  then show "fst (on_memcache m sv) = fst (on_memcache m sv') \<and>
      servers_agree E (snd (on_memcache m sv)) (snd (on_memcache m sv'))"
    using m by (simp add: on_memcache_def servers_agreeD(3) [OF a])
qed

lemma uniform_on_mysql [uniform_intro]: "uniform (servers_agree E) (on_mysql m)"
proof (rule uniformI)
  fix sv sv' assume a: "servers_agree E sv sv'"
  obtain res x where m: "m (sv_mysql sv) = (res, x)" by (metis surj_pair)
  have "servers_agree E (sv\<lparr>sv_mysql := x\<rparr>) (sv'\<lparr>sv_mysql := x\<rparr>)"
    by (rule servers_agree_update [OF a]) simp_all
  then show "fst (on_mysql m sv) = fst (on_mysql m sv') \<and>
      servers_agree E (snd (on_mysql m sv)) (snd (on_mysql m sv'))"
    using m by (simp add: on_mysql_def servers_agreeD(4) [OF a])
qed

lemma uniform_on_site:
  assumes "uniform (alike (e_text E) (e_xml E)) m"
  shows "uniform (servers_agree E) (on_site r m)"
proof (rule uniformI)
  fix sv sv' assume a: "servers_agree E sv sv'"
  show "fst (on_site r m sv) = fst (on_site r m sv') \<and>
      servers_agree E (snd (on_site r m sv)) (snd (on_site r m sv'))"
  proof (cases "map_of (sv_site_store sv) r")
    case None
    with servers_agreeD(8) [OF a, of r] a show ?thesis by (simp add: on_site_def)
  next
    case (Some s)
    with servers_agreeD(8) [OF a, of r] obtain s' where s': "map_of (sv_site_store sv') r = Some s'"
      and ss: "alike (e_text E) (e_xml E) s s'" by (auto simp: option_rel_Some1)
    obtain res t where m: "m s = (res, t)" by (metis surj_pair)
    obtain t' where m': "m s' = (res, t')" and tt: "alike (e_text E) (e_xml E) t t'"
      using uniformD [OF assms ss] m by (metis fst_conv snd_conv surj_pair)
    have "sites_agree (e_text E) (e_xml E) (sv_site_store sv) (sv_site_store sv')"
      using a by (simp add: servers_agree_def)
    from servers_agree_store [OF a sites_agree_put [OF this tt]]
    show ?thesis by (simp add: on_site_def Some s' m m')
  qed
qed

lemma agree_site_reads:
  assumes "servers_agree E sv sv'" and "\<And>s s'. alike (e_text E) (e_xml E) s s' \<Longrightarrow> f s = f s'"
  shows "(case map_of (sv_site_store sv) r of None \<Rightarrow> e | Some s \<Rightarrow> f s) =
    (case map_of (sv_site_store sv') r of None \<Rightarrow> e | Some s \<Rightarrow> f s)"
  using servers_agreeD(8) [OF assms(1), of r] assms(2)
  by (cases "map_of (sv_site_store sv) r"; cases "map_of (sv_site_store sv') r") simp_all

lemma uniform_session_subdomain [uniform_intro]: "uniform (servers_agree E) (session_subdomain sid)"
  unfolding session_subdomain_def
proof (rule uniform_sread)
  fix sv sv' assume a: "servers_agree E sv sv'"
  have r: "(case map_of (sv_site_store sv) r of None \<Rightarrow> Inl (UB UseAfterFree) | Some s \<Rightarrow> Inr (get_subdomain s)) =
      (case map_of (sv_site_store sv') r of None \<Rightarrow> Inl (UB UseAfterFree) | Some s \<Rightarrow> Inr (get_subdomain s))" for r
    by (rule agree_site_reads [OF a]) (simp add: get_subdomain_def alikeD)
  show "(case map_of (sv_sessions sv) sid of None \<Rightarrow> Inl (UB NullDeref)
      | Some se \<Rightarrow> (case map_of (sv_site_store sv) (se_site se) of
         None \<Rightarrow> Inl (UB UseAfterFree) | Some s \<Rightarrow> Inr (get_subdomain s))) =
     (case map_of (sv_sessions sv') sid of None \<Rightarrow> Inl (UB NullDeref)
      | Some se \<Rightarrow> (case map_of (sv_site_store sv') (se_site se) of
         None \<Rightarrow> Inl (UB UseAfterFree) | Some s \<Rightarrow> Inr (get_subdomain s)))"
    unfolding servers_agreeD(1) [OF a] r ..
qed

lemma uniform_site_at:
  assumes "\<And>s s'. alike (e_text E) (e_xml E) s s' \<Longrightarrow> f s = f s'" and "\<And>s. uniform (servers_agree E) (f s)"
  shows "uniform (servers_agree E) (sbind (site_at r) f)"
proof (rule uniformI)
  fix sv sv' assume a: "servers_agree E sv sv'"
  show "fst (sbind (site_at r) f sv) = fst (sbind (site_at r) f sv') \<and>
      servers_agree E (snd (sbind (site_at r) f sv)) (snd (sbind (site_at r) f sv'))"
  proof (cases "map_of (sv_site_store sv) r")
    case None
    with servers_agreeD(8) [OF a, of r] a show ?thesis by (simp add: site_at_def sbind_sread)
  next
    case (Some s)
    with servers_agreeD(8) [OF a, of r] obtain s' where s': "map_of (sv_site_store sv') r = Some s'"
      and ss: "alike (e_text E) (e_xml E) s s'" by (auto simp: option_rel_Some1)
    from uniformD [OF assms(2) a, of s] assms(1) [OF ss] Some s'
    show ?thesis by (simp add: site_at_def sbind_sread)
  qed
qed

lemma uniform_load_site [uniform_intro]: "uniform (servers_agree E) (load_site E su st xml)"
proof (rule uniformI)
  fix sv sv' assume a: "servers_agree E sv sv'"
  show "fst (load_site E su st xml sv) = fst (load_site E su st xml sv') \<and>
      servers_agree E (snd (load_site E su st xml sv)) (snd (load_site E su st xml sv'))"
  proof (cases "site_new (e_text E) (e_xml E) (e_test_mode E) (e_read_s3 E) su st xml")
    case (Inl e)
    with a show ?thesis by (simp add: load_site_def)
  next
    case (Inr s)
    have s: "alike (e_text E) (e_xml E) s s" using site_new_loaded(1) [OF Inr] by (simp add: alike_iff)
    let ?r = "fresh_ref (sv_site_store sv)"
    have "sites_agree (e_text E) (e_xml E) (sv_site_store sv) (sv_site_store sv')"
      using a by (simp add: servers_agree_def)
    from servers_agree_store [OF a sites_agree_Cons [OF s this, of ?r]]
    have "servers_agree E ((sv\<lparr>sv_site_store := (?r, s) # sv_site_store sv\<rparr>)\<lparr>sv_sites := ss\<rparr>)
        ((sv'\<lparr>sv_site_store := (?r, s) # sv_site_store sv'\<rparr>)\<lparr>sv_sites := ss\<rparr>)" for ss
      by (rule servers_agree_update) simp_all
    then show ?thesis using Inr by (simp add: load_site_def Let_def servers_agreeD(2,9) [OF a])
  qed
qed

lemma uniform_lookup_site [uniform_intro]: "uniform (servers_agree E) (sread (lookup_site E key k))"
proof (rule uniform_sread)
  fix sv sv' assume a: "servers_agree E sv sv'"
  have r: "(case map_of (sv_site_store sv) r of None \<Rightarrow> Inl (UB UseAfterFree)
        | Some s \<Rightarrow> ebind (validate_secret_key (e_test_mode E) s k) (\<lambda>_. Inr (Some r))) =
      (case map_of (sv_site_store sv') r of None \<Rightarrow> Inl (UB UseAfterFree)
        | Some s \<Rightarrow> ebind (validate_secret_key (e_test_mode E) s k) (\<lambda>_. Inr (Some r)))" for r
    by (rule agree_site_reads [OF a]) (simp add: validate_secret_key_def alikeD)
  show "lookup_site E key k sv = lookup_site E key k sv'"
    unfolding lookup_site_def servers_agreeD(2) [OF a] r ..
qed

lemma uniform_get_site [uniform_intro]: "uniform (servers_agree E) (get_site E su k st)"
  unfolding get_site_def
  by (intro uniform_intro uniform_site_at) (simp add: validate_secret_key_def alikeD)

lemma uniform_with_params [uniform_intro]:
  "(\<And>p. uniform R (act p)) \<Longrightarrow> uniform R (with_params reads params act)"
  by (cases "fst (reads params)") (simp_all add: with_params_def uniform_intro)

section \<open>The handlers\<close>

lemma uniform_h_open_session: "uniform (servers_agree E) (h_open_session E params)"
  unfolding h_open_session_def
  by (intro uniform_intro uniform_site_at) (simp add: get_generation_def alikeD)

lemma uniform_h_close_session: "uniform (servers_agree E) (h_close_session params)"
proof -
  have m: "uniform (servers_agree E) (smodify (\<lambda>sv. if map_of (sv_sessions sv) sid \<noteq> None
      then sv\<lparr>sv_sessions := filter (\<lambda>p. fst p \<noteq> sid) (sv_sessions sv)\<rparr> else sv))" for sid
    by (rule uniform_smodify, erule servers_agree_update) simp_all
  show ?thesis unfolding h_close_session_def by (intro uniform_intro m)
qed

lemma uniform_h_query:
  "uniform (servers_agree E) (h_create_info E sid params)" "uniform (servers_agree E) (h_data sid params)"
  "uniform (servers_agree E) (h_structure sid params)"
  unfolding h_create_info_def h_data_def h_structure_def by (intro uniform_intro uniform_on_site uniform_alike)+

lemma uniform_h_get:
  assumes "sort_contract (e_sort E)"
  shows "uniform (servers_agree E) (h_get E sid params)"
  unfolding h_get_def by (intro uniform_intro uniform_on_site uniform_alike uniform_session_get [OF assms])

lemma uniform_h_caches:
  "uniform (servers_agree E) (h_ping params)"
  "uniform (servers_agree E) (h_short_term_get E sid params)"
  "uniform (servers_agree E) (h_short_term_set E sid params)"
  "uniform (servers_agree E) (h_short_term_delete E sid params)"
  "uniform (servers_agree E) (h_session_cache_get E sid params)"
  "uniform (servers_agree E) (h_session_cache_set E sid params)"
  "uniform (servers_agree E) (h_session_cache_delete E sid params)"
  "uniform (servers_agree E) (h_long_term_get E sid params)"
  "uniform (servers_agree E) (h_long_term_set E sid params)"
  "uniform (servers_agree E) (h_long_term_delete E sid params)"
  "uniform (servers_agree E) (h_long_term_empty E sid params)"
  "uniform (servers_agree E) (h_sweeper_info E sid params)"
  "uniform (servers_agree E) (h_sitewide_lock E sid params)"
  "uniform (servers_agree E) (h_sitewide_unlock E sid params)"
  unfolding h_ping_def h_short_term_get_def h_short_term_set_def h_short_term_delete_def h_session_cache_get_def
    h_session_cache_set_def h_session_cache_delete_def h_long_term_get_def h_long_term_set_def h_long_term_delete_def
    h_long_term_empty_def h_sweeper_info_def h_sitewide_lock_def h_sitewide_unlock_def
  by (intro uniform_intro)+

lemma uniform_handler:
  assumes "sort_contract (e_sort E)"
  shows "uniform (servers_agree E) (handler E ep sid params)"
  by (cases ep)
    (simp_all add: uniform_h_caches uniform_h_open_session uniform_h_close_session uniform_h_query
      uniform_h_get [OF assms])

lemma uniform_run_handler:
  assumes "sort_contract (e_sort E)"
  shows "uniform (servers_agree E) (run_handler dump E ep sid params)"
  unfolding run_handler_def by (intro uniform_intro uniform_handler [OF assms])

end
