(* ===== verification/JsonLexer.thy ===== *)
theory JsonLexer
  imports Json
begin

text \<open>
  The lexer of \<^verbatim>\<open>src/json.hpp\<close>: the buffer adapter it reads from, and the scanners for strings,
  numbers and literals.  A byte is a \<open>char\<close>; the \<open>int\<close> of the current character is an option, with
  no value at the end of the input.
\<close>

unbundle bit_operations_syntax

section \<open>Tokens and the state of the lexer\<close>

datatype token =
    Uninitialized
  | LiteralTrue | LiteralFalse | LiteralNull
  | ValueString | ValueUnsigned | ValueInteger | ValueFloat
  | BeginArray | BeginObject | EndArray | EndObject
  | NameSeparator | ValueSeparator
  | ParseError | EndOfInput | LiteralOrValue

definition quoted :: "string \<Rightarrow> string" where
  "quoted s = squote @ s @ squote"

fun token_type_name :: "token \<Rightarrow> string" where
  "token_type_name Uninitialized = ''<uninitialized>''"
| "token_type_name LiteralTrue = ''true literal''"
| "token_type_name LiteralFalse = ''false literal''"
| "token_type_name LiteralNull = ''null literal''"
| "token_type_name ValueString = ''string literal''"
| "token_type_name ValueUnsigned = ''number literal''"
| "token_type_name ValueInteger = ''number literal''"
| "token_type_name ValueFloat = ''number literal''"
| "token_type_name BeginArray = quoted ''[''"
| "token_type_name BeginObject = quoted ''{''"
| "token_type_name EndArray = quoted '']''"
| "token_type_name EndObject = quoted ''}''"
| "token_type_name NameSeparator = quoted '':''"
| "token_type_name ValueSeparator = quoted '',''"
| "token_type_name ParseError = ''<parse error>''"
| "token_type_name EndOfInput = ''end of input''"
| "token_type_name LiteralOrValue = quoted ''['' @ '', '' @ quoted ''{'' @ '', or a literal''"

text \<open>
  What the C library contributes: \<open>strtod\<close> (nothing for an infinity), \<open>snprintf\<close> with \<open>%.15g\<close>,
  and the decimal point and thousands separator of the locale.
\<close>

record num_lib =
  strtod :: "string \<Rightarrow> dbl option"
  snprintf_g :: "dbl \<Rightarrow> string"
  locale_point :: char
  locale_sep :: char

text \<open>\<open>lx_rest\<close> is what the adapter has not handed out yet.\<close>

record lexer =
  lx_rest :: string
  lx_current :: "char option"
  lx_chars_read :: nat
  lx_token :: string
  lx_yytext :: string
  lx_error :: string
  lx_integer :: int
  lx_unsigned :: int
  lx_float :: "dbl option"

definition byte :: "char \<Rightarrow> nat" where "byte c = of_char c"

text \<open>The adapter skips a byte order mark.\<close>

definition input_adapter :: "string \<Rightarrow> string" where
  "input_adapter b = (if 3 \<le> length b \<and> take 3 b = [CHR 0xEF, CHR 0xBB, CHR 0xBF] then drop 3 b else b)"

definition lexer_new :: "string \<Rightarrow> lexer" where
  "lexer_new b = \<lparr>lx_rest = input_adapter b, lx_current = None, lx_chars_read = 0, lx_token = [],
     lx_yytext = [], lx_error = [], lx_integer = 0, lx_unsigned = 0, lx_float = Some (Dbl False 0)\<rparr>"

section \<open>Input management\<close>

definition lx_reset :: "lexer \<Rightarrow> lexer" where
  "lx_reset lx = lx\<lparr>lx_yytext := [],
     lx_token := [case lx_current lx of Some c \<Rightarrow> c | None \<Rightarrow> CHR 0xFF]\<rparr>"

definition lx_get :: "lexer \<Rightarrow> lexer" where
  "lx_get lx = (case lx_rest lx of
     [] \<Rightarrow> lx\<lparr>lx_chars_read := Suc (lx_chars_read lx), lx_current := None\<rparr>
   | c # cs \<Rightarrow> lx\<lparr>lx_chars_read := Suc (lx_chars_read lx), lx_current := Some c, lx_rest := cs,
       lx_token := lx_token lx @ [c]\<rparr>)"

definition lx_unget :: "lexer \<Rightarrow> lexer" where
  "lx_unget lx =
     (let lx1 = lx\<lparr>lx_chars_read := lx_chars_read lx - 1\<rparr>
      in case lx_current lx of
           None \<Rightarrow> lx1
         | Some c \<Rightarrow> lx1\<lparr>lx_rest := c # lx_rest lx, lx_token := butlast (lx_token lx)\<rparr>)"

definition lx_add :: "char \<Rightarrow> lexer \<Rightarrow> lexer" where
  "lx_add c lx = lx\<lparr>lx_yytext := lx_yytext lx @ [c]\<rparr>"

definition lx_fail :: "string \<Rightarrow> lexer \<Rightarrow> token \<times> lexer" where
  "lx_fail msg lx = (ParseError, lx\<lparr>lx_error := msg\<rparr>)"

lemma lx_get_shrinks: "lx_current (lx_get lx) = Some c \<Longrightarrow> Suc (length (lx_rest (lx_get lx))) = length (lx_rest lx)"
  by (auto simp: lx_get_def split: list.splits)

lemma lx_get_le: "length (lx_rest (lx_get lx)) \<le> length (lx_rest lx)"
  by (simp add: lx_get_def split: list.split)

lemma lx_rest_simps [simp]:
  "lx_rest (lx_add c lx) = lx_rest lx" "lx_rest (lx_reset lx) = lx_rest lx"
  "lx_current (lx_add c lx) = lx_current lx" "lx_current (lx_reset lx) = lx_current lx"
  "lx_yytext (lx_add c lx) = lx_yytext lx @ [c]" "lx_yytext (lx_get lx) = lx_yytext lx"
  "lx_yytext (lx_reset lx) = []"
  by (simp_all add: lx_add_def lx_reset_def lx_get_def split: list.split)

section \<open>Strings\<close>

definition hex_value :: "char \<Rightarrow> nat option" where
  "hex_value c =
     (if 0x30 \<le> byte c \<and> byte c \<le> 0x39 then Some (byte c - 0x30)
      else if 0x41 \<le> byte c \<and> byte c \<le> 0x46 then Some (byte c - 0x37)
      else if 0x61 \<le> byte c \<and> byte c \<le> 0x66 then Some (byte c - 0x57)
      else None)"

text \<open>\<open>get_codepoint\<close>; nothing stands for -1.\<close>

fun codepoint_loop :: "nat list \<Rightarrow> nat \<Rightarrow> lexer \<Rightarrow> nat option \<times> lexer" where
  "codepoint_loop [] codepoint lx = (Some codepoint, lx)"
| "codepoint_loop (factor # factors) codepoint lx =
     (let lx1 = lx_get lx
      in case Option.bind (lx_current lx1) hex_value of
           Some d \<Rightarrow> codepoint_loop factors (codepoint + push_bit factor d) lx1
         | None \<Rightarrow> (None, lx1))"

definition get_codepoint :: "lexer \<Rightarrow> nat option \<times> lexer" where
  "get_codepoint = codepoint_loop [12, 8, 4, 0] 0"

text \<open>The translation of a codepoint into bytes.\<close>

definition codepoint_bytes :: "nat \<Rightarrow> string" where
  "codepoint_bytes codepoint =
     (if codepoint < 0x80 then [char_of codepoint]
      else if codepoint \<le> 0x7FF then
        [char_of (0xC0 OR drop_bit 6 codepoint), char_of (0x80 OR (codepoint AND 0x3F))]
      else if codepoint \<le> 0xFFFF then
        [char_of (0xE0 OR drop_bit 12 codepoint), char_of (0x80 OR (drop_bit 6 codepoint AND 0x3F)),
         char_of (0x80 OR (codepoint AND 0x3F))]
      else
        [char_of (0xF0 OR drop_bit 18 codepoint), char_of (0x80 OR (drop_bit 12 codepoint AND 0x3F)),
         char_of (0x80 OR (drop_bit 6 codepoint AND 0x3F)), char_of (0x80 OR (codepoint AND 0x3F))])"

definition bad_hex :: string where
  "bad_hex = ''invalid string: '' @ quoted (backslash @ ''u'') @ '' must be followed by 4 hex digits''"

definition bad_surrogate :: string where
  "bad_surrogate = ''invalid string: surrogate U+DC00..U+DFFF must be followed by U+DC00..U+DFFF''"

text \<open>An escape \<open>u\<close>, whose letter has been read: a codepoint, or two that form a surrogate pair.
  The second character after a high surrogate is read only if the first is a backslash.\<close>

definition scan_unicode :: "lexer \<Rightarrow> token \<times> lexer" where
  "scan_unicode lx =
     (case get_codepoint lx of
        (None, lx1) \<Rightarrow> lx_fail bad_hex lx1
      | (Some codepoint1, lx1) \<Rightarrow>
          if 0xD800 \<le> codepoint1 \<and> codepoint1 \<le> 0xDBFF then
            (let lx2 = lx_get lx1 in
             if lx_current lx2 \<noteq> Some (CHR 0x5C) then lx_fail bad_surrogate lx2
             else
               let lx3 = lx_get lx2 in
               if lx_current lx3 \<noteq> Some (CHR ''u'') then lx_fail bad_surrogate lx3
               else
                 (case get_codepoint lx3 of
                    (None, lx4) \<Rightarrow> lx_fail bad_hex lx4
                  | (Some codepoint2, lx4) \<Rightarrow>
                      if 0xDC00 \<le> codepoint2 \<and> codepoint2 \<le> 0xDFFF then
                        (ValueString, fold lx_add
                          (codepoint_bytes (push_bit 10 codepoint1 + codepoint2 - 0x35FDC00)) lx4)
                      else lx_fail bad_surrogate lx4))
          else if 0xDC00 \<le> codepoint1 \<and> codepoint1 \<le> 0xDFFF then
            lx_fail ''invalid string: surrogate U+DC00..U+DFFF must follow U+D800..U+DBFF'' lx1
          else (ValueString, fold lx_add (codepoint_bytes codepoint1) lx1))"

text \<open>The character after a backslash.\<close>

definition simple_escape :: "char \<Rightarrow> char option" where
  "simple_escape c = map_of
     [(CHR 0x22, CHR 0x22), (CHR 0x5C, CHR 0x5C), (CHR 0x2F, CHR 0x2F), (CHR ''b'', CHR 0x08),
      (CHR ''f'', CHR 0x0C), (CHR ''n'', CHR 0x0A), (CHR ''r'', CHR 0x0D), (CHR ''t'', CHR 0x09)] c"

definition scan_escape :: "lexer \<Rightarrow> token \<times> lexer" where
  "scan_escape lx =
     (let lx1 = lx_get lx in
      case lx_current lx1 of
        None \<Rightarrow> lx_fail ''invalid string: forbidden character after backslash'' lx1
      | Some c \<Rightarrow>
          (case simple_escape c of
             Some e \<Rightarrow> (ValueString, lx_add e lx1)
           | None \<Rightarrow>
               if c = CHR ''u'' then scan_unicode lx1
               else lx_fail ''invalid string: forbidden character after backslash'' lx1))"

definition bad_utf8 :: string where "bad_utf8 = ''invalid string: ill-formed UTF-8 byte''"

fun range_loop :: "(nat \<times> nat) list \<Rightarrow> lexer \<Rightarrow> token \<times> lexer" where
  "range_loop [] lx = (ValueString, lx)"
| "range_loop ((lo, hi) # ranges) lx =
     (let lx1 = lx_get lx in
      case lx_current lx1 of
        None \<Rightarrow> lx_fail bad_utf8 lx1
      | Some c \<Rightarrow> if lo \<le> byte c \<and> byte c \<le> hi then range_loop ranges (lx_add c lx1)
                  else lx_fail bad_utf8 lx1)"

definition next_byte_in_range :: "char \<Rightarrow> (nat \<times> nat) list \<Rightarrow> lexer \<Rightarrow> token \<times> lexer" where
  "next_byte_in_range current ranges lx = range_loop ranges (lx_add current lx)"

text \<open>The bytes that may follow a byte above \<open>0x7F\<close>.\<close>

definition utf8_ranges :: "nat \<Rightarrow> (nat \<times> nat) list option" where
  "utf8_ranges b =
     (if 0xC2 \<le> b \<and> b \<le> 0xDF then Some [(0x80, 0xBF)]
      else if b = 0xE0 then Some [(0xA0, 0xBF), (0x80, 0xBF)]
      else if 0xE1 \<le> b \<and> b \<le> 0xEC \<or> b = 0xEE \<or> b = 0xEF then Some [(0x80, 0xBF), (0x80, 0xBF)]
      else if b = 0xED then Some [(0x80, 0x9F), (0x80, 0xBF)]
      else if b = 0xF0 then Some [(0x90, 0xBF), (0x80, 0xBF), (0x80, 0xBF)]
      else if 0xF1 \<le> b \<and> b \<le> 0xF3 then Some [(0x80, 0xBF), (0x80, 0xBF), (0x80, 0xBF)]
      else if b = 0xF4 then Some [(0x80, 0x8F), (0x80, 0xBF), (0x80, 0xBF)]
      else None)"

text \<open>None of the scanners gives characters back.\<close>

definition consumes :: "(lexer \<Rightarrow> 'a \<times> lexer) \<Rightarrow> bool" where
  "consumes f \<longleftrightarrow> (\<forall>lx. length (lx_rest (snd (f lx))) \<le> length (lx_rest lx))"

lemma consumesD: "consumes f \<Longrightarrow> f lx = (r, lx') \<Longrightarrow> length (lx_rest lx') \<le> length (lx_rest lx)"
  by (metis consumes_def snd_conv)

lemma lx_fail_rest [simp]: "lx_rest (snd (lx_fail msg lx)) = lx_rest lx"
  by (simp add: lx_fail_def)

lemma fold_lx_add_rest [simp]: "lx_rest (fold lx_add cs lx) = lx_rest lx"
  by (induction cs arbitrary: lx) simp_all

lemma consumes_codepoint_loop: "consumes (codepoint_loop fs n)"
proof -
  have "length (lx_rest (snd (codepoint_loop fs n lx))) \<le> length (lx_rest lx)" for lx
  proof (induction fs n lx rule: codepoint_loop.induct)
    case (2 factor fs n lx)
    show ?case
    proof (cases "Option.bind (lx_current (lx_get lx)) hex_value")
      case None
      then show ?thesis by (simp add: lx_get_le)
    next
      case (Some d)
      from 2 [OF refl this] lx_get_le [of lx] Some show ?thesis by simp
    qed
  qed simp
  then show ?thesis by (simp add: consumes_def)
qed

lemma consumes_range_loop: "consumes (range_loop rs)"
proof -
  have "length (lx_rest (snd (range_loop rs lx))) \<le> length (lx_rest lx)" for lx
  proof (induction rs lx rule: range_loop.induct)
    case (2 lo hi rs lx)
    show ?case
    proof (cases "lx_current (lx_get lx)")
      case None
      then show ?thesis by (simp add: lx_get_le)
    next
      case (Some c)
      show ?thesis
      proof (cases "lo \<le> byte c \<and> byte c \<le> hi")
        case True
        from 2 [OF refl Some True] lx_get_le [of lx] Some True show ?thesis by simp
      next
        case False
        with Some show ?thesis using lx_get_le [of lx] by auto
      qed
    qed
  qed simp
  then show ?thesis by (simp add: consumes_def)
qed

lemma consumes_scan_unicode: "consumes scan_unicode"
  unfolding consumes_def
proof
  fix lx
  obtain c1 lx1 where g1: "get_codepoint lx = (c1, lx1)" by (metis surj_pair)
  obtain c2 lx4 where g2: "get_codepoint (lx_get (lx_get lx1)) = (c2, lx4)" by (metis surj_pair)
  have le: "length (lx_rest lx1) \<le> length (lx_rest lx)"
    "length (lx_rest lx4) \<le> length (lx_rest (lx_get (lx_get lx1)))"
    using g1 g2 consumesD [OF consumes_codepoint_loop] unfolding get_codepoint_def by blast+
  note get = lx_get_le [of lx1] lx_get_le [of "lx_get lx1"]
  show "length (lx_rest (snd (scan_unicode lx))) \<le> length (lx_rest lx)"
    using le get by (cases c1; cases c2) (simp_all add: scan_unicode_def g1 g2 Let_def)
qed

lemma consumes_scan_escape: "consumes scan_escape"
  unfolding consumes_def
proof
  fix lx
  have "length (lx_rest (snd (scan_unicode (lx_get lx)))) \<le> length (lx_rest (lx_get lx))"
    using consumes_scan_unicode by (simp add: consumes_def)
  with lx_get_le [of lx] show "length (lx_rest (snd (scan_escape lx))) \<le> length (lx_rest lx)"
    by (simp add: scan_escape_def Let_def split: option.split)
qed

text \<open>The loop of \<open>scan_string\<close>.\<close>

function scan_string_loop :: "lexer \<Rightarrow> token \<times> lexer" where
  "scan_string_loop lx =
     (let lx1 = lx_get lx in
      case lx_current lx1 of
        None \<Rightarrow> lx_fail ''invalid string: missing closing quote'' lx1
      | Some c \<Rightarrow>
          if byte c = 0x22 then (ValueString, lx1)
          else if byte c = 0x5C then
            (case scan_escape lx1 of (t, lx2) \<Rightarrow>
               if t = ValueString then scan_string_loop lx2 else (t, lx2))
          else if byte c \<le> 0x1F then
            lx_fail ''invalid string: control character must be escaped'' lx1
          else if byte c \<le> 0x7F then scan_string_loop (lx_add c lx1)
          else
            (case utf8_ranges (byte c) of
               None \<Rightarrow> lx_fail bad_utf8 lx1
             | Some ranges \<Rightarrow>
                 (case next_byte_in_range c ranges lx1 of (t, lx2) \<Rightarrow>
                    if t = ValueString then scan_string_loop lx2 else (t, lx2))))"
  by pat_completeness auto
termination
proof (relation "measure (\<lambda>lx. length (lx_rest lx))", goal_cases)
  case (2 lx lx1 c t lx2)
  then show ?case
    using consumesD [OF consumes_scan_escape, of lx1 t lx2] lx_get_shrinks [of lx c] by simp
next
  case (3 lx lx1 c)
  then show ?case using lx_get_shrinks [of lx c] by simp
next
  case (4 lx lx1 c ranges t lx2)
  then show ?case
    using consumesD [OF consumes_range_loop, of ranges "lx_add c lx1" t lx2] lx_get_shrinks [of lx c]
    by (simp add: next_byte_in_range_def)
qed simp

declare scan_string_loop.simps [simp del]

definition scan_string :: "lexer \<Rightarrow> token \<times> lexer" where
  "scan_string lx = scan_string_loop (lx_reset lx)"

section \<open>Numbers\<close>

text \<open>The labels of the state machine, and what the next character does in each of them.\<close>

datatype num_state =
    NumMinus | NumZero | NumAny1 | NumDecimal1 | NumDecimal2 | NumExponent | NumSign | NumAny2

datatype num_move = NumGo num_state char | NumDone | NumError string

definition is_exp :: "char \<Rightarrow> bool" where "is_exp c \<longleftrightarrow> c = CHR ''e'' \<or> c = CHR ''E''"

definition digit_1_9 :: "char \<Rightarrow> bool" where "digit_1_9 c \<longleftrightarrow> is_digit c \<and> c \<noteq> CHR ''0''"

fun num_next :: "char \<Rightarrow> num_state \<Rightarrow> char \<Rightarrow> num_move" where
  "num_next point NumMinus c =
     (if c = CHR ''0'' then NumGo NumZero c
      else if digit_1_9 c then NumGo NumAny1 c
      else NumError (''invalid number; expected digit after '' @ quoted ''-''))"
| "num_next point NumZero c =
     (if c = CHR ''.'' then NumGo NumDecimal1 point
      else if is_exp c then NumGo NumExponent c
      else NumDone)"
| "num_next point NumAny1 c =
     (if is_digit c then NumGo NumAny1 c
      else if c = CHR ''.'' then NumGo NumDecimal1 point
      else if is_exp c then NumGo NumExponent c
      else NumDone)"
| "num_next point NumDecimal1 c =
     (if is_digit c then NumGo NumDecimal2 c
      else NumError (''invalid number; expected digit after '' @ quoted ''.''))"
| "num_next point NumDecimal2 c =
     (if is_digit c then NumGo NumDecimal2 c
      else if is_exp c then NumGo NumExponent c
      else NumDone)"
| "num_next point NumExponent c =
     (if c = CHR ''+'' \<or> c = CHR ''-'' then NumGo NumSign c
      else if is_digit c then NumGo NumAny2 c
      else NumError (''invalid number; expected '' @ quoted ''+'' @ '', '' @ quoted ''-'' @
        '', or digit after exponent''))"
| "num_next point NumSign c =
     (if is_digit c then NumGo NumAny2 c
      else NumError ''invalid number; expected digit after exponent sign'')"
| "num_next point NumAny2 c = (if is_digit c then NumGo NumAny2 c else NumDone)"

text \<open>The end of the input takes the default branch of each state.\<close>

definition num_move_at :: "char \<Rightarrow> num_state \<Rightarrow> char option \<Rightarrow> num_move" where
  "num_move_at point st current = (case current of
     Some c \<Rightarrow> num_next point st c | None \<Rightarrow> num_next point st (CHR 0x00))"

fun num_type :: "num_state \<Rightarrow> token \<Rightarrow> token" where
  "num_type NumMinus ty = ValueInteger"
| "num_type NumDecimal1 ty = ValueFloat"
| "num_type NumExponent ty = ValueFloat"
| "num_type _ ty = ty"

text \<open>\<open>strtoull\<close> and \<open>strtoll\<close> on a scanned number; nothing when they set \<open>errno\<close>.\<close>

definition strtoull :: "string \<Rightarrow> int option" where
  "strtoull s = (let x = digits_value 0 s in if x < 2 ^ 64 then Some x else None)"

definition strtoll :: "string \<Rightarrow> int option" where
  "strtoll s = (let x = (case s of c # ds \<Rightarrow> if c = CHR ''-'' then - digits_value 0 ds else digits_value 0 s
                              | [] \<Rightarrow> 0)
                in if int64_min \<le> x \<and> x \<le> int64_max then Some x else None)"

definition number_done :: "num_lib \<Rightarrow> token \<Rightarrow> lexer \<Rightarrow> token \<times> lexer" where
  "number_done N ty lx =
     (let lx1 = lx_unget lx; text = lx_yytext lx1 in
      case (if ty = ValueUnsigned then strtoull text else None,
            if ty = ValueInteger then strtoll text else None) of
        (Some x, _) \<Rightarrow> (ValueUnsigned, lx1\<lparr>lx_unsigned := x\<rparr>)
      | (None, Some x) \<Rightarrow> (ValueInteger, lx1\<lparr>lx_integer := x\<rparr>)
      | (None, None) \<Rightarrow> (ValueFloat, lx1\<lparr>lx_float := strtod N text\<rparr>))"

lemma num_move_at_Go: "num_move_at point st current = NumGo st' c \<Longrightarrow> \<exists>c'. current = Some c'"
  by (cases st; cases current)
    (auto simp: num_move_at_def is_digit_def digit_1_9_def is_exp_def split: if_splits)

function scan_number_loop :: "num_lib \<Rightarrow> num_state \<Rightarrow> token \<Rightarrow> lexer \<Rightarrow> token \<times> lexer" where
  "scan_number_loop N st ty lx =
     (let ty1 = num_type st ty; lx1 = lx_get lx in
      case num_move_at (locale_point N) st (lx_current lx1) of
        NumGo st' c \<Rightarrow> scan_number_loop N st' ty1 (lx_add c lx1)
      | NumDone \<Rightarrow> number_done N ty1 lx1
      | NumError msg \<Rightarrow> lx_fail msg lx1)"
  by pat_completeness auto
termination
proof (relation "measure (\<lambda>(N, st, ty, lx). length (lx_rest lx))", goal_cases)
  case (2 N st ty lx ty1 lx1 st' c)
  then obtain c' where "lx_current (lx_get lx) = Some c'" using num_move_at_Go by blast
  with 2 show ?case using lx_get_shrinks [of lx c'] by simp
qed simp

declare scan_number_loop.simps [simp del]

text \<open>The current character is a minus sign or a digit.\<close>

definition scan_number :: "num_lib \<Rightarrow> lexer \<Rightarrow> token \<times> lexer" where
  "scan_number N lx =
     (let lx1 = lx_reset lx in
      case lx_current lx of
        None \<Rightarrow> (ParseError, lx1)
      | Some c \<Rightarrow>
          if c = CHR ''-'' then scan_number_loop N NumMinus ValueUnsigned (lx_add c lx1)
          else if c = CHR ''0'' then scan_number_loop N NumZero ValueUnsigned (lx_add c lx1)
          else scan_number_loop N NumAny1 ValueUnsigned (lx_add c lx1))"

section \<open>Literals and the scanner\<close>

fun literal_loop :: "string \<Rightarrow> token \<Rightarrow> lexer \<Rightarrow> token \<times> lexer" where
  "literal_loop [] return_type lx = (return_type, lx)"
| "literal_loop (c # cs) return_type lx =
     (let lx1 = lx_get lx in
      if lx_current lx1 \<noteq> Some c then lx_fail ''invalid literal'' lx1
      else literal_loop cs return_type lx1)"

definition scan_literal :: "string \<Rightarrow> token \<Rightarrow> lexer \<Rightarrow> token \<times> lexer" where
  "scan_literal literal_text return_type = literal_loop (tl literal_text) return_type"

definition is_ws :: "char \<Rightarrow> bool" where
  "is_ws c \<longleftrightarrow> c = CHR 0x20 \<or> c = CHR 0x09 \<or> c = CHR 0x0A \<or> c = CHR 0x0D"

function skip_ws :: "lexer \<Rightarrow> lexer" where
  "skip_ws lx =
     (let lx1 = lx_get lx in
      case lx_current lx1 of
        None \<Rightarrow> lx1
      | Some c \<Rightarrow> if is_ws c then skip_ws lx1 else lx1)"
  by pat_completeness auto
termination
proof (relation "measure (\<lambda>lx. length (lx_rest lx))", goal_cases)
  case (2 lx lx1 c)
  then show ?case using lx_get_shrinks [of lx c] by simp
qed simp

declare skip_ws.simps [simp del]

definition scan :: "num_lib \<Rightarrow> lexer \<Rightarrow> token \<times> lexer" where
  "scan N lx =
     (let lx1 = skip_ws lx in
      case lx_current lx1 of
        None \<Rightarrow> (EndOfInput, lx1)
      | Some c \<Rightarrow>
          if c = CHR ''['' then (BeginArray, lx1)
          else if c = CHR '']'' then (EndArray, lx1)
          else if c = CHR ''{'' then (BeginObject, lx1)
          else if c = CHR ''}'' then (EndObject, lx1)
          else if c = CHR '':'' then (NameSeparator, lx1)
          else if c = CHR '','' then (ValueSeparator, lx1)
          else if c = CHR ''t'' then scan_literal ''true'' LiteralTrue lx1
          else if c = CHR ''f'' then scan_literal ''false'' LiteralFalse lx1
          else if c = CHR ''n'' then scan_literal ''null'' LiteralNull lx1
          else if c = CHR 0x22 then scan_string lx1
          else if c = CHR ''-'' \<or> is_digit c then scan_number N lx1
          else if c = CHR 0x00 then (EndOfInput, lx1)
          else lx_fail ''invalid literal'' lx1)"

text \<open>\<open>get_token_string\<close>: control characters as \<open>U+\<close> and four hexadecimal digits.\<close>

definition hex_digit :: "nat \<Rightarrow> char" where
  "hex_digit n = char_of (if n < 10 then 0x30 + n else 0x37 + n)"

fun escape_control :: "char \<Rightarrow> string" where
  "escape_control c =
     (if byte c \<le> 0x1F then ''<U+00'' @ [hex_digit (byte c div 16), hex_digit (byte c mod 16)] @ ''>'' else [c])"

definition get_token_string :: "lexer \<Rightarrow> string" where
  "get_token_string lx = concat (map escape_control (lx_token lx))"

section \<open>Every token but the end of the input takes a character\<close>

lemma consumes_scan_string_loop: "consumes scan_string_loop"
proof -
  have "length (lx_rest (snd (scan_string_loop lx))) \<le> length (lx_rest lx)" for lx
  proof (induction lx rule: scan_string_loop.induct)
    case (1 lx)
    show ?case
    proof (cases "lx_current (lx_get lx)")
      case None
      then show ?thesis by (simp add: scan_string_loop.simps [of lx] lx_get_le)
    next
      case (Some c)
      note IH = 1 [OF refl Some] and get = lx_get_le [of lx]
      consider "byte c = 0x22" | "byte c = 0x5C" | "byte c \<le> 0x1F" | "byte c \<noteq> 0x22" "byte c \<noteq> 0x5C"
        "\<not> byte c \<le> 0x1F" "byte c \<le> 0x7F" | "\<not> byte c \<le> 0x7F"
        by linarith
      then show ?thesis
      proof cases
        case 1
        with Some get show ?thesis by (simp add: scan_string_loop.simps [of lx])
      next
        case 2
        obtain t lx2 where e: "scan_escape (lx_get lx) = (t, lx2)" by (metis surj_pair)
        from consumesD [OF consumes_scan_escape e] get
        show ?thesis
          using 2 Some e IH(1) [of t lx2]
          by (auto simp: scan_string_loop.simps [of lx])
      next
        case 3
        with Some get show ?thesis by (simp add: scan_string_loop.simps [of lx])
      next
        case 4
        with Some get IH(2) show ?thesis by (simp add: scan_string_loop.simps [of lx])
      next
        case 5
        show ?thesis
        proof (cases "utf8_ranges (byte c)")
          case None
          with 5 Some get show ?thesis by (simp add: scan_string_loop.simps [of lx])
        next
          case r: (Some rs)
          obtain t lx2 where e: "next_byte_in_range c rs (lx_get lx) = (t, lx2)" by (metis surj_pair)
          from e consumesD [OF consumes_range_loop, of rs "lx_add c (lx_get lx)" t lx2] get
          have "length (lx_rest lx2) \<le> length (lx_rest lx)" by (simp add: next_byte_in_range_def)
          then show ?thesis
            using 5 Some r e IH(3) [of rs t lx2]
            by (auto simp: scan_string_loop.simps [of lx])
        qed
      qed
    qed
  qed
  then show ?thesis by (simp add: consumes_def)
qed

lemma lx_unget_get: "lx_rest (lx_unget (lx_get lx)) = lx_rest lx"
  by (simp add: lx_unget_def lx_get_def Let_def split: list.split)

lemma number_done_rest: "lx_rest (snd (number_done N ty (lx_get lx))) = lx_rest lx"
  by (simp add: number_done_def Let_def lx_unget_get split: option.split)

lemma consumes_scan_number_loop: "consumes (scan_number_loop N st ty)"
proof -
  have "length (lx_rest (snd (scan_number_loop N st ty lx))) \<le> length (lx_rest lx)" for lx
  proof (induction N st ty lx rule: scan_number_loop.induct)
    case (1 N st ty lx)
    show ?case
    proof (cases "num_move_at (locale_point N) st (lx_current (lx_get lx))")
      case (NumGo st' c)
      from 1 [OF refl refl this] lx_get_le [of lx] NumGo
      show ?thesis by (simp add: scan_number_loop.simps [of N st ty lx])
    next
      case NumDone
      then show ?thesis by (simp add: scan_number_loop.simps [of N st ty lx] number_done_rest)
    next
      case (NumError msg)
      then show ?thesis by (simp add: scan_number_loop.simps [of N st ty lx] lx_get_le)
    qed
  qed
  then show ?thesis by (simp add: consumes_def)
qed

lemma consumes_scan_number: "consumes (scan_number N)"
  using consumes_scan_number_loop
  by (simp add: consumes_def scan_number_def Let_def split: option.split) (metis lx_rest_simps(1,2))

lemma consumes_literal_loop: "consumes (literal_loop cs t)"
proof -
  have "length (lx_rest (snd (literal_loop cs t lx))) \<le> length (lx_rest lx)" for lx
    by (induction cs arbitrary: lx) (auto simp: Let_def lx_get_le intro: order_trans [OF _ lx_get_le])
  then show ?thesis by (simp add: consumes_def)
qed

lemma skip_ws_le: "length (lx_rest (skip_ws lx)) \<le> length (lx_rest lx)"
proof (induction lx rule: skip_ws.induct)
  case (1 lx)
  show ?case
  proof (cases "\<exists>c. lx_current (lx_get lx) = Some c \<and> is_ws c")
    case True
    then obtain c where "lx_current (lx_get lx) = Some c" "is_ws c" by blast
    with 1 [OF refl this] lx_get_le [of lx] show ?thesis by (simp add: skip_ws.simps [of lx])
  next
    case False
    then show ?thesis
      using lx_get_le [of lx] by (auto simp: skip_ws.simps [of lx] Let_def split: option.split)
  qed
qed

lemma skip_ws_shrinks: "lx_current (skip_ws lx) = Some c \<Longrightarrow> length (lx_rest (skip_ws lx)) < length (lx_rest lx)"
proof (induction lx rule: skip_ws.induct)
  case (1 lx)
  show ?case
  proof (cases "lx_current (lx_get lx)")
    case None
    with 1(2) show ?thesis by (simp add: skip_ws.simps [of lx])
  next
    case (Some d)
    note get = lx_get_shrinks [OF this]
    show ?thesis
    proof (cases "is_ws d")
      case True
      with 1(2) Some have "lx_current (skip_ws (lx_get lx)) = Some c" by (simp add: skip_ws.simps [of lx])
      from 1(1) [OF refl Some True this] get Some True show ?thesis
        by (simp add: skip_ws.simps [of lx])
    next
      case False
      with Some get show ?thesis by (simp add: skip_ws.simps [of lx])
    qed
  qed
qed

lemma scan_le: "length (lx_rest (snd (scan N lx))) \<le> length (lx_rest (skip_ws lx))"
proof -
  have le: "length (lx_rest (snd (scan_string lx'))) \<le> length (lx_rest lx')"
    "length (lx_rest (snd (scan_number N lx'))) \<le> length (lx_rest lx')"
    "length (lx_rest (snd (scan_literal cs t lx'))) \<le> length (lx_rest lx')" for lx' cs t
    using consumes_scan_string_loop consumes_scan_number [of N] consumes_literal_loop lx_rest_simps(2)
    unfolding consumes_def scan_string_def scan_literal_def by metis+
  show ?thesis
  proof (cases "lx_current (skip_ws lx)")
    case None
    then show ?thesis by (simp add: scan_def)
  next
    case (Some c)
    show ?thesis
      unfolding scan_def Let_def Some option.case by (simp add: le)
  qed
qed

lemma scan_consumes: "length (lx_rest (snd (scan N lx))) \<le> length (lx_rest lx)"
  using scan_le [of N lx] skip_ws_le [of lx] by simp

lemma scan_shrinks:
  assumes "fst (scan N lx) \<noteq> EndOfInput"
  shows "length (lx_rest (snd (scan N lx))) < length (lx_rest lx)"
proof (cases "lx_current (skip_ws lx)")
  case None
  with assms show ?thesis by (simp add: scan_def)
next
  case (Some c)
  with scan_le [of N lx] skip_ws_shrinks [OF Some] show ?thesis by simp
qed

section \<open>Which tokens the scanners give\<close>

definition string_token :: "token \<Rightarrow> bool" where
  "string_token t \<longleftrightarrow> t = ValueString \<or> t = ParseError"

lemma string_token_simps [simp]: "string_token ValueString" "string_token (fst (lx_fail msg lx))"
  by (simp_all add: string_token_def lx_fail_def)

lemma range_loop_token: "string_token (fst (range_loop rs lx))"
  by (induction rs lx rule: range_loop.induct) (auto simp: Let_def split: option.split)

lemma scan_unicode_token: "string_token (fst (scan_unicode lx))"
  by (auto simp: scan_unicode_def Let_def split: option.split prod.split)

lemma scan_escape_token: "string_token (fst (scan_escape lx))"
  by (auto simp: scan_escape_def Let_def scan_unicode_token split: option.split)

lemma scan_string_token: "string_token (fst (scan_string_loop lx))"
proof (induction lx rule: scan_string_loop.induct)
  case (1 lx)
  show ?case
  proof (cases "lx_current (lx_get lx)")
    case None
    then show ?thesis by (simp add: scan_string_loop.simps [of lx])
  next
    case (Some c)
    note IH = 1 [OF refl Some]
    obtain t lx2 where e: "scan_escape (lx_get lx) = (t, lx2)" by (metis surj_pair)
    have t: "string_token t" using scan_escape_token [of "lx_get lx"] e by simp
    have r: "string_token (fst (next_byte_in_range c rs (lx_get lx)))" for rs
      by (simp add: next_byte_in_range_def range_loop_token)
    show ?thesis
    proof (cases "byte c \<le> 0x7F")
      case True
      then show ?thesis
        using IH(1) [of t lx2] IH(2) t Some e by (auto simp: scan_string_loop.simps [of lx] Let_def)
    next
      case False
      show ?thesis
      proof (cases "utf8_ranges (byte c)")
        case None
        with False Some show ?thesis by (simp add: scan_string_loop.simps [of lx])
      next
        case u: (Some rs)
        obtain t' lx3 where n: "next_byte_in_range c rs (lx_get lx) = (t', lx3)" by (metis surj_pair)
        show ?thesis
          using False Some u n r [of rs] IH(3) [of rs t' lx3]
          by (auto simp: scan_string_loop.simps [of lx] Let_def)
      qed
    qed
  qed
qed

lemma scan_number_loop_token: "fst (scan_number_loop N st ty lx) \<in> {ValueUnsigned, ValueInteger, ValueFloat, ParseError}"
proof (induction N st ty lx rule: scan_number_loop.induct)
  case (1 N st ty lx)
  have d: "fst (number_done N ty' lx') \<in> {ValueUnsigned, ValueInteger, ValueFloat, ParseError}" for ty' lx'
    by (simp add: number_done_def Let_def split: option.split)
  show ?case
  proof (cases "num_move_at (locale_point N) st (lx_current (lx_get lx))")
    case (NumGo st' c)
    from 1 [OF refl refl this] NumGo show ?thesis by (simp add: scan_number_loop.simps [of N st ty lx])
  next
    case NumDone
    then show ?thesis using d by (simp add: scan_number_loop.simps [of N st ty lx])
  next
    case (NumError msg)
    then show ?thesis by (simp add: scan_number_loop.simps [of N st ty lx] lx_fail_def)
  qed
qed

lemma literal_loop_token: "fst (literal_loop cs t lx) \<in> {t, ParseError}"
  by (induction cs arbitrary: lx) (auto simp: Let_def lx_fail_def)

text \<open>The token for diagnostics is none of them.\<close>

lemma scan_token: "fst (scan N lx) \<noteq> LiteralOrValue"
proof (cases "lx_current (skip_ws lx)")
  case None
  then show ?thesis by (simp add: scan_def)
next
  case (Some c)
  have n: "fst (scan_number_loop N st ty lx') \<noteq> LiteralOrValue" for st ty lx'
    using scan_number_loop_token [of N st ty lx'] by auto
  have t: "fst (scan_number N lx') \<noteq> LiteralOrValue" "fst (scan_string lx') \<noteq> LiteralOrValue" for lx'
    using scan_string_token [of "lx_reset lx'"]
    by (auto simp: scan_string_def string_token_def scan_number_def Let_def n split: option.split)
  have l: "t \<noteq> LiteralOrValue \<Longrightarrow> fst (scan_literal cs t lx') \<noteq> LiteralOrValue" for t cs lx'
    using literal_loop_token [of "tl cs" t lx'] by (auto simp: scan_literal_def)
  show ?thesis
    unfolding scan_def Let_def Some option.case by (simp add: t l lx_fail_def)
qed

end
