(* ===== verification/JsonParser.thy ===== *)
theory JsonParser
  imports JsonLexer
begin

text \<open>
  The parser and the acceptor of \<^verbatim>\<open>src/json.hpp\<close>, as the program calls them: without a callback
  and with exceptions; \<open>JsonCallback\<close> adds the callback.  Fuel bounds the recursion; \<open>parse_fuel\<close> is enough for any input.
\<close>

section \<open>State\<close>

record parser =
  pr_lexer :: lexer
  pr_last :: token

definition parser_new :: "string \<Rightarrow> parser" where
  "parser_new b = \<lparr>pr_lexer = lexer_new b, pr_last = Uninitialized\<rparr>"

definition get_token :: "num_lib \<Rightarrow> (parser, token) sm" where
  "get_token N = (\<lambda>p. case scan N (pr_lexer p) of
     (t, lx) \<Rightarrow> (Inr t, p\<lparr>pr_lexer := lx, pr_last := t\<rparr>))"

definition last_token :: "(parser, token) sm" where
  "last_token = sread (\<lambda>p. Inr (pr_last p))"

text \<open>\<open>move_string\<close> leaves the buffer in an unspecified state; the scanners reset it before they
  use it again.\<close>

definition move_string :: "(parser, string) sm" where
  "move_string = sread (\<lambda>p. Inr (lx_yytext (pr_lexer p)))"

definition parse_error :: "nat \<Rightarrow> nat \<Rightarrow> string \<Rightarrow> error" where
  "parse_error i position what_arg =
     StdError (exception_name ''parse_error'' i @ ''parse error'' @
       (if position \<noteq> 0 then '' at '' @ show_nat position else []) @ '': '' @ what_arg)"

definition out_of_range :: "nat \<Rightarrow> string \<Rightarrow> error" where
  "out_of_range i what_arg = StdError (exception_name ''out_of_range'' i @ what_arg)"

definition syntax_error :: "token \<Rightarrow> parser \<Rightarrow> error" where
  "syntax_error expected p =
     parse_error 101 (lx_chars_read (pr_lexer p))
       (''syntax error - '' @
        (if pr_last p = ParseError
         then lx_error (pr_lexer p) @ ''; last read: '' @ quoted (get_token_string (pr_lexer p))
         else ''unexpected '' @ token_type_name (pr_last p)) @
        (if expected \<noteq> Uninitialized then ''; expected '' @ token_type_name expected else []))"

definition expect :: "token \<Rightarrow> (parser, unit) sm" where
  "expect t = sread (\<lambda>p. if t \<noteq> pr_last p then Inl (syntax_error t p) else Inr ())"

section \<open>The parser\<close>

text \<open>The values that are one token.\<close>

definition parse_scalar :: "token \<Rightarrow> (parser, json) sm" where
  "parse_scalar t = (case t of
     LiteralNull \<Rightarrow> sret JNull
   | ValueString \<Rightarrow> sbind move_string (\<lambda>s. sret (JString s))
   | LiteralTrue \<Rightarrow> sret (JBool True)
   | LiteralFalse \<Rightarrow> sret (JBool False)
   | ValueUnsigned \<Rightarrow> sread (\<lambda>p. Inr (JUnsigned (lx_unsigned (pr_lexer p))))
   | ValueInteger \<Rightarrow> sread (\<lambda>p. Inr (JInt (lx_integer (pr_lexer p))))
   | ValueFloat \<Rightarrow> sread (\<lambda>p. case lx_float (pr_lexer p) of
       Some d \<Rightarrow> Inr (JFloat d)
     | None \<Rightarrow> Inl (out_of_range 406 (''number overflow parsing '' @ quoted (get_token_string (pr_lexer p)))))
   | ParseError \<Rightarrow> sbind (expect Uninitialized) (\<lambda>_. sret JNull)
   | _ \<Rightarrow> sbind (expect LiteralOrValue) (\<lambda>_. sret JNull))"

text \<open>\<open>parse_internal\<close>, with its two loops: the members of an object, of which a repeated key keeps
  the first value, and the elements of an array.\<close>

fun parse_internal :: "num_lib \<Rightarrow> nat \<Rightarrow> (parser, json) sm"
  and parse_members :: "num_lib \<Rightarrow> nat \<Rightarrow> (string \<times> json) list \<Rightarrow> (parser, json) sm"
  and parse_elements :: "num_lib \<Rightarrow> nat \<Rightarrow> json list \<Rightarrow> (parser, json) sm" where
  "parse_internal N 0 = sthrow Diverges"
| "parse_internal N (Suc n) =
     sbind last_token (\<lambda>t.
       if t = BeginObject then
         sbind (get_token N) (\<lambda>t'. if t' = EndObject then sret (JObject []) else parse_members N n [])
       else if t = BeginArray then
         sbind (get_token N) (\<lambda>t'. if t' = EndArray then sret (JArray []) else parse_elements N n [])
       else parse_scalar t)"
| "parse_members N 0 kvs = sthrow Diverges"
| "parse_members N (Suc n) kvs =
     sbind (expect ValueString) (\<lambda>_.
     sbind move_string (\<lambda>key.
     sbind (get_token N) (\<lambda>_.
     sbind (expect NameSeparator) (\<lambda>_.
     sbind (get_token N) (\<lambda>_.
     sbind (parse_internal N n) (\<lambda>value.
     sbind (get_token N) (\<lambda>t.
       if t = ValueSeparator then
         sbind (get_token N) (\<lambda>_. parse_members N n (obj_emplace key value kvs))
       else sbind (expect EndObject) (\<lambda>_. sret (JObject (obj_emplace key value kvs))))))))))"
| "parse_elements N 0 vs = sthrow Diverges"
| "parse_elements N (Suc n) vs =
     sbind (parse_internal N n) (\<lambda>value.
     sbind (get_token N) (\<lambda>t.
       if t = ValueSeparator then sbind (get_token N) (\<lambda>_. parse_elements N n (vs @ [value]))
       else sbind (expect EndArray) (\<lambda>_. sret (JArray (vs @ [value])))))"

definition parse_fuel :: "string \<Rightarrow> nat" where "parse_fuel b = 4 * length b + 4"

text \<open>The public interface: strict, so that all of the input must be read.\<close>

definition parse_strict :: "num_lib \<Rightarrow> nat \<Rightarrow> (parser, json) sm" where
  "parse_strict N n =
     sbind (get_token N) (\<lambda>_.
     sbind (parse_internal N n) (\<lambda>result.
     sbind (get_token N) (\<lambda>_.
     sbind (expect EndOfInput) (\<lambda>_. sret result))))"

definition json_parse :: "num_lib \<Rightarrow> string \<Rightarrow> json outcome" where
  "json_parse N b = fst (parse_strict N (parse_fuel b) (parser_new b))"

section \<open>The acceptor\<close>

definition accept_scalar :: "token \<Rightarrow> (parser, bool) sm" where
  "accept_scalar t = (case t of
     ValueFloat \<Rightarrow> sread (\<lambda>p. Inr (lx_float (pr_lexer p) \<noteq> None))
   | LiteralFalse \<Rightarrow> sret True
   | LiteralNull \<Rightarrow> sret True
   | LiteralTrue \<Rightarrow> sret True
   | ValueInteger \<Rightarrow> sret True
   | ValueString \<Rightarrow> sret True
   | ValueUnsigned \<Rightarrow> sret True
   | _ \<Rightarrow> sret False)"

fun accept_internal :: "num_lib \<Rightarrow> nat \<Rightarrow> (parser, bool) sm"
  and accept_members :: "num_lib \<Rightarrow> nat \<Rightarrow> (parser, bool) sm"
  and accept_elements :: "num_lib \<Rightarrow> nat \<Rightarrow> (parser, bool) sm" where
  "accept_internal N 0 = sthrow Diverges"
| "accept_internal N (Suc n) =
     sbind last_token (\<lambda>t.
       if t = BeginObject then
         sbind (get_token N) (\<lambda>t'. if t' = EndObject then sret True else accept_members N n)
       else if t = BeginArray then
         sbind (get_token N) (\<lambda>t'. if t' = EndArray then sret True else accept_elements N n)
       else accept_scalar t)"
| "accept_members N 0 = sthrow Diverges"
| "accept_members N (Suc n) =
     sbind last_token (\<lambda>t. if t \<noteq> ValueString then sret False else
     sbind (get_token N) (\<lambda>t. if t \<noteq> NameSeparator then sret False else
     sbind (get_token N) (\<lambda>_.
     sbind (accept_internal N n) (\<lambda>ok. if \<not> ok then sret False else
     sbind (get_token N) (\<lambda>t.
       if t = ValueSeparator then sbind (get_token N) (\<lambda>_. accept_members N n)
       else sret (t = EndObject))))))"
| "accept_elements N 0 = sthrow Diverges"
| "accept_elements N (Suc n) =
     sbind (accept_internal N n) (\<lambda>ok. if \<not> ok then sret False else
     sbind (get_token N) (\<lambda>t.
       if t = ValueSeparator then sbind (get_token N) (\<lambda>_. accept_elements N n)
       else sret (t = EndArray)))"

definition accept_strict :: "num_lib \<Rightarrow> nat \<Rightarrow> (parser, bool) sm" where
  "accept_strict N n =
     sbind (get_token N) (\<lambda>_.
     sbind (accept_internal N n) (\<lambda>ok. if \<not> ok then sret False else
     sbind (get_token N) (\<lambda>t. sret (t = EndOfInput))))"

definition json_accept :: "num_lib \<Rightarrow> string \<Rightarrow> bool outcome" where
  "json_accept N b = fst (accept_strict N (parse_fuel b) (parser_new b))"

section \<open>The fuel is enough\<close>

text \<open>What is left to read, counting the last token.\<close>

definition ahead :: "parser \<Rightarrow> nat" where
  "ahead p = 2 * length (lx_rest (pr_lexer p)) + (if pr_last p = EndOfInput then 0 else 1)"

lemma get_token_apply:
  "get_token N p = (Inr (fst (scan N (pr_lexer p))),
     p\<lparr>pr_lexer := snd (scan N (pr_lexer p)), pr_last := fst (scan N (pr_lexer p))\<rparr>)"
  by (simp add: get_token_def split: prod.split)

lemma post_get_token:
  assumes "\<And>p'. ahead p' \<le> ahead p \<Longrightarrow> pr_last p \<noteq> EndOfInput \<Longrightarrow> ahead p' < ahead p \<Longrightarrow> P (Inr (pr_last p')) p'"
    and "\<And>p'. ahead p' \<le> ahead p \<Longrightarrow> pr_last p = EndOfInput \<Longrightarrow> P (Inr (pr_last p')) p'"
  shows "post (get_token N) p P"
proof -
  let ?t = "fst (scan N (pr_lexer p))"
  let ?p = "p\<lparr>pr_lexer := snd (scan N (pr_lexer p)), pr_last := ?t\<rparr>"
  have a: "ahead ?p \<le> ahead p" "pr_last p \<noteq> EndOfInput \<Longrightarrow> ahead ?p < ahead p"
    using scan_consumes [of N "pr_lexer p"] scan_shrinks [of N "pr_lexer p"]
    by (cases "?t = EndOfInput"; simp add: ahead_def)+
  have "P (Inr (pr_last ?p)) ?p"
    using assms a by blast
  then show ?thesis by (simp add: post_def get_token_apply)
qed

lemma post_expect:
  assumes "pr_last p = t \<Longrightarrow> P (Inr ()) p" and "\<And>w. pr_last p \<noteq> t \<Longrightarrow> P (Inl (StdError w)) p"
  shows "post (expect t) p P"
  using assms by (simp add: post_def expect_def syntax_error_def parse_error_def)

lemma post_move_string:
  assumes "\<And>s. P (Inr s) p" shows "post move_string p P"
  using assms by (simp add: post_def move_string_def)

lemma post_last_token:
  assumes "P (Inr (pr_last p)) p" shows "post last_token p P"
  using assms by (simp add: post_def last_token_def)

definition std_outcome :: "'a outcome \<Rightarrow> bool" where
  "std_outcome r \<longleftrightarrow> (case r of Inl e \<Rightarrow> \<exists>w. e = StdError w | Inr _ \<Rightarrow> True)"

lemma std_outcome_simps [simp]:
  "std_outcome (Inr x)" "std_outcome (Inl (StdError w))" "\<not> std_outcome (Inl Diverges)"
  by (simp_all add: std_outcome_def)

lemma std_outcome_Inl [simp]:
  "std_outcome (Inl e :: 'a outcome) = std_outcome (Inl e :: 'b outcome) \<longleftrightarrow> True"
  by (simp add: std_outcome_def)

definition done_ok :: "parser \<Rightarrow> 'a outcome \<Rightarrow> parser \<Rightarrow> bool" where
  "done_ok p r p' \<longleftrightarrow> std_outcome r \<and> ahead p' \<le> ahead p"

lemma post_parse_scalar: "post (parse_scalar t) p (done_ok p)"
  by (simp add: parse_scalar_def post_simps done_ok_def move_string_def expect_def out_of_range_def
      syntax_error_def parse_error_def split: token.split option.split)

lemma post_parse:
  "(\<forall>p. 2 * ahead p + 1 \<le> n \<longrightarrow> post (parse_internal N n) p (done_ok p)) \<and>
   (\<forall>p kvs. 2 * ahead p + 1 \<le> n \<longrightarrow> post (parse_members N n kvs) p (done_ok p)) \<and>
   (\<forall>p vs. 2 * ahead p + 2 \<le> n \<longrightarrow> post (parse_elements N n vs) p (done_ok p))"
proof (induction n)
  case (Suc n)
  then have IH: "2 * ahead p + 1 \<le> n \<Longrightarrow> post (parse_internal N n) p (done_ok p)"
    "2 * ahead p + 1 \<le> n \<Longrightarrow> post (parse_members N n kvs) p (done_ok p)"
    "2 * ahead p + 2 \<le> n \<Longrightarrow> post (parse_elements N n vs) p (done_ok p)" for p kvs vs by auto
  have "post (parse_internal N (Suc n)) p (done_ok p)" if n: "2 * ahead p + 1 \<le> Suc n" for p
    unfolding parse_internal.simps post_sbind
    by (rule post_last_token)
      (use n in \<open>auto simp: post_simps done_ok_def intro!: post_get_token post_mono [OF IH(2)]
         post_mono [OF IH(3)] post_mono [OF post_parse_scalar]\<close>)
  moreover have "post (parse_members N (Suc n) kvs) p (done_ok p)" if n: "2 * ahead p + 1 \<le> Suc n" for p kvs
    unfolding parse_members.simps post_sbind
    using n
    by (auto simp: post_simps done_ok_def intro!: post_get_token post_expect post_move_string
        post_mono [OF IH(1)] post_mono [OF IH(2)] split: sum.split)
  moreover have "post (parse_elements N (Suc n) vs) p (done_ok p)" if n: "2 * ahead p + 2 \<le> Suc n" for p vs
    unfolding parse_elements.simps post_sbind
    using n
    by (auto simp: post_simps done_ok_def intro!: post_get_token post_expect
        post_mono [OF IH(1)] post_mono [OF IH(3)] split: sum.split)
  ultimately show ?case by blast
qed simp

lemma input_adapter_le: "length (input_adapter b) \<le> length b"
  by (simp add: input_adapter_def)

lemma parse_strict_post: "post (parse_strict N (parse_fuel b)) (parser_new b) (\<lambda>r p'. std_outcome r)"
proof -
  have a: "2 * ahead p + 1 \<le> parse_fuel b" if "ahead p \<le> ahead (parser_new b)" for p
    using that input_adapter_le [of b] by (simp add: ahead_def parser_new_def lexer_new_def parse_fuel_def)
  note ok = post_parse [THEN conjunct1, rule_format, OF a]
  have "pr_last (parser_new b) \<noteq> EndOfInput" by (simp add: parser_new_def)
  then show ?thesis
    unfolding parse_strict_def post_sbind
    by (auto simp: post_simps done_ok_def intro!: post_get_token post_expect post_mono [OF ok] split: sum.split)
qed

section \<open>The acceptor accepts what the parser parses\<close>

definition read_token :: "num_lib \<Rightarrow> parser \<Rightarrow> parser" where
  "read_token N p = p\<lparr>pr_lexer := snd (scan N (pr_lexer p)), pr_last := fst (scan N (pr_lexer p))\<rparr>"

lemma sbind_parser_simps:
  "sbind (get_token N) f p = f (pr_last (read_token N p)) (read_token N p)"
  "sbind last_token g p = g (pr_last p) p"
  "sbind move_string h p = h (lx_yytext (pr_lexer p)) p"
  "sbind (expect t) k p = (if pr_last p = t then k () p else (Inl (syntax_error t p), p))"
  by (simp_all add: get_token_apply read_token_def sbind_def last_token_def move_string_def expect_def)

fun verdict :: "'a outcome \<Rightarrow> bool outcome" where
  "verdict (Inr _) = Inr True"
| "verdict (Inl e) = (if e = Diverges then Inl Diverges else Inr False)"

definition judged :: "'a outcome \<times> parser \<Rightarrow> bool outcome \<times> parser" where
  "judged x = (verdict (fst x), snd x)"

lemma syntax_error_not_Diverges [simp]: "syntax_error t p \<noteq> Diverges"
  by (simp add: syntax_error_def parse_error_def)

lemma accept_scalar_judged:
  assumes "pr_last p = t" and "t \<noteq> LiteralOrValue"
  shows "accept_scalar t p = judged (parse_scalar t p)"
  using assms
  by (cases t)
    (simp_all add: accept_scalar_def parse_scalar_def judged_def sret_def sbind_parser_simps out_of_range_def
      split: option.split)

lemma read_token_last: "pr_last (read_token N p) \<noteq> LiteralOrValue"
  by (simp add: read_token_def scan_token)

lemma accept_judged:
  "(\<forall>p. pr_last p \<noteq> LiteralOrValue \<longrightarrow> accept_internal N n p = judged (parse_internal N n p)) \<and>
   (\<forall>p kvs. accept_members N n p = judged (parse_members N n kvs p)) \<and>
   (\<forall>p vs. pr_last p \<noteq> LiteralOrValue \<longrightarrow> accept_elements N n p = judged (parse_elements N n vs p))"
proof (induction n)
  case 0
  show ?case by (simp add: judged_def sthrow_def)
next
  case (Suc n)
  then have IH: "pr_last p \<noteq> LiteralOrValue \<Longrightarrow> accept_internal N n p = judged (parse_internal N n p)"
    "accept_members N n p = judged (parse_members N n kvs p)"
    "pr_last p \<noteq> LiteralOrValue \<Longrightarrow> accept_elements N n p = judged (parse_elements N n vs p)"
    for p kvs vs by blast+
  have fails: "sbind (accept_internal N n) f p = (if e = Diverges then (Inl Diverges, p') else f False p')"
    if "parse_internal N n p = (Inl e, p')" "pr_last p \<noteq> LiteralOrValue"
    for f :: "bool \<Rightarrow> (parser, bool) sm" and p p' e
    using that IH(1) [of p] by (simp add: sbind_def judged_def)
  have succeeds: "sbind (accept_internal N n) f p = f True p'"
    if "parse_internal N n p = (Inr v, p')" "pr_last p \<noteq> LiteralOrValue"
    for f :: "bool \<Rightarrow> (parser, bool) sm" and p p' v
    using that IH(1) [of p] by (simp add: sbind_def judged_def)
  have "accept_internal N (Suc n) p = judged (parse_internal N (Suc n) p)" if "pr_last p \<noteq> LiteralOrValue" for p
    using accept_scalar_judged [OF refl that] IH(3) [OF read_token_last, of N p "[]"] IH(2) [of _ "[]"]
    by (simp add: sbind_parser_simps sret_def judged_def)
  moreover have "accept_members N (Suc n) p = judged (parse_members N (Suc n) kvs p)" for p kvs
  proof -
    define q where "q = read_token N (read_token N p)"
    have l: "pr_last q \<noteq> LiteralOrValue" by (simp add: q_def read_token_last)
    obtain r q' where i: "parse_internal N n q = (r, q')" by (metis surj_pair)
    show ?thesis
    proof (cases r)
      case (Inl e)
      note i = i [unfolded Inl]
      show ?thesis
        using fails [OF i l] i
        by (simp add: sbind_parser_simps q_def [symmetric] sret_def judged_def)
    next
      case (Inr v)
      note i = i [unfolded Inr]
      show ?thesis
        using succeeds [OF i l] i
          IH(2) [of "read_token N (read_token N q')" "obj_emplace (lx_yytext (pr_lexer p)) v kvs"]
        by (simp add: sbind_parser_simps q_def [symmetric] sret_def judged_def)
    qed
  qed
  moreover have "accept_elements N (Suc n) p = judged (parse_elements N (Suc n) vs p)"
    if l: "pr_last p \<noteq> LiteralOrValue" for p vs
  proof -
    obtain r q' where i: "parse_internal N n p = (r, q')" by (metis surj_pair)
    show ?thesis
    proof (cases r)
      case (Inl e)
      note i = i [unfolded Inl]
      show ?thesis using fails [OF i l] i by (simp add: sret_def judged_def)
    next
      case (Inr v)
      note i = i [unfolded Inr]
      show ?thesis
        using succeeds [OF i l] i IH(3) [OF read_token_last, of N "read_token N q'" "vs @ [v]"]
        by (simp add: sbind_parser_simps sret_def judged_def)
    qed
  qed
  ultimately show ?case by blast
qed

section \<open>Properties\<close>

lemma json_parse_outcome: "std_outcome (json_parse N b)"
  using parse_strict_post [of N b] by (simp add: post_def split_beta json_parse_def)

text \<open>(C18) Parsing returns: on every input the parser gives a value or throws one of the library's
  exceptions, within the fuel, and never asks for more.\<close>

theorem json_parse_returns:
  "(\<exists>j. json_parse N b = Inr j) \<or> (\<exists>what. json_parse N b = Inl (StdError what))"
  using json_parse_outcome [of N b] by (cases "json_parse N b") (auto simp: std_outcome_def)

text \<open>The acceptor decides whether the parser succeeds.\<close>

theorem json_accept_iff: "json_accept N b = Inr (\<exists>j. json_parse N b = Inr j)"
proof -
  define p where "p = read_token N (parser_new b)"
  obtain r q where i: "parse_internal N (parse_fuel b) p = (r, q)" by (metis surj_pair)
  have a: "accept_internal N (parse_fuel b) p = judged (parse_internal N (parse_fuel b) p)"
    using accept_judged read_token_last unfolding p_def by blast
  have "fst (parse_strict N (parse_fuel b) (parser_new b)) \<noteq> Inl Diverges"
    using parse_strict_post [of N b] by (auto simp: post_def split_beta std_outcome_def)
  then have "r \<noteq> Inl Diverges"
    using i by (auto simp: parse_strict_def sbind_parser_simps p_def [symmetric])
  then show ?thesis
    using i a
    by (cases r)
      (simp_all add: json_accept_def json_parse_def accept_strict_def parse_strict_def sbind_parser_simps
        p_def [symmetric] judged_def sret_def)
qed

end
