(* ===== verification/JsonSerializer.thy ===== *)
theory JsonSerializer
  imports JsonLexer
begin

text \<open>
  The serialiser of \<^verbatim>\<open>src/json.hpp\<close>: the UTF-8 check by a table-driven automaton, the escaping
  of strings into a buffer whose size is computed beforehand, and \<open>dump\<close>, compact and pretty.
\<close>

section \<open>The UTF-8 check\<close>

text \<open>The table of \<open>decode\<close>: the types of the 256 bytes, then a row of 16 next states for each of
  the states 0 to 8.\<close>

definition utf8d :: "nat list" where
  "utf8d =
     replicate 128 0 @ replicate 16 1 @ replicate 16 9 @ replicate 32 7 @ [8, 8] @ replicate 30 2 @
     [0xA, 0x3, 0x3, 0x3, 0x3, 0x3, 0x3, 0x3, 0x3, 0x3, 0x3, 0x3, 0x3, 0x4, 0x3, 0x3] @
     [0xB, 0x6, 0x6, 0x6, 0x5, 0x8, 0x8, 0x8, 0x8, 0x8, 0x8, 0x8, 0x8, 0x8, 0x8, 0x8] @
     [0x0, 0x1, 0x2, 0x3, 0x5, 0x8, 0x7, 0x1, 0x1, 0x1, 0x4, 0x6, 0x1, 0x1, 0x1, 0x1] @
     [1, 1, 1, 1, 1, 1, 1, 1, 1, 1, 1, 1, 1, 1, 1, 1] @ [1, 0, 1, 1, 1, 1, 1, 0, 1, 0, 1, 1, 1, 1, 1, 1] @
     [1, 2, 1, 1, 1, 1, 1, 2, 1, 2, 1, 1, 1, 1, 1, 1] @ [1, 1, 1, 1, 1, 1, 1, 2, 1, 1, 1, 1, 1, 1, 1, 1] @
     [1, 2, 1, 1, 1, 1, 1, 1, 1, 2, 1, 1, 1, 1, 1, 1] @ [1, 1, 1, 1, 1, 1, 1, 3, 1, 3, 1, 1, 1, 1, 1, 1] @
     [1, 3, 1, 1, 1, 1, 1, 3, 1, 3, 1, 1, 1, 1, 1, 1] @ [1, 3, 1, 1, 1, 1, 1, 1, 1, 1, 1, 1, 1, 1, 1, 1]"

definition decode :: "nat \<Rightarrow> nat \<Rightarrow> nat" where
  "decode state b = utf8d ! (256 + state * 16 + utf8d ! b)"

definition hex2 :: "nat \<Rightarrow> string" where
  "hex2 n = [hex_digit (n div 16), hex_digit (n mod 16)]"

fun utf8_loop :: "nat \<Rightarrow> nat \<Rightarrow> string \<Rightarrow> nat outcome" where
  "utf8_loop state i [] = Inr state"
| "utf8_loop state i (c # cs) =
     (let state' = decode state (byte c) in
      if state' = 1 then Inl (type_error 316
        (''invalid UTF-8 byte at index '' @ show_nat i @ '': 0x'' @ hex2 (byte c)))
      else utf8_loop state' (Suc i) cs)"

definition throw_if_invalid_utf8 :: "string \<Rightarrow> unit outcome" where
  "throw_if_invalid_utf8 str =
     ebind (utf8_loop 0 0 str) (\<lambda>state.
       if state \<noteq> 0 then Inl (type_error 316
         (''incomplete UTF-8 string; last byte: 0x'' @ hex2 (byte (last str))))
       else Inr ())"

section \<open>Escaping\<close>

text \<open>A failed assertion counts as undefined, as does a write outside the buffer.\<close>

definition assert_that :: "bool \<Rightarrow> unit outcome" where
  "assert_that b = (if b then Inr () else Inl (UB OutOfBounds))"

definition bytes_following :: "nat \<Rightarrow> nat option" where
  "bytes_following u =
     (if u \<le> 127 then Some 0
      else if 192 \<le> u \<and> u \<le> 223 then Some 1
      else if 224 \<le> u \<and> u \<le> 239 then Some 2
      else if 240 \<le> u \<and> u \<le> 247 then Some 3
      else None)"

text \<open>The characters that are escaped with one letter.\<close>

definition short_escape :: "char \<Rightarrow> char option" where
  "short_escape c = map_of
     [(CHR 0x22, CHR 0x22), (CHR 0x5C, CHR 0x5C), (CHR 0x08, CHR ''b''), (CHR 0x0C, CHR ''f''),
      (CHR 0x0A, CHR ''n''), (CHR 0x0D, CHR ''r''), (CHR 0x09, CHR ''t'')] c"

definition needs_ascii :: "bool \<Rightarrow> char \<Rightarrow> bool" where
  "needs_ascii ensure_ascii c \<longleftrightarrow> ensure_ascii \<and> (byte c AND 0x80 \<noteq> 0 \<or> byte c = 0x7F)"

function extra_space :: "bool \<Rightarrow> string \<Rightarrow> nat \<Rightarrow> nat outcome" where
  "extra_space ensure_ascii [] res = Inr res"
| "extra_space ensure_ascii (c # cs) res =
     (if short_escape c \<noteq> None then extra_space ensure_ascii cs (res + 1)
      else if byte c \<le> 0x1F then extra_space ensure_ascii cs (res + 5)
      else if needs_ascii ensure_ascii c then
        (case bytes_following (byte c) of
           None \<Rightarrow> Inl (UB OutOfBounds)
         | Some bytes \<Rightarrow>
             extra_space ensure_ascii (drop bytes cs)
               (if bytes = 3 then res + (12 - bytes - 1) else res + (6 - bytes - 1)))
      else extra_space ensure_ascii cs res)"
  by pat_completeness auto
termination by (relation "measure (\<lambda>(e, s, r). length s)") auto

text \<open>The buffer and the position in it.\<close>

type_synonym escape_buffer = "string \<times> nat"

definition poke :: "nat \<Rightarrow> char \<Rightarrow> string \<Rightarrow> string outcome" where
  "poke i c result = (if i < length result then Inr (result[i := c]) else Inl (UB OutOfBounds))"

fun poke_all :: "nat \<Rightarrow> string \<Rightarrow> string \<Rightarrow> string outcome" where
  "poke_all i [] result = Inr result"
| "poke_all i (c # cs) result = ebind (poke i c result) (poke_all (Suc i) cs)"

definition hexify :: "nat \<Rightarrow> char" where
  "hexify n = ''0123456789abcdef'' ! n"

definition hex4 :: "nat \<Rightarrow> string" where
  "hex4 n = [hexify (drop_bit 12 n AND 0x0F), hexify (drop_bit 8 n AND 0x0F),
     hexify (drop_bit 4 n AND 0x0F), hexify (n AND 0x0F)]"

definition escape_codepoint :: "nat \<Rightarrow> escape_buffer \<Rightarrow> escape_buffer outcome" where
  "escape_codepoint codepoint = (\<lambda>(result, pos).
     ebind (assert_that (codepoint \<le> 0x10FFFF)) (\<lambda>_.
     ebind (assert_that (pos < length result \<and> result ! pos = CHR 0x5C)) (\<lambda>_.
       if codepoint < 0x10000 then
         ebind (poke_all (pos + 1) (''u'' @ hex4 codepoint) result) (\<lambda>result'.
           Inr (result', pos + 6))
       else
         let c = codepoint - 0x10000;
             high_surrogate = 0xD800 OR (drop_bit 10 c AND 0x3FF);
             low_surrogate = 0xDC00 OR (c AND 0x3FF)
         in ebind (poke_all (pos + 1) (''u'' @ hex4 high_surrogate) result) (\<lambda>result'.
            ebind (poke_all (pos + 7) (''u'' @ hex4 low_surrogate) result') (\<lambda>result''.
              Inr (result'', pos + 12))))))"

text \<open>The codepoint of a lead byte and the bytes after it.\<close>

definition utf8_codepoint :: "nat \<Rightarrow> string \<Rightarrow> nat \<Rightarrow> nat" where
  "utf8_codepoint b cs bytes =
     (if bytes = 0 then b AND 0xFF
      else if bytes = 1 then push_bit 6 (b AND 0x3F) + (byte (cs ! 0) AND 0x7F)
      else if bytes = 2 then
        push_bit 12 (b AND 0x1F) + push_bit 6 (byte (cs ! 0) AND 0x7F) + (byte (cs ! 1) AND 0x7F)
      else
        push_bit 18 (b AND 0xF) + push_bit 12 (byte (cs ! 0) AND 0x7F) + push_bit 6 (byte (cs ! 1) AND 0x7F)
          + (byte (cs ! 2) AND 0x7F))"

function escape_loop :: "bool \<Rightarrow> string \<Rightarrow> escape_buffer \<Rightarrow> escape_buffer outcome" where
  "escape_loop ensure_ascii [] buf = Inr buf"
| "escape_loop ensure_ascii (c # cs) (result, pos) =
     (case short_escape c of
        Some e \<Rightarrow>
          ebind (if c = CHR 0x5C then Inr result else poke (pos + 1) e result) (\<lambda>result'.
            escape_loop ensure_ascii cs (result', pos + 2))
      | None \<Rightarrow>
          if byte c \<le> 0x1F \<or> needs_ascii ensure_ascii c then
            (case bytes_following (byte c) of
               None \<Rightarrow> Inl (UB OutOfBounds)
             | Some bytes \<Rightarrow>
                 ebind (assert_that (bytes \<le> length cs)) (\<lambda>_.
                 ebind (escape_codepoint (utf8_codepoint (byte c) cs bytes) (result, pos)) (\<lambda>buf'.
                   escape_loop ensure_ascii (drop bytes cs) buf')))
          else ebind (poke pos c result) (\<lambda>result'. escape_loop ensure_ascii cs (result', pos + 1)))"
  by pat_completeness auto
termination by (relation "measure (\<lambda>(e, s, b). length s)") auto

text \<open>What \<open>dump_escaped\<close> writes.\<close>

definition dump_escaped :: "bool \<Rightarrow> string \<Rightarrow> string outcome" where
  "dump_escaped ensure_ascii s =
     ebind (throw_if_invalid_utf8 s) (\<lambda>_.
     ebind (extra_space ensure_ascii s 0) (\<lambda>space.
       if space = 0 then Inr s
       else
         ebind (escape_loop ensure_ascii s (replicate (length s + space) (CHR 0x5C), 0)) (\<lambda>(result, pos).
         ebind (assert_that (pos = length result)) (\<lambda>_. Inr result))))"

section \<open>Numbers\<close>

text \<open>The digits are put into a buffer of 64 characters, the last first; division truncates.\<close>

function digit_loop :: "int \<Rightarrow> string \<Rightarrow> string" where
  "digit_loop x buffer =
     (if x = 0 then buffer
      else digit_loop (sgn x * (\<bar>x\<bar> div 10)) (buffer @ [char_of (48 + nat (\<bar>x\<bar> mod 10))]))"
  by pat_completeness auto
termination by (relation "measure (\<lambda>(x, b). nat \<bar>x\<bar>)") (auto simp: abs_mult nat_mono_iff zdiv_mono2)

declare digit_loop.simps [simp del]

definition dump_integer :: "int \<Rightarrow> string" where
  "dump_integer x =
     (if x = 0 then ''0''
      else rev (digit_loop x [] @ (if x < 0 then ''-'' else [])))"

definition dump_finite :: "num_lib \<Rightarrow> dbl \<Rightarrow> string" where
  "dump_finite N x =
     (let text = snprintf_g N x;
          plain = (if locale_sep N \<noteq> CHR 0x00 then filter (\<lambda>c. c \<noteq> locale_sep N) text else text);
          point = locale_point N;
          fixed = (if point \<noteq> CHR 0x00 \<and> point \<noteq> CHR ''.'' \<and> point \<in> set plain
                   then takeWhile (\<lambda>c. c \<noteq> point) plain @ ''.'' @ tl (dropWhile (\<lambda>c. c \<noteq> point) plain)
                   else plain)
      in if list_all (\<lambda>c. c \<noteq> CHR ''.'' \<and> c \<noteq> CHR ''e'') fixed then fixed @ ''.0'' else fixed)"

fun dump_float :: "num_lib \<Rightarrow> dbl \<Rightarrow> string" where
  "dump_float N (Dbl neg x) = dump_finite N (Dbl neg x)"
| "dump_float N _ = ''null''"

section \<open>Dump\<close>

record serializer =
  sz_out :: string
  sz_indent :: string

type_synonym 'a dumper = "(serializer, 'a) sm"

definition write_text :: "string \<Rightarrow> unit dumper" where
  "write_text s = smodify (\<lambda>z. z\<lparr>sz_out := sz_out z @ s\<rparr>)"

definition write_escaped :: "bool \<Rightarrow> string \<Rightarrow> unit dumper" where
  "write_escaped ensure_ascii s = sbind (sread (\<lambda>_. dump_escaped ensure_ascii s)) write_text"

text \<open>\<open>write_characters\<close> reads \<open>n\<close> characters of the indentation string and its terminator.\<close>

definition write_indent :: "nat \<Rightarrow> unit dumper" where
  "write_indent n =
     sbind (sread (\<lambda>z. if n \<le> Suc (length (sz_indent z)) then Inr (take n (sz_indent z @ [CHR 0x00]))
       else Inl (UB OutOfBounds))) write_text"

definition grow_indent :: "nat \<Rightarrow> unit dumper" where
  "grow_indent n = smodify (\<lambda>z. if length (sz_indent z) < n
     then z\<lparr>sz_indent := sz_indent z @ replicate (length (sz_indent z)) (CHR '' '')\<rparr> else z)"

definition next_indent :: "nat \<Rightarrow> nat \<Rightarrow> nat" where
  "next_indent current_indent indent_step = (current_indent + indent_step) mod 2 ^ 32"

fun dump :: "num_lib \<Rightarrow> bool \<Rightarrow> bool \<Rightarrow> nat \<Rightarrow> nat \<Rightarrow> json \<Rightarrow> unit dumper"
  and dump_members :: "num_lib \<Rightarrow> bool \<Rightarrow> bool \<Rightarrow> nat \<Rightarrow> nat \<Rightarrow> (string \<times> json) list \<Rightarrow> unit dumper"
  and dump_elements :: "num_lib \<Rightarrow> bool \<Rightarrow> bool \<Rightarrow> nat \<Rightarrow> nat \<Rightarrow> json list \<Rightarrow> unit dumper" where
  "dump N pretty ascii step current (JObject kvs) =
     (if kvs = [] then write_text ''{}''
      else if pretty then
        sbind (write_text (''{'' @ [newline_char])) (\<lambda>_.
        sbind (grow_indent (next_indent current step)) (\<lambda>_.
        sbind (dump_members N pretty ascii step (next_indent current step) kvs) (\<lambda>_.
        sbind (write_text [newline_char]) (\<lambda>_.
        sbind (write_indent current) (\<lambda>_. write_text ''}'')))))
      else
        sbind (write_text ''{'') (\<lambda>_.
        sbind (dump_members N pretty ascii step current kvs) (\<lambda>_. write_text ''}'')))"
| "dump N pretty ascii step current (JArray vs) =
     (if vs = [] then write_text ''[]''
      else if pretty then
        sbind (write_text (''['' @ [newline_char])) (\<lambda>_.
        sbind (grow_indent (next_indent current step)) (\<lambda>_.
        sbind (dump_elements N pretty ascii step (next_indent current step) vs) (\<lambda>_.
        sbind (write_text [newline_char]) (\<lambda>_.
        sbind (write_indent current) (\<lambda>_. write_text '']'')))))
      else
        sbind (write_text ''['') (\<lambda>_.
        sbind (dump_elements N pretty ascii step current vs) (\<lambda>_. write_text '']'')))"
| "dump N pretty ascii step current (JString s) =
     sbind (write_text dquote) (\<lambda>_. sbind (write_escaped ascii s) (\<lambda>_. write_text dquote))"
| "dump N pretty ascii step current (JBool b) = write_text (if b then ''true'' else ''false'')"
| "dump N pretty ascii step current (JInt i) = write_text (dump_integer i)"
| "dump N pretty ascii step current (JUnsigned n) = write_text (dump_integer n)"
| "dump N pretty ascii step current (JFloat d) = write_text (dump_float N d)"
| "dump N pretty ascii step current JNull = write_text ''null''"
| "dump_members N pretty ascii step current [] = sret ()"
| "dump_members N pretty ascii step current ((k, v) # kvs) =
     sbind (if pretty then write_indent current else sret ()) (\<lambda>_.
     sbind (write_text dquote) (\<lambda>_.
     sbind (write_escaped ascii k) (\<lambda>_.
     sbind (write_text (dquote @ (if pretty then '': '' else '':''))) (\<lambda>_.
     sbind (dump N pretty ascii step current v) (\<lambda>_.
       if kvs = [] then sret ()
       else sbind (write_text (if pretty then '','' @ [newline_char] else '','')) (\<lambda>_.
         dump_members N pretty ascii step current kvs))))))"
| "dump_elements N pretty ascii step current [] = sret ()"
| "dump_elements N pretty ascii step current (v # vs) =
     sbind (if pretty then write_indent current else sret ()) (\<lambda>_.
     sbind (dump N pretty ascii step current v) (\<lambda>_.
       if vs = [] then sret ()
       else sbind (write_text (if pretty then '','' @ [newline_char] else '','')) (\<lambda>_.
         dump_elements N pretty ascii step current vs)))"

text \<open>The public \<open>dump\<close>: a negative indentation asks for the compact form.\<close>

definition json_dump_with :: "num_lib \<Rightarrow> int \<Rightarrow> char \<Rightarrow> bool \<Rightarrow> json \<Rightarrow> string outcome" where
  "json_dump_with N indent indent_char ascii j =
     (case (if indent \<ge> 0 then dump N True ascii (nat indent) 0 j else dump N False ascii 0 0 j)
             \<lparr>sz_out = [], sz_indent = replicate 512 indent_char\<rparr> of
        (Inl e, z) \<Rightarrow> Inl e | (Inr _, z) \<Rightarrow> Inr (sz_out z))"

definition json_dump :: "num_lib \<Rightarrow> json \<Rightarrow> string outcome" where
  "json_dump N = json_dump_with N (- 1) (CHR '' '') False"

end
