(* ===== verification/Requests.thy ===== *)
theory Requests
  imports Transparency JsonParser JsonSerializer
begin

text \<open>
  Whole requests, from the body that arrives to the reply, with the JSON parser and serialiser of the
  program, and runs of the server: requests, the reaper, reloads and the passing of time, in any order.
\<close>

section \<open>Runs\<close>

text \<open>The server as its constructor leaves it.\<close>

definition server_new ::
  "query_log \<Rightarrow> 'c pool \<times> 'm \<Rightarrow> 'd pool \<times> 'n \<Rightarrow> int \<Rightarrow> ('c, 'm, 'd, 'n) server" where
  "server_new lg mc my now = \<lparr>sv_sessions = [], sv_sites = [], sv_site_store = [], sv_query_log = lg,
     sv_memcache = mc, sv_mysql = my, sv_now = now, sv_rand_count = 0\<rparr>"

definition handle ::
  "num_lib \<Rightarrow> ('c, 'm, 'd, 'n) env \<Rightarrow> endpoint \<Rightarrow> string \<Rightarrow> int \<Rightarrow> int
     \<Rightarrow> ('c, 'm, 'd, 'n, http_response) server_op" where
  "handle N E = process (json_parse N) (json_dump N) E"

datatype event =
    Request endpoint string int int
  | Reap
  | Reload string
  | Clock int

fun react ::
  "num_lib \<Rightarrow> ('c, 'm, 'd, 'n) env \<Rightarrow> event \<Rightarrow> ('c, 'm, 'd, 'n) server
     \<Rightarrow> http_response outcome list \<times> ('c, 'm, 'd, 'n) server" where
  "react N E (Request ep body t0 t1) sv = (case handle N E ep body t0 t1 sv of (r, sv') \<Rightarrow> ([r], sv'))"
| "react N E Reap sv = ([], snd (reaper_step E sv))"
| "react N E (Reload subdomain) sv = ([], reload_site subdomain sv)"
| "react N E (Clock t) sv = ([], sv\<lparr>sv_now := t\<rparr>)"

text \<open>The replies to a sequence of events, and the server after it.\<close>

fun run ::
  "num_lib \<Rightarrow> ('c, 'm, 'd, 'n) env \<Rightarrow> event list \<Rightarrow> ('c, 'm, 'd, 'n) server
     \<Rightarrow> http_response outcome list \<times> ('c, 'm, 'd, 'n) server" where
  "run N E [] sv = ([], sv)"
| "run N E (ev # evs) sv =
     (case react N E ev sv of (rs, sv') \<Rightarrow> (case run N E evs sv' of (rs', sv'') \<Rightarrow> (rs @ rs', sv'')))"

definition replies where "replies N E evs sv = fst (run N E evs sv)"

definition after where "after N E evs sv = snd (run N E evs sv)"

lemma run_simps [simp]:
  "after N E [] sv = sv" "replies N E [] sv = []"
  "after N E (ev # evs) sv = after N E evs (snd (react N E ev sv))"
  "replies N E (ev # evs) sv = fst (react N E ev sv) @ replies N E evs (snd (react N E ev sv))"
  by (simp_all add: after_def replies_def split_beta)

section \<open>Requests do not see the caches\<close>

lemma find_session_agree:
  assumes "servers_agree E sv sv'"
  shows "find_session params sv' = find_session params sv"
proof -
  have r: "(case map_of (sv_site_store sv') r of None \<Rightarrow> Inl (UB UseAfterFree)
        | Some s \<Rightarrow> Inr (FoundSession sid (get_subdomain s))) =
      (case map_of (sv_site_store sv) r of None \<Rightarrow> Inl (UB UseAfterFree)
        | Some s \<Rightarrow> Inr (FoundSession sid (get_subdomain s)))" for r sid
    by (rule agree_site_reads [OF assms, symmetric]) (simp add: get_subdomain_def alikeD)
  show ?thesis unfolding find_session_def servers_agreeD(1) [OF assms] r ..
qed

lemma serve_agree:
  assumes "sort_contract (e_sort E)" and "servers_agree E sv sv'"
  shows "fst (serve wr E ep params entry sv) = fst (serve wr E ep params entry sv') \<and>
    servers_agree E (snd (serve wr E ep params entry sv)) (snd (serve wr E ep params entry sv'))"
proof -
  have run: "fst (run_handler wr E ep sid params sv) = fst (run_handler wr E ep sid params sv') \<and>
      servers_agree E (snd (run_handler wr E ep sid params sv)) (snd (run_handler wr E ep sid params sv'))" for sid
    by (rule uniformD [OF uniform_run_handler [OF assms(1)] assms(2)])
  show ?thesis
  proof (cases "find_session params sv")
    case (Inl e)
    then show ?thesis
      using run assms(2) by (simp add: serve_def find_session_agree [OF assms(2)] split_beta)
  next
    case (Inr f)
    then show ?thesis
      using run assms(2)
      by (cases f) (simp_all add: serve_def find_session_agree [OF assms(2)] split_beta)
  qed
qed

lemma servers_agree_log:
  "servers_agree E sv sv' \<Longrightarrow> servers_agree E (sv\<lparr>sv_query_log := lg\<rparr>) (sv'\<lparr>sv_query_log := lg\<rparr>)"
  by (erule servers_agree_update) simp_all

lemma uniform_process [uniform_intro]:
  assumes "sort_contract (e_sort E)"
  shows "uniform (servers_agree E) (process parse wr E ep body t0 t1)"
proof (rule uniformI)
  fix sv sv' assume a: "servers_agree E sv sv'"
  obtain entry lg where e: "entry_new (sv_query_log sv) = (entry, lg)" by (metis surj_pair)
  show "fst (process parse wr E ep body t0 t1 sv) = fst (process parse wr E ep body t0 t1 sv') \<and>
      servers_agree E (snd (process parse wr E ep body t0 t1 sv)) (snd (process parse wr E ep body t0 t1 sv'))"
  proof (cases "if 0 < length body then parse body else Inr (init_json [])")
    case (Inl x)
    with a show ?thesis by (simp add: process_def)
  next
    case (Inr params)
    let ?serve = "serve wr E ep params (method_call lg t0 (endpoint_name ep) entry)"
    note s = serve_agree [OF assms servers_agree_log [OF a, of lg], of wr ep params
        "method_call lg t0 (endpoint_name ep) entry"]
    obtain r x t where 1: "?serve (sv\<lparr>sv_query_log := lg\<rparr>) = ((r, x), t)" by (metis surj_pair)
    obtain t' where 2: "?serve (sv'\<lparr>sv_query_log := lg\<rparr>) = ((r, x), t')" and t: "servers_agree E t t'"
      using s 1 by (metis fst_conv snd_conv surj_pair)
    from servers_agree_log [OF t] show ?thesis
      using Inr e 1 2 servers_agreeD(7) [OF a] servers_agreeD(7) [OF t] by (simp add: process_def)
  qed
qed

lemma react_agree:
  assumes "sort_contract (e_sort E)" and "servers_agree E sv sv'"
  shows "fst (react N E ev sv) = fst (react N E ev sv') \<and>
    servers_agree E (snd (react N E ev sv)) (snd (react N E ev sv'))"
proof (cases ev)
  case (Request ep body t0 t1)
  then show ?thesis
    using uniformD [OF uniform_process [OF assms(1)] assms(2), of "json_parse N" "json_dump N" ep body t0 t1]
    by (simp add: handle_def split_beta)
next
  case Reap
  have "uniform (servers_agree E) (reaper_step E)"
    unfolding reaper_step_def
    by (intro uniform_intro uniform_smodify, erule servers_agree_update) (simp_all)
  from uniformD [OF this assms(2)] Reap show ?thesis by simp
next
  case (Reload su)
  have "servers_agree E (reload_site su sv) (reload_site su sv')"
    unfolding reload_site_def Let_def servers_agreeD(2) [OF assms(2)]
    by (rule servers_agree_update [OF assms(2)]) simp_all
  with Reload show ?thesis by simp
next
  case (Clock t)
  have "servers_agree E (sv\<lparr>sv_now := t\<rparr>) (sv'\<lparr>sv_now := t\<rparr>)"
    by (rule servers_agree_update [OF assms(2)]) simp_all
  with Clock show ?thesis by simp
qed

lemma run_agree:
  assumes "sort_contract (e_sort E)" and "servers_agree E sv sv'"
  shows "replies N E evs sv = replies N E evs sv' \<and> servers_agree E (after N E evs sv) (after N E evs sv')"
  using assms(2)
proof (induction evs arbitrary: sv sv')
  case (Cons ev evs)
  from react_agree [OF assms(1) Cons.prems, of N ev] Cons.IH show ?case by simp
qed simp

text \<open>Emptying all the caches of all the sites.\<close>

definition flush_caches :: "('c, 'm, 'd, 'n) server \<Rightarrow> ('c, 'm, 'd, 'n) server" where
  "flush_caches sv = sv\<lparr>sv_site_store := map (\<lambda>(r, s). (r, bare s)) (sv_site_store sv)\<rparr>"

lemma bare_idem: "bare (bare s) = bare s"
  by (simp add: bare_def bare_context_def split_beta)

lemma caches_ok_bare: "caches_ok T X (bare s)"
  by (rule caches_ok_fresh) (auto simp: map_of_bare bare_context_def, simp add: bare_def)

lemma servers_agree_flush:
  assumes "servers_agree E sv sv"
  shows "servers_agree E (flush_caches sv) sv"
proof -
  have "sites_agree T X (map (\<lambda>(r, s). (r, bare s)) xs) xs" if "sites_agree T X xs xs" for T X xs
    using that by (induction xs) (auto simp: sites_agree_def alike_iff bare_idem caches_ok_bare)
  with assms show ?thesis by (simp add: servers_agree_def flush_caches_def)
qed

lemma servers_agree_new: "servers_agree E (server_new lg mc my now) (server_new lg mc my now)"
  by (simp add: servers_agree_def server_new_def sites_agree_def)

text \<open>(C4) Whatever a server has been through, emptying the caches of its sites changes none of the
  replies it gives from then on: the query cache and the caches of the contexts never show.\<close>

theorem caches_never_show:
  assumes "sort_contract (e_sort E)"
  shows "replies N E evs (flush_caches (after N E past (server_new lg mc my now))) =
    replies N E evs (after N E past (server_new lg mc my now))"
proof -
  have "servers_agree E (after N E past (server_new lg mc my now)) (after N E past (server_new lg mc my now))"
    using run_agree [OF assms servers_agree_new] by blast
  from run_agree [OF assms servers_agree_flush [OF this]] show ?thesis by blast
qed

theorem caches_never_show_witness:
  "\<forall>N E lg mc my now b. replies N (E\<lparr>e_sort := sort_ref\<rparr>) [Request Get b 0 1]
       (flush_caches (after N (E\<lparr>e_sort := sort_ref\<rparr>) [Request OpenSession b 0 1, Request Get b 0 1]
          (server_new lg mc my now))) =
     replies N (E\<lparr>e_sort := sort_ref\<rparr>) [Request Get b 0 1]
       (after N (E\<lparr>e_sort := sort_ref\<rparr>) [Request OpenSession b 0 1, Request Get b 0 1]
          (server_new lg mc my now))"
  by (intro allI caches_never_show) (simp add: sort_ref_contract)

end
