(* ===== verification/Access.thy ===== *)
theory Access
  imports Requests
begin

text \<open>
  Who gets a session, and what a request can do to the sessions of others: the parameters of a request
  as a lookup, the invariant of the server, and the frame of each handler.
\<close>

section \<open>Parameters\<close>

text \<open>Reading a parameter may enter a null for it, but no later read sees that.\<close>

definition param_at :: "string \<Rightarrow> json \<Rightarrow> json outcome" where
  "param_at name j = (case j of
     JNull \<Rightarrow> Inr JNull
   | JObject kvs \<Rightarrow> Inr (case map_of kvs name of None \<Rightarrow> JNull | Some v \<Rightarrow> v)
   | _ \<Rightarrow> Inl (type_error 305 (''cannot use operator[] with '' @ type_name j)))"

definition same_params :: "json \<Rightarrow> json \<Rightarrow> bool" where
  "same_params j j' \<longleftrightarrow> (\<forall>n. param_at n j = param_at n j')"

definition str_param :: "string \<Rightarrow> json \<Rightarrow> string outcome" where
  "str_param name j = ebind (param_at name j) (\<lambda>v. if is_null v then Inr [] else get_string v)"

definition int_param :: "string \<Rightarrow> json \<Rightarrow> int outcome" where
  "int_param name j = ebind (param_at name j) (\<lambda>v. if is_null v then Inr 0 else get_int32 v)"

lemma json_index_param:
  "json_index name j = ebind (param_at name j) (\<lambda>v. Inr (v, snd (index_param name j)))"
  by (cases j) (auto simp: json_index_def param_at_def index_param_def Let_def split: option.split)

lemma index_param_fst: "fst (index_param name j) = param_at name j"
  by (cases j) (auto simp: json_index_def param_at_def index_param_def Let_def split: option.split)

lemma index_param_snd: "same_params (snd (index_param name j)) j"
  by (cases j)
    (auto simp: same_params_def json_index_def param_at_def index_param_def Let_def map_of_obj_put
      split: option.split)

lemma uniform_index_param [uniform_intro]: "uniform same_params (index_param name)"
proof (rule uniformI)
  fix j j' assume a: "same_params j j'"
  then have "param_at name j = param_at name j'" by (simp add: same_params_def)
  moreover have "same_params (snd (index_param name j)) (snd (index_param name j'))"
    using a index_param_snd [of name j] index_param_snd [of name j'] by (simp add: same_params_def)
  ultimately show "fst (index_param name j) = fst (index_param name j') \<and>
      same_params (snd (index_param name j)) (snd (index_param name j'))"
    by (simp add: index_param_fst)
qed

lemma sbind_index_param:
  assumes "\<And>v. uniform same_params (f v)"
  shows "fst (sbind (index_param name) f j) = ebind (param_at name j) (\<lambda>v. fst (f v j))"
proof -
  obtain x j' where x: "index_param name j = (x, j')" by (metis surj_pair)
  then have j': "same_params j' j" and px: "param_at name j = x"
    using index_param_snd [of name j] index_param_fst [of name j] by simp_all
  show ?thesis
    using uniformD [OF assms j'] by (cases x) (simp_all add: x px)
qed

lemma uniform_params [uniform_intro]:
  "uniform same_params (sparam name)" "uniform same_params (iparam name)"
  unfolding sparam_def iparam_def by (intro uniform_intro)+

lemma sparam_fst: "fst (sparam name j) = str_param name j"
  and iparam_fst: "fst (iparam name j) = int_param name j"
  unfolding sparam_def iparam_def str_param_def int_param_def
  by (subst sbind_index_param, (intro uniform_intro)[1], rule arg_cong [where f = "ebind _"], rule ext,
      simp add: sret_def)+

lemma sbind_param:
  assumes "uniform same_params m" and "\<And>v. uniform same_params (f v)" and "same_params (snd (m j)) j"
  shows "fst (sbind m f j) = ebind (fst (m j)) (\<lambda>v. fst (f v j))"
proof -
  obtain x j' where x: "m j = (x, j')" by (metis surj_pair)
  show ?thesis using assms(3) uniformD [OF assms(2), of j' j] by (cases x) (simp_all add: x)
qed

lemma sparam_snd: "same_params (snd (sparam name j)) j"
  and iparam_snd: "same_params (snd (iparam name j)) j"
proof -
  obtain x j' where x: "index_param name j = (x, j')" by (metis surj_pair)
  with index_param_snd [of name j] show "same_params (snd (sparam name j)) j" "same_params (snd (iparam name j)) j"
    by (cases x; simp add: sparam_def iparam_def sret_def)+
qed

lemma read_sparam:
  "(\<And>v. uniform same_params (f v)) \<Longrightarrow>
     fst (sbind (sparam name) f j) = ebind (str_param name j) (\<lambda>v. fst (f v j))"
  by (simp add: sbind_param [OF uniform_params(1) _ sparam_snd] sparam_fst)

lemma read_iparam:
  "(\<And>v. uniform same_params (f v)) \<Longrightarrow>
     fst (sbind (iparam name) f j) = ebind (int_param name j) (\<lambda>v. fst (f v j))"
  by (simp add: sbind_param [OF uniform_params(2) _ iparam_snd] iparam_fst)

section \<open>What a request does to the sessions\<close>

definition sessions_are :: "(int \<times> session) list \<Rightarrow> ('c, 'm, 'd, 'n) server \<Rightarrow> bool" where
  "sessions_are ss sv \<longleftrightarrow> sv_sessions sv = ss"

lemma keeps_sessions_parts [keeps_intro]:
  "keeps (sessions_are ss) (on_memcache m)" "keeps (sessions_are ss) (on_mysql m')"
  "keeps (sessions_are ss) (on_site r m'')" "keeps (sessions_are ss) (load_site E su st xml)"
  "keeps (sessions_are ss) (session_subdomain sid)" "keeps (sessions_are ss) (site_at r)"
  "keeps (sessions_are ss) (session_at sid)"
  by (auto simp: keeps_def sessions_are_def on_memcache_def on_mysql_def on_site_def load_site_def Let_def
      session_subdomain_def site_at_def session_at_def split: prod.split option.split sum.split)

lemma keeps_with_params [keeps_intro]:
  "(\<And>p. keeps P (act p)) \<Longrightarrow> keeps P (with_params reads params act)"
  by (cases "fst (reads params)") (simp_all add: with_params_def keeps_intro)

lemma keeps_sessions_get_site [keeps_intro]: "keeps (sessions_are ss) (get_site E su k st)"
  unfolding get_site_def by (intro keeps_intro)

lemma keeps_sessions_handler:
  assumes "ep \<noteq> OpenSession" and "ep \<noteq> CloseSession" and "ep \<noteq> Get"
  shows "keeps (sessions_are ss) (handler E ep sid params)"
proof -
  have "keeps (sessions_are ss) (h_ping params)" "keeps (sessions_are ss) (h_create_info E sid params)"
    "keeps (sessions_are ss) (h_data sid params)" "keeps (sessions_are ss) (h_structure sid params)"
    "keeps (sessions_are ss) (h_short_term_get E sid params)" "keeps (sessions_are ss) (h_short_term_set E sid params)"
    "keeps (sessions_are ss) (h_short_term_delete E sid params)" "keeps (sessions_are ss) (h_session_cache_get E sid params)"
    "keeps (sessions_are ss) (h_session_cache_set E sid params)" "keeps (sessions_are ss) (h_session_cache_delete E sid params)"
    "keeps (sessions_are ss) (h_long_term_get E sid params)" "keeps (sessions_are ss) (h_long_term_set E sid params)"
    "keeps (sessions_are ss) (h_long_term_delete E sid params)" "keeps (sessions_are ss) (h_long_term_empty E sid params)"
    "keeps (sessions_are ss) (h_sweeper_info E sid params)" "keeps (sessions_are ss) (h_sitewide_lock E sid params)"
    "keeps (sessions_are ss) (h_sitewide_unlock E sid params)"
    unfolding h_ping_def h_create_info_def h_data_def h_structure_def h_short_term_get_def h_short_term_set_def
      h_short_term_delete_def h_session_cache_get_def h_session_cache_set_def h_session_cache_delete_def
      h_long_term_get_def h_long_term_set_def h_long_term_delete_def h_long_term_empty_def h_sweeper_info_def
      h_sitewide_lock_def h_sitewide_unlock_def by (intro keeps_intro)+
  with assms show ?thesis by (cases ep) simp_all
qed

text \<open>\<open>get\<close> appends one response to the session, or changes nothing.\<close>

lemma session_get_appends:
  assumes "session_get T X S se i q opts s = (Inr (res, se'), s')"
  shows "\<exists>r res0. se' = se\<lparr>se_responses := se_responses se @ [r]\<rparr> \<and>
    json_set ''id'' (JUnsigned (int (length (se_responses se)) + 1)) res0 = Inr res"
  using assms by (auto simp: session_get_def sbind_eq_Inr_iff sret_def)

lemma get_steps:
  assumes "h_get E sid params sv = (r, sv')"
  shows "sv' = sv \<or> (\<exists>se q i opts mid. map_of (sv_sessions sv) sid = Some se \<and>
    mid = snd (on_site (se_site se) (session_get (e_text E) (e_xml E) (e_sort E) se i q opts) sv) \<and>
    (sv' = mid \<or>
     (\<exists>resp. sv' = mid\<lparr>sv_sessions := put sid (se\<lparr>se_responses := se_responses se @ [resp]\<rparr>) (sv_sessions mid)\<rparr>)))"
proof -
  let ?reads = "sbind (sparam ''query'') (\<lambda>q. sbind (iparam ''responseId'') (\<lambda>i.
        sbind (index_param ''options'') (\<lambda>ov.
        sbind (if is_null ov then sret [] else sread (\<lambda>_. get_string_map ov)) (\<lambda>opts. sret (q, i, opts)))))"
  show ?thesis
  proof (cases "fst (?reads params)")
    case (Inl e)
    with assms show ?thesis by (auto simp: h_get_def with_params_def sthrow_def)
  next
    case (Inr p)
    obtain q i opts where p: "p = (q, i, opts)" by (metis prod_cases3)
    show ?thesis
    proof (cases "map_of (sv_sessions sv) sid")
      case None
      with assms Inr p show ?thesis by (auto simp: h_get_def with_params_def session_at_def sbind_sread)
    next
      case (Some se)
      let ?get = "on_site (se_site se) (session_get (e_text E) (e_xml E) (e_sort E) se i q opts)"
      obtain x mid where x: "?get sv = (x, mid)" by (metis surj_pair)
      note h = assms [unfolded h_get_def with_params_def Inr sum.case p prod.case session_at_def sbind_sread
          Some option.case]
      have "sv' = mid \<or>
        (\<exists>resp. sv' = mid\<lparr>sv_sessions := put sid (se\<lparr>se_responses := se_responses se @ [resp]\<rparr>) (sv_sessions mid)\<rparr>)"
      proof (cases x)
        case (Inl e)
        with h x show ?thesis by simp
      next
        case g: (Inr y)
        obtain res se' where y: "y = (res, se')" by (metis surj_pair)
        obtain s s' where "session_get (e_text E) (e_xml E) (e_sort E) se i q opts s = (Inr (res, se'), s')"
          using x g y by (auto simp: on_site_def split: option.splits prod.splits)
        from session_get_appends [OF this]
        obtain resp where "se' = se\<lparr>se_responses := se_responses se @ [resp]\<rparr>" by blast
        with h x g y show ?thesis by (auto simp: sret_def)
      qed
      with Some x show ?thesis by (metis snd_conv)
    qed
  qed
qed

lemma get_sessions:
  assumes "h_get E sid params sv = (r, sv')"
  shows "sv_sessions sv' = sv_sessions sv \<or> (\<exists>se resp. map_of (sv_sessions sv) sid = Some se \<and>
    sv_sessions sv' = put sid (se\<lparr>se_responses := se_responses se @ [resp]\<rparr>) (sv_sessions sv))"
proof -
  have "sv_sessions (snd (on_site q m sv)) = sv_sessions sv" for q and m :: "(site, json \<times> session) sm"
    using keepsD [OF keeps_sessions_parts(3), of "sv_sessions sv" sv q m] by (simp add: sessions_are_def)
  with get_steps [OF assms] show ?thesis by auto
qed

lemma close_sessions:
  "sv_sessions (snd (h_close_session params sv)) = sv_sessions sv \<or> (\<exists>i. int_param ''sessionId'' params = Inr i \<and>
    sv_sessions (snd (h_close_session params sv)) = filter (\<lambda>p. fst p \<noteq> i) (sv_sessions sv))"
  by (cases "fst (iparam ''sessionId'' params)")
    (auto simp: h_close_session_def with_params_def iparam_fst sthrow_def sret_def)

text \<open>A free session id: the loop ends on one that no session has.\<close>

lemma free_session_id_free:
  "free_session_id rand ss sid n = Some (i, n') \<Longrightarrow> map_of ss i = None"
  unfolding free_session_id_def by (drule while_option_stop) simp

text \<open>The parameters of \<open>openSession\<close>, as the handler reads them.\<close>

definition open_params :: "json \<Rightarrow> (string \<times> string \<times> int \<times> int) outcome" where
  "open_params params =
     ebind (str_param ''subdomain'' params) (\<lambda>subdomain.
     ebind (str_param ''secretKey'' params) (\<lambda>secret_key.
     ebind (int_param ''stagingMode'' params) (\<lambda>staging.
     ebind (int_param ''suggestedSessionId'' params) (\<lambda>sid. Inr (subdomain, secret_key, staging, sid)))))"

lemma h_open_session_eq:
  "h_open_session E params = (case open_params params of
     Inl e \<Rightarrow> sthrow e
   | Inr (subdomain, secret_key, staging, sid) \<Rightarrow>
     sbind (get_site E subdomain secret_key (staging \<noteq> 0)) (\<lambda>r.
     sbind (sread (\<lambda>sv. case free_session_id (e_rand E) (sv_sessions sv) sid (sv_rand_count sv) of
        None \<Rightarrow> Inl Diverges | Some x \<Rightarrow> Inr x)) (\<lambda>(sid', n).
     sbind (smodify (\<lambda>sv. sv\<lparr>sv_rand_count := n,
        sv_sessions := put sid' (session_new r (sv_now sv)) (sv_sessions sv)\<rparr>)) (\<lambda>_.
     sbind (site_at r) (\<lambda>s.
       sret (init_json [jpair ''sessionId'' (JInt sid'), jpair ''generation'' (JInt (get_generation s))]))))))"
proof -
  have "fst (sbind (sparam ''subdomain'') (\<lambda>subdomain. sbind (sparam ''secretKey'') (\<lambda>secret_key.
        sbind (iparam ''stagingMode'') (\<lambda>staging. sbind (iparam ''suggestedSessionId'') (\<lambda>sid.
          sret (subdomain, secret_key, staging, sid))))) params) = open_params params"
    unfolding open_params_def
    by ((subst read_sparam read_iparam, (intro uniform_intro)[1], rule ebind_cong, rule refl)+)
      (simp add: sret_def)
  then show ?thesis
    unfolding h_open_session_def with_params_def by (simp only: split: sum.split)
qed

text \<open>What a site that the map holds was loaded from, and that a session has a site.\<close>

definition site_authentic :: "('c, 'm, 'd, 'n) env \<Rightarrow> string \<Rightarrow> site \<Rightarrow> bool" where
  "site_authentic E key s \<longleftrightarrow> (\<not> e_test_mode E \<longrightarrow>
     site_key (s_subdomain s) (s_staging s) = key \<and>
     (\<exists>keys. e_read_s3 E (s_subdomain s @ ''-secret'') = Inr keys \<and>
        s_secret_keys s = boost_split (e_text E) ('','' @ '';'' @ [CHR 0x0A]) keys))"

definition server_ok :: "('c, 'm, 'd, 'n) env \<Rightarrow> ('c, 'm, 'd, 'n) server \<Rightarrow> bool" where
  "server_ok E sv \<longleftrightarrow> servers_agree E sv sv \<and> distinct (map fst (sv_sessions sv)) \<and>
     (\<forall>key r. map_of (sv_sites sv) key = Some r \<longrightarrow>
        (\<exists>s. map_of (sv_site_store sv) r = Some s \<and> site_authentic E key s)) \<and>
     (\<forall>sid se. map_of (sv_sessions sv) sid = Some se \<longrightarrow> map_of (sv_site_store sv) (se_site se) \<noteq> None)"

lemma server_okD:
  assumes "server_ok E sv"
  shows "servers_agree E sv sv" "distinct (map fst (sv_sessions sv))"
    "map_of (sv_sites sv) key = Some r \<Longrightarrow> \<exists>s. map_of (sv_site_store sv) r = Some s \<and> site_authentic E key s"
    "map_of (sv_sessions sv) sid = Some se \<Longrightarrow> map_of (sv_site_store sv) (se_site se) \<noteq> None"
  using assms by (simp_all add: server_ok_def)

lemma server_ok_caches:
  "server_ok E sv \<Longrightarrow> map_of (sv_site_store sv) r = Some s \<Longrightarrow> caches_ok (e_text E) (e_xml E) s"
  using servers_agreeD(8) [OF server_okD(1), of E sv r] by (simp add: alike_iff)

lemma fresh_ref_fresh: "map_of kvs (fresh_ref kvs) = None"
proof -
  have "m \<le> fold max (map fst kvs) m \<and> (\<forall>r \<in> fst ` set kvs. r \<le> fold max (map fst kvs) m)" for m
  proof (induction kvs arbitrary: m)
    case (Cons p kvs)
    from Cons.IH [of "max (fst p) m"] show ?case by auto
  qed simp
  then have "fst ` set kvs \<subseteq> {.. fold max (map fst kvs) 0}" by blast
  then show ?thesis unfolding fresh_ref_def map_of_eq_None_iff by fastforce
qed

text \<open>Changes that leave sites and sessions alone, and a step on a site.\<close>

lemma server_ok_update:
  assumes "server_ok E sv" and "servers_agree E sv' sv'"
    and "sv_sessions sv' = sv_sessions sv" and "sv_sites sv' = sv_sites sv"
    and "sv_site_store sv' = sv_site_store sv"
  shows "server_ok E sv'"
  using assms by (simp add: server_ok_def)

lemma server_ok_on_memcache [keeps_intro]: "keeps (server_ok E) (on_memcache m)"
proof (rule keepsI)
  fix sv assume ok: "server_ok E sv"
  have "servers_agree E (snd (on_memcache m sv)) (snd (on_memcache m sv))"
    using uniformD [OF uniform_on_memcache server_okD(1) [OF ok]] by blast
  from server_ok_update [OF ok this] show "server_ok E (snd (on_memcache m sv))"
    by (simp add: on_memcache_def split_beta)
qed

lemma server_ok_on_mysql [keeps_intro]: "keeps (server_ok E) (on_mysql m)"
proof (rule keepsI)
  fix sv assume ok: "server_ok E sv"
  have "servers_agree E (snd (on_mysql m sv)) (snd (on_mysql m sv))"
    using uniformD [OF uniform_on_mysql server_okD(1) [OF ok]] by blast
  from server_ok_update [OF ok this] show "server_ok E (snd (on_mysql m sv))"
    by (simp add: on_mysql_def split_beta)
qed

lemma site_authentic_bare: "bare s' = bare s \<Longrightarrow> site_authentic E key s' = site_authentic E key s"
proof -
  assume b: "bare s' = bare s"
  have "s_staging (bare t) = s_staging t" for t by (simp add: bare_def)
  with arg_cong [OF b, of s_staging] have "s_staging s' = s_staging s" by simp
  with bareD(2,3) [OF b] show ?thesis by (simp add: site_authentic_def)
qed

lemma server_ok_on_site:
  assumes "\<And>w. uniform (agree (e_text E) (e_xml E) w) m"
  shows "keeps (server_ok E) (on_site r m)"
proof (rule keepsI)
  fix sv assume ok: "server_ok E sv"
  show "server_ok E (snd (on_site r m sv))"
  proof (cases "map_of (sv_site_store sv) r")
    case None
    with ok show ?thesis by (simp add: on_site_def)
  next
    case (Some s)
    obtain x s' where m: "m s = (x, s')" by (metis surj_pair)
    have b: "bare s' = bare s"
      using uniform_agree_step(2) [OF assms server_ok_caches [OF ok Some]] m by simp
    have "servers_agree E (snd (on_site r m sv)) (snd (on_site r m sv))"
      using uniformD [OF uniform_on_site [OF uniform_alike [OF assms]] server_okD(1) [OF ok]] by blast
    moreover have "\<exists>t. map_of (put r s' (sv_site_store sv)) q = Some t \<and> site_authentic E key t"
      if "map_of (sv_sites sv) key = Some q" for key q
      using server_okD(3) [OF ok that] Some site_authentic_bare [OF b] by (cases "q = r") auto
    moreover have "map_of (put r s' (sv_site_store sv)) (se_site se) \<noteq> None"
      if "map_of (sv_sessions sv) sid = Some se" for sid se
      using server_okD(4) [OF ok that] by simp
    ultimately show ?thesis
      using server_okD(2) [OF ok] Some by (simp add: server_ok_def on_site_def m)
  qed
qed

text \<open>Loading a site, and dropping sites from the map.\<close>

lemma load_site_Inr:
  assumes "load_site E su st xml sv = (Inr r, sv')"
  obtains s where "site_new (e_text E) (e_xml E) (e_test_mode E) (e_read_s3 E) su st xml = Inr s"
    and "r = fresh_ref (sv_site_store sv)"
    and "sv' = sv\<lparr>sv_site_store := (r, s) # sv_site_store sv, sv_sites := put (site_key su st) r (sv_sites sv)\<rparr>"
    and "site_authentic E (site_key su st) s"
  using assms site_new_loaded(2-4)
  by (fastforce simp: load_site_def Let_def site_authentic_def split: sum.splits)

lemma server_ok_load_site [keeps_intro]: "keeps (server_ok E) (load_site E su st xml)"
proof (rule keepsI)
  fix sv assume ok: "server_ok E sv"
  show "server_ok E (snd (load_site E su st xml sv))"
  proof (cases "load_site E su st xml sv")
    case (Pair x sv')
    show ?thesis
    proof (cases x)
      case (Inl e)
      with Pair have "sv' = sv" by (auto simp: load_site_def Let_def split: sum.splits)
      with ok Pair show ?thesis by simp
    next
      case (Inr r)
      with Pair obtain s where r: "r = fresh_ref (sv_site_store sv)"
        and sv': "sv' = sv\<lparr>sv_site_store := (r, s) # sv_site_store sv,
          sv_sites := put (site_key su st) r (sv_sites sv)\<rparr>"
        and s: "site_authentic E (site_key su st) s"
        by (metis load_site_Inr)
      have n: "map_of (sv_site_store sv) r = None" using fresh_ref_fresh r by simp
      have "servers_agree E sv' sv'"
        using uniformD [OF uniform_load_site server_okD(1) [OF ok], of su st xml] Pair by simp
      moreover have "\<exists>t. map_of (sv_site_store sv') q = Some t \<and> site_authentic E key t"
        if "map_of (sv_sites sv') key = Some q" for key q
        using that server_okD(3) [OF ok, of key q] s n
        by (cases "key = site_key su st"; cases "q = r") (auto simp: sv')
      moreover have "map_of (sv_site_store sv') (se_site se) \<noteq> None"
        if "map_of (sv_sessions sv') sid = Some se" for sid se
        using server_okD(4) [OF ok, of sid se] that by (simp add: sv')
      ultimately have "server_ok E sv'"
        using server_okD(2) [OF ok] by (simp add: server_ok_def) (simp add: sv')
      then show ?thesis using Pair by simp
    qed
  qed
qed

lemma keeps_server_ok_reads [keeps_intro]:
  "keeps (server_ok E) (session_subdomain sid)" "keeps (server_ok E) (session_at sid)"
  "keeps (server_ok E) (site_at r)"
  unfolding session_subdomain_def session_at_def site_at_def by (intro keeps_intro)+

lemma server_ok_get_site [keeps_intro]: "keeps (server_ok E) (get_site E su k st)"
  unfolding get_site_def by (intro keeps_intro)

lemma server_ok_sessions:
  assumes "server_ok E sv" and "distinct (map fst ss)"
    and "\<And>sid se. map_of ss sid = Some se \<Longrightarrow> map_of (sv_site_store sv) (se_site se) \<noteq> None"
  shows "server_ok E (sv\<lparr>sv_sessions := ss\<rparr>)"
    and "server_ok E (sv\<lparr>sv_rand_count := n, sv_sessions := ss\<rparr>)"
proof -
  have "servers_agree E (sv\<lparr>sv_sessions := ss\<rparr>) (sv\<lparr>sv_sessions := ss\<rparr>)"
    "servers_agree E (sv\<lparr>sv_rand_count := n, sv_sessions := ss\<rparr>) (sv\<lparr>sv_rand_count := n, sv_sessions := ss\<rparr>)"
    using server_okD(1) [OF assms(1)] by (simp_all add: servers_agree_def)
  with assms show "server_ok E (sv\<lparr>sv_sessions := ss\<rparr>)"
    "server_ok E (sv\<lparr>sv_rand_count := n, sv_sessions := ss\<rparr>)"
    by (simp_all add: server_ok_def)
qed

lemma distinct_put: "distinct (map fst kvs) \<Longrightarrow> distinct (map fst (put k v kvs))"
proof (induction k v kvs rule: put.induct)
  case (2 k v k' v' kvs)
  moreover have "fst ` set (put k v kvs) = insert k (fst ` set kvs)"
    by (induction k v kvs rule: put.induct) auto
  ultimately show ?case by auto
qed simp

lemma distinct_filter_keys: "distinct (map fst kvs) \<Longrightarrow> distinct (map fst (filter P kvs))"
  by (induction kvs) auto

section \<open>Opening a session\<close>

text \<open>What \<open>getSite\<close> returns is a site of the map under the key asked for, and its secret keys have the
  one presented.\<close>

definition holds_site ::
  "('c, 'm, 'd, 'n) env \<Rightarrow> string \<Rightarrow> string \<Rightarrow> ('c, 'm, 'd, 'n) server \<Rightarrow> nat \<Rightarrow> bool" where
  "holds_site E key secret_key sv r \<longleftrightarrow> (\<exists>s. map_of (sv_site_store sv) r = Some s \<and> site_authentic E key s \<and>
     (\<not> e_test_mode E \<longrightarrow> secret_key \<in> set (s_secret_keys s)))"

lemma validate_secret_key_Inr:
  "validate_secret_key t s k = Inr () \<longleftrightarrow> t \<or> k \<in> set (s_secret_keys s)"
  by (auto simp: validate_secret_key_def list_ex_iff)

lemma get_site_Inr:
  assumes "server_ok E sv" and "get_site E su k st sv = (Inr r, sv')"
  shows "holds_site E (site_key su st) k sv' r"
proof -
  let ?key = "site_key su st"
  show ?thesis
  proof (cases "lookup_site E ?key k sv")
    case (Inl e)
    with assms(2) show ?thesis by (simp add: get_site_def sbind_sread)
  next
    case (Inr known)
    show ?thesis
    proof (cases known)
      case (Some q)
      with assms(2) Inr have "q = r" "sv' = sv" by (simp_all add: get_site_def sbind_sread sret_def)
      with Inr Some obtain s where m: "map_of (sv_sites sv) ?key = Some r"
        and s: "map_of (sv_site_store sv) r = Some s"
        and v: "validate_secret_key (e_test_mode E) s k = Inr ()"
        by (auto simp: lookup_site_def ebind_eq_Inr_iff split: option.splits)
      from server_okD(3) [OF assms(1) m] s v \<open>sv' = sv\<close> show ?thesis
        by (auto simp: holds_site_def validate_secret_key_Inr)
    next
      case None
      with assms(2) Inr obtain xml s where l: "load_site E su st xml sv = (Inr r, sv')"
        and s: "map_of (sv_site_store sv') r = Some s"
        and v: "validate_secret_key (e_test_mode E) s k = Inr ()"
        by (auto simp: get_site_def sbind_eq_Inr_iff site_at_def sret_def split: option.splits)
      obtain s' where "map_of (sv_site_store sv') r = Some s'" and "site_authentic E ?key s'"
        by (rule load_site_Inr [OF l]) simp
      with s have "site_authentic E ?key s" by simp
      with s v show ?thesis by (auto simp: holds_site_def validate_secret_key_Inr)
    qed
  qed
qed

lemma open_session_Inr:
  assumes "server_ok E sv" and "h_open_session E params sv = (Inr reply, sv')"
  obtains su k st sid0 sid n r s sv1 where "open_params params = Inr (su, k, st, sid0)"
    and "get_site E su k (st \<noteq> 0) sv = (Inr r, sv1)" and "server_ok E sv1"
    and "map_of (sv_sessions sv) sid = None" and "sv_sessions sv1 = sv_sessions sv"
    and "sv' = sv1\<lparr>sv_rand_count := n, sv_sessions := put sid (session_new r (sv_now sv1)) (sv_sessions sv)\<rparr>"
    and "map_of (sv_site_store sv1) r = Some s" and "holds_site E (site_key su (st \<noteq> 0)) k sv1 r"
    and "reply = init_json [jpair ''sessionId'' (JInt sid), jpair ''generation'' (JInt (get_generation s))]"
proof -
  obtain su k st sid0 where p: "open_params params = Inr (su, k, st, sid0)"
    using assms(2) by (cases "open_params params") (auto simp: h_open_session_eq sthrow_def)
  obtain x sv1 where g: "get_site E su k (st \<noteq> 0) sv = (x, sv1)" by (metis surj_pair)
  obtain r where x: "x = Inr r" using assms(2) p g by (cases x) (simp_all add: h_open_session_eq)
  note g = g [unfolded x]
  have ok: "server_ok E sv1" using keepsD [OF server_ok_get_site assms(1)] g by (metis snd_conv)
  have ss: "sv_sessions sv1 = sv_sessions sv"
    using keepsD [OF keeps_sessions_get_site [of "sv_sessions sv"], of sv E su k "st \<noteq> 0"] g
    by (simp add: sessions_are_def)
  have h: "holds_site E (site_key su (st \<noteq> 0)) k sv1 r" by (rule get_site_Inr [OF assms(1) g])
  then obtain s where s: "map_of (sv_site_store sv1) r = Some s" by (auto simp: holds_site_def)
  obtain sid n where f: "free_session_id (e_rand E) (sv_sessions sv1) sid0 (sv_rand_count sv1) = Some (sid, n)"
    using assms(2) p g by (auto simp: h_open_session_eq sbind_sread split: option.splits)
  show ?thesis
    by (rule that [OF p g ok _ ss _ s h])
      (use assms(2) p g f s ss free_session_id_free [OF f] in
        \<open>auto simp: h_open_session_eq sbind_sread site_at_def sret_def\<close>)
qed

text \<open>An \<open>openSession\<close> that does not answer leaves the sessions as they were.\<close>

lemma open_session_Inl:
  assumes "server_ok E sv" and "h_open_session E params sv = (Inl e, sv')"
  shows "sv_sessions sv' = sv_sessions sv"
proof (cases "open_params params")
  case (Inl e)
  with assms(2) show ?thesis by (auto simp: h_open_session_eq sthrow_def)
next
  case (Inr p)
  obtain su k st sid0 where p: "p = (su, k, st, sid0)" by (metis prod_cases4)
  obtain x sv1 where g: "get_site E su k (st \<noteq> 0) sv = (x, sv1)" by (metis surj_pair)
  have ss: "sv_sessions sv1 = sv_sessions sv"
    using keepsD [OF keeps_sessions_get_site [of "sv_sessions sv"], of sv E su k "st \<noteq> 0"] g
    by (simp add: sessions_are_def)
  show ?thesis
  proof (cases x)
    case (Inl e)
    with assms(2) Inr p g ss show ?thesis by (simp add: h_open_session_eq)
  next
    case r: (Inr r)
    from get_site_Inr [OF assms(1) g [unfolded r]] obtain s where "map_of (sv_site_store sv1) r = Some s"
      by (auto simp: holds_site_def)
    with assms(2) Inr p g r ss show ?thesis
      by (auto simp: h_open_session_eq sbind_sread site_at_def sret_def split: option.splits)
  qed
qed

section \<open>The invariant holds throughout\<close>

lemma server_ok_h_open_session: "keeps (server_ok E) (h_open_session E params)"
proof (rule keepsI)
  fix sv assume ok: "server_ok E sv"
  obtain x sv' where h: "h_open_session E params sv = (x, sv')" by (metis surj_pair)
  have "server_ok E sv'"
  proof (cases "\<exists>reply. x = Inr reply")
    case True
    then obtain reply where x: "x = Inr reply" by blast
    show ?thesis
    proof (rule open_session_Inr [OF ok h [unfolded x]])
      fix su k st sid0 sid n r s sv1
      assume 1: "server_ok E sv1" "sv_sessions sv1 = sv_sessions sv" "map_of (sv_site_store sv1) r = Some s"
        and sv': "sv' = sv1\<lparr>sv_rand_count := n, sv_sessions := put sid (session_new r (sv_now sv1)) (sv_sessions sv)\<rparr>"
      show ?thesis
        unfolding sv'
      proof (rule server_ok_sessions(2) [OF 1(1)])
        show "distinct (map fst (put sid (session_new r (sv_now sv1)) (sv_sessions sv)))"
          by (rule distinct_put) (rule server_okD(2) [OF ok])
        show "map_of (sv_site_store sv1) (se_site se) \<noteq> None"
          if "map_of (put sid (session_new r (sv_now sv1)) (sv_sessions sv)) i = Some se" for i se
          using that 1(3) server_okD(4) [OF 1(1), of i se]
          by (cases "i = sid") (auto simp: session_new_def 1(2))
      qed
    qed
  next
    case False
    then obtain e where x: "x = Inl e" by (cases x) auto
    show ?thesis
    proof (cases "open_params params")
      case (Inl e)
      with h ok show ?thesis by (auto simp: h_open_session_eq sthrow_def)
    next
      case (Inr p)
      obtain su k st sid0 where p: "p = (su, k, st, sid0)" by (metis prod_cases4)
      obtain y sv1 where g: "get_site E su k (st \<noteq> 0) sv = (y, sv1)" by (metis surj_pair)
      have ok1: "server_ok E sv1" using keepsD [OF server_ok_get_site ok] g by (metis snd_conv)
      show ?thesis
      proof (cases y)
        case (Inl e)
        with h Inr p g ok1 show ?thesis by (simp add: h_open_session_eq)
      next
        case r: (Inr r)
        from get_site_Inr [OF ok g [unfolded r]] obtain s where "map_of (sv_site_store sv1) r = Some s"
          by (auto simp: holds_site_def)
        with h x Inr p g r ok1 show ?thesis
          by (auto simp: h_open_session_eq sbind_sread site_at_def sret_def split: option.splits)
      qed
    qed
  qed
  then show "server_ok E (snd (h_open_session E params sv))" using h by simp
qed

lemma server_ok_h_close_session: "keeps (server_ok E) (h_close_session params)"
proof -
  have "server_ok E (sv\<lparr>sv_sessions := filter (\<lambda>p. fst p \<noteq> sid) (sv_sessions sv)\<rparr>)" if ok: "server_ok E sv" for sid sv
    by (rule server_ok_sessions(1) [OF ok distinct_filter_keys [OF server_okD(2) [OF ok]]])
      (use server_okD(4) [OF ok] in \<open>simp add: map_of_filter_neq split: if_splits\<close>)
  then have "keeps (server_ok E) (smodify (\<lambda>sv. if map_of (sv_sessions sv) sid \<noteq> None
      then sv\<lparr>sv_sessions := filter (\<lambda>p. fst p \<noteq> sid) (sv_sessions sv)\<rparr> else sv))" for sid
    by (intro keeps_smodify) simp
  then show ?thesis unfolding h_close_session_def by (intro keeps_intro)
qed

lemma server_ok_h_get:
  assumes "sort_contract (e_sort E)"
  shows "keeps (server_ok E) (h_get E sid params)"
proof (rule keepsI)
  fix sv assume ok: "server_ok E sv"
  obtain x sv' where h: "h_get E sid params sv = (x, sv')" by (metis surj_pair)
  have mid: "server_ok E (snd (on_site (se_site se) (session_get (e_text E) (e_xml E) (e_sort E) se i q opts) sv))"
    for se i q opts
    by (rule keepsD [OF server_ok_on_site [OF uniform_session_get [OF assms]] ok])
  have ss: "sv_sessions (snd (on_site q m sv)) = sv_sessions sv" for q and m :: "(site, json \<times> session) sm"
    using keepsD [OF keeps_sessions_parts(3), of "sv_sessions sv" sv q m] by (simp add: sessions_are_def)
  consider "sv' = sv" | se q i opts mid where "map_of (sv_sessions sv) sid = Some se"
    "mid = snd (on_site (se_site se) (session_get (e_text E) (e_xml E) (e_sort E) se i q opts) sv)"
    "sv' = mid \<or> (\<exists>resp. sv' = mid\<lparr>sv_sessions := put sid (se\<lparr>se_responses := se_responses se @ [resp]\<rparr>) (sv_sessions mid)\<rparr>)"
    using get_steps [OF h] by blast
  then have "server_ok E sv'"
  proof cases
    case 2
    note m = mid [of se i q opts, folded 2(2)]
    have se: "map_of (sv_sessions mid) sid = Some se" using 2(1,2) ss by simp
    have "server_ok E (mid\<lparr>sv_sessions := put sid (se\<lparr>se_responses := rs\<rparr>) (sv_sessions mid)\<rparr>)" for rs
      by (rule server_ok_sessions(1) [OF m distinct_put [OF server_okD(2) [OF m]]])
        (use server_okD(4) [OF m] se in \<open>auto split: if_splits\<close>)
    with 2(3) m show ?thesis by auto
  qed (simp add: ok)
  with h show "server_ok E (snd (h_get E sid params sv))" by simp
qed

lemma server_ok_handler:
  assumes "sort_contract (e_sort E)"
  shows "keeps (server_ok E) (handler E ep sid params)"
proof -
  have "keeps (server_ok E) (h_ping params)" "keeps (server_ok E) (h_create_info E sid params)"
    "keeps (server_ok E) (h_data sid params)" "keeps (server_ok E) (h_structure sid params)"
    "keeps (server_ok E) (h_short_term_get E sid params)" "keeps (server_ok E) (h_short_term_set E sid params)"
    "keeps (server_ok E) (h_short_term_delete E sid params)" "keeps (server_ok E) (h_session_cache_get E sid params)"
    "keeps (server_ok E) (h_session_cache_set E sid params)" "keeps (server_ok E) (h_session_cache_delete E sid params)"
    "keeps (server_ok E) (h_long_term_get E sid params)" "keeps (server_ok E) (h_long_term_set E sid params)"
    "keeps (server_ok E) (h_long_term_delete E sid params)" "keeps (server_ok E) (h_long_term_empty E sid params)"
    "keeps (server_ok E) (h_sweeper_info E sid params)" "keeps (server_ok E) (h_sitewide_lock E sid params)"
    "keeps (server_ok E) (h_sitewide_unlock E sid params)"
    unfolding h_ping_def h_create_info_def h_data_def h_structure_def h_short_term_get_def h_short_term_set_def
      h_short_term_delete_def h_session_cache_get_def h_session_cache_set_def h_session_cache_delete_def
      h_long_term_get_def h_long_term_set_def h_long_term_delete_def h_long_term_empty_def h_sweeper_info_def
      h_sitewide_lock_def h_sitewide_unlock_def
    by (intro keeps_intro server_ok_on_site uniform_session)+
  with server_ok_h_open_session server_ok_h_close_session server_ok_h_get [OF assms] show ?thesis
    by (cases ep) simp_all
qed

text \<open>The server after a request is the server after its handler, or the one before, with another log.\<close>

definition request_params :: "num_lib \<Rightarrow> string \<Rightarrow> json outcome" where
  "request_params N body = (if 0 < length body then json_parse N body else Inr (init_json []))"

lemma handle_cases:
  obtains lg where "snd (handle N E ep body t0 t1 sv) = sv\<lparr>sv_query_log := lg\<rparr>"
  | params sid lg lg' where "request_params N body = Inr params"
      "requires_session ep \<Longrightarrow> \<exists>su. find_session params sv = Inr (FoundSession sid su)"
      "snd (handle N E ep body t0 t1 sv) =
         (snd (handler E ep sid params (sv\<lparr>sv_query_log := lg\<rparr>)))\<lparr>sv_query_log := lg'\<rparr>"
proof -
  have same: "sv\<lparr>sv_query_log := sv_query_log sv\<rparr> = sv" by simp
  obtain entry lg where e: "entry_new (sv_query_log sv) = (entry, lg)" by (metis surj_pair)
  define sv1 where "sv1 = sv\<lparr>sv_query_log := lg\<rparr>"
  have rh: "snd (run_handler (json_dump N) E ep sid params sv1) = snd (handler E ep sid params sv1)" for sid params
    by (cases "handler E ep sid params sv1"; cases "fst (handler E ep sid params sv1)")
      (auto simp: run_handler_def sbind_sread sret_def split: sum.split)
  have sv1: "sv_sessions sv1 = sv_sessions sv" "sv_site_store sv1 = sv_site_store sv" by (simp_all add: sv1_def)
  have f: "find_session params sv1 = find_session params sv" for params
    unfolding find_session_def sv1 ..
  show ?thesis
  proof (cases "request_params N body")
    case (Inl x)
    then show ?thesis
      using that(1) [of "sv_query_log sv"] unfolding same by (simp add: handle_def process_def request_params_def)
  next
    case (Inr params)
    let ?m = "method_call lg t0 (endpoint_name ep) entry"
    obtain r x t where s: "serve (json_dump N) E ep params ?m sv1 = ((r, x), t)" by (metis surj_pair)
    have h: "snd (handle N E ep body t0 t1 sv) = t\<lparr>sv_query_log := entry_destroy t1 x (sv_query_log t)\<rparr>"
      using Inr e s by (simp add: handle_def process_def request_params_def sv1_def)
    consider "t = sv1" | sid where "t = snd (handler E ep sid params sv1)"
      "requires_session ep \<Longrightarrow> \<exists>su. find_session params sv = Inr (FoundSession sid su)"
      using s rh f by (auto simp: serve_def split: if_splits sum.splits session_lookup.splits prod.splits)
        (metis snd_conv)+
    then show ?thesis
    proof cases
      case 1
      with h that(1) show ?thesis by (simp add: sv1_def)
    next
      case (2 sid)
      then show ?thesis using h by (intro that(2) [OF Inr, where sid = sid and lg = lg]) (auto simp: sv1_def)
    qed
  qed
qed

lemma server_ok_log: "server_ok E (sv\<lparr>sv_query_log := lg\<rparr>) = server_ok E sv"
proof -
  have "server_ok E (sv\<lparr>sv_query_log := lg\<rparr>)" if "server_ok E sv" for sv :: "('a, 'b, 'c, 'd) server" and lg
    using server_ok_update [OF that servers_agree_log [OF server_okD(1) [OF that]]] by simp
  from this [of sv lg] this [of "sv\<lparr>sv_query_log := lg\<rparr>" "sv_query_log sv"] show ?thesis by auto
qed

lemma map_of_reap:
  "distinct (map fst ss) \<Longrightarrow> map_of (reap_sessions now ss) sid =
     (case map_of ss sid of None \<Rightarrow> None
      | Some se \<Rightarrow> if now - se_created_at se > SESSION_REAP_TIME then None else Some se)"
proof (induction now ss rule: reap_sessions.induct)
  case (2 now i se ss)
  then have "map_of ss i = None" by (simp add: map_of_eq_None_iff)
  with 2 show ?case by (auto split: option.split)
qed simp

lemma distinct_reap: "distinct (map fst ss) \<Longrightarrow> distinct (map fst (reap_sessions now ss))"
proof -
  have "fst ` set (reap_sessions now ss) \<subseteq> fst ` set ss" for ss
    by (induction now ss rule: reap_sessions.induct) auto
  then show "distinct (map fst ss) \<Longrightarrow> distinct (map fst (reap_sessions now ss))"
    by (induction now ss rule: reap_sessions.induct) auto
qed

lemma server_ok_react:
  assumes "sort_contract (e_sort E)" and ok: "server_ok E sv"
  shows "server_ok E (snd (react N E ev sv))"
proof (cases ev)
  case (Request ep body t0 t1)
  have "server_ok E (snd (handle N E ep body t0 t1 sv))"
  proof (cases rule: handle_cases [of N E ep body t0 t1 sv])
    case (1 lg)
    with ok show ?thesis by (simp add: server_ok_log)
  next
    case (2 params sid lg lg')
    have "server_ok E (snd (handler E ep sid params (sv\<lparr>sv_query_log := lg\<rparr>)))"
      by (rule keepsD [OF server_ok_handler [OF assms(1)]]) (simp add: server_ok_log ok)
    with 2(3) show ?thesis by (simp add: server_ok_log)
  qed
  with Request show ?thesis by (simp add: split_beta)
next
  case Reap
  let ?sv = "sv\<lparr>sv_sessions := reap_sessions (sv_now sv) (sv_sessions sv)\<rparr>"
  have "server_ok E ?sv"
    by (rule server_ok_sessions(1) [OF ok distinct_reap [OF server_okD(2) [OF ok]]])
      (use server_okD(4) [OF ok] in \<open>auto simp: map_of_reap [OF server_okD(2) [OF ok]] split: option.splits if_splits\<close>)
  from keepsD [OF server_ok_on_mysql this] Reap show ?thesis by (simp add: reaper_step_def)
next
  case (Reload su)
  have sub: "map_of (sv_sites (reload_site su sv)) key = Some r \<Longrightarrow> map_of (sv_sites sv) key = Some r" for key r
    by (simp add: reload_site_sites split: if_splits)
  have "servers_agree E (reload_site su sv) (reload_site su sv)"
    using react_agree [OF assms(1) server_okD(1) [OF ok], of N "Reload su"] by simp
  moreover have "sv_sessions (reload_site su sv) = sv_sessions sv"
    "sv_site_store (reload_site su sv) = sv_site_store sv"
    by (simp_all add: reload_site_def Let_def)
  ultimately show ?thesis
    using server_okD(2-4) [OF ok] sub Reload by (simp add: server_ok_def)
next
  case (Clock t)
  have "servers_agree E (sv\<lparr>sv_now := t\<rparr>) (sv\<lparr>sv_now := t\<rparr>)"
    using react_agree [OF assms(1) server_okD(1) [OF ok], of N "Clock t"] by simp
  from server_ok_update [OF ok this] Clock show ?thesis by simp
qed

lemma server_ok_run:
  assumes "sort_contract (e_sort E)"
  shows "server_ok E sv \<Longrightarrow> server_ok E (after N E evs sv)"
  by (induction evs arbitrary: sv) (simp_all add: server_ok_react [OF assms])

lemma server_ok_new: "server_ok E (server_new lg mc my now)"
  by (simp add: server_ok_def servers_agree_new) (simp add: server_new_def)

lemmas server_ok_after = server_ok_run [OF _ server_ok_new]

section \<open>Properties\<close>

text \<open>(C1) Through any run of the server, every session has its site, session ids are distinct, every
  site in the map was loaded under its key with the secret keys of its own secret file, and the caches
  of all sites are coherent.\<close>

theorem server_invariant:
  assumes "sort_contract (e_sort E)"
  shows "server_ok E (after N E evs (server_new lg mc my now))"
  using server_ok_after [OF assms] .

theorem server_invariant_witness:
  "\<forall>N E lg mc my now b. server_ok (E\<lparr>e_sort := sort_ref\<rparr>)
     (after N (E\<lparr>e_sort := sort_ref\<rparr>) [Request OpenSession b 0 1, Request Get b 1 2, Clock 70, Reap]
        (server_new lg mc my now))"
  by (intro allI server_invariant) (simp add: sort_ref_contract)

text \<open>(C2) Outside the test mode \<open>openSession\<close> gives a session only to a caller whose secret key is
  among the keys of the secret file of the site it gets, under an id that no session had; the other
  sessions are untouched.  When it throws, no session is opened.\<close>

theorem open_session_authorised:
  assumes "server_ok E sv" and "\<not> e_test_mode E" and "handler E OpenSession 0 params sv = (res, sv')"
  shows "case res of
      Inl e \<Rightarrow> sv_sessions sv' = sv_sessions sv
    | Inr reply \<Rightarrow> (\<exists>su k st sid0 sid r s keys. open_params params = Inr (su, k, st, sid0) \<and>
        map_of (sv_sessions sv) sid = None \<and>
        sv_sessions sv' = put sid (session_new r (sv_now sv')) (sv_sessions sv) \<and>
        map_of (sv_site_store sv') r = Some s \<and>
        site_key (s_subdomain s) (s_staging s) = site_key su (st \<noteq> 0) \<and>
        e_read_s3 E (s_subdomain s @ ''-secret'') = Inr keys \<and>
        k \<in> set (boost_split (e_text E) ('','' @ '';'' @ [CHR 0x0A]) keys) \<and>
        reply = init_json [jpair ''sessionId'' (JInt sid), jpair ''generation'' (JInt (get_generation s))])"
proof (cases res)
  case (Inl e)
  from open_session_Inl [OF assms(1), of params] assms(3) Inl show ?thesis by simp
next
  case (Inr reply)
  have h: "h_open_session E params sv = (Inr reply, sv')" using assms(3) Inr by simp
  show ?thesis
    by (rule open_session_Inr [OF assms(1) h], unfold Inr)
      (use assms(2) in \<open>force simp: holds_site_def site_authentic_def\<close>)
qed

definition demo_env :: "('c, 'm, 'd, 'n) env \<Rightarrow> ('c, 'm, 'd, 'n) env" where
  "demo_env E = E\<lparr>e_text := text_ref, e_test_mode := False, e_read_s3 := (\<lambda>_. Inr ''k1,k2''), e_sort := sort_ref\<rparr>"

definition demo_server ::
  "query_log \<Rightarrow> 'c pool \<times> 'm \<Rightarrow> 'd pool \<times> 'n \<Rightarrow> ('c, 'm, 'd, 'n) server" where
  "demo_server lg mc my = (server_new lg mc my 100)\<lparr>sv_sessions := [(1, session_new 0 90)],
     sv_sites := [(''a'', 0)], sv_site_store := [(0, site_empty ''a'' False [''k1'', ''k2''])]\<rparr>"

lemma demo_server_ok: "server_ok (demo_env E) (demo_server lg mc my)"
proof -
  have "caches_ok T X (site_empty su st ks)" for T X su st ks
    by (rule caches_ok_fresh) (simp_all add: site_empty_def)
  then have "servers_agree (demo_env E) (demo_server lg mc my) (demo_server lg mc my)"
    by (simp add: servers_agree_def sites_agree_def alike_iff demo_server_def)
  moreover have "split_at_char (CHR '','') ''k1,k2'' = [''k1'', ''k2'']" by code_simp
  ultimately show ?thesis
    by (simp add: server_ok_def) (simp add: demo_server_def demo_env_def session_new_def site_authentic_def
        site_empty_def site_key_def text_ref_def)
qed

theorem open_session_authorised_witness:
  "\<forall>(E :: ('c, 'm, 'd, 'n) env) lg mc my. \<exists>sid r. sv_sessions (snd (handler (demo_env E) OpenSession 0
     (JObject [(''secretKey'', JString ''k2''), (''subdomain'', JString ''a''), (''suggestedSessionId'', JUnsigned 7)])
     (demo_server lg mc my))) = put sid (session_new r 100) [(1, session_new 0 90)]"
proof (intro allI)
  fix E :: "('c, 'm, 'd, 'n) env" and lg mc my
  let ?params = "JObject [(''secretKey'', JString ''k2''), (''subdomain'', JString ''a''),
    (''suggestedSessionId'', JUnsigned 7)]"
  have p: "open_params ?params = Inr (''a'', ''k2'', 0, 7)" by code_simp
  have f: "free_session_id rand [(1, session_new 0 90)] 7 n = Some (7, n)" for rand n
    unfolding free_session_id_def by (subst while_option_unfold) simp
  obtain x sv' where h: "handler (demo_env E) OpenSession 0 ?params (demo_server lg mc my) = (x, sv')"
    by (metis surj_pair)
  have "x = Inr (init_json [jpair ''sessionId'' (JInt 7), jpair ''generation'' (JInt (- 1))])" "sv_now sv' = 100"
    using h f unfolding handler.simps h_open_session_eq p
    by (auto simp: get_site_def lookup_site_def demo_server_def demo_env_def sbind_sread site_at_def
        validate_secret_key_def site_empty_def site_key_def server_new_def sret_def get_generation_def)
  then show "\<exists>sid r. sv_sessions (snd (handler (demo_env E) OpenSession 0 ?params (demo_server lg mc my))) =
      put sid (session_new r 100) [(1, session_new 0 90)]"
    using open_session_authorised [OF demo_server_ok _ h] h
    by (auto simp: demo_env_def demo_server_def split: if_splits)
qed

text \<open>The session a request names.\<close>

definition names_session :: "num_lib \<Rightarrow> string \<Rightarrow> int \<Rightarrow> bool" where
  "names_session N body sid \<longleftrightarrow>
     (\<exists>params. request_params N body = Inr params \<and> int_param ''sessionId'' params = Inr sid)"

lemma found_session_named:
  "find_session params sv = Inr (FoundSession sid su) \<Longrightarrow> int_param ''sessionId'' params = Inr sid"
  by (auto simp: find_session_def json_index_param int_param_def ebind_eq_Inr_iff split: if_splits option.splits)

lemma handler_sessions:
  assumes "server_ok E sv" and "map_of (sv_sessions sv) i = Some se" and "handler E ep sid params sv = (x, sv')"
  shows "map_of (sv_sessions sv') i = Some se \<or>
    (ep = Get \<and> i = sid \<and> (\<exists>resp. map_of (sv_sessions sv') i = Some (se\<lparr>se_responses := se_responses se @ [resp]\<rparr>))) \<or>
    (ep = CloseSession \<and> int_param ''sessionId'' params = Inr i \<and> map_of (sv_sessions sv') i = None)"
proof -
  consider "ep = OpenSession" | "ep = CloseSession" | "ep = Get" | "ep \<noteq> OpenSession" "ep \<noteq> CloseSession" "ep \<noteq> Get"
    by blast
  then show ?thesis
  proof cases
    case 1
    with assms(3) have h: "h_open_session E params sv = (x, sv')" by simp
    show ?thesis
    proof (cases x)
      case (Inl e)
      from open_session_Inl [OF assms(1) h [unfolded Inl]] assms(2) show ?thesis by simp
    next
      case (Inr reply)
      show ?thesis
        by (rule open_session_Inr [OF assms(1) h [unfolded Inr]]) (use assms(2) in auto)
    qed
  next
    case 2
    with close_sessions [of params sv] assms(2,3) show ?thesis
      by (auto simp: map_of_filter_neq split: if_splits)
  next
    case 3
    with assms(3) have h: "h_get E sid params sv = (x, sv')" by simp
    consider "sv_sessions sv' = sv_sessions sv" | se' resp where "map_of (sv_sessions sv) sid = Some se'"
      "sv_sessions sv' = put sid (se'\<lparr>se_responses := se_responses se' @ [resp]\<rparr>) (sv_sessions sv)"
      using get_sessions [OF h] by blast
    then show ?thesis
    proof cases
      case 1
      with assms(2) show ?thesis by simp
    next
      case (2 se' resp)
      show ?thesis
      proof (cases "i = sid")
        case True
        with 2 assms(2) have "map_of (sv_sessions sv') i = Some (se\<lparr>se_responses := se_responses se @ [resp]\<rparr>)"
          by simp
        with True \<open>ep = Get\<close> show ?thesis by blast
      next
        case False
        with 2 assms(2) show ?thesis by simp
      qed
    qed
  next
    case 4
    from keepsD [OF keeps_sessions_handler [OF this], of "sv_sessions sv" sv E sid params] assms(2,3)
    show ?thesis by (simp add: sessions_are_def)
  qed
qed

text \<open>(C3) A session is touched by nobody but the requests that name it: whatever happens on the
  server, it stays as it is, except that a \<open>get\<close> that names it may append one response, a
  \<open>closeSession\<close> that names it may remove it, and the reaper removes it when it is older than 62
  seconds, used or not.\<close>

theorem session_isolation:
  assumes "server_ok E sv" and "map_of (sv_sessions sv) i = Some se"
  shows "(case map_of (sv_sessions (snd (react N E ev sv))) i of
      None \<Rightarrow> (\<exists>body t0 t1. ev = Request CloseSession body t0 t1 \<and> names_session N body i) \<or>
        (ev = Reap \<and> sv_now sv - se_created_at se > SESSION_REAP_TIME)
    | Some se' \<Rightarrow> se' = se \<or> (\<exists>body t0 t1 resp. ev = Request Get body t0 t1 \<and> names_session N body i \<and>
        se' = se\<lparr>se_responses := se_responses se @ [resp]\<rparr>))"
proof (cases ev)
  case (Request ep body t0 t1)
  show ?thesis
  proof (cases rule: handle_cases [of N E ep body t0 t1 sv])
    case (1 lg)
    with Request assms(2) show ?thesis by (simp add: split_beta)
  next
    case (2 params sid lg lg')
    have ok: "server_ok E (sv\<lparr>sv_query_log := lg\<rparr>)" using assms(1) by (simp add: server_ok_log)
    obtain x t where h: "handler E ep sid params (sv\<lparr>sv_query_log := lg\<rparr>) = (x, t)" by (metis surj_pair)
    have named: "names_session N body sid" if "requires_session ep"
      using 2(1) 2(2) [OF that] found_session_named by (auto simp: names_session_def)
    have closed: "names_session N body i" if "int_param ''sessionId'' params = Inr i"
      using 2(1) that by (auto simp: names_session_def)
    from handler_sessions [OF ok _ h, of i se] assms(2) have
      "map_of (sv_sessions t) i = Some se \<or>
       (ep = Get \<and> i = sid \<and> (\<exists>resp. map_of (sv_sessions t) i = Some (se\<lparr>se_responses := se_responses se @ [resp]\<rparr>))) \<or>
       (ep = CloseSession \<and> int_param ''sessionId'' params = Inr i \<and> map_of (sv_sessions t) i = None)"
      by simp
    moreover have "map_of (sv_sessions (snd (react N E ev sv))) i = map_of (sv_sessions t) i"
      using Request 2(3) h by (simp add: split_beta)
    ultimately show ?thesis
      using Request named closed by (auto simp: requires_session_def)
  qed
next
  case Reap
  have "sv_sessions (snd (react N E ev sv)) = reap_sessions (sv_now sv) (sv_sessions sv)"
    using Reap by (simp add: reaper_step_def on_mysql_def split: prod.split)
  then show ?thesis
    using Reap assms(2) map_of_reap [OF server_okD(2) [OF assms(1)]] by simp
next
  case (Reload su)
  with assms(2) show ?thesis by (simp add: reload_site_def Let_def)
qed (use assms(2) in simp)

theorem session_isolation_witness:
  "\<forall>N (E :: ('c, 'm, 'd, 'n) env) lg mc my b.
     map_of (sv_sessions (snd (react N (demo_env E) (Request OpenSession b 0 1) (demo_server lg mc my)))) 1 =
     Some (session_new 0 90)"
proof (intro allI)
  fix N and E :: "('c, 'm, 'd, 'n) env" and lg mc my b
  have "map_of (sv_sessions (demo_server lg mc my :: ('c, 'm, 'd, 'n) server)) 1 = Some (session_new 0 90)"
    by (simp add: demo_server_def)
  from session_isolation [OF demo_server_ok [of E] this,
      where ev = "Request OpenSession b 0 1" and N = N]
  show "map_of (sv_sessions (snd (react N (demo_env E) (Request OpenSession b 0 1) (demo_server lg mc my)))) 1 =
      Some (session_new 0 90)"
    by (simp split: option.splits)
qed

text \<open>(C17) The reaper ends sessions 62 seconds after they were opened, however recently they were
  used: after it has run, a request with the id of an older session is answered 400, ``invalid session
  ID'', and changes nothing but the log.\<close>

theorem expired_session_refused:
  assumes "server_ok E sv" and "map_of (sv_sessions sv) sid = Some se"
    and "sv_now sv - se_created_at se > SESSION_REAP_TIME"
    and "requires_session ep" and "request_params N body = Inr (JObject kvs)"
    and "map_of kvs ''sessionId'' = Some v" and "get_int32 v = Inr sid"
  shows "\<exists>lg. handle N E ep body t0 t1 (snd (react N E Reap sv)) =
    (Inr \<lparr>http_status = 400, http_body = error_body ''invalid session ID''\<rparr>,
     (snd (react N E Reap sv))\<lparr>sv_query_log := lg\<rparr>)"
proof -
  let ?sv = "snd (react N E Reap sv)"
  have "sv_sessions ?sv = reap_sessions (sv_now sv) (sv_sessions sv)"
    by (simp add: reaper_step_def on_mysql_def split: prod.split)
  then have none: "map_of (sv_sessions ?sv) sid = None"
    using assms(2,3) map_of_reap [OF server_okD(2) [OF assms(1)]] by simp
  have "\<not> is_null v" using assms(7) by (cases v) simp_all
  then have "find_session (JObject kvs) (?sv\<lparr>sv_query_log := lg\<rparr>) = Inr InvalidId" for lg
    using assms(6,7) none by (simp add: find_session_def json_index_def)
  then show ?thesis
    using assms(4,5)
    by (auto simp: handle_def process_def request_params_def serve_def catch_all_def split: prod.split)
qed

definition demo_body :: string where
  "demo_body = ''{'' @ dquote @ ''sessionId'' @ dquote @ '':1}''"

lemma demo_body_params: "request_params N demo_body = Inr (JObject [(''sessionId'', JUnsigned 1)])"
  by code_simp

theorem expired_session_refused_witness:
  "\<forall>N (E :: ('c, 'm, 'd, 'n) env) lg mc my. \<exists>sv'.
     handle N (demo_env E) Data demo_body 0 1
       (snd (react N (demo_env E) Reap ((demo_server lg mc my)\<lparr>sv_now := 200\<rparr>))) =
     (Inr \<lparr>http_status = 400, http_body = error_body ''invalid session ID''\<rparr>, sv')"
proof (intro allI)
  fix N and E :: "('c, 'm, 'd, 'n) env" and lg mc my
  let ?sv = "(demo_server lg mc my :: ('c, 'm, 'd, 'n) server)\<lparr>sv_now := 200\<rparr>"
  have "sort_contract (e_sort (demo_env E))" by (simp add: demo_env_def sort_ref_contract)
  from server_ok_react [OF this demo_server_ok, where ev = "Clock 200" and N = N]
  have "server_ok (demo_env E) ?sv" by simp
  moreover have "map_of (sv_sessions ?sv) 1 = Some (session_new 0 90)" by (simp add: demo_server_def)
  moreover have "sv_now ?sv - se_created_at (session_new 0 90) > SESSION_REAP_TIME"
    by (simp add: session_new_def SESSION_REAP_TIME_def)
  ultimately show "\<exists>sv'. handle N (demo_env E) Data demo_body 0 1 (snd (react N (demo_env E) Reap ?sv)) =
     (Inr \<lparr>http_status = 400, http_body = error_body ''invalid session ID''\<rparr>, sv')"
    using expired_session_refused [OF _ _ _ _ demo_body_params, where sid = 1 and sv = ?sv and ep = Data]
    by (fastforce simp: requires_session_def to_int32_def)
qed

end
