(* ===== verification/Replies.thy ===== *)
theory Replies
  imports Access
begin

text \<open>
  What a front end can rely on in the replies: malformed requests change nothing, the number that a
  \<open>get\<close> returns names its response from then on, and the cache keys of different sites differ.
\<close>

section \<open>Malformed requests\<close>

text \<open>A request whose body is not JSON is answered 500, and the server is exactly as before: not
  even a query number is used up.\<close>

theorem malformed_body_refused:
  assumes "body \<noteq> []" and "\<nexists>j. json_parse N body = Inr j"
  shows "handle N E ep body t0 t1 sv = (Inr \<lparr>http_status = 500, http_body = error_body ''error''\<rparr>, sv)"
proof -
  obtain w where "json_parse N body = Inl (StdError w)"
    using assms(2) json_parse_outcome [of N body]
    by (cases "json_parse N body") (auto simp: std_outcome_def)
  with assms(1) show ?thesis by (simp add: handle_def process_def)
qed

theorem malformed_body_refused_witness:
  "\<forall>N E t0 t1 sv. handle N E Get ''{'' t0 t1 sv =
     (Inr \<lparr>http_status = 500, http_body = error_body ''error''\<rparr>, sv)"
proof (intro allI)
  fix N E t0 t1 sv
  have "isl (json_parse N ''{'')" by code_simp
  then have "\<nexists>j. json_parse N ''{'' = Inr j" by auto
  then show "handle N E Get ''{'' t0 t1 sv = (Inr \<lparr>http_status = 500, http_body = error_body ''error''\<rparr>, sv)"
    by (intro malformed_body_refused) simp_all
qed

section \<open>Numbers of responses\<close>

text \<open>The number that \<open>get\<close> returns as \<open>id\<close> is one more than the number of responses the session
  had, and from then on it names the response just made, for \<open>data\<close> and \<open>structure\<close> as for queries
  below it; the numbers given before keep their responses.\<close>

theorem get_numbers_response:
  assumes "session_get T X S se i q opts s = (Inr (res, se'), s')"
    and "length (se_responses se) < 2 ^ 31 - 1"
  shows "\<exists>resp kvs. res = JObject kvs \<and>
    map_of kvs ''id'' = Some (JUnsigned (int (length (se_responses se')))) \<and>
    length (se_responses se') = Suc (length (se_responses se)) \<and>
    session_response se' (int (length (se_responses se'))) = Inr resp \<and>
    session_parent se' (int (length (se_responses se'))) = Inr (Some resp) \<and>
    (\<forall>k \<in> {1 .. int (length (se_responses se))}. session_response se' k = session_response se k)"
proof -
  let ?n = "length (se_responses se)"
  obtain resp res0 where se': "se' = se\<lparr>se_responses := se_responses se @ [resp]\<rparr>"
    and id: "json_set ''id'' (JUnsigned (int ?n + 1)) res0 = Inr res"
    using session_get_appends [OF assms(1)] by blast
  have r: "in_int32 k" if "k \<in> {1 .. int ?n + 1}" for k
    using that assms(2) by (simp add: int32_defs)
  obtain kvs where "res = JObject kvs" "map_of kvs ''id'' = Some (JUnsigned (int ?n + 1))"
    using id by (cases res0) (auto simp: json_set_def json_index_def map_of_obj_put split: option.splits)
  moreover have "session_response se' (int ?n + 1) = Inr resp"
    "session_parent se' (int ?n + 1) = Inr (Some resp)"
    using session_response_eq [OF r, of "int ?n + 1" se'] session_parent_eq [OF r, of "int ?n + 1" se'] assms(2)
    by (simp_all add: se' nth_append)
  moreover have "session_response se' k = session_response se k" if "k \<in> {1 .. int ?n}" for k
    using session_response_eq [OF r, of k se'] session_response_eq [OF r, of k se] that assms(2)
    by (auto simp: se' nth_append)
  ultimately show ?thesis by (simp add: se' add.commute)
qed

definition demo_query_site :: site where
  "demo_query_site = demo_site\<lparr>s_nodes := [(12, 0)]\<rparr>"

theorem get_numbers_response_witness:
  "\<forall>X. \<exists>res se' s' resp. session_get text_ref X sort_ref (session_new 0 0) 0 ''12'' [] demo_query_site =
     (Inr (res, se'), s') \<and> session_response se' 1 = Inr resp"
proof
  fix X
  obtain x s' where g: "session_get text_ref X sort_ref (session_new 0 0) 0 ''12'' [] demo_query_site = (x, s')"
    by (metis surj_pair)
  have "\<not> isl (fst (session_get text_ref X sort_ref (session_new 0 0) 0 ''12'' [] demo_query_site))"
    by code_simp
  then obtain y where x: "x = Inr y" using g by (cases x) auto
  obtain res se' where y: "y = (res, se')" by (metis surj_pair)
  note g = g [unfolded x y]
  have "se_responses (session_new 0 0) = []" by (simp add: session_new_def)
  with get_numbers_response [OF g] obtain resp where "session_response se' 1 = Inr resp" by auto
  with g show "\<exists>res se' s' resp. session_get text_ref X sort_ref (session_new 0 0) 0 ''12'' [] demo_query_site =
      (Inr (res, se'), s') \<and> session_response se' 1 = Inr resp"
    by blast
qed

section \<open>Keys of the shared caches\<close>

lemma append_colon:
  assumes "CHR '':'' \<notin> set xs" and "CHR '':'' \<notin> set ys"
  shows "xs @ CHR '':'' # a = ys @ CHR '':'' # b \<longleftrightarrow> xs = ys \<and> a = b"
proof -
  have "takeWhile (\<lambda>c. c \<noteq> CHR '':'') (zs @ CHR '':'' # c) = zs"
    "dropWhile (\<lambda>c. c \<noteq> CHR '':'') (zs @ CHR '':'' # c) = CHR '':'' # c" if "CHR '':'' \<notin> set zs" for zs c
    using that by (induction zs) auto
  with assms show ?thesis by (metis list.inject)
qed

text \<open>Sites do not see each other's cached values: for subdomains, which have no colon, short-term
  keys agree only for the same site and key, and so do long-term keys.  The two kinds collide in one
  case: the short-term keys of the site named like another site with ``LongTerm2'' at its end are the
  long-term keys of that site.\<close>

theorem cache_keys:
  assumes "CHR '':'' \<notin> set su" and "CHR '':'' \<notin> set su'"
  shows "(short_term_key su k = short_term_key su' k' \<longleftrightarrow> su = su' \<and> k = k') \<and>
    (long_term_key su k = long_term_key su' k' \<longleftrightarrow> su = su' \<and> k = k') \<and>
    (long_term_key su k = short_term_key su' k' \<longleftrightarrow> su' = su @ ''LongTerm2'' \<and> k' = k)"
proof -
  have "CHR '':'' \<notin> set (su @ ''LongTerm2'')" "CHR '':'' \<notin> set (su' @ ''LongTerm2'')"
    using assms by simp_all
  note c = append_colon [OF assms] append_colon [OF this] append_colon [OF this(1) assms(2)]
  have l: "long_term_key su k = ''VaedbProxy:'' @ (su @ ''LongTerm2'') @ CHR '':'' # k" for su k
    by (simp add: long_term_key_def)
  have s: "short_term_key su k = ''VaedbProxy:'' @ su @ CHR '':'' # k" for su k
    by (simp add: short_term_key_def)
  have "short_term_key su k = short_term_key su' k' \<longleftrightarrow> su = su' \<and> k = k'"
    unfolding s same_append_eq by (rule c)
  moreover have "long_term_key su k = long_term_key su' k' \<longleftrightarrow> su = su' \<and> k = k'"
    unfolding l same_append_eq c append_same_eq ..
  moreover have "long_term_key su k = short_term_key su' k' \<longleftrightarrow> su' = su @ ''LongTerm2'' \<and> k' = k"
    unfolding l s same_append_eq c by auto
  ultimately show ?thesis by blast
qed

theorem cache_keys_witness:
  "short_term_key ''a'' ''k'' \<noteq> short_term_key ''b'' ''k'' \<and>
   long_term_key ''a'' ''k'' = short_term_key ''aLongTerm2'' ''k''"
  using cache_keys [of "''a''" "''b''"] cache_keys [of "''a''" "''aLongTerm2''"] by simp

section \<open>A secret file without keys\<close>

text \<open>(C38) When the secret file of a site is empty, as \<open>read_s3\<close> answers for one that it cannot fetch,
  the empty secret key opens the site: splitting the empty text gives one empty key.\<close>

theorem empty_secret_file_opens:
  assumes "boost_split T ('','' @ '';'' @ [CHR 0x0A]) [] = [[]]" and "read_s3 (su @ ''-secret'') = Inr []"
    and "site_new T X False read_s3 su st xml = Inr s"
  shows "validate_secret_key False s [] = Inr ()"
proof -
  obtain keys where "read_s3 (su @ ''-secret'') = Inr keys"
    and "s_secret_keys s = boost_split T ('','' @ '';'' @ [CHR 0x0A]) keys"
    using site_new_loaded(4) [OF assms(3)] by blast
  with assms(1,2) show ?thesis by (simp add: validate_secret_key_Inr)
qed

text \<open>A document with a content node, which is empty, a design node and a generation node.\<close>

definition demo_xml :: xml_lib where
  "demo_xml = \<lparr>xpath_eval = (\<lambda>_ _ q. XNodes (Some [if q = ''/website/content'' then 2 else 1])),
     xml_unlink = (\<lambda>_ d. d), xml_free_node = (\<lambda>_ d. d), xml_free_node_list = (\<lambda>_ d. d),
     xml_copy_node = (\<lambda>_ d. (None, d)), xml_add_child = (\<lambda>_ _ d. d), xml_parse_file = (\<lambda>_. None),
     xml_read_memory = (\<lambda>_ _. Some demo_dom), xml_order_elems = (\<lambda>d. d)\<rparr>"

theorem empty_secret_file_opens_witness:
  "\<exists>s. site_new text_ref demo_xml False (\<lambda>_. Inr []) ''a'' False ''x'' = Inr s \<and>
     validate_secret_key False s [] = Inr ()"
proof -
  have "\<not> isl (site_new text_ref demo_xml False (\<lambda>_. Inr []) ''a'' False ''x'')" by code_simp
  then obtain s where s: "site_new text_ref demo_xml False (\<lambda>_. Inr []) ''a'' False ''x'' = Inr s"
    by (cases "site_new text_ref demo_xml False (\<lambda>_. Inr []) ''a'' False ''x''") auto
  have "boost_split text_ref ('','' @ '';'' @ [CHR 0x0A]) [] = [[]]" by code_simp
  from empty_secret_file_opens [OF this _ s] s show ?thesis by simp
qed

end
