(* ===== verification/JsonUtf8.thy ===== *)
theory JsonUtf8
  imports JsonSerializer
begin

text \<open>
  Well-formed UTF-8 and the two recognisers of \<^verbatim>\<open>src/json.hpp\<close>: the automaton of the serialiser and
  the byte ranges of the lexer accept the same strings.
\<close>

section \<open>Well-formed strings\<close>

definition byte_in :: "nat \<times> nat \<Rightarrow> char \<Rightarrow> bool" where
  "byte_in r c \<longleftrightarrow> fst r \<le> byte c \<and> byte c \<le> snd r"

fun follows :: "(nat \<times> nat) list \<Rightarrow> string \<Rightarrow> bool" where
  "follows [] cs = True"
| "follows (r # rs) [] = False"
| "follows (r # rs) (c # cs) = (byte_in r c \<and> follows rs cs)"

function utf8_valid :: "string \<Rightarrow> bool" where
  "utf8_valid [] = True"
| "utf8_valid (c # cs) =
     (if byte c \<le> 0x7F then utf8_valid cs
      else (case utf8_ranges (byte c) of
              None \<Rightarrow> False
            | Some rs \<Rightarrow> follows rs cs \<and> utf8_valid (drop (length rs) cs)))"
  by pat_completeness auto
termination by (relation "measure length") auto

section \<open>The table\<close>

definition byte_type :: "nat \<Rightarrow> nat" where
  "byte_type b =
     (if b < 0x80 then 0 else if b < 0x90 then 1 else if b < 0xA0 then 9 else if b < 0xC0 then 7
      else if b < 0xC2 then 8 else if b < 0xE0 then 2 else if b = 0xE0 then 10
      else if b = 0xED then 4 else if b < 0xF0 then 3 else if b = 0xF0 then 11 else if b < 0xF4 then 6
      else if b = 0xF4 then 5 else 8)"

lemma utf8d_types: "b < 256 \<Longrightarrow> utf8d ! b = byte_type b"
proof -
  assume b: "b < 256"
  have "take 256 utf8d = map byte_type [0 ..< 256]" by code_simp
  from arg_cong [OF this, of "\<lambda>xs. xs ! b"] b show ?thesis by simp
qed

definition next_state :: "nat \<Rightarrow> nat \<Rightarrow> nat" where
  "next_state st t = utf8d ! (256 + st * 16 + t)"

lemma byte_less: "byte c < 256"
  by (simp add: byte_def)

lemma decode_eq: "decode st (byte c) = next_state st (byte_type (byte c))"
  by (simp add: decode_def next_state_def utf8d_types byte_less)

definition state_rows :: "nat list list" where
  "state_rows =
    [[0, 1, 2, 3, 5, 8, 7, 1, 1, 1, 4, 6], [1, 1, 1, 1, 1, 1, 1, 1, 1, 1, 1, 1],
     [1, 0, 1, 1, 1, 1, 1, 0, 1, 0, 1, 1], [1, 2, 1, 1, 1, 1, 1, 2, 1, 2, 1, 1],
     [1, 1, 1, 1, 1, 1, 1, 2, 1, 1, 1, 1], [1, 2, 1, 1, 1, 1, 1, 1, 1, 2, 1, 1],
     [1, 1, 1, 1, 1, 1, 1, 3, 1, 3, 1, 1], [1, 3, 1, 1, 1, 1, 1, 3, 1, 3, 1, 1],
     [1, 3, 1, 1, 1, 1, 1, 1, 1, 1, 1, 1]]"

lemma state_rows_eq: "map (\<lambda>st. map (next_state st) [0 ..< 12]) [0 ..< 9] = state_rows"
  by code_simp

lemma next_state_eq: "st < 9 \<Longrightarrow> t < 12 \<Longrightarrow> next_state st t = state_rows ! st ! t"
  unfolding state_rows_eq [symmetric] by simp

text \<open>What a state still waits for.\<close>

definition awaits :: "nat \<Rightarrow> (nat \<times> nat) list" where
  "awaits st =
     (if st = 2 then [(0x80, 0xBF)]
      else if st = 3 then [(0x80, 0xBF), (0x80, 0xBF)]
      else if st = 4 then [(0xA0, 0xBF), (0x80, 0xBF)]
      else if st = 5 then [(0x80, 0x9F), (0x80, 0xBF)]
      else if st = 6 then [(0x90, 0xBF), (0x80, 0xBF), (0x80, 0xBF)]
      else if st = 7 then [(0x80, 0xBF), (0x80, 0xBF), (0x80, 0xBF)]
      else if st = 8 then [(0x80, 0x8F), (0x80, 0xBF), (0x80, 0xBF)]
      else [])"

lemma byte_type_less: "byte_type b < 12"
  by (simp add: byte_type_def)

lemma decode_row: "st < 9 \<Longrightarrow> decode st (byte c) = state_rows ! st ! byte_type (byte c)"
  by (simp add: decode_eq next_state_eq byte_type_less)

lemma byte_intervals:
  assumes "(b :: nat) < 0x100"
  obtains "b < 0x80"
    | "0x80 \<le> b" "b < 0x90"
    | "0x90 \<le> b" "b < 0xA0"
    | "0xA0 \<le> b" "b < 0xC0"
    | "0xC0 \<le> b" "b < 0xC2"
    | "0xC2 \<le> b" "b < 0xE0"
    | "0xE0 \<le> b" "b < 0xE1"
    | "0xE1 \<le> b" "b < 0xED"
    | "0xED \<le> b" "b < 0xEE"
    | "0xEE \<le> b" "b < 0xF0"
    | "0xF0 \<le> b" "b < 0xF1"
    | "0xF1 \<le> b" "b < 0xF4"
    | "0xF4 \<le> b" "b < 0xF5"
    | "0xF5 \<le> b" "b < 0x100"
  using assms by (metis not_less)

lemmas byte_tables = byte_type_def utf8_ranges_def awaits_def state_rows_def

lemma start_byte:
  assumes "b < 0x100"
  shows "let st = state_rows ! 0 ! byte_type b in
     if b \<le> 0x7F then st = 0
     else (case utf8_ranges b of
             None \<Rightarrow> st = 1
           | Some rs \<Rightarrow> st \<noteq> 1 \<and> rs \<noteq> [] \<and> awaits st = rs)"
  using assms by (rule byte_intervals) (auto simp: byte_tables)

lemma next_byte:
  assumes "b < 0x100" and "st < 9" and "awaits st = r # rs"
  shows "let st' = state_rows ! st ! byte_type b in
     if fst r \<le> b \<and> b \<le> snd r
     then (if rs = [] then st' = 0 else st' \<noteq> 1 \<and> awaits st' = rs)
     else st' = 1"
proof -
  from assms(2) consider "st = 0" | "st = 1" | "st = 2" | "st = 3" | "st = 4" | "st = 5" | "st = 6" | "st = 7" | "st = 8"
    by linarith
  then show ?thesis
    using assms(3) by cases (rule byte_intervals [OF assms(1)]; fastforce simp: byte_tables)+
qed

lemma decode_start:
  "byte c \<le> 0x7F \<Longrightarrow> decode 0 (byte c) = 0"
  "\<not> byte c \<le> 0x7F \<Longrightarrow> utf8_ranges (byte c) = None \<Longrightarrow> decode 0 (byte c) = 1"
  "\<not> byte c \<le> 0x7F \<Longrightarrow> utf8_ranges (byte c) = Some rs \<Longrightarrow>
     decode 0 (byte c) \<noteq> 1 \<and> rs \<noteq> [] \<and> awaits (decode 0 (byte c)) = rs"
  using start_byte [of "byte c"] byte_less [of c] by (simp_all add: decode_row Let_def)

lemma awaits_state: "awaits st = r # rs \<Longrightarrow> st < 9"
  by (rule ccontr) (simp add: awaits_def)

lemma decode_next:
  assumes "awaits st = r # rs"
  shows "\<not> byte_in r c \<Longrightarrow> decode st (byte c) = 1"
    and "byte_in r c \<Longrightarrow> rs = [] \<Longrightarrow> decode st (byte c) = 0"
    and "byte_in r c \<Longrightarrow> rs \<noteq> [] \<Longrightarrow> decode st (byte c) \<noteq> 1 \<and> awaits (decode st (byte c)) = rs"
  using next_byte [OF _ awaits_state [OF assms] assms, of "byte c"] awaits_state [OF assms] byte_less [of c]
  by (simp_all add: decode_row byte_in_def Let_def)

section \<open>The automaton accepts exactly the well-formed strings\<close>

fun accepts :: "nat \<Rightarrow> string \<Rightarrow> bool" where
  "accepts st [] = (st = 0)"
| "accepts st (c # cs) = (decode st (byte c) \<noteq> 1 \<and> accepts (decode st (byte c)) cs)"

lemma utf8_loop_accepts: "utf8_loop st i s = Inr 0 \<longleftrightarrow> accepts st s"
  by (induction st i s rule: utf8_loop.induct) (auto simp: Let_def)

lemma accepts_follows:
  "awaits st = rs \<Longrightarrow> rs \<noteq> [] \<Longrightarrow> accepts st cs \<longleftrightarrow> follows rs cs \<and> accepts 0 (drop (length rs) cs)"
proof (induction rs cs arbitrary: st rule: follows.induct)
  case (2 r rs)
  then show ?case by (auto simp: awaits_def split: if_splits)
next
  case (3 r rs c cs)
  note d = decode_next [OF 3(2), of c]
  show ?case
  proof (cases "byte_in r c")
    case False
    then show ?thesis using d(1) by simp
  next
    case True
    show ?thesis
    proof (cases "rs = []")
      case True
      with \<open>byte_in r c\<close> d(2) show ?thesis by simp
    next
      case False
      with \<open>byte_in r c\<close> d(3) 3(1) [of "decode st (byte c)"] show ?thesis by simp
    qed
  qed
qed simp

lemma accepts_valid: "accepts 0 s \<longleftrightarrow> utf8_valid s"
proof (induction s rule: utf8_valid.induct)
  case (2 c cs)
  show ?case
  proof (cases "byte c \<le> 0x7F")
    case True
    with 2(1) decode_start(1) [of c] show ?thesis by simp
  next
    case False
    show ?thesis
    proof (cases "utf8_ranges (byte c)")
      case None
      with False decode_start(2) [of c] show ?thesis by simp
    next
      case (Some rs)
      note st = decode_start(3) [OF False Some]
      have "accepts (decode 0 (byte c)) cs \<longleftrightarrow> follows rs cs \<and> accepts 0 (drop (length rs) cs)"
        using st by (intro accepts_follows) auto
      with st False Some 2(2) [OF False Some] show ?thesis by simp
    qed
  qed
qed simp

text \<open>The check of the serialiser, by its 400-entry table, accepts exactly the well-formed
  UTF-8 strings, as the lexer's byte ranges define them, and otherwise throws error 316.\<close>

theorem throw_if_invalid_utf8_iff:
  "throw_if_invalid_utf8 s = Inr () \<longleftrightarrow> utf8_valid s"
proof -
  have "throw_if_invalid_utf8 s = Inr () \<longleftrightarrow> utf8_loop 0 0 s = Inr 0"
    by (auto simp: throw_if_invalid_utf8_def ebind_eq_Inr_iff split: if_splits)
  then show ?thesis by (simp add: utf8_loop_accepts accepts_valid)
qed

end
