(* ===== verification/JsonText.thy ===== *)
theory JsonText
  imports JsonUtf8
begin

text \<open>
  The text that the serialiser of \<^verbatim>\<open>src/json.hpp\<close> writes, as a plain function of the value: the escaping
  through a preallocated buffer yields the escapes of the characters one after the other, and \<open>dump\<close>
  in its compact form the texts of the parts.
\<close>

section \<open>Escaped strings\<close>

definition escape_char :: "char \<Rightarrow> string" where
  "escape_char c = (case short_escape c of
     Some e \<Rightarrow> [CHR 0x5C, e]
   | None \<Rightarrow> if byte c \<le> 0x1F then CHR 0x5C # CHR ''u'' # hex4 (byte c) else [c])"

definition escaped :: "string \<Rightarrow> string" where
  "escaped s = concat (map escape_char s)"

lemma escaped_simps [simp]: "escaped [] = []" "escaped (c # cs) = escape_char c @ escaped cs"
  by (simp_all add: escaped_def)

lemma length_hex4: "length (hex4 n) = 4"
  by (simp add: hex4_def)

lemma bytes_following_control: "byte c \<le> 0x1F \<Longrightarrow> bytes_following (byte c) = Some 0"
  by (simp add: bytes_following_def)

lemma extra_space_escaped: "extra_space False s res = Inr (res + (length (escaped s) - length s))"
  and length_escaped_le: "length s \<le> length (escaped s)"
proof -
  have "extra_space False s res = Inr (res + (length (escaped s) - length s)) \<and> length s \<le> length (escaped s)" for res
  proof (induction s arbitrary: res)
    case (Cons c cs)
    from Cons [of "res + 1"] Cons [of "res + 5"] Cons [of res] show ?case
      by (auto simp: escape_char_def needs_ascii_def length_hex4 split: option.split)
  qed simp
  then show "extra_space False s res = Inr (res + (length (escaped s) - length s))" "length s \<le> length (escaped s)"
    by simp_all
qed

lemma escaped_same: "length (escaped s) = length s \<Longrightarrow> escaped s = s"
proof (induction s)
  case (Cons c cs)
  from length_escaped_le [of cs] Cons.prems have "length (escape_char c) \<le> 1" by simp
  then have c: "escape_char c = [c]"
    by (auto simp: escape_char_def length_hex4 split: option.splits if_splits)
  with Cons show ?case by simp
qed simp

text \<open>Writing into the buffer: what has been written, then backslashes.\<close>

lemma poke_all_append:
  "length xs = length cs \<Longrightarrow> poke_all (length pre) cs (pre @ xs @ rest) = Inr (pre @ cs @ rest)"
proof (induction cs arbitrary: xs pre)
  case (Cons c cs)
  obtain x xs' where xs: "xs = x # xs'" using Cons.prems by (cases xs) auto
  have "poke (length pre) c (pre @ xs @ rest) = Inr ((pre @ [c]) @ xs' @ rest)"
    by (simp add: poke_def xs)
  with Cons.IH [of xs' "pre @ [c]"] Cons.prems xs show ?case by simp
qed simp

lemma poke_append: "poke (length pre) c (pre @ x # rest) = Inr (pre @ c # rest)"
  by (simp add: poke_def)

lemma escape_codepoint_control:
  assumes "byte c \<le> 0x1F"
  shows "escape_codepoint (byte c) (pre @ replicate 6 (CHR 0x5C) @ rest, length pre) =
    Inr (pre @ (CHR 0x5C # CHR ''u'' # hex4 (byte c)) @ rest, length pre + 6)"
proof -
  have r: "replicate 6 (CHR 0x5C) = CHR 0x5C # replicate 5 (CHR 0x5C)"
    by (simp add: eval_nat_numeral)
  have "poke_all (length pre + 1) (CHR ''u'' # hex4 (byte c)) ((pre @ [CHR 0x5C]) @ replicate 5 (CHR 0x5C) @ rest)
      = Inr ((pre @ [CHR 0x5C]) @ (CHR ''u'' # hex4 (byte c)) @ rest)"
    using poke_all_append [of "replicate 5 (CHR 0x5C)" "CHR ''u'' # hex4 (byte c)" "pre @ [CHR 0x5C]" rest]
    by (simp add: length_hex4)
  with assms show ?thesis
    by (simp add: escape_codepoint_def assert_that_def r nth_append)
qed

lemma escape_loop_escaped:
  "escape_loop False cs (pre @ replicate (length (escaped cs)) (CHR 0x5C), length pre) =
     Inr (pre @ escaped cs, length pre + length (escaped cs))"
proof (induction cs arbitrary: pre)
  case (Cons c cs)
  let ?b = "CHR 0x5C" and ?n = "length (escaped cs)"
  show ?case
  proof (cases "short_escape c")
    case (Some e)
    have "(if c = ?b then Inr (pre @ ?b # ?b # replicate ?n ?b)
        else poke (length pre + 1) e (pre @ ?b # ?b # replicate ?n ?b)) =
        Inr ((pre @ [?b, e]) @ replicate ?n ?b)"
    proof (cases "c = ?b")
      case True
      with Some have "e = ?b" by (simp add: short_escape_def)
      with True show ?thesis by simp
    next
      case False
      with poke_append [of "pre @ [?b]" e ?b "replicate ?n ?b"] show ?thesis by simp
    qed
    with Some Cons.IH [of "pre @ [?b, e]"] show ?thesis by (simp add: escape_char_def)
  next
    case None
    show ?thesis
    proof (cases "byte c \<le> 0x1F")
      case True
      have len: "length (escape_char c) = 6" using None True by (simp add: escape_char_def length_hex4)
      have "utf8_codepoint (byte c) cs 0 = byte c"
        using take_bit_nat_eq_self [of "byte c" 8] byte_less [of c]
        by (simp add: utf8_codepoint_def take_bit_eq_mask mask_eq_exp_minus_1)
      with None True len escape_codepoint_control [OF True, of "pre" "replicate ?n ?b"]
        Cons.IH [of "pre @ ?b # CHR ''u'' # hex4 (byte c)"]
      show ?thesis
        by (simp add: bytes_following_control assert_that_def replicate_add escape_char_def length_hex4)
    next
      case False
      with None poke_append [of "pre" c ?b "replicate ?n ?b"] Cons.IH [of "pre @ [c]"]
      show ?thesis by (simp add: escape_char_def needs_ascii_def)
    qed
  qed
qed simp

lemma throw_if_invalid_utf8_valid: "utf8_valid s \<Longrightarrow> throw_if_invalid_utf8 s = Inr ()"
  and throw_if_invalid_utf8_invalid: "\<not> utf8_valid s \<Longrightarrow> \<exists>w. throw_if_invalid_utf8 s = Inl (StdError w)"
proof -
  have ok: "throw_if_invalid_utf8 s = Inr () \<longleftrightarrow> utf8_valid s"
    by (auto simp: throw_if_invalid_utf8_def ebind_eq_Inr_iff utf8_loop_accepts accepts_valid split: if_splits)
  have "\<exists>r. utf8_loop st i s = Inr r \<or> (\<exists>w. utf8_loop st i s = Inl (StdError w))" for st i
    by (induction st i s rule: utf8_loop.induct) (auto simp: Let_def type_error_def)
  then have e: "\<exists>r w. utf8_loop 0 0 s = Inr r \<or> utf8_loop 0 0 s = Inl (StdError w)" by blast
  show "utf8_valid s \<Longrightarrow> throw_if_invalid_utf8 s = Inr ()" using ok by blast
  show "\<not> utf8_valid s \<Longrightarrow> \<exists>w. throw_if_invalid_utf8 s = Inl (StdError w)"
    using ok e by (auto simp: throw_if_invalid_utf8_def type_error_def split: if_splits)
qed

lemma dump_escaped_valid:
  assumes "utf8_valid s"
  shows "dump_escaped False s = Inr (escaped s)"
proof (cases "length (escaped s) = length s")
  case True
  with escaped_same [OF True] show ?thesis
    using throw_if_invalid_utf8_valid [OF assms] by (simp add: dump_escaped_def extra_space_escaped)
next
  case False
  have "length s + (length (escaped s) - length s) = length (escaped s)"
    using length_escaped_le [of s] by simp
  with False escape_loop_escaped [of s "[]"] show ?thesis
    using throw_if_invalid_utf8_valid [OF assms] length_escaped_le [of s]
    by (simp add: dump_escaped_def extra_space_escaped assert_that_def)
qed

lemma dump_escaped_invalid: "\<not> utf8_valid s \<Longrightarrow> \<exists>w. dump_escaped e s = Inl (StdError w)"
  using throw_if_invalid_utf8_invalid by (fastforce simp: dump_escaped_def)

section \<open>The compact text of a value\<close>

fun text_of :: "num_lib \<Rightarrow> json \<Rightarrow> string"
  and members_text :: "num_lib \<Rightarrow> (string \<times> json) list \<Rightarrow> string"
  and elements_text :: "num_lib \<Rightarrow> json list \<Rightarrow> string" where
  "text_of N (JObject kvs) = ''{'' @ members_text N kvs @ ''}''"
| "text_of N (JArray vs) = ''['' @ elements_text N vs @ '']''"
| "text_of N (JString s) = dquote @ escaped s @ dquote"
| "text_of N (JBool b) = (if b then ''true'' else ''false'')"
| "text_of N (JInt i) = dump_integer i"
| "text_of N (JUnsigned n) = dump_integer n"
| "text_of N (JFloat d) = dump_float N d"
| "text_of N JNull = ''null''"
| "members_text N [] = []"
| "members_text N ((k, v) # kvs) = dquote @ escaped k @ dquote @ '':'' @ text_of N v @
     (if kvs = [] then [] else '','' @ members_text N kvs)"
| "elements_text N [] = []"
| "elements_text N (v # vs) = text_of N v @ (if vs = [] then [] else '','' @ elements_text N vs)"

text \<open>All strings in a value, keys included.\<close>

fun strings_ok :: "json \<Rightarrow> bool"
  and members_ok :: "(string \<times> json) list \<Rightarrow> bool"
  and elements_ok :: "json list \<Rightarrow> bool" where
  "strings_ok (JObject kvs) = members_ok kvs"
| "strings_ok (JArray vs) = elements_ok vs"
| "strings_ok (JString s) = utf8_valid s"
| "strings_ok _ = True"
| "members_ok [] = True"
| "members_ok ((k, v) # kvs) = (utf8_valid k \<and> strings_ok v \<and> members_ok kvs)"
| "elements_ok [] = True"
| "elements_ok (v # vs) = (strings_ok v \<and> elements_ok vs)"

lemma write_text_apply: "write_text s z = (Inr (), z\<lparr>sz_out := sz_out z @ s\<rparr>)"
  by (simp add: write_text_def)

lemma write_escaped_apply:
  "utf8_valid s \<Longrightarrow> write_escaped False s z = (Inr (), z\<lparr>sz_out := sz_out z @ escaped s\<rparr>)"
  by (simp add: write_escaped_def sbind_sread dump_escaped_valid write_text_apply)

lemma write_escaped_fails:
  "\<not> utf8_valid s \<Longrightarrow> \<exists>w. write_escaped False s z = (Inl (StdError w), z)"
  using dump_escaped_invalid [of s False] by (auto simp: write_escaped_def sbind_sread)

text \<open>The compact dump writes the text, or throws at the first string that is not UTF-8.\<close>

definition dumps :: "bool \<Rightarrow> string \<Rightarrow> unit dumper \<Rightarrow> bool" where
  "dumps ok t m \<longleftrightarrow> (\<forall>z. if ok then m z = (Inr (), z\<lparr>sz_out := sz_out z @ t\<rparr>)
     else (\<exists>w z'. m z = (Inl (StdError w), z')))"

lemma dumps_text: "dumps True s (write_text s)"
  by (simp add: dumps_def write_text_apply)

lemma dumps_escaped: "dumps (utf8_valid s) (escaped s) (write_escaped False s)"
  using write_escaped_apply [of s] write_escaped_fails [of s] by (simp add: dumps_def) blast

lemma dumps_sret: "dumps True [] (sret ())"
  by (simp add: dumps_def sret_def)

lemma dumps_sbind:
  assumes "dumps a s m" and "dumps b t n"
  shows "dumps (a \<and> b) (s @ t) (sbind m (\<lambda>_. n))"
  unfolding dumps_def
proof
  fix z
  show "if a \<and> b then sbind m (\<lambda>_. n) z = (Inr (), z\<lparr>sz_out := sz_out z @ s @ t\<rparr>)
      else \<exists>w z'. sbind m (\<lambda>_. n) z = (Inl (StdError w), z')"
  proof (cases a)
    case True
    with assms(1) have "m z = (Inr (), z\<lparr>sz_out := sz_out z @ s\<rparr>)" by (simp add: dumps_def)
    moreover have "if b then n z' = (Inr (), z'\<lparr>sz_out := sz_out z' @ t\<rparr>) else (\<exists>w z''. n z' = (Inl (StdError w), z''))"
      for z' using assms(2) by (simp add: dumps_def)
    from this [of "z\<lparr>sz_out := sz_out z @ s\<rparr>"] calculation True show ?thesis by (cases b) auto
  next
    case False
    with assms(1) obtain w z' where "m z = (Inl (StdError w), z')" unfolding dumps_def by metis
    with False show ?thesis by simp
  qed
qed

lemma sbind_sret_left: "sbind (sret x) f = f x"
  by (rule ext) simp

lemma dumps_eq: "dumps a s m \<Longrightarrow> a = b \<Longrightarrow> s = t \<Longrightarrow> dumps b t m"
  by simp

lemma dump_dumps:
  shows "dumps (strings_ok j) (text_of N j) (dump N False False step cur j)"
    and "dumps (members_ok kvs) (members_text N kvs) (dump_members N False False step cur kvs)"
    and "dumps (elements_ok vs) (elements_text N vs) (dump_elements N False False step cur vs)"
proof (induction N j and N kvs and N vs rule: text_of_members_text_elements_text.induct)
  case (1 N kvs)
  have "dumps (True \<and> members_ok kvs \<and> True) (''{'' @ members_text N kvs @ ''}'')
      (sbind (write_text ''{'') (\<lambda>_. sbind (dump_members N False False step cur kvs) (\<lambda>_. write_text ''}'')))"
    by (intro dumps_sbind dumps_text 1)
  then show ?case using dumps_text [of "''{}''"] by (cases "kvs = []") simp_all
next
  case (2 N vs)
  have "dumps (True \<and> elements_ok vs \<and> True) (''['' @ elements_text N vs @ '']'')
      (sbind (write_text ''['') (\<lambda>_. sbind (dump_elements N False False step cur vs) (\<lambda>_. write_text '']'')))"
    by (intro dumps_sbind dumps_text 2)
  then show ?case using dumps_text [of "''[]''"] by (cases "vs = []") simp_all
next
  case (3 N s)
  have "dumps (True \<and> utf8_valid s \<and> True) (dquote @ escaped s @ dquote)
      (sbind (write_text dquote) (\<lambda>_. sbind (write_escaped False s) (\<lambda>_. write_text dquote)))"
    by (intro dumps_sbind dumps_text dumps_escaped)
  then show ?case by simp
next
  case (10 N k v kvs)
  let ?rest = "if kvs = [] then sret ()
       else sbind (write_text '','') (\<lambda>_. dump_members N False False step cur kvs)"
  have "dumps (members_ok kvs) (if kvs = [] then [] else '','' @ members_text N kvs) ?rest"
  proof (cases "kvs = []")
    case False
    have "dumps (True \<and> members_ok kvs) ('','' @ members_text N kvs)
        (sbind (write_text '','') (\<lambda>_. dump_members N False False step cur kvs))"
      by (intro dumps_sbind dumps_text 10 False)
    with False show ?thesis by simp
  qed (simp add: dumps_sret)
  then have "dumps (True \<and> utf8_valid k \<and> True \<and> strings_ok v \<and> members_ok kvs)
      (dquote @ escaped k @ (dquote @ '':'') @ text_of N v @ (if kvs = [] then [] else '','' @ members_text N kvs))
      (sbind (write_text dquote) (\<lambda>_. sbind (write_escaped False k) (\<lambda>_.
       sbind (write_text (dquote @ '':'')) (\<lambda>_. sbind (dump N False False step cur v) (\<lambda>_. ?rest)))))"
    by (intro dumps_sbind dumps_text dumps_escaped 10)
  then show ?case
    unfolding dump_members.simps dump_elements.simps if_False sbind_sret_left by (rule dumps_eq) simp_all
next
  case (12 N v vs)
  let ?rest = "if vs = [] then sret ()
       else sbind (write_text '','') (\<lambda>_. dump_elements N False False step cur vs)"
  have "dumps (elements_ok vs) (if vs = [] then [] else '','' @ elements_text N vs) ?rest"
  proof (cases "vs = []")
    case False
    have "dumps (True \<and> elements_ok vs) ('','' @ elements_text N vs)
        (sbind (write_text '','') (\<lambda>_. dump_elements N False False step cur vs))"
      by (intro dumps_sbind dumps_text 12 False)
    with False show ?thesis by simp
  qed (simp add: dumps_sret)
  then have "dumps (strings_ok v \<and> elements_ok vs)
      (text_of N v @ (if vs = [] then [] else '','' @ elements_text N vs))
      (sbind (dump N False False step cur v) (\<lambda>_. ?rest))"
    by (intro dumps_sbind 12)
  then show ?case
    unfolding dump_members.simps dump_elements.simps if_False sbind_sret_left by (rule dumps_eq) simp_all
qed (simp_all add: dumps_text dumps_sret)

lemma json_dump_text: "strings_ok j \<Longrightarrow> json_dump N j = Inr (text_of N j)"
  and json_dump_bad: "\<not> strings_ok j \<Longrightarrow> \<exists>w. json_dump N j = Inl (StdError w)"
proof -
  let ?z = "\<lparr>sz_out = [], sz_indent = replicate 512 (CHR '' '')\<rparr>"
  have "if strings_ok j then dump N False False 0 0 j ?z = (Inr (), ?z\<lparr>sz_out := sz_out ?z @ text_of N j\<rparr>)
     else (\<exists>w z'. dump N False False 0 0 j ?z = (Inl (StdError w), z'))"
    using dump_dumps(1) unfolding dumps_def by blast
  then show "strings_ok j \<Longrightarrow> json_dump N j = Inr (text_of N j)"
    "\<not> strings_ok j \<Longrightarrow> \<exists>w. json_dump N j = Inl (StdError w)"
    by (auto simp: json_dump_def json_dump_with_def)
qed

text \<open>(C19) Serialising succeeds exactly when every string of the value, keys included, is valid UTF-8;
  otherwise it throws, and never writes outside its buffers.\<close>

theorem json_dump_iff:
  "if strings_ok j then json_dump N j = Inr (text_of N j) else (\<exists>w. json_dump N j = Inl (StdError w))"
  using json_dump_text json_dump_bad by simp

end
