(* ===== verification/JsonRoundTrip.thy ===== *)
theory JsonRoundTrip
  imports JsonText JsonParser
begin

text \<open>
  What \<open>dump\<close> writes, \<open>parse\<close> reads back: the lexer scans the text of each token to its value, and the
  parser rebuilds the value, up to the type of non-negative integers, which come back as unsigned.
\<close>

section \<open>Reading one character\<close>

lemma lx_get_Cons:
  assumes "lx_rest lx = c # cs"
  shows "lx_rest (lx_get lx) = cs" "lx_current (lx_get lx) = Some c" "lx_yytext (lx_get lx) = lx_yytext lx"
  using assms by (simp_all add: lx_get_def)

text \<open>A scanner that takes \<open>s\<close> off the input, gives the token \<open>t\<close> and appends \<open>y\<close> to the buffer.\<close>

definition takes :: "(lexer \<Rightarrow> token \<times> lexer) \<Rightarrow> token \<Rightarrow> string \<Rightarrow> string \<Rightarrow> bool" where
  "takes f t s y \<longleftrightarrow> (\<forall>lx rest. lx_rest lx = s @ rest \<longrightarrow>
     (\<exists>lx'. f lx = (t, lx') \<and> lx_rest lx' = rest \<and> lx_yytext lx' = lx_yytext lx @ y))"

lemma takesI:
  "(\<And>lx rest. lx_rest lx = s @ rest \<Longrightarrow>
     \<exists>lx'. f lx = (t, lx') \<and> lx_rest lx' = rest \<and> lx_yytext lx' = lx_yytext lx @ y) \<Longrightarrow> takes f t s y"
  by (simp add: takes_def)

lemma takesE:
  assumes "takes f t s y" and "lx_rest lx = s @ rest"
  obtains lx' where "f lx = (t, lx')" "lx_rest lx' = rest" "lx_yytext lx' = lx_yytext lx @ y"
  using assms by (auto simp: takes_def)

section \<open>Escapes\<close>

lemma hex_value_hexify: "d < 16 \<Longrightarrow> hex_value (hexify d) = Some d"
proof -
  assume d: "d < 16"
  have "map (\<lambda>d. hex_value (hexify d)) [0 ..< 16] = map Some [0 ..< 16]" by code_simp
  from arg_cong [OF this, of "\<lambda>xs. xs ! d"] d show ?thesis by simp
qed

lemma nibbles: "n < 0x10000 \<Longrightarrow>
  push_bit 12 (drop_bit 12 n AND 0x0F) + push_bit 8 (drop_bit 8 n AND 0x0F) +
  push_bit 4 (drop_bit 4 n AND 0x0F) + (n AND 0x0F) = (n :: nat)"
proof -
  assume n: "n < 0x10000"
  have a: "m AND 0x0F = m mod 16" for m :: nat
    using take_bit_eq_mask [of 4 m] by (simp add: take_bit_eq_mod mask_eq_exp_minus_1)
  have "n div 4096 mod 16 = n div 4096" using n by simp
  moreover have "n div 4096 * 4096 + n div 256 mod 16 * 256 + n div 16 mod 16 * 16 + n mod 16 = n"
  proof -
    have "n div 256 = 16 * (n div 4096) + n div 256 mod 16" using div_mult_mod_eq [of "n div 256" 16]
      by (simp add: div_mult2_eq [symmetric])
    moreover have "n div 16 = 16 * (n div 256) + n div 16 mod 16" using div_mult_mod_eq [of "n div 16" 16]
      by (simp add: div_mult2_eq [symmetric])
    moreover have "n = 16 * (n div 16) + n mod 16" by simp
    ultimately show ?thesis by linarith
  qed
  ultimately show ?thesis unfolding a by (simp add: push_bit_eq_mult drop_bit_eq_div)
qed

lemma get_codepoint_hex4:
  assumes "n < 0x10000" and "lx_rest lx = hex4 n @ rest"
  shows "\<exists>lx'. get_codepoint lx = (Some n, lx') \<and> lx_rest lx' = rest \<and> lx_yytext lx' = lx_yytext lx"
proof -
  have small: "m AND 0x0F < 16" for m :: nat
    using take_bit_eq_mask [of 4 m] by (simp add: take_bit_eq_mod mask_eq_exp_minus_1)
  define lx1 where "lx1 = lx_get lx"
  define lx2 where "lx2 = lx_get lx1"
  define lx3 where "lx3 = lx_get lx2"
  define lx4 where "lx4 = lx_get lx3"
  note r1 = lx_get_Cons [OF assms(2) [unfolded hex4_def append_Cons append_Nil], folded lx1_def]
  note r2 = lx_get_Cons [OF r1(1), folded lx2_def]
  note r3 = lx_get_Cons [OF r2(1), folded lx3_def]
  note r4 = lx_get_Cons [OF r3(1), folded lx4_def]
  have "get_codepoint lx = (Some n, lx4)"
    using r1(2) r2(2) r3(2) r4(2) hex_value_hexify [OF small] nibbles [OF assms(1)]
    by (simp add: get_codepoint_def lx1_def [symmetric] lx2_def [symmetric] lx3_def [symmetric]
        lx4_def [symmetric] add.assoc)
  with r1 r2 r3 r4 show ?thesis by simp
qed

lemma fold_lx_add_simps:
  "lx_yytext (fold lx_add cs lx) = lx_yytext lx @ cs"
  by (induction cs arbitrary: lx) simp_all

lemma char_of_byte: "char_of (byte c) = c"
  by (simp add: byte_def)

lemma byte_inject: "byte c = byte d \<longleftrightarrow> c = d"
  by (metis char_of_byte)

lemma short_simple_escape: "short_escape c = Some e \<Longrightarrow> simple_escape e = Some c"
  by (auto simp: short_escape_def simple_escape_def split: if_splits)

lemma scan_escape_char:
  assumes "byte c \<le> 0x7F" and "escape_char c = CHR 0x5C # s"
  shows "takes scan_escape ValueString s [c]"
proof (rule takesI)
  fix lx :: lexer and rest assume r: "lx_rest lx = s @ rest"
  show "\<exists>lx'. scan_escape lx = (ValueString, lx') \<and> lx_rest lx' = rest \<and> lx_yytext lx' = lx_yytext lx @ [c]"
  proof (cases "short_escape c")
    case (Some e)
    with assms(2) have s: "s = [e]" by (simp add: escape_char_def)
    note g = lx_get_Cons [OF r [unfolded s append_Cons append_Nil]]
    show ?thesis using g short_simple_escape [OF Some] by (simp add: scan_escape_def)
  next
    case None
    have c: "byte c \<le> 0x1F"
    proof (rule ccontr)
      assume "\<not> byte c \<le> 0x1F"
      with None assms(2) have "c = CHR 0x5C" by (simp add: escape_char_def)
      with None show False by (simp add: short_escape_def)
    qed
    with None assms(2) have s: "s = CHR ''u'' # hex4 (byte c)" by (simp add: escape_char_def)
    note g = lx_get_Cons [OF r [unfolded s append_Cons]]
    obtain lx' where l: "get_codepoint (lx_get lx) = (Some (byte c), lx')" "lx_rest lx' = rest"
      "lx_yytext lx' = lx_yytext (lx_get lx)"
      using get_codepoint_hex4 [of "byte c" "lx_get lx" rest] g(1) c by auto
    have "scan_unicode (lx_get lx) = (ValueString, fold lx_add [c] lx')"
      using l c by (simp add: scan_unicode_def codepoint_bytes_def char_of_byte)
    with g l show ?thesis by (simp add: scan_escape_def simple_escape_def)
  qed
qed

section \<open>Strings\<close>

lemma range_loop_takes: "follows rs cs \<Longrightarrow> takes (range_loop rs) ValueString (take (length rs) cs) (take (length rs) cs)"
proof (induction rs cs rule: follows.induct)
  case (1 cs)
  then show ?case by (simp add: takes_def)
next
  case (3 r rs c cs)
  obtain lo hi where r: "r = (lo, hi)" by (metis surj_pair)
  from 3 have c: "lo \<le> byte c" "byte c \<le> hi" and t: "takes (range_loop rs) ValueString (take (length rs) cs) (take (length rs) cs)"
    by (simp_all add: r byte_in_def)
  show ?case
  proof (rule takesI)
    fix lx :: lexer and rest assume "lx_rest lx = take (length (r # rs)) (c # cs) @ rest"
    then have "lx_rest lx = c # take (length rs) cs @ rest" by simp
    note g = lx_get_Cons [OF this]
    have "lx_rest (lx_add c (lx_get lx)) = take (length rs) cs @ rest" using g by simp
    from takesE [OF t this] obtain lx' where "range_loop rs (lx_add c (lx_get lx)) = (ValueString, lx')"
      "lx_rest lx' = rest" "lx_yytext lx' = lx_yytext (lx_add c (lx_get lx)) @ take (length rs) cs" .
    with g c r show "\<exists>lx'. range_loop (r # rs) lx = (ValueString, lx') \<and> lx_rest lx' = rest \<and>
        lx_yytext lx' = lx_yytext lx @ take (length (r # rs)) (c # cs)"
      by simp
  qed
qed simp

lemma follows_high: "follows rs cs \<Longrightarrow> \<forall>r \<in> set rs. 0x80 \<le> fst r \<Longrightarrow> \<forall>c \<in> set (take (length rs) cs). 0x80 \<le> byte c"
  by (induction rs cs rule: follows.induct) (auto simp: byte_in_def)

lemma utf8_ranges_high: "utf8_ranges b = Some rs \<Longrightarrow> \<forall>r \<in> set rs. 0x80 \<le> fst r"
  by (auto simp: utf8_ranges_def split: if_splits)

lemma escape_char_high: "0x80 \<le> byte c \<Longrightarrow> escape_char c = [c]"
proof -
  assume c: "0x80 \<le> byte c"
  have "short_escape c = None"
  proof (rule ccontr)
    assume "short_escape c \<noteq> None"
    then have "c \<in> {CHR 0x22, CHR 0x5C, CHR 0x08, CHR 0x0C, CHR 0x0A, CHR 0x0D, CHR 0x09}"
      by (auto simp: short_escape_def split: if_splits)
    with c show False by (auto simp: byte_def)
  qed
  with c show ?thesis by (simp add: escape_char_def)
qed

lemma escaped_high: "\<forall>c \<in> set cs. 0x80 \<le> byte c \<Longrightarrow> escaped cs = cs"
  by (induction cs) (simp_all add: escape_char_high)

lemma escaped_append: "escaped (xs @ ys) = escaped xs @ escaped ys"
  by (simp add: escaped_def)

text \<open>One turn of the loop of \<open>scan_string\<close>, then the rest.\<close>

lemma scan_string_step:
  assumes "takes f ValueString s y" and "takes scan_string_loop ValueString t z"
    and "\<And>lx rest lx'. lx_rest lx = s @ rest \<Longrightarrow> f lx = (ValueString, lx') \<Longrightarrow> scan_string_loop lx = scan_string_loop lx'"
  shows "takes scan_string_loop ValueString (s @ t) (y @ z)"
proof (rule takesI)
  fix lx :: lexer and rest assume r: "lx_rest lx = (s @ t) @ rest"
  then have s: "lx_rest lx = s @ t @ rest" by simp
  from takesE [OF assms(1) s] obtain lx1 where 1: "f lx = (ValueString, lx1)" "lx_rest lx1 = t @ rest"
    "lx_yytext lx1 = lx_yytext lx @ y" .
  from takesE [OF assms(2) 1(2)] obtain lx2 where "scan_string_loop lx1 = (ValueString, lx2)"
    "lx_rest lx2 = rest" "lx_yytext lx2 = lx_yytext lx1 @ z" .
  with 1 assms(3) [OF s 1(1)]
  show "\<exists>lx'. scan_string_loop lx = (ValueString, lx') \<and> lx_rest lx' = rest \<and> lx_yytext lx' = lx_yytext lx @ y @ z"
    by simp
qed

text \<open>The three kinds of turns: an escape, a plain character, a sequence of bytes above \<open>0x7F\<close>.\<close>

lemma turn_escape:
  assumes "byte c \<le> 0x7F" and "escape_char c = CHR 0x5C # s" and "takes scan_string_loop ValueString t z"
  shows "takes scan_string_loop ValueString (escape_char c @ t) (c # z)"
proof -
  have "takes (\<lambda>lx. scan_escape (lx_get lx)) ValueString (escape_char c) [c]"
  proof (rule takesI)
    fix lx :: lexer and rest assume "lx_rest lx = escape_char c @ rest"
    then have "lx_rest lx = CHR 0x5C # s @ rest" using assms(2) by simp
    note g = lx_get_Cons [OF this]
    from takesE [OF scan_escape_char [OF assms(1,2)] g(1)] g(3)
    show "\<exists>lx'. scan_escape (lx_get lx) = (ValueString, lx') \<and> lx_rest lx' = rest \<and>
        lx_yytext lx' = lx_yytext lx @ [c]" by metis
  qed
  moreover have "scan_string_loop lx = scan_string_loop lx'"
    if "lx_rest lx = escape_char c @ rest" "scan_escape (lx_get lx) = (ValueString, lx')" for lx rest lx'
    using lx_get_Cons(2) [of lx "CHR 0x5C" "s @ rest"] that assms(2)
    by (simp add: scan_string_loop.simps [of lx] byte_def)
  ultimately show ?thesis
    using scan_string_step [OF _ assms(3), of "\<lambda>lx. scan_escape (lx_get lx)" "escape_char c" "[c]"] by simp
qed

lemma turn_plain:
  assumes "byte c \<le> 0x7F" and "\<not> byte c \<le> 0x1F" and "byte c \<noteq> 0x22" and "byte c \<noteq> 0x5C"
    and "takes scan_string_loop ValueString t z"
  shows "takes scan_string_loop ValueString (c # t) (c # z)"
proof -
  have "takes (\<lambda>lx. (ValueString, lx_add c (lx_get lx))) ValueString [c] [c]"
    by (rule takesI) (use lx_get_Cons in \<open>fastforce\<close>)
  moreover have "scan_string_loop lx = scan_string_loop lx'"
    if "lx_rest lx = [c] @ rest" "(ValueString, lx_add c (lx_get lx)) = (ValueString, lx')" for lx rest lx'
    using lx_get_Cons(2) [of lx c rest] that assms by (simp add: scan_string_loop.simps [of lx])
  ultimately show ?thesis
    using scan_string_step [OF _ assms(5), of "\<lambda>lx. (ValueString, lx_add c (lx_get lx))" "[c]" "[c]"] by simp
qed

lemma turn_sequence:
  assumes "\<not> byte c \<le> 0x7F" and "utf8_ranges (byte c) = Some rs" and "follows rs cs"
    and "takes scan_string_loop ValueString t z"
  shows "takes scan_string_loop ValueString ((c # take (length rs) cs) @ t) ((c # take (length rs) cs) @ z)"
proof (rule scan_string_step [OF _ assms(4), where f = "\<lambda>lx. next_byte_in_range c rs (lx_get lx)"])
  show "takes (\<lambda>lx. next_byte_in_range c rs (lx_get lx)) ValueString (c # take (length rs) cs)
      (c # take (length rs) cs)"
  proof (rule takesI)
    fix lx :: lexer and rest assume "lx_rest lx = (c # take (length rs) cs) @ rest"
    then have "lx_rest lx = c # take (length rs) cs @ rest" by simp
    note g = lx_get_Cons [OF this]
    have "lx_rest (lx_add c (lx_get lx)) = take (length rs) cs @ rest" using g by simp
    from takesE [OF range_loop_takes [OF assms(3)] this] g(3)
    show "\<exists>lx'. next_byte_in_range c rs (lx_get lx) = (ValueString, lx') \<and> lx_rest lx' = rest \<and>
        lx_yytext lx' = lx_yytext lx @ c # take (length rs) cs"
      by (simp add: next_byte_in_range_def) metis
  qed
  fix lx :: lexer and rest lx'
  assume r: "lx_rest lx = (c # take (length rs) cs) @ rest"
    and n: "next_byte_in_range c rs (lx_get lx) = (ValueString, lx')"
  have "lx_current (lx_get lx) = Some c" using lx_get_Cons(2) r by simp
  with n assms(1,2) show "scan_string_loop lx = scan_string_loop lx'"
    by (simp add: scan_string_loop.simps [of lx])
qed

lemma scan_string_loop_escaped:
  "utf8_valid s \<Longrightarrow> takes scan_string_loop ValueString (escaped s @ dquote) s"
proof (induction s rule: utf8_valid.induct)
  case 1
  show ?case
  proof (rule takesI)
    fix lx :: lexer and rest assume "lx_rest lx = (escaped [] @ dquote) @ rest"
    then have "lx_rest lx = CHR 0x22 # rest" by (simp add: dquote_def)
    from lx_get_Cons [OF this]
    show "\<exists>lx'. scan_string_loop lx = (ValueString, lx') \<and> lx_rest lx' = rest \<and> lx_yytext lx' = lx_yytext lx @ []"
      by (simp add: scan_string_loop.simps [of lx] byte_def)
  qed
next
  case (2 c cs)
  show ?case
  proof (cases "byte c \<le> 0x7F")
    case True
    with 2 have IH: "takes scan_string_loop ValueString (escaped cs @ dquote) cs" by simp
    show ?thesis
    proof (cases "\<exists>s. escape_char c = CHR 0x5C # s")
      case e: True
      then obtain s where "escape_char c = CHR 0x5C # s" by blast
      from turn_escape [OF True this IH] show ?thesis by simp
    next
      case False
      then have n: "short_escape c = None" "\<not> byte c \<le> 0x1F" and e: "escape_char c = [c]"
        by (auto simp: escape_char_def split: option.splits if_splits)
      have "byte c \<noteq> 0x22" "byte c \<noteq> 0x5C"
        using n(1) byte_inject [of c "CHR 0x22"] byte_inject [of c "CHR 0x5C"]
        by (auto simp: short_escape_def byte_def split: if_splits)
      from turn_plain [OF True n(2) this IH] e show ?thesis by simp
    qed
  next
    case False
    from 2(3) False obtain rs where u: "utf8_ranges (byte c) = Some rs" and f: "follows rs cs"
      and v: "utf8_valid (drop (length rs) cs)"
      by (auto split: option.splits)
    have h: "\<forall>x \<in> set (c # take (length rs) cs). 0x80 \<le> byte x"
      using False follows_high [OF f utf8_ranges_high [OF u]] by auto
    have "escaped (c # cs) = escaped (c # take (length rs) cs) @ escaped (drop (length rs) cs)"
      using escaped_append [of "c # take (length rs) cs" "drop (length rs) cs"] by simp
    then have "escaped (c # cs) = (c # take (length rs) cs) @ escaped (drop (length rs) cs)"
      unfolding escaped_high [OF h] .
    with turn_sequence [OF False u f 2(2) [OF False u v]] show ?thesis by simp
  qed
qed

section \<open>Numbers\<close>

lemma digit_loop_show:
  "digit_loop x buffer = (if x = 0 then buffer else buffer @ rev (show_nat (nat \<bar>x\<bar>)))"
proof (induction x buffer rule: digit_loop.induct)
  case (1 x buffer)
  show ?case
  proof (cases "x = 0")
    case True
    then show ?thesis by (simp add: digit_loop.simps)
  next
    case False
    let ?n = "nat \<bar>x\<bar>" and ?y = "sgn x * (\<bar>x\<bar> div 10)"
    have d: "nat (\<bar>x\<bar> mod 10) = ?n mod 10" "nat (\<bar>x\<bar> div 10) = ?n div 10"
      by (simp_all add: nat_mod_distrib nat_div_distrib)
    have y: "?y = 0 \<longleftrightarrow> ?n < 10" using False by (auto simp: sgn_if)
    have a: "nat \<bar>?y\<bar> = ?n div 10" using False d(2) by (simp add: abs_mult)
    have "digit_loop x buffer = digit_loop ?y (buffer @ [char_of (48 + nat (\<bar>x\<bar> mod 10))])"
      using False by (simp add: digit_loop.simps [of x])
    also have "\<dots> = (if ?n < 10 then buffer @ [char_of (48 + ?n mod 10)]
        else (buffer @ [char_of (48 + ?n mod 10)]) @ rev (show_nat (?n div 10)))"
      using 1 [OF False] unfolding d y a .
    finally show ?thesis using False by (simp add: show_nat.simps [of ?n])
  qed
qed

lemma char_48: "char_of (48 :: nat) = CHR ''0''"
  by code_simp

lemma dump_integer_show: "dump_integer x = show_int x"
  by (cases "x = 0")
    (simp_all add: dump_integer_def digit_loop_show show_int_def show_nat.simps [of 0] char_48)

definition ends_number :: "string \<Rightarrow> bool" where
  "ends_number rest \<longleftrightarrow> (case rest of [] \<Rightarrow> True | c # _ \<Rightarrow> \<not> is_digit c \<and> c \<noteq> CHR ''.'' \<and> \<not> is_exp c)"

lemma ends_move:
  assumes "ends_number (lx_rest lx)"
  shows "num_move_at point NumAny1 (lx_current (lx_get lx)) = NumDone"
    and "num_move_at point NumZero (lx_current (lx_get lx)) = NumDone"
  using assms
  by (auto simp: ends_number_def num_move_at_def lx_get_def is_digit_def is_exp_def split: list.splits)

lemma scan_digits:
  assumes "\<forall>c \<in> set ds. is_digit c" and "lx_rest lx = ds @ rest" and "ends_number rest"
  shows "\<exists>lx'. scan_number_loop N NumAny1 ty lx = number_done N ty (lx_get lx') \<and> lx_rest lx' = rest \<and>
    lx_yytext lx' = lx_yytext lx @ ds"
  using assms
proof (induction ds arbitrary: lx)
  case Nil
  then have "scan_number_loop N NumAny1 ty lx = number_done N ty (lx_get lx)"
    using ends_move(1) [of lx "locale_point N"] by (simp add: scan_number_loop.simps [of N NumAny1 ty lx])
  with Nil show ?case by auto
next
  case (Cons c ds)
  have r: "lx_rest lx = c # ds @ rest" using Cons.prems(2) by simp
  note g = lx_get_Cons [OF r]
  have "scan_number_loop N NumAny1 ty lx = scan_number_loop N NumAny1 ty (lx_add c (lx_get lx))"
    using Cons.prems(1) g(2) by (simp add: scan_number_loop.simps [of N NumAny1 ty lx] num_move_at_def)
  with Cons.IH [of "lx_add c (lx_get lx)"] Cons.prems g show ?case by simp
qed

lemma unget_get:
  "lx_rest (lx_unget (lx_get lx)) = lx_rest lx" "lx_yytext (lx_unget (lx_get lx)) = lx_yytext lx"
  by (auto simp: lx_unget_def lx_get_def Let_def split: list.split)

lemma show_nat_first: "0 < n \<Longrightarrow> hd (show_nat n) \<noteq> CHR ''0''"
proof (induction n rule: show_nat.induct)
  case (1 n)
  show ?case
  proof (cases "n < 10")
    case True
    have "byte (char_of (48 + n)) = 48 + n" using True by (simp add: byte_def of_char_48)
    moreover have "byte (CHR ''0'') = 48" by (simp add: byte_def)
    ultimately have "char_of (48 + n) \<noteq> CHR ''0''" using 1(2) by auto
    with True show ?thesis by (simp add: show_nat.simps [of n])
  next
    case False
    with 1 show ?thesis by (simp add: show_nat.simps [of n] hd_append)
  qed
qed

lemma scan_zero:
  "ends_number (lx_rest lx) \<Longrightarrow> scan_number_loop N NumZero ty lx = number_done N ty (lx_get lx)"
  using ends_move(2) [of lx "locale_point N"] by (simp add: scan_number_loop.simps [of N NumZero ty lx])

text \<open>The scan of a number, whose first character has been read.\<close>

lemma scan_unsigned:
  assumes "lx_current lx = Some c" and "show_nat n = c # ds" and "lx_rest lx = ds @ rest"
    and "ends_number rest" and "int n < 2 ^ 64"
  shows "\<exists>lx'. scan_number N lx = (ValueUnsigned, lx') \<and> lx_rest lx' = rest \<and> lx_unsigned lx' = int n"
proof -
  let ?lx = "lx_add c (lx_reset lx)"
  have digits: "is_digit c" "\<forall>d \<in> set ds. is_digit d" using show_nat_digits [of n] assms(2) by auto
  have "\<exists>lx'. scan_number N lx = number_done N ValueUnsigned (lx_get lx') \<and> lx_rest lx' = rest \<and>
      lx_yytext lx' = show_nat n"
  proof (cases "n = 0")
    case True
    with assms(2) have c: "c = CHR ''0''" "ds = []" by (simp_all add: show_nat.simps [of 0] char_48)
    have "scan_number N lx = scan_number_loop N NumZero ValueUnsigned ?lx"
      using assms(1) c by (simp add: scan_number_def)
    also have "\<dots> = number_done N ValueUnsigned (lx_get ?lx)"
      using scan_zero [of ?lx N ValueUnsigned] assms(3,4) c(2) by simp
    finally show ?thesis using assms(2,3) c by auto
  next
    case False
    with show_nat_first [of n] assms(2) have c: "c \<noteq> CHR ''0''" by simp
    have m: "c \<noteq> CHR ''-''" using digits(1) by (auto simp: is_digit_def)
    have "scan_number N lx = scan_number_loop N NumAny1 ValueUnsigned ?lx"
      using assms(1) c m by (simp add: scan_number_def)
    with scan_digits [OF digits(2) _ assms(4), of ?lx N ValueUnsigned] assms(2,3) show ?thesis by simp
  qed
  then obtain lx' where l: "scan_number N lx = number_done N ValueUnsigned (lx_get lx')" "lx_rest lx' = rest"
    "lx_yytext lx' = show_nat n" by blast
  moreover have "strtoull (show_nat n) = Some (int n)"
    using assms(5) by (simp add: strtoull_def digits_value_show_nat)
  ultimately show ?thesis by (simp add: number_done_def Let_def unget_get)
qed

lemma scan_negative:
  assumes "lx_current lx = Some (CHR ''-'')" and "lx_rest lx = show_nat n @ rest"
    and "ends_number rest" and "0 < n" and "int64_min \<le> - int n"
  shows "\<exists>lx'. scan_number N lx = (ValueInteger, lx') \<and> lx_rest lx' = rest \<and> lx_integer lx' = - int n"
proof -
  let ?lx = "lx_add (CHR ''-'') (lx_reset lx)"
  obtain c ds where s: "show_nat n = c # ds" using show_nat_nonempty by (cases "show_nat n") auto
  have digits: "is_digit c" "\<forall>d \<in> set ds. is_digit d" using show_nat_digits [of n] s by auto
  have c: "c \<noteq> CHR ''0''" using show_nat_first [OF assms(4)] s by simp
  have "lx_rest ?lx = c # ds @ rest" using assms(2) s by simp
  note g = lx_get_Cons [OF this]
  have "scan_number N lx = scan_number_loop N NumAny1 ValueInteger (lx_add c (lx_get ?lx))"
    using assms(1) c digits(1) g(2)
    by (simp add: scan_number_def scan_number_loop.simps [of N NumMinus] num_move_at_def digit_1_9_def)
  with scan_digits [OF digits(2) _ assms(3), of "lx_add c (lx_get ?lx)" N ValueInteger] g s
  obtain lx' where l: "scan_number N lx = number_done N ValueInteger (lx_get lx')" "lx_rest lx' = rest"
    "lx_yytext lx' = CHR ''-'' # show_nat n" by auto
  have "strtoll (CHR ''-'' # show_nat n) = Some (- int n)"
    using assms(5) by (simp add: strtoll_def digits_value_show_nat int64_max_def int64_min_def Let_def)
  with l show ?thesis by (simp add: number_done_def Let_def unget_get)
qed

section \<open>Tokens\<close>

lemma skip_ws_first:
  assumes "lx_rest lx = c # cs" and "\<not> is_ws c"
  shows "skip_ws lx = lx_get lx"
  using lx_get_Cons [OF assms(1)] assms(2) by (simp add: skip_ws.simps [of lx])

text \<open>The parser \<open>p\<close> reads the token \<open>t\<close> next, and \<open>rest\<close> is left.\<close>

definition reads :: "num_lib \<Rightarrow> parser \<Rightarrow> token \<Rightarrow> string \<Rightarrow> bool" where
  "reads N p t rest \<longleftrightarrow> pr_last (read_token N p) = t \<and> lx_rest (pr_lexer (read_token N p)) = rest"

lemma reads_scan:
  "scan N (pr_lexer p) = (t, lx') \<Longrightarrow> lx_rest lx' = rest \<Longrightarrow> reads N p t rest \<and> pr_lexer (read_token N p) = lx'"
  by (simp add: reads_def read_token_def)

lemma scan_first:
  assumes "lx_rest lx = c # cs" and "\<not> is_ws c"
  shows "scan N lx = (let lx1 = lx_get lx in
     if c = CHR ''['' then (BeginArray, lx1)
     else if c = CHR '']'' then (EndArray, lx1)
     else if c = CHR ''{'' then (BeginObject, lx1)
     else if c = CHR ''}'' then (EndObject, lx1)
     else if c = CHR '':'' then (NameSeparator, lx1)
     else if c = CHR '','' then (ValueSeparator, lx1)
     else if c = CHR ''t'' then scan_literal ''true'' LiteralTrue lx1
     else if c = CHR ''f'' then scan_literal ''false'' LiteralFalse lx1
     else if c = CHR ''n'' then scan_literal ''null'' LiteralNull lx1
     else if c = CHR 0x22 then scan_string lx1
     else if c = CHR ''-'' \<or> is_digit c then scan_number N lx1
     else if c = CHR 0x00 then (EndOfInput, lx1)
     else lx_fail ''invalid literal'' lx1)"
  using lx_get_Cons(2) [OF assms(1)] skip_ws_first [OF assms] by (simp add: scan_def Let_def)

lemma reads_punctuation:
  "lx_rest (pr_lexer p) = CHR ''['' # rest \<Longrightarrow> reads N p BeginArray rest"
  "lx_rest (pr_lexer p) = CHR '']'' # rest \<Longrightarrow> reads N p EndArray rest"
  "lx_rest (pr_lexer p) = CHR ''{'' # rest \<Longrightarrow> reads N p BeginObject rest"
  "lx_rest (pr_lexer p) = CHR ''}'' # rest \<Longrightarrow> reads N p EndObject rest"
  "lx_rest (pr_lexer p) = CHR '':'' # rest \<Longrightarrow> reads N p NameSeparator rest"
  "lx_rest (pr_lexer p) = CHR '','' # rest \<Longrightarrow> reads N p ValueSeparator rest"
  by (simp_all add: reads_def read_token_def scan_first is_ws_def lx_get_Cons)

lemma reads_end: "lx_rest (pr_lexer p) = [] \<Longrightarrow> reads N p EndOfInput []"
proof -
  assume e: "lx_rest (pr_lexer p) = []"
  then have g: "lx_current (lx_get (pr_lexer p)) = None" "lx_rest (lx_get (pr_lexer p)) = []"
    by (simp_all add: lx_get_def)
  then have "skip_ws (pr_lexer p) = lx_get (pr_lexer p)" by (simp add: skip_ws.simps [of "pr_lexer p"])
  with g show ?thesis by (simp add: reads_def read_token_def scan_def)
qed

lemma literal_loop_takes:
  "lx_rest lx = cs @ rest \<Longrightarrow> \<exists>lx'. literal_loop cs t lx = (t, lx') \<and> lx_rest lx' = rest"
proof (induction cs arbitrary: lx)
  case (Cons c cs)
  from lx_get_Cons [of lx c "cs @ rest"] Cons show ?case by simp
qed simp

lemma reads_literal:
  "lx_rest (pr_lexer p) = ''true'' @ rest \<Longrightarrow> reads N p LiteralTrue rest"
  "lx_rest (pr_lexer p) = ''false'' @ rest \<Longrightarrow> reads N p LiteralFalse rest"
  "lx_rest (pr_lexer p) = ''null'' @ rest \<Longrightarrow> reads N p LiteralNull rest"
proof -
  have l: "reads N p t rest"
    if "scan N (pr_lexer p) = literal_loop cs t (lx_get (pr_lexer p))" "lx_rest (pr_lexer p) = c # cs @ rest"
    for c cs t
    using literal_loop_takes [OF lx_get_Cons(1) [OF that(2)], of t] reads_scan that(1) by metis
  show "lx_rest (pr_lexer p) = ''true'' @ rest \<Longrightarrow> reads N p LiteralTrue rest"
    by (rule l [of "''rue''" _ "CHR ''t''"]) (simp_all add: scan_first is_ws_def scan_literal_def)
  show "lx_rest (pr_lexer p) = ''false'' @ rest \<Longrightarrow> reads N p LiteralFalse rest"
    by (rule l [of "''alse''" _ "CHR ''f''"]) (simp_all add: scan_first is_ws_def scan_literal_def)
  show "lx_rest (pr_lexer p) = ''null'' @ rest \<Longrightarrow> reads N p LiteralNull rest"
    by (rule l [of "''ull''" _ "CHR ''n''"]) (simp_all add: scan_first is_ws_def scan_literal_def)
qed

lemma reads_string:
  assumes "utf8_valid s" and "lx_rest (pr_lexer p) = dquote @ escaped s @ dquote @ rest"
  shows "reads N p ValueString rest \<and> lx_yytext (pr_lexer (read_token N p)) = s"
proof -
  have r: "lx_rest (pr_lexer p) = CHR 0x22 # (escaped s @ dquote) @ rest" using assms(2) by (simp add: dquote_def)
  note g = lx_get_Cons [OF r]
  have "scan N (pr_lexer p) = scan_string (lx_get (pr_lexer p))"
    using r by (simp add: scan_first is_ws_def is_digit_def)
  moreover have "lx_rest (lx_reset (lx_get (pr_lexer p))) = (escaped s @ dquote) @ rest" using g by simp
  from takesE [OF scan_string_loop_escaped [OF assms(1)] this]
  obtain lx' where "scan_string (lx_get (pr_lexer p)) = (ValueString, lx')" "lx_rest lx' = rest" "lx_yytext lx' = s"
    by (auto simp: scan_string_def)
  ultimately show ?thesis using reads_scan by metis
qed

lemma digit_starts: "is_digit c \<Longrightarrow> \<not> is_ws c \<and> c \<notin> {CHR ''['', CHR '']'', CHR ''{'', CHR ''}'', CHR '':'', CHR '','',
    CHR ''t'', CHR ''f'', CHR ''n'', CHR 0x22}"
  by (auto simp: is_ws_def is_digit_def)

lemma reads_unsigned:
  assumes "lx_rest (pr_lexer p) = show_nat n @ rest" and "ends_number rest" and "int n < 2 ^ 64"
  shows "reads N p ValueUnsigned rest \<and> lx_unsigned (pr_lexer (read_token N p)) = int n"
proof -
  obtain c ds where s: "show_nat n = c # ds" using show_nat_nonempty by (cases "show_nat n") auto
  have d: "is_digit c" using show_nat_digits [of n] s by simp
  have r: "lx_rest (pr_lexer p) = c # ds @ rest" using assms(1) s by simp
  note g = lx_get_Cons [OF r]
  have "scan N (pr_lexer p) = scan_number N (lx_get (pr_lexer p))"
    using scan_first [OF r] digit_starts [OF d] d by simp
  with scan_unsigned [OF g(2) s g(1) assms(2,3)] reads_scan show ?thesis by metis
qed

lemma reads_negative:
  assumes "lx_rest (pr_lexer p) = CHR ''-'' # show_nat n @ rest" and "ends_number rest" and "0 < n"
    and "int64_min \<le> - int n"
  shows "reads N p ValueInteger rest \<and> lx_integer (pr_lexer (read_token N p)) = - int n"
proof -
  note g = lx_get_Cons [OF assms(1)]
  have "scan N (pr_lexer p) = scan_number N (lx_get (pr_lexer p))"
    using scan_first [OF assms(1)] by (simp add: is_ws_def)
  with scan_negative [OF g(2,1) assms(2-4)] reads_scan show ?thesis by metis
qed

section \<open>Values\<close>

text \<open>The value that comes back: a non-negative integer is parsed as an unsigned one.\<close>

fun reparsed :: "json \<Rightarrow> json"
  and reparsed_members :: "(string \<times> json) list \<Rightarrow> (string \<times> json) list"
  and reparsed_elements :: "json list \<Rightarrow> json list" where
  "reparsed (JObject kvs) = JObject (reparsed_members kvs)"
| "reparsed (JArray vs) = JArray (reparsed_elements vs)"
| "reparsed (JInt i) = (if 0 \<le> i then JUnsigned i else JInt i)"
| "reparsed j = j"
| "reparsed_members [] = []"
| "reparsed_members ((k, v) # kvs) = (k, reparsed v) # reparsed_members kvs"
| "reparsed_elements [] = []"
| "reparsed_elements (v # vs) = reparsed v # reparsed_elements vs"

text \<open>
  The values that can be in memory: objects ordered by key, integers of their width, strings that
  are UTF-8.  Floating-point numbers are left out: their text is the C library's.
\<close>

fun value_ok :: "json \<Rightarrow> bool"
  and members_value_ok :: "(string \<times> json) list \<Rightarrow> bool"
  and elements_value_ok :: "json list \<Rightarrow> bool" where
  "value_ok (JObject kvs) = (obj_wf kvs \<and> members_value_ok kvs)"
| "value_ok (JArray vs) = elements_value_ok vs"
| "value_ok (JString s) = utf8_valid s"
| "value_ok (JInt i) = (int64_min \<le> i \<and> i \<le> int64_max)"
| "value_ok (JUnsigned n) = (0 \<le> n \<and> n < 2 ^ 64)"
| "value_ok (JFloat d) = False"
| "value_ok _ = True"
| "members_value_ok [] = True"
| "members_value_ok ((k, v) # kvs) = (utf8_valid k \<and> value_ok v \<and> members_value_ok kvs)"
| "elements_value_ok [] = True"
| "elements_value_ok (v # vs) = (value_ok v \<and> elements_value_ok vs)"

lemma value_ok_strings:
  "value_ok j \<Longrightarrow> strings_ok j"
  "members_value_ok kvs \<Longrightarrow> members_ok kvs"
  "elements_value_ok vs \<Longrightarrow> elements_ok vs"
  by (induction j and kvs and vs rule: value_ok_members_value_ok_elements_value_ok.induct) simp_all

text \<open>The recursion a value needs.\<close>

fun need :: "json \<Rightarrow> nat"
  and members_need :: "(string \<times> json) list \<Rightarrow> nat"
  and elements_need :: "json list \<Rightarrow> nat" where
  "need (JObject kvs) = Suc (members_need kvs)"
| "need (JArray vs) = Suc (elements_need vs)"
| "need _ = 1"
| "members_need [] = 0"
| "members_need ((k, v) # kvs) = Suc (max (need v) (members_need kvs))"
| "elements_need [] = 0"
| "elements_need (v # vs) = Suc (max (need v) (elements_need vs))"

lemma show_int_nonempty [simp]: "show_int i \<noteq> []"
  by (simp add: show_int_def)

lemma length_dquote [simp]: "length dquote = 1"
  by (simp add: dquote_def)

lemma need_le:
  "value_ok j \<Longrightarrow> need j \<le> length (text_of N j)"
  "members_value_ok kvs \<Longrightarrow> members_need kvs \<le> length (members_text N kvs)"
  "elements_value_ok vs \<Longrightarrow> elements_need vs \<le> Suc (length (elements_text N vs))"
proof (induction N j and N kvs and N vs rule: text_of_members_text_elements_text.induct)
  case (5 N i)
  have "length (show_int i) \<noteq> 0" by simp
  then show ?case by (simp add: dump_integer_show Suc_le_eq)
next
  case (6 N n)
  have "length (show_int n) \<noteq> 0" by simp
  then show ?case by (simp add: dump_integer_show Suc_le_eq)
qed auto

lemma obj_emplace_last:
  "\<forall>k' \<in> fst ` set kvs. k' < k \<Longrightarrow> obj_emplace k v kvs = kvs @ [(k, v)]"
proof -
  assume a: "\<forall>k' \<in> fst ` set kvs. k' < k"
  then have "obj_put k v kvs = kvs @ [(k, v)]" by (induction kvs) auto
  moreover have "map_of kvs k = None" using a by (auto simp: map_of_eq_None_iff)
  ultimately show ?thesis by (simp add: obj_emplace_def)
qed

text \<open>A value that is one token.\<close>

lemma readsD: "reads N p t rest \<Longrightarrow> pr_last (read_token N p) = t \<and> lx_rest (pr_lexer (read_token N p)) = rest"
  by (simp add: reads_def)

definition scalar :: "json \<Rightarrow> bool" where
  "scalar j \<longleftrightarrow> \<not> (\<exists>kvs. j = JObject kvs) \<and> \<not> (\<exists>vs. j = JArray vs)"

definition opens :: "token \<Rightarrow> bool" where
  "opens t \<longleftrightarrow> t \<noteq> EndArray \<and> t \<noteq> EndObject"

lemma reads_integer:
  assumes "lx_rest (pr_lexer p) = show_int i @ rest" and "ends_number rest" and "int64_min \<le> i" and "i < 2 ^ 64"
  shows "let q = read_token N p in lx_rest (pr_lexer q) = rest \<and>
     (if 0 \<le> i then pr_last q = ValueUnsigned \<and> lx_unsigned (pr_lexer q) = i
      else pr_last q = ValueInteger \<and> lx_integer (pr_lexer q) = i)"
proof (cases "0 \<le> i")
  case True
  with assms have "lx_rest (pr_lexer p) = show_nat (nat i) @ rest" "int (nat i) < 2 ^ 64"
    by (simp_all add: show_int_def)
  with reads_unsigned [OF _ assms(2), of p "nat i" N] True show ?thesis by (simp add: reads_def Let_def)
next
  case False
  with assms have "lx_rest (pr_lexer p) = CHR ''-'' # show_nat (nat (- i)) @ rest" "0 < nat (- i)"
    "int64_min \<le> - int (nat (- i))"
    by (simp_all add: show_int_def)
  with reads_negative [OF _ assms(2), of p "nat (- i)" N] False show ?thesis by (simp add: reads_def Let_def)
qed

lemma scalar_back:
  assumes "scalar j" and "value_ok j" and "lx_rest (pr_lexer p) = text_of N j @ rest" and "ends_number rest"
  shows "let q = read_token N p in
    parse_scalar (pr_last q) q = (Inr (reparsed j), q) \<and> lx_rest (pr_lexer q) = rest \<and> opens (pr_last q) \<and>
    pr_last q \<noteq> BeginObject \<and> pr_last q \<noteq> BeginArray"
proof (cases j)
  case JNull
  with assms(3) reads_literal(3) [of p rest N]
  show ?thesis by (simp add: reads_def parse_scalar_def sret_def opens_def Let_def)
next
  case (JBool b)
  with assms(3) reads_literal(1,2) [of p rest N]
  show ?thesis by (cases b) (simp_all add: reads_def parse_scalar_def sret_def opens_def Let_def)
next
  case (JInt i)
  with assms(2) have "i < 2 ^ 64" by (simp add: int64_max_def)
  with JInt assms(2,3) reads_integer [OF _ assms(4), of p i N]
  show ?thesis by (auto simp: dump_integer_show parse_scalar_def opens_def Let_def split: if_splits)
next
  case (JUnsigned n)
  with assms(2) have "int64_min \<le> n" by (simp add: int64_min_def)
  with JUnsigned assms(2,3) reads_integer [OF _ assms(4), of p n N]
  show ?thesis by (simp add: dump_integer_show parse_scalar_def opens_def Let_def)
next
  case (JString s)
  with assms(2,3) reads_string [of s p rest N]
  show ?thesis
    by (simp add: reads_def parse_scalar_def sret_def opens_def Let_def sbind_parser_simps)
qed (use assms in \<open>simp_all add: scalar_def\<close>)

text \<open>The parser, whose next token starts the value, gives it back and leaves the rest.\<close>

definition value_back :: "num_lib \<Rightarrow> json \<Rightarrow> bool" where
  "value_back N j \<longleftrightarrow> (\<forall>n p rest. need j \<le> n \<longrightarrow> lx_rest (pr_lexer p) = text_of N j @ rest \<longrightarrow> ends_number rest \<longrightarrow>
     opens (pr_last (read_token N p)) \<and>
     (\<exists>q. parse_internal N n (read_token N p) = (Inr (reparsed j), q) \<and> lx_rest (pr_lexer q) = rest))"

definition members_back :: "num_lib \<Rightarrow> (string \<times> json) list \<Rightarrow> bool" where
  "members_back N kvs \<longleftrightarrow> (\<forall>n p acc rest. members_need kvs \<le> n \<longrightarrow>
     lx_rest (pr_lexer p) = members_text N kvs @ ''}'' @ rest \<longrightarrow>
     (\<forall>k \<in> fst ` set acc. \<forall>k' \<in> fst ` set kvs. k < k') \<longrightarrow>
     (\<exists>q. parse_members N n acc (read_token N p) = (Inr (JObject (acc @ reparsed_members kvs)), q) \<and>
       lx_rest (pr_lexer q) = rest))"

definition elements_back :: "num_lib \<Rightarrow> json list \<Rightarrow> bool" where
  "elements_back N vs \<longleftrightarrow> (\<forall>n p acc rest. elements_need vs \<le> n \<longrightarrow>
     lx_rest (pr_lexer p) = elements_text N vs @ '']'' @ rest \<longrightarrow>
     opens (pr_last (read_token N p)) \<and>
     (\<exists>q. parse_elements N n acc (read_token N p) = (Inr (JArray (acc @ reparsed_elements vs)), q) \<and>
       lx_rest (pr_lexer q) = rest))"

lemma members_backD:
  assumes "members_back N kvs" and "members_need kvs \<le> n"
    and "lx_rest (pr_lexer p) = members_text N kvs @ ''}'' @ rest"
    and "\<forall>k \<in> fst ` set acc. \<forall>k' \<in> fst ` set kvs. k < k'"
  shows "\<exists>q. parse_members N n acc (read_token N p) = (Inr (JObject (acc @ reparsed_members kvs)), q) \<and>
    lx_rest (pr_lexer q) = rest"
  using assms unfolding members_back_def by blast

lemma elements_backD:
  assumes "elements_back N vs" and "elements_need vs \<le> n"
    and "lx_rest (pr_lexer p) = elements_text N vs @ '']'' @ rest"
  shows "opens (pr_last (read_token N p)) \<and>
    (\<exists>q. parse_elements N n acc (read_token N p) = (Inr (JArray (acc @ reparsed_elements vs)), q) \<and>
      lx_rest (pr_lexer q) = rest)"
  using assms unfolding elements_back_def by blast

lemma ends_number_simps [simp]:
  "ends_number []" "ends_number (CHR '','' # rest)" "ends_number (CHR ''}'' # rest)" "ends_number (CHR '']'' # rest)"
  by (simp_all add: ends_number_def is_digit_def is_exp_def)

lemma value_back_scalar:
  assumes "scalar j" and "value_ok j" and "need j = 1"
  shows "value_back N j"
  unfolding value_back_def
proof (intro allI impI)
  fix n :: nat and p :: parser and rest
  assume n: "need j \<le> n" and r: "lx_rest (pr_lexer p) = text_of N j @ rest" "ends_number rest"
  obtain m where m: "n = Suc m" using n assms(3) by (cases n) auto
  from scalar_back [OF assms(1,2) r] m
  show "opens (pr_last (read_token N p)) \<and>
      (\<exists>q. parse_internal N n (read_token N p) = (Inr (reparsed j), q) \<and> lx_rest (pr_lexer q) = rest)"
    by (simp add: sbind_parser_simps Let_def)
qed

lemma value_back_object:
  assumes "kvs \<noteq> [] \<Longrightarrow> members_back N kvs"
  shows "value_back N (JObject kvs)"
  unfolding value_back_def
proof (intro allI impI)
  fix n :: nat and p :: parser and rest
  assume n: "need (JObject kvs) \<le> n" and r: "lx_rest (pr_lexer p) = text_of N (JObject kvs) @ rest"
  obtain m where m: "n = Suc m" "members_need kvs \<le> m" using n by (cases n) auto
  let ?p = "read_token N p"
  have r1: "pr_last ?p = BeginObject" "lx_rest (pr_lexer ?p) = members_text N kvs @ ''}'' @ rest"
    using readsD [OF reads_punctuation(3)] r by simp_all
  have "\<exists>q. parse_internal N n ?p = (Inr (reparsed (JObject kvs)), q) \<and> lx_rest (pr_lexer q) = rest"
  proof (cases kvs)
    case Nil
    with r1 readsD [OF reads_punctuation(4) [of ?p rest N]] m show ?thesis
      by (simp add: sbind_parser_simps sret_def)
  next
    case (Cons kv kvs')
    then have "kvs \<noteq> []" by simp
    from members_backD [OF assms [OF this] m(2) r1(2), of "[]"]
    obtain q where "parse_members N m [] (read_token N ?p) = (Inr (JObject (reparsed_members kvs)), q)"
      "lx_rest (pr_lexer q) = rest" by auto
    moreover have "pr_last (read_token N ?p) \<noteq> EndObject"
    proof -
      obtain k v where "kv = (k, v)" by (metis surj_pair)
      with Cons r1(2) have "lx_rest (pr_lexer ?p) = CHR 0x22 # tl (lx_rest (pr_lexer ?p))"
        by (simp add: dquote_def)
      from scan_first [OF this, of N] show ?thesis
        using scan_string_token [of "lx_reset (lx_get (pr_lexer ?p))"]
        by (auto simp: is_ws_def is_digit_def Let_def read_token_def scan_string_def string_token_def)
    qed
    ultimately show ?thesis using r1(1) m by (simp add: sbind_parser_simps)
  qed
  with r1(1) show "opens (pr_last ?p) \<and>
      (\<exists>q. parse_internal N n ?p = (Inr (reparsed (JObject kvs)), q) \<and> lx_rest (pr_lexer q) = rest)"
    by (simp add: opens_def)
qed

lemma value_back_array:
  assumes "vs \<noteq> [] \<Longrightarrow> elements_back N vs"
  shows "value_back N (JArray vs)"
  unfolding value_back_def
proof (intro allI impI)
  fix n :: nat and p :: parser and rest
  assume n: "need (JArray vs) \<le> n" and r: "lx_rest (pr_lexer p) = text_of N (JArray vs) @ rest"
  obtain m where m: "n = Suc m" "elements_need vs \<le> m" using n by (cases n) auto
  let ?p = "read_token N p"
  have r1: "pr_last ?p = BeginArray" "lx_rest (pr_lexer ?p) = elements_text N vs @ '']'' @ rest"
    using readsD [OF reads_punctuation(1)] r by simp_all
  have "\<exists>q. parse_internal N n ?p = (Inr (reparsed (JArray vs)), q) \<and> lx_rest (pr_lexer q) = rest"
  proof (cases "vs = []")
    case True
    with r1 readsD [OF reads_punctuation(2) [of ?p rest N]] m show ?thesis
      by (simp add: sbind_parser_simps sret_def)
  next
    case False
    from elements_backD [OF assms [OF this] m(2) r1(2), of "[]"] have o: "opens (pr_last (read_token N ?p))"
      and "\<exists>q. parse_elements N m [] (read_token N ?p) = (Inr (JArray (reparsed_elements vs)), q) \<and> lx_rest (pr_lexer q) = rest"
      by auto
    then show ?thesis using r1(1) m by (simp add: sbind_parser_simps opens_def)
  qed
  with r1(1) show "opens (pr_last ?p) \<and>
      (\<exists>q. parse_internal N n ?p = (Inr (reparsed (JArray vs)), q) \<and> lx_rest (pr_lexer q) = rest)"
    by (simp add: opens_def)
qed

lemma elements_back_Cons:
  assumes v: "value_back N v" and vs: "vs \<noteq> [] \<Longrightarrow> elements_back N vs"
  shows "elements_back N (v # vs)"
  unfolding elements_back_def
proof (intro allI impI)
  fix n :: nat and p :: parser and acc rest
  assume n: "elements_need (v # vs) \<le> n" and r: "lx_rest (pr_lexer p) = elements_text N (v # vs) @ '']'' @ rest"
  obtain m where m: "n = Suc m" "need v \<le> m" "elements_need vs \<le> m" using n by (cases n) auto
  let ?p = "read_token N p" and ?rest = "(if vs = [] then [] else '','' @ elements_text N vs) @ '']'' @ rest"
  have "lx_rest (pr_lexer p) = text_of N v @ ?rest" "ends_number ?rest" using r by simp_all
  with v m(2) obtain q where o: "opens (pr_last ?p)" and q: "parse_internal N m ?p = (Inr (reparsed v), q)"
    "lx_rest (pr_lexer q) = ?rest"
    unfolding value_back_def by meson
  have "\<exists>q'. parse_elements N n acc ?p = (Inr (JArray (acc @ reparsed_elements (v # vs))), q') \<and> lx_rest (pr_lexer q') = rest"
  proof (cases "vs = []")
    case True
    with q readsD [OF reads_punctuation(2) [of q rest N]] m(1) show ?thesis
      by (simp add: sbind_parser_simps sret_def)
  next
    case False
    let ?q = "read_token N q"
    have r1: "pr_last ?q = ValueSeparator" "lx_rest (pr_lexer ?q) = elements_text N vs @ '']'' @ rest"
      using readsD [OF reads_punctuation(6) [of q "elements_text N vs @ '']'' @ rest" N]] q(2) False by simp_all
    from elements_backD [OF vs [OF False] m(3) r1(2)] obtain q' where
      "parse_elements N m (acc @ [reparsed v]) (read_token N ?q) = (Inr (JArray ((acc @ [reparsed v]) @ reparsed_elements vs)), q')"
      "lx_rest (pr_lexer q') = rest" by meson
    with r1(1) q(1) m(1) show ?thesis by (simp add: sbind_parser_simps)
  qed
  with o show "opens (pr_last ?p) \<and> (\<exists>q. parse_elements N n acc ?p =
      (Inr (JArray (acc @ reparsed_elements (v # vs))), q) \<and> lx_rest (pr_lexer q) = rest)" by blast
qed

lemma members_back_Cons:
  assumes k: "utf8_valid k" "\<forall>k' \<in> fst ` set kvs. k < k'"
    and v: "value_back N v" and kvs: "kvs \<noteq> [] \<Longrightarrow> members_back N kvs"
  shows "members_back N ((k, v) # kvs)"
  unfolding members_back_def
proof (intro allI impI)
  fix n :: nat and p :: parser and acc :: "(string \<times> json) list" and rest
  assume n: "members_need ((k, v) # kvs) \<le> n"
    and r: "lx_rest (pr_lexer p) = members_text N ((k, v) # kvs) @ ''}'' @ rest"
    and acc: "\<forall>a \<in> fst ` set acc. \<forall>k' \<in> fst ` set ((k, v) # kvs). a < k'"
  obtain m where m: "n = Suc m" "need v \<le> m" "members_need kvs \<le> m" using n by (cases n) auto
  let ?p = "read_token N p" and ?rest = "(if kvs = [] then [] else '','' @ members_text N kvs) @ ''}'' @ rest"
  have p: "pr_last ?p = ValueString" "lx_yytext (pr_lexer ?p) = k"
    "lx_rest (pr_lexer ?p) = CHR '':'' # text_of N v @ ?rest"
    using reads_string [OF k(1), of p "CHR '':'' # text_of N v @ ?rest" N] r by (simp_all add: reads_def)
  let ?c = "read_token N ?p"
  have c: "pr_last ?c = NameSeparator" "lx_rest (pr_lexer ?c) = text_of N v @ ?rest"
    using readsD [OF reads_punctuation(5) [OF p(3)]] by simp_all
  have "ends_number ?rest" by simp
  with v m(2) c(2) obtain q where q: "parse_internal N m (read_token N ?c) = (Inr (reparsed v), q)"
    "lx_rest (pr_lexer q) = ?rest"
    unfolding value_back_def by meson
  have e: "obj_emplace k (reparsed v) acc = acc @ [(k, reparsed v)]"
    by (rule obj_emplace_last) (use acc in simp)
  show "\<exists>q'. parse_members N n acc ?p = (Inr (JObject (acc @ reparsed_members ((k, v) # kvs))), q') \<and>
      lx_rest (pr_lexer q') = rest"
  proof (cases "kvs = []")
    case True
    with q readsD [OF reads_punctuation(4) [of q rest N]] m(1) e p c show ?thesis
      by (simp add: sbind_parser_simps sret_def)
  next
    case False
    let ?q = "read_token N q"
    have r1: "pr_last ?q = ValueSeparator" "lx_rest (pr_lexer ?q) = members_text N kvs @ ''}'' @ rest"
      using readsD [OF reads_punctuation(6) [of q "members_text N kvs @ ''}'' @ rest" N]] q(2) False by simp_all
    have "\<forall>a \<in> fst ` set (acc @ [(k, reparsed v)]). \<forall>k' \<in> fst ` set kvs. a < k'" using acc k(2) by auto
    from members_backD [OF kvs [OF False] m(3) r1(2) this] obtain q' where
      "parse_members N m (acc @ [(k, reparsed v)]) (read_token N ?q) =
        (Inr (JObject ((acc @ [(k, reparsed v)]) @ reparsed_members kvs)), q')"
      "lx_rest (pr_lexer q') = rest" by blast
    with r1(1) q(1) m(1) e p c show ?thesis by (simp add: sbind_parser_simps)
  qed
qed

lemma comes_back:
  "value_ok j \<Longrightarrow> value_back N j"
  "members_value_ok kvs \<Longrightarrow> obj_wf kvs \<Longrightarrow> kvs \<noteq> [] \<Longrightarrow> members_back N kvs"
  "elements_value_ok vs \<Longrightarrow> vs \<noteq> [] \<Longrightarrow> elements_back N vs"
proof (induction N j and N kvs and N vs rule: text_of_members_text_elements_text.induct)
  case (1 N kvs)
  then show ?case by (intro value_back_object) simp
next
  case (2 N vs)
  then show ?case by (intro value_back_array) simp
next
  case (10 N k v kvs)
  then show ?case by (intro members_back_Cons) (auto simp: obj_wf_Cons)
next
  case (12 N v vs)
  then show ?case by (intro elements_back_Cons) auto
qed (auto intro!: value_back_scalar simp: scalar_def)

lemma input_adapter_ascii: "b = c # cs \<Longrightarrow> c \<noteq> CHR 0xEF \<Longrightarrow> input_adapter b = b"
  by (auto simp: input_adapter_def take_Suc)

lemma text_first: "value_ok j \<Longrightarrow> \<exists>c cs. text_of N j = c # cs \<and> c \<noteq> CHR 0xEF"
proof -
  have n: "\<exists>c cs. show_nat n = c # cs \<and> c \<noteq> CHR 0xEF" for n
  proof -
    obtain c cs where c: "show_nat n = c # cs" using show_nat_nonempty by (cases "show_nat n") auto
    have "is_digit c" using show_nat_digits [of n] c by simp
    then have "c \<noteq> CHR 0xEF" by (auto simp: is_digit_def)
    with c show ?thesis by blast
  qed
  have i: "\<exists>c cs. show_int i = c # cs \<and> c \<noteq> CHR 0xEF" for i
    using n by (simp add: show_int_def)
  assume "value_ok j"
  then show ?thesis using i by (cases j) (auto simp: dquote_def dump_integer_show)
qed

text \<open>(C5) What is written is read back: serialising a value whose strings are UTF-8 succeeds, and
  parsing the text gives the same value, non-negative integers as unsigned ones.\<close>

theorem json_roundtrip:
  assumes "value_ok j"
  shows "\<exists>s. json_dump N j = Inr s \<and> json_parse N s = Inr (reparsed j)"
proof -
  let ?s = "text_of N j"
  from text_first [OF assms, of N] have a: "input_adapter ?s = ?s" using input_adapter_ascii by metis
  let ?p = "parser_new ?s"
  have "need j \<le> parse_fuel ?s" using need_le(1) [OF assms, of N] by (simp add: parse_fuel_def)
  moreover have "lx_rest (pr_lexer ?p) = ?s @ []" by (simp add: parser_new_def lexer_new_def a)
  ultimately obtain q where q: "parse_internal N (parse_fuel ?s) (read_token N ?p) = (Inr (reparsed j), q)"
    "lx_rest (pr_lexer q) = []"
    using comes_back(1) [OF assms, of N] ends_number_simps(1) unfolding value_back_def by meson
  from readsD [OF reads_end [OF q(2), of N]] have "pr_last (read_token N q) = EndOfInput" by simp
  with q(1) have "json_parse N ?s = Inr (reparsed j)"
    by (simp add: json_parse_def parse_strict_def sbind_parser_simps sret_def)
  with json_dump_text [OF value_ok_strings(1) [OF assms], of N] show ?thesis by blast
qed

text \<open>An object with an escaped string, a negative integer and a nested array.\<close>

definition sample :: json where
  "sample = JObject [(''a'', JArray [JInt (- 7), JNull, JBool True]), (''b'', JString [CHR 0x0A, CHR 0xC3, CHR 0xA9])]"

theorem json_roundtrip_witness:
  "value_ok sample \<and> (\<forall>N. \<exists>s. json_dump N sample = Inr s \<and> json_parse N s = Inr sample)"
proof -
  have v: "value_ok sample" by code_simp
  have n: "reparsed sample = sample" by (simp add: sample_def)
  from json_roundtrip [OF v] v show ?thesis unfolding n by blast
qed

end
