(* ===== verification/JsonPointer.thy ===== *)
theory JsonPointer
  imports JsonParser QueryEngine
begin

text \<open>
  JSON pointers of \<^verbatim>\<open>src/json.hpp\<close>: the class \<open>json_pointer\<close>, its text form, and the access to a part
  of a value, checked (\<open>at\<close>) and unchecked (\<open>operator[]\<close>).
\<close>

section \<open>Texts\<close>

text \<open>\<open>replace_substring\<close> goes on after the text it has put in.\<close>

fun replace_substring :: "string \<Rightarrow> string \<Rightarrow> string \<Rightarrow> string" where
  "replace_substring f t [] = []"
| "replace_substring f t (c # s) =
     (if f \<noteq> [] \<and> starts_with f (c # s) then t @ replace_substring f t (drop (length f - 1) s)
      else c # replace_substring f t s)"

definition pointer_escape :: "string \<Rightarrow> string" where
  "pointer_escape s = replace_substring ''/'' ''~1'' (replace_substring ''~'' ''~0'' s)"

definition pointer_unescape :: "string \<Rightarrow> string" where
  "pointer_unescape s = replace_substring ''~0'' ''~'' (replace_substring ''~1'' ''/'' s)"

text \<open>Every tilde is followed by a 0 or a 1.\<close>

fun tildes_ok :: "string \<Rightarrow> bool" where
  "tildes_ok [] = True"
| "tildes_ok (c # s) =
     ((c = CHR ''~'' \<longrightarrow> (case s of [] \<Rightarrow> False | d # _ \<Rightarrow> d = CHR ''0'' \<or> d = CHR ''1'')) \<and> tildes_ok s)"

text \<open>A pointer is the list of its reference tokens.\<close>

type_synonym pointer = "string list"

definition reference_token :: "string \<Rightarrow> string outcome" where
  "reference_token t =
     (if tildes_ok t then Inr (pointer_unescape t)
      else Inl (parse_error 108 0
        (''escape character '' @ quoted ''~'' @ '' must be followed with '' @ quoted ''0'' @ '' or '' @ quoted ''1'')))"

definition pointer_split :: "string \<Rightarrow> pointer outcome" where
  "pointer_split reference_string =
     (case reference_string of
        [] \<Rightarrow> Inr []
      | c # s \<Rightarrow>
          if c \<noteq> CHR ''/'' then
            Inl (parse_error 107 1 (''JSON pointer must be empty or begin with '' @ quoted ''/'' @ '' - was: '' @
              quoted reference_string))
          else emap reference_token (split_at_char (CHR ''/'') s))"

definition pointer_to_string :: "pointer \<Rightarrow> string" where
  "pointer_to_string ts = fold (\<lambda>b a. a @ ''/'' @ pointer_escape b) ts []"

definition pop_back :: "pointer \<Rightarrow> (string \<times> pointer) outcome" where
  "pop_back ts = (if ts = [] then Inl (out_of_range 405 ''JSON pointer has no parent'')
     else Inr (List.last ts, butlast ts))"

section \<open>Reading the text of a pointer\<close>

lemma replace_char:
  "replace_substring [c] t s = concat (map (\<lambda>d. if d = c then t else [d]) s)"
  by (induction s) auto

lemma pointer_escape_concat:
  "pointer_escape s = concat (map (\<lambda>c. if c = CHR ''~'' then ''~0'' else if c = CHR ''/'' then ''~1'' else [c]) s)"
  unfolding pointer_escape_def replace_char by (induction s) simp_all

lemma unescape_escape: "pointer_unescape (pointer_escape s) = s"
proof -
  have "replace_substring ''~1'' ''/'' (pointer_escape s) =
      concat (map (\<lambda>c. if c = CHR ''~'' then ''~0'' else [c]) s)"
    unfolding pointer_escape_concat by (induction s) auto
  moreover have "replace_substring ''~0'' ''~'' (concat (map (\<lambda>c. if c = CHR ''~'' then ''~0'' else [c]) s)) = s"
    by (induction s) auto
  ultimately show ?thesis by (simp add: pointer_unescape_def)
qed

lemma tildes_ok_escape: "tildes_ok (pointer_escape s)"
  unfolding pointer_escape_concat by (induction s) auto

lemma escape_no_slash: "CHR ''/'' \<notin> set (pointer_escape s)"
  unfolding pointer_escape_concat by (induction s) auto

lemma split_at_char_no: "c \<notin> set s \<Longrightarrow> split_at_char c s = [s]"
  by (induction s) auto

lemma split_at_char_append: "c \<notin> set s \<Longrightarrow> split_at_char c (s @ c # t) = s # split_at_char c t"
  by (induction s) auto

lemma fold_append_concat: "fold (\<lambda>b a. a @ f b) ts a = a @ concat (map f ts)"
  by (induction ts arbitrary: a) auto

lemma pointer_to_string_concat: "pointer_to_string ts = concat (map (\<lambda>t. ''/'' @ pointer_escape t) ts)"
  unfolding pointer_to_string_def fold_append_concat [where a = "[]"] by simp

lemma pointer_to_string_simps [simp]:
  "pointer_to_string [] = []"
  "pointer_to_string (t # ts) = ''/'' @ pointer_escape t @ pointer_to_string ts"
  "pointer_to_string (ts @ us) = pointer_to_string ts @ pointer_to_string us"
  by (simp_all add: pointer_to_string_concat)

lemma split_to_string:
  "split_at_char (CHR ''/'') (pointer_escape t @ pointer_to_string ts) = map pointer_escape (t # ts)"
proof (induction ts arbitrary: t)
  case Nil
  show ?case by (simp add: split_at_char_no escape_no_slash)
next
  case (Cons u ts)
  then show ?case by (simp add: split_at_char_append escape_no_slash)
qed

text \<open>The invariant that the class documents: a pointer is what its text reads as.\<close>

theorem pointer_roundtrip: "pointer_split (pointer_to_string ts) = Inr ts"
proof (cases ts)
  case (Cons t us)
  have "emap reference_token (map pointer_escape ts) = Inr ts"
    by (induction ts) (simp_all add: reference_token_def tildes_ok_escape unescape_escape)
  with Cons split_to_string [of t us] show ?thesis by (simp add: pointer_split_def)
qed (simp add: pointer_split_def)

section \<open>Access\<close>

text \<open>\<open>std::stoi\<close>: white space, a sign and digits are read, what follows is ignored.\<close>

datatype stoi_result = NotANumber | TooLarge | Number int

definition stoi :: "string \<Rightarrow> stoi_result" where
  "stoi s =
     (let t = dropWhile is_space s;
          u = (case t of c # t' \<Rightarrow> (if c = CHR ''-'' \<or> c = CHR ''+'' then t' else t) | [] \<Rightarrow> [])
      in if u = [] \<or> \<not> is_digit (hd u) then NotANumber
         else if in_int32 (strtol10 s) then Number (strtol10 s) else TooLarge)"

text \<open>The exceptions of \<open>stoi\<close> itself, and \<open>static_cast<size_type>\<close> of an \<open>int\<close>.\<close>

definition stoi_int :: "string \<Rightarrow> int outcome" where
  "stoi_int s = (case stoi s of Number i \<Rightarrow> Inr i | _ \<Rightarrow> Inl (StdError ''stoi''))"

definition to_size :: "int \<Rightarrow> nat" where
  "to_size i = nat (i mod 2 ^ 64)"

text \<open>The index a token names; only \<open>std::invalid_argument\<close> is turned into an exception of the library.\<close>

definition array_index :: "string \<Rightarrow> nat outcome" where
  "array_index t = (case stoi t of
     NotANumber \<Rightarrow> Inl (parse_error 109 0 (''array index '' @ quoted t @ '' is not a number''))
   | TooLarge \<Rightarrow> Inl (StdError ''stoi'')
   | Number i \<Rightarrow> Inr (to_size i))"

definition leading_zero :: "string \<Rightarrow> bool" where
  "leading_zero t \<longleftrightarrow> length t > 1 \<and> hd t = CHR ''0''"

definition leading_zero_error :: "string \<Rightarrow> error" where
  "leading_zero_error t = parse_error 106 0 (''array index '' @ quoted t @ '' must not begin with '' @ quoted ''0'')"

definition unresolved :: "string \<Rightarrow> error" where
  "unresolved t = out_of_range 404 (''unresolved reference token '' @ quoted t)"

definition index_out_of_range :: "string \<Rightarrow> error" where
  "index_out_of_range i = out_of_range 401 (''array index '' @ i @ '' is out of range'')"

definition key_not_found :: "string \<Rightarrow> error" where
  "key_not_found k = out_of_range 403 (''key '' @ quoted k @ '' not found'')"

text \<open>A reference into a value: what it refers to, and the whole after an assignment through it.\<close>

type_synonym json_place = "json \<times> (json \<Rightarrow> json)"

text \<open>One step of \<open>get_checked\<close>.\<close>

definition child_at :: "string \<Rightarrow> json \<Rightarrow> json_place outcome" where
  "child_at t j = (case j of
     JObject kvs \<Rightarrow>
       (case map_of kvs t of
          None \<Rightarrow> Inl (key_not_found t)
        | Some v \<Rightarrow> Inr (v, \<lambda>w. JObject (obj_put t w kvs)))
   | JArray vs \<Rightarrow>
       (if t = ''-'' then Inl (out_of_range 402
              (''array index '' @ quoted ''-'' @ '' ('' @ show_nat (length vs) @ '') is out of range''))
        else if leading_zero t then Inl (leading_zero_error t)
        else ebind (array_index t) (\<lambda>i.
          if i < length vs then Inr (vs ! i, \<lambda>w. JArray (vs[i := w]))
          else Inl (index_out_of_range (show_nat i))))
   | _ \<Rightarrow> Inl (unresolved t))"

fun pointer_at :: "pointer \<Rightarrow> json \<Rightarrow> json_place outcome" where
  "pointer_at [] j = Inr (j, \<lambda>w. w)"
| "pointer_at (t # ts) j =
     ebind (child_at t j) (\<lambda>(c, put_child).
     ebind (pointer_at ts c) (\<lambda>(v, put_value). Inr (v, put_child \<circ> put_value)))"

text \<open>
  \<open>operator[]\<close> of an array fills it up with nulls.  The number of nulls is computed in \<open>size_t\<close>, and
  \<open>std::vector\<close> refuses more elements than it can address.
\<close>

definition max_elements :: nat where "max_elements = 2 ^ 59 - 1"

definition array_fill :: "nat \<Rightarrow> json list \<Rightarrow> json list outcome" where
  "array_fill i vs =
     (if i < length vs then Inr vs
      else
        let n = to_size (int i - int (length vs) + 1)
        in if n > max_elements - length vs then Inl (StdError ''vector::_M_fill_insert'')
           else if i < length vs + n then Inr (vs @ replicate n JNull)
           else Inl (UB OutOfBounds))"

definition array_place :: "nat \<Rightarrow> json list \<Rightarrow> json_place outcome" where
  "array_place i vs = ebind (array_fill i vs) (\<lambda>vs'. Inr (vs' ! i, \<lambda>w. JArray (vs'[i := w])))"

text \<open>One step of \<open>get_unchecked\<close>: a null becomes a container, a missing key gets a null.\<close>

definition child_create :: "string \<Rightarrow> json \<Rightarrow> json_place outcome" where
  "child_create t j =
     (let j1 = (if is_null j then (if list_all is_digit t \<or> t = ''-'' then JArray [] else JObject []) else j)
      in case j1 of
           JObject kvs \<Rightarrow>
             Inr (case map_of kvs t of None \<Rightarrow> JNull | Some v \<Rightarrow> v, \<lambda>w. JObject (obj_put t w kvs))
         | JArray vs \<Rightarrow>
             (if leading_zero t then Inl (leading_zero_error t)
              else if t = ''-'' then array_place (length vs) vs
              else ebind (array_index t) (\<lambda>i. array_place i vs))
         | _ \<Rightarrow> Inl (unresolved t))"

fun pointer_create :: "pointer \<Rightarrow> json \<Rightarrow> json_place outcome" where
  "pointer_create [] j = Inr (j, \<lambda>w. w)"
| "pointer_create (t # ts) j =
     ebind (child_create t j) (\<lambda>(c, put_child).
     ebind (pointer_create ts c) (\<lambda>(v, put_value). Inr (v, put_child \<circ> put_value)))"

end
