(* ===== verification/JsonPatch.thy ===== *)
theory JsonPatch
  imports JsonPointer JsonSerializer
begin

text \<open>
  Comparison of JSON values, and the JSON patches of \<^verbatim>\<open>src/json.hpp\<close>: \<open>patch\<close> applies a list of
  operations to a copy of a value, \<open>diff\<close> computes one.
\<close>

section \<open>Comparison\<close>

text \<open>\<open>D\<close> is the conversion of an integer to \<open>double\<close>, which rounds.\<close>

fun json_eq :: "(int \<Rightarrow> dbl) \<Rightarrow> json \<Rightarrow> json \<Rightarrow> bool"
  and elements_eq :: "(int \<Rightarrow> dbl) \<Rightarrow> json list \<Rightarrow> json list \<Rightarrow> bool"
  and members_eq :: "(int \<Rightarrow> dbl) \<Rightarrow> (string \<times> json) list \<Rightarrow> (string \<times> json) list \<Rightarrow> bool" where
  "json_eq D (JArray xs) j = (case j of JArray ys \<Rightarrow> elements_eq D xs ys | _ \<Rightarrow> False)"
| "json_eq D (JObject kvs) j = (case j of JObject lvs \<Rightarrow> members_eq D kvs lvs | _ \<Rightarrow> False)"
| "json_eq D JNull j = (case j of JNull \<Rightarrow> True | _ \<Rightarrow> False)"
| "json_eq D (JString s) j = (case j of JString t \<Rightarrow> s = t | _ \<Rightarrow> False)"
| "json_eq D (JBool a) j = (case j of JBool b \<Rightarrow> a = b | _ \<Rightarrow> False)"
| "json_eq D (JInt i) j = (case j of JInt k \<Rightarrow> i = k | JFloat y \<Rightarrow> dbl_eq (D i) y
     | JUnsigned k \<Rightarrow> i = to_int64 k | _ \<Rightarrow> False)"
| "json_eq D (JUnsigned i) j = (case j of JUnsigned k \<Rightarrow> i = k | JFloat y \<Rightarrow> dbl_eq (D i) y
     | JInt k \<Rightarrow> to_int64 i = k | _ \<Rightarrow> False)"
| "json_eq D (JFloat x) j = (case j of JFloat y \<Rightarrow> dbl_eq x y | JInt k \<Rightarrow> dbl_eq x (D k)
     | JUnsigned k \<Rightarrow> dbl_eq x (D k) | _ \<Rightarrow> False)"
| "elements_eq D [] ys = (ys = [])"
| "elements_eq D (x # xs) ys = (case ys of [] \<Rightarrow> False | y # ys' \<Rightarrow> json_eq D x y \<and> elements_eq D xs ys')"
| "members_eq D [] lvs = (lvs = [])"
| "members_eq D ((k, x) # kvs) lvs =
     (case lvs of [] \<Rightarrow> False | (l, y) # lvs' \<Rightarrow> k = l \<and> json_eq D x y \<and> members_eq D kvs lvs')"

section \<open>Applying a patch\<close>

text \<open>
  The libraries, and which operand the compiler evaluates first where the language leaves it open: the
  right one of the assignments in \<open>replace\<close> and \<open>copy\<close>, and of the comparison in \<open>test\<close>.
\<close>

record patch_env =
  pe_num :: num_lib
  pe_double :: "int \<Rightarrow> dbl"
  pe_assign_right_first :: bool
  pe_test_right_first :: bool

definition other_error :: "nat \<Rightarrow> string \<Rightarrow> error" where
  "other_error i what_arg = StdError (exception_name ''other_error'' i @ what_arg)"

text \<open>\<open>operation_add\<close>: the last case is an assertion that fails.\<close>

definition operation_add :: "pointer \<Rightarrow> json \<Rightarrow> json \<Rightarrow> json outcome" where
  "operation_add ptr val result =
     (if ptr = [] then Inr val
      else
        ebind (if [hd ptr] \<noteq> ptr then pointer_at [hd ptr] result else Inr (result, \<lambda>w. w)) (\<lambda>_.
        ebind (pop_back ptr) (\<lambda>(last_path, parent_ptr).
        ebind (pointer_create parent_ptr result) (\<lambda>(parent, put).
          (case parent of
             JNull \<Rightarrow> Inr (put (JObject [(last_path, val)]))
           | JObject kvs \<Rightarrow> Inr (put (JObject (obj_put last_path val kvs)))
           | JArray vs \<Rightarrow>
               (if last_path = ''-'' then Inr (put (JArray (vs @ [val])))
                else ebind (stoi_int last_path) (\<lambda>idx.
                  if to_size idx > length vs then Inl (index_out_of_range (show_int idx))
                  else Inr (put (JArray (take (to_size idx) vs @ val # drop (to_size idx) vs)))))
           | _ \<Rightarrow> Inl Aborts)))))"

text \<open>\<open>operation_remove\<close>: nothing happens below a value that is neither object nor array.\<close>

definition operation_remove :: "pointer \<Rightarrow> json \<Rightarrow> json outcome" where
  "operation_remove ptr result =
     ebind (pop_back ptr) (\<lambda>(last_path, parent_ptr).
     ebind (pointer_at parent_ptr result) (\<lambda>(parent, put).
       (case parent of
          JObject kvs \<Rightarrow>
            (if map_of kvs last_path = None then Inl (key_not_found last_path)
             else Inr (put (JObject (filter (\<lambda>p. fst p \<noteq> last_path) kvs))))
        | JArray vs \<Rightarrow>
            ebind (stoi_int last_path) (\<lambda>i.
              let idx = to_size i
              in if idx \<ge> length vs then Inl (index_out_of_range (show_nat idx))
                 else Inr (put (JArray (take idx vs @ drop (Suc idx) vs))))
        | _ \<Rightarrow> Inr result)))"

definition patch_member :: "(string \<times> json) list \<Rightarrow> string \<Rightarrow> string \<Rightarrow> bool \<Rightarrow> json outcome" where
  "patch_member val op member string_type =
     (let error_msg = (if op = ''op'' then ''operation'' else ''operation '' @ quoted op)
      in case map_of val member of
           None \<Rightarrow> Inl (parse_error 105 0 (error_msg @ '' must have member '' @ quoted member))
         | Some v \<Rightarrow>
             (if string_type \<and> isl (get_string v)
              then Inl (parse_error 105 0 (error_msg @ '' must have string member '' @ quoted member))
              else Inr v))"

definition patch_text :: "(string \<times> json) list \<Rightarrow> string \<Rightarrow> string \<Rightarrow> string outcome" where
  "patch_text val op member = ebind (patch_member val op member True) get_string"

text \<open>The handler of \<open>catch (out_of_range&)\<close>.\<close>

fun is_out_of_range :: "error \<Rightarrow> bool" where
  "is_out_of_range (StdError w) = starts_with ''[json.exception.out_of_range.'' w"
| "is_out_of_range e = False"

definition operation_replace :: "patch_env \<Rightarrow> pointer \<Rightarrow> (string \<times> json) list \<Rightarrow> json \<Rightarrow> json outcome" where
  "operation_replace E ptr val result =
     (let v = patch_member val ''replace'' ''value'' False; place = pointer_at ptr result
      in if pe_assign_right_first E then ebind v (\<lambda>w. ebind place (\<lambda>(_, put). Inr (put w)))
         else ebind place (\<lambda>(_, put). ebind v (\<lambda>w. Inr (put w))))"

definition operation_copy :: "patch_env \<Rightarrow> pointer \<Rightarrow> pointer \<Rightarrow> json \<Rightarrow> json outcome" where
  "operation_copy E ptr from_ptr result =
     (if pe_assign_right_first E then
        ebind (pointer_at from_ptr result) (\<lambda>(v, _).
        ebind (pointer_create ptr result) (\<lambda>(_, put). Inr (put v)))
      else
        ebind (pointer_create ptr result) (\<lambda>(c, put).
        ebind (pointer_at from_ptr (put c)) (\<lambda>(v, _). Inr (put v))))"

definition operation_test :: "patch_env \<Rightarrow> pointer \<Rightarrow> (string \<times> json) list \<Rightarrow> json \<Rightarrow> json outcome" where
  "operation_test E ptr val result =
     (let left = ebind (pointer_at ptr result) (\<lambda>(v, _). Inr v);
          right = patch_member val ''test'' ''value'' False;
          compared =
            (if pe_test_right_first E then ebind right (\<lambda>w. ebind left (\<lambda>v. Inr (json_eq (pe_double E) v w)))
             else ebind left (\<lambda>v. ebind right (\<lambda>w. Inr (json_eq (pe_double E) v w))))
      in
      ebind (case compared of Inl e \<Rightarrow> (if is_out_of_range e then Inr False else Inl e) | Inr b \<Rightarrow> Inr b)
        (\<lambda>success.
           if success then Inr result
           else ebind (json_dump (pe_num E) (JObject val)) (\<lambda>d. Inl (other_error 501 (''unsuccessful: '' @ d)))))"

definition patch_operation :: "patch_env \<Rightarrow> json \<Rightarrow> json \<Rightarrow> json outcome" where
  "patch_operation E operation result =
     (case operation of
        JObject val \<Rightarrow>
          ebind (patch_text val ''op'' ''op'') (\<lambda>op.
          ebind (patch_text val op ''path'') (\<lambda>path.
          ebind (pointer_split path) (\<lambda>ptr.
            if op = ''add'' then
              ebind (patch_member val ''add'' ''value'' False) (\<lambda>v. operation_add ptr v result)
            else if op = ''remove'' then operation_remove ptr result
            else if op = ''replace'' then
              operation_replace E ptr val result
            else if op = ''move'' then
              ebind (patch_text val ''move'' ''from'') (\<lambda>from_path.
              ebind (pointer_split from_path) (\<lambda>from_ptr.
              ebind (pointer_at from_ptr result) (\<lambda>(v, _).
              ebind (operation_remove from_ptr result) (\<lambda>result1.
                operation_add ptr v result1))))
            else if op = ''copy'' then
              ebind (patch_text val ''copy'' ''from'') (\<lambda>from_path.
              ebind (pointer_split from_path) (\<lambda>from_ptr. operation_copy E ptr from_ptr result))
            else if op = ''test'' then operation_test E ptr val result
            else Inl (parse_error 105 0 (''operation value '' @ quoted op @ '' is invalid'')))))
      | _ \<Rightarrow> Inl (parse_error 104 0 ''JSON patch must be an array of objects''))"

fun patch_operations :: "patch_env \<Rightarrow> json list \<Rightarrow> json \<Rightarrow> json outcome" where
  "patch_operations E [] result = Inr result"
| "patch_operations E (val # vals) result = ebind (patch_operation E val result) (patch_operations E vals)"

definition json_patch :: "patch_env \<Rightarrow> json \<Rightarrow> json \<Rightarrow> json outcome" where
  "json_patch E j patch_document =
     (case patch_document of
        JArray vals \<Rightarrow> patch_operations E vals j
      | _ \<Rightarrow> Inl (parse_error 104 0 ''JSON patch must be an array of objects''))"

section \<open>Computing a patch\<close>

definition patch_replace :: "string \<Rightarrow> json \<Rightarrow> json" where
  "patch_replace path v =
     init_json [jpair ''op'' (JString ''replace''), jpair ''path'' (JString path), jpair ''value'' v]"

definition patch_add :: "string \<Rightarrow> json \<Rightarrow> json" where
  "patch_add path v =
     init_json [jpair ''op'' (JString ''add''), jpair ''path'' (JString path), jpair ''value'' v]"

definition patch_remove :: "string \<Rightarrow> json" where
  "patch_remove path = init_json [jpair ''op'' (JString ''remove''), jpair ''path'' (JString path)]"

text \<open>The replacement of a value, unless the two are equal.\<close>

definition diff_value :: "(int \<Rightarrow> dbl) \<Rightarrow> json \<Rightarrow> json \<Rightarrow> string \<Rightarrow> json list" where
  "diff_value D source target path = (if json_eq D source target then [] else [patch_replace path target])"

text \<open>The second passes over two arrays, from the end of the shorter one, and over the target of two objects.
  The removals of array elements are inserted before each other.\<close>

definition diff_lengths :: "json list \<Rightarrow> json list \<Rightarrow> string \<Rightarrow> json list" where
  "diff_lengths xs ys path =
     map (\<lambda>i. patch_remove (path @ ''/'' @ show_nat i)) (rev [length ys..<length xs])
     @ map (\<lambda>i. patch_add (path @ ''/'' @ show_nat i) (ys ! i)) [length xs..<length ys]"

definition diff_new :: "(string \<times> json) list \<Rightarrow> (string \<times> json) list \<Rightarrow> string \<Rightarrow> json list" where
  "diff_new kvs lvs path =
     map (\<lambda>(k, v). patch_add (path @ ''/'' @ pointer_escape k) v) (filter (\<lambda>(k, v). map_of kvs k = None) lvs)"

function json_diff :: "(int \<Rightarrow> dbl) \<Rightarrow> json \<Rightarrow> json \<Rightarrow> string \<Rightarrow> json list"
  and diff_elements :: "(int \<Rightarrow> dbl) \<Rightarrow> nat \<Rightarrow> json list \<Rightarrow> json list \<Rightarrow> string \<Rightarrow> json list"
  and diff_members :: "(int \<Rightarrow> dbl) \<Rightarrow> (string \<times> json) list \<Rightarrow> (string \<times> json) list \<Rightarrow> string \<Rightarrow> json list" where
  "json_diff D (JArray xs) target path =
     (case target of
        JArray ys \<Rightarrow>
          (if json_eq D (JArray xs) (JArray ys) then []
           else diff_elements D 0 xs ys path @ diff_lengths xs ys path)
      | _ \<Rightarrow> diff_value D (JArray xs) target path)"
| "json_diff D (JObject kvs) target path =
     (case target of
        JObject lvs \<Rightarrow>
          (if json_eq D (JObject kvs) (JObject lvs) then []
           else diff_members D kvs lvs path @ diff_new kvs lvs path)
      | _ \<Rightarrow> diff_value D (JObject kvs) target path)"
| "json_diff D JNull target path = diff_value D JNull target path"
| "json_diff D (JString s) target path = diff_value D (JString s) target path"
| "json_diff D (JBool b) target path = diff_value D (JBool b) target path"
| "json_diff D (JInt i) target path = diff_value D (JInt i) target path"
| "json_diff D (JUnsigned i) target path = diff_value D (JUnsigned i) target path"
| "json_diff D (JFloat x) target path = diff_value D (JFloat x) target path"
| "diff_elements D i [] ys path = []"
| "diff_elements D i (x # xs) ys path =
     (case ys of
        [] \<Rightarrow> []
      | y # ys' \<Rightarrow> json_diff D x y (path @ ''/'' @ show_nat i) @ diff_elements D (Suc i) xs ys' path)"
| "diff_members D [] lvs path = []"
| "diff_members D ((k, v) # kvs) lvs path =
     (case map_of lvs k of
        Some w \<Rightarrow> json_diff D v w (path @ ''/'' @ pointer_escape k)
      | None \<Rightarrow> [patch_remove (path @ ''/'' @ pointer_escape k)])
     @ diff_members D kvs lvs path"
  by pat_completeness auto

termination
  by (relation "measure (\<lambda>c. case c of
      Inl (D, s, t, p) \<Rightarrow> size s
    | Inr (Inl (D, i, xs, ys, p)) \<Rightarrow> size_list size xs
    | Inr (Inr (D, kvs, lvs, p)) \<Rightarrow> size_list (size_prod (\<lambda>_. 0) size) kvs)") simp_all

end
