(* ===== verification/JsonDiff.thy ===== *)
theory JsonDiff
  imports JsonPatch
begin

text \<open>
  A patch that \<open>diff\<close> computes does what it is for: applied to the source it gives the target.  The proof
  follows a reference into the value: the operations below a path change what the path refers to, and
  nothing else.
\<close>

section \<open>Indices as tokens\<close>

lemma hd_show_nat: "0 < n \<Longrightarrow> hd (show_nat n) \<noteq> CHR ''0''"
proof (induction n rule: show_nat.induct)
  case (1 n)
  show ?case
  proof (cases "n < 10")
    case True
    have "(of_char (char_of (48 + n) :: char) :: nat) \<noteq> of_char (CHR ''0'')"
      using of_char_48 [OF True] 1(2) by simp
    then have "(char_of (48 + n) :: char) \<noteq> CHR ''0''" by metis
    with True show ?thesis by (simp add: show_nat.simps [of n])
  next
    case False
    with 1 show ?thesis by (simp add: show_nat.simps [of n])
  qed
qed

lemma not_leading_zero: "\<not> leading_zero (show_nat n)"
proof (cases "n = 0")
  case True
  then show ?thesis by (simp add: leading_zero_def show_nat.simps [of 0])
next
  case False
  then show ?thesis using hd_show_nat [of n] by (simp add: leading_zero_def)
qed

lemma show_nat_not_minus: "show_nat n \<noteq> ''-''"
  using show_nat_digits [of n] by (auto simp: is_digit_def)

lemma stoi_show_nat:
  assumes "n < 2 ^ 31"
  shows "stoi (show_nat n) = Number (int n)"
proof -
  obtain c s where cs: "show_nat n = c # s" using show_nat_nonempty by (cases "show_nat n") auto
  then have d: "is_digit c" using show_nat_digits [of n] by simp
  then have "\<not> is_space c" "c \<noteq> CHR ''-''" "c \<noteq> CHR ''+''" by (auto simp: is_digit_def is_space_def)
  moreover have "strtol10 (show_nat n) = int n"
    using strtol10_show_int [of "int n"] assms by (simp add: show_int_def int64_min_def int64_max_def)
  ultimately show ?thesis using d cs assms by (simp add: stoi_def int32_defs)
qed

lemma to_size_small: "n < 2 ^ 31 \<Longrightarrow> to_size (int n) = n"
  by (simp add: to_size_def)

lemma array_index_show: "n < 2 ^ 31 \<Longrightarrow> array_index (show_nat n) = Inr n"
  by (simp add: array_index_def stoi_show_nat to_size_small)

section \<open>References\<close>

text \<open>What is put at the end of a pointer is found there, and can be replaced again.\<close>

definition refers :: "pointer \<Rightarrow> (json \<Rightarrow> json) \<Rightarrow> bool" where
  "refers ts asg \<longleftrightarrow> (\<forall>w. pointer_at ts (asg w) = Inr (w, asg))"

lemma refers_root: "refers [] (\<lambda>w. w)"
  by (simp add: refers_def)

lemma pointer_at_append:
  "pointer_at (ts @ us) j = ebind (pointer_at ts j) (\<lambda>(c, p). ebind (pointer_at us c) (\<lambda>(v, q). Inr (v, p \<circ> q)))"
proof (induction ts arbitrary: j)
  case Nil
  show ?case by (cases "pointer_at us j") (auto simp: comp_def split: prod.split)
next
  case (Cons t ts)
  show ?case
  proof (cases "child_at t j")
    case (Inr cp)
    obtain c p where cp: "cp = (c, p)" by (cases cp)
    show ?thesis
    proof (cases "pointer_at ts c")
      case (Inr vq)
      then show ?thesis using \<open>child_at t j = Inr cp\<close> cp
        by (cases vq; cases "pointer_at us (fst vq)") (auto simp: Cons comp_def split: prod.split)
    qed (simp add: Inr cp Cons)
  qed simp
qed

lemma refers_child:
  assumes "refers ts asg" and "\<And>w. child_at t (wrap w) = Inr (w, wrap)"
  shows "refers (ts @ [t]) (asg \<circ> wrap)"
  using assms by (simp add: refers_def pointer_at_append comp_def)

lemma obj_put_put: "obj_put k v (obj_put k w kvs) = obj_put k v kvs"
  by (induction kvs) auto

lemma refers_key: "refers ts asg \<Longrightarrow> refers (ts @ [k]) (\<lambda>w. asg (JObject (obj_put k w kvs)))"
  using refers_child [of ts asg k "\<lambda>w. JObject (obj_put k w kvs)"]
  by (simp add: child_at_def map_of_obj_put obj_put_put comp_def)

lemma refers_index:
  assumes "refers ts asg" and "length xs < 2 ^ 31"
  shows "refers (ts @ [show_nat (length xs)]) (\<lambda>w. asg (JArray (xs @ w # ys)))"
  using refers_child [of ts asg "show_nat (length xs)" "\<lambda>w. JArray (xs @ w # ys)"] assms
  by (simp add: child_at_def show_nat_not_minus not_leading_zero array_index_show nth_append comp_def)

text \<open>Unchecked access agrees with checked access where that succeeds.\<close>

lemma child_create_at:
  assumes "child_at t j = Inr p"
  shows "child_create t j = Inr p"
proof (cases j)
  case (JArray vs)
  with assms obtain i where "t \<noteq> ''-''" "\<not> leading_zero t" "array_index t = Inr i" "i < length vs"
      "p = (vs ! i, \<lambda>w. JArray (vs[i := w]))"
    by (auto simp: child_at_def ebind_eq_Inr_iff split: if_splits)
  with JArray show ?thesis by (simp add: child_create_def array_place_def array_fill_def)
qed (use assms in \<open>auto simp: child_at_def child_create_def split: option.splits\<close>)

lemma pointer_create_at: "pointer_at ts j = Inr p \<Longrightarrow> pointer_create ts j = Inr p"
proof (induction ts arbitrary: j p)
  case (Cons t ts)
  then obtain c q v r where "child_at t j = Inr (c, q)" "pointer_at ts c = Inr (v, r)" "p = (v, q \<circ> r)"
    by (auto simp: ebind_eq_Inr_iff)
  with Cons.IH child_create_at show ?case by simp
qed simp

lemma refers_create: "refers ts asg \<Longrightarrow> pointer_create ts (asg w) = Inr (w, asg)"
  by (simp add: refers_def pointer_create_at)

lemma refers_head: "refers (t # ts) asg \<Longrightarrow> \<exists>p. pointer_at [t] (asg w) = Inr p"
  unfolding refers_def by (drule spec [of _ w]) (auto simp: ebind_eq_Inr_iff split: prod.splits)

section \<open>Single operations\<close>

lemma patch_objects:
  "patch_replace path v = JObject [(''op'', JString ''replace''), (''path'', JString path), (''value'', v)]"
  "patch_add path v = JObject [(''op'', JString ''add''), (''path'', JString path), (''value'', v)]"
  "patch_remove path = JObject [(''op'', JString ''remove''), (''path'', JString path)]"
  by (simp_all add: patch_replace_def patch_add_def patch_remove_def init_json_def obj_emplace_def)

lemma patch_operation_parts:
  "patch_operation E (patch_replace (pointer_to_string ts) v) j =
     ebind (pointer_at ts j) (\<lambda>(_, p). Inr (p v))"
  "patch_operation E (patch_add (pointer_to_string ts) v) j = operation_add ts v j"
  "patch_operation E (patch_remove (pointer_to_string ts)) j = operation_remove ts j"
  unfolding patch_objects
  by (simp_all add: patch_operation_def patch_text_def patch_member_def operation_replace_def pointer_roundtrip Let_def)

lemma operation_replace_refers:
  "refers ts asg \<Longrightarrow> patch_operation E (patch_replace (pointer_to_string ts) v) (asg w) = Inr (asg v)"
  by (simp add: patch_operation_parts refers_def)

lemma add_guard:
  assumes "refers ts asg"
  obtains p where "(if [hd (ts @ [t])] \<noteq> ts @ [t] then pointer_at [hd (ts @ [t])] (asg w) else Inr (asg w, \<lambda>w. w)) = Inr p"
proof (cases ts)
  case (Cons u us)
  with refers_head [of u us asg w] assms that show ?thesis by auto
qed (use that in simp)

lemma operation_add_refers:
  assumes "refers ts asg"
  shows "operation_add (ts @ [k]) v (asg (JObject kvs)) = Inr (asg (JObject (obj_put k v kvs)))"
    and "length xs < 2 ^ 31 \<Longrightarrow>
      operation_add (ts @ [show_nat (length xs)]) v (asg (JArray xs)) = Inr (asg (JArray (xs @ [v])))"
proof -
  obtain p where "(if [hd (ts @ [k])] \<noteq> ts @ [k] then pointer_at [hd (ts @ [k])] (asg (JObject kvs))
      else Inr (asg (JObject kvs), \<lambda>w. w)) = Inr p"
    using add_guard [OF assms] .
  then show "operation_add (ts @ [k]) v (asg (JObject kvs)) = Inr (asg (JObject (obj_put k v kvs)))"
    unfolding operation_add_def using refers_create [OF assms] by (simp add: pop_back_def)
next
  assume l: "length xs < 2 ^ 31"
  let ?t = "show_nat (length xs)"
  obtain p where "(if [hd (ts @ [?t])] \<noteq> ts @ [?t] then pointer_at [hd (ts @ [?t])] (asg (JArray xs))
      else Inr (asg (JArray xs), \<lambda>w. w)) = Inr p"
    using add_guard [OF assms] .
  then show "operation_add (ts @ [?t]) v (asg (JArray xs)) = Inr (asg (JArray (xs @ [v])))"
    unfolding operation_add_def using refers_create [OF assms] l
    by (simp add: pop_back_def show_nat_not_minus stoi_int_def stoi_show_nat to_size_small)
qed

lemma operation_remove_refers:
  assumes "refers ts asg"
  shows "map_of kvs k \<noteq> None \<Longrightarrow>
      operation_remove (ts @ [k]) (asg (JObject kvs)) = Inr (asg (JObject (filter (\<lambda>p. fst p \<noteq> k) kvs)))"
    and "length xs < 2 ^ 31 \<Longrightarrow>
      operation_remove (ts @ [show_nat (length xs)]) (asg (JArray (xs @ [v]))) = Inr (asg (JArray xs))"
  using assms by (simp_all add: operation_remove_def pop_back_def refers_def stoi_int_def stoi_show_nat to_size_small)

lemma patch_operations_append:
  "patch_operations E (ops @ ops') j = ebind (patch_operations E ops j) (patch_operations E ops')"
proof (induction ops arbitrary: j)
  case (Cons val ops)
  then show ?case by (cases "patch_operation E val j") simp_all
qed simp

lemma path_snoc: "pointer_to_string ts @ ''/'' @ pointer_escape k = pointer_to_string (ts @ [k])"
  by simp

lemma escape_digits: "pointer_escape (show_nat n) = show_nat n"
proof -
  have "\<forall>c \<in> set s. is_digit c \<Longrightarrow> pointer_escape s = s" for s
    unfolding pointer_escape_concat by (induction s) (auto simp: is_digit_def)
  then show ?thesis using show_nat_digits by blast
qed

lemma path_index: "pointer_to_string ts @ ''/'' @ show_nat n = pointer_to_string (ts @ [show_nat n])"
  using path_snoc [of ts "show_nat n"] by (simp add: escape_digits)

section \<open>The second passes\<close>

lemma removals:
  assumes "refers ts asg" and "length xs + length ys \<le> 2 ^ 31"
  shows "patch_operations E (map (\<lambda>i. patch_remove (pointer_to_string ts @ ''/'' @ show_nat i))
      (rev [length xs..<length xs + length ys])) (asg (JArray (xs @ ys))) = Inr (asg (JArray xs))"
  using assms(2)
proof (induction ys rule: rev_induct)
  case (snoc y ys)
  let ?n = "length (xs @ ys)"
  have "patch_operation E (patch_remove (pointer_to_string (ts @ [show_nat ?n]))) (asg (JArray ((xs @ ys) @ [y]))) =
      Inr (asg (JArray (xs @ ys)))"
    unfolding patch_operation_parts using operation_remove_refers(2) [OF assms(1), of "xs @ ys"] snoc.prems by simp
  with snoc show ?case unfolding path_index by simp
qed simp

lemma additions:
  assumes "refers ts asg" and "length xs + m \<le> 2 ^ 31"
  shows "patch_operations E (map (\<lambda>i. patch_add (pointer_to_string ts @ ''/'' @ show_nat i) (f i))
      [length xs..<length xs + m]) (asg (JArray xs)) = Inr (asg (JArray (xs @ map f [length xs..<length xs + m])))"
  using assms(2) unfolding path_index
proof (induction m)
  case (Suc m)
  let ?ys = "xs @ map f [length xs..<length xs + m]"
  have "operation_add (ts @ [show_nat (length xs + m)]) (f (length xs + m)) (asg (JArray ?ys)) =
      Inr (asg (JArray (?ys @ [f (length xs + m)])))"
    using operation_add_refers(2) [OF assms(1), of ?ys] Suc.prems by simp
  with Suc show ?case by (simp add: patch_operations_append patch_operation_parts del: pointer_to_string_simps)
qed simp

lemma second_pass_array:
  assumes "refers ts asg" and "length rs = length xs" and "length xs \<le> 2 ^ 31" and "length ys \<le> 2 ^ 31"
  shows "patch_operations E (diff_lengths xs ys (pointer_to_string ts)) (asg (JArray rs)) =
    Inr (asg (JArray (take (length ys) rs @ drop (length xs) ys)))"
proof (cases "length ys \<le> length xs")
  case True
  then have e: "[length xs..<length ys] = []" "drop (length xs) ys = []" by simp_all
  have "patch_operations E (map (\<lambda>i. patch_remove (pointer_to_string ts @ ''/'' @ show_nat i))
      (rev [length ys..<length xs])) (asg (JArray rs)) = Inr (asg (JArray (take (length ys) rs)))"
    using removals [OF assms(1), of "take (length ys) rs" "drop (length ys) rs"] True assms(2,3) by simp
  then show ?thesis unfolding diff_lengths_def e by simp
next
  case False
  then have e: "[length ys..<length xs] = []" "take (length ys) rs = rs" using assms(2) by simp_all
  have "patch_operations E (map (\<lambda>i. patch_add (pointer_to_string ts @ ''/'' @ show_nat i) (ys ! i))
      [length xs..<length ys]) (asg (JArray rs)) = Inr (asg (JArray (rs @ map ((!) ys) [length xs..<length ys])))"
    using additions [OF assms(1), of rs "length ys - length xs" E "(!) ys"] False assms(2,4) by simp
  moreover have "map ((!) ys) [length xs..<length ys] = drop (length xs) ys"
    by (rule nth_equalityI) simp_all
  ultimately show ?thesis unfolding diff_lengths_def e by simp
qed

lemma second_pass_object:
  assumes "refers ts asg"
  shows "patch_operations E (map (\<lambda>(k, v). patch_add (pointer_to_string ts @ ''/'' @ pointer_escape k) v) kvs)
    (asg (JObject cur)) = Inr (asg (JObject (fold (\<lambda>(k, v). obj_put k v) kvs cur)))"
  unfolding path_snoc
proof (induction kvs arbitrary: cur)
  case (Cons p kvs)
  obtain k v where p: "p = (k, v)" by (cases p)
  have "patch_operation E (patch_add (pointer_to_string (ts @ [k])) v) (asg (JObject cur)) =
      Inr (asg (JObject (obj_put k v cur)))"
    unfolding patch_operation_parts by (rule operation_add_refers(1) [OF assms])
  with Cons p show ?case by (simp del: pointer_to_string_simps)
qed simp

lemma obj_wf_fold: "obj_wf cur \<Longrightarrow> obj_wf (fold (\<lambda>(k, v). obj_put k v) kvs cur)"
  by (induction kvs arbitrary: cur) (auto simp: obj_wf_put)

lemma map_of_fold:
  "distinct (map fst kvs) \<Longrightarrow> map_of (fold (\<lambda>(k, v). obj_put k v) kvs cur) k =
     (case map_of kvs k of Some v \<Rightarrow> Some v | None \<Rightarrow> map_of cur k)"
proof (induction kvs arbitrary: cur)
  case (Cons p kvs)
  then have "map_of kvs (fst p) = None" by (simp add: map_of_eq_None_iff)
  with Cons show ?case by (cases p) (auto simp: map_of_obj_put split: option.split)
qed simp

section \<open>Equality\<close>

text \<open>Objects are sorted, arrays are so short that \<open>std::stoi\<close> reads every index, and no number is a NaN,
  which equals nothing.\<close>

fun patchable :: "json \<Rightarrow> bool" where
  "patchable (JArray vs) = (length vs \<le> 2 ^ 31 \<and> list_all patchable vs)"
| "patchable (JObject kvs) = (obj_wf kvs \<and> list_all (\<lambda>(k, v). patchable v) kvs)"
| "patchable (JFloat x) = (x \<noteq> NotANum)"
| "patchable _ = True"

lemma json_eq_refl: "patchable j \<Longrightarrow> json_eq D j j"
proof (induction j)
  case (JArray vs)
  then have "elements_eq D vs vs" by (induction vs) auto
  then show ?case by simp
next
  case (JObject kvs)
  then have "\<forall>(k, v) \<in> set kvs. json_eq D v v" by (fastforce simp: list_all_iff)
  then have "members_eq D kvs kvs" by (induction kvs) auto
  then show ?case by simp
qed simp_all

lemma elements_eq_refl: "list_all patchable vs \<Longrightarrow> elements_eq D vs vs"
  by (induction vs) (auto simp: json_eq_refl)

lemma list_all_drop: "list_all P vs \<Longrightarrow> list_all P (drop n vs)"
  by (auto simp: list_all_iff dest: in_set_dropD)

lemma elements_eq_append:
  "length xs = length ys \<Longrightarrow> elements_eq D (xs @ xs') (ys @ ys') = (elements_eq D xs ys \<and> elements_eq D xs' ys')"
  by (induction xs ys rule: list_induct2) simp_all

lemma members_eqI:
  "obj_wf kvs \<Longrightarrow> obj_wf lvs \<Longrightarrow> (\<And>k. rel_option (json_eq D) (map_of kvs k) (map_of lvs k)) \<Longrightarrow> members_eq D kvs lvs"
proof (induction kvs arbitrary: lvs)
  case Nil
  have "lvs = []"
  proof (cases lvs)
    case (Cons p ps)
    with Nil(3) [of "fst p"] show ?thesis by (cases p) simp
  qed
  then show ?case by simp
next
  case (Cons p kvs)
  obtain k x where p: "p = (k, x)" by (cases p)
  with Cons.prems(3) [of k] obtain y where y: "map_of lvs k = Some y" "json_eq D x y"
    by (auto elim: option.rel_cases)
  then obtain l z lvs' where lvs: "lvs = (l, z) # lvs'" by (cases lvs) auto
  have lk: "l \<le> k" using y(1) lvs Cons.prems(2) by (auto simp: obj_wf_Cons dest!: map_of_SomeD split: if_splits)
  have "\<exists>v. map_of (p # kvs) l = Some v" using Cons.prems(3) [of l] lvs by (auto elim: option.rel_cases)
  then have "k \<le> l" using p Cons.prems(1) by (auto simp: obj_wf_Cons dest!: map_of_SomeD split: if_splits)
  with lk have k: "k = l" by simp
  have "rel_option (json_eq D) (map_of kvs m) (map_of lvs' m)" for m
  proof (cases "m = k")
    case True
    have "k \<notin> fst ` set kvs" "k \<notin> fst ` set lvs'" using Cons.prems(1,2) p lvs k by (auto simp: obj_wf_Cons)
    then have "map_of kvs k = None" "map_of lvs' k = None" by (simp_all add: map_of_eq_None_iff)
    with True show ?thesis by simp
  next
    case False
    with Cons.prems(3) [of m] p lvs k show ?thesis by simp
  qed
  then have "members_eq D kvs lvs'" using Cons.IH Cons.prems(1,2) p lvs by (auto simp: obj_wf_Cons)
  with p lvs k y show ?case by simp
qed

section \<open>The patch of a difference\<close>

text \<open>Some operations turn one part of the value into another that equals a target.\<close>

definition leads ::
  "patch_env \<Rightarrow> json list \<Rightarrow> (json \<Rightarrow> json) \<Rightarrow> json \<Rightarrow> (json \<Rightarrow> bool) \<Rightarrow> bool" where
  "leads E ops asg source Q \<longleftrightarrow> (\<exists>r. patch_operations E ops (asg source) = Inr (asg r) \<and> Q r)"

lemma leads_Nil: "Q source \<Longrightarrow> leads E [] asg source Q"
  by (auto simp: leads_def)

lemma leads_append:
  assumes "leads E ops asg source P" and "\<And>r. P r \<Longrightarrow> leads E ops' asg r Q"
  shows "leads E (ops @ ops') asg source Q"
  using assms by (fastforce simp: leads_def patch_operations_append)

lemma leads_value:
  "refers ts asg \<Longrightarrow> patchable t \<Longrightarrow> leads E (diff_value D s t (pointer_to_string ts)) asg s (\<lambda>r. json_eq D r t)"
  by (auto simp: leads_def diff_value_def operation_replace_refers json_eq_refl)

text \<open>A step below the root of a part.\<close>

lemma leads_index:
  "leads E ops (\<lambda>w. asg (JArray (xs @ w # ys))) x P \<Longrightarrow>
     leads E ops asg (JArray (xs @ x # ys)) (\<lambda>j. \<exists>r. j = JArray (xs @ r # ys) \<and> P r)"
  by (auto simp: leads_def)

lemma leads_key:
  assumes "leads E ops (\<lambda>w. asg (JObject (obj_put k w cur))) v P" and "obj_wf cur" and "map_of cur k = Some v"
  shows "leads E ops asg (JObject cur) (\<lambda>j. \<exists>r. j = JObject (obj_put k r cur) \<and> P r)"
proof -
  have "obj_put k v cur = cur"
    by (rule obj_wf_eqI) (use assms(2,3) in \<open>auto simp: obj_wf_put map_of_obj_put\<close>)
  with assms(1) show ?thesis by (auto simp: leads_def)
qed

definition object_stage ::
  "(int \<Rightarrow> dbl) \<Rightarrow> (string \<times> json) list \<Rightarrow> (string \<times> json) list \<Rightarrow> (string \<times> json) list \<Rightarrow> json \<Rightarrow> bool" where
  "object_stage D kvs lvs cur j \<longleftrightarrow> (\<exists>cur'. j = JObject cur' \<and> obj_wf cur' \<and>
     (\<forall>k. if k \<in> fst ` set kvs then rel_option (json_eq D) (map_of cur' k) (map_of lvs k)
          else map_of cur' k = map_of cur k))"

lemma leads_member:
  assumes ref: "refers ts asg" and cur: "obj_wf cur" "map_of cur k = Some v"
    and sub: "\<And>w. map_of lvs k = Some w \<Longrightarrow>
      leads E (json_diff D v w (pointer_to_string (ts @ [k]))) (\<lambda>w. asg (JObject (obj_put k w cur))) v (\<lambda>r. json_eq D r w)"
  shows "leads E (case map_of lvs k of
      Some w \<Rightarrow> json_diff D v w (pointer_to_string ts @ ''/'' @ pointer_escape k)
    | None \<Rightarrow> [patch_remove (pointer_to_string ts @ ''/'' @ pointer_escape k)]) asg (JObject cur)
    (object_stage D [(k, v)] lvs cur)"
proof (cases "map_of lvs k")
  case None
  have "obj_wf (filter (\<lambda>p. fst p \<noteq> k) cur)"
    using cur(1) unfolding obj_wf_def by (simp add: sorted_wrt_map sorted_wrt_filter)
  then have "object_stage D [(k, v)] lvs cur (JObject (filter (\<lambda>p. fst p \<noteq> k) cur))"
    using None by (simp add: object_stage_def map_of_filter_neq)
  moreover have "operation_remove (ts @ [k]) (asg (JObject cur)) = Inr (asg (JObject (filter (\<lambda>p. fst p \<noteq> k) cur)))"
    using operation_remove_refers(1) [OF ref] cur(2) by simp
  ultimately show ?thesis
    unfolding path_snoc using None
    by (auto simp: leads_def patch_operation_parts simp del: pointer_to_string_simps)
next
  case (Some w)
  from leads_key [OF sub [OF Some] cur] have
    "leads E (json_diff D v w (pointer_to_string (ts @ [k]))) asg (JObject cur) (object_stage D [(k, v)] lvs cur)"
    unfolding leads_def object_stage_def using Some cur(1) by (fastforce simp: obj_wf_put map_of_obj_put)
  with Some show ?thesis unfolding path_snoc by simp
qed

lemma object_stage_trans:
  assumes "object_stage D [(k, v)] lvs cur (JObject cur1)" and "k \<notin> fst ` set kvs"
    and "object_stage D kvs lvs cur1 j"
  shows "object_stage D ((k, v) # kvs) lvs cur j"
  using assms unfolding object_stage_def by auto

definition elements_stage ::
  "(int \<Rightarrow> dbl) \<Rightarrow> json list \<Rightarrow> json list \<Rightarrow> json list \<Rightarrow> json \<Rightarrow> bool" where
  "elements_stage D pre xs ys j \<longleftrightarrow> (\<exists>rs. j = JArray (pre @ rs) \<and> length rs = length xs \<and>
     elements_eq D (take (length ys) rs) (take (length xs) ys))"

lemma diff_leads:
  "refers ts asg \<Longrightarrow> patchable s \<Longrightarrow> patchable t \<Longrightarrow> path = pointer_to_string ts \<Longrightarrow>
     leads E (json_diff D s t path) asg s (\<lambda>r. json_eq D r t)"
  "refers ts asg \<Longrightarrow> i = length pre \<Longrightarrow> length pre + length xs \<le> 2 ^ 31 \<Longrightarrow>
     list_all patchable xs \<Longrightarrow> list_all patchable ys \<Longrightarrow> path = pointer_to_string ts \<Longrightarrow>
     leads E (diff_elements D i xs ys path) asg (JArray (pre @ xs)) (elements_stage D pre xs ys)"
  "refers ts asg \<Longrightarrow> obj_wf cur \<Longrightarrow> distinct (map fst kvs) \<Longrightarrow>
     (\<forall>(k, v) \<in> set kvs. map_of cur k = Some v) \<Longrightarrow>
     list_all (\<lambda>(k, v). patchable v) kvs \<Longrightarrow> list_all (\<lambda>(k, v). patchable v) lvs \<Longrightarrow>
     path = pointer_to_string ts \<Longrightarrow>
     leads E (diff_members D kvs lvs path) asg (JObject cur) (object_stage D kvs lvs cur)"
proof (induction D s t path and D i xs ys path and D kvs lvs path arbitrary: ts asg and ts asg pre and ts asg cur
    rule: json_diff_diff_elements_diff_members.induct)
  case (1 D xs target path)
  show ?case
  proof (cases "\<exists>ys. target = JArray ys \<and> \<not> json_eq D (JArray xs) (JArray ys)")
    case True
    then obtain ys where t: "target = JArray ys" "\<not> json_eq D (JArray xs) (JArray ys)" by blast
    have "leads E (diff_elements D 0 xs ys path) asg (JArray ([] @ xs)) (elements_stage D [] xs ys)"
      by (rule 1(1) [OF t(1,2)]) (use 1(2-5) t(1) in auto)
    then have "leads E (diff_elements D 0 xs ys path) asg (JArray xs) (elements_stage D [] xs ys)" by simp
    moreover have "leads E (diff_lengths xs ys path) asg r (\<lambda>r. json_eq D r target)"
      if "elements_stage D [] xs ys r" for r
    proof -
      from that obtain rs where rs: "r = JArray rs" "length rs = length xs"
        "elements_eq D (take (length ys) rs) (take (length xs) ys)" by (auto simp: elements_stage_def)
      have "elements_eq D (take (length ys) rs @ drop (length xs) ys) (take (length xs) ys @ drop (length xs) ys)"
        using rs 1(4) t(1) by (subst elements_eq_append) (simp_all add: elements_eq_refl list_all_drop min.commute)
      with second_pass_array [OF 1(2) rs(2), of ys E] rs(1) 1(3-5) t(1) show ?thesis
        by (auto simp: leads_def)
    qed
    ultimately show ?thesis using t leads_append by simp
  next
    case False
    then show ?thesis using leads_value [OF 1(2,4), of E D "JArray xs"] 1(5)
      by (cases target) (auto intro!: leads_Nil)
  qed
next
  case (2 D kvs target path)
  show ?case
  proof (cases "\<exists>lvs. target = JObject lvs \<and> \<not> json_eq D (JObject kvs) (JObject lvs)")
    case True
    then obtain lvs where t: "target = JObject lvs" "\<not> json_eq D (JObject kvs) (JObject lvs)" by blast
    have wf: "obj_wf kvs" "obj_wf lvs" "distinct (map fst kvs)" "distinct (map fst lvs)"
      using 2(3,4) t(1) by (auto simp: obj_wf_def strict_sorted_iff)
    have "leads E (diff_members D kvs lvs path) asg (JObject kvs) (object_stage D kvs lvs kvs)"
      by (rule 2(1) [OF t(1,2)]) (use 2(2-5) t(1) wf in auto)
    moreover have "leads E (diff_new kvs lvs path) asg r (\<lambda>r. json_eq D r target)"
      if "object_stage D kvs lvs kvs r" for r
    proof -
      from that obtain cur where cur: "r = JObject cur" "obj_wf cur"
        and m: "\<And>k. if k \<in> fst ` set kvs then rel_option (json_eq D) (map_of cur k) (map_of lvs k)
            else map_of cur k = map_of kvs k" by (auto simp: object_stage_def)
      let ?new = "filter (\<lambda>(k, v). map_of kvs k = None) lvs"
      let ?cur = "fold (\<lambda>(k, v). obj_put k v) ?new cur"
      have d: "distinct (map fst ?new)" using wf(4) by (simp add: distinct_map_filter)
      have n: "map_of ?new k = (if map_of kvs k = None then map_of lvs k else None)" for k
        by (induction lvs) auto
      have "rel_option (json_eq D) (map_of ?cur k) (map_of lvs k)" for k
      proof (cases "map_of kvs k")
        case None
        then have "k \<notin> fst ` set kvs" by (simp add: map_of_eq_None_iff)
        with m [of k] None have "map_of cur k = None" by simp
        moreover have "patchable w" if "map_of lvs k = Some w" for w
          using map_of_SomeD [OF that] 2(4) t(1) by (auto simp: list_all_iff)
        ultimately show ?thesis using None
          by (cases "map_of lvs k") (simp_all add: map_of_fold [OF d] n json_eq_refl)
      next
        case (Some v)
        then have "k \<in> fst ` set kvs" by (force dest: map_of_SomeD)
        with m [of k] Some show ?thesis by (simp add: map_of_fold [OF d] n)
      qed
      then have "members_eq D ?cur lvs" by (rule members_eqI [OF obj_wf_fold [OF cur(2)] wf(2)])
      with second_pass_object [OF 2(2), of E ?new cur] cur(1) t(1) 2(5) show ?thesis
        by (auto simp: leads_def diff_new_def)
    qed
    ultimately show ?thesis using t leads_append by simp
  next
    case False
    then show ?thesis using leads_value [OF 2(2,4), of E D "JObject kvs"] 2(5)
      by (cases target) (auto intro!: leads_Nil)
  qed
next
  case (9 D i ys path)
  then show ?case by (auto intro!: leads_Nil simp: elements_stage_def)
next
  case (10 D i x xs ys path)
  show ?case
  proof (cases ys)
    case Nil
    then show ?thesis by (auto intro!: leads_Nil simp: elements_stage_def)
  next
    case (Cons y ys')
    have len: "length pre < 2 ^ 31" using 10(5) by simp
    have p: "path @ ''/'' @ show_nat i = pointer_to_string (ts @ [show_nat (length pre)])"
      unfolding 10(8) 10(4) by (rule path_index)
    have "leads E (json_diff D x y (path @ ''/'' @ show_nat i)) (\<lambda>w. asg (JArray (pre @ w # xs))) x (\<lambda>r. json_eq D r y)"
      by (rule 10(1) [OF Cons refers_index [OF 10(3) len]]) (use 10(6,7) Cons p in simp_all)
    from leads_index [OF this] have "leads E (json_diff D x y (path @ ''/'' @ show_nat i)) asg (JArray (pre @ x # xs))
        (\<lambda>j. \<exists>r. j = JArray (pre @ r # xs) \<and> json_eq D r y)" .
    moreover have "leads E (diff_elements D (Suc i) xs ys' path) asg j (elements_stage D pre (x # xs) ys)"
      if j: "\<exists>r. j = JArray (pre @ r # xs) \<and> json_eq D r y" for j
    proof -
      from j obtain r where r: "j = JArray ((pre @ [r]) @ xs)" "json_eq D r y" by auto
      have "leads E (diff_elements D (Suc i) xs ys' path) asg (JArray ((pre @ [r]) @ xs)) (elements_stage D (pre @ [r]) xs ys')"
        by (rule 10(2) [OF Cons 10(3)]) (use 10(4-8) Cons in simp_all)
      moreover have "elements_stage D pre (x # xs) ys q" if q: "elements_stage D (pre @ [r]) xs ys' q" for q
      proof -
        from q obtain rs where "q = JArray (pre @ r # rs)" "length rs = length xs"
          "elements_eq D (take (length ys') rs) (take (length xs) ys')" by (auto simp: elements_stage_def)
        with r(2) Cons show ?thesis by (auto simp: elements_stage_def intro!: exI [of _ "r # rs"])
      qed
      ultimately show ?thesis unfolding r(1) leads_def by blast
    qed
    ultimately show ?thesis using Cons leads_append by simp
  qed
next
  case (11 D lvs path)
  then show ?case by (auto intro!: leads_Nil simp: object_stage_def)
next
  case (12 D k v kvs lvs path)
  have k: "k \<notin> fst ` set kvs" using 12(5) by simp
  have sub: "leads E (json_diff D v w (pointer_to_string (ts @ [k]))) (\<lambda>w. asg (JObject (obj_put k w cur))) v (\<lambda>r. json_eq D r w)"
    if w: "map_of lvs k = Some w" for w
  proof -
    have "patchable w" using w 12(8) by (auto simp: list_all_iff dest: map_of_SomeD)
    have p: "path @ ''/'' @ pointer_escape k = pointer_to_string (ts @ [k])"
      unfolding 12(9) by (rule path_snoc)
    have "patchable v" using 12(7) by simp
    from 12(1) [OF w refers_key [OF 12(3)] this \<open>patchable w\<close> p] show ?thesis unfolding p .
  qed
  have "leads E (case map_of lvs k of
      Some w \<Rightarrow> json_diff D v w (path @ ''/'' @ pointer_escape k)
    | None \<Rightarrow> [patch_remove (path @ ''/'' @ pointer_escape k)]) asg (JObject cur) (object_stage D [(k, v)] lvs cur)"
    unfolding 12(9) by (rule leads_member [OF 12(3,4) _ sub]) (use 12(6) in simp_all)
  moreover have "leads E (diff_members D kvs lvs path) asg j (object_stage D ((k, v) # kvs) lvs cur)"
    if j: "object_stage D [(k, v)] lvs cur j" for j
  proof -
    from j obtain cur1 where cur1: "j = JObject cur1" "obj_wf cur1"
      and all: "\<forall>l. if l \<in> fst ` set [(k, v)] then rel_option (json_eq D) (map_of cur1 l) (map_of lvs l)
          else map_of cur1 l = map_of cur l" unfolding object_stage_def by blast
    have m: "map_of cur1 l = map_of cur l" if "l \<noteq> k" for l
      using that spec [OF all, of l] by simp
    have "leads E (diff_members D kvs lvs path) asg (JObject cur1) (object_stage D kvs lvs cur1)"
    proof (rule 12(2) [OF 12(3) cur1(2)])
      have "map_of cur1 l = Some u" if l: "(l, u) \<in> set kvs" for l u
      proof -
        have "l \<noteq> k" using k imageI [OF l, of fst] by auto
        moreover have "map_of cur l = Some u" using bspec [OF 12(6), of "(l, u)"] l by simp
        ultimately show ?thesis using m by simp
      qed
      then show "\<forall>(l, u) \<in> set kvs. map_of cur1 l = Some u" by blast
    qed (use 12(5,7-9) in simp_all)
    with object_stage_trans [OF j [unfolded cur1(1)] k] cur1(1) show ?thesis
      unfolding leads_def by blast
  qed
  ultimately have "leads E ((case map_of lvs k of
      Some w \<Rightarrow> json_diff D v w (path @ ''/'' @ pointer_escape k)
    | None \<Rightarrow> [patch_remove (path @ ''/'' @ pointer_escape k)]) @ diff_members D kvs lvs path) asg (JObject cur)
    (object_stage D ((k, v) # kvs) lvs cur)" by (rule leads_append)
  then show ?case by simp
qed (simp_all add: leads_value)

text \<open>(C21) The invariant that \<open>diff\<close> documents: for two values with sorted objects, arrays of at most
  \<open>2 ^ 31\<close> elements and no NaN, applying the difference to the source never throws and gives a value that equals the
  target.\<close>

theorem patch_diff:
  assumes "patchable source" and "patchable target"
  shows "\<exists>result. json_patch E source (JArray (json_diff D source target [])) = Inr result \<and> json_eq D result target"
  using diff_leads(1) [OF refers_root assms, of "[]" E D]
  by (auto simp: leads_def json_patch_def)

theorem patch_diff_witness:
  "\<forall>E D. \<exists>result. json_patch E (JObject [(''a/b'', JArray [JNull, JBool True, JNull]), (''c'', JString ''x'')])
     (JArray (json_diff D (JObject [(''a/b'', JArray [JNull, JBool True, JNull]), (''c'', JString ''x'')])
       (JObject [(''a/b'', JArray [JNull, JBool False]), (''d'', JNull)]) [])) = Inr result \<and>
     json_eq D result (JObject [(''a/b'', JArray [JNull, JBool False]), (''d'', JNull)])"
proof (intro allI patch_diff)
qed (simp_all add: obj_wf_def)

section \<open>Where the operations fall short\<close>

text \<open>An \<open>add\<close> below a value that is neither object nor array fails an assertion, whose comment says that it
  cannot be reached, and a \<open>remove\<close> there does nothing.\<close>

lemma patch_below_text:
  "patch_operation E (patch_add ''/a/b'' v) (JObject [(''a'', JString s)]) = Inl Aborts"
  "patch_operation E (patch_remove ''/a/b'') (JObject [(''a'', JString s)]) = Inr (JObject [(''a'', JString s)])"
proof -
  have p: "pointer_to_string [''a'', ''b''] = ''/a/b''" by code_simp
  show "patch_operation E (patch_add ''/a/b'' v) (JObject [(''a'', JString s)]) = Inl Aborts"
    "patch_operation E (patch_remove ''/a/b'') (JObject [(''a'', JString s)]) = Inr (JObject [(''a'', JString s)])"
    unfolding p [symmetric] patch_operation_parts
    by (simp_all add: operation_add_def operation_remove_def pop_back_def child_at_def child_create_def)
qed

text \<open>An unsigned number beyond the signed range equals the negative number it wraps to, so that no patch
  turns the one into the other.\<close>

lemma wrapped_numbers_equal:
  "json_eq D (JUnsigned 18446744073709551615) (JInt (- 1))"
  "json_diff D (JInt (- 1)) (JUnsigned 18446744073709551615) [] = []"
  by (simp_all add: to_int64_def diff_value_def)

text \<open>An index of -1 becomes \<open>2 ^ 64 - 1\<close>, for which \<open>operator[]\<close> fills up an empty array by no element.\<close>

lemma negative_index_undefined: "pointer_create [''-1''] (JArray []) = Inl (UB OutOfBounds)"
proof -
  have "stoi ''-1'' = Number (- 1)" by code_simp
  then have "array_index ''-1'' = Inr 18446744073709551615" by (simp add: array_index_def to_size_def)
  moreover have "array_place 18446744073709551615 [] = Inl (UB OutOfBounds)"
    by (simp add: array_place_def array_fill_def to_size_def Let_def del: replicate.simps)
  ultimately show ?thesis by (simp add: child_create_def leading_zero_def)
qed

end
