(* ===== verification/JsonFlatten.thy ===== *)
theory JsonFlatten
  imports JsonDiff
begin

text \<open>
  \<open>flatten\<close> and \<open>unflatten\<close> of \<^verbatim>\<open>src/json.hpp\<close>: an object from JSON pointers to primitive values, and the
  value that is built from one.  \<open>unflatten\<close> undoes \<open>flatten\<close> unless a container is empty, as the
  documentation says, or an object has the key 0, as it does not say.
\<close>

section \<open>Flattening\<close>

fun is_primitive :: "json \<Rightarrow> bool" where
  "is_primitive (JArray _) = False"
| "is_primitive (JObject _) = False"
| "is_primitive _ = True"

text \<open>The result is an object; an empty container becomes a null.\<close>

function flatten_into :: "string \<Rightarrow> json \<Rightarrow> (string \<times> json) list \<Rightarrow> (string \<times> json) list"
  and flatten_elements :: "string \<Rightarrow> nat \<Rightarrow> json list \<Rightarrow> (string \<times> json) list \<Rightarrow> (string \<times> json) list"
  and flatten_members :: "string \<Rightarrow> (string \<times> json) list \<Rightarrow> (string \<times> json) list \<Rightarrow> (string \<times> json) list" where
  "flatten_into p (JArray vs) result =
     (if vs = [] then obj_put p JNull result else flatten_elements p 0 vs result)"
| "flatten_into p (JObject kvs) result =
     (if kvs = [] then obj_put p JNull result else flatten_members p kvs result)"
| "flatten_into p JNull result = obj_put p JNull result"
| "flatten_into p (JBool b) result = obj_put p (JBool b) result"
| "flatten_into p (JInt i) result = obj_put p (JInt i) result"
| "flatten_into p (JUnsigned i) result = obj_put p (JUnsigned i) result"
| "flatten_into p (JFloat d) result = obj_put p (JFloat d) result"
| "flatten_into p (JString s) result = obj_put p (JString s) result"
| "flatten_elements p i [] result = result"
| "flatten_elements p i (v # vs) result =
     flatten_elements p (Suc i) vs (flatten_into (p @ ''/'' @ show_nat i) v result)"
| "flatten_members p [] result = result"
| "flatten_members p ((k, v) # kvs) result =
     flatten_members p kvs (flatten_into (p @ ''/'' @ pointer_escape k) v result)"
  by pat_completeness auto

termination
  by (relation "measure (\<lambda>c. case c of
      Inl (p, v, result) \<Rightarrow> size v
    | Inr (Inl (p, i, vs, result)) \<Rightarrow> size_list size vs
    | Inr (Inr (p, kvs, result)) \<Rightarrow> size_list (size_prod (\<lambda>_. 0) size) kvs)") (auto)

definition json_flatten :: "json \<Rightarrow> json" where
  "json_flatten j = JObject (flatten_into [] j [])"

section \<open>Unflattening\<close>

text \<open>One step of \<open>get_and_create\<close>: a null becomes an array when the token is 0, else an object.\<close>

definition child_make :: "string \<Rightarrow> json \<Rightarrow> json_place outcome" where
  "child_make t j = (case j of
     JNull \<Rightarrow> (if t = ''0'' then array_place 0 [] else Inr (JNull, \<lambda>w. JObject [(t, w)]))
   | JObject kvs \<Rightarrow> Inr (case map_of kvs t of None \<Rightarrow> JNull | Some v \<Rightarrow> v, \<lambda>w. JObject (obj_put t w kvs))
   | JArray vs \<Rightarrow> ebind (array_index t) (\<lambda>i. array_place i vs)
   | _ \<Rightarrow> Inl (type_error 313 ''invalid value to unflatten''))"

fun pointer_make :: "pointer \<Rightarrow> json \<Rightarrow> json_place outcome" where
  "pointer_make [] j = Inr (j, \<lambda>w. w)"
| "pointer_make (t # ts) j =
     ebind (child_make t j) (\<lambda>(c, put_child).
     ebind (pointer_make ts c) (\<lambda>(v, put_value). Inr (v, put_child \<circ> put_value)))"

fun unflatten_loop :: "(string \<times> json) list \<Rightarrow> json \<Rightarrow> json outcome" where
  "unflatten_loop [] result = Inr result"
| "unflatten_loop ((k, v) # kvs) result =
     (if \<not> is_primitive v then Inl (type_error 315 ''values in object must be primitive'')
      else ebind (pointer_split k) (\<lambda>ptr.
           ebind (pointer_make ptr result) (\<lambda>(_, put). unflatten_loop kvs (put v))))"

definition json_unflatten :: "json \<Rightarrow> json outcome" where
  "json_unflatten j = (case j of
     JObject kvs \<Rightarrow> unflatten_loop kvs JNull
   | _ \<Rightarrow> Inl (type_error 314 ''only objects can be unflattened''))"

section \<open>The leaves of a value\<close>

text \<open>The values a flattened object has, with the tokens of their pointers.\<close>

type_synonym leaf = "pointer \<times> json"

definition below :: "string \<Rightarrow> leaf list \<Rightarrow> leaf list" where
  "below t ls = map (\<lambda>(ts, v). (t # ts, v)) ls"

fun leaves :: "json \<Rightarrow> leaf list"
  and leaves_elements :: "nat \<Rightarrow> json list \<Rightarrow> leaf list"
  and leaves_members :: "(string \<times> json) list \<Rightarrow> leaf list" where
  "leaves (JArray vs) = (if vs = [] then [([], JNull)] else leaves_elements 0 vs)"
| "leaves (JObject kvs) = (if kvs = [] then [([], JNull)] else leaves_members kvs)"
| "leaves JNull = [([], JNull)]"
| "leaves (JBool b) = [([], JBool b)]"
| "leaves (JInt i) = [([], JInt i)]"
| "leaves (JUnsigned i) = [([], JUnsigned i)]"
| "leaves (JFloat d) = [([], JFloat d)]"
| "leaves (JString s) = [([], JString s)]"
| "leaves_elements i [] = []"
| "leaves_elements i (v # vs) = below (show_nat i) (leaves v) @ leaves_elements (Suc i) vs"
| "leaves_members [] = []"
| "leaves_members ((k, v) # kvs) = below k (leaves v) @ leaves_members kvs"

definition leaf_path :: "leaf \<Rightarrow> string" where
  "leaf_path l = pointer_to_string (fst l)"

definition named :: "leaf \<Rightarrow> string \<times> json" where
  "named l = (leaf_path l, snd l)"

definition put_leaf :: "string \<Rightarrow> leaf \<Rightarrow> (string \<times> json) list \<Rightarrow> (string \<times> json) list" where
  "put_leaf p l = obj_put (p @ leaf_path l) (snd l)"

lemma escape_show_nat: "pointer_escape (show_nat n) = show_nat n"
proof -
  have "CHR ''~'' \<notin> set (show_nat n)" "CHR ''/'' \<notin> set (show_nat n)"
    using show_nat_digits [of n] by (auto simp: is_digit_def)
  then have "concat (map (\<lambda>c. if c = CHR ''~'' then ''~0'' else if c = CHR ''/'' then ''~1'' else [c]) s) = s"
    if "s = show_nat n" for s
    unfolding that [symmetric] by (induction s) auto
  then show ?thesis unfolding pointer_escape_concat by blast
qed

lemma fold_below:
  "fold (put_leaf p) (below t ls) result = fold (put_leaf (p @ ''/'' @ pointer_escape t)) ls result"
  by (induction ls arbitrary: result) (auto simp: below_def put_leaf_def leaf_path_def)

lemma put_leaf_root: "put_leaf p ([], v) = obj_put p v"
  by (simp add: put_leaf_def leaf_path_def)

lemma flatten_leaves:
  "flatten_into p j result = fold (put_leaf p) (leaves j) result"
  "flatten_elements p i vs result = fold (put_leaf p) (leaves_elements i vs) result"
  "flatten_members p kvs result = fold (put_leaf p) (leaves_members kvs) result"
proof (induction p j result and p i vs result and p kvs result
    rule: flatten_into_flatten_elements_flatten_members.induct)
qed (simp_all add: put_leaf_root fold_below escape_show_nat)

lemma show_nat_eq: "show_nat m = show_nat n \<longleftrightarrow> m = n"
  using digits_value_show_nat by (metis of_nat_eq_iff)

section \<open>Assigning the leaves\<close>

text \<open>The loop of \<open>unflatten\<close> on tokens.\<close>

definition assign :: "leaf \<Rightarrow> json \<Rightarrow> json outcome" where
  "assign l j = ebind (pointer_make (fst l) j) (\<lambda>(_, put). Inr (put (snd l)))"

fun assign_all :: "leaf list \<Rightarrow> json \<Rightarrow> json outcome" where
  "assign_all [] j = Inr j"
| "assign_all (l # ls) j = ebind (assign l j) (assign_all ls)"

lemma assign_Nil [simp]: "assign ([], v) j = Inr v"
  by (simp add: assign_def)

lemma assign_Cons:
  "assign (t # ts, v) j = ebind (child_make t j) (\<lambda>(c, put). ebind (assign (ts, v) c) (\<lambda>w. Inr (put w)))"
  by (simp add: assign_def ebind_assoc split_def comp_def)

lemma unflatten_assign:
  assumes "\<And>l. l \<in> set ls \<Longrightarrow> is_primitive (snd l)"
  shows "unflatten_loop (map named ls) j = assign_all ls j"
  using assms
proof (induction ls arbitrary: j)
  case (Cons l ls)
  then show ?case by (simp add: named_def leaf_path_def pointer_roundtrip assign_def ebind_assoc split_def)
qed simp

text \<open>The leaves below the token \<open>t\<close>, in the same order.\<close>

definition under :: "string \<Rightarrow> leaf list \<Rightarrow> leaf list" where
  "under t ls = map (\<lambda>(ts, v). (tl ts, v)) (filter (\<lambda>(ts, v). hd ts = t) ls)"

lemma under_simps [simp]:
  "under t [] = []"
  "under t ((t # ts, v) # ls) = (ts, v) # under t ls"
  "t' \<noteq> t \<Longrightarrow> under t' ((t # ts, v) # ls) = under t' ls"
  by (simp_all add: under_def)

definition tokens :: "leaf list \<Rightarrow> string set" where
  "tokens ls = (\<lambda>(ts, v). hd ts) ` set ls"

lemma tokens_simps [simp]: "tokens [] = {}" "tokens ((t # ts, v) # ls) = insert t (tokens ls)"
  by (simp_all add: tokens_def)

lemma under_not_token: "t \<notin> tokens ls \<Longrightarrow> under t ls = []"
  by (auto simp: under_def tokens_def filter_empty_conv)

text \<open>The assignments to an object change each member by the leaves below its key, and nothing else.\<close>

definition member :: "(string \<times> json) list \<Rightarrow> string \<Rightarrow> json" where
  "member kvs k = (case map_of kvs k of None \<Rightarrow> JNull | Some v \<Rightarrow> v)"

lemma member_put: "member (obj_put k v kvs) l = (if l = k then v else member kvs l)"
  by (simp add: member_def map_of_obj_put)

lemma assign_members:
  assumes "\<And>l. l \<in> set ls \<Longrightarrow> fst l \<noteq> []" and "obj_wf acc"
    and "\<And>k. assign_all (under k ls) (member acc k) = Inr (g k)"
  shows "\<exists>acc'. assign_all ls (JObject acc) = Inr (JObject acc') \<and> obj_wf acc' \<and>
    (\<forall>k. map_of acc' k = (if k \<in> tokens ls then Some (g k) else map_of acc k))"
  using assms
proof (induction ls arbitrary: acc)
  case (Cons l ls)
  obtain k ts v where l: "l = (k # ts, v)" using Cons.prems(1) [of l] by (cases l; cases "fst l") auto
  from Cons.prems(3) [of k] l obtain w where w: "assign (ts, v) (member acc k) = Inr w"
    "assign_all (under k ls) w = Inr (g k)" by (auto simp: ebind_eq_Inr_iff)
  have step: "assign l (JObject acc) = Inr (JObject (obj_put k w acc))"
    using w(1) by (simp add: l assign_Cons child_make_def member_def)
  have "assign_all (under k' ls) (member (obj_put k w acc) k') = Inr (g k')" for k'
    using w(2) Cons.prems(3) [of k'] l by (cases "k' = k") (auto simp: member_put)
  with Cons.IH [of "obj_put k w acc"] Cons.prems(1,2) obtain acc' where
    acc': "assign_all ls (JObject (obj_put k w acc)) = Inr (JObject acc')" "obj_wf acc'"
    "\<And>k'. map_of acc' k' = (if k' \<in> tokens ls then Some (g k') else map_of (obj_put k w acc) k')"
    by (auto simp: obj_wf_put)
  have "map_of acc' k' = (if k' \<in> tokens (l # ls) then Some (g k') else map_of acc k')" for k'
    using acc'(3) [of k'] w(2) l by (auto simp: map_of_obj_put under_not_token)
  with acc'(1,2) step show ?case by auto
qed simp

text \<open>Likewise for an array, which grows to the largest index.\<close>

definition element :: "json list \<Rightarrow> nat \<Rightarrow> json" where
  "element vs i = (if i < length vs then vs ! i else JNull)"

definition grown :: "nat \<Rightarrow> json list \<Rightarrow> json list" where
  "grown i vs = vs @ replicate (Suc i - length vs) JNull"

lemma grown_simps:
  "length (grown i vs) = max (length vs) (Suc i)" "element (grown i vs) = element vs"
  by (auto simp: grown_def element_def nth_append fun_eq_iff)

lemma array_place_grown:
  assumes "i < 2 ^ 31" and "length vs \<le> 2 ^ 31"
  shows "array_place i vs = Inr (element vs i, \<lambda>w. JArray ((grown i vs)[i := w]))"
proof -
  have "array_fill i vs = Inr (grown i vs)"
  proof (cases "i < length vs")
    case False
    then have "to_size (int i - int (length vs) + 1) = Suc i - length vs"
      using assms by (simp add: to_size_def nat_diff_distrib)
    moreover from assms have "\<not> Suc i - length vs > max_elements - length vs" by (simp add: max_elements_def)
    ultimately show ?thesis using False by (simp add: array_fill_def grown_def Let_def)
  qed (simp add: array_fill_def grown_def)
  moreover have "grown i vs ! i = element vs i"
    by (simp add: grown_def element_def nth_append)
  ultimately show ?thesis by (simp add: array_place_def)
qed

lemma element_update: "i < length vs \<Longrightarrow> element (vs[i := w]) k = (if k = i then w else element vs k)"
  by (simp add: element_def)

lemma assign_elements:
  assumes "\<And>l. l \<in> set ls \<Longrightarrow> \<exists>i ts. fst l = show_nat i # ts \<and> i < N" and "length acc \<le> N" and "N \<le> 2 ^ 31"
    and "\<And>i. assign_all (under (show_nat i) ls) (element acc i) = Inr (g i)"
  shows "\<exists>acc'. assign_all ls (JArray acc) = Inr (JArray acc') \<and> length acc \<le> length acc' \<and> length acc' \<le> N \<and>
    (\<forall>i. element acc' i = g i) \<and> (\<forall>i. show_nat i \<in> tokens ls \<longrightarrow> i < length acc')"
  using assms(1,2,4)
proof (induction ls arbitrary: acc)
  case (Cons l ls)
  obtain i ts v where l: "l = (show_nat i # ts, v)" "i < N" using Cons.prems(1) [of l] by (cases l) auto
  from Cons.prems(3) [of i] l obtain w where w: "assign (ts, v) (element acc i) = Inr w"
    "assign_all (under (show_nat i) ls) w = Inr (g i)" by (auto simp: ebind_eq_Inr_iff)
  let ?acc = "(grown i acc)[i := w]"
  have i: "i < 2 ^ 31" "length acc \<le> 2 ^ 31" using l(2) assms(3) Cons.prems(2) by simp_all
  have "child_make (show_nat i) (JArray acc) = Inr (element acc i, \<lambda>w. JArray ((grown i acc)[i := w]))"
    by (simp add: child_make_def array_index_show [OF i(1)] array_place_grown [OF i])
  then have step: "assign l (JArray acc) = Inr (JArray ?acc)"
    using w(1) by (simp add: l(1) assign_Cons)
  have len: "length ?acc \<le> N" "length acc \<le> length ?acc" "i < length ?acc"
    using l(2) Cons.prems(2) by (simp_all add: grown_simps)
  have el: "element ?acc k = (if k = i then w else element acc k)" for k
    by (simp add: element_update grown_simps)
  have "assign_all (under (show_nat k) ls) (element ?acc k) = Inr (g k)" for k
    using w(2) Cons.prems(3) [of k] l el [of k] by (cases "k = i") (auto simp: show_nat_eq)
  with Cons.IH [of ?acc] Cons.prems(1) len(1) obtain acc' where
    acc': "assign_all ls (JArray ?acc) = Inr (JArray acc')" "length ?acc \<le> length acc'" "length acc' \<le> N"
    "\<And>k. element acc' k = g k" "\<And>k. show_nat k \<in> tokens ls \<Longrightarrow> k < length acc'" by auto
  have "k < length acc'" if "show_nat k \<in> tokens (l # ls)" for k
    using that acc'(2,5) len(3) by (auto simp: l show_nat_eq)
  with acc' step len show ?case by auto
qed simp

section \<open>The order of the leaves\<close>

text \<open>
  The documentation excludes the empty containers; the key 0 has to be excluded as well, and arrays have
  the indices that \<open>std::stoi\<close> reads.
\<close>

fun flattenable :: "json \<Rightarrow> bool" where
  "flattenable (JArray vs) = (vs \<noteq> [] \<and> length vs \<le> 2 ^ 31 \<and> list_all flattenable vs)"
| "flattenable (JObject kvs) =
     (kvs \<noteq> [] \<and> obj_wf kvs \<and> ''0'' \<notin> fst ` set kvs \<and> list_all (\<lambda>(k, v). flattenable v) kvs)"
| "flattenable _ = True"

definition ordered :: "leaf list \<Rightarrow> bool" where
  "ordered ls \<longleftrightarrow> sorted_wrt (<) (map leaf_path ls)"

lemma append_less [simp]: "p @ s < p @ t \<longleftrightarrow> s < (t :: string)"
  by (induction p) simp_all

lemma ordered_under:
  assumes "ordered ls" and "\<And>l. l \<in> set ls \<Longrightarrow> fst l \<noteq> []"
  shows "ordered (under t ls)"
proof -
  have "leaf_path (tl (fst l), snd l) < leaf_path (tl (fst l'), snd l')"
    if "l \<in> set ls" "l' \<in> set ls" "hd (fst l) = hd (fst l')" "leaf_path l < leaf_path l'" for l l'
    using that assms(2) [of l] assms(2) [of l'] by (cases "fst l"; cases "fst l'") (auto simp: leaf_path_def)
  moreover have "sorted_wrt (\<lambda>l l'. leaf_path l < leaf_path l') (filter (\<lambda>(ts, v). hd ts = t) ls)"
    using assms(1) by (simp add: ordered_def sorted_wrt_map sorted_wrt_filter)
  ultimately have "sorted_wrt (\<lambda>l l'. leaf_path (tl (fst l), snd l) < leaf_path (tl (fst l'), snd l'))
      (filter (\<lambda>(ts, v). hd ts = t) ls)"
    using sorted_wrt_mono_rel [of "filter (\<lambda>(ts, v). hd ts = t) ls" "\<lambda>l l'. leaf_path l < leaf_path l'"] by auto
  then show ?thesis by (simp add: ordered_def under_def sorted_wrt_map split_def)
qed

lemma ordered_distinct: "ordered ls \<Longrightarrow> distinct ls"
  by (simp add: ordered_def strict_sorted_iff distinct_map)

lemma ordered_single: "ordered ls \<Longrightarrow> set ls = {l} \<Longrightarrow> ls = [l]"
  using ordered_distinct [of ls] by (cases ls; cases "tl ls") auto

lemma set_under:
  assumes "\<And>l. l \<in> set ls \<Longrightarrow> fst l \<noteq> []"
  shows "set (under t ls) = {(ts, v). (t # ts, v) \<in> set ls}"
proof -
  have "(hd ts # tl ts, v) = (ts, v)" if "(ts, v) \<in> set ls" for ts v using assms [OF that] by simp
  then show ?thesis unfolding under_def by (force simp: image_iff)
qed

lemma set_below: "set (below t ls) = {(t # ts, v) |ts v. (ts, v) \<in> set ls}"
  by (auto simp: below_def)

lemma set_leaves_elements:
  "(us, v) \<in> set (leaves_elements i vs) \<longleftrightarrow>
     (\<exists>k < length vs. \<exists>ts. us = show_nat (i + k) # ts \<and> (ts, v) \<in> set (leaves (vs ! k)))"
  by (induction vs arbitrary: i) (auto simp: set_below Ex_less_Suc2 simp del: ex_simps)

lemma set_leaves_members:
  "(us, v) \<in> set (leaves_members kvs) \<longleftrightarrow>
     (\<exists>(k, x) \<in> set kvs. \<exists>ts. us = k # ts \<and> (ts, v) \<in> set (leaves x))"
  by (induction kvs) (auto simp: set_below)

lemma leaves_nonempty:
  "leaves j \<noteq> []" "vs \<noteq> [] \<Longrightarrow> leaves_elements i vs \<noteq> []" "kvs \<noteq> [] \<Longrightarrow> leaves_members kvs \<noteq> []"
  by (induction j and i vs and kvs rule: leaves_leaves_elements_leaves_members.induct) (auto simp: below_def)

lemma leaf_primitive:
  "l \<in> set (leaves j) \<Longrightarrow> is_primitive (snd l)"
  "l \<in> set (leaves_elements i vs) \<Longrightarrow> is_primitive (snd l)"
  "l \<in> set (leaves_members kvs) \<Longrightarrow> is_primitive (snd l)"
  by (induction j and i vs and kvs arbitrary: l and l and l rule: leaves_leaves_elements_leaves_members.induct)
    (auto simp: set_below split: if_splits)

section \<open>Unflattening what was flattened\<close>

text \<open>Of the leaves of an array the first in order is below the index 0.\<close>

lemma show_nat_0: "show_nat 0 = ''0''"
  by code_simp

lemma index_first: "i \<noteq> 0 \<Longrightarrow> leaf_path (show_nat 0 # ts, v) < leaf_path (show_nat i # us, w)"
proof -
  assume i: "i \<noteq> 0"
  obtain c s where c: "show_nat i = c # s" by (cases "show_nat i") auto
  then have "c \<noteq> CHR ''0''" "is_digit c" using hd_show_nat [of i] show_nat_digits [of i] i by auto
  moreover from this(1) have "(of_char c :: nat) \<noteq> of_char (CHR ''0'')" by (simp only: of_char_eq_iff not_False_eq_True)
  ultimately have "CHR ''0'' < c" by (simp add: is_digit_def less_char_def)
  moreover have "pointer_escape (c # s) = c # s" "pointer_escape ''0'' = ''0''"
    using escape_show_nat [of i] escape_show_nat [of 0] c show_nat_0 by simp_all
  ultimately show ?thesis by (simp add: leaf_path_def c show_nat_0)
qed

lemma assign_first_array: "assign (''0'' # ts, v) JNull = assign (''0'' # ts, v) (JArray [])"
proof -
  have "array_index ''0'' = Inr 0" using array_index_show [of 0] by (simp add: show_nat_0)
  then show ?thesis by (simp add: assign_Cons child_make_def)
qed

lemma assign_first_object: "k \<noteq> ''0'' \<Longrightarrow> assign (k # ts, v) JNull = assign (k # ts, v) (JObject [])"
  by (simp add: assign_Cons child_make_def)

lemma assign_leaves_array:
  assumes "vs \<noteq> []" and "length vs \<le> 2 ^ 31" and "set ls = set (leaves_elements 0 vs)" and "ordered ls"
    and "\<And>k ls. k < length vs \<Longrightarrow> set ls = set (leaves (vs ! k)) \<Longrightarrow> ordered ls \<Longrightarrow> assign_all ls JNull = Inr (vs ! k)"
  shows "assign_all ls JNull = Inr (JArray vs)"
proof -
  have at: "(us, v) \<in> set ls \<longleftrightarrow> (\<exists>k < length vs. \<exists>ts. us = show_nat k # ts \<and> (ts, v) \<in> set (leaves (vs ! k)))" for us v
    using set_leaves_elements [of us v 0 vs] assms(3) by simp
  have ne: "l \<in> set ls \<Longrightarrow> fst l \<noteq> []" for l using at [of "fst l" "snd l"] by auto
  have sub: "assign_all (under (show_nat k) ls) (element [] k) = Inr (element vs k)" for k
  proof (cases "k < length vs")
    case True
    have "set (under (show_nat k) ls) = set (leaves (vs ! k))"
      using True by (auto simp: set_under [OF ne] at show_nat_eq)
    from assms(5) [OF True this ordered_under [OF assms(4) ne]] True show ?thesis by (simp add: element_def)
  next
    case False
    then have "set (under (show_nat k) ls) = {}" by (auto simp: set_under [OF ne] at show_nat_eq)
    with False show ?thesis by (simp add: element_def)
  qed
  have "\<exists>acc. assign_all ls (JArray []) = Inr (JArray acc) \<and> length ([] :: json list) \<le> length acc \<and> length acc \<le> length vs \<and>
      (\<forall>i. element acc i = element vs i) \<and> (\<forall>i. show_nat i \<in> tokens ls \<longrightarrow> i < length acc)"
  proof (rule assign_elements)
    show "\<exists>i ts. fst l = show_nat i # ts \<and> i < length vs" if "l \<in> set ls" for l
      using at [of "fst l" "snd l"] that by auto
  qed (use assms(2) sub in simp_all)
  then obtain acc where acc: "assign_all ls (JArray []) = Inr (JArray acc)" "length acc \<le> length vs"
    "\<And>i. element acc i = element vs i" "\<And>i. show_nat i \<in> tokens ls \<Longrightarrow> i < length acc" by blast
  have tok: "show_nat k \<in> tokens ls" if k: "k < length vs" for k
  proof -
    obtain ts v where "(ts, v) \<in> set (leaves (vs ! k))" using leaves_nonempty(1) [of "vs ! k"] by (cases "leaves (vs ! k)") auto
    with k have "(show_nat k # ts, v) \<in> set ls" using at by blast
    then show ?thesis unfolding tokens_def by force
  qed
  have "acc = vs"
  proof (rule nth_equalityI)
    have "length vs - 1 < length acc" using acc(4) [OF tok] assms(1) by simp
    then show l: "length acc = length vs" using acc(2) by simp
    show "acc ! i = vs ! i" if "i < length acc" for i
      using acc(3) [of i] that l by (simp add: element_def)
  qed
  moreover have "assign_all ls JNull = assign_all ls (JArray [])"
  proof (cases ls)
    case Nil
    then show ?thesis using tok [of 0] assms(1) by (simp add: tokens_def)
  next
    case (Cons l ls')
    obtain k ts v where l: "l = (show_nat k # ts, v)" using at [of "fst l" "snd l"] Cons by (cases l) auto
    have "k = 0"
    proof (rule ccontr)
      assume k: "k \<noteq> 0"
      obtain ts' v' where "(ts', v') \<in> set (leaves (vs ! 0))" using leaves_nonempty(1) [of "vs ! 0"] by (cases "leaves (vs ! 0)") auto
      with assms(1) have "(show_nat 0 # ts', v') \<in> set ls" using at by blast
      with k l Cons have "(show_nat 0 # ts', v') \<in> set ls'" by (auto simp: show_nat_eq)
      with assms(4) Cons l have "leaf_path (show_nat k # ts, v) < leaf_path (show_nat 0 # ts', v')"
        by (auto simp: ordered_def)
      with index_first [OF k] show False by (metis less_asym)
    qed
    with l Cons show ?thesis using assign_first_array by (simp add: show_nat_0)
  qed
  ultimately show ?thesis using acc(1) by simp
qed

lemma assign_leaves_object:
  assumes "kvs \<noteq> []" and "obj_wf kvs" and "''0'' \<notin> fst ` set kvs" and "set ls = set (leaves_members kvs)" and "ordered ls"
    and "\<And>k x ls. (k, x) \<in> set kvs \<Longrightarrow> set ls = set (leaves x) \<Longrightarrow> ordered ls \<Longrightarrow> assign_all ls JNull = Inr x"
  shows "assign_all ls JNull = Inr (JObject kvs)"
proof -
  have d: "distinct (map fst kvs)" using assms(2) by (simp add: obj_wf_def strict_sorted_iff)
  have at: "(us, v) \<in> set ls \<longleftrightarrow> (\<exists>(k, x) \<in> set kvs. \<exists>ts. us = k # ts \<and> (ts, v) \<in> set (leaves x))" for us v
    using set_leaves_members [of us v kvs] assms(4) by simp
  have ne: "l \<in> set ls \<Longrightarrow> fst l \<noteq> []" for l using at [of "fst l" "snd l"] by auto
  have sub: "assign_all (under k ls) (member [] k) = Inr (member kvs k)" for k
  proof (cases "map_of kvs k")
    case (Some x)
    then have x: "(k, x) \<in> set kvs" by (rule map_of_SomeD)
    have "set (under k ls) = set (leaves x)"
      using x d by (auto simp: set_under [OF ne] at dest: eq_key_imp_eq_value)
    from assms(6) [OF x this ordered_under [OF assms(5) ne]] Some show ?thesis by (simp add: member_def)
  next
    case None
    then have "k \<notin> fst ` set kvs" by (simp add: map_of_eq_None_iff)
    then have "set (under k ls) = {}" by (auto simp: set_under [OF ne] at image_iff)
    with None show ?thesis by (simp add: member_def)
  qed
  from assign_members [OF ne obj_wf_Nil sub] obtain acc where acc: "assign_all ls (JObject []) = Inr (JObject acc)"
    "obj_wf acc" "\<And>k. map_of acc k = (if k \<in> tokens ls then Some (member kvs k) else None)" by auto
  have tok: "tokens ls = fst ` set kvs"
  proof
    show "tokens ls \<subseteq> fst ` set kvs" by (force simp: tokens_def at)
    show "fst ` set kvs \<subseteq> tokens ls"
    proof
      fix k assume "k \<in> fst ` set kvs"
      then obtain x where x: "(k, x) \<in> set kvs" by auto
      obtain ts v where "(ts, v) \<in> set (leaves x)" using leaves_nonempty(1) [of x] by (cases "leaves x") auto
      with x have "(k # ts, v) \<in> set ls" using at by blast
      then show "k \<in> tokens ls" unfolding tokens_def by force
    qed
  qed
  have "map_of acc k = map_of kvs k" for k
    using acc(3) [of k] tok map_of_eq_None_iff [of kvs k] by (auto simp: member_def split: option.split)
  then have "acc = kvs" using obj_wf_eqI [OF acc(2) assms(2)] by blast
  moreover have "assign_all ls JNull = assign_all ls (JObject [])"
  proof (cases ls)
    case Nil
    then show ?thesis using tok assms(1) by (simp add: tokens_def)
  next
    case (Cons l ls')
    obtain k ts v where l: "l = (k # ts, v)" "k \<in> fst ` set kvs" using at [of "fst l" "snd l"] Cons by (cases l) force
    with assms(3) have "k \<noteq> ''0''" by metis
    with l Cons show ?thesis by (simp add: assign_first_object)
  qed
  ultimately show ?thesis using acc(1) by simp
qed

lemma assign_single:
  assumes "ordered ls" and "set ls = {([], v)}"
  shows "assign_all ls JNull = Inr v"
  unfolding ordered_single [OF assms] by simp

lemma assign_leaves: "flattenable j \<Longrightarrow> set ls = set (leaves j) \<Longrightarrow> ordered ls \<Longrightarrow> assign_all ls JNull = Inr j"
proof (induction j arbitrary: ls rule: flattenable.induct)
  case (1 vs)
  show ?case
    by (rule assign_leaves_array) (use 1 in \<open>auto simp: list_all_length\<close>)
next
  case (2 kvs)
  show ?case
    by (rule assign_leaves_object) (use 2 in \<open>auto simp: list_all_iff\<close>)
qed (simp_all add: assign_single)

text \<open>The flattened object has the leaves as members, in the order of their pointers.\<close>

lemma leaf_heads:
  "l \<in> set (leaves_elements i vs) \<Longrightarrow> \<exists>k \<ge> i. hd (fst l) = show_nat k"
  "l \<in> set (leaves_members kvs) \<Longrightarrow> hd (fst l) \<in> fst ` set kvs"
proof -
  show "\<exists>k \<ge> i. hd (fst l) = show_nat k" if "l \<in> set (leaves_elements i vs)"
    using that set_leaves_elements [of "fst l" "snd l" i vs] le_add1 by fastforce
  show "hd (fst l) \<in> fst ` set kvs" if "l \<in> set (leaves_members kvs)"
    using that set_leaves_members [of "fst l" "snd l" kvs] by force
qed

lemma distinct_below: "distinct (map fst (below t ls)) = distinct (map fst ls)"
proof -
  have "map fst (below t ls) = map ((#) t) (map fst ls)" by (simp add: below_def split_def comp_def)
  moreover have "inj ((#) t)" by (simp add: inj_def)
  ultimately show ?thesis by (simp add: distinct_map inj_on_subset del: map_map)
qed

lemma distinct_leaves:
  "flattenable j \<Longrightarrow> distinct (map fst (leaves j))"
  "list_all flattenable vs \<Longrightarrow> distinct (map fst (leaves_elements i vs))"
  "list_all (\<lambda>(k, v). flattenable v) kvs \<Longrightarrow> distinct (map fst kvs) \<Longrightarrow> distinct (map fst (leaves_members kvs))"
proof (induction j and i vs and kvs rule: leaves_leaves_elements_leaves_members.induct)
  case (10 i v vs)
  have "fst l \<noteq> fst l'" if "l \<in> set (below (show_nat i) (leaves v))" "l' \<in> set (leaves_elements (Suc i) vs)" for l l'
  proof -
    have "hd (fst l) = show_nat i" using that(1) by (auto simp: set_below)
    moreover from leaf_heads(1) [OF that(2)] obtain k where "Suc i \<le> k" "hd (fst l') = show_nat k" by blast
    ultimately show ?thesis by (auto simp: show_nat_eq)
  qed
  then show ?case using 10 by (auto simp: distinct_below simp del: distinct_map)
next
  case (12 k v kvs)
  have "fst l \<noteq> fst l'" if "l \<in> set (below k (leaves v))" "l' \<in> set (leaves_members kvs)" for l l'
  proof -
    have "hd (fst l) = k" using that(1) by (auto simp: set_below)
    moreover have "k \<notin> fst ` set kvs" using 12(4) by simp
    ultimately show ?thesis using leaf_heads(2) [OF that(2)] by metis
  qed
  then show ?case using 12 by (auto simp: distinct_below simp del: distinct_map)
qed (simp_all add: obj_wf_def strict_sorted_iff)

lemma flatten_members_of:
  assumes "flattenable j"
  shows "\<exists>ls. flatten_into [] j [] = map named ls \<and> set ls = set (leaves j) \<and> ordered ls"
proof -
  let ?F = "flatten_into [] j []"
  have F: "?F = fold (\<lambda>(k, v). obj_put k v) (map named (leaves j)) []"
  proof -
    have "put_leaf [] = (\<lambda>(k, v). obj_put k v) \<circ> named" by (simp add: fun_eq_iff put_leaf_def named_def)
    then show ?thesis unfolding flatten_leaves(1) fold_map by simp
  qed
  have "inj leaf_path_tokens" if "leaf_path_tokens = pointer_to_string" for leaf_path_tokens :: "pointer \<Rightarrow> string"
    using that pointer_roundtrip by (metis injI sum.inject(2))
  then have "inj_on pointer_to_string A" for A using inj_on_subset by blast
  then have "distinct (map pointer_to_string (map fst (leaves j)))"
    using distinct_leaves(1) [OF assms] by (simp only: distinct_map)
  then have d: "distinct (map fst (map named (leaves j)))"
    by (simp add: named_def leaf_path_def comp_def)
  have wf: "obj_wf ?F" unfolding F by (rule obj_wf_fold) simp
  then have dF: "distinct (map fst ?F)" by (simp add: obj_wf_def strict_sorted_iff)
  have "map_of ?F = map_of (map named (leaves j))"
    unfolding F by (rule ext) (simp add: map_of_fold [OF d] split: option.split)
  then have set: "set ?F = named ` set (leaves j)"
    using map_of_inject_set [OF dF d] by simp
  define ls where "ls = map (\<lambda>(s, v). (projr (pointer_split s), v)) ?F"
  have back_named: "(\<lambda>(s, v). (projr (pointer_split s), v)) (named l) = l" for l
    by (simp add: named_def leaf_path_def pointer_roundtrip)
  have "map named ls = ?F"
    unfolding ls_def map_map
  proof (intro map_idI)
    fix x assume "x \<in> set ?F"
    then obtain l where "x = named l" using set by auto
    with back_named [of l] show "(named \<circ> (\<lambda>(s, v). (projr (pointer_split s), v))) x = x" by (simp only: comp_apply)
  qed
  moreover have "set ls = set (leaves j)"
    unfolding ls_def set_map set image_image back_named by simp
  moreover have "ordered ls"
    using wf \<open>map named ls = ?F\<close> unfolding ordered_def obj_wf_def
    by (metis (no_types, lifting) fst_conv map_eq_conv map_map comp_apply named_def)
  ultimately show ?thesis by metis
qed

text \<open>(C27) What \<open>unflatten\<close> documents, with the condition it leaves out: a value without empty containers and
  without the key 0 in an object is what unflattening the flattened value gives.\<close>

theorem flatten_roundtrip:
  assumes "flattenable j"
  shows "json_unflatten (json_flatten j) = Inr j"
proof -
  from flatten_members_of [OF assms] obtain ls where ls: "flatten_into [] j [] = map named ls"
    "set ls = set (leaves j)" "ordered ls" by blast
  have "unflatten_loop (map named ls) JNull = assign_all ls JNull"
    using ls(2) leaf_primitive(1) by (intro unflatten_assign) blast
  with ls assign_leaves [OF assms ls(2,3)] show ?thesis by (simp add: json_flatten_def json_unflatten_def)
qed

theorem flatten_roundtrip_witness:
  "let j = JObject [(''a/b'', JArray [JNull, JBool True, JObject [(''x'', JString ''y'')]]), (''c'', JArray [JInt 1])]
   in json_unflatten (json_flatten j) = Inr j"
  unfolding Let_def by (rule flatten_roundtrip) (simp add: obj_wf_def)

text \<open>The key 0 makes an array of an object, or a key that is not a number throw.\<close>

lemma flatten_key_zero:
  "json_unflatten (json_flatten (JObject [(''0'', JBool True)])) = Inr (JArray [JBool True])"
  "isl (json_unflatten (json_flatten (JObject [(''0'', JBool True), (''a'', JNull)])))"
proof -
  have p: "pointer_escape ''0'' = ''0''" "pointer_escape ''a'' = ''a''" "stoi ''a'' = NotANumber" by code_simp+
  have zero: "assign ([''0''], JBool True) JNull = Inr (JArray [JBool True])"
    by (simp add: assign_Cons child_make_def array_place_grown element_def grown_def)
  have e: "json_unflatten (JObject (map named ls)) = assign_all ls JNull" if "list_all (\<lambda>l. is_primitive (snd l)) ls" for ls
    using that unflatten_assign [of ls JNull] by (simp add: json_unflatten_def list_all_iff)
  have "json_flatten (JObject [(''0'', JBool True)]) = JObject (map named [([''0''], JBool True)])"
    by (simp add: json_flatten_def named_def leaf_path_def p)
  with e [of "[([''0''], JBool True)]"] zero
  show "json_unflatten (json_flatten (JObject [(''0'', JBool True)])) = Inr (JArray [JBool True])" by simp
  have "json_flatten (JObject [(''0'', JBool True), (''a'', JNull)]) =
      JObject (map named [([''0''], JBool True), ([''a''], JNull)])"
    by (simp add: json_flatten_def named_def leaf_path_def p)
  with e [of "[([''0''], JBool True), ([''a''], JNull)]"] zero
  show "isl (json_unflatten (json_flatten (JObject [(''0'', JBool True), (''a'', JNull)])))"
    by (simp add: assign_Cons child_make_def array_index_def p)
qed

end
