(* ===== verification/JsonIter.thy ===== *)
theory JsonIter
  imports JsonPointer
begin

text \<open>
  The iterators of \<^verbatim>\<open>src/json.hpp\<close>.  An iterator has the address of its value and three positions,
  of which the one for the type of the value counts.  The values iterators refer to are the cells of a
  heap.  A position in a \<open>std::map\<close> is a key, so that it survives changes of other keys, a position in a
  \<open>std::vector\<close> an index.
\<close>

section \<open>Positions\<close>

text \<open>\<open>NoMember\<close> and \<open>NoElement\<close> are the value-initialised iterators, which belong to no container.\<close>

datatype member_pos = NoMember | AtMember string | MembersEnd

datatype element_pos = NoElement | AtElement nat

record internal_iterator =
  object_iterator :: member_pos
  array_iterator :: element_pos
  primitive_iterator :: int

record json_iter =
  m_object :: "nat option"
  m_it :: internal_iterator

type_synonym json_heap = "nat \<Rightarrow> json"

definition invalid_iterator :: "nat \<Rightarrow> string \<Rightarrow> error" where
  "invalid_iterator i what_arg = StdError (exception_name ''invalid_iterator'' i @ what_arg)"

text \<open>Arithmetic of \<open>ptrdiff_t\<close>, and of the library's iterators: between the beginning and the end.\<close>

definition ptrdiff :: "int \<Rightarrow> int outcome" where
  "ptrdiff i = (if - (2 ^ 63) \<le> i \<and> i < 2 ^ 63 then Inr i else Inl (UB SignedOverflow))"

definition advance :: "nat \<Rightarrow> int \<Rightarrow> nat \<Rightarrow> nat outcome" where
  "advance len n i = (if 0 \<le> int i + n \<and> int i + n \<le> int len then Inr (nat (int i + n)) else Inl (UB OutOfBounds))"

definition element_index :: "json list \<Rightarrow> element_pos \<Rightarrow> nat outcome" where
  "element_index vs p = (case p of
     NoElement \<Rightarrow> Inl (UB NullDeref)
   | AtElement i \<Rightarrow> (if i \<le> length vs then Inr i else Inl (UB OutOfBounds)))"

definition member_index :: "(string \<times> json) list \<Rightarrow> member_pos \<Rightarrow> nat outcome" where
  "member_index kvs p = (case p of
     NoMember \<Rightarrow> Inl (UB NullDeref)
   | MembersEnd \<Rightarrow> Inr (length kvs)
   | AtMember k \<Rightarrow>
       (let i = length (takeWhile (\<lambda>(l, _). l \<noteq> k) kvs)
        in if i < length kvs then Inr i else Inl (UB UseAfterFree)))"

definition member_at :: "(string \<times> json) list \<Rightarrow> nat \<Rightarrow> member_pos" where
  "member_at kvs i = (if i < length kvs then AtMember (fst (kvs ! i)) else MembersEnd)"

text \<open>
  Comparing two iterators that belong to no container is defined, and they are equal; comparing such
  an iterator with one that belongs to a container is not.
\<close>

definition element_eq :: "element_pos \<Rightarrow> element_pos \<Rightarrow> bool outcome" where
  "element_eq p q = (if (p = NoElement) = (q = NoElement) then Inr (p = q) else Inl (UB NullDeref))"

definition member_eq :: "member_pos \<Rightarrow> member_pos \<Rightarrow> bool outcome" where
  "member_eq p q = (if (p = NoMember) = (q = NoMember) then Inr (p = q) else Inl (UB NullDeref))"

section \<open>Construction\<close>

definition primitive_begin :: int where "primitive_begin = 0"
definition primitive_end :: int where "primitive_end = primitive_begin + 1"

definition no_position :: internal_iterator where
  "no_position = \<lparr>object_iterator = NoMember, array_iterator = NoElement, primitive_iterator = - (2 ^ 63)\<rparr>"

definition iter_default :: json_iter where
  "iter_default = \<lparr>m_object = None, m_it = no_position\<rparr>"

definition iter_new :: "nat \<Rightarrow> json_iter" where
  "iter_new a = \<lparr>m_object = Some a, m_it = no_position\<rparr>"

text \<open>\<open>assert(m_object != nullptr)\<close>, then the value.\<close>

definition with_object :: "json_heap \<Rightarrow> json_iter \<Rightarrow> (json \<Rightarrow> 'a outcome) \<Rightarrow> 'a outcome" where
  "with_object h it f = (case m_object it of None \<Rightarrow> Inl Aborts | Some a \<Rightarrow> f (h a))"

definition set_begin :: "json_heap \<Rightarrow> json_iter \<Rightarrow> json_iter outcome" where
  "set_begin h it = with_object h it (\<lambda>j. Inr (it\<lparr>m_it := (case j of
     JObject kvs \<Rightarrow> (m_it it)\<lparr>object_iterator := member_at kvs 0\<rparr>
   | JArray vs \<Rightarrow> (m_it it)\<lparr>array_iterator := AtElement 0\<rparr>
   | JNull \<Rightarrow> (m_it it)\<lparr>primitive_iterator := primitive_end\<rparr>
   | _ \<Rightarrow> (m_it it)\<lparr>primitive_iterator := primitive_begin\<rparr>)\<rparr>))"

definition set_end :: "json_heap \<Rightarrow> json_iter \<Rightarrow> json_iter outcome" where
  "set_end h it = with_object h it (\<lambda>j. Inr (it\<lparr>m_it := (case j of
     JObject kvs \<Rightarrow> (m_it it)\<lparr>object_iterator := MembersEnd\<rparr>
   | JArray vs \<Rightarrow> (m_it it)\<lparr>array_iterator := AtElement (length vs)\<rparr>
   | _ \<Rightarrow> (m_it it)\<lparr>primitive_iterator := primitive_end\<rparr>)\<rparr>))"

definition json_begin :: "json_heap \<Rightarrow> nat \<Rightarrow> json_iter outcome" where
  "json_begin h a = set_begin h (iter_new a)"

definition json_end :: "json_heap \<Rightarrow> nat \<Rightarrow> json_iter outcome" where
  "json_end h a = set_end h (iter_new a)"

section \<open>Access\<close>

definition cannot_get_value :: error where
  "cannot_get_value = invalid_iterator 214 ''cannot get value''"

text \<open>The assertions against the end come before the access.\<close>

definition member_value :: "(string \<times> json) list \<Rightarrow> member_pos \<Rightarrow> json outcome" where
  "member_value kvs p =
     (if p = MembersEnd then Inl Aborts
      else ebind (member_index kvs p) (\<lambda>i. Inr (snd (kvs ! i))))"

definition element_value :: "json list \<Rightarrow> element_pos \<Rightarrow> json outcome" where
  "element_value vs p =
     (if p = AtElement (length vs) then Inl Aborts
      else ebind (element_index vs p) (\<lambda>i. Inr (vs ! i)))"

definition iter_deref :: "json_heap \<Rightarrow> json_iter \<Rightarrow> json outcome" where
  "iter_deref h it = with_object h it (\<lambda>j. case j of
     JObject kvs \<Rightarrow> member_value kvs (object_iterator (m_it it))
   | JArray vs \<Rightarrow> element_value vs (array_iterator (m_it it))
   | JNull \<Rightarrow> Inl cannot_get_value
   | _ \<Rightarrow> (if primitive_iterator (m_it it) = primitive_begin then Inr j else Inl cannot_get_value))"

text \<open>\<open>operator->\<close> has no case for null.\<close>

definition iter_arrow :: "json_heap \<Rightarrow> json_iter \<Rightarrow> json outcome" where
  "iter_arrow h it = with_object h it (\<lambda>j. case j of
     JObject kvs \<Rightarrow> member_value kvs (object_iterator (m_it it))
   | JArray vs \<Rightarrow> element_value vs (array_iterator (m_it it))
   | _ \<Rightarrow> (if primitive_iterator (m_it it) = primitive_begin then Inr j else Inl cannot_get_value))"

definition iter_key :: "json_heap \<Rightarrow> json_iter \<Rightarrow> string outcome" where
  "iter_key h it = with_object h it (\<lambda>j. case j of
     JObject kvs \<Rightarrow> ebind (member_index kvs (object_iterator (m_it it))) (\<lambda>i.
       if i < length kvs then Inr (fst (kvs ! i)) else Inl (UB OutOfBounds))
   | _ \<Rightarrow> Inl (invalid_iterator 207 ''cannot use key() for non-object iterators''))"

definition iter_at :: "json_heap \<Rightarrow> json_iter \<Rightarrow> int \<Rightarrow> json outcome" where
  "iter_at h it n = with_object h it (\<lambda>j. case j of
     JObject kvs \<Rightarrow> Inl (invalid_iterator 208 ''cannot use operator[] for object iterators'')
   | JArray vs \<Rightarrow> ebind (element_index vs (array_iterator (m_it it))) (\<lambda>i.
       ebind (advance (length vs) n i) (\<lambda>i'.
       if i' < length vs then Inr (vs ! i') else Inl (UB OutOfBounds)))
   | JNull \<Rightarrow> Inl cannot_get_value
   | _ \<Rightarrow> ebind (ptrdiff (- n)) (\<lambda>m.
       if primitive_iterator (m_it it) = m then Inr j else Inl cannot_get_value))"

section \<open>Movement\<close>

text \<open>\<open>std::advance\<close> by \<open>n\<close> on the position of the type of the value.\<close>

definition iter_move :: "json_heap \<Rightarrow> int \<Rightarrow> json_iter \<Rightarrow> json_iter outcome" where
  "iter_move h n it = with_object h it (\<lambda>j. case j of
     JObject kvs \<Rightarrow> ebind (member_index kvs (object_iterator (m_it it))) (\<lambda>i.
       ebind (advance (length kvs) n i) (\<lambda>i'.
       Inr (it\<lparr>m_it := (m_it it)\<lparr>object_iterator := member_at kvs i'\<rparr>\<rparr>)))
   | JArray vs \<Rightarrow> ebind (element_index vs (array_iterator (m_it it))) (\<lambda>i.
       ebind (advance (length vs) n i) (\<lambda>i'.
       Inr (it\<lparr>m_it := (m_it it)\<lparr>array_iterator := AtElement i'\<rparr>\<rparr>)))
   | _ \<Rightarrow> ebind (ptrdiff (primitive_iterator (m_it it) + n)) (\<lambda>p.
       Inr (it\<lparr>m_it := (m_it it)\<lparr>primitive_iterator := p\<rparr>\<rparr>)))"

definition iter_inc :: "json_heap \<Rightarrow> json_iter \<Rightarrow> json_iter outcome" where
  "iter_inc h it = iter_move h 1 it"

definition iter_dec :: "json_heap \<Rightarrow> json_iter \<Rightarrow> json_iter outcome" where
  "iter_dec h it = iter_move h (- 1) it"

text \<open>The postfix operators return the iterator as it was.\<close>

definition iter_post_inc :: "json_heap \<Rightarrow> json_iter \<Rightarrow> (json_iter \<times> json_iter) outcome" where
  "iter_post_inc h it = ebind (iter_inc h it) (\<lambda>it'. Inr (it, it'))"

definition iter_post_dec :: "json_heap \<Rightarrow> json_iter \<Rightarrow> (json_iter \<times> json_iter) outcome" where
  "iter_post_dec h it = ebind (iter_dec h it) (\<lambda>it'. Inr (it, it'))"

definition no_offsets :: error where
  "no_offsets = invalid_iterator 209 ''cannot use offsets with object iterators''"

definition iter_add :: "json_heap \<Rightarrow> json_iter \<Rightarrow> int \<Rightarrow> json_iter outcome" where
  "iter_add h it i = with_object h it (\<lambda>j. if is_object j then Inl no_offsets else iter_move h i it)"

definition iter_sub :: "json_heap \<Rightarrow> json_iter \<Rightarrow> int \<Rightarrow> json_iter outcome" where
  "iter_sub h it i = ebind (ptrdiff (- i)) (iter_add h it)"

text \<open>The difference does not look at the container of the other iterator; of two arrays it is undefined.\<close>

definition iter_diff :: "json_heap \<Rightarrow> json_iter \<Rightarrow> json_iter \<Rightarrow> int outcome" where
  "iter_diff h it other = with_object h it (\<lambda>j. case j of
     JObject kvs \<Rightarrow> Inl no_offsets
   | JArray vs \<Rightarrow>
       (if m_object other = m_object it then
          ebind (element_index vs (array_iterator (m_it it))) (\<lambda>i.
          ebind (element_index vs (array_iterator (m_it other))) (\<lambda>k. Inr (int i - int k)))
        else Inl (UB OutOfBounds))
   | _ \<Rightarrow> ptrdiff (primitive_iterator (m_it it) - primitive_iterator (m_it other)))"

section \<open>Comparison\<close>

definition different_containers :: error where
  "different_containers = invalid_iterator 212 ''cannot compare iterators of different containers''"

definition iter_eq :: "json_heap \<Rightarrow> json_iter \<Rightarrow> json_iter \<Rightarrow> bool outcome" where
  "iter_eq h it other =
     (if m_object it \<noteq> m_object other then Inl different_containers
      else with_object h it (\<lambda>j. case j of
        JObject kvs \<Rightarrow> member_eq (object_iterator (m_it it)) (object_iterator (m_it other))
      | JArray vs \<Rightarrow> element_eq (array_iterator (m_it it)) (array_iterator (m_it other))
      | _ \<Rightarrow> Inr (primitive_iterator (m_it it) = primitive_iterator (m_it other))))"

definition enot :: "bool outcome \<Rightarrow> bool outcome" where
  "enot m = ebind m (\<lambda>b. Inr (\<not> b))"

definition iter_neq :: "json_heap \<Rightarrow> json_iter \<Rightarrow> json_iter \<Rightarrow> bool outcome" where
  "iter_neq h it other = enot (iter_eq h it other)"

definition iter_less :: "json_heap \<Rightarrow> json_iter \<Rightarrow> json_iter \<Rightarrow> bool outcome" where
  "iter_less h it other =
     (if m_object it \<noteq> m_object other then Inl different_containers
      else with_object h it (\<lambda>j. case j of
        JObject kvs \<Rightarrow> Inl (invalid_iterator 213 ''cannot compare order of object iterators'')
      | JArray vs \<Rightarrow> ebind (element_index vs (array_iterator (m_it it))) (\<lambda>i.
          ebind (element_index vs (array_iterator (m_it other))) (\<lambda>k. Inr (i < k)))
      | _ \<Rightarrow> Inr (primitive_iterator (m_it it) < primitive_iterator (m_it other))))"

definition iter_le :: "json_heap \<Rightarrow> json_iter \<Rightarrow> json_iter \<Rightarrow> bool outcome" where
  "iter_le h it other = enot (iter_less h other it)"

definition iter_greater :: "json_heap \<Rightarrow> json_iter \<Rightarrow> json_iter \<Rightarrow> bool outcome" where
  "iter_greater h it other = enot (iter_le h it other)"

definition iter_ge :: "json_heap \<Rightarrow> json_iter \<Rightarrow> json_iter \<Rightarrow> bool outcome" where
  "iter_ge h it other = enot (iter_less h it other)"

section \<open>Loops\<close>

text \<open>
  A \<open>for\<close> loop over iterators, which may not end: it tests, runs its body, which gives a result, and goes on.
  The results are collected.
\<close>

partial_function (option) visit ::
  "('p \<Rightarrow> bool outcome) \<Rightarrow> ('p \<Rightarrow> ('x \<times> 'p) outcome) \<Rightarrow> 'p \<Rightarrow> 'x list \<Rightarrow> ('x list \<times> 'p) outcome option" where
  [code]: "visit test body p acc =
     (case test p of
        Inl e \<Rightarrow> Some (Inl e)
      | Inr b \<Rightarrow>
          if b then
            (case body p of
               Inl e \<Rightarrow> Some (Inl e)
             | Inr r \<Rightarrow> visit test body (snd r) (acc @ [fst r]))
          else Some (Inr (acc, p)))"

text \<open>\<open>for (it = first; it != last; ++it)\<close>, reading \<open>*it\<close>.\<close>

definition iter_loop :: "json_heap \<Rightarrow> json_iter \<Rightarrow> json_iter \<Rightarrow> (json list \<times> json_iter) outcome option" where
  "iter_loop h it stop = visit (\<lambda>it. iter_neq h it stop)
     (\<lambda>it. ebind (iter_deref h it) (\<lambda>v. ebind (iter_inc h it) (\<lambda>it'. Inr (v, it')))) it []"

text \<open>The range-based loop over \<open>iterator_wrapper\<close>: the proxy counts along for the keys of an array.\<close>

record iteration_proxy =
  anchor :: json_iter
  array_index_of :: nat

definition proxy_new :: "json_iter \<Rightarrow> iteration_proxy" where
  "proxy_new it = \<lparr>anchor = it, array_index_of = 0\<rparr>"

definition proxy_inc :: "json_heap \<Rightarrow> iteration_proxy \<Rightarrow> iteration_proxy outcome" where
  "proxy_inc h p = ebind (iter_inc h (anchor p)) (\<lambda>it.
     Inr \<lparr>anchor = it, array_index_of = (array_index_of p + 1) mod 2 ^ 64\<rparr>)"

definition proxy_neq :: "json_heap \<Rightarrow> iteration_proxy \<Rightarrow> iteration_proxy \<Rightarrow> bool outcome" where
  "proxy_neq h p q = iter_neq h (anchor p) (anchor q)"

definition proxy_key :: "json_heap \<Rightarrow> iteration_proxy \<Rightarrow> string outcome" where
  "proxy_key h p = with_object h (anchor p) (\<lambda>j. case j of
     JArray _ \<Rightarrow> Inr (show_nat (array_index_of p))
   | JObject _ \<Rightarrow> iter_key h (anchor p)
   | _ \<Rightarrow> Inr [])"

definition proxy_value :: "json_heap \<Rightarrow> iteration_proxy \<Rightarrow> json outcome" where
  "proxy_value h p = iter_deref h (anchor p)"

definition proxy_loop ::
  "json_heap \<Rightarrow> iteration_proxy \<Rightarrow> iteration_proxy \<Rightarrow> ((string \<times> json) list \<times> iteration_proxy) outcome option" where
  "proxy_loop h p stop = visit (\<lambda>p. proxy_neq h p stop)
     (\<lambda>p. ebind (proxy_key h p) (\<lambda>k. ebind (proxy_value h p) (\<lambda>v.
          ebind (proxy_inc h p) (\<lambda>p'. Inr ((k, v), p'))))) p []"

text \<open>\<open>std::reverse_iterator\<close>: a base iterator, which stands one behind the element.\<close>

definition reverse_deref :: "json_heap \<Rightarrow> json_iter \<Rightarrow> json outcome" where
  "reverse_deref h base = ebind (iter_dec h base) (iter_deref h)"

definition reverse_inc :: "json_heap \<Rightarrow> json_iter \<Rightarrow> json_iter outcome" where
  "reverse_inc h base = iter_dec h base"

definition reverse_dec :: "json_heap \<Rightarrow> json_iter \<Rightarrow> json_iter outcome" where
  "reverse_dec h base = iter_inc h base"

definition reverse_key :: "json_heap \<Rightarrow> json_iter \<Rightarrow> string outcome" where
  "reverse_key h base = ebind (iter_dec h base) (iter_key h)"

definition reverse_loop :: "json_heap \<Rightarrow> json_iter \<Rightarrow> json_iter \<Rightarrow> (json list \<times> json_iter) outcome option" where
  "reverse_loop h it stop = visit (\<lambda>it. iter_neq h it stop)
     (\<lambda>it. ebind (reverse_deref h it) (\<lambda>v. ebind (reverse_inc h it) (\<lambda>it'. Inr (v, it')))) it []"

section \<open>Iterators as indices\<close>

text \<open>The elements of a value, and the iterator to the element \<open>i\<close>.\<close>

fun json_elements :: "json \<Rightarrow> json list" where
  "json_elements JNull = []"
| "json_elements (JArray vs) = vs"
| "json_elements (JObject kvs) = map snd kvs"
| "json_elements j = [j]"

fun json_keys :: "json \<Rightarrow> string list" where
  "json_keys (JArray vs) = map show_nat [0..<length vs]"
| "json_keys (JObject kvs) = map fst kvs"
| "json_keys j = map (\<lambda>_. []) (json_elements j)"

fun distinct_keys :: "json \<Rightarrow> bool" where
  "distinct_keys (JObject kvs) = distinct (map fst kvs)"
| "distinct_keys _ = True"

definition iter_nth :: "json_heap \<Rightarrow> nat \<Rightarrow> nat \<Rightarrow> json_iter" where
  "iter_nth h a i = \<lparr>m_object = Some a, m_it = (case h a of
     JObject kvs \<Rightarrow> no_position\<lparr>object_iterator := member_at kvs i\<rparr>
   | JArray vs \<Rightarrow> no_position\<lparr>array_iterator := AtElement i\<rparr>
   | JNull \<Rightarrow> no_position\<lparr>primitive_iterator := int i + 1\<rparr>
   | _ \<Rightarrow> no_position\<lparr>primitive_iterator := int i\<rparr>)\<rparr>"

lemma m_object_nth [simp]: "m_object (iter_nth h a i) = Some a"
  by (simp add: iter_nth_def)

lemma with_object_nth [simp]: "with_object h (iter_nth h a i) f = f (h a)"
  by (simp add: with_object_def)

lemma json_begin_eq: "json_begin h a = Inr (iter_nth h a 0)"
  by (simp add: json_begin_def set_begin_def with_object_def iter_new_def iter_nth_def
      primitive_begin_def primitive_end_def split: json.split)

lemma json_end_eq: "json_end h a = Inr (iter_nth h a (length (json_elements (h a))))"
  by (simp add: json_end_def set_end_def with_object_def iter_new_def iter_nth_def member_at_def
      primitive_begin_def primitive_end_def split: json.split)

lemma takeWhile_distinct:
  assumes "distinct (map fst kvs)" and "i < length kvs"
  shows "length (takeWhile (\<lambda>(l, _). l \<noteq> fst (kvs ! i)) kvs) = i"
proof -
  have "takeWhile (\<lambda>(l, _). l \<noteq> fst (kvs ! i)) kvs = take i kvs"
  proof (rule takeWhile_eq_take_P_nth)
    fix k assume "k < i" "k < length kvs"
    with assms have "map fst kvs ! k \<noteq> map fst kvs ! i" by (simp only: nth_eq_iff_index_eq length_map)
    with \<open>k < length kvs\<close> assms(2) show "case kvs ! k of (l, _) \<Rightarrow> l \<noteq> fst (kvs ! i)" by (simp add: split_def)
  qed (simp add: split_def)
  with assms(2) show ?thesis by simp
qed

lemma member_index_at [simp]:
  "distinct (map fst kvs) \<Longrightarrow> i \<le> length kvs \<Longrightarrow> member_index kvs (member_at kvs i) = Inr i"
  by (simp add: member_index_def member_at_def takeWhile_distinct)

lemma element_index_at [simp]: "i \<le> length vs \<Longrightarrow> element_index vs (AtElement i) = Inr i"
  by (simp add: element_index_def)

lemma member_at_eq_iff:
  assumes "distinct (map fst kvs)" and "i \<le> length kvs" and "k \<le> length kvs"
  shows "member_at kvs i = member_at kvs k \<longleftrightarrow> i = k"
  using member_index_at [OF assms(1,2)] member_index_at [OF assms(1,3)] by (metis sum.inject(2))

lemma member_at_some: "member_at kvs i \<noteq> NoMember" "member_at kvs i = MembersEnd \<longleftrightarrow> length kvs \<le> i"
  by (simp_all add: member_at_def not_less)

text \<open>The iterators to the elements of one value are compared, read and moved like indices.\<close>

lemma iter_neq_nth:
  "distinct_keys (h a) \<Longrightarrow> i \<le> length (json_elements (h a)) \<Longrightarrow> k \<le> length (json_elements (h a)) \<Longrightarrow>
   iter_neq h (iter_nth h a i) (iter_nth h a k) = Inr (i \<noteq> k)"
  by (cases "h a")
    (simp_all add: iter_neq_def enot_def iter_eq_def, simp_all add: iter_nth_def member_eq_def element_eq_def
      member_at_some member_at_eq_iff)

lemma iter_deref_nth:
  "distinct_keys (h a) \<Longrightarrow> i < length (json_elements (h a)) \<Longrightarrow> iter_deref h (iter_nth h a i) = Inr (json_elements (h a) ! i)"
  by (cases "h a")
    (simp_all add: iter_deref_def, simp_all add: iter_nth_def member_value_def element_value_def
      member_at_some primitive_begin_def)

lemma iter_move_nth:
  "distinct_keys (h a) \<Longrightarrow> i \<le> length (json_elements (h a)) \<Longrightarrow> 0 \<le> int i + n \<Longrightarrow> int i + n \<le> int (length (json_elements (h a))) \<Longrightarrow>
   iter_move h n (iter_nth h a i) = Inr (iter_nth h a (nat (int i + n)))"
  by (cases "h a")
    (simp_all add: iter_move_def, simp_all add: iter_nth_def advance_def ptrdiff_def)

lemma iter_key_nth:
  "distinct_keys (h a) \<Longrightarrow> is_object (h a) \<Longrightarrow> i < length (json_elements (h a)) \<Longrightarrow>
   iter_key h (iter_nth h a i) = Inr (json_keys (h a) ! i)"
  by (cases "h a") (simp_all add: iter_key_def, simp_all add: iter_nth_def)

lemma iter_inc_nth:
  "distinct_keys (h a) \<Longrightarrow> i < length (json_elements (h a)) \<Longrightarrow> iter_inc h (iter_nth h a i) = Inr (iter_nth h a (Suc i))"
  using iter_move_nth [where n = 1] by (simp add: iter_inc_def nat_add_distrib)

lemma iter_dec_nth:
  "distinct_keys (h a) \<Longrightarrow> i < length (json_elements (h a)) \<Longrightarrow> iter_dec h (iter_nth h a (Suc i)) = Inr (iter_nth h a i)"
  using iter_move_nth [where i = "Suc i" and n = "- 1"] by (simp add: iter_dec_def)

section \<open>Iteration\<close>

text \<open>A loop that runs through the states \<open>P 0\<close> to \<open>P (length xs)\<close> collects \<open>xs\<close>.\<close>

lemma visit_run:
  assumes "\<And>i. i < length xs \<Longrightarrow> test (P i) = Inr True \<and> body (P i) = Inr (xs ! i, P (Suc i))"
    and "test (P (length xs)) = Inr False"
  shows "visit test body (P 0) acc = Some (Inr (acc @ xs, P (length xs)))"
proof -
  have "visit test body (P k) acc = Some (Inr (acc @ drop k xs, P (length xs)))" if "k \<le> length xs" for k acc
    using that
  proof (induction "length xs - k" arbitrary: k acc)
    case 0
    then show ?case using assms(2) by (subst visit.simps) simp
  next
    case (Suc n)
    then have "k < length xs" by simp
    with Suc assms(1) [OF this] show ?case
      by (subst visit.simps) (simp add: Cons_nth_drop_Suc)
  qed
  from this [of 0] show ?thesis by simp
qed

text \<open>What the body keeps holds of the state in which a loop ends.\<close>

lemma visit_invariant:
  fixes test :: "'p \<Rightarrow> bool outcome" and body :: "'p \<Rightarrow> ('x \<times> 'p) outcome"
  assumes "visit test body p acc = Some (Inr (xs, q))" and "Q p"
    and "\<And>p x p'. Q p \<Longrightarrow> body p = Inr (x, p') \<Longrightarrow> Q p'"
  shows "Q q"
proof -
  define P where "P test body p acc r \<longleftrightarrow> (Q p \<longrightarrow> (\<forall>p x p'. Q p \<longrightarrow> body p = Inr (x, p') \<longrightarrow> Q p') \<longrightarrow>
    (\<forall>xs q. r = Inr (xs, q) \<longrightarrow> Q q))"
    for test :: "'p \<Rightarrow> bool outcome" and body :: "'p \<Rightarrow> ('x \<times> 'p) outcome" and p and acc :: "'x list" and r :: "('x list \<times> 'p) outcome"
  from _ assms(1) have "P test body p acc (Inr (xs, q))"
  proof (rule visit.raw_induct [where P = P], goal_cases)
    case (1 v test body p acc r)
    note ih = 1(1) and step = 1(2)
    show ?case
      unfolding P_def
    proof (intro impI allI)
      fix xs q assume Q: "Q p" "\<forall>p x p'. Q p \<longrightarrow> body p = Inr (x, p') \<longrightarrow> Q p'" and r: "r = Inr (xs, q)"
      from step r consider "q = p" | x p' where "body p = Inr (x, p')" "v test body p' (acc @ [x]) = Some r"
        by (auto split: sum.splits if_splits)
      then show "Q q" using ih Q r unfolding P_def by cases blast+
    qed
  qed
  then show ?thesis using assms(2,3) unfolding P_def by blast
qed

text \<open>A loop from \<open>begin()\<close> to \<open>end()\<close> visits the elements in their order and stops, one from \<open>rbegin()\<close> to
  \<open>rend()\<close> visits them in the opposite order, and the loop over \<open>iterator_wrapper\<close> pairs them with their keys.\<close>

theorem iteration_elements:
  assumes "distinct_keys (h a)" and "length (json_elements (h a)) \<le> 2 ^ 64"
  shows "\<exists>b e. json_begin h a = Inr b \<and> json_end h a = Inr e \<and>
    iter_loop h b e = Some (Inr (json_elements (h a), e)) \<and>
    reverse_loop h e b = Some (Inr (rev (json_elements (h a)), b)) \<and>
    (\<exists>p. proxy_loop h (proxy_new b) (proxy_new e) = Some (Inr (zip (json_keys (h a)) (json_elements (h a)), p)))"
proof -
  let ?xs = "json_elements (h a)"
  let ?P = "iter_nth h a"
  note step = iter_neq_nth [of h a, OF assms(1)] iter_deref_nth [of h a, OF assms(1)]
    iter_inc_nth [of h a, OF assms(1)] iter_dec_nth [of h a, OF assms(1)]
  have fwd: "iter_loop h (?P 0) (?P (length ?xs)) = Some (Inr (?xs, ?P (length ?xs)))"
    unfolding iter_loop_def by (subst visit_run [where xs = ?xs and P = ?P]) (simp_all add: step)
  have bwd: "reverse_loop h (?P (length ?xs)) (?P 0) = Some (Inr (rev ?xs, ?P 0))"
  proof -
    let ?R = "\<lambda>i. ?P (length ?xs - i)"
    have "Suc (length ?xs - Suc i) = length ?xs - i" if "i < length ?xs" for i using that by simp
    then have "iter_dec h (?R i) = Inr (?R (Suc i))" if "i < length ?xs" for i
      using step(4) [of "length ?xs - Suc i"] that by simp
    then show ?thesis
      unfolding reverse_loop_def
      using visit_run [where xs = "rev ?xs" and P = ?R and test = "\<lambda>it. iter_neq h it (?P 0)" and acc = "[]"]
      by (simp add: step rev_nth reverse_deref_def reverse_inc_def)
  qed
  let ?Q = "\<lambda>i. \<lparr>anchor = ?P i, array_index_of = i mod 2 ^ 64\<rparr>"
  let ?kvs = "zip (json_keys (h a)) ?xs"
  have len: "length (json_keys (h a)) = length ?xs" by (cases "h a") simp_all
  have key: "proxy_key h (?Q i) = Inr (json_keys (h a) ! i)" if "i < length ?xs" for i
    using that assms(2) iter_key_nth [of h a, OF assms(1) _ that] by (cases "h a") (simp_all add: proxy_key_def)
  have "proxy_inc h (?Q i) = Inr (?Q (Suc i))" if "i < length ?xs" for i
    using that by (simp add: proxy_inc_def step mod_Suc_eq)
  with key have "proxy_loop h (proxy_new (?P 0)) (proxy_new (?P (length ?xs))) =
      Some (Inr (?kvs, ?Q (length ?xs)))"
    unfolding proxy_loop_def
    using visit_run [where xs = ?kvs and P = ?Q and acc = "[]" and
        test = "\<lambda>p. proxy_neq h p (proxy_new (?P (length ?xs)))"]
    by (simp add: len step proxy_new_def proxy_neq_def proxy_value_def)
  with fwd bwd show ?thesis by (auto simp: json_begin_eq json_end_eq)
qed

theorem iteration_elements_witness:
  "\<exists>b e p. json_begin (\<lambda>_. JArray [JBool True, JNull]) 0 = Inr b \<and> json_end (\<lambda>_. JArray [JBool True, JNull]) 0 = Inr e \<and>
    proxy_loop (\<lambda>_. JArray [JBool True, JNull]) (proxy_new b) (proxy_new e) =
      Some (Inr ([(''0'', JBool True), (''1'', JNull)], p))"
proof -
  have "show_nat 0 = ''0''" "show_nat 1 = ''1''" by code_simp+
  with iteration_elements [of "\<lambda>_. JArray [JBool True, JNull]" 0] show ?thesis by (auto simp: upt_rec)
qed

end
