(* ===== verification/JsonModify.thy ===== *)
theory JsonModify
  imports JsonIter
begin

text \<open>
  What the values of \<^verbatim>\<open>src/json.hpp\<close> do with iterators: lookup, capacity, the modifiers, and construction
  from a range.  An operation takes the heap of the values and the address of the one it is called on, and
  gives the heap it leaves.  Iterators that a modifier invalidates are the caller's to avoid, as C++ has it.
\<close>

section \<open>Ranges\<close>

text \<open>The part of a list between two positions; a range that is none is undefined behaviour.\<close>

definition range_of :: "'a list \<Rightarrow> nat \<Rightarrow> nat \<Rightarrow> 'a list outcome" where
  "range_of xs i k = (if i \<le> k \<and> k \<le> length xs then Inr (take (k - i) (drop i xs)) else Inl (UB OutOfBounds))"

definition cut_range :: "'a list \<Rightarrow> nat \<Rightarrow> nat \<Rightarrow> 'a list outcome" where
  "cut_range xs i k = (if i \<le> k \<and> k \<le> length xs then Inr (take i xs @ drop k xs) else Inl (UB OutOfBounds))"

definition paste :: "'a list \<Rightarrow> nat \<Rightarrow> 'a list \<Rightarrow> 'a list" where
  "paste xs i ys = take i xs @ ys @ drop i xs"

definition cannot_use :: "nat \<Rightarrow> string \<Rightarrow> json \<Rightarrow> error" where
  "cannot_use i f j = type_error i (''cannot use '' @ f @ ''() with '' @ type_name j)"

definition object_pos :: "json_iter \<Rightarrow> member_pos" where
  "object_pos it = object_iterator (m_it it)"

definition array_pos :: "json_iter \<Rightarrow> element_pos" where
  "array_pos it = array_iterator (m_it it)"

definition at_member :: "json_iter \<Rightarrow> member_pos \<Rightarrow> json_iter" where
  "at_member it p = it\<lparr>m_it := (m_it it)\<lparr>object_iterator := p\<rparr>\<rparr>"

definition at_element :: "json_iter \<Rightarrow> element_pos \<Rightarrow> json_iter" where
  "at_element it p = it\<lparr>m_it := (m_it it)\<lparr>array_iterator := p\<rparr>\<rparr>"

definition is_begin :: "json_iter \<Rightarrow> bool" where
  "is_begin it \<longleftrightarrow> primitive_iterator (m_it it) = primitive_begin"

definition is_end :: "json_iter \<Rightarrow> bool" where
  "is_end it \<longleftrightarrow> primitive_iterator (m_it it) = primitive_end"

section \<open>Construction from a range\<close>

definition json_of_range :: "json_heap \<Rightarrow> json_iter \<Rightarrow> json_iter \<Rightarrow> json outcome" where
  "json_of_range h first stop = with_object h first (\<lambda>j. with_object h stop (\<lambda>_.
     if m_object first \<noteq> m_object stop then Inl (invalid_iterator 201 ''iterators are not compatible'')
     else case j of
       JObject kvs \<Rightarrow> ebind (member_index kvs (object_pos first)) (\<lambda>i.
         ebind (member_index kvs (object_pos stop)) (\<lambda>k.
         ebind (range_of kvs i k) (\<lambda>kvs'. Inr (JObject kvs'))))
     | JArray vs \<Rightarrow> ebind (element_index vs (array_pos first)) (\<lambda>i.
         ebind (element_index vs (array_pos stop)) (\<lambda>k.
         ebind (range_of vs i k) (\<lambda>vs'. Inr (JArray vs'))))
     | JNull \<Rightarrow> Inl (invalid_iterator 206 (''cannot construct with iterators from '' @ type_name j))
     | _ \<Rightarrow> (if \<not> is_begin first \<or> \<not> is_end stop then Inl (invalid_iterator 204 ''iterators out of range'')
             else Inr j)))"

section \<open>Lookup\<close>

definition json_find :: "json_heap \<Rightarrow> nat \<Rightarrow> string \<Rightarrow> json_iter outcome" where
  "json_find h a k = ebind (json_end h a) (\<lambda>result. Inr (case h a of
     JObject kvs \<Rightarrow> at_member result (if k \<in> fst ` set kvs then AtMember k else MembersEnd)
   | _ \<Rightarrow> result))"

definition json_count :: "json \<Rightarrow> string \<Rightarrow> nat" where
  "json_count j k = (case j of JObject kvs \<Rightarrow> (if k \<in> fst ` set kvs then 1 else 0) | _ \<Rightarrow> 0)"

text \<open>\<open>value(key, default)\<close>, with the conversion to the type of the default.\<close>

definition json_value :: "(json \<Rightarrow> 'a outcome) \<Rightarrow> json_heap \<Rightarrow> nat \<Rightarrow> string \<Rightarrow> 'a \<Rightarrow> 'a outcome" where
  "json_value conv h a k dflt =
     (if is_object (h a) then
        ebind (json_find h a k) (\<lambda>it.
        ebind (ebind (json_end h a) (iter_neq h it)) (\<lambda>found.
        if found then ebind (iter_deref h it) conv else Inr dflt))
      else Inl (cannot_use 306 ''value'' (h a)))"

definition json_front :: "json_heap \<Rightarrow> nat \<Rightarrow> json outcome" where
  "json_front h a = ebind (json_begin h a) (iter_deref h)"

definition json_back :: "json_heap \<Rightarrow> nat \<Rightarrow> json outcome" where
  "json_back h a = ebind (json_end h a) (\<lambda>tmp. ebind (iter_dec h tmp) (iter_deref h))"

section \<open>Capacity\<close>

fun json_empty :: "json \<Rightarrow> bool" where
  "json_empty JNull = True"
| "json_empty (JArray vs) = (vs = [])"
| "json_empty (JObject kvs) = (kvs = [])"
| "json_empty _ = False"

fun json_size :: "json \<Rightarrow> nat" where
  "json_size JNull = 0"
| "json_size (JArray vs) = length vs"
| "json_size (JObject kvs) = length kvs"
| "json_size _ = 1"

text \<open>\<open>max_size\<close> of a \<open>std::map\<close> is the library's.\<close>

fun json_max_size :: "nat \<Rightarrow> json \<Rightarrow> nat" where
  "json_max_size max_members (JArray vs) = max_elements"
| "json_max_size max_members (JObject kvs) = max_members"
| "json_max_size max_members j = json_size j"

section \<open>Removal\<close>

definition not_fitting :: error where
  "not_fitting = invalid_iterator 202 ''iterator does not fit current value''"

definition json_erase :: "json_heap \<Rightarrow> nat \<Rightarrow> json_iter \<Rightarrow> (json_heap \<times> json_iter) outcome" where
  "json_erase h a pos =
     (if m_object pos \<noteq> Some a then Inl not_fitting
      else ebind (json_end h a) (\<lambda>result. case h a of
        JObject kvs \<Rightarrow> ebind (member_index kvs (object_pos pos)) (\<lambda>i.
          ebind (cut_range kvs i (Suc i)) (\<lambda>kvs'.
          Inr (h(a := JObject kvs'), at_member result (member_at kvs' i))))
      | JArray vs \<Rightarrow> ebind (element_index vs (array_pos pos)) (\<lambda>i.
          ebind (cut_range vs i (Suc i)) (\<lambda>vs'.
          Inr (h(a := JArray vs'), at_element result (AtElement i))))
      | JNull \<Rightarrow> Inl (cannot_use 307 ''erase'' (h a))
      | _ \<Rightarrow> (if \<not> is_begin pos then Inl (invalid_iterator 205 ''iterator out of range'')
              else Inr (h(a := JNull), result))))"

definition json_erase_range :: "json_heap \<Rightarrow> nat \<Rightarrow> json_iter \<Rightarrow> json_iter \<Rightarrow> (json_heap \<times> json_iter) outcome" where
  "json_erase_range h a first stop =
     (if m_object first \<noteq> Some a \<or> m_object stop \<noteq> Some a then
        Inl (invalid_iterator 203 ''iterators do not fit current value'')
      else ebind (json_end h a) (\<lambda>result. case h a of
        JObject kvs \<Rightarrow> ebind (member_index kvs (object_pos first)) (\<lambda>i.
          ebind (member_index kvs (object_pos stop)) (\<lambda>k.
          ebind (cut_range kvs i k) (\<lambda>kvs'.
          Inr (h(a := JObject kvs'), at_member result (member_at kvs' i)))))
      | JArray vs \<Rightarrow> ebind (element_index vs (array_pos first)) (\<lambda>i.
          ebind (element_index vs (array_pos stop)) (\<lambda>k.
          ebind (cut_range vs i k) (\<lambda>vs'.
          Inr (h(a := JArray vs'), at_element result (AtElement i)))))
      | JNull \<Rightarrow> Inl (cannot_use 307 ''erase'' (h a))
      | _ \<Rightarrow> (if \<not> is_begin first \<or> \<not> is_end stop then Inl (invalid_iterator 204 ''iterators out of range'')
              else Inr (h(a := JNull), result))))"

definition json_erase_key :: "string \<Rightarrow> json \<Rightarrow> (json \<times> nat) outcome" where
  "json_erase_key k j = (case j of
     JObject kvs \<Rightarrow> Inr (JObject (filter (\<lambda>(l, _). l \<noteq> k) kvs), json_count j k)
   | _ \<Rightarrow> Inl (cannot_use 307 ''erase'' j))"

definition json_erase_index :: "nat \<Rightarrow> json \<Rightarrow> json outcome" where
  "json_erase_index i j = (case j of
     JArray vs \<Rightarrow> (if i \<ge> json_size j then Inl (index_out_of_range (show_nat i))
       else ebind (cut_range vs i (Suc i)) (\<lambda>vs'. Inr (JArray vs')))
   | _ \<Rightarrow> Inl (cannot_use 307 ''erase'' j))"

fun json_clear :: "json \<Rightarrow> json" where
  "json_clear (JInt _) = JInt 0"
| "json_clear (JUnsigned _) = JUnsigned 0"
| "json_clear (JFloat _) = JFloat (Dbl False 0)"
| "json_clear (JBool _) = JBool False"
| "json_clear (JString _) = JString []"
| "json_clear (JArray _) = JArray []"
| "json_clear (JObject _) = JObject []"
| "json_clear JNull = JNull"

section \<open>Insertion\<close>

text \<open>\<open>std::map::insert\<close> leaves an entry that is there.\<close>

fun push_member :: "string \<Rightarrow> json \<Rightarrow> json \<Rightarrow> json outcome" where
  "push_member k v JNull = Inr (JObject [(k, v)])"
| "push_member k v (JObject kvs) = Inr (JObject (obj_emplace k v kvs))"
| "push_member k v j = Inl (cannot_use 308 ''push_back'' j)"

fun push_back_list :: "json list \<Rightarrow> json \<Rightarrow> json outcome" where
  "push_back_list [JString k, v] (JObject kvs) = push_member k v (JObject kvs)"
| "push_back_list init j = push_back j (init_json init)"

fun emplace_back :: "json \<Rightarrow> json \<Rightarrow> json outcome" where
  "emplace_back v JNull = Inr (JArray [v])"
| "emplace_back v (JArray vs) = Inr (JArray (vs @ [v]))"
| "emplace_back v j = Inl (cannot_use 311 ''emplace_back'' j)"

definition emplace_members :: "(string \<times> json) list \<Rightarrow> (string \<times> json) list \<Rightarrow> (string \<times> json) list" where
  "emplace_members new kvs = fold (\<lambda>(k, v). obj_emplace k v) new kvs"

definition json_emplace :: "json_heap \<Rightarrow> nat \<Rightarrow> string \<Rightarrow> json \<Rightarrow> (json_heap \<times> json_iter \<times> bool) outcome" where
  "json_emplace h a k v =
     (if \<not> (is_null (h a) \<or> is_object (h a)) then Inl (cannot_use 311 ''emplace'' (h a))
      else
        let kvs = (case h a of JObject kvs \<Rightarrow> kvs | _ \<Rightarrow> []);
            h' = h(a := JObject (obj_emplace k v kvs))
        in ebind (json_begin h' a) (\<lambda>it. Inr (h', at_member it (AtMember k), k \<notin> fst ` set kvs)))"

text \<open>The four overloads for arrays share their beginning and their end.\<close>

definition insert_at :: "json_heap \<Rightarrow> nat \<Rightarrow> json_iter \<Rightarrow> (json list \<Rightarrow> json list outcome) \<Rightarrow> (json_heap \<times> json_iter) outcome" where
  "insert_at h a pos new = (case h a of
     JArray vs \<Rightarrow>
       (if m_object pos \<noteq> Some a then Inl not_fitting
        else ebind (new vs) (\<lambda>ws. ebind (element_index vs (array_pos pos)) (\<lambda>i.
          Inr (h(a := JArray (paste vs i ws)), at_element (iter_new a) (AtElement i)))))
   | j \<Rightarrow> Inl (cannot_use 309 ''insert'' j))"

definition json_insert :: "json_heap \<Rightarrow> nat \<Rightarrow> json_iter \<Rightarrow> json \<Rightarrow> (json_heap \<times> json_iter) outcome" where
  "json_insert h a pos v = insert_at h a pos (\<lambda>_. Inr [v])"

definition insert_copies :: "json_heap \<Rightarrow> nat \<Rightarrow> json_iter \<Rightarrow> nat \<Rightarrow> json \<Rightarrow> (json_heap \<times> json_iter) outcome" where
  "insert_copies h a pos cnt v = insert_at h a pos (\<lambda>vs.
     if cnt > max_elements - length vs then Inl (StdError ''vector::_M_fill_insert'') else Inr (replicate cnt v))"

definition insert_list :: "json_heap \<Rightarrow> nat \<Rightarrow> json_iter \<Rightarrow> json list \<Rightarrow> (json_heap \<times> json_iter) outcome" where
  "insert_list h a pos ilist = insert_at h a pos (\<lambda>_. Inr ilist)"

text \<open>
  The elements between two array iterators.  That the value they belong to is an array is not checked: the
  array positions of iterators to another value belong to no container, and their range is empty.
\<close>

definition elements_between :: "json_heap \<Rightarrow> json_iter \<Rightarrow> json_iter \<Rightarrow> json list outcome" where
  "elements_between h first stop =
     (if array_pos first = NoElement \<and> array_pos stop = NoElement then Inr []
      else case m_object first of
        None \<Rightarrow> Inl (UB NullDeref)
      | Some b \<Rightarrow> (case h b of
          JArray ws \<Rightarrow> ebind (element_index ws (array_pos first)) (\<lambda>i.
            ebind (element_index ws (array_pos stop)) (\<lambda>k. range_of ws i k))
        | _ \<Rightarrow> Inl (UB UseAfterFree)))"

definition insert_range :: "json_heap \<Rightarrow> nat \<Rightarrow> json_iter \<Rightarrow> json_iter \<Rightarrow> json_iter \<Rightarrow> (json_heap \<times> json_iter) outcome" where
  "insert_range h a pos first stop = insert_at h a pos (\<lambda>_.
     if m_object first \<noteq> m_object stop then Inl (invalid_iterator 210 ''iterators do not fit'')
     else if m_object first = Some a then
       Inl (invalid_iterator 211 ''passed iterators may not belong to container'')
     else elements_between h first stop)"

definition insert_members :: "json_heap \<Rightarrow> nat \<Rightarrow> json_iter \<Rightarrow> json_iter \<Rightarrow> json_heap outcome" where
  "insert_members h a first stop = (case h a of
     JObject kvs \<Rightarrow>
       (if m_object first \<noteq> m_object stop then Inl (invalid_iterator 210 ''iterators do not fit'')
        else case m_object first of
          None \<Rightarrow> Inl (UB NullDeref)
        | Some b \<Rightarrow> (case h b of
            JObject lvs \<Rightarrow> ebind (member_index lvs (object_pos first)) (\<lambda>i.
              ebind (member_index lvs (object_pos stop)) (\<lambda>k.
              ebind (range_of lvs i k) (\<lambda>new. Inr (h(a := JObject (emplace_members new kvs))))))
          | _ \<Rightarrow> Inl (invalid_iterator 202 ''iterators first and last must point to objects'')))
   | j \<Rightarrow> Inl (cannot_use 309 ''insert'' j))"

section \<open>Update\<close>

definition null_to_object :: "json_heap \<Rightarrow> nat \<Rightarrow> json_heap" where
  "null_to_object h a = (if is_null (h a) then h(a := JObject []) else h)"

text \<open>The loop writes to \<open>a\<close> while its iterator is in another value or, when \<open>update\<close> is called with the value
  itself, in the same.\<close>

definition update_body :: "nat \<Rightarrow> json_heap \<times> json_iter \<Rightarrow> (unit \<times> json_heap \<times> json_iter) outcome" where
  "update_body a = (\<lambda>(h, it). ebind (iter_key h it) (\<lambda>k. ebind (iter_deref h it) (\<lambda>v.
     case h a of
       JObject kvs \<Rightarrow>
         let h' = h(a := JObject (obj_put k v kvs)) in ebind (iter_inc h' it) (\<lambda>it'. Inr ((), h', it'))
     | _ \<Rightarrow> Inl Aborts)))"

definition json_update :: "json_heap \<Rightarrow> nat \<Rightarrow> nat \<Rightarrow> json_heap outcome option" where
  "json_update h0 a b =
     (let h = null_to_object h0 a
      in if \<not> is_object (h a) then Some (Inl (cannot_use 312 ''update'' (h a)))
         else if \<not> is_object (h b) then Some (Inl (cannot_use 312 ''update'' (h b)))
         else case json_begin h b of
           Inl e \<Rightarrow> Some (Inl e)
         | Inr it \<Rightarrow> map_option (\<lambda>r. ebind r (\<lambda>(_, h', _). Inr h'))
             (visit (\<lambda>(h, it). ebind (json_end h b) (iter_neq h it)) (update_body a) (h, it) []))"

definition update_range :: "json_heap \<Rightarrow> nat \<Rightarrow> json_iter \<Rightarrow> json_iter \<Rightarrow> json_heap outcome option" where
  "update_range h0 a first stop =
     (let h = null_to_object h0 a
      in if \<not> is_object (h a) then Some (Inl (cannot_use 312 ''update'' (h a)))
         else if m_object first \<noteq> m_object stop then Some (Inl (invalid_iterator 210 ''iterators do not fit''))
         else case m_object first of
           None \<Rightarrow> Some (Inl (UB NullDeref))
         | Some b \<Rightarrow>
             if \<not> is_object (h b) then
               Some (Inl (invalid_iterator 202 ''iterators first and last must point to objects''))
             else map_option (\<lambda>r. ebind r (\<lambda>(_, h', _). Inr h'))
               (visit (\<lambda>(h, it). iter_neq h it stop) (update_body a) (h, first) []))"

section \<open>Swap\<close>

definition json_swap :: "json_heap \<Rightarrow> nat \<Rightarrow> nat \<Rightarrow> json_heap" where
  "json_swap h a b = h(a := h b, b := h a)"

fun swap_array :: "json \<Rightarrow> json list \<Rightarrow> (json \<times> json list) outcome" where
  "swap_array (JArray vs) other = Inr (JArray other, vs)"
| "swap_array j other = Inl (cannot_use 310 ''swap'' j)"

fun swap_object :: "json \<Rightarrow> (string \<times> json) list \<Rightarrow> (json \<times> (string \<times> json) list) outcome" where
  "swap_object (JObject kvs) other = Inr (JObject other, kvs)"
| "swap_object j other = Inl (cannot_use 310 ''swap'' j)"

fun swap_string :: "json \<Rightarrow> string \<Rightarrow> (json \<times> string) outcome" where
  "swap_string (JString s) other = Inr (JString other, s)"
| "swap_string j other = Inl (cannot_use 310 ''swap'' j)"

section \<open>Capacity and iterators\<close>

lemma json_size_elements: "json_size j = length (json_elements j)"
  by (cases j) simp_all

lemma json_empty_size: "json_empty j \<longleftrightarrow> json_size j = 0"
  by (cases j) simp_all

lemma size_is_distance:
  assumes "\<not> is_object (h a)"
  shows "ebind (json_end h a) (\<lambda>e. ebind (json_begin h a) (iter_diff h e)) = Inr (int (json_size (h a)))"
  using assms by (cases "h a")
    (simp_all add: json_begin_eq json_end_eq iter_diff_def, simp_all add: iter_nth_def ptrdiff_def)

lemma element_pos_nth [simp]: "h a = JArray vs \<Longrightarrow> array_pos (iter_nth h a i) = AtElement i"
  by (simp add: array_pos_def iter_nth_def)

lemma member_pos_nth [simp]: "h a = JObject kvs \<Longrightarrow> object_pos (iter_nth h a i) = member_at kvs i"
  by (simp add: object_pos_def iter_nth_def)

lemma at_element_nth: "h a = JArray vs \<Longrightarrow> m_object it = Some a \<Longrightarrow> m_it it = (no_position\<lparr>array_iterator := p\<rparr>) \<Longrightarrow>
   at_element it (AtElement i) = iter_nth h a i"
  by (simp add: at_element_def iter_nth_def)

text \<open>\<open>back\<close> of an empty container steps before its beginning, and no assertion guards that; \<open>front\<close> has one.\<close>

lemma back_empty_undefined:
  assumes "h a = JArray [] \<or> h a = JObject []"
  shows "json_front h a = Inl Aborts" and "json_back h a = Inl (UB OutOfBounds)"
proof -
  have d: "distinct_keys (h a)" using assms by auto
  show "json_front h a = Inl Aborts"
    using assms by (auto simp: json_front_def json_begin_eq iter_deref_def)
      (simp_all add: iter_nth_def element_value_def member_value_def member_at_def)
  show "json_back h a = Inl (UB OutOfBounds)"
    using assms by (auto simp: json_back_def json_end_eq iter_dec_def iter_move_def)
      (simp_all add: iter_nth_def element_index_def member_index_def member_at_def advance_def)
qed

lemma front_back:
  assumes "distinct_keys (h a)" and "json_elements (h a) \<noteq> []"
  shows "json_front h a = Inr (hd (json_elements (h a)))" and "json_back h a = Inr (List.last (json_elements (h a)))"
proof -
  show "json_front h a = Inr (hd (json_elements (h a)))"
    using assms iter_deref_nth [of h a 0] by (simp add: json_front_def json_begin_eq hd_conv_nth)
  obtain n where n: "length (json_elements (h a)) = Suc n" using assms(2) by (cases "json_elements (h a)") auto
  then show "json_back h a = Inr (List.last (json_elements (h a)))"
    using assms iter_deref_nth [of h a n] iter_dec_nth [of h a n]
    by (simp add: json_back_def json_end_eq last_conv_nth)
qed

section \<open>Lookup and value\<close>

lemma json_find_eq:
  assumes "h a = JObject kvs"
  shows "json_find h a k = Inr (iter_nth h a (length (takeWhile (\<lambda>(l, _). l \<noteq> k) kvs)))"
proof -
  let ?i = "length (takeWhile (\<lambda>(l, _). l \<noteq> k) kvs)"
  have "member_at kvs ?i = (if k \<in> fst ` set kvs then AtMember k else MembersEnd)"
  proof (cases "k \<in> fst ` set kvs")
    case True
    then have i: "?i < length kvs" by (induction kvs) auto
    have "fst (kvs ! ?i) = k" using nth_length_takeWhile [OF i] by (simp add: split_def)
    with True i show ?thesis by (simp add: member_at_def)
  next
    case False
    then have "?i = length kvs" by (induction kvs) auto
    with False show ?thesis by (simp add: member_at_def)
  qed
  then show ?thesis using assms
    by (simp add: json_find_def json_end_eq at_member_def) (simp add: iter_nth_def)
qed

lemma takeWhile_map_of:
  "map_of kvs k = (let i = length (takeWhile (\<lambda>(l, _). l \<noteq> k) kvs) in if i < length kvs then Some (snd (kvs ! i)) else None)"
  by (induction kvs) (auto simp: Let_def)

lemma json_value_eq:
  assumes "distinct_keys (h a)"
  shows "json_value conv h a k dflt = (case h a of
     JObject kvs \<Rightarrow> (case map_of kvs k of Some v \<Rightarrow> conv v | None \<Rightarrow> Inr dflt)
   | j \<Rightarrow> Inl (cannot_use 306 ''value'' j))"
proof (cases "is_object (h a)")
  case True
  then obtain kvs where kvs: "h a = JObject kvs" by (cases "h a") auto
  let ?i = "length (takeWhile (\<lambda>(l, _). l \<noteq> k) kvs)"
  have i: "?i \<le> length kvs" by (rule length_takeWhile_le)
  with kvs assms iter_neq_nth [of h a ?i "length kvs"] iter_deref_nth [of h a ?i] show ?thesis
    by (auto simp: json_value_def json_find_eq [where kvs = kvs] json_end_eq takeWhile_map_of [of kvs] Let_def)
qed (cases "h a"; simp add: json_value_def)

section \<open>Removing ranges\<close>

text \<open>What is left without the elements from \<open>i\<close> to \<open>k\<close>; a primitive value has to be removed as a whole.\<close>

fun without_range :: "nat \<Rightarrow> nat \<Rightarrow> json \<Rightarrow> json outcome" where
  "without_range i k JNull = Inl (cannot_use 307 ''erase'' JNull)"
| "without_range i k (JArray vs) = Inr (JArray (take i vs @ drop k vs))"
| "without_range i k (JObject kvs) = Inr (JObject (take i kvs @ drop k kvs))"
| "without_range i k j =
     (if i = 0 \<and> k = 1 then Inr JNull else Inl (invalid_iterator 204 ''iterators out of range''))"

lemma is_begin_nth: "h a \<noteq> JNull \<Longrightarrow> \<not> is_object (h a) \<Longrightarrow> (\<And>vs. h a \<noteq> JArray vs) \<Longrightarrow>
    is_begin (iter_nth h a i) = (i = 0) \<and> is_end (iter_nth h a i) = (i = 1)"
  by (cases "h a") (auto simp: is_begin_def is_end_def iter_nth_def primitive_begin_def primitive_end_def)

lemma result_of_erase:
  "h a = JArray vs \<Longrightarrow> at_element (iter_nth h a n) (AtElement i) = iter_nth (h(a := JArray vs')) a i"
  "h a = JObject kvs \<Longrightarrow> at_member (iter_nth h a n) (member_at kvs' i) = iter_nth (h(a := JObject kvs')) a i"
  by (simp_all add: at_element_def at_member_def iter_nth_def)

lemma result_of_clear:
  assumes "h a \<noteq> JNull" "\<not> is_object (h a)" "\<And>vs. h a \<noteq> JArray vs"
  shows "iter_nth h a 1 = iter_nth (h(a := JNull)) a 0"
  using assms by (cases "h a") (auto simp: iter_nth_def)

text \<open>\<open>erase(first, last)\<close> with iterators to the elements \<open>i\<close> and \<open>k\<close> removes exactly the elements from \<open>i\<close> up
  to \<open>k\<close>, and returns the iterator to what then is the element \<open>i\<close>; a primitive value becomes null when the range
  is the whole of it.\<close>

theorem erase_range_elements:
  assumes "distinct_keys (h a)" and "i \<le> k" and "k \<le> json_size (h a)"
  shows "json_erase_range h a (iter_nth h a i) (iter_nth h a k) =
    ebind (without_range i k (h a)) (\<lambda>j. Inr (h(a := j), iter_nth (h(a := j)) a i))"
proof (cases "h a")
  case (JArray vs)
  with assms show ?thesis by (simp add: json_erase_range_def json_end_eq cut_range_def result_of_erase)
next
  case (JObject kvs)
  with assms show ?thesis by (simp add: json_erase_range_def json_end_eq cut_range_def result_of_erase)
next
  case JNull
  then show ?thesis by (simp add: json_erase_range_def json_end_eq)
qed (use is_begin_nth [of h a i] is_begin_nth [of h a k] result_of_clear [of h a] in
    \<open>auto simp: json_erase_range_def json_end_eq\<close>)

theorem erase_range_elements_witness:
  "let h = (\<lambda>_. JArray [JNull, JBool True, JBool False])
   in \<exists>h'. json_erase_range h 7 (iter_nth h 7 0) (iter_nth h 7 2) = Inr (h', iter_nth h' 7 0) \<and> h' 7 = JArray [JBool False]"
  using erase_range_elements [of "\<lambda>_. JArray [JNull, JBool True, JBool False]" 7 0 2] by simp

text \<open>Erasing one position is erasing the range of length one, and erasing a key is erasing where \<open>find\<close> finds it.\<close>

lemma erase_one:
  assumes "distinct_keys (h a)" and "i < json_size (h a)"
  shows "json_erase h a (iter_nth h a i) = json_erase_range h a (iter_nth h a i) (iter_nth h a (Suc i))"
proof (cases "h a")
  case (JArray vs)
  with assms show ?thesis by (simp add: json_erase_range_def json_erase_def json_end_eq)
next
  case (JObject kvs)
  with assms show ?thesis by (simp add: json_erase_range_def json_erase_def json_end_eq)
qed (use assms is_begin_nth [of h a i] is_begin_nth [of h a "Suc i"] in
    \<open>auto simp: json_erase_range_def json_erase_def json_end_eq\<close>)

lemma filter_cut:
  assumes "distinct (map fst kvs)" and "k \<in> fst ` set kvs"
  defines "i \<equiv> length (takeWhile (\<lambda>(l, _). l \<noteq> k) kvs)"
  shows "filter (\<lambda>(l, _). l \<noteq> k) kvs = take i kvs @ drop (Suc i) kvs"
  using assms unfolding i_def
proof (induction kvs)
  case (Cons kv kvs)
  have "filter (\<lambda>(l, _). l \<noteq> k) kvs = kvs" if "k \<notin> fst ` set kvs"
    using that by (force simp: filter_id_conv)
  with Cons show ?case by (auto simp: split_def)
qed simp

lemma erase_found_key:
  assumes "h a = JObject kvs" and "distinct (map fst kvs)" and "k \<in> fst ` set kvs"
  shows "\<exists>it j it'. json_find h a k = Inr it \<and> json_erase_key k (h a) = Inr (j, 1) \<and>
    json_erase h a it = Inr (h(a := j), it')"
proof -
  let ?i = "length (takeWhile (\<lambda>(l, _). l \<noteq> k) kvs)"
  have i: "?i < length kvs" using assms(3) by (induction kvs) auto
  have "json_erase h a (iter_nth h a ?i) = Inr (h(a := JObject (take ?i kvs @ drop (Suc ?i) kvs)),
      iter_nth (h(a := JObject (take ?i kvs @ drop (Suc ?i) kvs))) a ?i)"
    using erase_one [of h a ?i] erase_range_elements [of h a ?i "Suc ?i"] assms(1,2) i by simp
  then show ?thesis
    using assms by (simp add: json_find_eq [where kvs = kvs] json_erase_key_def json_count_def filter_cut)
qed

section \<open>Insertion and removal\<close>

lemma insert_at_nth:
  assumes "h a = JArray vs" and "i \<le> length vs" and "new vs = Inr ws"
  shows "insert_at h a (iter_nth h a i) new =
    Inr (h(a := JArray (paste vs i ws)), iter_nth (h(a := JArray (paste vs i ws))) a i)"
  using assms by (simp add: insert_at_def) (simp add: iter_nth_def at_element_def iter_new_def)

lemma elements_between_nth:
  assumes "h b = JArray us" and "m \<le> n" and "n \<le> length us"
  shows "elements_between h (iter_nth h b m) (iter_nth h b n) = Inr (take (n - m) (drop m us))"
  using assms by (simp add: elements_between_def range_of_def)

text \<open>(C25) What is inserted into an array from a range of another one stands, in order, between the iterator
  that \<open>insert\<close> returns and the one as many elements further, and erasing that range gives back the array, the
  position and everything else.  Iterators to another value, a range between two values, and a range of the array
  itself are refused with the exceptions 202 and 203, 210, and 211.\<close>

theorem insert_erase_roundtrip:
  assumes "h a = JArray vs" and "h b = JArray us" and "a \<noteq> b" and "i \<le> length vs" and "m \<le> n" and "n \<le> length us"
  shows "\<exists>h' it it'. insert_range h a (iter_nth h a i) (iter_nth h b m) (iter_nth h b n) = Inr (h', it) \<and>
    iter_add h' it (int (n - m)) = Inr it' \<and>
    json_of_range h' it it' = json_of_range h (iter_nth h b m) (iter_nth h b n) \<and>
    json_erase_range h' a it it' = Inr (h, iter_nth h a i) \<and>
    (\<forall>p x y. m_object p \<noteq> Some a \<longrightarrow> insert_range h a p x y = Inl not_fitting \<and>
      json_erase_range h a p x = Inl (invalid_iterator 203 ''iterators do not fit current value'') \<and>
      json_erase_range h a x p = Inl (invalid_iterator 203 ''iterators do not fit current value'')) \<and>
    (\<forall>x y. m_object x \<noteq> m_object y \<longrightarrow>
      insert_range h a (iter_nth h a i) x y = Inl (invalid_iterator 210 ''iterators do not fit'')) \<and>
    (\<forall>x y. m_object x = Some a \<and> m_object y = Some a \<longrightarrow> insert_range h a (iter_nth h a i) x y =
      Inl (invalid_iterator 211 ''passed iterators may not belong to container''))"
proof -
  let ?ws = "take (n - m) (drop m us)"
  let ?vs = "paste vs i ?ws"
  let ?h = "h(a := JArray ?vs)"
  let ?k = "i + (n - m)"
  have len: "length ?ws = n - m" "length ?vs = length vs + (n - m)"
    using assms(4-6) by (simp_all add: paste_def)
  have ins: "insert_range h a (iter_nth h a i) (iter_nth h b m) (iter_nth h b n) = Inr (?h, iter_nth ?h a i)"
    using insert_at_nth [of h a vs i _ ?ws] elements_between_nth [of h b us m n] assms
    by (simp add: insert_range_def)
  have add: "iter_add ?h (iter_nth ?h a i) (int (n - m)) = Inr (iter_nth ?h a ?k)"
    using iter_move_nth [of ?h a i "int (n - m)"] len assms(4) by (simp add: iter_add_def nat_add_distrib)
  have cut: "take i ?vs @ drop ?k ?vs = vs" "take (?k - i) (drop i ?vs) = ?ws"
    using len(1) assms(4) by (simp_all add: paste_def)
  have h: "h(a := JArray vs) = h" using assms(1) by auto
  have "json_erase_range ?h a (iter_nth ?h a i) (iter_nth ?h a ?k) = Inr (h, iter_nth h a i)"
    using erase_range_elements [of ?h a i ?k] len(2) assms(4) cut(1) by (simp add: h)
  moreover have "json_of_range ?h (iter_nth ?h a i) (iter_nth ?h a ?k) = Inr (JArray ?ws)"
    using len(2) assms(4) cut(2) by (simp add: json_of_range_def range_of_def)
  moreover have "json_of_range h (iter_nth h b m) (iter_nth h b n) = Inr (JArray ?ws)"
    using assms(2,5,6) by (simp add: json_of_range_def range_of_def)
  ultimately have "\<exists>h' it it'. insert_range h a (iter_nth h a i) (iter_nth h b m) (iter_nth h b n) = Inr (h', it) \<and>
    iter_add h' it (int (n - m)) = Inr it' \<and>
    json_of_range h' it it' = json_of_range h (iter_nth h b m) (iter_nth h b n) \<and>
    json_erase_range h' a it it' = Inr (h, iter_nth h a i)"
    using ins add by metis
  then show ?thesis
    using assms(1) by (auto simp: insert_range_def insert_at_def json_erase_range_def)
qed

theorem insert_erase_roundtrip_witness:
  "let h = (\<lambda>n :: nat. if n = 0 then JArray [JNull, JBool True] else JArray [JInt 1, JInt 2, JInt 3])
   in \<exists>h' it it'. insert_range h 0 (iter_nth h 0 1) (iter_nth h 1 1) (iter_nth h 1 3) = Inr (h', it) \<and>
     json_of_range h' it it' = Inr (JArray [JInt 2, JInt 3]) \<and> json_erase_range h' 0 it it' = Inr (h, iter_nth h 0 1)"
proof -
  define h where "h = (\<lambda>n :: nat. if n = 0 then JArray [JNull, JBool True] else JArray [JInt 1, JInt 2, JInt 3])"
  have "json_of_range h (iter_nth h 1 1) (iter_nth h 1 3) = Inr (JArray [JInt 2, JInt 3])"
    by (simp add: json_of_range_def range_of_def h_def)
  then show ?thesis
    using insert_erase_roundtrip [of h 0 "[JNull, JBool True]" 1 "[JInt 1, JInt 2, JInt 3]" 1 1 3]
    unfolding h_def [symmetric] Let_def by (auto simp: h_def)
qed

text \<open>A range of iterators to an object is accepted where array elements are inserted, and inserts nothing.\<close>

lemma insert_range_of_object:
  assumes "h a = JArray vs" and "h b = JObject lvs" and "i \<le> length vs"
  shows "insert_range h a (iter_nth h a i) (iter_nth h b m) (iter_nth h b n) = Inr (h, iter_nth h a i)"
proof -
  have "a \<noteq> b" using assms(1,2) by auto
  moreover have "elements_between h (iter_nth h b m) (iter_nth h b n) = Inr []"
    using assms(2) by (simp add: elements_between_def) (simp add: array_pos_def iter_nth_def no_position_def)
  moreover have "h(a := JArray vs) = h" using assms(1) by auto
  ultimately show ?thesis
    using insert_at_nth [of h a vs i _ "[]"] assms(1,3) by (simp add: insert_range_def paste_def)
qed

text \<open>Default iterators belong to no object, and the check for one dereferences a null pointer.\<close>

lemma default_range_undefined:
  assumes "is_object (h a)"
  shows "insert_members h a iter_default iter_default = Inl (UB NullDeref)"
    and "update_range h a iter_default iter_default = Some (Inl (UB NullDeref))"
  using assms by (cases "h a"; simp add: insert_members_def iter_default_def update_range_def null_to_object_def)+

section \<open>Updates\<close>

definition put_all :: "(string \<times> json) list \<Rightarrow> (string \<times> json) list \<Rightarrow> (string \<times> json) list" where
  "put_all new kvs = fold (\<lambda>(k, v). obj_put k v) new kvs"

lemma put_all_simps [simp]:
  "put_all [] kvs = kvs" "put_all (new @ [(k, v)]) kvs = obj_put k v (put_all new kvs)"
  by (simp_all add: put_all_def)

lemma obj_wf_put_all: "obj_wf kvs \<Longrightarrow> obj_wf (put_all new kvs)"
  by (induction new rule: rev_induct) (auto simp: obj_wf_put)

lemma map_of_put_all: "map_of (put_all new kvs) = map_of kvs ++ map_of (rev new)"
  by (induction new rule: rev_induct) (auto simp: map_of_obj_put map_add_def fun_eq_iff split: option.split)

lemma map_of_rev_distinct: "distinct (map fst kvs) \<Longrightarrow> map_of (rev kvs) = map_of kvs"
  using map_of_inject_set [of "rev kvs" kvs] by (simp add: rev_map [symmetric])

lemma put_all_part:
  assumes "obj_wf kvs"
  shows "put_all (take i kvs) kvs = kvs"
proof -
  from assms have d: "distinct (map fst kvs)" by (simp add: obj_wf_def strict_sorted_iff)
  then have "distinct (map fst (take i kvs))" by (simp add: take_map [symmetric])
  then have r: "map_of (rev (take i kvs)) = map_of (take i kvs)" by (rule map_of_rev_distinct)
  have "map_of kvs = map_of (drop i kvs) ++ map_of (take i kvs)"
    by (simp flip: map_of_append)
  then have "map_of kvs ++ map_of (take i kvs) = map_of kvs"
    by (metis map_add_assoc map_add_subsumed1 map_le_refl)
  with r have "map_of (put_all (take i kvs) kvs) = map_of kvs" by (simp add: map_of_put_all)
  with assms show ?thesis by (intro obj_wf_eqI) (simp_all add: obj_wf_put_all)
qed

text \<open>The loop of both overloads: after \<open>i\<close> turns the first \<open>i\<close> members have been put.\<close>

lemma update_loop:
  fixes h :: json_heap
  assumes a: "h a = JObject kvs" and b: "h b = JObject lvs" and d: "distinct (map fst lvs)" and ab: "a = b \<Longrightarrow> obj_wf lvs"
  defines "H \<equiv> \<lambda>n. h(a := JObject (put_all (take n lvs) kvs))"
  assumes test: "\<And>n. n \<le> length lvs \<Longrightarrow> test (H n, iter_nth h b n) = Inr (n \<noteq> length lvs)"
  shows "\<exists>it. visit test (update_body a) (h, iter_nth h b 0) [] =
    Some (Inr (replicate (length lvs) (), h(a := JObject (put_all lvs kvs)), it))"
proof -
  have Hb: "H n b = JObject lvs" for n
    using a b ab put_all_part [of lvs n] by (auto simp: H_def)
  have nth: "iter_nth (H n) b i = iter_nth h b i" for n i
    by (simp add: iter_nth_def Hb b)
  have "update_body a (H n, iter_nth h b n) = Inr ((), H (Suc n), iter_nth h b (Suc n))" if n: "n < length lvs" for n
  proof -
    have "iter_key (H n) (iter_nth (H n) b n) = Inr (fst (lvs ! n))"
      using iter_key_nth [of "H n" b n] n d by (simp add: Hb)
    moreover have "iter_deref (H n) (iter_nth (H n) b n) = Inr (snd (lvs ! n))"
      using iter_deref_nth [of "H n" b n] n d by (simp add: Hb)
    moreover have "iter_inc (H (Suc n)) (iter_nth (H (Suc n)) b n) = Inr (iter_nth (H (Suc n)) b (Suc n))"
      using iter_inc_nth [of "H (Suc n)" b n] n d by (simp add: Hb)
    moreover have "(H n)(a := JObject (obj_put (fst (lvs ! n)) (snd (lvs ! n)) (put_all (take n lvs) kvs))) = H (Suc n)"
      using n put_all_simps(2) [of "take n lvs" "fst (lvs ! n)" "snd (lvs ! n)" kvs]
      by (simp add: H_def take_Suc_conv_app_nth)
    ultimately show ?thesis by (simp add: update_body_def nth) (simp add: H_def)
  qed
  with test have "visit test (update_body a) (H 0, iter_nth h b 0) [] =
      Some (Inr ([] @ replicate (length lvs) (), H (length lvs), iter_nth h b (length lvs)))"
    using visit_run [where xs = "replicate (length lvs) ()" and P = "\<lambda>n. (H n, iter_nth h b n)" and
        test = test and body = "update_body a" and acc = "[]"] by simp
  moreover have "H 0 = h" using a by (auto simp: H_def)
  ultimately show ?thesis by (simp add: H_def)
qed

lemma iter_nth_cong: "h b = h' b \<Longrightarrow> iter_nth h b i = iter_nth h' b i"
  by (simp add: iter_nth_def)

text \<open>The members of a value that \<open>update\<close> is called on; a null has none.\<close>

definition members_or_none :: "json \<Rightarrow> (string \<times> json) list option" where
  "members_or_none j = (case j of JNull \<Rightarrow> Some [] | JObject kvs \<Rightarrow> Some kvs | _ \<Rightarrow> None)"

lemma update_result:
  assumes "members_or_none (h a) = Some kvs" and "h b = JObject lvs" and "obj_wf lvs"
  shows "json_update h a b = Some (Inr (h(a := JObject (put_all lvs kvs))))"
    and "update_range h a (iter_nth h b 0) (iter_nth h b (length lvs)) = Some (Inr (h(a := JObject (put_all lvs kvs))))"
proof -
  let ?h = "null_to_object h a"
  let ?H = "\<lambda>n. ?h(a := JObject (put_all (take n lvs) kvs))"
  have d: "distinct (map fst lvs)" using assms(3) by (simp add: obj_wf_def strict_sorted_iff)
  have a: "?h a = JObject kvs" using assms(1) by (cases "h a") (auto simp: members_or_none_def null_to_object_def)
  have b: "?h b = JObject lvs" using assms(2) by (auto simp: null_to_object_def)
  have Hb: "?H n b = JObject lvs" for n
    using a b put_all_part [OF assms(3), of n] by auto
  have neq: "iter_neq (?H n) (iter_nth ?h b n) (iter_nth ?h b (length lvs)) = Inr (n \<noteq> length lvs)" if "n \<le> length lvs" for n
    using that d Hb [of n] b iter_neq_nth [of "?H n" b n "length lvs"] iter_nth_cong [of ?h b "?H n"] by simp
  have whole: "ebind (json_end (?H n) b) (iter_neq (?H n) (iter_nth ?h b n)) = Inr (n \<noteq> length lvs)"
    if "n \<le> length lvs" for n
    using neq [OF that] Hb [of n] b iter_nth_cong [of ?h b "?H n"] by (simp add: json_end_eq)
  have final: "?h(a := JObject (put_all lvs kvs)) = h(a := JObject (put_all lvs kvs))"
    by (simp add: null_to_object_def)
  from update_loop [OF a b d, of "\<lambda>(h, it). ebind (json_end h b) (iter_neq h it)"] whole assms(3) final
  show "json_update h a b = Some (Inr (h(a := JObject (put_all lvs kvs))))"
    by (auto simp: json_update_def a b json_begin_eq Let_def)
  from update_loop [OF a b d, of "\<lambda>(h, it). iter_neq h it (iter_nth ?h b (length lvs))"] neq assms(2,3) final
  show "update_range h a (iter_nth h b 0) (iter_nth h b (length lvs)) = Some (Inr (h(a := JObject (put_all lvs kvs))))"
    by (auto simp: update_range_def a b Let_def iter_nth_cong [of h b ?h])
qed

text \<open>\<open>update\<close> ends without an exception on an object or a null, also when a value is updated from itself, and
  leaves the members of both, those of the argument where both have a key; nothing else changes.\<close>

theorem update_members:
  assumes "members_or_none (h a) = Some kvs" and "obj_wf kvs" and "h b = JObject lvs" and "obj_wf lvs"
  shows "\<exists>kvs'. json_update h a b = Some (Inr (h(a := JObject kvs'))) \<and> obj_wf kvs' \<and>
    map_of kvs' = map_of kvs ++ map_of lvs"
proof -
  have "distinct (map fst lvs)" using assms(4) by (simp add: obj_wf_def strict_sorted_iff)
  then show ?thesis
    using update_result(1) [OF assms(1,3,4)] assms(2)
    by (auto simp: obj_wf_put_all map_of_put_all map_of_rev_distinct)
qed

theorem update_members_witness:
  "let h = (\<lambda>n. if n = 0 then JNull else JObject [(''a'', JBool True)])
   in \<exists>kvs'. json_update h 0 1 = Some (Inr (h(0 := JObject kvs'))) \<and> map_of kvs' = [''a'' \<mapsto> JBool True]"
  using update_members [of "\<lambda>n. if n = 0 then JNull else JObject [(''a'', JBool True)]" 0 "[]" 1 "[(''a'', JBool True)]"]
  unfolding Let_def by (auto simp: members_or_none_def obj_wf_def)

section \<open>Iterators of other values\<close>

text \<open>An iterator that belongs to another value, or to none, is refused wherever a position in the value is
  expected: comparison, \<open>erase\<close> and \<open>insert\<close> throw and change nothing.\<close>

theorem foreign_iterators_refused:
  assumes "m_object it \<noteq> Some a" and "m_object own = Some a"
  shows "iter_eq h it own = Inl different_containers \<and> iter_less h it own = Inl different_containers \<and>
    json_erase h a it = Inl not_fitting \<and>
    json_erase_range h a it own = Inl (invalid_iterator 203 ''iterators do not fit current value'') \<and>
    json_erase_range h a own it = Inl (invalid_iterator 203 ''iterators do not fit current value'') \<and>
    json_insert h a it v = Inl (case h a of JArray _ \<Rightarrow> not_fitting | j \<Rightarrow> cannot_use 309 ''insert'' j)"
  using assms by (cases "h a") (simp_all add: iter_eq_def iter_less_def json_erase_def json_erase_range_def
      json_insert_def insert_at_def)

theorem foreign_iterators_refused_witness:
  "json_erase (\<lambda>_. JNull) 0 iter_default = Inl not_fitting"
  using foreign_iterators_refused [of iter_default 0 "iter_new 0" "\<lambda>_. JNull" JNull]
  by (simp add: iter_default_def iter_new_def)

end
