(* ===== verification/JsonOrder.thy ===== *)
theory JsonOrder
  imports JsonPatch
begin

text \<open>
  The order of JSON values in \<^verbatim>\<open>src/json.hpp\<close>: \<open>operator<\<close> and the operators that are derived from it.  On
  values whose numbers are all exact as \<open>double\<close> it agrees with a linear order of keys, which an
  \<open>instantiation\<close> of \<open>linorder\<close> gives; beyond that it does not.
\<close>

section \<open>Comparison\<close>

text \<open>\<open>operator<\<close> of \<open>value_t\<close>.\<close>

fun type_order :: "json \<Rightarrow> nat" where
  "type_order JNull = 0"
| "type_order (JObject _) = 3"
| "type_order (JArray _) = 4"
| "type_order (JString _) = 5"
| "type_order (JBool _) = 1"
| "type_order (JInt _) = 2"
| "type_order (JUnsigned _) = 2"
| "type_order (JFloat _) = 2"

fun dbl_less :: "dbl \<Rightarrow> dbl \<Rightarrow> bool" where
  "dbl_less (Dbl a x) (Dbl b y) = (signed_rat a x < signed_rat b y)"
| "dbl_less (Dbl a x) (Infinite b) = (\<not> b)"
| "dbl_less (Infinite a) (Dbl b y) = a"
| "dbl_less (Infinite a) (Infinite b) = (a \<and> \<not> b)"
| "dbl_less _ _ = False"

text \<open>\<open>std::lexicographical_compare\<close> and the comparison of \<open>std::pair\<close>, with the order of the parts.\<close>

fun lex_less :: "('a \<Rightarrow> 'a \<Rightarrow> bool) \<Rightarrow> 'a list \<Rightarrow> 'a list \<Rightarrow> bool" where
  "lex_less r xs [] = False"
| "lex_less r [] (y # ys) = True"
| "lex_less r (x # xs) (y # ys) = (r x y \<or> \<not> r y x \<and> lex_less r xs ys)"

definition pair_less :: "('a \<Rightarrow> 'a \<Rightarrow> bool) \<Rightarrow> string \<times> 'a \<Rightarrow> string \<times> 'a \<Rightarrow> bool" where
  "pair_less r p q \<longleftrightarrow> fst p < fst q \<or> \<not> fst q < fst p \<and> r (snd p) (snd q)"

lemma lex_less_cong [fundef_cong]:
  assumes "xs = xs'" and "ys = ys'"
    and "\<And>x y. x \<in> set xs' \<Longrightarrow> y \<in> set ys' \<Longrightarrow> r x y = r' x y"
    and "\<And>x y. x \<in> set xs' \<Longrightarrow> y \<in> set ys' \<Longrightarrow> r y x = r' y x"
  shows "lex_less r xs ys = lex_less r' xs' ys'"
  using assms(3,4) unfolding assms(1,2) by (induction r xs' ys' rule: lex_less.induct) auto

lemma pair_less_cong [fundef_cong]:
  "p = p' \<Longrightarrow> q = q' \<Longrightarrow> r (snd p') (snd q') = r' (snd p') (snd q') \<Longrightarrow> pair_less r p q = pair_less r' p' q'"
  by (simp add: pair_less_def)

lemma size_element: "x \<in> set xs \<Longrightarrow> size x < Suc (size_list size (xs :: json list))"
  by (induction xs) auto

lemma size_member: "p \<in> set kvs \<Longrightarrow> size (snd p) < Suc (size_list (size_prod (\<lambda>_. 0) size) (kvs :: (string \<times> json) list))"
  by (induction kvs) auto

text \<open>\<open>D\<close> is the conversion of an integer to \<open>double\<close>; an unsigned number is converted to a signed one, which wraps.\<close>

function json_less :: "(int \<Rightarrow> dbl) \<Rightarrow> json \<Rightarrow> json \<Rightarrow> bool" where
  "json_less D a b = (case (a, b) of
     (JArray xs, JArray ys) \<Rightarrow> lex_less (json_less D) xs ys
   | (JObject kvs, JObject lvs) \<Rightarrow> lex_less (pair_less (json_less D)) kvs lvs
   | (JNull, JNull) \<Rightarrow> False
   | (JString s, JString t) \<Rightarrow> s < t
   | (JBool p, JBool q) \<Rightarrow> p < q
   | (JInt i, JInt k) \<Rightarrow> i < k
   | (JUnsigned i, JUnsigned k) \<Rightarrow> i < k
   | (JFloat x, JFloat y) \<Rightarrow> dbl_less x y
   | (JInt i, JFloat y) \<Rightarrow> dbl_less (D i) y
   | (JFloat x, JInt k) \<Rightarrow> dbl_less x (D k)
   | (JUnsigned i, JFloat y) \<Rightarrow> dbl_less (D i) y
   | (JFloat x, JUnsigned k) \<Rightarrow> dbl_less x (D k)
   | (JInt i, JUnsigned k) \<Rightarrow> i < to_int64 k
   | (JUnsigned i, JInt k) \<Rightarrow> to_int64 i < k
   | _ \<Rightarrow> type_order a < type_order b)"
  by pat_completeness auto
termination
  by (relation "measure (\<lambda>(D, a, b). size a + size b)")
    (auto dest!: size_element size_member)

declare json_less.simps [simp del]

text \<open>The operators that are derived from \<open>==\<close> and \<open><\<close>.\<close>

definition json_neq :: "(int \<Rightarrow> dbl) \<Rightarrow> json \<Rightarrow> json \<Rightarrow> bool" where
  "json_neq D a b \<longleftrightarrow> \<not> json_eq D a b"

definition json_le :: "(int \<Rightarrow> dbl) \<Rightarrow> json \<Rightarrow> json \<Rightarrow> bool" where
  "json_le D a b \<longleftrightarrow> \<not> json_less D b a"

definition json_greater :: "(int \<Rightarrow> dbl) \<Rightarrow> json \<Rightarrow> json \<Rightarrow> bool" where
  "json_greater D a b \<longleftrightarrow> \<not> json_le D a b"

definition json_ge :: "(int \<Rightarrow> dbl) \<Rightarrow> json \<Rightarrow> json \<Rightarrow> bool" where
  "json_ge D a b \<longleftrightarrow> \<not> json_less D a b"

section \<open>Lexicographic orders\<close>

lemma lex_less_irrefl: "(\<And>x. x \<in> set xs \<Longrightarrow> \<not> r x x) \<Longrightarrow> \<not> lex_less r xs xs"
  by (induction xs) auto

lemma lex_less_total:
  "(\<And>x y. x \<in> set xs \<Longrightarrow> r x y \<or> x = y \<or> r y x) \<Longrightarrow> lex_less r xs ys \<or> xs = ys \<or> lex_less r ys xs"
proof (induction xs arbitrary: ys)
  case Nil
  then show ?case by (cases ys) auto
next
  case (Cons x xs)
  show ?case
  proof (cases ys)
    case ys: (Cons y ys')
    have rest: "lex_less r xs ys' \<or> xs = ys' \<or> lex_less r ys' xs" by (rule Cons.IH) (rule Cons.prems, simp)
    have "r x y \<or> x = y \<or> r y x" by (rule Cons.prems) simp
    then show ?thesis using rest unfolding ys by (elim disjE) simp_all
  qed simp
qed

lemma lex_less_trans:
  assumes "lex_less r xs ys" and "lex_less r ys zs"
    and "\<And>x y z. x \<in> set xs \<Longrightarrow> r x y \<Longrightarrow> r y z \<Longrightarrow> r x z"
    and "\<And>x y. r x y \<or> x = y \<or> r y x" and "\<And>x. \<not> r x x"
  shows "lex_less r xs zs"
  using assms(1-3)
proof (induction xs arbitrary: ys zs)
  case Nil
  show ?case using Nil.prems(1,2) by (cases ys; cases zs) simp_all
next
  case (Cons x xs)
  from Cons.prems(1) obtain y ys' where ys: "ys = y # ys'" by (cases ys) simp_all
  from Cons.prems(2) obtain z zs' where zs: "zs = z # zs'" by (cases zs) (simp_all add: ys)
  note tr = Cons.prems(3)
  consider "r x y" | "x = y" "lex_less r xs ys'" using Cons.prems(1) ys assms(4) [of x y] by auto
  then show ?case
  proof cases
    case 1
    have "r y z \<or> y = z" using Cons.prems(2) ys zs assms(4) [of y z] by auto
    then have "r x z" using 1 tr [of x y z] by (elim disjE) simp_all
    then show ?thesis by (simp add: zs)
  next
    case 2
    have "r y z \<or> y = z \<and> lex_less r ys' zs'" using Cons.prems(2) ys zs assms(4) [of y z] by auto
    moreover have "lex_less r xs zs'" if "lex_less r ys' zs'"
      by (rule Cons.IH [OF 2(2) that]) (rule tr, simp_all)
    ultimately show ?thesis unfolding zs using 2(1) assms(5) by (elim disjE) simp_all
  qed
qed

lemma lex_less_map:
  assumes "\<And>x y. x \<in> set xs \<Longrightarrow> y \<in> set ys \<Longrightarrow> r x y = q (f x) (f y) \<and> r y x = q (f y) (f x)"
  shows "lex_less r xs ys = lex_less q (map f xs) (map f ys)"
  using assms by (induction r xs ys rule: lex_less.induct) auto

section \<open>Keys\<close>

text \<open>What a value counts as in comparisons; a number is its sign of infinity and its value.\<close>

datatype json_key =
    KNull
  | KBool bool
  | KNumber int rat
  | KObject "(string \<times> json_key) list"
  | KArray "json_key list"
  | KString string

fun key_order :: "json_key \<Rightarrow> nat" where
  "key_order KNull = 0"
| "key_order (KBool _) = 1"
| "key_order (KNumber _ _) = 2"
| "key_order (KObject _) = 3"
| "key_order (KArray _) = 4"
| "key_order (KString _) = 5"

lemma size_key_element: "x \<in> set xs \<Longrightarrow> size x < Suc (size_list size (xs :: json_key list))"
  by (induction xs) auto

lemma size_key_member: "p \<in> set kvs \<Longrightarrow> size (snd p) < Suc (size_list (size_prod (\<lambda>_. 0) size) (kvs :: (string \<times> json_key) list))"
  by (induction kvs) auto

function key_less :: "json_key \<Rightarrow> json_key \<Rightarrow> bool" where
  "key_less a b = (case (a, b) of
     (KBool p, KBool q) \<Rightarrow> p < q
   | (KNumber i x, KNumber k y) \<Rightarrow> i < k \<or> i = k \<and> x < y
   | (KObject kvs, KObject lvs) \<Rightarrow> lex_less (pair_less key_less) kvs lvs
   | (KArray xs, KArray ys) \<Rightarrow> lex_less key_less xs ys
   | (KString s, KString t) \<Rightarrow> s < t
   | _ \<Rightarrow> key_order a < key_order b)"
  by pat_completeness auto
termination
  by (relation "measure (\<lambda>(a, b). size a + size b)")
    (auto dest!: size_key_element size_key_member)

declare key_less.simps [simp del]

lemma key_less_same [simp]:
  "key_less KNull KNull = False"
  "key_less (KBool p) (KBool q) = (p < q)"
  "key_less (KNumber i x) (KNumber k y) = (i < k \<or> i = k \<and> x < y)"
  "key_less (KString s) (KString t) = (s < t)"
  "key_less (KObject kvs) (KObject lvs) = lex_less (pair_less key_less) kvs lvs"
  "key_less (KArray xs) (KArray ys) = lex_less key_less xs ys"
  by (subst key_less.simps, simp)+

lemma key_less_order: "key_order a \<noteq> key_order b \<Longrightarrow> key_less a b \<longleftrightarrow> key_order a < key_order b"
  by (subst key_less.simps) (cases a; cases b; simp)

lemma key_less_order_le: "key_less a b \<Longrightarrow> key_order a \<le> key_order b"
  by (cases "key_order a = key_order b") (auto simp: key_less_order)

lemma key_less_total: "key_less a b \<or> a = b \<or> key_less b a"
proof (induction a arbitrary: b)
  case (KObject kvs)
  have "pair_less key_less p q \<or> p = q \<or> pair_less key_less q p" if "p \<in> set kvs" for p q
    using KObject [of p "snd p" "snd q"] that by (cases p; cases q) (auto simp: pair_less_def not_less)
  then show ?case using lex_less_total [of kvs "pair_less key_less"]
    by (cases b) (auto simp: key_less_order)
next
  case (KArray xs)
  then show ?case using lex_less_total [of xs key_less] by (cases b) (auto simp: key_less_order)
next
  case (KBool x)
  then show ?case by (cases b) (auto simp: key_less_order)
next
  case (KNumber x1 x2a)
  then show ?case by (cases b) (auto simp: key_less_order)
next
  case (KString x)
  then show ?case by (cases b) (auto simp: key_less_order)
next
  case KNull
  then show ?case by (cases b) (auto simp: key_less_order)
qed

lemma key_less_irrefl [simp]: "\<not> key_less a a"
proof (induction a)
  case (KObject kvs)
  then show ?case by (auto intro!: lex_less_irrefl simp: pair_less_def)
next
  case (KArray xs)
  then show ?case by (auto intro!: lex_less_irrefl)
qed simp_all

lemma pair_less_total: "(\<And>x y. r x y \<or> x = y \<or> r y x) \<Longrightarrow> pair_less r p q \<or> p = q \<or> pair_less r q p"
  by (cases p; cases q) (auto simp: pair_less_def not_less)

lemma key_less_trans: "key_less a b \<Longrightarrow> key_less b c \<Longrightarrow> key_less a c"
proof (induction a arbitrary: b c)
  case (KObject kvs)
  show ?case
  proof (cases "key_order c = 3")
    case True
    with KObject.prems key_less_order_le [of b c] key_less_order_le [of "KObject kvs" b]
    obtain lvs mvs where b: "b = KObject lvs" "c = KObject mvs" by (cases b; cases c) auto
    have "pair_less key_less p m" if "p \<in> set kvs" "pair_less key_less p q" "pair_less key_less q m" for p q m
      using KObject.IH [OF that(1), of "snd p" "snd q" "snd m"] that(2,3) snds.intros [of p]
      by (auto simp: pair_less_def)
    from lex_less_trans [of "pair_less key_less" kvs lvs mvs, OF _ _ this pair_less_total [OF key_less_total]] KObject.prems
    show ?thesis by (simp add: b) (simp add: pair_less_def)
  next
    case False
    with KObject.prems key_less_order_le [of b c] key_less_order_le [of "KObject kvs" b] show ?thesis
      by (simp add: key_less_order)
  qed
next
  case (KArray xs)
  show ?case
  proof (cases "key_order c = 4")
    case True
    with KArray.prems key_less_order_le [of b c] key_less_order_le [of "KArray xs" b]
    obtain ys zs where b: "b = KArray ys" "c = KArray zs" by (cases b; cases c) auto
    from lex_less_trans [of key_less xs ys zs, OF _ _ _ key_less_total] KArray b
    show ?thesis by (metis key_less_irrefl key_less_same(6))
  next
    case False
    with KArray.prems key_less_order_le [of b c] key_less_order_le [of "KArray xs" b] show ?thesis
      by (simp add: key_less_order)
  qed
next
  case (KBool x)
  then show ?case using key_less_order_le [of b c] by (cases b; cases c) (auto simp: key_less_order)
next
  case (KNumber i x)
  then show ?case using key_less_order_le [of b c] by (cases b; cases c) (auto simp: key_less_order)
next
  case (KString x)
  then show ?case using key_less_order_le [of b c] by (cases b; cases c) (auto simp: key_less_order)
next
  case KNull
  then show ?case using key_less_order_le [of b c] by (cases b; cases c) (auto simp: key_less_order)
qed

text \<open>Keys are linearly ordered.\<close>

instantiation json_key :: linorder
begin

definition less_json_key :: "json_key \<Rightarrow> json_key \<Rightarrow> bool" where
  "less_json_key = key_less"

definition less_eq_json_key :: "json_key \<Rightarrow> json_key \<Rightarrow> bool" where
  "less_eq_json_key a b \<longleftrightarrow> key_less a b \<or> a = b"

instance
  by standard (use key_less_total key_less_trans key_less_irrefl in
    \<open>auto simp: less_json_key_def less_eq_json_key_def, blast+\<close>)

end

section \<open>The order on exact numbers\<close>

fun dbl_key :: "dbl \<Rightarrow> json_key" where
  "dbl_key (Dbl a x) = KNumber 0 (signed_rat a x)"
| "dbl_key (Infinite a) = KNumber (if a then - 1 else 1) 0"
| "dbl_key NotANum = KNull"

fun key_of :: "json \<Rightarrow> json_key" where
  "key_of JNull = KNull"
| "key_of (JBool b) = KBool b"
| "key_of (JInt i) = KNumber 0 (of_int i)"
| "key_of (JUnsigned i) = KNumber 0 (of_int i)"
| "key_of (JFloat x) = dbl_key x"
| "key_of (JString s) = KString s"
| "key_of (JArray vs) = KArray (map key_of vs)"
| "key_of (JObject kvs) = KObject (map (\<lambda>(k, v). (k, key_of v)) kvs)"

text \<open>Numbers that a \<open>double\<close> holds exactly, and no NaN.\<close>

definition exact_limit :: int where "exact_limit = 2 ^ 53"

definition converts_exactly :: "(int \<Rightarrow> dbl) \<Rightarrow> bool" where
  "converts_exactly D \<longleftrightarrow> (\<forall>i. \<bar>i\<bar> \<le> exact_limit \<longrightarrow> D i = Dbl (i < 0) (of_int \<bar>i\<bar>))"

fun exact_numbers :: "json \<Rightarrow> bool" where
  "exact_numbers (JArray vs) = list_all exact_numbers vs"
| "exact_numbers (JObject kvs) = list_all (\<lambda>(_, v). exact_numbers v) kvs"
| "exact_numbers (JInt i) = (\<bar>i\<bar> \<le> exact_limit)"
| "exact_numbers (JUnsigned i) = (0 \<le> i \<and> i \<le> exact_limit)"
| "exact_numbers (JFloat x) = (x \<noteq> NotANum)"
| "exact_numbers _ = True"

lemma dbl_less_key: "x \<noteq> NotANum \<Longrightarrow> y \<noteq> NotANum \<Longrightarrow> dbl_less x y = key_less (dbl_key x) (dbl_key y)"
  by (cases x; cases y) auto

lemma dbl_eq_key: "x \<noteq> NotANum \<Longrightarrow> y \<noteq> NotANum \<Longrightarrow> dbl_eq x y = (dbl_key x = dbl_key y)"
  by (cases x; cases y) auto

lemma dbl_key_exact:
  "converts_exactly D \<Longrightarrow> \<bar>i\<bar> \<le> exact_limit \<Longrightarrow> D i \<noteq> NotANum \<and> dbl_key (D i) = KNumber 0 (of_int i)"
  by (simp add: converts_exactly_def signed_rat_def)

lemma to_int64_exact: "0 \<le> i \<Longrightarrow> i \<le> exact_limit \<Longrightarrow> to_int64 i = i"
  by (simp add: to_int64_def exact_limit_def)

lemma dbl_key_order: "x \<noteq> NotANum \<Longrightarrow> key_order (dbl_key x) = 2"
  by (cases x) simp_all

lemma less_is_key_less:
  assumes D: "converts_exactly D"
  shows "exact_numbers a \<Longrightarrow> exact_numbers b \<Longrightarrow> json_less D a b = key_less (key_of a) (key_of b)"
proof (induction "size a + size b" arbitrary: a b rule: less_induct)
  case less
  note num = dbl_less_key dbl_key_exact [OF D] to_int64_exact
  show ?case
  proof (cases a)
    case a: (JArray xs)
    show ?thesis
    proof (cases b)
      case b: (JArray ys)
      have "json_less D x y = key_less (key_of x) (key_of y) \<and> json_less D y x = key_less (key_of y) (key_of x)"
        if "x \<in> set xs" "y \<in> set ys" for x y
        using less.hyps [of x y] less.hyps [of y x] less.prems that size_element [OF that(1)] size_element [OF that(2)]
        by (simp add: a b list_all_iff)
      then show ?thesis by (subst json_less.simps) (simp add: a b lex_less_map [of xs ys "json_less D" key_less key_of])
    qed (use less.prems a in \<open>(subst json_less.simps, simp add: key_less_order dbl_key_order)+\<close>)
  next
    case a: (JObject kvs)
    show ?thesis
    proof (cases b)
      case b: (JObject lvs)
      let ?f = "\<lambda>(k, v). (k, key_of v)"
      have "pair_less (json_less D) p q = pair_less key_less (?f p) (?f q) \<and>
          pair_less (json_less D) q p = pair_less key_less (?f q) (?f p)"
        if "p \<in> set kvs" "q \<in> set lvs" for p q
        using less.hyps [of "snd p" "snd q"] less.hyps [of "snd q" "snd p"] less.prems that
          size_member [OF that(1)] size_member [OF that(2)]
        by (auto simp: a b list_all_iff pair_less_def split_def)
      then show ?thesis
        by (subst json_less.simps) (simp add: a b lex_less_map [of kvs lvs "pair_less (json_less D)" "pair_less key_less" ?f])
    qed (use less.prems a in \<open>(subst json_less.simps, simp add: key_less_order dbl_key_order)+\<close>)
  qed (use less.prems in \<open>(cases b; subst json_less.simps; simp add: key_less_order dbl_key_order num)+\<close>)
qed

lemma dbl_key_no_other:
  assumes "x \<noteq> NotANum"
  shows "KArray ks \<noteq> dbl_key x" "KObject ps \<noteq> dbl_key x" "KString s \<noteq> dbl_key x" "KBool b \<noteq> dbl_key x" "KNull \<noteq> dbl_key x"
  using assms by (cases x; simp)+

lemma eq_is_key_eq:
  assumes D: "converts_exactly D"
  shows "exact_numbers a \<Longrightarrow> exact_numbers b \<Longrightarrow> json_eq D a b \<longleftrightarrow> key_of a = key_of b"
    and "list_all exact_numbers xs \<Longrightarrow> list_all exact_numbers ys \<Longrightarrow> elements_eq D xs ys \<longleftrightarrow> map key_of xs = map key_of ys"
    and "list_all (\<lambda>(_, v). exact_numbers v) kvs \<Longrightarrow> list_all (\<lambda>(_, v). exact_numbers v) lvs \<Longrightarrow>
      members_eq D kvs lvs \<longleftrightarrow> map (\<lambda>(k, v). (k, key_of v)) kvs = map (\<lambda>(k, v). (k, key_of v)) lvs"
  using D
proof (induction D a b and D xs ys and D kvs lvs rule: json_eq_elements_eq_members_eq.induct)
  case (3 D j)
  then show ?case by (cases j) (auto dest!: dbl_key_order)
next
  case (8 D x j)
  note num = dbl_eq_key dbl_key_exact [OF 8(3)]
  from 8 show ?case by (cases j; cases x; auto simp: num)
qed (auto simp: dbl_eq_key dbl_key_exact dbl_key_no_other to_int64_exact split: json.splits list.splits)

text \<open>(C26) On values whose numbers a \<open>double\<close> holds exactly, \<open>operator<\<close> is a strict weak order whose
  equivalence is \<open>operator==\<close>: of two values exactly one is less or they are equal, less is transitive, equal is an
  equivalence relation, and equal values are less than, and greater than, the same values.  That is what \<open>std::sort\<close>
  and \<open>std::map\<close> ask of it.\<close>

theorem json_order_total:
  assumes "converts_exactly D" and "exact_numbers a" and "exact_numbers b" and "exact_numbers c"
  shows "(json_less D a b \<or> json_eq D a b \<or> json_less D b a) \<and>
    \<not> (json_less D a b \<and> json_less D b a) \<and> \<not> (json_less D a b \<and> json_eq D a b) \<and>
    (json_less D a b \<and> json_less D b c \<longrightarrow> json_less D a c) \<and>
    json_eq D a a \<and> (json_eq D a b \<longleftrightarrow> json_eq D b a) \<and>
    (json_eq D a b \<and> json_eq D b c \<longrightarrow> json_eq D a c) \<and>
    (json_eq D a b \<longrightarrow> (json_less D a c \<longleftrightarrow> json_less D b c) \<and> (json_less D c a \<longleftrightarrow> json_less D c b)) \<and>
    (json_le D a b \<longleftrightarrow> json_less D a b \<or> json_eq D a b)"
  using assms(2-4)
  by (simp only: json_le_def less_is_key_less [OF assms(1)] eq_is_key_eq(1) [OF assms(1)]
      less_json_key_def [symmetric]) (auto simp: not_less le_less)

theorem json_order_total_witness:
  "let D = (\<lambda>i. Dbl (i < 0) (of_int \<bar>i\<bar>)); a = JArray [JInt 1, JString ''x'']; b = JArray [JFloat (Dbl False 1), JString ''x''];
     c = JArray [JUnsigned 2]
   in json_eq D a b \<and> json_less D a c \<and> (json_less D a c \<longleftrightarrow> json_less D b c)"
proof -
  let ?D = "\<lambda>i. Dbl (i < 0) (of_int \<bar>i\<bar>)"
  let ?a = "JArray [JInt 1, JString ''x'']" and ?b = "JArray [JFloat (Dbl False 1), JString ''x'']" and ?c = "JArray [JUnsigned 2]"
  have "json_eq ?D ?a ?b" by (simp add: signed_rat_def)
  moreover have "json_less ?D ?a ?c" by (simp add: json_less.simps to_int64_def)
  ultimately show ?thesis
    using json_order_total [of ?D ?a ?b ?c] by (simp add: converts_exactly_def exact_limit_def Let_def del: json_eq.simps)
qed

text \<open>
  Beyond these values the order is none: a \<open>double\<close> is equal to several integers that differ, and an
  unsigned number beyond the signed range is less than zero.
\<close>

lemma rounding_breaks_order:
  assumes "D 9007199254740992 = Dbl False 9007199254740992" and "D 9007199254740993 = Dbl False 9007199254740992"
  defines "d \<equiv> JFloat (Dbl False 9007199254740992)"
  shows "json_less D (JInt 9007199254740992) (JInt 9007199254740993)"
    and "json_eq D (JInt 9007199254740992) d" and "json_eq D d (JInt 9007199254740993)"
  using assms by (simp_all add: json_less.simps)

lemma unsigned_less_than_zero: "json_less D (JUnsigned 18446744073709551615) (JInt 0)"
  by (simp add: json_less.simps to_int64_def)

end
