(* ===== verification/JsonConvert.thy ===== *)
theory JsonConvert
  imports JsonPatch
begin

text \<open>
  Types, construction, conversion and element access of the values of \<^verbatim>\<open>src/json.hpp\<close>.  The templates over
  other types are given the conversion of the element type as an argument, as \<open>get\<close> and the constructors get
  theirs.  Values of the type \<open>discarded\<close> are left out; only the parser makes them, for its callback.
\<close>

section \<open>Types\<close>

datatype value_t =
    NullType
  | ObjectType
  | ArrayType
  | StringType
  | BooleanType
  | IntegerType
  | UnsignedType
  | FloatType

fun type_of :: "json \<Rightarrow> value_t" where
  "type_of JNull = NullType"
| "type_of (JObject _) = ObjectType"
| "type_of (JArray _) = ArrayType"
| "type_of (JString _) = StringType"
| "type_of (JBool _) = BooleanType"
| "type_of (JInt _) = IntegerType"
| "type_of (JUnsigned _) = UnsignedType"
| "type_of (JFloat _) = FloatType"

definition is_boolean :: "json \<Rightarrow> bool" where "is_boolean j \<longleftrightarrow> type_of j = BooleanType"
definition is_array :: "json \<Rightarrow> bool" where "is_array j \<longleftrightarrow> type_of j = ArrayType"
definition is_string :: "json \<Rightarrow> bool" where "is_string j \<longleftrightarrow> type_of j = StringType"
definition is_number_unsigned :: "json \<Rightarrow> bool" where "is_number_unsigned j \<longleftrightarrow> type_of j = UnsignedType"
definition is_number_float :: "json \<Rightarrow> bool" where "is_number_float j \<longleftrightarrow> type_of j = FloatType"

definition is_number_integer :: "json \<Rightarrow> bool" where
  "is_number_integer j \<longleftrightarrow> type_of j = IntegerType \<or> type_of j = UnsignedType"

definition is_number :: "json \<Rightarrow> bool" where
  "is_number j \<longleftrightarrow> is_number_integer j \<or> is_number_float j"

definition is_structured :: "json \<Rightarrow> bool" where
  "is_structured j \<longleftrightarrow> is_array j \<or> is_object j"

section \<open>Construction\<close>

text \<open>A value of a type, with the default of that type.\<close>

fun json_of_type :: "value_t \<Rightarrow> json" where
  "json_of_type ObjectType = JObject []"
| "json_of_type ArrayType = JArray []"
| "json_of_type StringType = JString []"
| "json_of_type BooleanType = JBool False"
| "json_of_type IntegerType = JInt 0"
| "json_of_type UnsignedType = JUnsigned 0"
| "json_of_type FloatType = JFloat (Dbl False 0)"
| "json_of_type NullType = JNull"

text \<open>The constructor from an initializer list with all its arguments; \<open>init_json\<close> has the defaults.\<close>

definition init_json_as :: "bool \<Rightarrow> value_t \<Rightarrow> json list \<Rightarrow> json outcome" where
  "init_json_as type_deduction manual_type init =
     (let is_an_object = list_all (\<lambda>j. pair_of j \<noteq> None) init
      in if \<not> type_deduction \<and> manual_type = ObjectType \<and> \<not> is_an_object then
           Inl (type_error 301 ''cannot create object from initializer list'')
         else if is_an_object \<and> (type_deduction \<or> manual_type \<noteq> ArrayType) then
           Inr (JObject (fold (\<lambda>j kvs. case pair_of j of Some (k, v) \<Rightarrow> obj_emplace k v kvs | None \<Rightarrow> kvs) init []))
         else Inr (JArray init))"

definition json_array :: "json list \<Rightarrow> json outcome" where
  "json_array init = init_json_as False ArrayType init"

definition json_object :: "json list \<Rightarrow> json outcome" where
  "json_object init = init_json_as False ObjectType init"

definition json_copies :: "nat \<Rightarrow> json \<Rightarrow> json" where
  "json_copies cnt v = JArray (replicate cnt v)"

text \<open>Moving from a value leaves null.\<close>

definition json_move :: "json \<Rightarrow> json \<times> json" where
  "json_move other = (other, JNull)"

section \<open>Conversion to JSON\<close>

definition to_json_vector :: "('a \<Rightarrow> json) \<Rightarrow> 'a list \<Rightarrow> json" where
  "to_json_vector enc xs = JArray (map enc xs)"

text \<open>A \<open>std::map\<close> is in the order of its keys; of any other container of pairs the first entry of a key counts.\<close>

definition to_json_map :: "('a \<Rightarrow> json) \<Rightarrow> (string \<times> 'a) list \<Rightarrow> json" where
  "to_json_map enc kvs = JObject (fold (\<lambda>(k, v). obj_emplace k (enc v)) kvs [])"

definition to_json_pair :: "('a \<Rightarrow> json) \<Rightarrow> ('b \<Rightarrow> json) \<Rightarrow> 'a \<times> 'b \<Rightarrow> json" where
  "to_json_pair enc1 enc2 p = init_json [enc1 (fst p), enc2 (snd p)]"

section \<open>Element access\<close>

definition cannot_access :: "nat \<Rightarrow> string \<Rightarrow> json \<Rightarrow> error" where
  "cannot_access i f j = type_error i (''cannot use '' @ f @ '' with '' @ type_name j)"

definition json_at_index :: "nat \<Rightarrow> json \<Rightarrow> json_place outcome" where
  "json_at_index idx j = (case j of
     JArray vs \<Rightarrow>
       (if idx < length vs then Inr (vs ! idx, \<lambda>w. JArray (vs[idx := w]))
        else Inl (index_out_of_range (show_nat idx)))
   | _ \<Rightarrow> Inl (cannot_access 304 ''at()'' j))"

definition json_at_key :: "string \<Rightarrow> json \<Rightarrow> json_place outcome" where
  "json_at_key key j = (case j of
     JObject kvs \<Rightarrow>
       (case map_of kvs key of
          None \<Rightarrow> Inl (key_not_found key)
        | Some v \<Rightarrow> Inr (v, \<lambda>w. JObject (obj_put key w kvs)))
   | _ \<Rightarrow> Inl (cannot_access 304 ''at()'' j))"

definition json_index_place :: "nat \<Rightarrow> json \<Rightarrow> json_place outcome" where
  "json_index_place idx j = (case (if is_null j then JArray [] else j) of
     JArray vs \<Rightarrow> array_place idx vs
   | j' \<Rightarrow> Inl (cannot_access 305 ''operator[]'' j'))"

text \<open>The \<open>const\<close> versions: an array is not checked, a missing key fails an assertion.\<close>

definition json_index_const :: "nat \<Rightarrow> json \<Rightarrow> json outcome" where
  "json_index_const idx j = (case j of
     JArray vs \<Rightarrow> (if idx < length vs then Inr (vs ! idx) else Inl (UB OutOfBounds))
   | _ \<Rightarrow> Inl (cannot_access 305 ''operator[]'' j))"

definition json_key_const :: "string \<Rightarrow> json \<Rightarrow> json outcome" where
  "json_key_const key j = (case j of
     JObject kvs \<Rightarrow> (case map_of kvs key of None \<Rightarrow> Inl Aborts | Some v \<Rightarrow> Inr v)
   | _ \<Rightarrow> Inl (cannot_access 305 ''operator[]'' j))"

section \<open>Conversion from JSON\<close>

definition type_must_be :: "string \<Rightarrow> json \<Rightarrow> error" where
  "type_must_be t j = type_error 302 (''type must be '' @ t @ '', but is '' @ type_name j)"

text \<open>\<open>static_cast\<close> of a \<open>double\<close> to an integer type truncates, and is undefined out of its range.\<close>

fun dbl_to_integer :: "int \<Rightarrow> int \<Rightarrow> dbl \<Rightarrow> int outcome" where
  "dbl_to_integer lo hi (Dbl neg x) =
     (let t = (if neg then - \<lfloor>x\<rfloor> else \<lfloor>x\<rfloor>)
      in if lo \<le> t \<and> t \<le> hi then Inr t else Inl (UB FloatToIntRange))"
| "dbl_to_integer lo hi _ = Inl (UB FloatToIntRange)"

text \<open>\<open>get_arithmetic_value\<close>, which \<open>number_integer_t\<close>, \<open>number_unsigned_t\<close> and \<open>number_float_t\<close> use.\<close>

fun get_int64 :: "json \<Rightarrow> int outcome" where
  "get_int64 (JUnsigned n) = Inr (to_int64 n)"
| "get_int64 (JInt i) = Inr i"
| "get_int64 (JFloat d) = dbl_to_integer (- (2 ^ 63)) (2 ^ 63 - 1) d"
| "get_int64 j = Inl (type_must_be ''number'' j)"

fun get_uint64 :: "json \<Rightarrow> int outcome" where
  "get_uint64 (JUnsigned n) = Inr n"
| "get_uint64 (JInt i) = Inr (i mod 2 ^ 64)"
| "get_uint64 (JFloat d) = dbl_to_integer 0 (2 ^ 64 - 1) d"
| "get_uint64 j = Inl (type_must_be ''number'' j)"

fun get_double :: "(int \<Rightarrow> dbl) \<Rightarrow> json \<Rightarrow> dbl outcome" where
  "get_double D (JUnsigned n) = Inr (D n)"
| "get_double D (JInt i) = Inr (D i)"
| "get_double D (JFloat d) = Inr d"
| "get_double D j = Inl (type_must_be ''number'' j)"

fun get_bool :: "json \<Rightarrow> bool outcome" where
  "get_bool (JBool b) = Inr b"
| "get_bool j = Inl (type_must_be ''boolean'' j)"

fun get_array :: "json \<Rightarrow> json list outcome" where
  "get_array (JArray vs) = Inr vs"
| "get_array j = Inl (type_must_be ''array'' j)"

text \<open>Containers: a vector is filled from the front, a forward list from the back, an array of given length by index.\<close>

definition get_vector :: "(json \<Rightarrow> 'a outcome) \<Rightarrow> json \<Rightarrow> 'a list outcome" where
  "get_vector conv j = ebind (get_array j) (emap conv)"

definition get_forward_list :: "(json \<Rightarrow> 'a outcome) \<Rightarrow> json \<Rightarrow> 'a list outcome" where
  "get_forward_list conv j = ebind (get_array j) (\<lambda>vs. ebind (emap conv (rev vs)) (\<lambda>xs. Inr (rev xs)))"

definition get_fixed :: "(json \<Rightarrow> 'a outcome) \<Rightarrow> nat \<Rightarrow> json \<Rightarrow> 'a list outcome" where
  "get_fixed conv N j = ebind (get_array j) (\<lambda>_.
     emap (\<lambda>i. ebind (json_at_index i j) (\<lambda>(v, _). conv v)) [0..<N])"

definition get_pair :: "(json \<Rightarrow> 'a outcome) \<Rightarrow> (json \<Rightarrow> 'b outcome) \<Rightarrow> json \<Rightarrow> ('a \<times> 'b) outcome" where
  "get_pair conv1 conv2 j =
     ebind (ebind (json_at_index 0 j) (\<lambda>(v, _). conv1 v)) (\<lambda>x.
     ebind (ebind (json_at_index 1 j) (\<lambda>(v, _). conv2 v)) (\<lambda>y. Inr (x, y)))"

definition get_map :: "(json \<Rightarrow> 'a outcome) \<Rightarrow> json \<Rightarrow> (string \<times> 'a) list outcome" where
  "get_map conv j = (case j of
     JObject kvs \<Rightarrow> emap (\<lambda>(k, v). ebind (conv v) (\<lambda>x. Inr (k, x))) kvs
   | _ \<Rightarrow> Inl (type_must_be ''object'' j))"

section \<open>Pointers to the stored value\<close>

text \<open>
  \<open>get_ptr\<close> gives no pointer, or what is stored and what the value is after a store through the pointer.  A
  pointer to a signed number is also given to an unsigned one.
\<close>

type_synonym 'a stored = "('a \<times> ('a \<Rightarrow> json)) option"

fun object_ptr :: "json \<Rightarrow> (string \<times> json) list stored" where
  "object_ptr (JObject kvs) = Some (kvs, JObject)"
| "object_ptr j = None"

fun array_ptr :: "json \<Rightarrow> json list stored" where
  "array_ptr (JArray vs) = Some (vs, JArray)"
| "array_ptr j = None"

fun string_ptr :: "json \<Rightarrow> string stored" where
  "string_ptr (JString s) = Some (s, JString)"
| "string_ptr j = None"

fun boolean_ptr :: "json \<Rightarrow> bool stored" where
  "boolean_ptr (JBool b) = Some (b, JBool)"
| "boolean_ptr j = None"

fun integer_ptr :: "json \<Rightarrow> int stored" where
  "integer_ptr (JInt i) = Some (i, JInt)"
| "integer_ptr (JUnsigned n) = Some (to_int64 n, \<lambda>i. JUnsigned (i mod 2 ^ 64))"
| "integer_ptr j = None"

fun unsigned_ptr :: "json \<Rightarrow> int stored" where
  "unsigned_ptr (JUnsigned n) = Some (n, JUnsigned)"
| "unsigned_ptr j = None"

fun float_ptr :: "json \<Rightarrow> dbl stored" where
  "float_ptr (JFloat d) = Some (d, JFloat)"
| "float_ptr j = None"

definition get_ref :: "(json \<Rightarrow> 'a stored) \<Rightarrow> json \<Rightarrow> ('a \<times> ('a \<Rightarrow> json)) outcome" where
  "get_ref ptr j = (case ptr j of
     None \<Rightarrow> Inl (type_error 303 (''incompatible ReferenceType for get_ref, actual type is '' @ type_name j))
   | Some r \<Rightarrow> Inr r)"

section \<open>Access through a JSON pointer to a constant value\<close>

definition dash_error :: "json list \<Rightarrow> error" where
  "dash_error vs = out_of_range 402
     (''array index '' @ quoted ''-'' @ '' ('' @ show_nat (length vs) @ '') is out of range'')"

definition child_get :: "string \<Rightarrow> json \<Rightarrow> json outcome" where
  "child_get t j = (case j of
     JObject kvs \<Rightarrow> ebind (json_at_key t j) (\<lambda>(v, _). Inr v)
   | JArray vs \<Rightarrow>
       (if t = ''-'' then Inl (dash_error vs)
        else if leading_zero t then Inl (leading_zero_error t)
        else ebind (array_index t) (\<lambda>i. ebind (json_at_index i j) (\<lambda>(v, _). Inr v)))
   | _ \<Rightarrow> Inl (unresolved t))"

fun pointer_get :: "pointer \<Rightarrow> json \<Rightarrow> json outcome" where
  "pointer_get [] j = Inr j"
| "pointer_get (t # ts) j = ebind (child_get t j) (pointer_get ts)"

definition child_peek :: "string \<Rightarrow> json \<Rightarrow> json outcome" where
  "child_peek t j = (case j of
     JObject kvs \<Rightarrow> json_key_const t j
   | JArray vs \<Rightarrow>
       (if t = ''-'' then Inl (dash_error vs)
        else if leading_zero t then Inl (leading_zero_error t)
        else ebind (array_index t) (\<lambda>i. json_index_const i j))
   | _ \<Rightarrow> Inl (unresolved t))"

fun pointer_peek :: "pointer \<Rightarrow> json \<Rightarrow> json outcome" where
  "pointer_peek [] j = Inr j"
| "pointer_peek (t # ts) j = ebind (child_peek t j) (pointer_peek ts)"

text \<open>\<open>value(ptr, default)\<close> catches what is out of range, and nothing else.\<close>

definition json_pointer_value :: "(json \<Rightarrow> 'a outcome) \<Rightarrow> pointer \<Rightarrow> 'a \<Rightarrow> json \<Rightarrow> 'a outcome" where
  "json_pointer_value conv ptr dflt j =
     (if is_object j then
        (case ebind (pointer_get ptr j) conv of
           Inl e \<Rightarrow> (if is_out_of_range e then Inr dflt else Inl e)
         | Inr x \<Rightarrow> Inr x)
      else Inl (cannot_access 306 ''value()'' j))"

section \<open>Types and construction\<close>

lemma type_of_default: "type_of (json_of_type t) = t"
  by (cases t) simp_all

lemma init_json_default: "init_json_as True t init = Inr (init_json init)"
  by (simp add: init_json_as_def init_json_def)

lemma json_array_any: "json_array init = Inr (JArray init)"
  by (simp add: json_array_def init_json_as_def)

lemma json_object_pairs:
  "json_object init = (if list_all (\<lambda>j. pair_of j \<noteq> None) init then Inr (init_json init)
     else Inl (type_error 301 ''cannot create object from initializer list''))"
  by (simp add: json_object_def init_json_as_def init_json_def)

section \<open>Round trips of the conversions\<close>

lemma emap_map: "emap f (map g xs) = emap (\<lambda>x. f (g x)) xs"
  by (induction xs) auto

lemma emap_id: "(\<And>x. x \<in> set xs \<Longrightarrow> f x = Inr x) \<Longrightarrow> emap f xs = Inr xs"
  by (induction xs) auto

lemma emap_key: "(\<And>x. x \<in> set xs \<Longrightarrow> f (g x) = Inr x) \<Longrightarrow> emap f (map g xs) = Inr xs"
  by (simp add: emap_map emap_id)

lemma get_fixed_all: "length vs = N \<Longrightarrow> get_fixed conv N (JArray vs) = get_vector conv (JArray vs)"
proof -
  assume n: "length vs = N"
  have "emap (\<lambda>i. ebind (json_at_index i (JArray vs)) (\<lambda>(v, _). conv v)) [0..<N] = emap (\<lambda>i. conv (vs ! i)) [0..<N]"
    by (rule emap_cong) (auto simp: json_at_index_def n)
  also have "\<dots> = emap conv (map (\<lambda>i. vs ! i) [0..<N])" by (simp add: emap_map)
  also have "map (\<lambda>i. vs ! i) [0..<N] = vs" using n map_nth [of vs] by simp
  finally show ?thesis by (simp add: get_fixed_def get_vector_def)
qed

text \<open>Entries in the order of their keys are emplaced one behind the other.\<close>

lemma obj_put_behind: "\<forall>l \<in> fst ` set kvs. l < k \<Longrightarrow> obj_put k v kvs = kvs @ [(k, v)]"
  by (induction kvs) (auto dest: less_asym)

lemma emplace_sorted:
  assumes "obj_wf (kvs @ new)"
  shows "fold (\<lambda>(k, v). obj_emplace k v) new kvs = kvs @ new"
  using assms
proof (induction new arbitrary: kvs)
  case (Cons kv new)
  obtain k v where kv: "kv = (k, v)" by force
  from Cons.prems have less: "\<forall>l \<in> fst ` set kvs. l < k"
    by (auto simp: kv obj_wf_def sorted_wrt_append)
  then have "map_of kvs k = None" by (auto simp: map_of_eq_None_iff)
  with less have "obj_emplace k v kvs = kvs @ [(k, v)]" by (simp add: obj_emplace_def obj_put_behind)
  with Cons.IH [of "kvs @ [(k, v)]"] Cons.prems show ?case by (simp add: kv)
qed simp

lemma fold_map_values: "fold (\<lambda>(k, v). obj_emplace k (enc v)) kvs acc = fold (\<lambda>(k, v). obj_emplace k v) (map (\<lambda>(k, v). (k, enc v)) kvs) acc"
  by (induction kvs arbitrary: acc) auto

lemma to_json_map_sorted: "obj_wf kvs \<Longrightarrow> to_json_map enc kvs = JObject (map (\<lambda>(k, v). (k, enc v)) kvs)"
proof -
  assume "obj_wf kvs"
  then have "obj_wf ([] @ map (\<lambda>(k, v). (k, enc v)) kvs)" by (simp add: obj_wf_def comp_def split_def)
  from emplace_sorted [OF this] fold_map_values [of enc kvs "[]"] show ?thesis
    by (simp add: to_json_map_def)
qed

text \<open>What is converted to JSON converts back: vectors, lists and arrays of values that do, maps from strings
  to such values, and pairs, unless both components are themselves arrays of a string and a value, which makes
  an object of the pair.\<close>

theorem conversion_roundtrip:
  assumes "\<And>x. x \<in> set xs \<union> snd ` set kvs \<Longrightarrow> conv (enc x) = Inr x"
    and "conv1 (enc1 y) = Inr y" and "conv2 (enc2 z) = Inr z" and "obj_wf kvs"
    and "pair_of (enc1 y) = None \<or> pair_of (enc2 z) = None"
  shows "get_vector conv (to_json_vector enc xs) = Inr xs \<and>
    get_forward_list conv (to_json_vector enc xs) = Inr xs \<and>
    get_fixed conv (length xs) (to_json_vector enc xs) = Inr xs \<and>
    get_map conv (to_json_map enc kvs) = Inr kvs \<and>
    get_pair conv1 conv2 (to_json_pair enc1 enc2 (y, z)) = Inr (y, z)"
proof -
  have v: "emap conv (map enc xs) = Inr xs" "emap conv (map enc (rev xs)) = Inr (rev xs)"
    using assms(1) by (auto intro!: emap_key)
  have m: "emap (\<lambda>(k, v). ebind (conv v) (\<lambda>x. Inr (k, x))) (map (\<lambda>(k, v). (k, enc v)) kvs) = Inr kvs"
    using assms(1) by (intro emap_key) force
  have "to_json_pair enc1 enc2 (y, z) = JArray [enc1 y, enc2 z]"
    using assms(5) by (auto simp: to_json_pair_def init_json_def)
  then have p: "get_pair conv1 conv2 (to_json_pair enc1 enc2 (y, z)) = Inr (y, z)"
    using assms(2,3) by (simp add: get_pair_def json_at_index_def)
  show ?thesis
    using v m p get_fixed_all [of "map enc xs" "length xs" conv]
    by (simp add: to_json_vector_def get_vector_def get_forward_list_def get_map_def to_json_map_sorted [OF assms(4)]
        flip: rev_map)
qed

theorem conversion_roundtrip_witness:
  "get_vector get_int64 (to_json_vector JInt [1, - 2]) = Inr [1, - 2] \<and>
   get_pair get_string get_int64 (to_json_pair JString JInt (''a'', 3)) = Inr (''a'', 3)"
  using conversion_roundtrip [of "[1, - 2]" "[]" get_int64 JInt get_string JString "''a''" get_int64 JInt 3] by simp

lemma pair_of_pairs_lost:
  "to_json_pair (to_json_pair JString JInt) (to_json_pair JString JInt) ((''a'', 1), (''b'', 2)) =
     JObject [(''a'', JInt 1), (''b'', JInt 2)]"
  "get_pair (get_pair get_string get_int64) (get_pair get_string get_int64)
     (JObject [(''a'', JInt 1), (''b'', JInt 2)]) = Inl (cannot_access 304 ''at()'' (JObject [(''a'', JInt 1), (''b'', JInt 2)]))"
proof -
  have "(''a'' :: string) < ''b''" by (simp add: less_char_def)
  then show "to_json_pair (to_json_pair JString JInt) (to_json_pair JString JInt) ((''a'', 1), (''b'', 2)) =
     JObject [(''a'', JInt 1), (''b'', JInt 2)]"
    by (simp add: to_json_pair_def)
qed (simp add: get_pair_def json_at_index_def)

text \<open>Storing a negative number through the pointer to a signed number that an unsigned one gives.\<close>

lemma signed_store_wraps:
  "\<exists>put. integer_ptr (JUnsigned 5) = Some (5, put) \<and> put (- 1) = JUnsigned 18446744073709551615"
  by (simp add: to_int64_def)

text \<open>A boolean converts to \<open>int32_t\<close> but not to \<open>int64_t\<close>.\<close>

lemma boolean_to_integer: "get_int32 (JBool True) = Inr 1" "isl (get_int64 (JBool True))"
  by simp_all

section \<open>Checked and unchecked access\<close>

lemma child_get_peek: "child_get t j = Inr v \<longleftrightarrow> child_peek t j = Inr v"
  by (cases j) (auto simp: child_get_def child_peek_def json_at_key_def json_key_const_def json_at_index_def
      json_index_const_def ebind_eq_Inr_iff split: option.splits if_splits)

lemma child_get_at: "child_get t j = ebind (child_at t j) (\<lambda>(v, _). Inr v)"
  by (cases j) (auto simp: child_get_def child_at_def json_at_key_def json_at_index_def dash_error_def ebind_assoc
      intro!: ebind_cong split: option.splits)

text \<open>The three ways to a part of a value agree: \<open>at\<close> gives the part to read that it gives to change, and on a
  constant value the unchecked access yields a part exactly when the checked one does, and then the same.\<close>

theorem pointer_access_agrees:
  "pointer_get ptr j = ebind (pointer_at ptr j) (\<lambda>(v, _). Inr v) \<and>
   (\<forall>v. pointer_peek ptr j = Inr v \<longleftrightarrow> pointer_get ptr j = Inr v)"
proof (induction ptr arbitrary: j)
  case (Cons t ts)
  have "pointer_get (t # ts) j = ebind (pointer_at (t # ts) j) (\<lambda>(v, _). Inr v)"
    using Cons by (simp add: child_get_at ebind_assoc split_def)
  moreover have "pointer_peek (t # ts) j = Inr v \<longleftrightarrow> pointer_get (t # ts) j = Inr v" for v
    using Cons child_get_peek [of t j] by (simp add: ebind_eq_Inr_iff)
  ultimately show ?case by blast
qed simp

text \<open>Where \<open>at\<close> throws that a key or an index is out of range, \<open>operator[]\<close> of a constant value fails an assertion or
  reads out of bounds; \<open>value\<close> gives its default.\<close>

lemma missing_part:
  "pointer_get [''b''] (JObject [(''a'', JNull)]) = Inl (key_not_found ''b'')"
  "pointer_peek [''b''] (JObject [(''a'', JNull)]) = Inl Aborts"
  "json_pointer_value get_int64 [''b''] 7 (JObject [(''a'', JNull)]) = Inr 7"
  by (simp_all add: child_get_def child_peek_def json_at_key_def json_key_const_def json_pointer_value_def
      key_not_found_def out_of_range_def exception_name_def)

end
