(* ===== verification/JsonCallback.thy ===== *)
theory JsonCallback
  imports JsonParser
begin

text \<open>
  The parser of \<^verbatim>\<open>src/json.hpp\<close> with a callback, which sees every event of the parse, may change the
  value it is shown and decides what is kept.  A callback is a function of its own state; a discarded value is
  \<open>None\<close>.  Without a callback the parser is the one of \<open>JsonParser\<close>.
\<close>

section \<open>The parser\<close>

datatype parse_event = ObjectStart | ObjectEnd | ArrayStart | ArrayEnd | KeyRead | ValueRead

type_synonym 's callback = "int \<Rightarrow> parse_event \<Rightarrow> json option \<Rightarrow> 's \<Rightarrow> bool \<times> json option \<times> 's"

record 's event_parser =
  ep_parser :: parser
  ep_depth :: int
  ep_state :: 's

definition reading :: "(parser, 'a) sm \<Rightarrow> ('s event_parser, 'a) sm" where
  "reading m = (\<lambda>e. case m (ep_parser e) of (r, p) \<Rightarrow> (r, e\<lparr>ep_parser := p\<rparr>))"

definition deeper :: "int \<Rightarrow> ('s event_parser, unit) sm" where
  "deeper i = smodify (\<lambda>e. e\<lparr>ep_depth := ep_depth e + i\<rparr>)"

text \<open>A call: the answer, and the value as the callback leaves it.\<close>

definition ask :: "'s callback \<Rightarrow> int \<Rightarrow> parse_event \<Rightarrow> json option \<Rightarrow> ('s event_parser, bool \<times> json option) sm" where
  "ask cb d ev v = (\<lambda>e. case cb d ev v (ep_state e) of (ok, v', st) \<Rightarrow> (Inr (ok, v'), e\<lparr>ep_state := st\<rparr>))"

text \<open>A call that discards the value when it is refused.\<close>

definition ask_keep :: "'s callback \<Rightarrow> parse_event \<Rightarrow> json option \<Rightarrow> ('s event_parser, json option) sm" where
  "ask_keep cb ev v =
     sbind (sread (\<lambda>e. Inr (ep_depth e))) (\<lambda>d.
     sbind (ask cb d ev v) (\<lambda>(ok, v'). sret (if ok then v' else None)))"

text \<open>The start of a container, with the depth of its parent: whether it is kept, and the result so far.\<close>

definition start_container ::
  "'s callback \<Rightarrow> parse_event \<Rightarrow> json \<Rightarrow> bool \<Rightarrow> ('s event_parser, bool \<times> json option) sm" where
  "start_container cb ev v keep =
     (if keep then
        sbind (sread (\<lambda>e. Inr (ep_depth e))) (\<lambda>d.
        sbind (deeper 1) (\<lambda>_.
        sbind (ask cb d ev None) (\<lambda>(keep, result). sret (keep, if keep then Some v else result))))
      else sret (False, None))"

definition end_container :: "'s callback \<Rightarrow> parse_event \<Rightarrow> bool \<Rightarrow> json option \<Rightarrow> ('s event_parser, json option) sm" where
  "end_container cb ev keep result =
     (if keep then sbind (deeper (- 1)) (\<lambda>_. ask_keep cb ev result) else sret result)"

definition finish_value :: "'s callback \<Rightarrow> bool \<Rightarrow> json option \<Rightarrow> ('s event_parser, json option) sm" where
  "finish_value cb keep result = (if keep then ask_keep cb ValueRead result else sret result)"

definition ask_key :: "'s callback \<Rightarrow> bool \<Rightarrow> string \<Rightarrow> ('s event_parser, bool) sm" where
  "ask_key cb keep key =
     (if keep then
        sbind (sread (\<lambda>e. Inr (ep_depth e))) (\<lambda>d.
        sbind (ask cb d KeyRead (Some (JString key))) (\<lambda>(ok, _). sret ok))
      else sret False)"

text \<open>What is kept goes into the container, which is an object or an array whenever \<open>keep\<close> holds.\<close>

definition add_member :: "bool \<Rightarrow> string \<Rightarrow> json option \<Rightarrow> json option \<Rightarrow> json option" where
  "add_member keep key v result = (case (v, result) of
     (Some v, Some (JObject kvs)) \<Rightarrow> (if keep then Some (JObject (obj_emplace key v kvs)) else result)
   | _ \<Rightarrow> result)"

definition add_element :: "bool \<Rightarrow> json option \<Rightarrow> json option \<Rightarrow> json option" where
  "add_element keep v result = (case (v, result) of
     (Some v, Some (JArray vs)) \<Rightarrow> (if keep then Some (JArray (vs @ [v])) else result)
   | _ \<Rightarrow> result)"

text \<open>\<open>parse_internal\<close>.  An array that ends at once is announced whether it is kept or not.\<close>

fun parse_events :: "num_lib \<Rightarrow> 's callback \<Rightarrow> nat \<Rightarrow> bool \<Rightarrow> ('s event_parser, json option) sm"
  and member_events :: "num_lib \<Rightarrow> 's callback \<Rightarrow> nat \<Rightarrow> bool \<Rightarrow> json option \<Rightarrow> ('s event_parser, json option) sm"
  and element_events :: "num_lib \<Rightarrow> 's callback \<Rightarrow> nat \<Rightarrow> bool \<Rightarrow> json option \<Rightarrow> ('s event_parser, json option) sm" where
  "parse_events N cb 0 keep = sthrow Diverges"
| "parse_events N cb (Suc n) keep =
     sbind (reading last_token) (\<lambda>t.
       if t = BeginObject then
         sbind (start_container cb ObjectStart (JObject []) keep) (\<lambda>(keep, result).
         sbind (reading (get_token N)) (\<lambda>t'.
         sbind (if t' = EndObject then end_container cb ObjectEnd keep result
                else member_events N cb n keep result) (\<lambda>result.
           finish_value cb keep result)))
       else if t = BeginArray then
         sbind (start_container cb ArrayStart (JArray []) keep) (\<lambda>(keep, result).
         sbind (reading (get_token N)) (\<lambda>t'.
         sbind (if t' = EndArray then end_container cb ArrayEnd True result
                else element_events N cb n keep result) (\<lambda>result.
           finish_value cb keep result)))
       else sbind (reading (parse_scalar t)) (\<lambda>v. finish_value cb keep (Some v)))"
| "member_events N cb 0 keep result = sthrow Diverges"
| "member_events N cb (Suc n) keep result =
     sbind (reading (expect ValueString)) (\<lambda>_.
     sbind (reading move_string) (\<lambda>key.
     sbind (ask_key cb keep key) (\<lambda>keep_tag.
     sbind (reading (get_token N)) (\<lambda>_.
     sbind (reading (expect NameSeparator)) (\<lambda>_.
     sbind (reading (get_token N)) (\<lambda>_.
     sbind (parse_events N cb n keep) (\<lambda>v.
     sbind (reading (get_token N)) (\<lambda>t.
       if t = ValueSeparator then
         sbind (reading (get_token N)) (\<lambda>_. member_events N cb n keep (add_member (keep \<and> keep_tag) key v result))
       else sbind (reading (expect EndObject)) (\<lambda>_.
         end_container cb ObjectEnd keep (add_member (keep \<and> keep_tag) key v result))))))))))"
| "element_events N cb 0 keep result = sthrow Diverges"
| "element_events N cb (Suc n) keep result =
     sbind (parse_events N cb n keep) (\<lambda>v.
     sbind (reading (get_token N)) (\<lambda>t.
       if t = ValueSeparator then
         sbind (reading (get_token N)) (\<lambda>_. element_events N cb n keep (add_element keep v result))
       else sbind (reading (expect EndArray)) (\<lambda>_.
         end_container cb ArrayEnd keep (add_element keep v result))))"

text \<open>A discarded document is null.\<close>

definition parse_with :: "num_lib \<Rightarrow> 's callback \<Rightarrow> nat \<Rightarrow> ('s event_parser, json) sm" where
  "parse_with N cb n =
     sbind (reading (get_token N)) (\<lambda>_.
     sbind (parse_events N cb n True) (\<lambda>result.
     sbind (reading (get_token N)) (\<lambda>_.
     sbind (reading (expect EndOfInput)) (\<lambda>_.
       sret (case result of None \<Rightarrow> JNull | Some v \<Rightarrow> v)))))"

text \<open>\<open>basic_json::parse\<close> with a callback, whose state is returned as well.\<close>

definition json_parse_with :: "num_lib \<Rightarrow> 's callback \<Rightarrow> 's \<Rightarrow> string \<Rightarrow> json outcome \<times> 's" where
  "json_parse_with N cb st b =
     (case parse_with N cb (parse_fuel b) \<lparr>ep_parser = parser_new b, ep_depth = 0, ep_state = st\<rparr> of
        (r, e) \<Rightarrow> (r, ep_state e))"

section \<open>What a callback cannot change\<close>

text \<open>The parser with a callback reads what the other one reads: it throws the same exception, or its result is
  related to the value that the other one gives.\<close>

definition reads_as :: "('a \<Rightarrow> 'b \<Rightarrow> bool) \<Rightarrow> 'b outcome \<times> 's event_parser \<Rightarrow> 'a outcome \<times> parser \<Rightarrow> bool" where
  "reads_as R y x \<longleftrightarrow> ep_parser (snd y) = snd x \<and>
     (case fst x of Inl e \<Rightarrow> fst y = Inl e | Inr v \<Rightarrow> \<exists>w. fst y = Inr w \<and> R v w)"

definition follows ::
  "('a \<Rightarrow> 'b \<Rightarrow> bool) \<Rightarrow> ('s event_parser, 'b) sm \<Rightarrow> (parser, 'a) sm \<Rightarrow> bool" where
  "follows R M m \<longleftrightarrow> (\<forall>e. reads_as R (M e) (m (ep_parser e)))"

lemma reads_as_simps [simp]:
  "reads_as R (Inl x, e) (Inl y, p) \<longleftrightarrow> x = y \<and> ep_parser e = p"
  "reads_as R (Inr w, e) (Inr v, p) \<longleftrightarrow> R v w \<and> ep_parser e = p"
  "\<not> reads_as R (Inl x, e) (Inr v, p)" "\<not> reads_as R (Inr w, e) (Inl y, p)"
  by (auto simp: reads_as_def)

lemma followsD: "follows R M m \<Longrightarrow> ep_parser e = p \<Longrightarrow> reads_as R (M e) (m p)"
  by (auto simp: follows_def)

text \<open>A step that reads nothing and does not throw.\<close>

definition silent :: "('b \<Rightarrow> bool) \<Rightarrow> ('s event_parser, 'b) sm \<Rightarrow> bool" where
  "silent Q M \<longleftrightarrow> (\<forall>e. ep_parser (snd (M e)) = ep_parser e \<and> (\<exists>w. fst (M e) = Inr w \<and> Q w))"

named_theorems silent_intro \<open>programs that read nothing\<close>

lemma silentE:
  assumes "silent Q M"
  obtains w e' where "M e = (Inr w, e')" "Q w" "ep_parser e' = ep_parser e"
  using assms unfolding silent_def by (metis prod.collapse)

lemma followsE:
  assumes "follows R M m"
  obtains (throws) x p e' where "m (ep_parser e) = (Inl x, p)" "M e = (Inl x, e')" "ep_parser e' = p"
  | (returns) v p w e' where "m (ep_parser e) = (Inr v, p)" "M e = (Inr w, e')" "ep_parser e' = p" "R v w"
proof -
  obtain r p where m: "m (ep_parser e) = (r, p)" by (metis surj_pair)
  obtain r' e' where M: "M e = (r', e')" by (metis surj_pair)
  from followsD [OF assms refl, of e] m M that show ?thesis by (cases r; cases r') auto
qed

lemma silent_sret [silent_intro]: "Q x \<Longrightarrow> silent Q (sret x)"
  by (simp add: silent_def sret_def)

lemma silent_sbind:
  assumes "silent Q M" and "\<And>x. Q x \<Longrightarrow> silent R (F x)"
  shows "silent R (sbind M F)"
  unfolding silent_def
proof
  fix e
  obtain w e' where M: "M e = (Inr w, e')" "Q w" "ep_parser e' = ep_parser e" by (rule silentE [OF assms(1)])
  obtain w' e'' where "F w e' = (Inr w', e'')" "R w'" "ep_parser e'' = ep_parser e'"
    by (rule silentE [OF assms(2) [OF M(2)]])
  with M show "ep_parser (snd (sbind M F e)) = ep_parser e \<and> (\<exists>w. fst (sbind M F e) = Inr w \<and> R w)" by simp
qed

lemma silent_depth [silent_intro]:
  "(\<And>d. silent R (F d)) \<Longrightarrow> silent R (sbind (sread (\<lambda>e. Inr (ep_depth e))) F)"
  by (simp add: silent_def sbind_sread)

lemma silent_deeper [silent_intro]: "silent R (F ()) \<Longrightarrow> silent R (sbind (deeper i) F)"
  by (simp add: silent_def deeper_def)

lemma silent_ask [silent_intro]:
  "(\<And>ok w st st'. cb d ev v st = (ok, w, st') \<Longrightarrow> silent R (F (ok, w))) \<Longrightarrow> silent R (sbind (ask cb d ev v) F)"
  by (simp add: silent_def ask_def sbind_def split: prod.split)

lemma silent_if [silent_intro]:
  "(b \<Longrightarrow> silent R M) \<Longrightarrow> (\<not> b \<Longrightarrow> silent R M') \<Longrightarrow> silent R (if b then M else M')"
  by simp

lemma follows_sbind:
  assumes "follows Q M m" and "\<And>x y. Q x y \<Longrightarrow> follows R (F y) (f x)"
  shows "follows R (sbind M F) (sbind m f)"
  unfolding follows_def
proof
  fix e
  show "reads_as R (sbind M F e) (sbind m f (ep_parser e))"
    using assms(1)
  proof (cases rule: followsE [where e = e])
    case (returns v p w e')
    with followsD [OF assms(2) [OF returns(4)] returns(3)] show ?thesis by simp
  qed simp
qed

lemma follows_then:
  assumes "follows Q M m" and "\<And>x y. Q x y \<Longrightarrow> silent (R x) (F y)"
  shows "follows R (sbind M F) m"
  unfolding follows_def
proof
  fix e
  show "reads_as R (sbind M F e) (m (ep_parser e))"
    using assms(1)
  proof (cases rule: followsE [where e = e])
    case (returns v p w e')
    obtain w' e'' where "F w e' = (Inr w', e'')" "R v w'" "ep_parser e'' = ep_parser e'"
      by (rule silentE [OF assms(2) [OF returns(4)]])
    with returns show ?thesis by simp
  qed simp
qed

lemma follows_silent:
  assumes "silent Q S" and "\<And>v. Q v \<Longrightarrow> follows R (F v) m"
  shows "follows R (sbind S F) m"
  unfolding follows_def
proof
  fix e
  obtain w e' where S: "S e = (Inr w, e')" "Q w" "ep_parser e' = ep_parser e" by (rule silentE [OF assms(1)])
  from followsD [OF assms(2) [OF S(2)] S(3)] S(1) show "reads_as R (sbind S F e) (m (ep_parser e))" by simp
qed

lemma follows_same: "follows (=) (reading m) m"
  by (simp add: follows_def reading_def reads_as_def split: prod.split sum.split)

lemma follows_reading: "(\<And>x. follows R (F x) (f x)) \<Longrightarrow> follows R (sbind (reading m) F) (sbind m f)"
  by (rule follows_sbind [OF follows_same]) simp

lemma follows_read: "(\<And>x. silent (R x) (F x)) \<Longrightarrow> follows R (sbind (reading m) F) m"
  by (rule follows_then [OF follows_same]) simp

lemma follows_sret: "silent (R x) S \<Longrightarrow> follows R S (sret x)"
  by (auto simp: follows_def silent_def sret_def reads_as_def)

lemma follows_sthrow: "follows R (sthrow x) (sthrow x)"
  by (simp add: follows_def sthrow_def)

lemma follows_if:
  "(b \<Longrightarrow> follows R M m) \<Longrightarrow> (\<not> b \<Longrightarrow> follows R M' m') \<Longrightarrow> follows R (if b then M else M') (if b then m else m')"
  by simp

lemmas silent_call = ask_keep_def start_container_def end_container_def finish_value_def ask_key_def

lemma silent_any:
  "silent (\<lambda>_. True) (ask_keep cb ev v)" "silent (\<lambda>_. True) (start_container cb ev w keep)"
  "silent (\<lambda>_. True) (end_container cb ev keep v)" "silent (\<lambda>_. True) (finish_value cb keep v)"
  "silent (\<lambda>_. True) (ask_key cb keep key)"
proof -
  show ask: "silent (\<lambda>_. True) (ask_keep cb ev v)" for ev v
    unfolding silent_call by (intro silent_intro) (simp add: silent_sret)
  show "silent (\<lambda>_. True) (start_container cb ev w keep)" "silent (\<lambda>_. True) (ask_key cb keep key)"
    unfolding silent_call by (intro silent_intro; simp add: silent_sret)+
  show "silent (\<lambda>_. True) (end_container cb ev keep v)" "silent (\<lambda>_. True) (finish_value cb keep v)"
    unfolding end_container_def finish_value_def by (intro silent_intro ask; simp)+
qed

lemma follows_any: "follows (\<lambda>_ _. True) (reading m) m"
  by (simp add: follows_def reading_def reads_as_def split: prod.split sum.split)

lemma events_follow:
  "(\<forall>keep. follows (\<lambda>_ _. True) (parse_events N cb n keep) (parse_internal N n)) \<and>
   (\<forall>keep r kvs. follows (\<lambda>_ _. True) (member_events N cb n keep r) (parse_members N n kvs)) \<and>
   (\<forall>keep r vs. follows (\<lambda>_ _. True) (element_events N cb n keep r) (parse_elements N n vs))"
proof (induction n)
  case 0
  show ?case by (simp add: follows_sthrow)
next
  case (Suc n)
  then have IH: "follows (\<lambda>_ _. True) (parse_events N cb n keep) (parse_internal N n)"
    "follows (\<lambda>_ _. True) (member_events N cb n keep r) (parse_members N n kvs)"
    "follows (\<lambda>_ _. True) (element_events N cb n keep r) (parse_elements N n vs)" for keep r kvs vs by blast+
  have "follows (\<lambda>_ _. True) (parse_events N cb (Suc n) keep) (parse_internal N (Suc n))" for keep
    unfolding parse_events.simps parse_internal.simps
    by (intro follows_if follows_reading follows_read silent_any)
      (auto intro!: follows_silent [OF silent_any(2)] follows_reading follows_any
        follows_then [where Q = "\<lambda>_ _. True"] IH silent_any follows_if follows_sret)
  moreover have "follows (\<lambda>_ _. True) (member_events N cb (Suc n) keep r) (parse_members N (Suc n) kvs)" for keep r kvs
    unfolding member_events.simps parse_members.simps
    by (intro follows_if follows_reading follows_silent [OF silent_any(5)] follows_sbind [OF IH(1)] IH follows_sret silent_any)
  moreover have "follows (\<lambda>_ _. True) (element_events N cb (Suc n) keep r) (parse_elements N (Suc n) vs)" for keep r vs
    unfolding element_events.simps parse_elements.simps
    by (intro follows_if follows_reading follows_sbind [OF IH(1)] IH follows_sret silent_any)
  ultimately show ?case by blast
qed

lemma parse_with_follows:
  assumes "follows Q (parse_events N cb n True) (parse_internal N n)"
    and "\<And>v r. Q v r \<Longrightarrow> R v (case r of None \<Rightarrow> JNull | Some w \<Rightarrow> w)"
  shows "follows R (parse_with N cb n) (parse_strict N n)"
  unfolding parse_with_def parse_strict_def
  by (intro follows_reading follows_sbind [OF assms(1)] follows_sret silent_sret assms(2))

lemma json_parse_with_reads:
  assumes "follows R (parse_with N cb (parse_fuel b)) (parse_strict N (parse_fuel b))"
  shows "case json_parse N b of
      Inl e \<Rightarrow> fst (json_parse_with N cb st b) = Inl e
    | Inr v \<Rightarrow> \<exists>w. fst (json_parse_with N cb st b) = Inr w \<and> R v w"
  using followsD [OF assms, of "\<lparr>ep_parser = parser_new b, ep_depth = 0, ep_state = st\<rparr>" "parser_new b"]
  by (simp add: json_parse_def json_parse_with_def reads_as_def split_beta split: sum.splits)

text \<open>(C20) A callback decides what is kept, never what is accepted: whatever it answers and changes, the parse
  throws exactly what it throws without a callback, and returns exactly on the texts that \<open>accept\<close> accepts.\<close>

theorem callback_verdict:
  "(\<forall>e. fst (json_parse_with N cb st b) = Inl e \<longleftrightarrow> json_parse N b = Inl e) \<and>
   json_accept N b = Inr (\<exists>v. fst (json_parse_with N cb st b) = Inr v)"
  using json_parse_with_reads [OF parse_with_follows [OF events_follow [THEN conjunct1, rule_format] TrueI],
      where N = N and cb = cb and b = b and st = st] json_accept_iff [of N b]
  by (cases "json_parse N b") auto

section \<open>A callback that refuses keys\<close>

text \<open>The answers of a callback that changes nothing and refuses the keys outside of \<open>P\<close>, and what is then left
  of a value.\<close>

definition key_filter :: "(string \<Rightarrow> bool) \<Rightarrow> 's callback \<Rightarrow> bool" where
  "key_filter P cb \<longleftrightarrow> (\<forall>d ev v st. \<exists>st'. cb d ev v st =
     (case (ev, v) of (KeyRead, Some (JString k)) \<Rightarrow> P k | _ \<Rightarrow> True, v, st'))"

fun kept_keys :: "(string \<Rightarrow> bool) \<Rightarrow> json \<Rightarrow> json" where
  "kept_keys P (JArray vs) = JArray (map (kept_keys P) vs)"
| "kept_keys P (JObject kvs) = JObject (filter (\<lambda>(k, _). P k) (map (\<lambda>(k, v). (k, kept_keys P v)) kvs))"
| "kept_keys P j = j"

abbreviation kept_members :: "(string \<Rightarrow> bool) \<Rightarrow> (string \<times> json) list \<Rightarrow> (string \<times> json) list" where
  "kept_members P kvs \<equiv> filter (\<lambda>(k, _). P k) (map (\<lambda>(k, v). (k, kept_keys P v)) kvs)"

lemma kept_keys_all: "kept_keys (\<lambda>_. True) j = j"
proof (induction "\<lambda>_ :: string. True" j rule: kept_keys.induct)
  case (2 kvs)
  then have "map (\<lambda>(k, v). (k, kept_keys (\<lambda>_. True) v)) kvs = kvs" by (intro map_idI) auto
  then show ?case by (simp add: filter_id_conv)
qed (simp_all add: map_idI)

lemma fst_kept_members: "map fst (kept_members P kvs) = filter P (map fst kvs)"
  by (induction kvs) auto

lemma map_of_kept_members: "map_of (kept_members P kvs) l = (if P l then map_option (kept_keys P) (map_of kvs l) else None)"
  by (induction kvs) auto

lemma obj_wf_kept: "obj_wf kvs \<Longrightarrow> obj_wf (kept_members P kvs)"
  unfolding obj_wf_def fst_kept_members by (rule sorted_wrt_filter)

lemma kept_members_emplace:
  assumes "obj_wf kvs"
  shows "kept_members P (obj_emplace k v kvs) =
    (if P k then obj_emplace k (kept_keys P v) (kept_members P kvs) else kept_members P kvs)" (is "?l = ?r")
proof (rule obj_wf_eqI)
  show "obj_wf ?l" by (rule obj_wf_kept [OF obj_wf_emplace [OF assms]])
  show "obj_wf ?r" by (cases "P k") (simp_all add: obj_wf_kept obj_wf_emplace assms)
  show "map_of ?l = map_of ?r"
    by (rule ext) (simp add: map_of_kept_members map_of_obj_emplace split: option.split)
qed

lemma silent_filter:
  assumes "key_filter P cb"
  shows "ev \<noteq> KeyRead \<Longrightarrow> silent (\<lambda>r. r = v) (ask_keep cb ev v)"
    and "ev \<noteq> KeyRead \<Longrightarrow> silent (\<lambda>r. r = (True, Some w)) (start_container cb ev w True)"
    and "ev \<noteq> KeyRead \<Longrightarrow> silent (\<lambda>r. r = v) (end_container cb ev True v)"
    and "silent (\<lambda>r. r = v) (finish_value cb True v)"
    and "silent (\<lambda>ok. ok = P key) (ask_key cb True key)"
proof -
  have cb: "cb d ev v st = (ok, v', st') \<Longrightarrow>
      v' = v \<and> ok = (case (ev, v) of (KeyRead, Some (JString k)) \<Rightarrow> P k | _ \<Rightarrow> True)" for d ev v st ok v' st'
    using assms unfolding key_filter_def by (metis prod.inject)
  have other: "cb d ev v st = (ok, v', st') \<Longrightarrow> v' = v \<and> ok" if "ev \<noteq> KeyRead" for d ev v st ok v' st'
    using cb [of d ev v st ok v' st'] that by (cases ev) auto
  show ask: "silent (\<lambda>r. r = v) (ask_keep cb ev v)" if "ev \<noteq> KeyRead" for ev v
    unfolding silent_call by (intro silent_intro) (auto simp: silent_sret dest!: other [OF that])
  show "silent (\<lambda>r. r = (True, Some w)) (start_container cb ev w True)" if "ev \<noteq> KeyRead"
    unfolding silent_call by (intro silent_intro; auto simp: silent_sret dest!: other [OF that])
  show "silent (\<lambda>r. r = v) (end_container cb ev True v)" if "ev \<noteq> KeyRead"
    unfolding end_container_def by (intro silent_intro ask that) simp
  show "silent (\<lambda>r. r = v) (finish_value cb True v)"
    unfolding finish_value_def by (intro silent_intro ask) simp_all
  show "silent (\<lambda>ok. ok = P key) (ask_key cb True key)"
    unfolding silent_call by (intro silent_intro; auto simp: silent_sret dest!: cb)
qed

lemma kept_scalar: "follows (\<lambda>v w. w = kept_keys P v) (reading (parse_scalar t)) (parse_scalar t)"
  unfolding follows_def
  by (cases t) (simp_all add: parse_scalar_def reading_def reads_as_def move_string_def expect_def sbind_def sret_def
      split: option.split)

lemma events_filter:
  assumes "key_filter P cb"
  shows "follows (\<lambda>v r. r = Some (kept_keys P v)) (parse_events N cb n True) (parse_internal N n) \<and>
   (\<forall>kvs. obj_wf kvs \<longrightarrow> follows (\<lambda>v r. r = Some (kept_keys P v))
      (member_events N cb n True (Some (kept_keys P (JObject kvs)))) (parse_members N n kvs)) \<and>
   (\<forall>vs. follows (\<lambda>v r. r = Some (kept_keys P v))
      (element_events N cb n True (Some (kept_keys P (JArray vs)))) (parse_elements N n vs))"
proof (induction n)
  case 0
  show ?case by (simp add: follows_sthrow)
next
  case (Suc n)
  define R where "R = (\<lambda>v r. r = Some (kept_keys P v))"
  note sil = silent_filter [OF assms]
  from Suc have IH: "follows R (parse_events N cb n True) (parse_internal N n)"
    "obj_wf kvs \<Longrightarrow> follows R (member_events N cb n True (Some (kept_keys P (JObject kvs)))) (parse_members N n kvs)"
    "follows R (element_events N cb n True (Some (kept_keys P (JArray vs)))) (parse_elements N n vs)" for kvs vs
    unfolding R_def by blast+
  have fin: "follows R (sbind M (finish_value cb True)) m" if "follows R M m" for M and m :: "(parser, json) sm"
    by (rule follows_then [OF that]) (use sil(4) in \<open>simp add: R_def\<close>)
  have container: "follows R (sbind (start_container cb ev w True) (\<lambda>(keep, result). sbind (reading (get_token N)) (\<lambda>t'.
      sbind (if t' = close then end_container cb ev' (f keep) result else M keep result) (finish_value cb keep))))
    (sbind (get_token N) (\<lambda>t'. if t' = close then sret w else m))"
    if "ev \<noteq> KeyRead" "ev' \<noteq> KeyRead" "f True" "kept_keys P w = w" "follows R (M True (Some w)) m"
    for ev ev' w close f M m
    by (rule follows_silent [OF sil(2) [OF that(1)]], simp only: prod.case)
      (intro follows_reading fin follows_if follows_sret; use that(5) in \<open>simp add: that(1-4) R_def sil(3)\<close>)
  have "follows R (parse_events N cb (Suc n) True) (parse_internal N (Suc n))"
    unfolding parse_events.simps parse_internal.simps
  proof (intro follows_if follows_reading)
    show "follows R (sbind (reading (parse_scalar t)) (\<lambda>v. finish_value cb True (Some v))) (parse_scalar t)" for t
      by (rule follows_then [OF kept_scalar]) (use sil(4) in \<open>simp add: R_def\<close>)
  qed (use container [where f = "\<lambda>keep. keep"] container [where f = "\<lambda>_. True"] IH(2) [of "[]"] IH(3) [of "[]"] in simp_all)
  moreover have "follows R (member_events N cb (Suc n) True (Some (kept_keys P (JObject kvs)))) (parse_members N (Suc n) kvs)"
    if wf: "obj_wf kvs" for kvs
  proof -
    have add: "add_member (P key) key (Some (kept_keys P v)) (Some (kept_keys P (JObject kvs))) =
        Some (kept_keys P (JObject (obj_emplace key v kvs)))" for key v
      using kept_members_emplace [OF wf, of P key v] by (simp add: add_member_def)
    show ?thesis
      unfolding member_events.simps parse_members.simps
      by (intro follows_if follows_reading follows_silent [OF sil(5)] follows_sbind [OF IH(1)] follows_sret)
        (use IH(2) [OF obj_wf_emplace [OF wf]] in \<open>simp_all add: add R_def sil(3) del: kept_keys.simps\<close>)
  qed
  moreover have "follows R (element_events N cb (Suc n) True (Some (kept_keys P (JArray vs)))) (parse_elements N (Suc n) vs)" for vs
  proof -
    have add: "add_element True (Some (kept_keys P v)) (Some (kept_keys P (JArray vs))) =
        Some (kept_keys P (JArray (vs @ [v])))" for v
      by (simp add: add_element_def)
    show ?thesis
      unfolding element_events.simps parse_elements.simps
      by (intro follows_if follows_reading follows_sbind [OF IH(1)] follows_sret)
        (use IH(3) in \<open>simp_all add: add R_def sil(3) del: kept_keys.simps\<close>)
  qed
  ultimately show ?case unfolding R_def by blast
qed

text \<open>A callback that refuses keys behaves as if their members had not been read, whatever it keeps in its own
  state; one that keeps everything changes nothing.\<close>

theorem parse_with_key_filter:
  assumes "key_filter P cb"
  shows "fst (json_parse_with N cb st b) = map_sum id (kept_keys P) (json_parse N b)"
  using json_parse_with_reads [OF parse_with_follows [OF events_filter [OF assms, THEN conjunct1],
      where R = "\<lambda>v w. w = kept_keys P v"], where N = N and b = b and st = st]
  by (cases "json_parse N b") auto

corollary parse_with_all:
  assumes "\<And>d ev v st. \<exists>st'. cb d ev v st = (True, v, st')"
  shows "fst (json_parse_with N cb st b) = json_parse N b"
proof -
  have "key_filter (\<lambda>_. True) cb"
    using assms by (simp add: key_filter_def split: parse_event.split option.split json.split)
  from parse_with_key_filter [OF this] show ?thesis by (cases "json_parse N b") (simp_all add: kept_keys_all)
qed

section \<open>The depth that a callback is told\<close>

text \<open>A callback that notes the depth of each event and refuses what starts at the depths \<open>ds\<close>.\<close>

definition depth_log :: "int list \<Rightarrow> (int \<times> parse_event) list callback" where
  "depth_log ds = (\<lambda>d ev v log. (\<not> ((ev = ArrayStart \<or> ev = ObjectStart) \<and> d \<in> set ds), v, log @ [(d, ev)]))"

text \<open>The end of a container that was refused does not take its depth back: the second element of the outer array
  is announced at depth 2 and the end of the outer array at depth 1, one too deep.  An empty array inside a refused one
  takes a depth back that it never added, and is announced at a negative depth.\<close>

lemma refused_container_shifts_depth:
  "json_parse_with N (depth_log []) [] ''[[null],null]'' =
     (Inr (JArray [JArray [JNull], JNull]), [(0, ArrayStart), (1, ArrayStart), (2, ValueRead), (1, ArrayEnd),
       (1, ValueRead), (1, ValueRead), (0, ArrayEnd), (0, ValueRead)])"
  "json_parse_with N (depth_log [1]) [] ''[[null],null]'' =
     (Inr (JArray [JNull]), [(0, ArrayStart), (1, ArrayStart), (2, ValueRead), (1, ArrayEnd), (1, ValueRead)])"
  "json_parse_with N (depth_log [0]) [] ''[[],[]]'' =
     (Inr JNull, [(0, ArrayStart), (0, ArrayEnd), (- 1, ArrayEnd)])"
  by code_simp+

end
