(* ===== verification/Binary.thy ===== *)
theory Binary
  imports JsonParser
begin

text \<open>
  What the two binary formats of \<^verbatim>\<open>src/json.hpp\<close> have in common: numbers in network byte order
  (\<open>binary_writer::write_number\<close>, \<open>binary_reader::get_number\<close>), the floating-point numbers of IEEE 754,
  and the state of the class \<open>binary_reader\<close>.  A \<open>vector<uint8_t>\<close> is a \<open>string\<close>.
\<close>

unbundle bit_operations_syntax

section \<open>Numbers in memory\<close>

text \<open>The bytes of a number of \<open>k\<close> bytes, least significant first.\<close>

fun le_bytes :: "nat \<Rightarrow> nat \<Rightarrow> string" where
  "le_bytes 0 n = []"
| "le_bytes (Suc k) n = char_of (n mod 256) # le_bytes k (n div 256)"

fun le_number :: "string \<Rightarrow> nat" where
  "le_number [] = 0"
| "le_number (c # s) = byte c + 256 * le_number s"

text \<open>\<open>memcpy\<close> from a number and to one, on a machine that is little endian or big endian.\<close>

definition object_bytes :: "bool \<Rightarrow> nat \<Rightarrow> nat \<Rightarrow> string" where
  "object_bytes little k n = (if little then le_bytes k n else rev (le_bytes k n))"

definition object_number :: "bool \<Rightarrow> string \<Rightarrow> nat" where
  "object_number little s = le_number (if little then s else rev s)"

text \<open>
  The machine: its byte order, and the object representation of a \<open>double\<close>, read as a number.
\<close>

record machine =
  mc_little :: bool
  mc_double :: "dbl \<Rightarrow> nat"

definition write_number :: "machine \<Rightarrow> nat \<Rightarrow> nat \<Rightarrow> string" where
  "write_number M k n =
     (let vec = object_bytes (mc_little M) k n in if mc_little M then rev vec else vec)"

section \<open>Floating-point numbers\<close>

text \<open>The interchange formats of IEEE 754, with \<open>e\<close> bits of exponent and \<open>m\<close> bits of significand.\<close>

definition ieee :: "nat \<Rightarrow> nat \<Rightarrow> nat \<Rightarrow> dbl" where
  "ieee e m b =
     (let mant = b mod 2 ^ m; ex = b div 2 ^ m mod 2 ^ e; neg = odd (b div 2 ^ (m + e)); bias = 2 ^ (e - 1) - 1
      in if ex = 2 ^ e - 1 then (if mant = 0 then Infinite neg else NotANum)
         else if ex = 0 then Dbl neg (of_nat mant / 2 ^ (bias - 1 + m))
         else Dbl neg (of_nat (2 ^ m + mant) * 2 ^ ex / 2 ^ (bias + m)))"

definition float_of :: "nat \<Rightarrow> dbl" where "float_of = ieee 8 23"
definition double_of :: "nat \<Rightarrow> dbl" where "double_of = ieee 11 52"

text \<open>\<open>std::ldexp\<close>, which is exact on the numbers it gets here, and the sign.\<close>

definition ldexp :: "nat \<Rightarrow> int \<Rightarrow> dbl" where
  "ldexp x e = Dbl False (of_nat x * (if 0 \<le> e then 2 ^ nat e else 1 / 2 ^ nat (- e)))"

fun negate :: "dbl \<Rightarrow> dbl" where
  "negate (Dbl neg x) = Dbl (\<not> neg) x"
| "negate (Infinite neg) = Infinite (\<not> neg)"
| "negate NotANum = NotANum"

text \<open>The decoder of half-precision numbers.\<close>

definition half_float :: "nat \<Rightarrow> nat \<Rightarrow> dbl" where
  "half_float byte1 byte2 =
     (let half = push_bit 8 byte1 + byte2;
          ex = drop_bit 10 half AND 0x1F;
          mant = half AND 0x3FF;
          val = (if ex = 0 then ldexp mant (- 24)
                 else if ex \<noteq> 31 then ldexp (mant + 1024) (int ex - 25)
                 else if mant = 0 then Infinite False else NotANum)
      in if half AND 0x8000 \<noteq> 0 then negate val else val)"

section \<open>The reader\<close>

record reader =
  rd_rest :: string
  rd_current :: "char option"
  rd_chars_read :: nat

definition reader_new :: "string \<Rightarrow> reader" where
  "reader_new b = \<lparr>rd_rest = input_adapter b, rd_current = None, rd_chars_read = 0\<rparr>"

definition rd_next :: "reader \<Rightarrow> reader" where
  "rd_next r = (case rd_rest r of
     [] \<Rightarrow> r\<lparr>rd_chars_read := Suc (rd_chars_read r), rd_current := None\<rparr>
   | c # s \<Rightarrow> r\<lparr>rd_chars_read := Suc (rd_chars_read r), rd_current := Some c, rd_rest := s\<rparr>)"

definition rd_get :: "(reader, char option) sm" where
  "rd_get = sbind (smodify rd_next) (\<lambda>_. sread (\<lambda>r. Inr (rd_current r)))"

definition rd_last :: "(reader, char option) sm" where
  "rd_last = sread (\<lambda>r. Inr (rd_current r))"

definition unexpected_end :: "reader \<Rightarrow> error" where
  "unexpected_end r = parse_error 110 (rd_chars_read r) ''unexpected end of input''"

definition check_eof :: "bool \<Rightarrow> (reader, unit) sm" where
  "check_eof expect_eof = sread (\<lambda>r.
     if expect_eof then
       (if rd_current r \<noteq> None then Inl (parse_error 110 (rd_chars_read r) ''expected end of input'') else Inr ())
     else (if rd_current r = None then Inl (unexpected_end r) else Inr ()))"

text \<open>The last byte read, as \<open>static_cast\<close> converts it.\<close>

definition current_char :: "(reader, char) sm" where
  "current_char = sread (\<lambda>r. Inr (case rd_current r of Some c \<Rightarrow> c | None \<Rightarrow> CHR 0xFF))"

text \<open>\<open>get_number\<close>: the bytes go into an array whose first contents do not matter.\<close>

function number_loop :: "machine \<Rightarrow> nat \<Rightarrow> nat \<Rightarrow> string \<Rightarrow> (reader, string) sm" where
  "number_loop M k i vec =
     (if i < k then
        sbind rd_get (\<lambda>_.
        sbind (check_eof False) (\<lambda>_.
        sbind current_char (\<lambda>c.
          number_loop M k (Suc i) (if mc_little M then vec[k - i - 1 := c] else vec[i := c]))))
      else sret vec)"
  by pat_completeness auto

termination
  by (relation "measure (\<lambda>(M, k, i, vec). k - i)") simp_all

declare number_loop.simps [simp del]

definition get_number :: "machine \<Rightarrow> nat \<Rightarrow> (reader, nat) sm" where
  "get_number M k =
     sbind (number_loop M k 0 (replicate k (CHR 0x00))) (\<lambda>vec. sret (object_number (mc_little M) vec))"

text \<open>\<open>get_string\<close>: the callback of \<open>generate_n\<close>.\<close>

fun string_loop :: "nat \<Rightarrow> string \<Rightarrow> (reader, string) sm" where
  "string_loop 0 result = sret result"
| "string_loop (Suc len) result =
     sbind rd_get (\<lambda>_.
     sbind (check_eof False) (\<lambda>_.
     sbind current_char (\<lambda>c. string_loop len (result @ [c]))))"

definition get_chars :: "nat \<Rightarrow> (reader, string) sm" where
  "get_chars len = string_loop len []"

text \<open>A byte in hexadecimal, as the stream writes it.\<close>

definition upper_hex_digit :: "nat \<Rightarrow> char" where
  "upper_hex_digit n = char_of (if n < 10 then 48 + n else 55 + n)"

definition hex_byte :: "nat \<Rightarrow> string" where
  "hex_byte b = [upper_hex_digit (b div 16), upper_hex_digit (b mod 16)]"

definition last_byte_error :: "nat \<Rightarrow> string \<Rightarrow> nat \<Rightarrow> (reader, 'a) sm" where
  "last_byte_error i what_arg b =
     sread (\<lambda>r. Inl (parse_error i (rd_chars_read r) (what_arg @ ''; last byte: 0x'' @ hex_byte b)))"

section \<open>Reading back what was written\<close>

lemma length_le_bytes [simp]: "length (le_bytes k n) = k"
  by (induction k n rule: le_bytes.induct) simp_all

lemma le_number_bytes: "n < 256 ^ k \<Longrightarrow> le_number (le_bytes k n) = n"
proof (induction k n rule: le_bytes.induct)
  case (2 k n)
  then have "n div 256 < 256 ^ k" by (simp add: less_mult_imp_div_less mult.commute)
  with 2(1) show ?case by (simp add: byte_def)
qed simp

lemma le_bytes_number: "le_bytes (length s) (le_number s) = s"
  by (induction s) (simp_all add: byte_def)

text \<open>The order of bytes in a file does not depend on the machine.\<close>

lemma write_number_network: "write_number M k n = rev (le_bytes k n)"
  by (simp add: write_number_def object_bytes_def Let_def)

lemma length_write_number [simp]: "length (write_number M k n) = k"
  by (simp add: write_number_network)

text \<open>
  A program reads a text when it takes the text off the input, whatever follows, and returns the given
  value; \<open>decodes_at\<close> is for a program that looks at the current byte first.
\<close>

definition decodes :: "(reader, 'a) sm \<Rightarrow> string \<Rightarrow> 'a \<Rightarrow> bool" where
  "decodes m s x \<longleftrightarrow> (\<forall>r t. rd_rest r = s @ t \<longrightarrow> (\<exists>r'. m r = (Inr x, r') \<and> rd_rest r' = t))"

definition decodes_at :: "char \<Rightarrow> (reader, 'a) sm \<Rightarrow> string \<Rightarrow> 'a \<Rightarrow> bool" where
  "decodes_at c m s x \<longleftrightarrow> (\<forall>r t. rd_current r = Some c \<longrightarrow> rd_rest r = s @ t \<longrightarrow>
     (\<exists>r'. m r = (Inr x, r') \<and> rd_rest r' = t))"

named_theorems decodes_intro \<open>what the operations of the reader read\<close>

lemma decodes_at_weaken: "decodes m s x \<Longrightarrow> decodes_at c m s x"
  by (simp add: decodes_def decodes_at_def)

lemma decodes_sret [decodes_intro]: "decodes (sret x) [] x"
  by (simp add: decodes_def sret_def)

lemma decodes_sbind:
  assumes "decodes m s x" and "decodes (f x) t y" and "u = s @ t"
  shows "decodes (sbind m f) u y"
  unfolding decodes_def
proof (intro allI impI)
  fix r :: reader and v
  assume "rd_rest r = u @ v"
  with assms(1,3) obtain r' where "m r = (Inr x, r')" "rd_rest r' = t @ v" by (auto simp: decodes_def)
  with assms(2) show "\<exists>r'. sbind m f r = (Inr y, r') \<and> rd_rest r' = v" by (auto simp: decodes_def)
qed

lemma decodes_at_sbind:
  assumes "decodes_at c m s x" and "decodes (f x) t y" and "u = s @ t"
  shows "decodes_at c (sbind m f) u y"
  unfolding decodes_at_def
proof (intro allI impI)
  fix r :: reader and v
  assume "rd_current r = Some c" "rd_rest r = u @ v"
  with assms(1,3) obtain r' where "m r = (Inr x, r')" "rd_rest r' = t @ v" by (auto simp: decodes_at_def)
  with assms(2) show "\<exists>r'. sbind m f r = (Inr y, r') \<and> rd_rest r' = v" by (auto simp: decodes_def)
qed

lemma rd_get_Cons: "rd_rest r = c # s \<Longrightarrow>
    rd_get r = (Inr (Some c), r\<lparr>rd_chars_read := Suc (rd_chars_read r), rd_current := Some c, rd_rest := s\<rparr>)"
  by (simp add: rd_get_def rd_next_def)

lemma rd_get_Nil: "rd_rest r = [] \<Longrightarrow>
    rd_get r = (Inr None, r\<lparr>rd_chars_read := Suc (rd_chars_read r), rd_current := None\<rparr>)"
  by (simp add: rd_get_def rd_next_def)

lemma decodes_get: "decodes_at c (f (Some c)) s x \<Longrightarrow> decodes (sbind rd_get f) (c # s) x"
  by (simp add: decodes_def decodes_at_def rd_get_Cons)

lemma decodes_at_current:
  "decodes_at c (f c) s x \<Longrightarrow> decodes_at c (sbind current_char f) s x"
  "decodes_at c (g (Some c)) s x \<Longrightarrow> decodes_at c (sbind rd_last g) s x"
  "decodes_at c (h ()) s x \<Longrightarrow> decodes_at c (sbind (check_eof False) h) s x"
  by (simp_all add: decodes_at_def current_char_def rd_last_def check_eof_def sbind_sread)

text \<open>One byte that the program only looks at.\<close>

lemma decodes_byte:
  assumes "decodes (f c) s x"
  shows "decodes (sbind rd_get (\<lambda>_. sbind (check_eof False) (\<lambda>_. sbind current_char f))) (c # s) x"
  by (intro decodes_get decodes_at_current decodes_at_weaken assms)

lemma number_loop_decodes:
  assumes "length s = k - i" and "i \<le> k" and "length vec = k"
  shows "decodes (number_loop M k i vec) s
    (if mc_little M then rev s @ drop (k - i) vec else take i vec @ s)"
  using assms
proof (induction s arbitrary: i vec)
  case Nil
  then have "i = k" by simp
  with Nil show ?case by (subst number_loop.simps) (simp add: decodes_intro)
next
  case (Cons c s)
  then have i: "i < k" by simp
  let ?vec = "if mc_little M then vec[k - i - 1 := c] else vec[i := c]"
  have "decodes (number_loop M k (Suc i) ?vec) s
      (if mc_little M then rev s @ drop (k - Suc i) ?vec else take (Suc i) ?vec @ s)"
    by (rule Cons.IH) (use Cons.prems i in auto)
  moreover have "drop (k - Suc i) (vec[k - i - 1 := c]) = c # drop (k - i) vec"
  proof -
    have "k - Suc i < length vec" using i Cons.prems(3) by simp
    from Cons_nth_drop_Suc [of "k - Suc i" "vec[k - i - 1 := c]"] this i show ?thesis
      by (simp add: Suc_diff_Suc)
  qed
  moreover have "take (Suc i) (vec[i := c]) = take i vec @ [c]"
    using i Cons.prems(3) by (simp add: take_Suc_conv_app_nth)
  ultimately have "decodes (number_loop M k (Suc i) ?vec) s
      (if mc_little M then rev (c # s) @ drop (k - i) vec else take i vec @ c # s)"
    by (simp split: if_splits)
  with i show ?case by (subst number_loop.simps) (simp add: decodes_byte)
qed

lemma decodes_number [decodes_intro]:
  assumes "n < 256 ^ k"
  shows "decodes (get_number M k) (write_number M k n) n"
proof -
  let ?s = "write_number M k n"
  have "decodes (number_loop M k 0 (replicate k (CHR 0x00))) ?s (if mc_little M then rev ?s else ?s)"
    using number_loop_decodes [of ?s k 0 "replicate k (CHR 0x00)" M] by (simp split: if_splits)
  moreover have "object_number (mc_little M) (if mc_little M then rev ?s else ?s) = n"
    by (simp add: object_number_def write_number_network le_number_bytes assms)
  ultimately show ?thesis
    unfolding get_number_def by (intro decodes_sbind [where t = "[]"]) (auto simp: decodes_intro)
qed

lemma string_loop_decodes: "decodes (string_loop (length s) t) s (t @ s)"
proof (induction s arbitrary: t)
  case (Cons c s)
  from Cons [of "t @ [c]"] show ?case by (simp add: decodes_byte)
qed (simp add: decodes_intro)

lemma decodes_chars [decodes_intro]: "decodes (get_chars (length s)) s s"
  using string_loop_decodes [of s "[]"] by (simp add: get_chars_def)

lemma byte_char_of: "b < 256 \<Longrightarrow> byte (char_of b) = b"
  by (simp add: byte_def)

lemma low_bits:
  fixes b n :: nat
  assumes "n < 2 ^ k" and "b mod 2 ^ k = 0"
  shows "(b + n) AND (2 ^ k - 1) = n" and "b OR n = b + n"
proof -
  have "(b + n) mod 2 ^ k = n" using assms mod_add_eq [of b "2 ^ k" n] by simp
  then show "(b + n) AND (2 ^ k - 1) = n" using take_bit_eq_mask [of k "b + n"]
    by (simp add: mask_eq_exp_minus_1 take_bit_eq_mod)
  have n: "take_bit k n = n" using assms(1) by (simp add: take_bit_eq_mod)
  have b: "take_bit k b = 0" using assms(2) by (simp add: take_bit_eq_mod)
  have "b AND n = take_bit k b AND n" by (metis n take_bit_and and.assoc and.commute take_bit_eq_mask and.idem)
  then have "b AND n = 0" using b by simp
  then show "b OR n = b + n" by (simp add: disjunctive_add_eq_or)
qed

lemma decodes_at_number:
  "n < 256 ^ k \<Longrightarrow> decodes (f n) s x \<Longrightarrow> decodes_at c (sbind (get_number M k) f) (write_number M k n @ s) x"
  by (rule decodes_at_weaken) (rule decodes_sbind [OF decodes_number _ refl])

lemma decodes_at_number_only:
  "n < 256 ^ k \<Longrightarrow> decodes (f n) [] x \<Longrightarrow> decodes_at c (sbind (get_number M k) f) (write_number M k n) x"
  using decodes_at_number [of n k f "[]"] by simp

lemma decodes_at_chars:
  "length s = n \<Longrightarrow> decodes_at c (get_chars n) s s"
  "length s = n \<Longrightarrow> n < 256 ^ k \<Longrightarrow> decodes_at c (sbind (get_number M k) get_chars) (write_number M k n @ s) s"
  using decodes_chars [of s] by (auto intro: decodes_at_weaken decodes_at_number)

section \<open>How much is read\<close>

text \<open>
  With at most \<open>N\<close> bytes left a program throws an exception of the library or returns after it has taken
  at least \<open>k\<close> bytes; in particular it returns.
\<close>

definition took :: "nat \<Rightarrow> reader \<Rightarrow> 'a outcome \<times> reader \<Rightarrow> bool" where
  "took k r x \<longleftrightarrow> (case fst x of
     Inl e \<Rightarrow> (\<exists>w. e = StdError w)
   | Inr _ \<Rightarrow> length (rd_rest (snd x)) + k \<le> length (rd_rest r))"

definition eats :: "nat \<Rightarrow> (reader, 'a) sm \<Rightarrow> nat \<Rightarrow> bool" where
  "eats N m k \<longleftrightarrow> (\<forall>r. length (rd_rest r) \<le> N \<longrightarrow> took k r (m r))"

named_theorems eats_intro \<open>how much the operations of the reader read\<close>

lemma eatsD: "eats N m k \<Longrightarrow> length (rd_rest r) \<le> N \<Longrightarrow> took k r (m r)"
  by (simp add: eats_def)

lemma took_after: "took k r1 x \<Longrightarrow> length (rd_rest r1) + j \<le> length (rd_rest r) \<Longrightarrow> l \<le> j + k \<Longrightarrow> took l r x"
  by (auto simp: took_def split: sum.splits)

lemma eats_le: "eats N m k \<Longrightarrow> j \<le> k \<Longrightarrow> eats N m j"
  unfolding eats_def
proof (intro allI impI)
  fix r :: reader
  assume "\<forall>r. length (rd_rest r) \<le> N \<longrightarrow> took k r (m r)" "j \<le> k" "length (rd_rest r) \<le> N"
  then show "took j r (m r)" using took_after [of k r "m r" 0 r j] by simp
qed

lemma eats_sret [eats_intro]: "eats N (sret x) 0"
  by (simp add: eats_def sret_def took_def)

lemma eats_throw [eats_intro]: "eats N (sread (\<lambda>r. Inl (parse_error i (p r) (w r)))) k"
  by (simp add: eats_def parse_error_def took_def)

lemma eats_sbind:
  assumes m: "eats N m j" and f: "\<And>x. j \<le> N \<Longrightarrow> eats (N - j) (f x) k"
  shows "eats N (sbind m f) (j + k)"
  unfolding eats_def
proof (intro allI impI)
  fix r :: reader
  assume N: "length (rd_rest r) \<le> N"
  obtain y r1 where r1: "m r = (y, r1)" by (metis surj_pair)
  show "took (j + k) r (sbind m f r)"
  proof (cases y)
    case (Inl e)
    with eatsD [OF m N] r1 show ?thesis by (simp add: took_def)
  next
    case (Inr x)
    with eatsD [OF m N] r1 have l: "length (rd_rest r1) + j \<le> length (rd_rest r)" by (simp add: took_def)
    with N have "j \<le> N" "length (rd_rest r1) \<le> N - j" by simp_all
    from took_after [OF eatsD [OF f [OF this(1)] this(2)] l] r1 Inr show ?thesis by simp
  qed
qed

lemma eats_then:
  "eats N m j \<Longrightarrow> (\<And>x. j \<le> N \<Longrightarrow> eats (N - j) (f x) k) \<Longrightarrow> l \<le> j + k \<Longrightarrow> eats N (sbind m f) l"
  by (rule eats_le [OF eats_sbind])

lemma eats_sbind_0: "eats N m j \<Longrightarrow> (\<And>x. eats (N - j) (f x) 0) \<Longrightarrow> eats N (sbind m f) j"
  using eats_sbind [of N m j f 0] by simp

lemma eats_get:
  assumes "\<And>c. 0 < N \<Longrightarrow> eats (N - 1) (f (Some c)) k"
    and "\<And>r. rd_rest r = [] \<Longrightarrow> rd_current r = None \<Longrightarrow> \<exists>w. fst (f None r) = Inl (StdError w)"
  shows "eats N (sbind rd_get f) (Suc k)"
  unfolding eats_def
proof (intro allI impI)
  fix r :: reader
  assume N: "length (rd_rest r) \<le> N"
  show "took (Suc k) r (sbind rd_get f r)"
  proof (cases "rd_rest r")
    case Nil
    with assms(2) [of "r\<lparr>rd_chars_read := Suc (rd_chars_read r), rd_current := None\<rparr>"]
    show ?thesis by (auto simp: rd_get_Nil took_def)
  next
    case (Cons c s)
    let ?r = "r\<lparr>rd_chars_read := Suc (rd_chars_read r), rd_current := Some c, rd_rest := s\<rparr>"
    have "took k ?r (f (Some c) ?r)" using N Cons by (intro eatsD [OF assms(1)]) simp_all
    from took_after [OF this, of 1 r] Cons show ?thesis by (simp add: rd_get_Cons)
  qed
qed

text \<open>A test for the end of the input right after a byte was asked for.\<close>

lemma eats_byte:
  assumes "\<And>c. 0 < N \<Longrightarrow> eats (N - 1) (f c) k" and "l \<le> Suc k"
  shows "eats N (sbind rd_get (\<lambda>_. sbind (check_eof False) (\<lambda>_. sbind current_char f))) l"
  unfolding eats_def
proof (intro allI impI)
  fix r :: reader
  assume N: "length (rd_rest r) \<le> N"
  let ?m = "sbind rd_get (\<lambda>_. sbind (check_eof False) (\<lambda>_. sbind current_char f))"
  show "took l r (?m r)"
  proof (cases "rd_rest r")
    case Nil
    then show ?thesis
      by (simp add: rd_get_Nil sbind_sread check_eof_def unexpected_end_def parse_error_def took_def)
  next
    case (Cons c s)
    let ?r = "r\<lparr>rd_chars_read := Suc (rd_chars_read r), rd_current := Some c, rd_rest := s\<rparr>"
    have "?m r = f c ?r" using Cons by (simp add: rd_get_Cons sbind_sread check_eof_def current_char_def)
    moreover have "took k ?r (f c ?r)" using N Cons by (intro eatsD [OF assms(1)]) simp_all
    ultimately show ?thesis using took_after [of k ?r _ 1 r l] Cons assms(2) by simp
  qed
qed

lemma number_loop_eats: "eats N (number_loop M k i vec) (k - i)"
proof (induction M k i vec arbitrary: N rule: number_loop.induct)
  case (1 M k i vec)
  show ?case
  proof (cases "i < k")
    case True
    have "eats N (number_loop M k i vec) (Suc (k - Suc i))"
      using True by (subst number_loop.simps) (simp add: eats_byte [OF 1])
    with True show ?thesis by (simp add: Suc_diff_Suc)
  next
    case False
    then show ?thesis by (subst number_loop.simps) (simp add: eats_intro)
  qed
qed

lemma eats_number [eats_intro]: "eats N (get_number M k) 0"
  unfolding get_number_def
  by (rule eats_le [OF eats_sbind_0 [OF number_loop_eats]]) (simp_all add: eats_intro)

lemma string_loop_eats: "eats N (string_loop len s) 0"
proof (induction len arbitrary: N s)
  case (Suc len)
  then show ?case by (simp add: eats_byte [where k = 0])
qed (simp add: eats_intro)

lemma eats_chars [eats_intro]: "eats N (get_chars len) 0"
  by (simp add: get_chars_def string_loop_eats)

lemma eats_rd_get [eats_intro]: "eats N rd_get 0"
  by (simp add: eats_def took_def rd_get_def rd_next_def split: list.split)

lemma eats_current [eats_intro]:
  "eats N current_char 0" "eats N (check_eof b) 0" "eats N rd_last 0"
  by (simp_all add: eats_def took_def current_char_def check_eof_def unexpected_end_def parse_error_def rd_last_def)

lemma eats_last_byte_error [eats_intro]: "eats N (last_byte_error i w b) k"
  by (simp add: last_byte_error_def eats_intro)

lemma eats_if [eats_intro]: "eats N m k \<Longrightarrow> eats N m' k \<Longrightarrow> eats N (if b then m else m') k"
  by simp

section \<open>The public interface\<close>

text \<open>Both formats check for the end of the input in the same way.\<close>

definition read_strict :: "bool \<Rightarrow> (reader, json) sm \<Rightarrow> (reader, json) sm" where
  "read_strict strict m =
     sbind m (\<lambda>res. if strict then sbind rd_get (\<lambda>_. sbind (check_eof True) (\<lambda>_. sret res)) else sret res)"

text \<open>The depth to which the recursion of the readers can go.\<close>

definition binary_fuel :: "string \<Rightarrow> nat" where "binary_fuel b = 2 * length b + 4"

lemma binary_fuel_Suc: "binary_fuel b = Suc (Suc (Suc (Suc (2 * length b))))"
  by (simp add: binary_fuel_def)

lemma read_strict_returns:
  assumes "\<And>N. 2 * N + 4 \<le> n \<Longrightarrow> eats N m k" and "n = binary_fuel b"
  shows "std_outcome (fst (read_strict strict m (reader_new b)))"
proof -
  have "length (rd_rest (reader_new b)) \<le> length b" by (simp add: reader_new_def input_adapter_le)
  moreover have "eats (length b) (read_strict strict m) 0"
    unfolding read_strict_def
    by (rule eats_then [OF assms(1), where k = 0])
      (simp_all add: assms(2) binary_fuel_def eats_if eats_sbind_0 eats_intro)
  ultimately show ?thesis
    by (auto simp: std_outcome_def took_def dest!: eatsD split: sum.splits)
qed

text \<open>A whole text, without the bytes of a byte order mark at its start.\<close>

lemma read_strict_decodes:
  assumes "decodes m b x" and "input_adapter b = b"
  shows "fst (read_strict strict m (reader_new b)) = Inr x"
proof -
  have "rd_rest (reader_new b) = b @ []" by (simp add: reader_new_def assms(2))
  with assms(1) obtain r where "m (reader_new b) = (Inr x, r)" "rd_rest r = []" unfolding decodes_def by blast
  then show ?thesis by (simp add: read_strict_def rd_get_Nil check_eof_def sbind_sread sret_def)
qed

section \<open>Values that can be written\<close>

text \<open>
  The values that can be in memory, with fewer than \<open>L\<close> elements, members and bytes at each place, and
  with numbers in IEEE 754 as the machine has them.
\<close>

fun binary_ok :: "machine \<Rightarrow> nat \<Rightarrow> json \<Rightarrow> bool"
  and elements_binary_ok :: "machine \<Rightarrow> nat \<Rightarrow> json list \<Rightarrow> bool"
  and members_binary_ok :: "machine \<Rightarrow> nat \<Rightarrow> (string \<times> json) list \<Rightarrow> bool" where
  "binary_ok M L (JArray vs) = (length vs < L \<and> elements_binary_ok M L vs)"
| "binary_ok M L (JObject kvs) = (length kvs < L \<and> obj_wf kvs \<and> members_binary_ok M L kvs)"
| "binary_ok M L (JString s) = (length s < L)"
| "binary_ok M L (JInt i) = (- (2 ^ 63) \<le> i \<and> i < 2 ^ 63)"
| "binary_ok M L (JUnsigned i) = (0 \<le> i \<and> i < 2 ^ 64)"
| "binary_ok M L (JFloat d) = (mc_double M d < 2 ^ 64 \<and> double_of (mc_double M d) = d)"
| "binary_ok M L JNull = True"
| "binary_ok M L (JBool b) = True"
| "elements_binary_ok M L [] = True"
| "elements_binary_ok M L (v # vs) = (binary_ok M L v \<and> elements_binary_ok M L vs)"
| "members_binary_ok M L [] = True"
| "members_binary_ok M L ((k, v) # kvs) = (length k < L \<and> binary_ok M L v \<and> members_binary_ok M L kvs)"

section \<open>Half-precision numbers\<close>

lemma ldexp_25: "ldexp x (int e - 25) = Dbl False (of_nat x * 2 ^ e / 2 ^ 25)"
proof (cases "25 \<le> e")
  case True
  then obtain d where "e = d + 25" by (metis le_Suc_ex add.commute)
  then show ?thesis by (simp add: ldexp_def power_add)
next
  case False
  then obtain d where d: "25 = e + Suc d" by (metis less_imp_Suc_add not_le add_Suc_right)
  then have "(2 :: rat) ^ 25 = 2 ^ e * 2 ^ Suc d" by (metis power_add)
  then have "(2 :: rat) ^ e / 2 ^ 25 = 1 / 2 ^ Suc d" by (simp only: nonzero_divide_mult_cancel_left [of "2 ^ e"] power_not_zero) simp
  moreover have "nat (25 - int e) = Suc d" "int e < 25" using d by linarith+
  ultimately show ?thesis by (simp add: ldexp_def del: power_Suc flip: times_divide_eq_right)
qed

text \<open>What the decoder computes from two bytes is the number of the interchange format.\<close>

theorem half_float_ieee:
  assumes "b1 < 256" and "b2 < 256"
  shows "half_float b1 b2 = ieee 5 10 (256 * b1 + b2)"
proof -
  define h where "h = 256 * b1 + b2"
  have h: "push_bit 8 b1 + b2 = h" "h < 2 ^ 16" using assms by (simp_all add: h_def push_bit_eq_mult)
  have ex: "drop_bit 10 h AND 0x1F = h div 2 ^ 10 mod 2 ^ 5"
    using take_bit_eq_mask [of 5 "drop_bit 10 h"] by (simp add: mask_eq_exp_minus_1 drop_bit_eq_div take_bit_eq_mod)
  have mant: "h AND 0x3FF = h mod 2 ^ 10"
    using take_bit_eq_mask [of 10 h] by (simp add: mask_eq_exp_minus_1 take_bit_eq_mod)
  have neg: "h AND 0x8000 \<noteq> 0 \<longleftrightarrow> odd (h div 2 ^ 15)"
    using and_exp_eq_0_iff_not_bit [of h 15] by (simp add: bit_iff_odd)
  let ?ex = "h div 2 ^ 10 mod 2 ^ 5" and ?m = "h mod 2 ^ 10"
  show ?thesis
    unfolding half_float_def ieee_def h(1) ex mant neg h_def [symmetric] Let_def ldexp_25
    by (simp add: ldexp_def add.commute)
qed

end
