(* ===== verification/Cbor.thy ===== *)
theory Cbor
  imports Binary JsonRoundTrip
begin

text \<open>
  CBOR in \<^verbatim>\<open>src/json.hpp\<close>: \<open>write_cbor\<close> of the class \<open>binary_writer\<close>, \<open>parse_cbor_internal\<close> of
  \<open>binary_reader\<close>, and the round trip between them.  Fuel bounds the recursion of the reader;
  \<open>binary_fuel\<close> is enough for every input.
\<close>

section \<open>Writing\<close>

text \<open>The control byte of the major type \<open>b\<close> and a number: the same five cases for every type.\<close>

definition cbor_head :: "machine \<Rightarrow> nat \<Rightarrow> nat \<Rightarrow> string" where
  "cbor_head M b n =
     (if n \<le> 0x17 then write_number M 1 (b + n)
      else if n \<le> 0xFF then char_of (b + 0x18) # write_number M 1 n
      else if n \<le> 0xFFFF then char_of (b + 0x19) # write_number M 2 n
      else if n \<le> 0xFFFFFFFF then char_of (b + 0x1A) # write_number M 4 n
      else char_of (b + 0x1B) # write_number M 8 n)"

definition cbor_integer :: "machine \<Rightarrow> int \<Rightarrow> string" where
  "cbor_integer M i =
     (if 0 \<le> i then cbor_head M 0x00 (nat i)
      else let positive_number = - 1 - i in cbor_head M 0x20 (nat positive_number))"

definition cbor_float :: "machine \<Rightarrow> dbl \<Rightarrow> string" where
  "cbor_float M d = CHR 0xFB # write_number M 8 (mc_double M d)"

definition cbor_string :: "machine \<Rightarrow> string \<Rightarrow> string" where
  "cbor_string M s = cbor_head M 0x60 (length s) @ s"

fun write_cbor :: "machine \<Rightarrow> json \<Rightarrow> string"
  and write_cbor_elements :: "machine \<Rightarrow> json list \<Rightarrow> string"
  and write_cbor_members :: "machine \<Rightarrow> (string \<times> json) list \<Rightarrow> string" where
  "write_cbor M (JArray vs) = cbor_head M 0x80 (length vs) @ write_cbor_elements M vs"
| "write_cbor M (JObject kvs) = cbor_head M 0xA0 (length kvs) @ write_cbor_members M kvs"
| "write_cbor M JNull = [CHR 0xF6]"
| "write_cbor M (JBool b) = [if b then CHR 0xF5 else CHR 0xF4]"
| "write_cbor M (JInt i) = cbor_integer M i"
| "write_cbor M (JUnsigned i) = cbor_head M 0x00 (nat i)"
| "write_cbor M (JFloat d) = cbor_float M d"
| "write_cbor M (JString s) = cbor_string M s"
| "write_cbor_elements M [] = []"
| "write_cbor_elements M (v # vs) = write_cbor M v @ write_cbor_elements M vs"
| "write_cbor_members M [] = []"
| "write_cbor_members M ((k, v) # kvs) = cbor_string M k @ write_cbor M v @ write_cbor_members M kvs"

definition to_cbor :: "machine \<Rightarrow> json \<Rightarrow> string" where
  "to_cbor M j = write_cbor M j"

section \<open>Reading\<close>

text \<open>A string of indefinite length: everything up to the next \<open>0xFF\<close>.\<close>

function cbor_text :: "string \<Rightarrow> (reader, string) sm" where
  "cbor_text result r =
     (let r1 = rd_next r
      in if rd_current r1 = Some (CHR 0xFF) then (Inr result, r1)
         else case rd_current r1 of
           None \<Rightarrow> (Inl (unexpected_end r1), r1)
         | Some c \<Rightarrow> cbor_text (result @ [c]) r1)"
  by pat_completeness auto

termination
  by (relation "measure (\<lambda>(result, r). length (rd_rest r))") (auto simp: rd_next_def split: list.splits)

declare cbor_text.simps [simp del]

definition get_cbor_string :: "machine \<Rightarrow> (reader, string) sm" where
  "get_cbor_string M =
     sbind (check_eof False) (\<lambda>_.
     sbind current_char (\<lambda>c.
       let b = byte c
       in if 0x60 \<le> b \<and> b \<le> 0x77 then get_chars (b AND 0x1F)
          else if b = 0x78 then sbind (get_number M 1) get_chars
          else if b = 0x79 then sbind (get_number M 2) get_chars
          else if b = 0x7A then sbind (get_number M 4) get_chars
          else if b = 0x7B then sbind (get_number M 8) get_chars
          else if b = 0x7F then cbor_text []
          else last_byte_error 113 ''expected a CBOR string'' b))"

text \<open>Integers; a byte string, a tag and the other simple values are not supported.\<close>

definition cbor_number :: "machine \<Rightarrow> nat \<Rightarrow> (reader, json) sm" where
  "cbor_number M b =
     (if b \<le> 0x17 then sret (JUnsigned (int b))
      else if b = 0x18 then sbind (get_number M 1) (\<lambda>n. sret (JUnsigned (int n)))
      else if b = 0x19 then sbind (get_number M 2) (\<lambda>n. sret (JUnsigned (int n)))
      else if b = 0x1A then sbind (get_number M 4) (\<lambda>n. sret (JUnsigned (int n)))
      else if b = 0x1B then sbind (get_number M 8) (\<lambda>n. sret (JUnsigned (int n)))
      else if 0x20 \<le> b \<and> b \<le> 0x37 then sret (JInt (0x20 - 1 - int b))
      else if b = 0x38 then sbind (get_number M 1) (\<lambda>n. sret (JInt (- 1 - int n)))
      else if b = 0x39 then sbind (get_number M 2) (\<lambda>n. sret (JInt (- 1 - int n)))
      else if b = 0x3A then sbind (get_number M 4) (\<lambda>n. sret (JInt (- 1 - int n)))
      else if b = 0x3B then sbind (get_number M 8) (\<lambda>n. sret (JInt (- 1 - to_int64 (int n))))
      else last_byte_error 112 ''error reading CBOR'' b)"

definition cbor_half :: "(reader, json) sm" where
  "cbor_half =
     sbind rd_get (\<lambda>_. sbind (check_eof False) (\<lambda>_. sbind current_char (\<lambda>byte1.
     sbind rd_get (\<lambda>_. sbind (check_eof False) (\<lambda>_. sbind current_char (\<lambda>byte2.
       sret (JFloat (half_float (byte byte1) (byte byte2)))))))))"

definition cbor_scalar :: "machine \<Rightarrow> nat \<Rightarrow> (reader, json) sm" where
  "cbor_scalar M b =
     (if 0x60 \<le> b \<and> b \<le> 0x7B \<or> b = 0x7F then sbind (get_cbor_string M) (\<lambda>s. sret (JString s))
      else if b = 0xF4 then sret (JBool False)
      else if b = 0xF5 then sret (JBool True)
      else if b = 0xF6 then sret JNull
      else if b = 0xF9 then cbor_half
      else if b = 0xFA then sbind (get_number M 4) (\<lambda>x. sret (JFloat (float_of x)))
      else if b = 0xFB then sbind (get_number M 8) (\<lambda>x. sret (JFloat (double_of x)))
      else cbor_number M b)"

text \<open>A key: the callback of \<open>get_cbor_object\<close> decodes its control byte first.\<close>

definition cbor_key :: "machine \<Rightarrow> (reader, string) sm" where
  "cbor_key M = sbind rd_get (\<lambda>_. get_cbor_string M)"

text \<open>Arrays and maps, of a given length and of indefinite length: the first keep the first value of a
  repeated key, the others the last.\<close>

function parse_cbor :: "machine \<Rightarrow> nat \<Rightarrow> bool \<Rightarrow> (reader, json) sm"
  and cbor_value :: "machine \<Rightarrow> nat \<Rightarrow> nat \<Rightarrow> (reader, json) sm"
  and cbor_array :: "machine \<Rightarrow> nat \<Rightarrow> nat \<Rightarrow> json list \<Rightarrow> (reader, json) sm"
  and cbor_object :: "machine \<Rightarrow> nat \<Rightarrow> nat \<Rightarrow> (string \<times> json) list \<Rightarrow> (reader, json) sm"
  and cbor_items :: "machine \<Rightarrow> nat \<Rightarrow> json list \<Rightarrow> (reader, json) sm"
  and cbor_entries :: "machine \<Rightarrow> nat \<Rightarrow> (string \<times> json) list \<Rightarrow> (reader, json) sm" where
  "parse_cbor M 0 get_char = sthrow Diverges"
| "parse_cbor M (Suc n) get_char =
     sbind (if get_char then rd_get else rd_last) (\<lambda>current.
       case current of
         None \<Rightarrow> sread (\<lambda>r. Inl (unexpected_end r))
       | Some c \<Rightarrow> cbor_value M n (byte c))"
| "cbor_value M n b =
     (if 0x80 \<le> b \<and> b \<le> 0x97 then cbor_array M n (b AND 0x1F) []
      else if b = 0x98 then sbind (get_number M 1) (\<lambda>len. cbor_array M n len [])
      else if b = 0x99 then sbind (get_number M 2) (\<lambda>len. cbor_array M n len [])
      else if b = 0x9A then sbind (get_number M 4) (\<lambda>len. cbor_array M n len [])
      else if b = 0x9B then sbind (get_number M 8) (\<lambda>len. cbor_array M n len [])
      else if b = 0x9F then cbor_items M n []
      else if 0xA0 \<le> b \<and> b \<le> 0xB7 then cbor_object M n (b AND 0x1F) []
      else if b = 0xB8 then sbind (get_number M 1) (\<lambda>len. cbor_object M n len [])
      else if b = 0xB9 then sbind (get_number M 2) (\<lambda>len. cbor_object M n len [])
      else if b = 0xBA then sbind (get_number M 4) (\<lambda>len. cbor_object M n len [])
      else if b = 0xBB then sbind (get_number M 8) (\<lambda>len. cbor_object M n len [])
      else if b = 0xBF then cbor_entries M n []
      else cbor_scalar M b)"
| "cbor_array M 0 len vs = sthrow Diverges"
| "cbor_array M (Suc n) len vs =
     (if len = 0 then sret (JArray vs)
      else sbind (parse_cbor M n True) (\<lambda>v. cbor_array M n (len - 1) (vs @ [v])))"
| "cbor_object M 0 len kvs = sthrow Diverges"
| "cbor_object M (Suc n) len kvs =
     (if len = 0 then sret (JObject kvs)
      else sbind (cbor_key M) (\<lambda>key.
           sbind (parse_cbor M n True) (\<lambda>val. cbor_object M n (len - 1) (obj_emplace key val kvs))))"
| "cbor_items M 0 vs = sthrow Diverges"
| "cbor_items M (Suc n) vs =
     sbind rd_get (\<lambda>c.
       if c = Some (CHR 0xFF) then sret (JArray vs)
       else sbind (parse_cbor M n False) (\<lambda>v. cbor_items M n (vs @ [v])))"
| "cbor_entries M 0 kvs = sthrow Diverges"
| "cbor_entries M (Suc n) kvs =
     sbind rd_get (\<lambda>c.
       if c = Some (CHR 0xFF) then sret (JObject kvs)
       else sbind (get_cbor_string M) (\<lambda>key.
            sbind (parse_cbor M n True) (\<lambda>val. cbor_entries M n (obj_put key val kvs))))"
  by pat_completeness auto

termination
  by (relation "measure (\<lambda>c. case c of
      Inl (Inl (M, n, g)) \<Rightarrow> 2 * n
    | Inl (Inr (Inl (M, n, b))) \<Rightarrow> 2 * n + 1
    | Inl (Inr (Inr (M, n, len, vs))) \<Rightarrow> 2 * n
    | Inr (Inl (M, n, len, kvs)) \<Rightarrow> 2 * n
    | Inr (Inr (Inl (M, n, vs))) \<Rightarrow> 2 * n
    | Inr (Inr (Inr (M, n, kvs))) \<Rightarrow> 2 * n)") simp_all

declare cbor_value.simps [simp del]

definition from_cbor :: "machine \<Rightarrow> bool \<Rightarrow> string \<Rightarrow> json outcome" where
  "from_cbor M strict b = fst (read_strict strict (parse_cbor M (binary_fuel b) True) (reader_new b))"

section \<open>The reader always returns\<close>

lemma rd_next_le: "length (rd_rest (rd_next r)) \<le> length (rd_rest r)"
  by (simp add: rd_next_def split: list.split)

lemma eats_text [eats_intro]: "eats N (cbor_text s) 0"
proof -
  have "took 0 r (cbor_text s r)" for r
  proof (induction s r rule: cbor_text.induct)
    case (1 s r)
    show ?case
    proof (cases "rd_current (rd_next r) = Some (CHR 0xFF)")
      case True
      with rd_next_le [of r] show ?thesis by (subst cbor_text.simps) (simp add: took_def Let_def)
    next
      case False
      then show ?thesis
        using 1 [OF refl False] rd_next_le [of r]
        by (subst cbor_text.simps)
          (auto simp: took_def Let_def unexpected_end_def parse_error_def split: option.splits sum.splits)
    qed
  qed
  then show ?thesis by (simp add: eats_def)
qed

lemma eats_cbor_string: "eats N (get_cbor_string M) 0"
  unfolding get_cbor_string_def Let_def by (intro eats_intro eats_sbind_0)

lemma eats_cbor_key: "eats N (cbor_key M) 1"
  unfolding cbor_key_def One_nat_def
proof (rule eats_get)
  show "eats (N - 1) (get_cbor_string M) 0" by (rule eats_cbor_string)
qed (simp add: get_cbor_string_def sbind_sread check_eof_def unexpected_end_def parse_error_def)

lemma eats_cbor_half: "eats N cbor_half 0"
  unfolding cbor_half_def by (intro eats_byte [where k = 0] eats_sret) simp_all

lemma eats_cbor_scalar: "eats N (cbor_scalar M b) 0"
  unfolding cbor_scalar_def cbor_number_def
  by (intro eats_intro eats_sbind_0 eats_cbor_string eats_cbor_half)

lemma eats_cbor_value:
  assumes "\<And>N len vs. 2 * N + 3 \<le> n \<Longrightarrow> eats N (cbor_array M n len vs) 0"
    and "\<And>N len kvs. 2 * N + 3 \<le> n \<Longrightarrow> eats N (cbor_object M n len kvs) 0"
    and "\<And>N vs. 2 * N + 3 \<le> n \<Longrightarrow> eats N (cbor_items M n vs) 0"
    and "\<And>N kvs. 2 * N + 3 \<le> n \<Longrightarrow> eats N (cbor_entries M n kvs) 0"
    and "2 * N + 3 \<le> n"
  shows "eats N (cbor_value M n b) 0"
  unfolding cbor_value.simps
  by (intro eats_if eats_sbind_0 eats_number eats_cbor_scalar assms)
    (use assms(5) in simp_all)

lemma eats_cbor:
  "(\<forall>N. 2 * N + 2 \<le> n \<longrightarrow> eats N (parse_cbor M n True) 1) \<and>
   (\<forall>N. 2 * N + 4 \<le> n \<longrightarrow> eats N (parse_cbor M n False) 0) \<and>
   (\<forall>N len vs. 2 * N + 3 \<le> n \<longrightarrow> eats N (cbor_array M n len vs) 0) \<and>
   (\<forall>N len kvs. 2 * N + 3 \<le> n \<longrightarrow> eats N (cbor_object M n len kvs) 0) \<and>
   (\<forall>N vs. 2 * N + 3 \<le> n \<longrightarrow> eats N (cbor_items M n vs) 0) \<and>
   (\<forall>N kvs. 2 * N + 3 \<le> n \<longrightarrow> eats N (cbor_entries M n kvs) 0)"
proof (induction n)
  case (Suc n)
  then have IH: "2 * N + 2 \<le> n \<Longrightarrow> eats N (parse_cbor M n True) 1"
    "2 * N + 4 \<le> n \<Longrightarrow> eats N (parse_cbor M n False) 0"
    "2 * N + 3 \<le> n \<Longrightarrow> eats N (cbor_array M n len vs) 0"
    "2 * N + 3 \<le> n \<Longrightarrow> eats N (cbor_object M n len kvs) 0"
    "2 * N + 3 \<le> n \<Longrightarrow> eats N (cbor_items M n vs) 0"
    "2 * N + 3 \<le> n \<Longrightarrow> eats N (cbor_entries M n kvs) 0" for N len vs kvs by blast+
  note val = eats_cbor_value [OF IH(3-6)]
  have "eats N (parse_cbor M (Suc n) True) 1" if "2 * N + 2 \<le> Suc n" for N
    unfolding parse_cbor.simps if_True One_nat_def
    by (rule eats_get) (use that in \<open>simp_all add: val unexpected_end_def parse_error_def\<close>)
  moreover have "eats N (parse_cbor M (Suc n) False) 0" if "2 * N + 4 \<le> Suc n" for N
  proof -
    have "eats N (case c of None \<Rightarrow> sread (\<lambda>r. Inl (unexpected_end r)) | Some c \<Rightarrow> cbor_value M n (byte c)) 0" for c
      using that by (cases c) (simp_all add: val unexpected_end_def eats_throw)
    then show ?thesis unfolding parse_cbor.simps by (simp add: eats_sbind_0 eats_current)
  qed
  moreover have "eats N (cbor_array M (Suc n) len vs) 0" if N: "2 * N + 3 \<le> Suc n" for N len vs
  proof -
    have "eats N (sbind (parse_cbor M n True) (\<lambda>v. cbor_array M n (len - 1) (vs @ [v]))) 0"
      by (rule eats_then [OF IH(1) IH(3)]) (use N in simp_all)
    then show ?thesis by (simp add: eats_sret)
  qed
  moreover have "eats N (cbor_object M (Suc n) len kvs) 0" if N: "2 * N + 3 \<le> Suc n" for N len kvs
  proof -
    have "eats N (sbind (cbor_key M) (\<lambda>key.
        sbind (parse_cbor M n True) (\<lambda>val. cbor_object M n (len - 1) (obj_emplace key val kvs)))) 0"
      by (rule eats_then [OF eats_cbor_key eats_then [OF IH(1) IH(4), where l = 0]]) (use N in simp_all)
    then show ?thesis by (simp add: eats_sret)
  qed
  moreover have "eats N (cbor_items M (Suc n) vs) 0" if N: "2 * N + 3 \<le> Suc n" for N vs
  proof -
    obtain m where m: "n = Suc m" using N by (cases n) auto
    have "eats N (cbor_items M (Suc n) vs) (Suc 0)"
      unfolding cbor_items.simps
    proof (rule eats_get)
      show "eats (N - 1) (if Some c = Some (CHR 0xFF) then sret (JArray vs)
          else sbind (parse_cbor M n False) (\<lambda>v. cbor_items M n (vs @ [v]))) 0" if "0 < N" for c
        by (rule eats_if [OF eats_sret eats_sbind_0 [OF IH(2) IH(5)]]) (use N that in simp_all)
    qed (simp add: m rd_last_def sbind_sread unexpected_end_def parse_error_def)
    then show ?thesis by (rule eats_le) simp
  qed
  moreover have "eats N (cbor_entries M (Suc n) kvs) 0" if N: "2 * N + 3 \<le> Suc n" for N kvs
  proof -
    have "eats N (cbor_entries M (Suc n) kvs) (Suc 0)"
      unfolding cbor_entries.simps
    proof (rule eats_get)
      show "eats (N - 1) (if Some c = Some (CHR 0xFF) then sret (JObject kvs)
          else sbind (get_cbor_string M) (\<lambda>key.
            sbind (parse_cbor M n True) (\<lambda>val. cbor_entries M n (obj_put key val kvs)))) 0" if "0 < N" for c
        by (intro eats_if eats_sret eats_sbind_0 [OF eats_cbor_string] eats_then [OF IH(1) IH(6)])
          (use N that in simp_all)
    qed (simp add: get_cbor_string_def sbind_sread check_eof_def unexpected_end_def parse_error_def)
    then show ?thesis by (rule eats_le) simp
  qed
  ultimately show ?case by blast
qed simp

text \<open>Reading CBOR ends on every input, with a value or an exception of the library.\<close>

theorem from_cbor_returns: "std_outcome (from_cbor M strict b)"
  unfolding from_cbor_def
proof (rule read_strict_returns [OF _ refl])
  show "eats N (parse_cbor M (binary_fuel b) True) 1" if "2 * N + 4 \<le> binary_fuel b" for N
    by (rule eats_cbor [THEN conjunct1, rule_format]) (use that in simp)
qed

section \<open>Reading back what was written\<close>

lemma cbor_head_cases:
  assumes "n < 2 ^ 64"
  obtains (tiny) "n \<le> 0x17" "cbor_head M b n = [char_of (b + n)]"
  | (one) "n < 256 ^ 1" "cbor_head M b n = char_of (b + 0x18) # write_number M 1 n"
  | (two) "n < 256 ^ 2" "cbor_head M b n = char_of (b + 0x19) # write_number M 2 n"
  | (four) "n < 256 ^ 4" "cbor_head M b n = char_of (b + 0x1A) # write_number M 4 n"
  | (eight) "n < 256 ^ 8" "cbor_head M b n = char_of (b + 0x1B) # write_number M 8 n"
  using assms unfolding cbor_head_def
  by (cases "n \<le> 0x17"; cases "n \<le> 0xFF"; cases "n \<le> 0xFFFF"; cases "n \<le> 0xFFFFFFFF")
    (simp_all add: write_number_network)

text \<open>The reader gets the value back from the text, which it enters with the first byte.\<close>

definition cbor_back :: "machine \<Rightarrow> nat \<Rightarrow> string \<Rightarrow> json \<Rightarrow> bool" where
  "cbor_back M m w x \<longleftrightarrow> (\<exists>c s. w = c # s \<and> decodes_at c (cbor_value M m (byte c)) s x)"

lemma cbor_back_parse: "cbor_back M m w x \<Longrightarrow> decodes (parse_cbor M (Suc m) True) w x"
  by (auto simp: cbor_back_def intro!: decodes_get)

lemmas cbor_leaf = cbor_back_def cbor_value.simps cbor_scalar_def cbor_number_def byte_char_of decodes_at_number_only
  decodes_sret decodes_at_weaken [OF decodes_sret]

lemma cbor_back_unsigned: "n < 2 ^ 64 \<Longrightarrow> cbor_back M m (cbor_head M 0x00 n) (JUnsigned (int n))"
  by (rule cbor_head_cases [where n = n and M = M and b = "0x00"]) (simp_all add: cbor_leaf)

lemma cbor_back_negative: "n < 2 ^ 63 \<Longrightarrow> cbor_back M m (cbor_head M 0x20 n) (JInt (- 1 - int n))"
  by (rule cbor_head_cases [where n = n and M = M and b = "0x20"]) (simp_all add: cbor_leaf)

lemma cbor_back_integer:
  assumes "- (2 ^ 63) \<le> i" and "i < 2 ^ 63"
  shows "cbor_back M m (cbor_integer M i) (reparsed (JInt i))"
proof (cases "0 \<le> i")
  case True
  then show ?thesis using assms cbor_back_unsigned [of "nat i" M m] by (simp add: cbor_integer_def nat_less_iff)
next
  case False
  then have "int (nat (- 1 - i)) = - 1 - i" "nat (- 1 - i) < 2 ^ 63" using assms by (simp_all add: nat_less_iff)
  then show ?thesis using False cbor_back_negative [of "nat (- 1 - i)" M m] by (simp add: cbor_integer_def)
qed

lemma cbor_string_back:
  assumes "length s < 2 ^ 64"
  shows "\<exists>c t. cbor_string M s = c # t \<and> decodes_at c (get_cbor_string M) t s \<and>
    (0x60 \<le> byte c \<and> byte c \<le> 0x7B \<or> byte c = 0x7F)"
  unfolding cbor_string_def get_cbor_string_def
  by (rule cbor_head_cases [OF assms, where M = M and b = "0x60"])
    (simp_all add: byte_char_of decodes_at_chars low_bits(1) [where k = 5, simplified] decodes_at_current Let_def)

lemma cbor_back_string: "length s < 2 ^ 64 \<Longrightarrow> cbor_back M m (cbor_string M s) (JString s)"
proof -
  assume "length s < 2 ^ 64"
  from cbor_string_back [OF this, of M] obtain c t where c: "cbor_string M s = c # t"
    "decodes_at c (get_cbor_string M) t s" "0x60 \<le> byte c \<and> byte c \<le> 0x7B \<or> byte c = 0x7F" by blast
  from c(3) have "cbor_value M m (byte c) = sbind (get_cbor_string M) (\<lambda>s. sret (JString s))"
    unfolding cbor_value.simps cbor_scalar_def by (elim disjE conjE) simp_all
  moreover have "decodes_at c (sbind (get_cbor_string M) (\<lambda>s. sret (JString s))) t (JString s)"
    by (rule decodes_at_sbind [OF c(2) decodes_sret]) simp
  ultimately show ?thesis using c(1) by (simp add: cbor_back_def)
qed

lemma cbor_back_float:
  assumes "mc_double M d < 2 ^ 64" and "double_of (mc_double M d) = d"
  shows "cbor_back M m (cbor_float M d) (JFloat d)"
  using assms by (simp add: cbor_leaf cbor_float_def byte_def)

lemma cbor_key_decodes: "length k < 2 ^ 64 \<Longrightarrow> decodes (cbor_key M) (cbor_string M k) k"
  using cbor_string_back [of k M] by (auto simp: cbor_key_def intro: decodes_get)

lemma cbor_value_array:
  "n \<le> 0x17 \<Longrightarrow> cbor_value M m (0x80 + n) = cbor_array M m n []"
  "cbor_value M m 0x98 = sbind (get_number M 1) (\<lambda>n. cbor_array M m n [])"
  "cbor_value M m 0x99 = sbind (get_number M 2) (\<lambda>n. cbor_array M m n [])"
  "cbor_value M m 0x9A = sbind (get_number M 4) (\<lambda>n. cbor_array M m n [])"
  "cbor_value M m 0x9B = sbind (get_number M 8) (\<lambda>n. cbor_array M m n [])"
  by (simp_all add: cbor_value.simps low_bits(1) [where k = 5, simplified])

lemma cbor_value_object:
  "n \<le> 0x17 \<Longrightarrow> cbor_value M m (0xA0 + n) = cbor_object M m n []"
  "cbor_value M m 0xB8 = sbind (get_number M 1) (\<lambda>n. cbor_object M m n [])"
  "cbor_value M m 0xB9 = sbind (get_number M 2) (\<lambda>n. cbor_object M m n [])"
  "cbor_value M m 0xBA = sbind (get_number M 4) (\<lambda>n. cbor_object M m n [])"
  "cbor_value M m 0xBB = sbind (get_number M 8) (\<lambda>n. cbor_object M m n [])"
  by (simp_all add: cbor_value.simps low_bits(1) [where k = 5, simplified])

lemma cbor_back_array:
  assumes "length vs < 2 ^ 64" and "decodes (cbor_array M m (length vs) []) w x"
  shows "cbor_back M m (cbor_head M 0x80 (length vs) @ w) x"
  by (rule cbor_head_cases [OF assms(1), where M = M and b = "0x80"])
    (simp_all add: cbor_back_def cbor_value_array byte_char_of decodes_at_number decodes_at_weaken assms(2))

lemma cbor_back_object:
  assumes "length kvs < 2 ^ 64" and "decodes (cbor_object M m (length kvs) []) w x"
  shows "cbor_back M m (cbor_head M 0xA0 (length kvs) @ w) x"
  by (rule cbor_head_cases [OF assms(1), where M = M and b = "0xA0"])
    (simp_all add: cbor_back_def cbor_value_object byte_char_of decodes_at_number decodes_at_weaken assms(2))

lemma cbor_head_nonempty: "cbor_head M b n \<noteq> []"
  by (simp add: cbor_head_def write_number_network)

lemma write_cbor_nonempty: "1 \<le> length (write_cbor M j)"
proof -
  have "write_cbor M j \<noteq> []"
    by (cases j) (simp_all add: cbor_head_nonempty cbor_integer_def cbor_float_def cbor_string_def)
  then show ?thesis by (simp add: Suc_le_eq)
qed

lemma cbor_back:
  "binary_ok M (2 ^ 64) j \<Longrightarrow> 2 * length (write_cbor M j) \<le> Suc m \<Longrightarrow>
     cbor_back M m (write_cbor M j) (reparsed j)"
  "elements_binary_ok M (2 ^ 64) vs \<Longrightarrow> 2 * length (write_cbor_elements M vs) + 1 \<le> m \<Longrightarrow>
     decodes (cbor_array M m (length vs) acc) (write_cbor_elements M vs) (JArray (acc @ reparsed_elements vs))"
  "members_binary_ok M (2 ^ 64) kvs \<Longrightarrow> 2 * length (write_cbor_members M kvs) + 1 \<le> m \<Longrightarrow>
     obj_wf kvs \<Longrightarrow> \<forall>k \<in> fst ` set acc1. \<forall>k' \<in> fst ` set kvs. k < k' \<Longrightarrow>
     decodes (cbor_object M m (length kvs) acc1) (write_cbor_members M kvs) (JObject (acc1 @ reparsed_members kvs))"
proof (induction M j and M vs and M kvs arbitrary: m and m acc and m acc1
    rule: write_cbor_write_cbor_elements_write_cbor_members.induct)
  case (1 M vs)
  have "1 \<le> length (cbor_head M 0x80 (length vs))" using cbor_head_nonempty [of M "0x80" "length vs"] by (simp add: Suc_le_eq)
  then have "2 * length (write_cbor_elements M vs) + 1 \<le> m" using 1(3) by simp
  with 1(1) [of m "[]"] 1(2) cbor_back_array [of vs M m] show ?case by simp
next
  case (2 M kvs)
  have "1 \<le> length (cbor_head M 0xA0 (length kvs))" using cbor_head_nonempty [of M "0xA0" "length kvs"] by (simp add: Suc_le_eq)
  then have "2 * length (write_cbor_members M kvs) + 1 \<le> m" using 2(3) by simp
  with 2(1) [of m "[]"] 2(2) cbor_back_object [of kvs M m] show ?case by simp
next
  case (5 M i)
  then show ?case using cbor_back_integer [of i M m] by simp
next
  case (6 M i)
  then show ?case using cbor_back_unsigned [of "nat i" M m] by (simp add: nat_less_iff)
next
  case (9 M)
  then obtain n where "m = Suc n" by (cases m) auto
  then show ?case by (simp add: decodes_sret)
next
  case (10 M v vs)
  have "1 \<le> length (write_cbor M v)" by (rule write_cbor_nonempty)
  with 10(4) have "m = Suc (Suc (m - 2))" by simp
  then obtain n where m: "m = Suc (Suc n)" by blast
  have "decodes (parse_cbor M (Suc n) True) (write_cbor M v) (reparsed v)"
    using 10(1) [of n] 10(3,4) m by (intro cbor_back_parse) simp
  moreover have "decodes (cbor_array M (Suc n) (length vs) (acc @ [reparsed v])) (write_cbor_elements M vs)
      (JArray ((acc @ [reparsed v]) @ reparsed_elements vs))"
    using 10(2) [of "Suc n" "acc @ [reparsed v]"] 10(3,4) m write_cbor_nonempty [of M v] by simp
  ultimately show ?case using m by (simp add: decodes_sbind)
next
  case (11 M)
  then obtain n where "m = Suc n" by (cases m) auto
  then show ?case by (simp add: decodes_sret)
next
  case (12 M k v kvs)
  have "1 \<le> length (write_cbor M v)" by (rule write_cbor_nonempty)
  with 12(4) have "m = Suc (Suc (m - 2))" by simp
  then obtain n where m: "m = Suc (Suc n)" by blast
  have e: "obj_emplace k (reparsed v) acc1 = acc1 @ [(k, reparsed v)]"
    by (rule obj_emplace_last) (use 12(6) in simp)
  have "decodes (parse_cbor M (Suc n) True) (write_cbor M v) (reparsed v)"
    using 12(1) [of n] 12(3,4) m by (intro cbor_back_parse) simp
  moreover have "decodes (cbor_object M (Suc n) (length kvs) (obj_emplace k (reparsed v) acc1)) (write_cbor_members M kvs)
      (JObject ((acc1 @ [(k, reparsed v)]) @ reparsed_members kvs))"
    unfolding e by (rule 12(2)) (use 12(3-6) m write_cbor_nonempty [of M v] in \<open>auto simp: obj_wf_Cons\<close>)
  ultimately have "decodes (sbind (parse_cbor M (Suc n) True) (\<lambda>val. cbor_object M (Suc n) (length kvs)
      (obj_emplace k val acc1))) (write_cbor M v @ write_cbor_members M kvs) (JObject (acc1 @ reparsed_members ((k, v) # kvs)))"
    using decodes_sbind [OF _ _ refl] by fastforce
  moreover have "decodes (cbor_key M) (cbor_string M k) k" using 12(3) by (simp add: cbor_key_decodes)
  ultimately have "decodes (sbind (cbor_key M) (\<lambda>key. sbind (parse_cbor M (Suc n) True)
      (\<lambda>val. cbor_object M (Suc n) (length kvs) (obj_emplace key val acc1))))
      (cbor_string M k @ write_cbor M v @ write_cbor_members M kvs) (JObject (acc1 @ reparsed_members ((k, v) # kvs)))"
    by (rule decodes_sbind [rotated, OF _ refl])
  moreover have "cbor_object M m (length ((k, v) # kvs)) acc1 = sbind (cbor_key M) (\<lambda>key.
      sbind (parse_cbor M (Suc n) True) (\<lambda>val. cbor_object M (Suc n) (length kvs) (obj_emplace key val acc1)))"
    unfolding m by (subst cbor_object.simps) (simp del: parse_cbor.simps cbor_object.simps)
  ultimately show ?case by (simp only: write_cbor_members.simps)
next
  case (3 M)
  show ?case by (simp add: cbor_leaf byte_def)
next
  case (4 M b)
  show ?case by (simp add: cbor_leaf byte_def)
qed (simp_all add: cbor_back_string cbor_back_float)

text \<open>No CBOR text starts like a byte order mark, which the adapter would skip.\<close>

lemma cbor_head_first: "b \<le> 0xA0 \<Longrightarrow> byte (hd (cbor_head M b n @ s)) \<le> 0xBB"
  by (simp add: cbor_head_def write_number_network byte_char_of)

lemma write_cbor_no_bom: "input_adapter (write_cbor M j) = write_cbor M j"
proof -
  have "byte (hd (write_cbor M j)) \<noteq> 0xEF"
  proof (cases j)
    case (JInt i)
    then show ?thesis using cbor_head_first [of "0x00" M "nat i" "[]"] cbor_head_first [of "0x20" M "nat (- 1 - i)" "[]"]
      by (simp add: cbor_integer_def)
  next
    case (JUnsigned i)
    then show ?thesis using cbor_head_first [of "0x00" M "nat i" "[]"] by simp
  next
    case (JString s)
    then show ?thesis using cbor_head_first [of "0x60" M "length s" s] by (simp add: cbor_string_def)
  next
    case (JArray vs)
    then show ?thesis using cbor_head_first [of "0x80" M "length vs" "write_cbor_elements M vs"] by simp
  next
    case (JObject kvs)
    then show ?thesis using cbor_head_first [of "0xA0" M "length kvs" "write_cbor_members M kvs"] by simp
  qed (simp_all add: cbor_float_def byte_def)
  then show ?thesis by (cases "write_cbor M j") (auto simp: input_adapter_def byte_def)
qed

text \<open>(C22) Whatever the byte order of the machine, what \<open>to_cbor\<close> writes \<open>from_cbor\<close> reads back: the same
  value, with the non-negative integers as unsigned numbers.\<close>

theorem cbor_roundtrip:
  assumes "binary_ok M (2 ^ 64) j"
  shows "from_cbor M strict (to_cbor M j) = Inr (reparsed j)"
  unfolding from_cbor_def to_cbor_def binary_fuel_Suc
  by (intro read_strict_decodes cbor_back_parse cbor_back(1) write_cbor_no_bom assms) simp

theorem cbor_roundtrip_witness:
  "\<forall>little strict. let M = \<lparr>mc_little = little, mc_double = \<lambda>d. 0x3FF8000000000000\<rparr>;
     j = JObject [(''a'', JArray [JInt (- 500), JFloat (Dbl False (3 / 2)), JNull]), (''b'', JUnsigned (2 ^ 40))]
   in from_cbor M strict (to_cbor M j) = Inr (reparsed j)"
  unfolding Let_def
proof (intro allI cbor_roundtrip)
qed (simp_all add: obj_wf_def double_of_def ieee_def Let_def)

section \<open>Where the reader departs from the format\<close>

text \<open>A negative number below the range of \<open>int64_t\<close> is read as a number that is not negative, without an
  exception: the format means \<open>-1 - n\<close>.\<close>

lemma cbor_negative_wraps:
  assumes "2 ^ 63 \<le> n" and "n < 2 ^ 64"
  shows "from_cbor M strict (CHR 0x3B # write_number M 8 n) = Inr (JInt (2 ^ 64 - 1 - int n))"
proof -
  have "to_int64 (int n) = int n - 2 ^ 64"
    using minus_mod_self2 [of "int n + 9223372036854775808" 18446744073709551616] assms
    by (simp add: to_int64_def mod_pos_pos_trivial)
  then have "cbor_back M m (CHR 0x3B # write_number M 8 n) (JInt (2 ^ 64 - 1 - int n))" for m
    using assms by (simp add: cbor_leaf byte_def)
  then show ?thesis
    unfolding from_cbor_def binary_fuel_Suc by (intro read_strict_decodes cbor_back_parse) (simp_all add: input_adapter_def)
qed

text \<open>A string of indefinite length is read as it is, with the control bytes of its chunks.\<close>

lemma cbor_chunks_raw:
  "from_cbor M True [CHR 0x7F, CHR 0x61, CHR ''x'', CHR 0xFF] = Inr (JString [CHR 0x61, CHR ''x''])"
  by code_simp

text \<open>Of a repeated key a map of given length keeps the first value, one of indefinite length the last.\<close>

lemma cbor_repeated_keys:
  "from_cbor M True [CHR 0xA2, CHR 0x61, CHR ''x'', CHR 0x01, CHR 0x61, CHR ''x'', CHR 0x02] = Inr (JObject [(''x'', JUnsigned 1)])"
  "from_cbor M True [CHR 0xBF, CHR 0x61, CHR ''x'', CHR 0x01, CHR 0x61, CHR ''x'', CHR 0x02, CHR 0xFF] = Inr (JObject [(''x'', JUnsigned 2)])"
  by code_simp+

end
