(* ===== verification/MsgPack.thy ===== *)
theory MsgPack
  imports Binary JsonRoundTrip
begin

text \<open>
  MessagePack in \<^verbatim>\<open>src/json.hpp\<close>: \<open>write_msgpack\<close> of the class \<open>binary_writer\<close>,
  \<open>parse_msgpack_internal\<close> of \<open>binary_reader\<close>, and the round trip between them.
\<close>

section \<open>Writing\<close>

definition msgpack_unsigned :: "machine \<Rightarrow> nat \<Rightarrow> string" where
  "msgpack_unsigned M n =
     (if n < 128 then write_number M 1 n
      else if n \<le> 0xFF then CHR 0xCC # write_number M 1 n
      else if n \<le> 0xFFFF then CHR 0xCD # write_number M 2 n
      else if n \<le> 0xFFFFFFFF then CHR 0xCE # write_number M 4 n
      else if n \<le> 0xFFFFFFFFFFFFFFFF then CHR 0xCF # write_number M 8 n
      else [])"

text \<open>The bits of a signed number of \<open>k\<close> bytes.\<close>

definition signed_bits :: "nat \<Rightarrow> int \<Rightarrow> nat" where
  "signed_bits k i = nat (i mod 256 ^ k)"

definition msgpack_integer :: "machine \<Rightarrow> int \<Rightarrow> string" where
  "msgpack_integer M i =
     (if 0 \<le> i then msgpack_unsigned M (nat i)
      else if i \<ge> - 32 then write_number M 1 (signed_bits 1 i)
      else if i \<ge> - 128 \<and> i \<le> 127 then CHR 0xD0 # write_number M 1 (signed_bits 1 i)
      else if i \<ge> - 32768 \<and> i \<le> 32767 then CHR 0xD1 # write_number M 2 (signed_bits 2 i)
      else if i \<ge> - 2147483648 \<and> i \<le> 2147483647 then CHR 0xD2 # write_number M 4 (signed_bits 4 i)
      else if i \<ge> - 9223372036854775808 \<and> i \<le> 9223372036854775807 then CHR 0xD3 # write_number M 8 (signed_bits 8 i)
      else [])"

definition msgpack_float :: "machine \<Rightarrow> dbl \<Rightarrow> string" where
  "msgpack_float M d = CHR 0xCB # write_number M 8 (mc_double M d)"

text \<open>Beyond 32 bits no length is written.\<close>

definition msgpack_string :: "machine \<Rightarrow> string \<Rightarrow> string" where
  "msgpack_string M s =
     (let N = length s
      in (if N \<le> 31 then write_number M 1 (0xA0 OR N)
          else if N \<le> 255 then CHR 0xD9 # write_number M 1 N
          else if N \<le> 65535 then CHR 0xDA # write_number M 2 N
          else if N \<le> 4294967295 then CHR 0xDB # write_number M 4 N
          else []) @ s)"

definition msgpack_array_head :: "machine \<Rightarrow> nat \<Rightarrow> string" where
  "msgpack_array_head M N =
     (if N \<le> 15 then write_number M 1 (0x90 OR N)
      else if N \<le> 0xFFFF then CHR 0xDC # write_number M 2 N
      else if N \<le> 0xFFFFFFFF then CHR 0xDD # write_number M 4 N
      else [])"

definition msgpack_map_head :: "machine \<Rightarrow> nat \<Rightarrow> string" where
  "msgpack_map_head M N =
     (if N \<le> 15 then write_number M 1 (0x80 OR (N AND 0xF))
      else if N \<le> 65535 then CHR 0xDE # write_number M 2 N
      else if N \<le> 4294967295 then CHR 0xDF # write_number M 4 N
      else [])"

fun write_msgpack :: "machine \<Rightarrow> json \<Rightarrow> string"
  and write_msgpack_elements :: "machine \<Rightarrow> json list \<Rightarrow> string"
  and write_msgpack_members :: "machine \<Rightarrow> (string \<times> json) list \<Rightarrow> string" where
  "write_msgpack M (JArray vs) = msgpack_array_head M (length vs) @ write_msgpack_elements M vs"
| "write_msgpack M (JObject kvs) = msgpack_map_head M (length kvs) @ write_msgpack_members M kvs"
| "write_msgpack M JNull = [CHR 0xC0]"
| "write_msgpack M (JBool b) = [if b then CHR 0xC3 else CHR 0xC2]"
| "write_msgpack M (JInt i) = msgpack_integer M i"
| "write_msgpack M (JUnsigned i) = msgpack_unsigned M (nat i)"
| "write_msgpack M (JFloat d) = msgpack_float M d"
| "write_msgpack M (JString s) = msgpack_string M s"
| "write_msgpack_elements M [] = []"
| "write_msgpack_elements M (v # vs) = write_msgpack M v @ write_msgpack_elements M vs"
| "write_msgpack_members M [] = []"
| "write_msgpack_members M ((k, v) # kvs) = msgpack_string M k @ write_msgpack M v @ write_msgpack_members M kvs"

definition to_msgpack :: "machine \<Rightarrow> json \<Rightarrow> string" where
  "to_msgpack M j = write_msgpack M j"

section \<open>Reading\<close>

definition get_msgpack_string :: "machine \<Rightarrow> (reader, string) sm" where
  "get_msgpack_string M =
     sbind (check_eof False) (\<lambda>_.
     sbind current_char (\<lambda>c.
       let b = byte c
       in if 0xA0 \<le> b \<and> b \<le> 0xBF then get_chars (b AND 0x1F)
          else if b = 0xD9 then sbind (get_number M 1) get_chars
          else if b = 0xDA then sbind (get_number M 2) get_chars
          else if b = 0xDB then sbind (get_number M 4) get_chars
          else last_byte_error 113 ''expected a MessagePack string'' b))"

definition msgpack_key :: "machine \<Rightarrow> (reader, string) sm" where
  "msgpack_key M = sbind rd_get (\<lambda>_. get_msgpack_string M)"

text \<open>The signed number of \<open>k\<close> bytes with the given bits.\<close>

definition signed_number :: "nat \<Rightarrow> nat \<Rightarrow> int" where
  "signed_number k n = (if n < 2 ^ (8 * k - 1) then int n else int n - 256 ^ k)"

definition get_signed :: "machine \<Rightarrow> nat \<Rightarrow> (reader, json) sm" where
  "get_signed M k = sbind (get_number M k) (\<lambda>n. sret (JInt (signed_number k n)))"

definition get_unsigned :: "machine \<Rightarrow> nat \<Rightarrow> (reader, json) sm" where
  "get_unsigned M k = sbind (get_number M k) (\<lambda>n. sret (JUnsigned (int n)))"

definition msgpack_scalar :: "machine \<Rightarrow> nat \<Rightarrow> (reader, json) sm" where
  "msgpack_scalar M b =
     (if b \<le> 0x7F then sret (JUnsigned (int b))
      else if 0xA0 \<le> b \<and> b \<le> 0xBF \<or> 0xD9 \<le> b \<and> b \<le> 0xDB then sbind (get_msgpack_string M) (\<lambda>s. sret (JString s))
      else if b = 0xC0 then sret JNull
      else if b = 0xC2 then sret (JBool False)
      else if b = 0xC3 then sret (JBool True)
      else if b = 0xCA then sbind (get_number M 4) (\<lambda>x. sret (JFloat (float_of x)))
      else if b = 0xCB then sbind (get_number M 8) (\<lambda>x. sret (JFloat (double_of x)))
      else if b = 0xCC then get_unsigned M 1
      else if b = 0xCD then get_unsigned M 2
      else if b = 0xCE then get_unsigned M 4
      else if b = 0xCF then get_unsigned M 8
      else if b = 0xD0 then get_signed M 1
      else if b = 0xD1 then get_signed M 2
      else if b = 0xD2 then get_signed M 4
      else if b = 0xD3 then get_signed M 8
      else if 0xE0 \<le> b then sret (JInt (signed_number 1 b))
      else last_byte_error 112 ''error reading MessagePack'' b)"

function parse_msgpack :: "machine \<Rightarrow> nat \<Rightarrow> (reader, json) sm"
  and msgpack_value :: "machine \<Rightarrow> nat \<Rightarrow> nat \<Rightarrow> (reader, json) sm"
  and msgpack_array :: "machine \<Rightarrow> nat \<Rightarrow> nat \<Rightarrow> json list \<Rightarrow> (reader, json) sm"
  and msgpack_object :: "machine \<Rightarrow> nat \<Rightarrow> nat \<Rightarrow> (string \<times> json) list \<Rightarrow> (reader, json) sm" where
  "parse_msgpack M 0 = sthrow Diverges"
| "parse_msgpack M (Suc n) =
     sbind rd_get (\<lambda>current.
       case current of
         None \<Rightarrow> sread (\<lambda>r. Inl (unexpected_end r))
       | Some c \<Rightarrow> msgpack_value M n (byte c))"
| "msgpack_value M n b =
     (if 0x80 \<le> b \<and> b \<le> 0x8F then msgpack_object M n (b AND 0x0F) []
      else if 0x90 \<le> b \<and> b \<le> 0x9F then msgpack_array M n (b AND 0x0F) []
      else if b = 0xDC then sbind (get_number M 2) (\<lambda>len. msgpack_array M n len [])
      else if b = 0xDD then sbind (get_number M 4) (\<lambda>len. msgpack_array M n len [])
      else if b = 0xDE then sbind (get_number M 2) (\<lambda>len. msgpack_object M n len [])
      else if b = 0xDF then sbind (get_number M 4) (\<lambda>len. msgpack_object M n len [])
      else msgpack_scalar M b)"
| "msgpack_array M 0 len vs = sthrow Diverges"
| "msgpack_array M (Suc n) len vs =
     (if len = 0 then sret (JArray vs)
      else sbind (parse_msgpack M n) (\<lambda>v. msgpack_array M n (len - 1) (vs @ [v])))"
| "msgpack_object M 0 len kvs = sthrow Diverges"
| "msgpack_object M (Suc n) len kvs =
     (if len = 0 then sret (JObject kvs)
      else sbind (msgpack_key M) (\<lambda>key.
           sbind (parse_msgpack M n) (\<lambda>val. msgpack_object M n (len - 1) (obj_emplace key val kvs))))"
  by pat_completeness auto

termination
  by (relation "measure (\<lambda>c. case c of
      Inl (Inl (M, n)) \<Rightarrow> 2 * n
    | Inl (Inr (M, n, b)) \<Rightarrow> 2 * n + 1
    | Inr (Inl (M, n, len, vs)) \<Rightarrow> 2 * n
    | Inr (Inr (M, n, len, kvs)) \<Rightarrow> 2 * n)") simp_all

declare msgpack_value.simps [simp del]

definition from_msgpack :: "machine \<Rightarrow> bool \<Rightarrow> string \<Rightarrow> json outcome" where
  "from_msgpack M strict b = fst (read_strict strict (parse_msgpack M (binary_fuel b)) (reader_new b))"

section \<open>The reader always returns\<close>

lemma eats_msgpack_string: "eats N (get_msgpack_string M) 0"
  unfolding get_msgpack_string_def Let_def by (intro eats_intro eats_sbind_0)

lemma eats_msgpack_key: "eats N (msgpack_key M) 1"
  unfolding msgpack_key_def One_nat_def
proof (rule eats_get)
  show "eats (N - 1) (get_msgpack_string M) 0" by (rule eats_msgpack_string)
qed (simp add: get_msgpack_string_def sbind_sread check_eof_def unexpected_end_def parse_error_def)

lemma eats_msgpack_scalar: "eats N (msgpack_scalar M b) 0"
  unfolding msgpack_scalar_def get_signed_def get_unsigned_def
  by (intro eats_intro eats_sbind_0 eats_msgpack_string)

lemma eats_msgpack_value:
  assumes "\<And>N len vs. 2 * N + 3 \<le> n \<Longrightarrow> eats N (msgpack_array M n len vs) 0"
    and "\<And>N len kvs. 2 * N + 3 \<le> n \<Longrightarrow> eats N (msgpack_object M n len kvs) 0"
    and "2 * N + 3 \<le> n"
  shows "eats N (msgpack_value M n b) 0"
  unfolding msgpack_value.simps
  by (intro eats_if eats_sbind_0 eats_number eats_msgpack_scalar assms) (use assms(3) in simp_all)

lemma eats_msgpack:
  "(\<forall>N. 2 * N + 2 \<le> n \<longrightarrow> eats N (parse_msgpack M n) 1) \<and>
   (\<forall>N len vs. 2 * N + 3 \<le> n \<longrightarrow> eats N (msgpack_array M n len vs) 0) \<and>
   (\<forall>N len kvs. 2 * N + 3 \<le> n \<longrightarrow> eats N (msgpack_object M n len kvs) 0)"
proof (induction n)
  case (Suc n)
  then have IH: "2 * N + 2 \<le> n \<Longrightarrow> eats N (parse_msgpack M n) 1"
    "2 * N + 3 \<le> n \<Longrightarrow> eats N (msgpack_array M n len vs) 0"
    "2 * N + 3 \<le> n \<Longrightarrow> eats N (msgpack_object M n len kvs) 0" for N len vs kvs by blast+
  note val = eats_msgpack_value [OF IH(2,3)]
  have "eats N (parse_msgpack M (Suc n)) 1" if "2 * N + 2 \<le> Suc n" for N
    unfolding parse_msgpack.simps One_nat_def
    by (rule eats_get) (use that in \<open>simp_all add: val unexpected_end_def parse_error_def\<close>)
  moreover have "eats N (msgpack_array M (Suc n) len vs) 0" if N: "2 * N + 3 \<le> Suc n" for N len vs
  proof -
    have "eats N (sbind (parse_msgpack M n) (\<lambda>v. msgpack_array M n (len - 1) (vs @ [v]))) 0"
      by (rule eats_then [OF IH(1) IH(2)]) (use N in simp_all)
    then show ?thesis by (simp add: eats_sret)
  qed
  moreover have "eats N (msgpack_object M (Suc n) len kvs) 0" if N: "2 * N + 3 \<le> Suc n" for N len kvs
  proof -
    have "eats N (sbind (msgpack_key M) (\<lambda>key.
        sbind (parse_msgpack M n) (\<lambda>val. msgpack_object M n (len - 1) (obj_emplace key val kvs)))) 0"
      by (rule eats_then [OF eats_msgpack_key eats_then [OF IH(1) IH(3), where l = 0]]) (use N in simp_all)
    then show ?thesis by (simp add: eats_sret)
  qed
  ultimately show ?case by blast
qed simp

text \<open>Reading MessagePack ends on every input, with a value or an exception of the library.\<close>

theorem from_msgpack_returns: "std_outcome (from_msgpack M strict b)"
  unfolding from_msgpack_def
proof (rule read_strict_returns [OF _ refl])
  show "eats N (parse_msgpack M (binary_fuel b)) 1" if "2 * N + 4 \<le> binary_fuel b" for N
    by (rule eats_msgpack [THEN conjunct1, rule_format]) (use that in simp)
qed

section \<open>Reading back what was written\<close>

lemma signed_number_bits:
  assumes "- (2 ^ (8 * k - 1)) \<le> i" and "i < 0" and "0 < k"
  shows "signed_number k (signed_bits k i) = i" "signed_bits k i < 256 ^ k"
proof -
  have p: "(256 :: int) ^ k = 2 * 2 ^ (8 * k - 1)"
  proof -
    have "(256 :: int) ^ k = (2 ^ 8) ^ k" by simp
    also have "\<dots> = 2 ^ (8 * k)" by (rule power_mult [symmetric])
    also have "8 * k = Suc (8 * k - 1)" using assms(3) by simp
    finally show ?thesis by simp
  qed
  then have "i mod 256 ^ k = i + 256 ^ k"
    using assms by (intro int_mod_pos_eq [of i _ "- 1"]) simp_all
  then have b: "int (signed_bits k i) = i + 256 ^ k" using assms p by (simp add: signed_bits_def)
  with p assms(1) have "int (signed_bits k i) \<ge> int (2 ^ (8 * k - 1))" by simp
  then have "\<not> signed_bits k i < 2 ^ (8 * k - 1)" unfolding zle_int by simp
  with b show "signed_number k (signed_bits k i) = i" by (simp add: signed_number_def)
  have "int (signed_bits k i) < int (256 ^ k)" using b assms(2) by simp
  then show "signed_bits k i < 256 ^ k" by (simp only: of_nat_less_iff)
qed

lemma fix_bits:
  "N \<le> 31 \<Longrightarrow> 0xA0 OR N = (0xA0 + N :: nat)" "N \<le> 31 \<Longrightarrow> (0xA0 + N) AND 0x1F = (N :: nat)"
  "N \<le> 15 \<Longrightarrow> 0x90 OR N = (0x90 + N :: nat)" "N \<le> 15 \<Longrightarrow> (0x90 + N) AND 0x0F = (N :: nat)"
  "N \<le> 15 \<Longrightarrow> 0x80 OR (N AND 0xF) = (0x80 + N :: nat)" "N \<le> 15 \<Longrightarrow> (0x80 + N) AND 0x0F = (N :: nat)"
  using low_bits [of N 5 "0xA0"] low_bits [of N 4 "0x90"] low_bits [of N 4 "0x80"] low_bits [of N 4 0] by simp_all

lemma write_byte: "n < 256 \<Longrightarrow> write_number M 1 n = [char_of n]"
  by (simp add: write_number_network)

lemma decodes_at_byte:
  "n < 256 \<Longrightarrow> decodes (f n) s x \<Longrightarrow> decodes_at c (sbind (get_number M 1) f) (char_of n # s) x"
  using decodes_at_number [of n 1 f s x c M] by (simp add: write_byte [unfolded One_nat_def])

definition msgpack_back :: "machine \<Rightarrow> nat \<Rightarrow> string \<Rightarrow> json \<Rightarrow> bool" where
  "msgpack_back M m w x \<longleftrightarrow> (\<exists>c s. w = c # s \<and> decodes_at c (msgpack_value M m (byte c)) s x)"

lemma msgpack_back_parse: "msgpack_back M m w x \<Longrightarrow> decodes (parse_msgpack M (Suc m)) w x"
  by (auto simp: msgpack_back_def intro!: decodes_get)

lemmas msgpack_leaf = msgpack_back_def msgpack_value.simps msgpack_scalar_def get_unsigned_def get_signed_def
  byte_char_of decodes_at_number_only decodes_sret decodes_at_weaken [OF decodes_sret] fix_bits
  write_byte [unfolded One_nat_def] write_byte decodes_at_byte decodes_at_byte [unfolded One_nat_def]

lemma byte_literals [simp]: "byte (Char a0 a1 a2 a3 a4 a5 a6 a7) = of_char (Char a0 a1 a2 a3 a4 a5 a6 a7)"
  by (simp add: byte_def)

lemma msgpack_back_unsigned: "n < 2 ^ 64 \<Longrightarrow> msgpack_back M m (msgpack_unsigned M n) (JUnsigned (int n))"
  unfolding msgpack_unsigned_def
  by (cases "n < 128"; cases "n \<le> 0xFF"; cases "n \<le> 0xFFFF"; cases "n \<le> 0xFFFFFFFF"; simp add: msgpack_leaf)

lemma msgpack_back_integer:
  assumes "- (2 ^ 63) \<le> i" and "i < 2 ^ 63"
  shows "msgpack_back M m (msgpack_integer M i) (reparsed (JInt i))"
proof (cases "0 \<le> i")
  case True
  then show ?thesis using assms msgpack_back_unsigned [of "nat i" M m] by (simp add: msgpack_integer_def nat_less_iff)
next
  case False
  consider "i \<ge> - 32" | "i < - 32" "i \<ge> - 128" | "i < - 128" "i \<ge> - 32768"
    | "i < - 32768" "i \<ge> - 2147483648" | "i < - 2147483648" by linarith
  then show ?thesis
  proof cases
    case 1
    define n where "n = nat (i + 256)"
    have n: "224 \<le> n" "n < 256" "int n = i + 256" using 1 False by (simp_all add: n_def)
    have "signed_bits 1 i = n"
      using 1 False int_mod_pos_eq [of i 256 "- 1" "i + 256"] by (simp add: signed_bits_def n_def)
    moreover have "msgpack_back M m [char_of n] (JInt i)"
      using n by (simp add: msgpack_back_def msgpack_value.simps msgpack_scalar_def byte_char_of signed_number_def
          decodes_at_weaken [OF decodes_sret])
    ultimately show ?thesis using 1 False n(2) by (simp add: msgpack_integer_def write_byte [unfolded One_nat_def])
  next
    case 2
    have p: "- (2 ^ (8 * 1 - 1)) \<le> i" "i < 0" "(0 :: nat) < 1" using 2 by simp_all
    note signed_number_bits [OF p]
    then have "msgpack_back M m (CHR 0xD0 # write_number M 1 (signed_bits 1 i)) (JInt i)"
      by (simp add: msgpack_back_def msgpack_value.simps msgpack_scalar_def get_signed_def decodes_at_number_only decodes_sret)
    with 2 show ?thesis by (simp add: msgpack_integer_def)
  next
    case 3
    then show ?thesis using False signed_number_bits [of 2 i] by (simp add: msgpack_integer_def msgpack_leaf)
  next
    case 4
    then show ?thesis using False signed_number_bits [of 4 i] by (simp add: msgpack_integer_def msgpack_leaf)
  next
    case 5
    then show ?thesis using False assms signed_number_bits [of 8 i] by (simp add: msgpack_integer_def msgpack_leaf)
  qed
qed

lemma msgpack_string_back:
  assumes "length s < 2 ^ 32"
  shows "\<exists>c t. msgpack_string M s = c # t \<and> decodes_at c (get_msgpack_string M) t s \<and>
    (0xA0 \<le> byte c \<and> byte c \<le> 0xBF \<or> 0xD9 \<le> byte c \<and> byte c \<le> 0xDB)"
  using assms unfolding msgpack_string_def get_msgpack_string_def
  by (cases "length s \<le> 31"; cases "length s \<le> 255"; cases "length s \<le> 65535"; simp add: msgpack_leaf Let_def
      decodes_at_current decodes_at_chars decodes_chars)

lemma msgpack_back_string:
  assumes "length s < 2 ^ 32"
  shows "msgpack_back M m (msgpack_string M s) (JString s)"
proof -
  from msgpack_string_back [OF assms, of M] obtain c t where c: "msgpack_string M s = c # t"
    "decodes_at c (get_msgpack_string M) t s"
    "0xA0 \<le> byte c \<and> byte c \<le> 0xBF \<or> 0xD9 \<le> byte c \<and> byte c \<le> 0xDB" by blast
  from c(3) have "msgpack_value M m (byte c) = sbind (get_msgpack_string M) (\<lambda>s. sret (JString s))"
    by (auto simp: msgpack_value.simps msgpack_scalar_def)
  moreover have "decodes_at c (sbind (get_msgpack_string M) (\<lambda>s. sret (JString s))) t (JString s)"
    by (rule decodes_at_sbind [OF c(2) decodes_sret]) simp
  ultimately show ?thesis using c(1) by (simp add: msgpack_back_def)
qed

lemma msgpack_back_float:
  assumes "mc_double M d < 2 ^ 64" and "double_of (mc_double M d) = d"
  shows "msgpack_back M m (msgpack_float M d) (JFloat d)"
  using assms by (simp add: msgpack_leaf msgpack_float_def)

lemma msgpack_key_decodes: "length k < 2 ^ 32 \<Longrightarrow> decodes (msgpack_key M) (msgpack_string M k) k"
  using msgpack_string_back [of k M] by (auto simp: msgpack_key_def intro: decodes_get)

lemma msgpack_value_array:
  "n \<le> 15 \<Longrightarrow> msgpack_value M m (0x90 + n) = msgpack_array M m n []"
  "msgpack_value M m 0xDC = sbind (get_number M 2) (\<lambda>n. msgpack_array M m n [])"
  "msgpack_value M m 0xDD = sbind (get_number M 4) (\<lambda>n. msgpack_array M m n [])"
  by (simp_all add: msgpack_value.simps fix_bits)

lemma msgpack_value_object:
  "n \<le> 15 \<Longrightarrow> msgpack_value M m (0x80 + n) = msgpack_object M m n []"
  "msgpack_value M m 0xDE = sbind (get_number M 2) (\<lambda>n. msgpack_object M m n [])"
  "msgpack_value M m 0xDF = sbind (get_number M 4) (\<lambda>n. msgpack_object M m n [])"
  by (simp_all add: msgpack_value.simps fix_bits)

lemma msgpack_back_array:
  assumes "length vs < 2 ^ 32" and "decodes (msgpack_array M m (length vs) []) w x"
  shows "msgpack_back M m (msgpack_array_head M (length vs) @ w) x"
  using assms unfolding msgpack_array_head_def
  by (cases "length vs \<le> 15"; cases "length vs \<le> 0xFFFF";
      simp add: msgpack_back_def msgpack_value_array fix_bits write_byte [unfolded One_nat_def] byte_char_of decodes_at_number decodes_at_weaken)

lemma msgpack_back_object:
  assumes "length kvs < 2 ^ 32" and "decodes (msgpack_object M m (length kvs) []) w x"
  shows "msgpack_back M m (msgpack_map_head M (length kvs) @ w) x"
  using assms unfolding msgpack_map_head_def
  by (cases "length kvs \<le> 15"; cases "length kvs \<le> 65535";
      simp add: msgpack_back_def msgpack_value_object fix_bits write_byte [unfolded One_nat_def] byte_char_of decodes_at_number decodes_at_weaken)

lemma msgpack_back_nonempty: "msgpack_back M m w x \<Longrightarrow> 1 \<le> length w"
  by (auto simp: msgpack_back_def)

lemma msgpack_nonempty:
  assumes "binary_ok M (2 ^ 32) j" shows "1 \<le> length (write_msgpack M j)"
proof (cases j)
  case (JInt i)
  then show ?thesis using assms msgpack_back_nonempty [OF msgpack_back_integer [of i M 0]] by simp
next
  case (JUnsigned i)
  then show ?thesis using assms msgpack_back_nonempty [OF msgpack_back_unsigned [of "nat i" M 0]] by (simp add: nat_less_iff)
next
  case (JString s)
  then show ?thesis using assms msgpack_back_nonempty [OF msgpack_back_string [of s M 0]] by simp
qed (use assms in \<open>auto simp: msgpack_array_head_def msgpack_map_head_def msgpack_float_def\<close>)

lemma msgpack_heads_nonempty:
  "n < 2 ^ 32 \<Longrightarrow> 1 \<le> length (msgpack_array_head M n)" "n < 2 ^ 32 \<Longrightarrow> 1 \<le> length (msgpack_map_head M n)"
  by (auto simp: msgpack_array_head_def msgpack_map_head_def)

lemma msgpack_back:
  "binary_ok M (2 ^ 32) j \<Longrightarrow> 2 * length (write_msgpack M j) \<le> Suc m \<Longrightarrow>
     msgpack_back M m (write_msgpack M j) (reparsed j)"
  "elements_binary_ok M (2 ^ 32) vs \<Longrightarrow> 2 * length (write_msgpack_elements M vs) + 1 \<le> m \<Longrightarrow>
     decodes (msgpack_array M m (length vs) acc) (write_msgpack_elements M vs) (JArray (acc @ reparsed_elements vs))"
  "members_binary_ok M (2 ^ 32) kvs \<Longrightarrow> 2 * length (write_msgpack_members M kvs) + 1 \<le> m \<Longrightarrow>
     obj_wf kvs \<Longrightarrow> \<forall>k \<in> fst ` set acc1. \<forall>k' \<in> fst ` set kvs. k < k' \<Longrightarrow>
     decodes (msgpack_object M m (length kvs) acc1) (write_msgpack_members M kvs) (JObject (acc1 @ reparsed_members kvs))"
proof (induction M j and M vs and M kvs arbitrary: m and m acc and m acc1
    rule: write_msgpack_write_msgpack_elements_write_msgpack_members.induct)
  case (1 M vs)
  have "1 \<le> length (msgpack_array_head M (length vs))" using 1(2) by (intro msgpack_heads_nonempty) simp
  then have "2 * length (write_msgpack_elements M vs) + 1 \<le> m" using 1(3) by simp
  with 1(1) [of m "[]"] 1(2) msgpack_back_array [of vs M m] show ?case by simp
next
  case (2 M kvs)
  have "1 \<le> length (msgpack_map_head M (length kvs))" using 2(2) by (intro msgpack_heads_nonempty) simp
  then have "2 * length (write_msgpack_members M kvs) + 1 \<le> m" using 2(3) by simp
  with 2(1) [of m "[]"] 2(2) msgpack_back_object [of kvs M m] show ?case by simp
next
  case (3 M)
  show ?case by (simp add: msgpack_leaf)
next
  case (4 M b)
  show ?case by (simp add: msgpack_leaf)
next
  case (5 M i)
  then show ?case using msgpack_back_integer [of i M m] by simp
next
  case (6 M i)
  then show ?case using msgpack_back_unsigned [of "nat i" M m] by (simp add: nat_less_iff)
next
  case (9 M)
  then obtain n where "m = Suc n" by (cases m) auto
  then show ?case by (simp add: decodes_sret)
next
  case (10 M v vs)
  have l: "1 \<le> length (write_msgpack M v)" using 10(3) by (intro msgpack_nonempty) simp
  with 10(4) have "m = Suc (Suc (m - 2))" by simp
  then obtain n where m: "m = Suc (Suc n)" by blast
  have "decodes (parse_msgpack M (Suc n)) (write_msgpack M v) (reparsed v)"
    using 10(1) [of n] 10(3,4) m by (intro msgpack_back_parse) simp
  moreover have "decodes (msgpack_array M (Suc n) (length vs) (acc @ [reparsed v])) (write_msgpack_elements M vs)
      (JArray ((acc @ [reparsed v]) @ reparsed_elements vs))"
    by (rule 10(2)) (use 10(3,4) m l in simp_all)
  ultimately show ?case using m by (simp add: decodes_sbind)
next
  case (11 M)
  then obtain n where "m = Suc n" by (cases m) auto
  then show ?case by (simp add: decodes_sret)
next
  case (12 M k v kvs)
  have l: "1 \<le> length (write_msgpack M v)" using 12(3) by (intro msgpack_nonempty) simp
  with 12(4) have "m = Suc (Suc (m - 2))" by simp
  then obtain n where m: "m = Suc (Suc n)" by blast
  have e: "obj_emplace k (reparsed v) acc1 = acc1 @ [(k, reparsed v)]"
    by (rule obj_emplace_last) (use 12(6) in simp)
  have "decodes (parse_msgpack M (Suc n)) (write_msgpack M v) (reparsed v)"
    using 12(1) [of n] 12(3,4) m by (intro msgpack_back_parse) simp
  moreover have "decodes (msgpack_object M (Suc n) (length kvs) (obj_emplace k (reparsed v) acc1))
      (write_msgpack_members M kvs) (JObject ((acc1 @ [(k, reparsed v)]) @ reparsed_members kvs))"
    unfolding e by (rule 12(2)) (use 12(3-6) m l in \<open>auto simp: obj_wf_Cons\<close>)
  ultimately have "decodes (sbind (parse_msgpack M (Suc n)) (\<lambda>val. msgpack_object M (Suc n) (length kvs)
      (obj_emplace k val acc1))) (write_msgpack M v @ write_msgpack_members M kvs)
      (JObject (acc1 @ reparsed_members ((k, v) # kvs)))"
    using decodes_sbind [OF _ _ refl] by fastforce
  moreover have "decodes (msgpack_key M) (msgpack_string M k) k" using 12(3) by (simp add: msgpack_key_decodes)
  ultimately have "decodes (sbind (msgpack_key M) (\<lambda>key. sbind (parse_msgpack M (Suc n))
      (\<lambda>val. msgpack_object M (Suc n) (length kvs) (obj_emplace key val acc1))))
      (msgpack_string M k @ write_msgpack M v @ write_msgpack_members M kvs) (JObject (acc1 @ reparsed_members ((k, v) # kvs)))"
    by (rule decodes_sbind [rotated, OF _ refl])
  moreover have "msgpack_object M m (length ((k, v) # kvs)) acc1 = sbind (msgpack_key M) (\<lambda>key.
      sbind (parse_msgpack M (Suc n)) (\<lambda>val. msgpack_object M (Suc n) (length kvs) (obj_emplace key val acc1)))"
    unfolding m by (subst msgpack_object.simps) (simp del: parse_msgpack.simps msgpack_object.simps)
  ultimately show ?case by (simp only: write_msgpack_members.simps)
qed (simp_all add: msgpack_back_string msgpack_back_float)

text \<open>The text of -17 is the first byte of a byte order mark, but no text of a value starts with all three.\<close>

lemma write_msgpack_no_bom:
  assumes "binary_ok M (2 ^ 32) j"
  shows "input_adapter (write_msgpack M j) = write_msgpack M j"
proof -
  have "byte (hd (write_msgpack M j)) \<noteq> 0xEF \<or> length (write_msgpack M j) = 1"
  proof (cases j)
    case (JInt i)
    then show ?thesis using assms
      by (simp add: msgpack_integer_def msgpack_unsigned_def write_byte [unfolded One_nat_def] byte_char_of
          nat_less_iff nat_le_iff)
  next
    case (JUnsigned i)
    then show ?thesis using assms
      by (simp add: msgpack_unsigned_def write_byte [unfolded One_nat_def] byte_char_of nat_le_iff)
  next
    case (JString s)
    then show ?thesis using assms
      by (simp add: msgpack_string_def Let_def write_byte [unfolded One_nat_def] byte_char_of fix_bits)
  next
    case (JArray vs)
    then show ?thesis using assms
      by (simp add: msgpack_array_head_def write_byte [unfolded One_nat_def] byte_char_of fix_bits)
  next
    case (JObject kvs)
    then show ?thesis using assms
      by (simp add: msgpack_map_head_def write_byte [unfolded One_nat_def] byte_char_of fix_bits)
  qed (simp_all add: msgpack_float_def)
  then show ?thesis by (cases "write_msgpack M j") (auto simp: input_adapter_def)
qed

text \<open>(C23) What \<open>to_msgpack\<close> writes \<open>from_msgpack\<close> reads back, for values whose strings, arrays and objects
  have fewer than \<open>2 ^ 32\<close> bytes, elements and members.\<close>

theorem msgpack_roundtrip:
  assumes "binary_ok M (2 ^ 32) j"
  shows "from_msgpack M strict (to_msgpack M j) = Inr (reparsed j)"
  unfolding from_msgpack_def to_msgpack_def binary_fuel_Suc
  by (intro read_strict_decodes msgpack_back_parse msgpack_back(1) write_msgpack_no_bom assms) simp

theorem msgpack_roundtrip_witness:
  "\<forall>little strict. let M = \<lparr>mc_little = little, mc_double = \<lambda>d. 0x3FF8000000000000\<rparr>;
     j = JObject [(''a'', JArray [JInt (- 500), JInt (- 17), JFloat (Dbl False (3 / 2)), JNull]), (''b'', JUnsigned (2 ^ 40))]
   in from_msgpack M strict (to_msgpack M j) = Inr (reparsed j)"
  unfolding Let_def
proof (intro allI msgpack_roundtrip)
qed (simp_all add: obj_wf_def double_of_def ieee_def Let_def)

section \<open>Where the format is not kept\<close>

text \<open>The adapter skips the bytes of a byte order mark, which are three numbers in MessagePack.\<close>

lemma msgpack_mark_skipped:
  "from_msgpack M False [CHR 0xEF] = Inr (JInt (- 17))"
  "from_msgpack M False [CHR 0xEF, CHR 0xBB, CHR 0xBF, CHR 0x01] = Inr (JUnsigned 1)"
  by code_simp+

text \<open>A string of \<open>2 ^ 32\<close> bytes is written without a control byte.\<close>

lemma msgpack_long_string: "2 ^ 32 \<le> length s \<Longrightarrow> to_msgpack M (JString s) = s"
  by (simp add: to_msgpack_def msgpack_string_def)

end
