(* ===== verification/ZeroMq.thy ===== *)
theory ZeroMq
  imports Prelude
begin

text \<open>
  The C++ binding of ZeroMQ in \<^verbatim>\<open>src/zmq.hpp\<close>: messages, contexts, sockets and the monitor.  The C library is a
  parameter, a record of its functions over a world \<open>'w\<close>; \<open>'m\<close> is what it keeps in a \<open>zmq_msg_t\<close>.  A function that
  writes to an object through a pointer returns the object.  The binding turns error codes into exceptions.
\<close>

section \<open>The C library\<close>

text \<open>A pointer the library hands out; \<open>None\<close> is \<open>NULL\<close>.\<close>

type_synonym zmq_ptr = "nat option"

datatype monitor_event =
    Connected
  | ConnectDelayed
  | ConnectRetried
  | Listening
  | BindFailed
  | Accepted
  | AcceptFailed
  | Closed
  | CloseFailed
  | Disconnected
  | MonitorStopped

record ('w, 'm) zmq_api =
  zmq_EAGAIN :: int
  zmq_ETERM :: int
  zmq_PAIR :: int
  zmq_PULL :: int
  zmq_IO_THREADS :: int
  zmq_MAX_SOCKETS :: int
  zmq_EVENT :: "monitor_event \<Rightarrow> int"
  zmq_errno :: "'w \<Rightarrow> int"
  zmq_strerror :: "int \<Rightarrow> string"
  zmq_poll :: "(zmq_ptr \<times> int) list \<Rightarrow> int \<Rightarrow> 'w \<Rightarrow> (int \<times> (zmq_ptr \<times> int) list) \<times> 'w"
  zmq_proxy :: "zmq_ptr \<Rightarrow> zmq_ptr \<Rightarrow> zmq_ptr \<Rightarrow> 'w \<Rightarrow> int \<times> 'w"
  zmq_proxy_steerable :: "zmq_ptr \<Rightarrow> zmq_ptr \<Rightarrow> zmq_ptr \<Rightarrow> zmq_ptr \<Rightarrow> 'w \<Rightarrow> int \<times> 'w"
  zmq_msg_init :: "'w \<Rightarrow> (int \<times> 'm) \<times> 'w"
  zmq_msg_init_size :: "nat \<Rightarrow> 'w \<Rightarrow> (int \<times> 'm) \<times> 'w"
  zmq_msg_init_data :: "string \<Rightarrow> 'w \<Rightarrow> (int \<times> 'm) \<times> 'w"
  zmq_msg_close :: "'m \<Rightarrow> 'w \<Rightarrow> (int \<times> 'm) \<times> 'w"
  zmq_msg_move :: "'m \<Rightarrow> 'm \<Rightarrow> 'w \<Rightarrow> (int \<times> 'm \<times> 'm) \<times> 'w"
  zmq_msg_copy :: "'m \<Rightarrow> 'm \<Rightarrow> 'w \<Rightarrow> (int \<times> 'm \<times> 'm) \<times> 'w"
  zmq_msg_more :: "'m \<Rightarrow> int"
  zmq_msg_data :: "'m \<Rightarrow> string"
  zmq_msg_size :: "'m \<Rightarrow> nat"
  zmq_ctx_new :: "'w \<Rightarrow> zmq_ptr \<times> 'w"
  zmq_ctx_set :: "zmq_ptr \<Rightarrow> int \<Rightarrow> int \<Rightarrow> 'w \<Rightarrow> int \<times> 'w"
  zmq_ctx_destroy :: "zmq_ptr \<Rightarrow> 'w \<Rightarrow> int \<times> 'w"
  zmq_socket :: "zmq_ptr \<Rightarrow> int \<Rightarrow> 'w \<Rightarrow> zmq_ptr \<times> 'w"
  zmq_close :: "zmq_ptr \<Rightarrow> 'w \<Rightarrow> int \<times> 'w"
  zmq_setsockopt :: "zmq_ptr \<Rightarrow> int \<Rightarrow> string \<Rightarrow> 'w \<Rightarrow> int \<times> 'w"
  zmq_getsockopt :: "zmq_ptr \<Rightarrow> int \<Rightarrow> nat \<Rightarrow> 'w \<Rightarrow> (int \<times> string) \<times> 'w"
  zmq_bind :: "zmq_ptr \<Rightarrow> string \<Rightarrow> 'w \<Rightarrow> int \<times> 'w"
  zmq_unbind :: "zmq_ptr \<Rightarrow> string \<Rightarrow> 'w \<Rightarrow> int \<times> 'w"
  zmq_connect :: "zmq_ptr \<Rightarrow> string \<Rightarrow> 'w \<Rightarrow> int \<times> 'w"
  zmq_disconnect :: "zmq_ptr \<Rightarrow> string \<Rightarrow> 'w \<Rightarrow> int \<times> 'w"
  zmq_send :: "zmq_ptr \<Rightarrow> string \<Rightarrow> int \<Rightarrow> 'w \<Rightarrow> int \<times> 'w"
  zmq_msg_send :: "'m \<Rightarrow> zmq_ptr \<Rightarrow> int \<Rightarrow> 'w \<Rightarrow> (int \<times> 'm) \<times> 'w"
  zmq_recv :: "zmq_ptr \<Rightarrow> nat \<Rightarrow> int \<Rightarrow> 'w \<Rightarrow> (int \<times> string) \<times> 'w"
  zmq_msg_recv :: "'m \<Rightarrow> zmq_ptr \<Rightarrow> int \<Rightarrow> 'w \<Rightarrow> (int \<times> 'm) \<times> 'w"
  zmq_socket_monitor :: "zmq_ptr \<Rightarrow> string option \<Rightarrow> int \<Rightarrow> 'w \<Rightarrow> int \<times> 'w"

section \<open>Error codes\<close>

text \<open>\<open>error_t\<close> takes the number of the last error when it is made.\<close>

definition zmq_error :: "('w, 'm) zmq_api \<Rightarrow> 'w \<Rightarrow> error" where
  "zmq_error A w = StdError (zmq_strerror A (zmq_errno A w))"

definition throw_error :: "('w, 'm) zmq_api \<Rightarrow> ('w, 'a) sm" where
  "throw_error A = (\<lambda>w. (Inl (zmq_error A w), w))"

text \<open>A call whose code other than 0 is an exception, or fails an assertion.\<close>

definition call_checked :: "('w, 'm) zmq_api \<Rightarrow> ('w \<Rightarrow> int \<times> 'w) \<Rightarrow> ('w, unit) sm" where
  "call_checked A f = (\<lambda>w. case f w of (rc, w') \<Rightarrow> if rc \<noteq> 0 then throw_error A w' else (Inr (), w'))"

definition call_asserted :: "('w \<Rightarrow> int \<times> 'w) \<Rightarrow> ('w, unit) sm" where
  "call_asserted f = (\<lambda>w. case f w of (rc, w') \<Rightarrow> (if rc = 0 then Inr () else Inl Aborts, w'))"

definition zmq_poll_items :: "('w, 'm) zmq_api \<Rightarrow> (zmq_ptr \<times> int) list \<Rightarrow> int \<Rightarrow> ('w, int \<times> (zmq_ptr \<times> int) list) sm" where
  "zmq_poll_items A items timeout = (\<lambda>w. case zmq_poll A items timeout w of
     ((rc, items'), w') \<Rightarrow> if rc < 0 then throw_error A w' else (Inr (rc, items'), w'))"

definition zmq_run_proxy :: "('w, 'm) zmq_api \<Rightarrow> zmq_ptr \<Rightarrow> zmq_ptr \<Rightarrow> zmq_ptr \<Rightarrow> ('w, unit) sm" where
  "zmq_run_proxy A frontend backend capture = call_checked A (zmq_proxy A frontend backend capture)"

definition zmq_run_proxy_steerable ::
  "('w, 'm) zmq_api \<Rightarrow> zmq_ptr \<Rightarrow> zmq_ptr \<Rightarrow> zmq_ptr \<Rightarrow> zmq_ptr \<Rightarrow> ('w, unit) sm" where
  "zmq_run_proxy_steerable A frontend backend capture control =
     call_checked A (zmq_proxy_steerable A frontend backend capture control)"

section \<open>Messages\<close>

text \<open>Constructors give a message; the other operations have it in their state, where an exception leaves it.\<close>

definition message_from :: "('w, 'm) zmq_api \<Rightarrow> ('w \<Rightarrow> (int \<times> 'm) \<times> 'w) \<Rightarrow> ('w, 'm) sm" where
  "message_from A f = (\<lambda>w. case f w of ((rc, m), w') \<Rightarrow> if rc \<noteq> 0 then throw_error A w' else (Inr m, w'))"

definition message_new :: "('w, 'm) zmq_api \<Rightarrow> ('w, 'm) sm" where
  "message_new A = message_from A (zmq_msg_init A)"

definition message_new_size :: "('w, 'm) zmq_api \<Rightarrow> nat \<Rightarrow> ('w, 'm) sm" where
  "message_new_size A n = message_from A (zmq_msg_init_size A n)"

definition message_new_data :: "('w, 'm) zmq_api \<Rightarrow> string \<Rightarrow> ('w, 'm) sm" where
  "message_new_data A d = message_from A (zmq_msg_init_data A d)"

definition on_message :: "('w, 'm) zmq_api \<Rightarrow> ('m \<Rightarrow> 'w \<Rightarrow> (int \<times> 'm) \<times> 'w) \<Rightarrow> ('w \<times> 'm, unit) sm" where
  "on_message A f = (\<lambda>(w, m). case f m w of ((rc, m'), w') \<Rightarrow>
     (if rc \<noteq> 0 then Inl (zmq_error A w') else Inr (), (w', m')))"

text \<open>The destructor asserts that closing succeeds.\<close>

definition message_free :: "('w, 'm) zmq_api \<Rightarrow> 'm \<Rightarrow> ('w, unit) sm" where
  "message_free A m = call_asserted (\<lambda>w. case zmq_msg_close A m w of ((rc, _), w') \<Rightarrow> (rc, w'))"

definition message_rebuild_with :: "('w, 'm) zmq_api \<Rightarrow> ('w \<Rightarrow> (int \<times> 'm) \<times> 'w) \<Rightarrow> ('w \<times> 'm, unit) sm" where
  "message_rebuild_with A init = sbind (on_message A (zmq_msg_close A)) (\<lambda>_. on_message A (\<lambda>_. init))"

definition message_rebuild :: "('w, 'm) zmq_api \<Rightarrow> ('w \<times> 'm, unit) sm" where
  "message_rebuild A = message_rebuild_with A (zmq_msg_init A)"

definition message_rebuild_size :: "('w, 'm) zmq_api \<Rightarrow> nat \<Rightarrow> ('w \<times> 'm, unit) sm" where
  "message_rebuild_size A n = message_rebuild_with A (zmq_msg_init_size A n)"

definition message_rebuild_data :: "('w, 'm) zmq_api \<Rightarrow> string \<Rightarrow> ('w \<times> 'm, unit) sm" where
  "message_rebuild_data A d = message_rebuild_with A (zmq_msg_init_data A d)"

definition on_messages :: "('w, 'm) zmq_api \<Rightarrow> ('m \<Rightarrow> 'm \<Rightarrow> 'w \<Rightarrow> (int \<times> 'm \<times> 'm) \<times> 'w) \<Rightarrow> ('w \<times> 'm \<times> 'm, unit) sm" where
  "on_messages A f = (\<lambda>(w, m, n). case f m n w of ((rc, ms), w') \<Rightarrow>
     (if rc \<noteq> 0 then Inl (zmq_error A w') else Inr (), (w', ms)))"

definition message_move :: "('w, 'm) zmq_api \<Rightarrow> ('w \<times> 'm \<times> 'm, unit) sm" where
  "message_move A = on_messages A (zmq_msg_move A)"

definition message_copy :: "('w, 'm) zmq_api \<Rightarrow> ('w \<times> 'm \<times> 'm, unit) sm" where
  "message_copy A = on_messages A (zmq_msg_copy A)"

text \<open>The move constructor takes the bits of the other message and initialises that one anew.\<close>

definition message_take :: "('w, 'm) zmq_api \<Rightarrow> 'm \<Rightarrow> ('w, 'm \<times> 'm) sm" where
  "message_take A rhs = sbind (message_from A (zmq_msg_init A)) (\<lambda>fresh. sret (rhs, fresh))"

text \<open>Assignment from a temporary swaps.\<close>

definition message_assign :: "'m \<Rightarrow> 'm \<Rightarrow> 'm \<times> 'm" where
  "message_assign m rhs = (rhs, m)"

definition message_more :: "('w, 'm) zmq_api \<Rightarrow> 'm \<Rightarrow> bool" where
  "message_more A m \<longleftrightarrow> zmq_msg_more A m \<noteq> 0"

text \<open>The first \<open>size()\<close> bytes behind \<open>data()\<close>.\<close>

definition message_text :: "('w, 'm) zmq_api \<Rightarrow> 'm \<Rightarrow> string outcome" where
  "message_text A m = (if length (zmq_msg_data A m) < zmq_msg_size A m then Inl (UB OutOfBounds)
     else Inr (take (zmq_msg_size A m) (zmq_msg_data A m)))"

section \<open>Contexts\<close>

definition new_pointer :: "('w, 'm) zmq_api \<Rightarrow> ('w \<Rightarrow> zmq_ptr \<times> 'w) \<Rightarrow> ('w, zmq_ptr) sm" where
  "new_pointer A f = (\<lambda>w. case f w of (p, w') \<Rightarrow> if p = None then throw_error A w' else (Inr p, w'))"

definition zmq_context_new :: "('w, 'm) zmq_api \<Rightarrow> ('w, zmq_ptr) sm" where
  "zmq_context_new A = new_pointer A (zmq_ctx_new A)"

definition zmq_context_new_with :: "('w, 'm) zmq_api \<Rightarrow> int \<Rightarrow> int \<Rightarrow> ('w, zmq_ptr) sm" where
  "zmq_context_new_with A io_threads max_sockets =
     sbind (new_pointer A (zmq_ctx_new A)) (\<lambda>p.
     sbind (call_asserted (zmq_ctx_set A p (zmq_IO_THREADS A) io_threads)) (\<lambda>_.
     sbind (call_asserted (zmq_ctx_set A p (zmq_MAX_SOCKETS A) max_sockets)) (\<lambda>_. sret p)))"

text \<open>\<open>close\<close> of a context and of a socket: nothing when closed, else the pointer is cleared once the call succeeds.\<close>

definition close_pointer :: "(zmq_ptr \<Rightarrow> 'w \<Rightarrow> int \<times> 'w) \<Rightarrow> ('w \<times> zmq_ptr, unit) sm" where
  "close_pointer f = (\<lambda>(w, p).
     if p = None then (Inr (), (w, p))
     else case call_asserted (f p) w of
       (Inl e, w') \<Rightarrow> (Inl e, (w', p))
     | (Inr _, w') \<Rightarrow> (Inr (), (w', None)))"

definition context_close :: "('w, 'm) zmq_api \<Rightarrow> ('w \<times> zmq_ptr, unit) sm" where
  "context_close A = close_pointer (zmq_ctx_destroy A)"

definition context_take :: "zmq_ptr \<Rightarrow> zmq_ptr \<times> zmq_ptr" where
  "context_take rhs = (rhs, None)"

definition context_assign :: "zmq_ptr \<Rightarrow> zmq_ptr \<Rightarrow> zmq_ptr \<times> zmq_ptr" where
  "context_assign p rhs = (rhs, p)"

section \<open>Sockets\<close>

text \<open>The move constructor leaves \<open>ctxptr\<close> uninitialised, which \<open>None\<close> stands for.\<close>

record zmq_socket_t =
  sock_ptr :: zmq_ptr
  sock_ctx :: "zmq_ptr option"

definition socket_new :: "('w, 'm) zmq_api \<Rightarrow> zmq_ptr \<Rightarrow> int \<Rightarrow> ('w, zmq_socket_t) sm" where
  "socket_new A ctx type =
     sbind (new_pointer A (zmq_socket A ctx type)) (\<lambda>p. sret \<lparr>sock_ptr = p, sock_ctx = Some ctx\<rparr>)"

definition socket_take :: "zmq_socket_t \<Rightarrow> zmq_socket_t \<times> zmq_socket_t" where
  "socket_take rhs = (\<lparr>sock_ptr = sock_ptr rhs, sock_ctx = None\<rparr>, rhs\<lparr>sock_ptr := None\<rparr>)"

definition socket_assign :: "zmq_socket_t \<Rightarrow> zmq_socket_t \<Rightarrow> zmq_socket_t \<times> zmq_socket_t" where
  "socket_assign s rhs = (s\<lparr>sock_ptr := sock_ptr rhs\<rparr>, rhs\<lparr>sock_ptr := sock_ptr s\<rparr>)"

definition socket_close :: "('w, 'm) zmq_api \<Rightarrow> ('w \<times> zmq_socket_t, unit) sm" where
  "socket_close A = (\<lambda>(w, s). case close_pointer (zmq_close A) (w, sock_ptr s) of
     (r, (w', p)) \<Rightarrow> (r, (w', s\<lparr>sock_ptr := p\<rparr>)))"

definition socket_connected :: "zmq_socket_t \<Rightarrow> bool" where
  "socket_connected s \<longleftrightarrow> sock_ptr s \<noteq> None"

definition socket_setsockopt :: "('w, 'm) zmq_api \<Rightarrow> zmq_socket_t \<Rightarrow> int \<Rightarrow> string \<Rightarrow> ('w, unit) sm" where
  "socket_setsockopt A s option optval = call_checked A (zmq_setsockopt A (sock_ptr s) option optval)"

definition socket_getsockopt :: "('w, 'm) zmq_api \<Rightarrow> zmq_socket_t \<Rightarrow> int \<Rightarrow> nat \<Rightarrow> ('w, string) sm" where
  "socket_getsockopt A s option optvallen = (\<lambda>w. case zmq_getsockopt A (sock_ptr s) option optvallen w of
     ((rc, optval), w') \<Rightarrow> if rc \<noteq> 0 then throw_error A w' else (Inr optval, w'))"

definition socket_bind :: "('w, 'm) zmq_api \<Rightarrow> zmq_socket_t \<Rightarrow> string \<Rightarrow> ('w, unit) sm" where
  "socket_bind A s addr = call_checked A (zmq_bind A (sock_ptr s) addr)"

definition socket_unbind :: "('w, 'm) zmq_api \<Rightarrow> zmq_socket_t \<Rightarrow> string \<Rightarrow> ('w, unit) sm" where
  "socket_unbind A s addr = call_checked A (zmq_unbind A (sock_ptr s) addr)"

definition socket_connect :: "('w, 'm) zmq_api \<Rightarrow> zmq_socket_t \<Rightarrow> string \<Rightarrow> ('w, unit) sm" where
  "socket_connect A s addr = call_checked A (zmq_connect A (sock_ptr s) addr)"

definition socket_disconnect :: "('w, 'm) zmq_api \<Rightarrow> zmq_socket_t \<Rightarrow> string \<Rightarrow> ('w, unit) sm" where
  "socket_disconnect A s addr = call_checked A (zmq_disconnect A (sock_ptr s) addr)"

text \<open>What a call that transfers gives: its result, or another one when it would have to wait, or an exception.\<close>

definition transferred :: "('w, 'm) zmq_api \<Rightarrow> int \<Rightarrow> 'a \<Rightarrow> 'a \<Rightarrow> 'w \<Rightarrow> 'a outcome" where
  "transferred A nbytes result again w =
     (if nbytes \<ge> 0 then Inr result
      else if zmq_errno A w = zmq_EAGAIN A then Inr again
      else Inl (zmq_error A w))"

definition socket_send_bytes :: "('w, 'm) zmq_api \<Rightarrow> zmq_socket_t \<Rightarrow> string \<Rightarrow> int \<Rightarrow> ('w, nat) sm" where
  "socket_send_bytes A s buf flags = (\<lambda>w. case zmq_send A (sock_ptr s) buf flags w of
     (nbytes, w') \<Rightarrow> (transferred A nbytes (nat nbytes) 0 w', w'))"

definition socket_send :: "('w, 'm) zmq_api \<Rightarrow> zmq_socket_t \<Rightarrow> int \<Rightarrow> ('w \<times> 'm, bool) sm" where
  "socket_send A s flags = (\<lambda>(w, m). case zmq_msg_send A m (sock_ptr s) flags w of
     ((nbytes, m'), w') \<Rightarrow> (transferred A nbytes True False w', (w', m')))"

definition socket_recv_bytes :: "('w, 'm) zmq_api \<Rightarrow> zmq_socket_t \<Rightarrow> nat \<Rightarrow> int \<Rightarrow> ('w, nat \<times> string) sm" where
  "socket_recv_bytes A s len flags = (\<lambda>w. case zmq_recv A (sock_ptr s) len flags w of
     ((nbytes, buf), w') \<Rightarrow> (transferred A nbytes (nat nbytes, buf) (0, buf) w', w'))"

definition socket_recv :: "('w, 'm) zmq_api \<Rightarrow> zmq_socket_t \<Rightarrow> int \<Rightarrow> ('w \<times> 'm, bool) sm" where
  "socket_recv A s flags = (\<lambda>(w, m). case zmq_msg_recv A m (sock_ptr s) flags w of
     ((nbytes, m'), w') \<Rightarrow> (transferred A nbytes True False w', (w', m')))"

section \<open>The monitor\<close>

text \<open>
  \<open>monitor_t::monitor\<close> with the event layout of ZeroMQ 4.1: it opens a socket of its own in the context of the
  monitored one, and calls the virtual functions for the events that come, until the context ends or a stop
  event comes.  The calls are collected.  \<open>native\<close> reads a number in the byte order of the machine.
\<close>

datatype monitor_call = OnStarted | OnEvent monitor_event int string | OnUnknown int int string

definition monitor_open ::
  "('w, 'm) zmq_api \<Rightarrow> zmq_socket_t \<Rightarrow> string \<Rightarrow> int \<Rightarrow> ('w, zmq_ptr) sm" where
  "monitor_open A socket addr events =
     sbind (call_checked A (zmq_socket_monitor A (sock_ptr socket) (Some addr) events)) (\<lambda>_.
       case sock_ctx socket of
         None \<Rightarrow> sthrow (UB Uninitialised)
       | Some ctx \<Rightarrow> (\<lambda>w. case zmq_socket A ctx (zmq_PAIR A) w of
           (None, w') \<Rightarrow> (Inl Aborts, w')
         | (Some p, w') \<Rightarrow> sbind (call_asserted (zmq_connect A (Some p) addr)) (\<lambda>_. sret (Some p)) w'))"

text \<open>One message: \<open>None\<close> when the context has ended.\<close>

definition monitor_receive :: "('w, 'm) zmq_api \<Rightarrow> zmq_ptr \<Rightarrow> ('w, 'm option) sm" where
  "monitor_receive A s = (\<lambda>w. case zmq_msg_init A w of ((_, m), w1) \<Rightarrow>
     (case zmq_msg_recv A m s 0 w1 of ((rc, m'), w2) \<Rightarrow>
       if rc = - 1 \<and> zmq_errno A w2 = zmq_ETERM A then (Inr None, w2)
       else if rc = - 1 then (Inl Aborts, w2)
       else (Inr (Some m'), w2)))"

definition handled_events :: "monitor_event list" where
  "handled_events = [Connected, ConnectDelayed, ConnectRetried, Listening, BindFailed, Accepted, AcceptFailed,
     Closed, CloseFailed, Disconnected]"

definition monitor_dispatch :: "('w, 'm) zmq_api \<Rightarrow> int \<Rightarrow> int \<Rightarrow> string \<Rightarrow> monitor_call" where
  "monitor_dispatch A event v addr = (case find (\<lambda>e. zmq_EVENT A e = event) handled_events of
     Some e \<Rightarrow> OnEvent e v addr
   | None \<Rightarrow> OnUnknown event v addr)"

definition close_ignored :: "('w, 'm) zmq_api \<Rightarrow> 'm \<Rightarrow> ('w, unit) sm" where
  "close_ignored A m = smodify (\<lambda>w. snd (zmq_msg_close A m w))"

definition monitor_turn ::
  "(string \<Rightarrow> int) \<Rightarrow> ('w, 'm) zmq_api \<Rightarrow> zmq_ptr \<Rightarrow> ('w, monitor_call option) sm" where
  "monitor_turn native A s =
     sbind (monitor_receive A s) (\<lambda>ev. case ev of
       None \<Rightarrow> sret None
     | Some event_msg \<Rightarrow>
         let d = zmq_msg_data A event_msg in
         if length d < 6 then sthrow (UB OutOfBounds)
         else
           let event = native (take 2 d); v = native (take 4 (drop 2 d)) in
           sbind (monitor_receive A s) (\<lambda>am. case am of
             None \<Rightarrow> sret None
           | Some addr_msg \<Rightarrow>
               sbind (sread (\<lambda>_. message_text A addr_msg)) (\<lambda>addr.
               sbind (close_ignored A addr_msg) (\<lambda>_.
                 if event = zmq_EVENT A MonitorStopped then sret None
                 else sbind (close_ignored A event_msg) (\<lambda>_. sret (Some (monitor_dispatch A event v addr)))))))"

partial_function (option) monitor_loop ::
  "(string \<Rightarrow> int) \<Rightarrow> ('w, 'm) zmq_api \<Rightarrow> zmq_ptr \<Rightarrow> monitor_call list \<Rightarrow> 'w \<Rightarrow> (monitor_call list outcome \<times> 'w) option" where
  [code]: "monitor_loop native A s calls w =
     (let r = monitor_turn native A s w
      in case fst r of
           Inl e \<Rightarrow> Some (Inl e, snd r)
         | Inr c \<Rightarrow>
             if c = None then Some (Inr calls, snd r)
             else monitor_loop native A s (calls @ [the c]) (snd r))"

definition monitor_run ::
  "(string \<Rightarrow> int) \<Rightarrow> ('w, 'm) zmq_api \<Rightarrow> zmq_socket_t \<Rightarrow> string \<Rightarrow> int \<Rightarrow> 'w \<Rightarrow> (monitor_call list outcome \<times> 'w) option" where
  "monitor_run native A socket addr events w = (case monitor_open A socket addr events w of
     (Inl e, w') \<Rightarrow> Some (Inl e, w')
   | (Inr s, w') \<Rightarrow>
       map_option (\<lambda>(r, w''). case r of Inl e \<Rightarrow> (Inl e, w'') | Inr calls \<Rightarrow> (Inr calls, snd (zmq_close A s w'')))
         (monitor_loop native A s [OnStarted] w'))"

definition monitor_abort :: "('w, 'm) zmq_api \<Rightarrow> zmq_ptr \<Rightarrow> ('w, unit) sm" where
  "monitor_abort A socket_ptr =
     (if socket_ptr = None then sret () else smodify (\<lambda>w. snd (zmq_socket_monitor A socket_ptr None 0 w)))"

section \<open>Closing\<close>

text \<open>What is closed stays closed, and closing it again calls nothing; a socket that was moved from is closed.\<close>

lemma close_pointer_again: "close_pointer f s = (Inr (), s') \<Longrightarrow> close_pointer f s' = (Inr (), s')"
  by (cases s; cases s') (auto simp: close_pointer_def split: if_splits prod.splits sum.splits)

lemma socket_close_again:
  assumes "socket_close A (w, s) = (Inr (), (w', s'))"
  shows "socket_close A (w', s') = (Inr (), (w', s')) \<and> \<not> socket_connected s'"
proof -
  from assms obtain p where p: "close_pointer (zmq_close A) (w, sock_ptr s) = (Inr (), (w', p))" "s' = s\<lparr>sock_ptr := p\<rparr>"
    by (auto simp: socket_close_def split: prod.splits)
  have "p = None" using p(1) by (auto simp: close_pointer_def split: if_splits prod.splits sum.splits)
  then show ?thesis by (simp add: p(2) socket_close_def close_pointer_def socket_connected_def)
qed

lemma moved_socket_closed: "socket_close A (w, snd (socket_take s)) = (Inr (), (w, snd (socket_take s)))"
  by (simp add: socket_close_def socket_take_def close_pointer_def)

text \<open>The socket that was moved to cannot be monitored: the constructor did not set its context.\<close>

lemma moved_socket_monitored:
  assumes "zmq_socket_monitor A (sock_ptr s) (Some addr) events w = (0, w')"
  shows "monitor_open A (fst (socket_take s)) addr events w = (Inl (UB Uninitialised), w')"
  using assms by (simp add: monitor_open_def socket_take_def call_checked_def sthrow_apply)

text \<open>A transfer fails only when the library reports an error other than that it would have to wait.\<close>

lemma transferred_iff:
  "(\<exists>e. transferred A n x y w = Inl e) \<longleftrightarrow> n < 0 \<and> zmq_errno A w \<noteq> zmq_EAGAIN A"
  by (simp add: transferred_def)

end
