(* ===== verification/BusThread.thy ===== *)
theory BusThread
  imports ZeroMq Server "HOL-Library.Multiset"
begin

text \<open>
  The thread of the bus (\<^verbatim>\<open>src/bus.cpp\<close>) over the binding of ZeroMQ: it opens a socket, and for each message
  reloads a site, joins the threads that have ended and starts one that reloads the site again.
\<close>

section \<open>The thread\<close>

record reload_thread =
  th_subdomain :: string
  th_finished :: bool

record ('w, 'sv) bus_state =
  bs_world :: 'w
  bs_server :: 'sv
  bs_threads :: "reload_thread list"

text \<open>The context and the socket; \<open>max_sockets\<close> is the default of the library.\<close>

definition bus_open :: "('w, 'm) zmq_api \<Rightarrow> int \<Rightarrow> string \<Rightarrow> ('w, zmq_ptr \<times> zmq_socket_t) sm" where
  "bus_open A max_sockets bindaddress =
     sbind (zmq_context_new_with A 1 max_sockets) (\<lambda>ctx.
     sbind (socket_new A ctx (zmq_PULL A)) (\<lambda>subscriber.
     sbind (socket_bind A subscriber bindaddress) (\<lambda>_. sret (ctx, subscriber))))"

text \<open>\<open>timed_join\<close> with no time joins a thread that has ended.\<close>

fun join_threads :: "reload_thread list \<Rightarrow> reload_thread list" where
  "join_threads [] = []"
| "join_threads (t # ts) = (if th_finished t then join_threads ts else t # join_threads ts)"

text \<open>
  One turn of the loop, with the name that it logs.  That \<open>recv\<close> returned false is not looked at; an exception
  leaves the loop, and with it the function that the thread runs.  The message is destroyed either way.
\<close>

definition bus_turn ::
  "('w, 'm) zmq_api \<Rightarrow> zmq_socket_t \<Rightarrow> (('w, ('c, 'k, 'd, 'n) server) bus_state, string) sm" where
  "bus_turn A subscriber = (\<lambda>s.
     case message_new A (bs_world s) of
       (Inl e, w) \<Rightarrow> (Inl e, s\<lparr>bs_world := w\<rparr>)
     | (Inr m, w) \<Rightarrow>
         (case socket_recv A subscriber 0 (w, m) of (received, (w', update)) \<Rightarrow>
          (case ebind received (\<lambda>_. message_text A update) of
             Inl e \<Rightarrow>
               (case message_free A update w' of (freed, w'') \<Rightarrow>
                 (Inl (case freed of Inl e' \<Rightarrow> e' | Inr _ \<Rightarrow> e), s\<lparr>bs_world := w''\<rparr>))
           | Inr subdomain \<Rightarrow>
               (case message_free A update w' of (freed, w'') \<Rightarrow>
                 (map_sum id (\<lambda>_. subdomain) freed, s\<lparr>bs_world := w'', bs_server := reload_site subdomain (bs_server s),
                           bs_threads := join_threads (bs_threads s) @
                             [\<lparr>th_subdomain = subdomain, th_finished = False\<rparr>]\<rparr>)))))"

text \<open>What happens: a turn that takes a message, and a thread that runs, which reloads its site and ends.\<close>

datatype bus_event = Received string | Reran string

inductive bus_move ::
  "('w, 'm) zmq_api \<Rightarrow> zmq_socket_t \<Rightarrow> ('w, ('c, 'k, 'd, 'n) server) bus_state \<Rightarrow> bus_event \<Rightarrow>
    ('w, ('c, 'k, 'd, 'n) server) bus_state \<Rightarrow> bool" for A subscriber where
  move_turn: "bus_turn A subscriber s = (Inr subdomain, s') \<Longrightarrow> bus_move A subscriber s (Received subdomain) s'"
| move_thread: "bs_threads s = xs @ t # ys \<Longrightarrow> \<not> th_finished t \<Longrightarrow>
    bus_move A subscriber s (Reran (th_subdomain t)) (s\<lparr>bs_server := reload_site (th_subdomain t) (bs_server s),
      bs_threads := xs @ t\<lparr>th_finished := True\<rparr> # ys\<rparr>)"

inductive_cases bus_moveE: "bus_move A subscriber s e s'"

inductive bus_run ::
  "('w, 'm) zmq_api \<Rightarrow> zmq_socket_t \<Rightarrow> ('w, ('c, 'k, 'd, 'n) server) bus_state \<Rightarrow> bus_event list \<Rightarrow>
    ('w, ('c, 'k, 'd, 'n) server) bus_state \<Rightarrow> bool" for A subscriber where
  run_nothing: "bus_run A subscriber s [] s"
| run_move: "bus_run A subscriber s es s' \<Longrightarrow> bus_move A subscriber s' e s'' \<Longrightarrow> bus_run A subscriber s (es @ [e]) s''"

section \<open>What the library promises\<close>

text \<open>
  The documented behaviour of ZeroMQ: a socket keeps the messages that come for it, \<open>pending\<close>, in order; a
  \<open>zmq_msg_recv\<close> that succeeds takes the first of them whole, one that fails takes none, and without
  \<open>ZMQ_DONTWAIT\<close> it does not fail with \<open>EAGAIN\<close>; making and closing a message takes none.
\<close>

definition zmq_delivers :: "('w, 'm) zmq_api \<Rightarrow> zmq_ptr \<Rightarrow> ('w \<Rightarrow> string list) \<Rightarrow> bool" where
  "zmq_delivers A p pending \<longleftrightarrow>
     (\<forall>w rc m w'. zmq_msg_init A w = ((rc, m), w') \<longrightarrow> pending w' = pending w) \<and>
     (\<forall>x w rc m w'. zmq_msg_close A x w = ((rc, m), w') \<longrightarrow> pending w' = pending w) \<and>
     (\<forall>x w n m w'. zmq_msg_recv A x p 0 w = ((n, m), w') \<longrightarrow>
        (if 0 \<le> n then zmq_msg_size A m = length (zmq_msg_data A m) \<and> pending w = zmq_msg_data A m # pending w'
         else pending w' = pending w \<and> zmq_errno A w' \<noteq> zmq_EAGAIN A))"

lemma zmq_deliversD:
  assumes "zmq_delivers A p pending"
  shows "zmq_msg_init A w = ((rc, m), w') \<Longrightarrow> pending w' = pending w"
    and "zmq_msg_close A x w = ((rc, m), w') \<Longrightarrow> pending w' = pending w"
    and "zmq_msg_recv A x p 0 w = ((n, m), w') \<Longrightarrow> 0 \<le> n \<Longrightarrow>
      zmq_msg_size A m = length (zmq_msg_data A m) \<and> pending w = zmq_msg_data A m # pending w'"
    and "zmq_msg_recv A x p 0 w = ((n, m), w') \<Longrightarrow> n < 0 \<Longrightarrow> zmq_errno A w' \<noteq> zmq_EAGAIN A"
  using assms unfolding zmq_delivers_def by (blast, blast, fastforce, fastforce)

section \<open>Every message is acted on\<close>

fun received :: "bus_event list \<Rightarrow> string list" where
  "received [] = []"
| "received (Received d # es) = d # received es"
| "received (Reran d # es) = received es"

fun reran :: "bus_event list \<Rightarrow> string list" where
  "reran [] = []"
| "reran (Received d # es) = reran es"
| "reran (Reran d # es) = d # reran es"

fun event_site :: "bus_event \<Rightarrow> string" where
  "event_site (Received d) = d"
| "event_site (Reran d) = d"

lemma event_lists_append [simp]:
  "received (xs @ ys) = received xs @ received ys" "reran (xs @ ys) = reran xs @ reran ys"
  by (induction xs rule: received.induct) simp_all

text \<open>The subdomains of the threads that have not run yet.\<close>

definition unfinished :: "reload_thread list \<Rightarrow> string list" where
  "unfinished ts = map th_subdomain (filter (\<lambda>t. \<not> th_finished t) ts)"

lemma unfinished_simps [simp]:
  "unfinished [] = []" "unfinished (xs @ ys) = unfinished xs @ unfinished ys"
  "unfinished (t # ts) = (if th_finished t then unfinished ts else th_subdomain t # unfinished ts)"
  by (simp_all add: unfinished_def)

lemma unfinished_join [simp]: "unfinished (join_threads ts) = unfinished ts"
  by (induction ts) simp_all

lemma bus_turn_receives:
  assumes d: "zmq_delivers A (sock_ptr subscriber) pending" and turn: "bus_turn A subscriber s = (Inr subdomain, s')"
  shows "pending (bs_world s) = subdomain # pending (bs_world s')"
    and "bs_server s' = reload_site subdomain (bs_server s)"
    and "unfinished (bs_threads s') = unfinished (bs_threads s) @ [subdomain]"
proof -
  obtain rc m w where i: "zmq_msg_init A (bs_world s) = ((rc, m), w)" by (metis surj_pair)
  then have m: "message_new A (bs_world s) = (Inr m, w)"
    using turn by (auto simp: bus_turn_def message_new_def message_from_def throw_error_def split: if_splits)
  obtain n update w' where r: "zmq_msg_recv A m (sock_ptr subscriber) 0 w = ((n, update), w')" by (metis surj_pair)
  have n: "0 \<le> n"
    using turn zmq_deliversD(4) [OF d r] by (auto simp: bus_turn_def m socket_recv_def r transferred_def split: prod.splits if_splits)
  note t = zmq_deliversD(3) [OF d r n]
  have x: "ebind (transferred A n True False w') (\<lambda>_. message_text A update) = Inr (zmq_msg_data A update)"
    using n t by (simp add: transferred_def message_text_def)
  obtain rc' m' w'' where c: "zmq_msg_close A update w' = ((rc', m'), w'')" by (metis surj_pair)
  then have f: "message_free A update w' = (if rc' = 0 then Inr () else Inl Aborts, w'')"
    by (simp add: message_free_def call_asserted_def)
  have s: "subdomain = zmq_msg_data A update \<and> s' = s\<lparr>bs_world := w'', bs_server := reload_site subdomain (bs_server s),
      bs_threads := join_threads (bs_threads s) @ [\<lparr>th_subdomain = subdomain, th_finished = False\<rparr>]\<rparr>"
    using turn by (auto simp: bus_turn_def m socket_recv_def r x f split: if_splits)
  show "pending (bs_world s) = subdomain # pending (bs_world s')"
    using s t zmq_deliversD(1) [OF d i] zmq_deliversD(2) [OF d c] by simp
  show "bs_server s' = reload_site subdomain (bs_server s)"
    "unfinished (bs_threads s') = unfinished (bs_threads s) @ [subdomain]" using s by simp_all
qed

text \<open>(C24) What the bus makes of the messages, over a library that delivers them as documented.  However the turns of
  its thread and the reload threads interleave: the messages are taken in the order in which they come, none
  is skipped or taken twice; the server changes by the reloads of exactly the sites that the events name, in their
  order; and each message's site is reloaded when the message is received and once more by a thread, those
  of the messages whose thread has not run yet being outstanding.\<close>

theorem bus_refines:
  assumes "zmq_delivers A (sock_ptr subscriber) pending" and "bus_run A subscriber s es s'"
  shows "pending (bs_world s) = received es @ pending (bs_world s') \<and>
    bs_server s' = fold reload_site (map event_site es) (bs_server s) \<and>
    mset (unfinished (bs_threads s)) + mset (received es) = mset (reran es) + mset (unfinished (bs_threads s'))"
  using assms(2)
proof (induction rule: bus_run.induct)
  case (run_nothing s)
  then show ?case by simp
next
  case (run_move s es s' e s'')
  from run_move.hyps(2) show ?case
  proof cases
    case (move_turn subdomain)
    with bus_turn_receives [OF assms(1), of s' subdomain s''] run_move.IH show ?thesis by simp
  next
    case (move_thread xs t ys)
    with run_move.IH show ?thesis by simp
  qed
qed

text \<open>When \<open>recv\<close> fails, as it does when a signal interrupts the wait, the exception leaves the loop: nothing catches it in
  the thread, which ends the program.\<close>

lemma bus_turn_interrupted:
  assumes "message_new A (bs_world s) = (Inr m, w)"
    and "zmq_msg_recv A m (sock_ptr subscriber) 0 w = ((- 1, m'), w')"
    and "zmq_errno A w' \<noteq> zmq_EAGAIN A" and "message_free A m' w' = (Inr (), w'')"
  shows "bus_turn A subscriber s = (Inl (zmq_error A w'), s\<lparr>bs_world := w''\<rparr>)"
  using assms by (simp add: bus_turn_def socket_recv_def transferred_def)

text \<open>When the address is in use, \<open>bind\<close> throws before the loop.\<close>

lemma bus_bind_fails:
  assumes "zmq_context_new_with A 1 n w = (Inr ctx, w1)" and "socket_new A ctx (zmq_PULL A) w1 = (Inr sock, w2)"
    and "zmq_bind A (sock_ptr sock) addr w2 = (- 1, w3)"
  shows "bus_open A n addr w = (Inl (zmq_error A w3), w3)"
  using assms by (simp add: bus_open_def socket_bind_def call_checked_def throw_error_def)

section \<open>A library that delivers from a queue\<close>

text \<open>A world is the list of messages still to come; when there is none, a call is interrupted.\<close>

definition queue_api :: "(string list, string) zmq_api" where
  "queue_api = \<lparr>zmq_EAGAIN = 11, zmq_ETERM = 156384765, zmq_PAIR = 0, zmq_PULL = 7, zmq_IO_THREADS = 1,
     zmq_MAX_SOCKETS = 2, zmq_EVENT = (\<lambda>_. 0), zmq_errno = (\<lambda>_. 4), zmq_strerror = (\<lambda>_. ''Interrupted system call''),
     zmq_poll = (\<lambda>items _ w. ((0, items), w)), zmq_proxy = (\<lambda>_ _ _ w. (- 1, w)), zmq_proxy_steerable = (\<lambda>_ _ _ _ w. (- 1, w)),
     zmq_msg_init = (\<lambda>w. ((0, []), w)), zmq_msg_init_size = (\<lambda>n w. ((0, replicate n (char_of (0 :: nat))), w)),
     zmq_msg_init_data = (\<lambda>d w. ((0, d), w)), zmq_msg_close = (\<lambda>m w. ((0, []), w)),
     zmq_msg_move = (\<lambda>m n w. ((0, n, []), w)), zmq_msg_copy = (\<lambda>m n w. ((0, n, n), w)),
     zmq_msg_more = (\<lambda>_. 0), zmq_msg_data = (\<lambda>m. m), zmq_msg_size = length,
     zmq_ctx_new = (\<lambda>w. (Some 1, w)), zmq_ctx_set = (\<lambda>_ _ _ w. (0, w)), zmq_ctx_destroy = (\<lambda>_ w. (0, w)),
     zmq_socket = (\<lambda>_ _ w. (Some 2, w)), zmq_close = (\<lambda>_ w. (0, w)), zmq_setsockopt = (\<lambda>_ _ _ w. (0, w)),
     zmq_getsockopt = (\<lambda>_ _ _ w. ((0, []), w)), zmq_bind = (\<lambda>_ _ w. (0, w)), zmq_unbind = (\<lambda>_ _ w. (0, w)),
     zmq_connect = (\<lambda>_ _ w. (0, w)), zmq_disconnect = (\<lambda>_ _ w. (0, w)), zmq_send = (\<lambda>_ d _ w. (int (length d), w)),
     zmq_msg_send = (\<lambda>m _ _ w. ((int (length m), []), w)), zmq_recv = (\<lambda>_ _ _ w. ((- 1, []), w)),
     zmq_msg_recv = (\<lambda>m _ _ w. case w of [] \<Rightarrow> ((- 1, m), w) | d # w' \<Rightarrow> ((int (length d), d), w')),
     zmq_socket_monitor = (\<lambda>_ _ _ w. (- 1, w))\<rparr>"

lemmas queue_calls = queue_api_def bus_turn_def message_new_def message_from_def socket_recv_def message_text_def
  message_free_def call_asserted_def transferred_def

lemma queue_delivers: "zmq_delivers queue_api p id"
  by (auto simp: zmq_delivers_def queue_api_def split: list.splits)

theorem bus_refines_witness:
  "\<forall>(sv :: ('c, 'k, 'd, 'n) server) subscriber. \<exists>s'.
     bus_run queue_api subscriber \<lparr>bs_world = [''a'', ''b''], bs_server = sv, bs_threads = []\<rparr>
       [Received ''a'', Reran ''a'', Received ''b''] s' \<and>
     bs_server s' = reload_site ''b'' (reload_site ''a'' (reload_site ''a'' sv)) \<and> bs_world s' = [] \<and>
     mset (unfinished (bs_threads s')) = {#''b''#}"
proof (intro allI)
  fix sv :: "('c, 'k, 'd, 'n) server" and subscriber
  let ?t = "\<lambda>d f. \<lparr>th_subdomain = d, th_finished = f\<rparr>" and ?s = "\<lambda>w x ts. \<lparr>bs_world = w, bs_server = x, bs_threads = ts\<rparr>"
  let ?sv = "reload_site ''a'' sv"
  have "bus_run queue_api subscriber (?s [''a'', ''b''] sv []) ([] @ [Received ''a'']) (?s [''b''] ?sv [?t ''a'' False])"
    by (rule run_move [OF run_nothing], rule move_turn) (simp add: queue_calls)
  moreover have "bus_move queue_api subscriber (?s [''b''] ?sv [?t ''a'' False]) (Reran ''a'')
      (?s [''b''] (reload_site ''a'' ?sv) [?t ''a'' True])"
    using move_thread [of "?s [''b''] ?sv [?t ''a'' False]" "[]" "?t ''a'' False" "[]" queue_api subscriber] by simp
  ultimately have "bus_run queue_api subscriber (?s [''a'', ''b''] sv []) (([] @ [Received ''a'']) @ [Reran ''a''])
      (?s [''b''] (reload_site ''a'' ?sv) [?t ''a'' True])"
    by (rule run_move)
  moreover have "bus_move queue_api subscriber (?s [''b''] (reload_site ''a'' ?sv) [?t ''a'' True]) (Received ''b'')
      (?s [] (reload_site ''b'' (reload_site ''a'' ?sv)) [?t ''b'' False])"
    by (rule move_turn) (simp add: queue_calls)
  ultimately have r: "bus_run queue_api subscriber (?s [''a'', ''b''] sv []) ((([] @ [Received ''a'']) @ [Reran ''a'']) @ [Received ''b''])
      (?s [] (reload_site ''b'' (reload_site ''a'' ?sv)) [?t ''b'' False])"
    by (rule run_move)
  from bus_refines [OF queue_delivers r] r show "\<exists>s'. bus_run queue_api subscriber (?s [''a'', ''b''] sv [])
       [Received ''a'', Reran ''a'', Received ''b''] s' \<and>
     bs_server s' = reload_site ''b'' (reload_site ''a'' (reload_site ''a'' sv)) \<and> bs_world s' = [] \<and>
     mset (unfinished (bs_threads s')) = {#''b''#}"
    by (intro exI [of _ "?s [] (reload_site ''b'' (reload_site ''a'' ?sv)) [?t ''b'' False]"]) simp
qed

text \<open>On the empty queue the wait is interrupted, and the turn throws.\<close>

lemma queue_interrupted:
  "fst (bus_turn queue_api subscriber \<lparr>bs_world = [], bs_server = sv, bs_threads = ts\<rparr>) =
    Inl (StdError ''Interrupted system call'')"
  by (simp add: queue_calls zmq_error_def)

end
