(* ===== verification/S3.thy ===== *)
theory S3
  imports Prelude "HOL-Library.List_Lexorder" "HOL-Library.Char_ord"
begin

text \<open>
  \<^verbatim>\<open>src/s3.cpp\<close>: downloads with a file cache.  The file system is a map from paths to contents; libs3
  and \<open>boost::filesystem\<close> are parameters.
\<close>

section \<open>State\<close>

type_synonym files = "string \<rightharpoonup> string"

text \<open>
  What a download of libs3 comes to: the buffers it hands to the data callback, whether the status it
  completes with is \<open>S3StatusOK\<close>, and the message of the error details, if there are any.
\<close>

record download =
  dl_buffers :: "string list"
  dl_ok :: bool
  dl_message :: "string option"

text \<open>
  \<open>fs_join\<close> is \<open>operator/\<close> on paths, \<open>fs_unique\<close> the fresh name under \<open>/tmp\<close>, \<open>fs_can_open\<close> says
  whether a stream opens for writing, and \<open>fs_can_rename\<close> whether a rename succeeds, which it does not
  across file systems.
\<close>

record s3_env =
  s3_get_object :: "string \<Rightarrow> download"
  fs_join :: "string \<Rightarrow> string \<Rightarrow> string"
  fs_unique :: string
  fs_can_open :: "string \<Rightarrow> bool"
  fs_can_rename :: "string \<Rightarrow> string \<Rightarrow> bool"
  s3_cache_path :: string

record transfer =
  tr_failed :: bool
  tr_temp_open :: bool
  tr_cachename :: string
  tr_tempname :: string
  tr_ss :: string
  tr_error_message :: string
  tr_objectname :: string

definition object_cache_path :: "s3_env \<Rightarrow> string \<Rightarrow> string" where
  "object_cache_path S objectname = fs_join S (s3_cache_path S) objectname"

section \<open>The operations of a transfer\<close>

text \<open>The constructor opens the temporary file, which creates it.\<close>

definition transfer_new :: "s3_env \<Rightarrow> string \<Rightarrow> files \<Rightarrow> transfer \<times> files" where
  "transfer_new S objectname fs =
     (let tempname = fs_unique S; opened = fs_can_open S tempname
      in (\<lparr>tr_failed = False, tr_temp_open = opened, tr_cachename = object_cache_path S objectname,
            tr_tempname = tempname, tr_ss = [], tr_error_message = ''unknown error.'',
            tr_objectname = objectname\<rparr>,
          if opened then fs(tempname \<mapsto> []) else fs))"

definition get_error :: "transfer \<Rightarrow> string" where
  "get_error ts = ''Error reading '' @ tr_objectname ts @ '': '' @ tr_error_message ts"

definition commit_buffer :: "string \<Rightarrow> transfer \<times> files \<Rightarrow> transfer \<times> files" where
  "commit_buffer cbfr = (\<lambda>(ts, fs).
     (ts\<lparr>tr_ss := tr_ss ts @ cbfr\<rparr>,
      if tr_temp_open ts then fs(tr_tempname ts := map_option (\<lambda>c. c @ cbfr) (fs (tr_tempname ts))) else fs))"

definition response_complete :: "bool \<Rightarrow> string option \<Rightarrow> transfer \<Rightarrow> transfer" where
  "response_complete ok message ts =
     (let ts1 = (if \<not> ok then ts\<lparr>tr_failed := True\<rparr> else ts)
      in case message of Some m \<Rightarrow> ts1\<lparr>tr_error_message := m\<rparr> | None \<Rightarrow> ts1)"

text \<open>The cached file is removed before the new one is moved to its place.\<close>

definition finalize :: "s3_env \<Rightarrow> transfer \<times> files \<Rightarrow> files" where
  "finalize S = (\<lambda>(ts, fs).
     (if \<not> tr_temp_open ts then fs
      else if tr_failed ts then fs(tr_tempname ts := None)
      else
        let fs1 = fs(tr_cachename ts := None)
        in if fs_can_rename S (tr_tempname ts) (tr_cachename ts)
           then fs1(tr_cachename ts := fs1 (tr_tempname ts), tr_tempname ts := None)
           else fs1))"

definition read_cache :: "s3_env \<Rightarrow> string \<Rightarrow> files \<Rightarrow> string" where
  "read_cache S objectname fs = (case fs (object_cache_path S objectname) of None \<Rightarrow> [] | Some c \<Rightarrow> c)"

definition get_value :: "s3_env \<Rightarrow> transfer \<Rightarrow> files \<Rightarrow> string" where
  "get_value S ts fs =
     (if \<not> tr_failed ts then tr_ss ts
      else if fs (tr_cachename ts) \<noteq> None then read_cache S (tr_objectname ts) fs
      else [])"

definition read_s3 :: "s3_env \<Rightarrow> string \<Rightarrow> files \<Rightarrow> string \<times> files" where
  "read_s3 S objectname fs =
     (let d = s3_get_object S objectname;
          start = transfer_new S objectname fs;
          (ts, fs1) = fold commit_buffer (dl_buffers d) start;
          ts1 = response_complete (dl_ok d) (dl_message d) ts;
          fs2 = finalize S (ts1, fs1)
      in (get_value S ts1 fs2, fs2))"

section \<open>What a read comes to\<close>

lemma fold_commit_closed:
  "\<not> tr_temp_open ts \<Longrightarrow> fold commit_buffer bs (ts, fs) = (ts\<lparr>tr_ss := tr_ss ts @ concat bs\<rparr>, fs)"
  by (induction bs arbitrary: ts) (simp_all add: commit_buffer_def)

lemma fold_commit_open:
  "tr_temp_open ts \<Longrightarrow> fold commit_buffer bs (ts, fs(tr_tempname ts \<mapsto> c)) =
     (ts\<lparr>tr_ss := tr_ss ts @ concat bs\<rparr>, fs(tr_tempname ts \<mapsto> c @ concat bs))"
proof (induction bs arbitrary: ts c)
  case (Cons b bs)
  have upd: "tr_temp_open (ts\<lparr>tr_ss := x\<rparr>) = tr_temp_open ts" "tr_tempname (ts\<lparr>tr_ss := x\<rparr>) = tr_tempname ts"
    "tr_ss (ts\<lparr>tr_ss := x\<rparr>) = x" "ts\<lparr>tr_ss := x, tr_ss := y\<rparr> = ts\<lparr>tr_ss := y\<rparr>" for x y
    by simp_all
  have "commit_buffer b (ts, fs(tr_tempname ts \<mapsto> c)) =
      (ts\<lparr>tr_ss := tr_ss ts @ b\<rparr>, fs(tr_tempname ts \<mapsto> c @ b))"
    using Cons.prems by (simp add: commit_buffer_def)
  with Cons.IH [of "ts\<lparr>tr_ss := tr_ss ts @ b\<rparr>" "c @ b"] Cons.prems show ?case
    by (simp only: upd fold_simps concat.simps append_assoc)
qed simp

text \<open>The value: what was downloaded, else what the cache has, else nothing.\<close>

definition downloaded :: "s3_env \<Rightarrow> string \<Rightarrow> string option" where
  "downloaded S objectname =
     (let d = s3_get_object S objectname in if dl_ok d then Some (concat (dl_buffers d)) else None)"

definition caches_file :: "s3_env \<Rightarrow> string \<Rightarrow> bool" where
  "caches_file S objectname \<longleftrightarrow> fs_can_open S (fs_unique S) \<and>
     fs_can_rename S (fs_unique S) (object_cache_path S objectname)"

lemma finalize_open:
  assumes "tr_temp_open ts" and "tr_tempname ts \<noteq> tr_cachename ts"
  shows "\<not> tr_failed ts \<Longrightarrow> finalize S (ts, fs(tr_tempname ts \<mapsto> v)) =
      (if fs_can_rename S (tr_tempname ts) (tr_cachename ts)
       then fs(tr_cachename ts \<mapsto> v, tr_tempname ts := None)
       else fs(tr_cachename ts := None, tr_tempname ts \<mapsto> v))"
    and "tr_failed ts \<Longrightarrow> finalize S (ts, fs(tr_tempname ts \<mapsto> v)) = fs(tr_tempname ts := None)"
  using assms by (simp_all add: finalize_def Let_def fun_upd_twist [of "tr_tempname ts" "tr_cachename ts"])

lemma read_s3_open:
  assumes "fs_can_open S (fs_unique S)" and "fs_unique S \<noteq> object_cache_path S objectname"
  shows "read_s3 S objectname fs =
    (case downloaded S objectname of
       Some v \<Rightarrow> (v,
         if caches_file S objectname
         then fs(object_cache_path S objectname \<mapsto> v, fs_unique S := None)
         else fs(object_cache_path S objectname := None, fs_unique S \<mapsto> v))
     | None \<Rightarrow> (case fs (object_cache_path S objectname) of None \<Rightarrow> [] | Some c \<Rightarrow> c, fs(fs_unique S := None)))"
proof -
  let ?d = "s3_get_object S objectname" and ?p = "object_cache_path S objectname" and ?t = "fs_unique S"
  define ts where "ts = \<lparr>tr_failed = False, tr_temp_open = True, tr_cachename = ?p,
    tr_tempname = ?t, tr_ss = [], tr_error_message = ''unknown error.'', tr_objectname = objectname\<rparr>"
  define ts1 where "ts1 = response_complete (dl_ok ?d) (dl_message ?d) (ts\<lparr>tr_ss := concat (dl_buffers ?d)\<rparr>)"
  have ts1: "tr_temp_open ts1" "tr_tempname ts1 = ?t" "tr_cachename ts1 = ?p" "tr_objectname ts1 = objectname"
    "tr_failed ts1 = (\<not> dl_ok ?d)" "tr_ss ts1 = concat (dl_buffers ?d)"
    by (simp_all add: ts1_def ts_def response_complete_def Let_def split: option.split)
  have "fold commit_buffer (dl_buffers ?d) (transfer_new S objectname fs) =
      (ts\<lparr>tr_ss := concat (dl_buffers ?d)\<rparr>, fs(?t \<mapsto> concat (dl_buffers ?d)))"
    using fold_commit_open [of ts "dl_buffers ?d" fs "[]"] assms(1)
    by (simp add: transfer_new_def ts_def Let_def)
  then have r: "read_s3 S objectname fs =
      (let fs2 = finalize S (ts1, fs(?t \<mapsto> concat (dl_buffers ?d))) in (get_value S ts1 fs2, fs2))"
    by (simp add: read_s3_def ts1_def Let_def)
  note f = finalize_open [of ts1 S fs "concat (dl_buffers ?d)", unfolded ts1(2,3), OF ts1(1) assms(2)]
  show ?thesis
  proof (cases "dl_ok ?d")
    case True
    with f(1) ts1 assms(1) show ?thesis
      unfolding r by (simp add: Let_def get_value_def downloaded_def caches_file_def)
  next
    case False
    with f(2) ts1 assms(2) show ?thesis
      unfolding r by (simp add: Let_def get_value_def downloaded_def read_cache_def split: option.split)
  qed
qed

text \<open>One read, whether the temporary file opens or not: its result, and what it leaves under any path that is not
  its temporary file.\<close>

definition cached_after :: "string \<Rightarrow> s3_env \<times> string \<Rightarrow> string option \<Rightarrow> string option" where
  "cached_after path = (\<lambda>(S, name) old.
     if object_cache_path S name = path \<and> fs_can_open S (fs_unique S) then
       (case downloaded S name of
          None \<Rightarrow> old
        | Some v \<Rightarrow> if fs_can_rename S (fs_unique S) path then Some v else None)
     else old)"

lemma read_s3_closed:
  assumes "\<not> fs_can_open S (fs_unique S)"
  shows "read_s3 S name fs = (case downloaded S name of Some v \<Rightarrow> v
      | None \<Rightarrow> (case fs (object_cache_path S name) of None \<Rightarrow> [] | Some c \<Rightarrow> c), fs)"
proof -
  let ?d = "s3_get_object S name"
  define ts where "ts = fst (transfer_new S name fs)"
  have t: "transfer_new S name fs = (ts, fs)" and ts: "\<not> tr_temp_open ts" "\<not> tr_failed ts" "tr_ss ts = []"
    "tr_cachename ts = object_cache_path S name" "tr_objectname ts = name"
    using assms by (simp_all add: ts_def transfer_new_def Let_def)
  define ts1 where "ts1 = response_complete (dl_ok ?d) (dl_message ?d) (ts\<lparr>tr_ss := concat (dl_buffers ?d)\<rparr>)"
  have ts1: "\<not> tr_temp_open ts1" "tr_cachename ts1 = object_cache_path S name" "tr_objectname ts1 = name"
    "tr_failed ts1 = (\<not> dl_ok ?d)" "tr_ss ts1 = concat (dl_buffers ?d)"
    using ts by (simp_all add: ts1_def response_complete_def Let_def split: option.split)
  have "read_s3 S name fs = (get_value S ts1 fs, fs)"
    using fold_commit_closed [OF ts(1), of "dl_buffers ?d" fs] ts ts1(1)
    by (simp add: read_s3_def t ts1_def finalize_def Let_def)
  then show ?thesis
    using ts1 by (simp add: get_value_def read_cache_def downloaded_def Let_def split: option.split)
qed

lemma read_s3_result:
  assumes "fs_unique S \<noteq> object_cache_path S name"
  shows "fst (read_s3 S name fs) = (case downloaded S name of Some v \<Rightarrow> v
      | None \<Rightarrow> (case fs (object_cache_path S name) of None \<Rightarrow> [] | Some c \<Rightarrow> c))"
proof (cases "fs_can_open S (fs_unique S)")
  case True
  from read_s3_open [OF this assms] show ?thesis by (simp split: option.split)
qed (simp add: read_s3_closed)

lemma read_s3_files:
  assumes "fs_unique S \<noteq> object_cache_path S name" and "fs_unique S \<noteq> path"
  shows "snd (read_s3 S name fs) path = cached_after path (S, name) (fs path)"
proof (cases "fs_can_open S (fs_unique S)")
  case True
  show ?thesis
    unfolding read_s3_open [OF True assms(1)] cached_after_def caches_file_def using assms(2)
    by (cases "downloaded S name"; cases "object_cache_path S name = path"; simp add: True)
qed (simp add: read_s3_closed cached_after_def)

definition read_all :: "(s3_env \<times> string) list \<Rightarrow> files \<Rightarrow> files" where
  "read_all = fold (\<lambda>(S, name) fs. snd (read_s3 S name fs))"

lemma read_all_files:
  assumes "\<forall>(S, name)\<in>set reads. fs_unique S \<noteq> object_cache_path S name \<and> fs_unique S \<noteq> path"
  shows "read_all reads fs path = fold (cached_after path) reads (fs path)"
  using assms
proof (induction reads arbitrary: fs)
  case Nil
  then show ?case by (simp add: read_all_def)
next
  case (Cons r reads)
  obtain S name where r: "r = (S, name)" by (metis surj_pair)
  have "snd (read_s3 S name fs) path = cached_after path r (fs path)"
    using Cons.prems r by (simp add: read_s3_files)
  with Cons.IH [of "snd (read_s3 S name fs)"] Cons.prems r show ?case by (simp add: read_all_def)
qed

section \<open>Properties\<close>

definition download_ok :: "string \<Rightarrow> download" where
  "download_ok v = \<lparr>dl_buffers = [v], dl_ok = True, dl_message = None\<rparr>"

definition demo_s3 :: "bool \<Rightarrow> download \<Rightarrow> s3_env" where
  "demo_s3 can_rename d = \<lparr>s3_get_object = (\<lambda>_. d), fs_join = (\<lambda>p n. p @ ''/'' @ n), fs_unique = ''/tmp/vaedb-1'',
     fs_can_open = (\<lambda>_. True), fs_can_rename = (\<lambda>_ _. can_rename), s3_cache_path = ''/c''\<rparr>"

definition download_failed :: download where
  "download_failed = \<lparr>dl_buffers = [''par''], dl_ok = False, dl_message = Some ''timeout''\<rparr>"



text \<open>Where the temporary file cannot be renamed into the cache, because \<^verbatim>\<open>/tmp\<close> is on another file
  system, a successful download destroys the cached copy: the next failing download gives the empty
  string instead of any earlier content.\<close>

theorem s3_failed_rename_loses_cache:
  assumes "downloaded S name = Some v" and "fs_can_open S (fs_unique S)"
    and "\<not> fs_can_rename S (fs_unique S) (object_cache_path S name)"
    and "downloaded S' name = None" and "object_cache_path S' name = object_cache_path S name"
    and "fs_unique S \<noteq> object_cache_path S name" and "fs_unique S' \<noteq> object_cache_path S name"
  shows "snd (read_s3 S name fs) (object_cache_path S name) = None \<and>
    fst (read_s3 S' name (snd (read_s3 S name fs))) = []"
proof -
  have r: "read_s3 S name fs = (v, fs(object_cache_path S name := None, fs_unique S \<mapsto> v))"
    using read_s3_open [OF assms(2,6), of fs] assms(1-3) by (simp add: caches_file_def)
  then show ?thesis
    using read_s3_result [of S' name "snd (read_s3 S name fs)"] r assms(4-7) by simp
qed

theorem s3_failed_rename_loses_cache_witness:
  "fst (read_s3 (demo_s3 False download_failed) ''a''
     (snd (read_s3 (demo_s3 False (download_ok ''feed'')) ''a'' [''/c/a'' \<mapsto> ''old'']))) = []"
  by (rule s3_failed_rename_loses_cache [THEN conjunct2])
    (simp_all add: downloaded_def demo_s3_def download_ok_def download_failed_def object_cache_path_def)

end
