(* ===== verification/Startup.thy ===== *)
theory Startup
  imports Prelude
begin

text \<open>
  \<^verbatim>\<open>src/logger.h\<close> and the settings of \<^verbatim>\<open>src/main.cpp\<close>: log levels, what is logged at a level, and the
  options with their defaults.  The parsed command line and the environment are maps from names to
  texts.
\<close>

section \<open>Log levels\<close>

datatype log_level = LevelError | LevelWarning | LevelInfo | LevelDebug

fun level_rank :: "log_level \<Rightarrow> nat" where
  "level_rank LevelError = 0"
| "level_rank LevelWarning = 1"
| "level_rank LevelInfo = 2"
| "level_rank LevelDebug = 3"

lemma level_rank_inj: "level_rank a = level_rank b \<Longrightarrow> a = b"
  by (cases a; cases b) simp_all

instantiation log_level :: linorder
begin

definition less_eq_log_level :: "log_level \<Rightarrow> log_level \<Rightarrow> bool" where
  "less_eq_log_level a b \<longleftrightarrow> level_rank a \<le> level_rank b"

definition less_log_level :: "log_level \<Rightarrow> log_level \<Rightarrow> bool" where
  "less_log_level a b \<longleftrightarrow> level_rank a < level_rank b"

instance
  by standard (auto simp: less_eq_log_level_def less_log_level_def intro: level_rank_inj)

end

text \<open>\<open>L(level)\<close> logs unless the level is above the one displayed.\<close>

record logger =
  lg_display :: log_level
  lg_lines :: "(log_level \<times> string) list"

definition logger_init :: logger where
  "logger_init = \<lparr>lg_display = LevelInfo, lg_lines = []\<rparr>"

definition log_line :: "log_level \<Rightarrow> string \<Rightarrow> logger \<Rightarrow> logger" where
  "log_line level text lg =
     (if level > lg_display lg then lg else lg\<lparr>lg_lines := lg_lines lg @ [(level, text)]\<rparr>)"

section \<open>Settings\<close>

type_synonym vars = "string \<Rightarrow> string option"

record settings =
  set_aws_access_key :: string
  set_aws_secret_key :: string
  set_aws_bucket :: string
  set_mysql_username :: string
  set_mysql_password :: string
  set_mysql_database :: string
  set_mysql_host :: string
  set_memcached_host :: string
  set_feed_cache_path :: string
  set_busaddress :: string
  set_test_mode :: bool

text \<open>An option given wins over the environment, which wins over the default.\<close>

definition setting :: "vars \<Rightarrow> vars \<Rightarrow> string \<Rightarrow> string \<Rightarrow> string \<Rightarrow> string" where
  "setting opts env opt var dflt =
     (case opts opt of Some v \<Rightarrow> v | None \<Rightarrow> (case env var of Some v \<Rightarrow> v | None \<Rightarrow> dflt))"

definition read_settings :: "vars \<Rightarrow> vars \<Rightarrow> settings" where
  "read_settings opts env = \<lparr>
     set_aws_access_key = setting opts env ''aws_access_key'' ''AWS_ACCESS_KEY'' [],
     set_aws_secret_key = setting opts env ''aws_secret_key'' ''AWS_SECRET_KEY'' [],
     set_aws_bucket = setting opts env ''aws_bucket'' ''AWS_BUCKET_PRIVATE'' [],
     set_mysql_username = setting opts env ''mysql_username'' ''MYSQL_USERNAME'' ''root'',
     set_mysql_password = setting opts env ''mysql_password'' ''MYSQL_PASSWORD'' [],
     set_mysql_database = setting opts env ''mysql_database'' ''MYSQL_DATABASE'' ''vaedb'',
     set_mysql_host = setting opts env ''mysql_host'' ''MYSQL_HOST'' ''localhost'',
     set_memcached_host = setting opts env ''memcached_host'' ''MEMCACHED_HOST'' ''127.0.0.1'',
     set_feed_cache_path = (case opts ''feed_cache_path'' of Some v \<Rightarrow> v | None \<Rightarrow> ''/tmp''),
     set_busaddress = (case opts ''busaddress'' of Some v \<Rightarrow> v | None \<Rightarrow> ''tcp://*:5091''),
     set_test_mode = (opts ''test'' \<noteq> None)\<rparr>"

definition level_of_name :: "string \<Rightarrow> log_level option" where
  "level_of_name v =
     (if v = ''error'' then Some LevelError
      else if v = ''warning'' then Some LevelWarning
      else if v = ''info'' then Some LevelInfo
      else if v = ''debug'' then Some LevelDebug
      else None)"

definition quote_mark :: string where "quote_mark = [CHR 0x27]"

definition set_log_level :: "vars \<Rightarrow> logger \<Rightarrow> logger" where
  "set_log_level opts lg = (case opts ''log_level'' of
     None \<Rightarrow> lg
   | Some v \<Rightarrow>
       (case level_of_name v of
          Some level \<Rightarrow> lg\<lparr>lg_display := level\<rparr>
        | None \<Rightarrow> log_line LevelWarning
            (''Invalid log_level specified: '' @ quote_mark @ v @ quote_mark @ '', defaulting to '' @
             quote_mark @ ''warning'' @ quote_mark @ ''.'') lg))"

section \<open>Properties\<close>

text \<open>The option decides what is logged: a line is logged exactly when its level is not above the
  one chosen.  For an unknown name the program announces ``defaulting to 'warning''', but info lines
  are still logged, because the level stays at its initial value.\<close>

theorem log_level_option:
  "lg_lines (log_line level text (set_log_level opts logger_init)) =
     (case opts ''log_level'' of
        None \<Rightarrow> if level \<le> LevelInfo then [(level, text)] else []
      | Some v \<Rightarrow>
          (case level_of_name v of
             Some chosen \<Rightarrow> if level \<le> chosen then [(level, text)] else []
           | None \<Rightarrow> (LevelWarning, ''Invalid log_level specified: '' @ quote_mark @ v @ quote_mark @
                 '', defaulting to '' @ quote_mark @ ''warning'' @ quote_mark @ ''.'') #
               (if level \<le> LevelInfo then [(level, text)] else [])))"
proof -
  have "LevelWarning \<le> LevelInfo" by (simp add: less_eq_log_level_def)
  then show ?thesis
    by (auto simp: set_log_level_def log_line_def logger_init_def not_less split: option.split)
qed

end
