(* ===== verification/Boot.thy ===== *)
theory Boot
  imports Startup Access BusThread
begin

text \<open>
  The program from its options to a listening server (\<open>main\<close> in \<^verbatim>\<open>src/main.cpp\<close>, the constructors of
  the proxies and of the server), and the connections of the running server.  The operating system and the
  client libraries are parameters.
\<close>

section \<open>What start-up calls\<close>

text \<open>
  Whether the log file and the file of the process id open for writing, and whether \<open>S3_initialize\<close>
  succeeds for a bucket; the pointer of the \<open>i\<close>-th memcache client; the outcome of the \<open>i\<close>-th
  \<open>connect\<close> to a MySQL server by host, user and password, a connection or an \<open>SQLException\<close>; and the
  exception of \<open>setSchema\<close>, if it throws one.  \<open>bt_replace\<close> is \<open>RE(p).Replace(r, &s)\<close>.
\<close>

record ('c, 'd) boot_lib =
  bt_log_opens :: "string \<Rightarrow> bool"
  bt_pid_opens :: bool
  bt_s3_initialize :: "string \<Rightarrow> bool"
  bt_replace :: "string \<Rightarrow> string \<Rightarrow> string \<Rightarrow> string option"
  bt_memcache :: "string \<Rightarrow> nat \<Rightarrow> 'c"
  bt_connect :: "string \<Rightarrow> string \<Rightarrow> string \<Rightarrow> nat \<Rightarrow> string + 'd"
  bt_set_schema :: "'d \<Rightarrow> string \<Rightarrow> string option"

text \<open>The keys that \<open>initialize_s3\<close> keeps.\<close>

record s3_keys =
  sk_access_key :: string
  sk_secret_key :: string
  sk_bucket :: string
  sk_cache_path :: string

definition initialize_s3 ::
  "('c, 'd) boot_lib \<Rightarrow> string \<Rightarrow> string \<Rightarrow> string \<Rightarrow> string \<Rightarrow> bool \<times> s3_keys" where
  "initialize_s3 B access_key secret_key bucket cache_path =
     (bt_s3_initialize B bucket,
      \<lparr>sk_access_key = access_key, sk_secret_key = secret_key, sk_bucket = bucket, sk_cache_path = cache_path\<rparr>)"

section \<open>The proxies\<close>

definition mysql_create_connection ::
  "('c, 'd) boot_lib \<Rightarrow> settings \<Rightarrow> nat \<Rightarrow> logger \<Rightarrow> 'd option \<times> logger" where
  "mysql_create_connection B st i lg =
     (case bt_connect B (''tcp://'' @ set_mysql_host st @ '':3306'') (set_mysql_username st) (set_mysql_password st) i of
        Inl what \<Rightarrow> (None, log_line LevelError (''Error Connecting To MySQL: '' @ what) lg)
      | Inr con \<Rightarrow>
          (case bt_set_schema B con (set_mysql_database st) of
             Some what \<Rightarrow> (None, log_line LevelError (''Error Selecting Database in MySQL: '' @ what) lg)
           | None \<Rightarrow> (Some con, lg)))"

fun create_connections :: "(nat \<Rightarrow> logger \<Rightarrow> 'd option \<times> logger) \<Rightarrow> nat list \<Rightarrow> logger \<Rightarrow> 'd option list \<times> logger" where
  "create_connections create [] lg = ([], lg)"
| "create_connections create (i # is) lg =
     (case create i lg of (con, lg1) \<Rightarrow>
     (case create_connections create is lg1 of (cons, lg2) \<Rightarrow> (con # cons, lg2)))"

definition mysql_proxy_new ::
  "('c, 'd) boot_lib \<Rightarrow> settings \<Rightarrow> int \<Rightarrow> logger \<Rightarrow> 'd pool \<times> logger" where
  "mysql_proxy_new B st workers lg =
     (case create_connections (mysql_create_connection B st) [0..<pool_size workers]
             (log_line LevelInfo ('' Connecting to MySQL Server: '' @ set_mysql_host st) lg) of
        (created, lg') \<Rightarrow> (pool_new created workers, lg'))"

definition memcache_proxy_new ::
  "('c, 'd) boot_lib \<Rightarrow> string \<Rightarrow> int \<Rightarrow> logger \<Rightarrow> 'c pool \<times> logger" where
  "memcache_proxy_new B c workers lg =
     (let connect_to = connect_string (bt_replace B) c
      in (pool_new (map (\<lambda>i. Some (bt_memcache B connect_to i)) [0..<pool_size workers]) workers,
          log_line LevelInfo ('' Connecting to Memcache via: '' @ connect_to) lg))"

section \<open>The program\<close>

definition write_pid :: "('c, 'd) boot_lib \<Rightarrow> logger \<Rightarrow> logger" where
  "write_pid B lg =
     (if bt_pid_opens B then lg else log_line LevelWarning ''Could not write PID file /tmp/vaedb.pid'' lg)"

text \<open>What the program runs with once it listens.\<close>

record ('c, 'm, 'd, 'n) started =
  up_test_mode :: bool
  up_port :: int
  up_workers :: int
  up_bindaddress :: string
  up_database :: string
  up_s3 :: s3_keys
  up_server :: "('c, 'm, 'd, 'n) server"
  up_bus :: "reload_thread list"

datatype ('c, 'm, 'd, 'n) boot =
    Exits int logger
  | Starts "('c, 'm, 'd, 'n) started" logger

definition open_query_log :: "('c, 'd) boot_lib \<Rightarrow> vars \<Rightarrow> logger \<Rightarrow> bool \<times> logger" where
  "open_query_log B opts lg =
     (case opts ''query_log'' of
        None \<Rightarrow> (False, lg)
      | Some name \<Rightarrow>
          if bt_log_opens B name then (True, lg)
          else (False, log_line LevelWarning
            (''Unable to write to query log file: '' @ quote_mark @ name @ quote_mark @ ''.'') lg))"

text \<open>\<open>m\<close> and \<open>n\<close> are what the memcache and MySQL servers hold, \<open>now\<close> is the clock.\<close>

definition vaedb_main ::
  "('c, 'd) boot_lib \<Rightarrow> vars \<Rightarrow> (string \<Rightarrow> int option) \<Rightarrow> vars \<Rightarrow> 'm \<Rightarrow> 'n \<Rightarrow> int \<Rightarrow> ('c, 'm, 'd, 'n) boot" where
  "vaedb_main B opts numbers environ m n now =
     (let st = read_settings opts environ;
          port = (case numbers ''port'' of Some i \<Rightarrow> i | None \<Rightarrow> 9094);
          workers = (case numbers ''workers'' of Some i \<Rightarrow> i | None \<Rightarrow> 128)
      in
      if opts ''help'' \<noteq> None then Exits 1 logger_init
      else
        let lg1 = set_log_level opts logger_init;
            (has_out, lg2) = open_query_log B opts lg1;
            (s3_ok, keys) = initialize_s3 B (set_aws_access_key st) (set_aws_secret_key st) (set_aws_bucket st)
               (set_feed_cache_path st)
        in
        if \<not> s3_ok then Exits (-1) (log_line LevelError ''S3 failed to initialize.'' lg2)
        else
          let (memcache, lg3) = memcache_proxy_new B (set_memcached_host st) workers lg2;
              (mysql, lg4) = mysql_proxy_new B st workers lg3;
              lg5 = write_pid B lg4
          in Starts \<lparr>up_test_mode = set_test_mode st, up_port = port, up_workers = workers,
               up_bindaddress = set_busaddress st, up_database = set_mysql_database st, up_s3 = keys,
               up_server = server_new (query_log_new has_out) (memcache, m) (mysql, n) now,
               up_bus = []\<rparr> lg5)"

section \<open>The connections of the running server\<close>

definition pools_are :: "'c pool \<Rightarrow> 'd pool \<Rightarrow> ('c, 'm, 'd, 'n) server \<Rightarrow> bool" where
  "pools_are p q sv \<longleftrightarrow> fst (sv_memcache sv) = p \<and> fst (sv_mysql sv) = q"

lemma with_connection_pool:
  assumes "pool_inv p"
  shows "fst (snd (with_connection msg f (p, s))) = p"
proof (cases "get_connection p")
  case (Gets c q)
  with get_free_connection [OF assms Gets] show ?thesis by (simp add: with_connection_def split: prod.split)
qed (simp_all add: with_connection_def)

lemma keeps_pools_memcache:
  assumes "pool_inv p"
  shows "keeps (pools_are p q :: ('c, 'm, 'd, 'n) server \<Rightarrow> bool) (on_memcache (with_connection msg f))"
proof (rule keepsI)
  fix sv :: "('c, 'm, 'd, 'n) server" assume "pools_are p q sv"
  then show "pools_are p q (snd (on_memcache (with_connection msg f) sv))"
    using with_connection_pool [OF assms, of msg f "snd (sv_memcache sv)"]
    by (cases "sv_memcache sv") (simp add: pools_are_def on_memcache_def split_beta)
qed

lemma keeps_pools_mysql:
  assumes "pool_inv q"
  shows "keeps (pools_are p q :: ('c, 'm, 'd, 'n) server \<Rightarrow> bool) (on_mysql (with_connection msg f))"
proof (rule keepsI)
  fix sv :: "('c, 'm, 'd, 'n) server" assume "pools_are p q sv"
  then show "pools_are p q (snd (on_mysql (with_connection msg f) sv))"
    using with_connection_pool [OF assms, of msg f "snd (sv_mysql sv)"]
    by (cases "sv_mysql sv") (simp add: pools_are_def on_mysql_def split_beta)
qed

lemma keeps_pools_parts [keeps_intro]:
  "keeps (pools_are p q) (on_site r m)" "keeps (pools_are p q) (load_site E su st xml)"
  "keeps (pools_are p q) (session_subdomain sid)" "keeps (pools_are p q) (site_at r)"
  "keeps (pools_are p q) (session_at sid)"
  "keeps (pools_are p q) (smodify (\<lambda>sv. sv\<lparr>sv_sessions := f1 sv\<rparr>))"
  "keeps (pools_are p q) (smodify (\<lambda>sv. sv\<lparr>sv_rand_count := n, sv_sessions := f1 sv\<rparr>))"
  "keeps (pools_are p q) (smodify (\<lambda>sv. if b sv then sv\<lparr>sv_sessions := f1 sv\<rparr> else sv))"
  by (auto simp: keeps_def pools_are_def on_site_def load_site_def Let_def session_subdomain_def site_at_def
      session_at_def smodify_def split: prod.split option.split sum.split)

lemma keeps_pools_get_site [keeps_intro]: "keeps (pools_are p q) (get_site E su k st)"
  unfolding get_site_def by (intro keeps_intro)

lemma keeps_pools_handler:
  assumes "pool_inv p" and "pool_inv q"
  shows "keeps (pools_are p q) (handler E ep sid params)"
proof -
  note pools = keeps_pools_memcache [OF assms(1)] keeps_pools_mysql [OF assms(2)]
  show ?thesis
    by (cases ep)
      (simp_all only: handler.simps h_ping_def h_open_session_def h_close_session_def h_create_info_def h_data_def h_get_def
        h_structure_def h_short_term_get_def h_short_term_set_def h_short_term_delete_def h_session_cache_get_def
        h_session_cache_set_def h_session_cache_delete_def h_long_term_get_def h_long_term_set_def
        h_long_term_delete_def h_long_term_empty_def h_sweeper_info_def h_sitewide_lock_def h_sitewide_unlock_def
        memcache_get_def memcache_set_def memcache_remove_def mysql_long_term_get_def mysql_long_term_set_def
        mysql_long_term_delete_def mysql_long_term_empty_def mysql_sweeper_info_def mysql_session_get_def
        mysql_session_set_def mysql_session_delete_def mysql_lock_def mysql_unlock_def,
       (intro keeps_intro pools)+)
qed

lemma pools_are_log [simp]: "pools_are p q (sv\<lparr>sv_query_log := lg\<rparr>) = pools_are p q sv"
  by (simp add: pools_are_def)

lemma pools_are_react:
  assumes "pool_inv p" and "pool_inv q" and ok: "pools_are p q sv"
  shows "pools_are p q (snd (react N E ev sv))"
proof (cases ev)
  case (Request ep body t0 t1)
  have "pools_are p q (snd (handle N E ep body t0 t1 sv))"
  proof (cases rule: handle_cases [of N E ep body t0 t1 sv])
    case (1 lg)
    with ok show ?thesis by simp
  next
    case (2 params sid lg lg')
    have "pools_are p q (snd (handler E ep sid params (sv\<lparr>sv_query_log := lg\<rparr>)))"
      by (rule keepsD [OF keeps_pools_handler [OF assms(1,2)]]) (simp add: ok)
    with 2(3) show ?thesis by simp
  qed
  with Request show ?thesis by (simp add: split_beta)
next
  case Reap
  have "keeps (pools_are p q) (reaper_step E)"
    unfolding reaper_step_def mysql_garbage_collect_def by (intro keeps_intro keeps_pools_mysql [OF assms(2)])
  from keepsD [OF this ok] Reap show ?thesis by simp
qed (use ok in \<open>auto simp: pools_are_def reload_site_def Let_def\<close>)

lemma pools_are_run:
  "pool_inv p \<Longrightarrow> pool_inv q \<Longrightarrow> pools_are p q sv \<Longrightarrow> pools_are p q (after N E evs sv)"
  by (induction evs arbitrary: sv) (simp_all add: pools_are_react)

section \<open>The pools at the start\<close>

text \<open>The connection with a number, if both steps of opening it succeed.\<close>

definition mysql_opened :: "('c, 'd) boot_lib \<Rightarrow> settings \<Rightarrow> nat \<Rightarrow> 'd option" where
  "mysql_opened B st i = fst (mysql_create_connection B st i logger_init)"

lemma mysql_create_connection_fst: "fst (mysql_create_connection B st i lg) = mysql_opened B st i"
  by (simp add: mysql_opened_def mysql_create_connection_def split: sum.split option.split)

lemma create_connections_fst:
  "fst (create_connections (mysql_create_connection B st) is lg) = map (mysql_opened B st) is"
proof (induction "is" arbitrary: lg)
  case (Cons i "is")
  then show ?case using mysql_create_connection_fst [of B st i lg] by (simp add: split_beta)
qed simp

lemma mysql_proxy_new_fst:
  "fst (mysql_proxy_new B st workers lg) = pool_new (map (mysql_opened B st) [0..<pool_size workers]) workers"
  by (simp add: mysql_proxy_new_def split_beta create_connections_fst)

text \<open>Different attempts open different connections.\<close>

definition separate :: "(nat \<Rightarrow> 'c option) \<Rightarrow> bool" where
  "separate f \<longleftrightarrow> (\<forall>i j c. f i = Some c \<longrightarrow> f j = Some c \<longrightarrow> i = j)"

lemma separate_distinct:
  assumes "separate f"
  shows "distinct (map the (filter (\<lambda>c. c \<noteq> None) (map f [0..<n])))"
proof -
  have "distinct (map (\<lambda>i. the (f i)) (filter (\<lambda>i. f i \<noteq> None) [0..<n]))"
    using assms by (auto simp: distinct_map inj_on_def separate_def)
  then show ?thesis by (simp add: filter_map comp_def)
qed

lemma pool_fill_available:
  "available_connections (pool_fill cs p) = available_connections p + int (length (filter (\<lambda>c. c \<noteq> None) cs))"
  by (induction cs p rule: pool_fill.induct) simp_all

lemma pool_at_start:
  assumes "separate f" and "p = pool_new (map f [0..<pool_size workers]) workers"
  shows "pool_inv p" and "available_connections p = int (length (filter (\<lambda>i. f i \<noteq> None) [0..<pool_size workers]))"
  using pool_new_spec [OF separate_distinct [OF assms(1)], of "pool_size workers" workers] assms(2)
  by (simp_all add: pool_new_def pool_fill_available filter_map comp_def)

section \<open>Properties\<close>

lemma startedD:
  assumes "vaedb_main B opts numbers environ m n now = Starts up lg"
  obtains lg1 lg2 lg3 where
    "up_server up = server_new lg1 (fst (memcache_proxy_new B (set_memcached_host (read_settings opts environ)) (up_workers up) lg2), m)
       (fst (mysql_proxy_new B (read_settings opts environ) (up_workers up) lg3), n) now"
    and "opts ''help'' = None" and "bt_s3_initialize B (set_aws_bucket (read_settings opts environ))"
  using assms by (auto simp: vaedb_main_def Let_def initialize_s3_def split_beta split: if_splits)

lemma started_pools:
  assumes "vaedb_main B opts numbers environ m n now = Starts up lg"
    and "\<forall>c. inj (bt_memcache B c)" and "separate (mysql_opened B (read_settings opts environ))"
  obtains p q where "pools_are p q (up_server up)" and "pool_inv p" and "pool_inv q"
    and "available_connections p = int (pool_size (up_workers up))"
    and "available_connections q =
      int (length (filter (\<lambda>i. mysql_opened B (read_settings opts environ) i \<noteq> None) [0..<pool_size (up_workers up)]))"
proof -
  let ?st = "read_settings opts environ" and ?w = "up_workers up"
  let ?f = "\<lambda>i. Some (bt_memcache B (connect_string (bt_replace B) (set_memcached_host ?st)) i)"
  from startedD [OF assms(1)] obtain lg1 lg2 lg3 where
    up: "up_server up = server_new lg1 (fst (memcache_proxy_new B (set_memcached_host ?st) ?w lg2), m)
       (fst (mysql_proxy_new B ?st ?w lg3), n) now" by metis
  have "separate ?f" using assms(2) by (auto simp: separate_def inj_def)
  from pool_at_start [OF this refl] pool_at_start [OF assms(3) mysql_proxy_new_fst] up
  show ?thesis by (intro that) (auto simp: pools_are_def server_new_def memcache_proxy_new_def Let_def)
qed

text \<open>(C11) A server that \<open>main\<close> has started keeps its invariant and its connections: after any sequence of
  requests, reaper turns, reloads and clock ticks, whether the requests succeed or throw, every memcache
  client and every MySQL connection that was opened is available again.\<close>

theorem started_server:
  assumes "vaedb_main B opts numbers environ m n now = Starts up lg"
    and "\<forall>c. inj (bt_memcache B c)" and "separate (mysql_opened B (read_settings opts environ))"
    and "sort_contract (e_sort E)"
  shows "server_ok E (after N E evs (up_server up)) \<and>
    available_connections (fst (sv_memcache (after N E evs (up_server up)))) = int (pool_size (up_workers up)) \<and>
    available_connections (fst (sv_mysql (after N E evs (up_server up)))) =
      int (length (filter (\<lambda>i. mysql_opened B (read_settings opts environ) i \<noteq> None) [0..<pool_size (up_workers up)]))"
proof -
  obtain p q where p: "pools_are p q (up_server up)" "pool_inv p" "pool_inv q"
    "available_connections p = int (pool_size (up_workers up))"
    "available_connections q =
      int (length (filter (\<lambda>i. mysql_opened B (read_settings opts environ) i \<noteq> None) [0..<pool_size (up_workers up)]))"
    using started_pools [OF assms(1-3)] .
  have "server_ok E (up_server up)" using startedD [OF assms(1)] server_ok_new by metis
  from server_ok_run [OF assms(4) this] pools_are_run [OF p(2,3,1)] p(4,5) show ?thesis
    by (simp add: pools_are_def)
qed

text \<open>A start in which only the second of two connections to MySQL can be opened.\<close>

definition demo_boot :: "(nat, nat) boot_lib" where
  "demo_boot = \<lparr>bt_log_opens = (\<lambda>_. True), bt_pid_opens = True, bt_s3_initialize = (\<lambda>_. True),
     bt_replace = (\<lambda>_ _ _. None), bt_memcache = (\<lambda>_ i. i),
     bt_connect = (\<lambda>_ _ _ i. if i = 0 then Inl ''refused'' else Inr i), bt_set_schema = (\<lambda>_ _. None)\<rparr>"

definition demo_numbers :: "string \<Rightarrow> int option" where
  "demo_numbers name = (if name = ''workers'' then Some 8 else None)"

lemma demo_opened: "mysql_opened demo_boot st i = (if i = 0 then None else Some i)"
  by (simp add: mysql_opened_def mysql_create_connection_def demo_boot_def)

lemma demo_starts:
  "\<exists>up lg. vaedb_main demo_boot (\<lambda>_. None) demo_numbers environ m n now = Starts up lg \<and> up_workers up = 8"
  by (simp add: vaedb_main_def Let_def initialize_s3_def split_beta demo_numbers_def) (simp add: demo_boot_def)

theorem started_server_witness:
  "\<forall>N (E :: (nat, 'm, nat, 'n) env) environ (m :: 'm) (n :: 'n) now b. \<exists>up lg.
     vaedb_main demo_boot (\<lambda>_. None) demo_numbers environ m n now = Starts up lg \<and>
     available_connections (fst (sv_mysql (after N (E\<lparr>e_sort := sort_ref\<rparr>)
       [Request SitewideLock b 0 1, Reap] (up_server up)))) = 1"
proof (intro allI)
  fix N and E :: "(nat, 'm, nat, 'n) env" and environ and m :: 'm and n :: 'n and now b
  from demo_starts [of environ m n now] obtain up lg where
    s: "vaedb_main demo_boot (\<lambda>_. None) demo_numbers environ m n now = Starts up lg" "up_workers up = 8" by blast
  have "\<forall>c. inj (bt_memcache demo_boot c)" "separate (mysql_opened demo_boot (read_settings (\<lambda>_. None) environ))"
    by (simp_all add: demo_opened separate_def) (simp add: demo_boot_def)
  from started_server [OF s(1) this, of "E\<lparr>e_sort := sort_ref\<rparr>"] s
  show "\<exists>up lg. vaedb_main demo_boot (\<lambda>_. None) demo_numbers environ m n now = Starts up lg \<and>
     available_connections (fst (sv_mysql (after N (E\<lparr>e_sort := sort_ref\<rparr>)
       [Request SitewideLock b 0 1, Reap] (up_server up)))) = 1"
    by (auto simp: sort_ref_contract demo_opened pool_size_def upt_rec simp del: run_simps)
qed

text \<open>Which requests of a site \<open>su\<close> go to the database: those whose handler calls the MySQL proxy once it
  has read its parameters; \<open>longTermCacheGet\<close> only when it is told not to ask memcache, or memcache has
  nothing.\<close>

definition reads_ok :: "(json, 'a) sm \<Rightarrow> json \<Rightarrow> bool" where
  "reads_ok reads params \<longleftrightarrow> (case fst (reads params) of Inl _ \<Rightarrow> False | Inr _ \<Rightarrow> True)"

fun asks_database ::
  "('c, 'm, 'd, 'n) env \<Rightarrow> string \<Rightarrow> endpoint \<Rightarrow> json \<Rightarrow> ('c, 'm, 'd, 'n) server \<Rightarrow> bool" where
  "asks_database E su LongTermCacheEmpty params sv = True"
| "asks_database E su LongTermCacheSweeperInfo params sv = True"
| "asks_database E su SitewideLock params sv = reads_ok (sparam ''iden'') params"
| "asks_database E su SitewideUnlock params sv = reads_ok (sparam ''iden'') params"
| "asks_database E su SessionCacheGet params sv = reads_ok (sparam ''key'') params"
| "asks_database E su SessionCacheSet params sv =
     reads_ok (sbind (sparam ''key'') (\<lambda>key. sbind (sparam ''value'') (\<lambda>v. sret (key, v)))) params"
| "asks_database E su SessionCacheDelete params sv = reads_ok (sparam ''key'') params"
| "asks_database E su LongTermCacheSet params sv =
     reads_ok (sbind (sparam ''key'') (\<lambda>key. sbind (sparam ''value'') (\<lambda>v.
        sbind (iparam ''expireInterval'') (\<lambda>ex. sbind (iparam ''isFilename'') (\<lambda>f. sret (key, v, ex, f)))))) params"
| "asks_database E su LongTermCacheDelete params sv = reads_ok (sparam ''key'') params"
| "asks_database E su LongTermCacheGet params sv =
     (case fst (sbind (sparam ''key'') (\<lambda>key. sbind (iparam ''renewExpiry'') (\<lambda>renew.
        sbind (iparam ''useShortTermCache'') (\<lambda>use. sret (key, renew, use)))) params) of
        Inl _ \<Rightarrow> False
      | Inr (key, renew, use) \<Rightarrow> use = 0 \<or>
          fst (on_memcache (memcache_get (e_memcache E) (long_term_key su key) 0) sv) = Inr [])"
| "asks_database E su ep params sv = False"

lemma reads_okE: "reads_ok reads params \<Longrightarrow> (\<And>r. fst (reads params) = Inr r \<Longrightarrow> P) \<Longrightarrow> P"
  by (auto simp: reads_ok_def split: sum.splits)

text \<open>Without a free connection every operation on the database waits for ever, the reaper's turn and the
  handlers that reach the database with it.\<close>

definition no_free_connection :: "('c, 'm, 'd, 'n) server \<Rightarrow> bool" where
  "no_free_connection sv \<longleftrightarrow> available_connections (fst (sv_mysql sv)) = 0"

lemma no_free_mysql:
  assumes "no_free_connection sv"
  shows "fst (on_mysql (with_connection msg f) sv) = Inl Diverges"
    "fst (sbind (on_mysql (with_connection msg f)) g sv) = Inl Diverges"
    "fst (on_mysql (with_connection msg f) (sv\<lparr>sv_sessions := ss\<rparr>)) = Inl Diverges"
  using assms by (cases "sv_mysql sv";
    simp add: no_free_connection_def on_mysql_def sbind_def with_connection_def get_connection_def)+

lemma no_free_reaper: "no_free_connection sv \<Longrightarrow> fst (reaper_step E sv) = Inl Diverges"
  using no_free_mysql(3) by (simp add: reaper_step_def mysql_garbage_collect_def smodify_def sbind_def)

lemma no_free_memcache: "no_free_connection sv \<Longrightarrow> no_free_connection (snd (on_memcache x sv))"
  by (simp add: no_free_connection_def on_memcache_def split: prod.splits)

lemmas database_handlers = h_long_term_empty_def h_sweeper_info_def h_sitewide_lock_def h_sitewide_unlock_def
  h_session_cache_get_def h_session_cache_set_def h_session_cache_delete_def h_long_term_set_def
  h_long_term_delete_def

lemmas database_calls = mysql_long_term_empty_def mysql_sweeper_info_def mysql_lock_def mysql_unlock_def
  mysql_session_get_def mysql_session_set_def mysql_session_delete_def mysql_long_term_get_def
  mysql_long_term_set_def mysql_long_term_delete_def

lemma no_free_handler:
  fixes sv :: "('c, 'm, 'd, 'n) server"
  assumes "no_free_connection sv" and "fst (session_subdomain sid sv) = Inr su" and "asks_database E su ep params sv"
  shows "fst (handler E ep sid params sv) = Inl Diverges"
proof -
  have sub: "sbind (session_subdomain sid) f sv = f su sv" for f :: "string \<Rightarrow> ('c, 'm, 'd, 'n, json) server_op"
    using assms(2) by (simp add: session_subdomain_def sbind_sread)
  have "fst (handler E LongTermCacheGet sid params sv) = Inl Diverges" if "asks_database E su LongTermCacheGet params sv"
  proof -
    from that obtain key renew use where
      r: "fst (sbind (sparam ''key'') (\<lambda>key. sbind (iparam ''renewExpiry'') (\<lambda>renew.
        sbind (iparam ''useShortTermCache'') (\<lambda>use. sret (key, renew, use)))) params) = Inr (key, renew, use)" and
      u: "use = 0 \<or> fst (on_memcache (memcache_get (e_memcache E) (long_term_key su key) 0) sv) = Inr []"
      by (simp split: sum.splits prod.splits)
    show ?thesis
    proof (cases "use = 0")
      case True
      then show ?thesis
        by (simp add: h_long_term_get_def with_params_def r sub no_free_mysql assms(1) mysql_long_term_get_def)
    next
      case False
      with u obtain sv' where m: "on_memcache (memcache_get (e_memcache E) (long_term_key su key) 0) sv = (Inr [], sv')"
        by (metis prod.collapse)
      with no_free_memcache [OF assms(1)] have "no_free_connection sv'" by (metis snd_conv)
      with False m show ?thesis
        by (simp add: h_long_term_get_def with_params_def r sub no_free_mysql mysql_long_term_get_def
            sbind_def [of "on_memcache _"])
    qed
  qed
  then show ?thesis using assms(3)
    by (cases ep; auto simp: database_handlers database_calls with_params_def sub no_free_mysql assms(1)
        simp del: asks_database.simps(10) elim!: reads_okE)
qed

text \<open>(C37) The program starts even when it can open no connection to MySQL, and does not try again: then,
  whatever has happened since, the reaper waits for ever in its next turn, so that no session expires
  any more, and so does the handler of every request of a session that goes to the database.\<close>

theorem no_database_stalls:
  fixes E :: "('c, 'm, 'd, 'n) env"
  assumes "vaedb_main B opts numbers environ m n now = Starts up lg"
    and "\<forall>c. inj (bt_memcache B c)" and "\<forall>i. mysql_opened B (read_settings opts environ) i = None"
    and "sv = after N E evs (up_server up)"
  shows "fst (reaper_step E sv) = Inl Diverges \<and>
    (\<forall>sid su ep params. fst (session_subdomain sid sv) = Inr su \<longrightarrow> asks_database E su ep params sv \<longrightarrow>
       fst (handler E ep sid params sv) = Inl Diverges)"
proof -
  have "separate (mysql_opened B (read_settings opts environ))" using assms(3) by (simp add: separate_def)
  from started_pools [OF assms(1,2) this] obtain p q where
    p: "pools_are p q (up_server up)" "pool_inv p" "pool_inv q" and
    c: "available_connections q =
      int (length (filter (\<lambda>i. mysql_opened B (read_settings opts environ) i \<noteq> None) [0..<pool_size (up_workers up)]))" .
  have a: "available_connections q = 0" using assms(3) c by simp
  have "pools_are p q sv" using pools_are_run [OF p(2,3,1)] by (simp add: assms(4))
  then have "no_free_connection sv" using a by (cases "sv_mysql sv") (simp add: pools_are_def no_free_connection_def)
  then show ?thesis using no_free_reaper no_free_handler by blast
qed

theorem no_database_stalls_witness:
  "\<forall>N (E :: (nat, 'm, nat, 'n) env) environ (m :: 'm) (n :: 'n) now b. \<exists>up lg.
     vaedb_main (demo_boot\<lparr>bt_connect := \<lambda>_ _ _ _. Inl ''refused''\<rparr>) (\<lambda>_. None) demo_numbers environ m n now = Starts up lg \<and>
     fst (reaper_step E (after N E [Request OpenSession b 0 1, Clock 70] (up_server up))) = Inl Diverges"
proof (intro allI)
  fix N and E :: "(nat, 'm, nat, 'n) env" and environ and m :: 'm and n :: 'n and now b
  let ?B = "demo_boot\<lparr>bt_connect := \<lambda>_ _ _ _. Inl ''refused''\<rparr>"
  have "\<exists>up lg. vaedb_main ?B (\<lambda>_. None) demo_numbers environ m n now = Starts up lg"
    by (simp add: vaedb_main_def Let_def initialize_s3_def split_beta) (simp add: demo_boot_def)
  then obtain up lg where s: "vaedb_main ?B (\<lambda>_. None) demo_numbers environ m n now = Starts up lg" by blast
  have "\<forall>c. inj (bt_memcache ?B c)" by (simp add: demo_boot_def)
  moreover have "\<forall>i. mysql_opened ?B (read_settings (\<lambda>_. None) environ) i = None"
    by (simp add: mysql_opened_def mysql_create_connection_def)
  ultimately show "\<exists>up lg. vaedb_main ?B (\<lambda>_. None) demo_numbers environ m n now = Starts up lg \<and>
     fst (reaper_step E (after N E [Request OpenSession b 0 1, Clock 70] (up_server up))) = Inl Diverges"
    using no_database_stalls [OF s] s by blast
qed

end
