(* ===== verification/Teardown.thy ===== *)
theory Teardown
  imports Site
begin

text \<open>
  The end of a site (\<open>Site::~Site\<close> and \<open>Site::freeContexts\<close> in \<^verbatim>\<open>src/site.cpp\<close>): the nodes that associations
  made or rewired are cut off, then every context below the root is deleted, then the document is handed to
  \<open>xmlFreeDoc\<close>, which is a parameter: what it does to a document whose internal links were rewired is not
  documented (\<^verbatim>\<open>src/main.cpp\<close> turns the check of \<open>malloc\<close> off on account of its double frees).
\<close>

section \<open>The destructor\<close>

text \<open>The two loops over the nodes to clean.\<close>

definition clean_pointer :: "addr \<Rightarrow> (site, unit) sm" where
  "clean_pointer a = store_doc (Some a)
     (\<lambda>x. x\<lparr>xn_last := None, xn_children := None, xn_props := [], xn_private := None\<rparr>)"

definition clean_association :: "addr \<Rightarrow> (site, unit) sm" where
  "clean_association a =
     sbind (node_of (Some a)) (\<lambda>n.
     sbind (case xn_children n of
              None \<Rightarrow> sret ()
            | Some c \<Rightarrow> store_doc (Some c) (\<lambda>x. x\<lparr>xn_next := None\<rparr>)) (\<lambda>_.
       store_doc (Some a) (\<lambda>x. x\<lparr>xn_last := xn_children x, xn_props := [], xn_private := None\<rparr>)))"

text \<open>\<open>delete\<close> on a pointer to a context, which must not have been deleted.\<close>

definition free_context :: "ctxref \<Rightarrow> (site, unit) sm" where
  "free_context r = sbind (context_of r) (\<lambda>_. delete_context r)"

text \<open>\<open>freeContexts\<close>, from the first child of a node on.  Fuel bounds the path of child and sibling steps.\<close>

fun free_contexts :: "nat \<Rightarrow> addr option \<Rightarrow> (site, unit) sm" where
  "free_contexts n None = sret ()"
| "free_contexts 0 (Some child) = sthrow Diverges"
| "free_contexts (Suc n) (Some child) =
     sbind (node_of (Some child)) (\<lambda>x.
     sbind (if xn_type x = ElementNode
            then sbind (case xn_private x of None \<Rightarrow> sret () | Some r \<Rightarrow> free_context r) (\<lambda>_.
              free_contexts n (xn_children x))
            else sret ()) (\<lambda>_.
       free_contexts n (xn_next x)))"

definition clean_nodes :: "(site, unit) sm" where
  "clean_nodes =
     sbind (sread (\<lambda>s. Inr (s_nodes_to_clean s))) (\<lambda>as.
     sbind (smap clean_pointer as) (\<lambda>_.
     sbind (sread (\<lambda>s. Inr (s_nodes_to_clean2 s))) (\<lambda>bs.
     sbind (smap clean_association bs) (\<lambda>_. sret ()))))"

definition drop_lists :: "site \<Rightarrow> site" where
  "drop_lists s = s\<lparr>s_structures := [], s_nodes_to_clean := [], s_nodes_to_clean2 := []\<rparr>"

text \<open>\<open>F\<close> is the outcome of \<open>xmlFreeDoc\<close> on a document; when it returns, no node is left.\<close>

definition drop_doc :: "(dom \<Rightarrow> unit outcome) \<Rightarrow> (site, unit) sm" where
  "drop_doc F =
     sbind (sread (\<lambda>s. F (s_doc s))) (\<lambda>_.
       smodify (\<lambda>s. s\<lparr>s_doc := \<lparr>dom_nodes = [], dom_top = dom_top (s_doc s)\<rparr>, s_nodes := []\<rparr>))"

definition site_free :: "(dom \<Rightarrow> unit outcome) \<Rightarrow> (site, unit) sm" where
  "site_free F =
     sbind clean_nodes (\<lambda>_.
     sbind (smodify drop_lists) (\<lambda>_.
     sbind (sread (\<lambda>s. deref (s_doc s) (s_root s))) (\<lambda>root.
     sbind (sread (\<lambda>s. Inr (length (dom_nodes (s_doc s))))) (\<lambda>fuel.
     sbind (free_contexts fuel (xn_children root)) (\<lambda>_.
       drop_doc F)))))"

section \<open>The nodes below a node\<close>

text \<open>The nodes from a first child on, in document order, when the links end.\<close>

inductive nodes_from :: "dom \<Rightarrow> addr option \<Rightarrow> addr list \<Rightarrow> bool" for d where
  no_node: "nodes_from d None []"
| element: "node_at_addr d a = Some x \<Longrightarrow> xn_type x = ElementNode \<Longrightarrow> nodes_from d (xn_children x) as \<Longrightarrow>
    nodes_from d (xn_next x) bs \<Longrightarrow> nodes_from d (Some a) (a # as @ bs)"
| leaf: "node_at_addr d a = Some x \<Longrightarrow> xn_type x \<noteq> ElementNode \<Longrightarrow> nodes_from d (xn_next x) bs \<Longrightarrow>
    nodes_from d (Some a) (a # bs)"

inductive_simps nodes_from_None [simp]: "nodes_from d None as"
inductive_simps nodes_from_Some: "nodes_from d (Some a) as"

lemma nodes_from_known: "nodes_from d p as \<Longrightarrow> a \<in> set as \<Longrightarrow> a \<in> fst ` set (dom_nodes d)"
  by (induction p as rule: nodes_from.induct)
    (auto simp: node_at_addr_def dest!: map_of_SomeD intro: rev_image_eqI)

lemma nodes_from_length:
  assumes "nodes_from d p as" and "distinct as"
  shows "length as \<le> length (dom_nodes d)"
proof -
  have "set as \<subseteq> fst ` set (dom_nodes d)" using nodes_from_known [OF assms(1)] by blast
  from card_mono [OF _ this] have "card (set as) \<le> card (fst ` set (dom_nodes d))" by simp
  also have "\<dots> \<le> length (dom_nodes d)" using card_length [of "map fst (dom_nodes d)"] by simp
  finally show ?thesis using distinct_card [OF assms(2)] by simp
qed

text \<open>The same by computation, within a number of steps.\<close>

fun nodes_within :: "nat \<Rightarrow> dom \<Rightarrow> addr option \<Rightarrow> addr list option" where
  "nodes_within n d None = Some []"
| "nodes_within 0 d (Some a) = None"
| "nodes_within (Suc n) d (Some a) = Option.bind (node_at_addr d a) (\<lambda>x.
     Option.bind (if xn_type x = ElementNode then nodes_within n d (xn_children x) else Some []) (\<lambda>as.
     map_option (\<lambda>bs. a # as @ bs) (nodes_within n d (xn_next x))))"

lemma nodes_within_from: "nodes_within n d p = Some as \<Longrightarrow> nodes_from d p as"
proof (induction n arbitrary: p as)
  case 0
  then show ?case by (cases p) simp_all
next
  case (Suc n)
  show ?case
  proof (cases p)
    case (Some a)
    with Suc.prems obtain x bs cs where x: "node_at_addr d a = Some x"
      and b: "(if xn_type x = ElementNode then nodes_within n d (xn_children x) else Some []) = Some bs"
      and c: "nodes_within n d (xn_next x) = Some cs" "as = a # bs @ cs"
      by (auto simp: bind_eq_Some_conv)
    with Suc.IH Some show ?thesis
      by (cases "xn_type x = ElementNode") (auto intro: nodes_from.element nodes_from.leaf)
  qed (use Suc.prems in simp)
qed

text \<open>The contexts that the elements among some nodes point to.\<close>

definition context_ref :: "dom \<Rightarrow> addr \<Rightarrow> ctxref list" where
  "context_ref d a = (case node_at_addr d a of
     Some x \<Rightarrow> (if xn_type x = ElementNode then (case xn_private x of None \<Rightarrow> [] | Some r \<Rightarrow> [r]) else [])
   | None \<Rightarrow> [])"

definition context_refs :: "dom \<Rightarrow> addr list \<Rightarrow> ctxref list" where
  "context_refs d as = concat (map (context_ref d) as)"

lemma context_refs_simps [simp]:
  "context_refs d [] = []" "context_refs d (a # as) = context_ref d a @ context_refs d as"
  "context_refs d (as @ bs) = context_refs d as @ context_refs d bs"
  by (simp_all add: context_refs_def)

section \<open>Each context is deleted once\<close>

text \<open>Deleting a list of contexts.\<close>

fun delete_all :: "ctxref list \<Rightarrow> (site, unit) sm" where
  "delete_all [] = sret ()"
| "delete_all (r # rs) = sbind (free_context r) (\<lambda>_. delete_all rs)"

lemma sbind_assoc: "sbind (sbind m f) g = sbind m (\<lambda>x. sbind (f x) g)"
  by (rule ext) (simp add: sbind_def split: prod.split sum.split)

lemma sbind_sret_unit: "sbind (sret x) f = f x"
  by (rule ext) simp

lemma delete_all_append: "delete_all (xs @ ys) = sbind (delete_all xs) (\<lambda>_. delete_all ys)"
  by (induction xs) (simp_all add: sbind_assoc sbind_sret_unit)

lemma free_context_doc: "s_doc (snd (free_context r s)) = s_doc s"
  by (simp add: free_context_def context_of_def sbind_sread delete_context_def split: sum.split)

lemma delete_all_doc: "s_doc (snd (delete_all rs s)) = s_doc s"
proof (induction rs arbitrary: s)
  case (Cons r rs)
  obtain x s' where f: "free_context r s = (x, s')" by (metis surj_pair)
  with free_context_doc [of r s] Cons.IH [of s'] show ?case by (cases x) simp_all
qed (simp add: sret_def)

lemma sbind_same_doc:
  assumes "s_doc (snd (m s)) = s_doc s" and "\<And>x s'. s_doc s' = s_doc s \<Longrightarrow> f x s' = g x s'"
  shows "sbind m f s = sbind m g s"
  using assms by (cases "m s"; cases "fst (m s)") auto

text \<open>The walk over the tree deletes the contexts of its nodes, in document order.\<close>

lemma free_contexts_delete_all:
  assumes "nodes_from d p as" and "length as \<le> n" and "s_doc s = d"
  shows "free_contexts n p s = delete_all (context_refs d as) s"
  using assms
proof (induction p as arbitrary: n s rule: nodes_from.induct)
  case no_node
  then show ?case by simp
next
  case (element a x as bs)
  then obtain m where n: "n = Suc m" "length as \<le> m" "length bs \<le> m" by (cases n) auto
  have a: "node_of (Some a) s = (Inr x, s)" using element.hyps(1) element.prems(2) by (simp add: node_of_def)
  let ?own = "case xn_private x of None \<Rightarrow> sret () | Some r \<Rightarrow> free_context r"
  have own: "?own = delete_all (context_ref d a)"
    using element.hyps(1,2) by (simp add: context_ref_def sret_def sbind_def free_context_def fun_eq_iff
        split: option.split prod.split sum.split)
  have "free_contexts n (Some a) s =
      sbind ?own (\<lambda>_. sbind (free_contexts m (xn_children x)) (\<lambda>_. free_contexts m (xn_next x))) s"
    using a element.hyps(2) n(1) by (simp add: sbind_assoc)
  also have "\<dots> = sbind (delete_all (context_ref d a)) (\<lambda>_.
      sbind (delete_all (context_refs d as)) (\<lambda>_. delete_all (context_refs d bs))) s"
    unfolding own
  proof (rule sbind_same_doc)
    fix u :: unit and s' :: site
    assume d: "s_doc s' = s_doc s"
    have "sbind (free_contexts m (xn_children x)) (\<lambda>_. free_contexts m (xn_next x)) s' =
        sbind (delete_all (context_refs d as)) (\<lambda>_. free_contexts m (xn_next x)) s'"
      using element.IH(1) [OF n(2), of s'] d element.prems(2) by (simp add: sbind_def)
    also have "\<dots> = sbind (delete_all (context_refs d as)) (\<lambda>_. delete_all (context_refs d bs)) s'"
      by (rule sbind_same_doc) (use delete_all_doc element.IH(2) [OF n(3)] d element.prems(2) in auto)
    finally show "sbind (free_contexts m (xn_children x)) (\<lambda>_. free_contexts m (xn_next x)) s' =
        sbind (delete_all (context_refs d as)) (\<lambda>_. delete_all (context_refs d bs)) s'" .
  qed (rule delete_all_doc)
  finally show ?case by (simp add: delete_all_append sbind_assoc)
next
  case (leaf a x bs)
  then obtain m where n: "n = Suc m" "length bs \<le> m" by (cases n) auto
  have "node_of (Some a) s = (Inr x, s)" using leaf.hyps(1) leaf.prems(2) by (simp add: node_of_def)
  with leaf n show ?case by (simp add: context_ref_def)
qed

text \<open>What deleting a list comes to.\<close>

definition without_contexts :: "ctxref list \<Rightarrow> site \<Rightarrow> site" where
  "without_contexts rs s = s\<lparr>s_contexts := filter (\<lambda>c. fst c \<notin> set rs) (s_contexts s)\<rparr>"

lemma map_of_without:
  "map_of (s_contexts (without_contexts rs s)) r = (if r \<in> set rs then None else map_of (s_contexts s) r)"
proof -
  have "map_of (filter (\<lambda>c. fst c \<notin> R) xs) r = (if r \<in> R then None else map_of xs r)"
    for R :: "ctxref set" and xs :: "(ctxref \<times> vae_context) list"
    by (induction xs) auto
  then show ?thesis by (simp add: without_contexts_def)
qed

lemma delete_all_result:
  "delete_all rs s =
     (if distinct rs \<and> (\<forall>r \<in> set rs. map_of (s_contexts s) r \<noteq> None) then (Inr (), without_contexts rs s)
      else (Inl (UB UseAfterFree), snd (delete_all rs s)))"
proof (induction rs arbitrary: s)
  case Nil
  show ?case by (simp add: sret_def without_contexts_def)
next
  case (Cons r rs)
  show ?case
  proof (cases "map_of (s_contexts s) r")
    case None
    then show ?thesis by (simp add: free_context_def context_of_def context_at_def sbind_def)
  next
    case (Some c)
    have f: "free_context r s = (Inr (), without_contexts [r] s)"
      using Some by (simp add: free_context_def context_of_def context_at_def delete_context_def
          without_contexts_def sbind_def)
    have w: "without_contexts rs (without_contexts [r] s) = without_contexts (r # rs) s"
      by (simp add: without_contexts_def filter_filter conj_commute)
    have i: "(distinct rs \<and> (\<forall>q \<in> set rs. map_of (s_contexts (without_contexts [r] s)) q \<noteq> None)) =
        (distinct (r # rs) \<and> (\<forall>q \<in> set (r # rs). map_of (s_contexts s) q \<noteq> None))"
      using Some by (auto simp: map_of_without split: if_splits)
    have "delete_all (r # rs) s = delete_all rs (without_contexts [r] s)" using f by simp
    then show ?thesis using Cons.IH [of "without_contexts [r] s"] unfolding i w by presburger
  qed
qed

section \<open>The site as a whole\<close>

text \<open>The tree is walked after the cleaning, and every context that it points to is deleted.\<close>

lemma site_free_delete_all:
  assumes clean: "clean_nodes s = (Inr (), s1)" and root: "deref (s_doc s1) (s_root s1) = Inr content"
    and tree: "nodes_from (s_doc s1) (xn_children content) as" "distinct as"
  shows "site_free F s = sbind (delete_all (context_refs (s_doc s1) as)) (\<lambda>_. drop_doc F) (drop_lists s1)"
proof -
  have d: "s_doc (drop_lists s1) = s_doc s1" "s_root (drop_lists s1) = s_root s1"
    by (simp_all add: drop_lists_def)
  have w: "free_contexts (length (dom_nodes (s_doc s1))) (xn_children content) (drop_lists s1) =
      delete_all (context_refs (s_doc s1) as) (drop_lists s1)"
    by (rule free_contexts_delete_all [OF tree(1) nodes_from_length [OF tree] d(1)])
  have "site_free F s = sbind (free_contexts (length (dom_nodes (s_doc s1))) (xn_children content))
      (\<lambda>_. drop_doc F) (drop_lists s1)"
    using clean root d by (simp add: site_free_def smodify_def sread_def sbind_def)
  then show ?thesis by (simp add: sbind_def w)
qed

text \<open>(C14) Closing a site deletes each context once before the document is freed.  After the nodes that
  associations made or rewired are cut off, the destructor reaches \<open>xmlFreeDoc\<close>, with the cut document and
  only the contexts left that no element pointed to, exactly when no two elements below the content root point
  to the same context and none points to a deleted one, and then ends as \<open>xmlFreeDoc\<close> does; otherwise it deletes
  a context that has been deleted.\<close>

theorem site_free_once:
  assumes "clean_nodes s = (Inr (), s1)" and "deref (s_doc s1) (s_root s1) = Inr content"
    and "nodes_from (s_doc s1) (xn_children content) as" and "distinct as"
  shows "site_free F s =
      (if distinct (context_refs (s_doc s1) as) \<and>
          (\<forall>r \<in> set (context_refs (s_doc s1) as). map_of (s_contexts s1) r \<noteq> None)
       then drop_doc F (without_contexts (context_refs (s_doc s1) as) (drop_lists s1))
       else (Inl (UB UseAfterFree), snd (site_free F s)))"
proof -
  let ?rs = "context_refs (s_doc s1) as"
  have c: "s_contexts (drop_lists s1) = s_contexts s1" by (simp add: drop_lists_def)
  note f = site_free_delete_all [OF assms]
  show ?thesis
  proof (cases "distinct ?rs \<and> (\<forall>r \<in> set ?rs. map_of (s_contexts s1) r \<noteq> None)")
    case True
    then have "delete_all ?rs (drop_lists s1) = (Inr (), without_contexts ?rs (drop_lists s1))"
      using delete_all_result [of ?rs "drop_lists s1"] unfolding c by presburger
    with True f show ?thesis by simp
  next
    case False
    then have "fst (delete_all ?rs (drop_lists s1)) = Inl (UB UseAfterFree)"
      using delete_all_result [of ?rs "drop_lists s1"] unfolding c by (metis fst_conv)
    then have "fst (site_free F s) = Inl (UB UseAfterFree)"
      unfolding f by (cases "delete_all ?rs (drop_lists s1)") (simp add: sbind_def)
    with False show ?thesis by (metis prod.collapse)
  qed
qed

text \<open>A content node with the associations that loading makes: element 3 stands for element 2, of which
  it has the context and the children, and node 4 below element 2 points back to element 1.\<close>

definition demo_element :: "string \<Rightarrow> ctxref \<Rightarrow> xnode" where
  "demo_element name r = (plain_node ElementNode name '''' None)\<lparr>xn_private := Some r\<rparr>"

definition demo_context :: "addr \<Rightarrow> vae_context" where
  "demo_context a = \<lparr>cx_cached_counts = [], cx_cached_queries = [], cx_data = [], cx_data_populated = False,
     cx_id = 0, cx_permalink = None, cx_pointer_nodes = [], cx_structure = None, cx_type = '''',
     cx_node = a, cx_kill_me = False\<rparr>"

definition demo_closing :: site where
  "demo_closing = (site_empty ''demo'' True [])\<lparr>
     s_doc := \<lparr>dom_nodes =
       [(0, (plain_node ElementNode ''content'' '''' None)\<lparr>xn_children := Some 1, xn_last := Some 2\<rparr>),
        (1, (demo_element ''item'' 1)\<lparr>xn_children := Some 3, xn_last := Some 3, xn_next := Some 2\<rparr>),
        (2, (demo_element ''person'' 2)\<lparr>xn_children := Some 6, xn_last := Some 4\<rparr>),
        (3, (demo_element ''author'' 2)\<lparr>xn_children := Some 5, xn_last := Some 4\<rparr>),
        (4, (demo_element ''item'' 1)\<lparr>xn_children := Some 3, xn_last := Some 3\<rparr>),
        (5, (plain_node TextNode ''text'' ''2'' None)\<lparr>xn_next := Some 6\<rparr>),
        (6, (demo_element ''name'' 3)\<lparr>xn_next := Some 4\<rparr>)], dom_top = 7\<rparr>,
     s_root := Some 0, s_nodes_to_clean := [4], s_nodes_to_clean2 := [3],
     s_contexts := [(1, demo_context 1), (2, demo_context 2), (3, demo_context 6)]\<rparr>"

theorem site_free_once_witness:
  "\<forall>F. site_free F demo_closing =
     drop_doc F (without_contexts [1, 2, 3] (drop_lists (snd (clean_nodes demo_closing))))"
proof
  fix F
  let ?s = "snd (clean_nodes demo_closing)"
  have "fst (clean_nodes demo_closing) = Inr ()" by code_simp
  then have c: "clean_nodes demo_closing = (Inr (), ?s)" by (metis prod.collapse)
  have r: "deref (s_doc ?s) (s_root ?s) =
      Inr ((plain_node ElementNode ''content'' '''' None)\<lparr>xn_children := Some 1, xn_last := Some 2\<rparr>)" by code_simp
  have n: "nodes_from (s_doc ?s) (Some 1) [1, 3, 5, 2, 6, 4]"
    by (rule nodes_within_from [of 7]) code_simp
  have "context_refs (s_doc ?s) [1, 3, 5, 2, 6, 4] = [1, 2, 3]" by code_simp
  moreover have "map_of (s_contexts ?s) 1 \<noteq> None" "map_of (s_contexts ?s) 2 \<noteq> None" "map_of (s_contexts ?s) 3 \<noteq> None"
    by code_simp+
  ultimately show "site_free F demo_closing =
     drop_doc F (without_contexts [1, 2, 3] (drop_lists (snd (clean_nodes demo_closing))))"
    using site_free_once [OF c r, of "[1, 3, 5, 2, 6, 4]"] n by simp
qed

end
