(* ===== verification/SiteLocks.thy ===== *)
theory SiteLocks
  imports Access
begin

text \<open>
  \<open>Server::getSite\<close> under concurrency (\<^verbatim>\<open>src/server.cpp\<close>): the worker threads that open sessions, the bus
  that reloads sites, and the publication of new feeds.  Each key of the map of sites has a mutex that a
  request holds from its lookup to its return; the map itself is guarded by \<open>sitesMutex\<close>, so that a
  lookup, the entry of a loaded site and a reload are atomic.
\<close>

section \<open>Threads\<close>

text \<open>A call of \<open>getSite\<close>: subdomain, secret key, staging mode.\<close>

type_synonym site_request = "string \<times> string \<times> bool"

text \<open>
  Where a thread is in \<open>getSite\<close>: outside; before the mutex of its key; with the mutex, before the
  lookup; after a lookup that found nothing; with the feed it has read; with the site it has entered into
  the map, before the check of the secret key; in a call that never returns, the mutex still held; and with
  the result, a site or an exception, the mutex released.
\<close>

datatype site_pc =
    AtRest
  | AwaitsLock site_request
  | HasLock site_request
  | NotFound site_request
  | HasFeed site_request string
  | HasSite site_request nat
  | Hangs site_request
  | Gave "nat outcome"

text \<open>\<open>sy_halted\<close>: a thread has reached undefined behaviour, or the program has been aborted; the model says
  nothing of what follows, a run ends there.\<close>

record ('c, 'm, 'd, 'n) site_sys =
  sy_server :: "('c, 'm, 'd, 'n) server"
  sy_feed :: "string \<Rightarrow> string outcome"
  sy_mutex :: "string \<Rightarrow> nat option"
  sy_thread :: "nat \<Rightarrow> site_pc"
  sy_halted :: bool

definition request_key :: "site_request \<Rightarrow> string" where
  "request_key = (\<lambda>(subdomain, secret_key, staging). site_key subdomain staging)"

definition move_to :: "nat \<Rightarrow> site_pc \<Rightarrow> ('c, 'm, 'd, 'n) site_sys \<Rightarrow> ('c, 'm, 'd, 'n) site_sys" where
  "move_to t pc s = s\<lparr>sy_thread := (sy_thread s)(t := pc)\<rparr>"

text \<open>Whether a call comes back, with a value or an exception.\<close>

definition settled :: "'a outcome \<Rightarrow> bool" where
  "settled x \<longleftrightarrow> (case x of Inr _ \<Rightarrow> True | Inl e \<Rightarrow> e \<noteq> Diverges \<and> e \<noteq> Aborts \<and> (\<forall>u. e \<noteq> UB u))"

text \<open>A return or a throw: the destructor of the lock releases the mutex.\<close>

definition release :: "nat \<Rightarrow> site_request \<Rightarrow> nat outcome \<Rightarrow> ('c, 'm, 'd, 'n) site_sys \<Rightarrow> ('c, 'm, 'd, 'n) site_sys" where
  "release t rq x s = (move_to t (Gave x) s)\<lparr>sy_mutex := (sy_mutex s)(request_key rq := None)\<rparr>"

text \<open>What the outcome of a call inside \<open>getSite\<close> does to the thread: an exception, or the last value, leaves the
  function; a call that never returns keeps the thread and its mutex; undefined behaviour and \<open>abort\<close> end
  the program.\<close>

definition give :: "nat \<Rightarrow> site_request \<Rightarrow> nat outcome \<Rightarrow> ('c, 'm, 'd, 'n) site_sys \<Rightarrow> ('c, 'm, 'd, 'n) site_sys" where
  "give t rq x s =
     (if settled x then release t rq x s
      else if x = Inl Diverges then move_to t (Hangs rq) s
      else s\<lparr>sy_halted := True\<rparr>)"

text \<open>\<open>lockSite\<close> on \<open>_get_site_mutex\<close>.\<close>

definition step_lock :: "nat \<Rightarrow> site_request \<Rightarrow> ('c, 'm, 'd, 'n) site_sys \<Rightarrow> ('c, 'm, 'd, 'n) site_sys option" where
  "step_lock t rq s =
     (if sy_mutex s (request_key rq) = None
      then Some ((move_to t (HasLock rq) s)\<lparr>sy_mutex := (sy_mutex s)(request_key rq \<mapsto> t)\<rparr>)
      else None)"

definition step_lookup ::
  "('c, 'm, 'd, 'n) env \<Rightarrow> nat \<Rightarrow> site_request \<Rightarrow> ('c, 'm, 'd, 'n) site_sys \<Rightarrow> ('c, 'm, 'd, 'n) site_sys" where
  "step_lookup E t rq s = (case rq of (subdomain, secret_key, staging) \<Rightarrow>
     (case lookup_site E (site_key subdomain staging) secret_key (sy_server s) of
        Inl e \<Rightarrow> give t rq (Inl e) s
      | Inr (Some r) \<Rightarrow> give t rq (Inr r) s
      | Inr None \<Rightarrow> move_to t (NotFound rq) s))"

definition step_fetch ::
  "('c, 'm, 'd, 'n) env \<Rightarrow> nat \<Rightarrow> site_request \<Rightarrow> ('c, 'm, 'd, 'n) site_sys \<Rightarrow> ('c, 'm, 'd, 'n) site_sys" where
  "step_fetch E t rq s = (case rq of (subdomain, secret_key, staging) \<Rightarrow>
     (case (if e_test_mode E then Inr [] else sy_feed s (subdomain @ ''-feed.xml'')) of
        Inl e \<Rightarrow> give t rq (Inl e) s
      | Inr xml \<Rightarrow> move_to t (HasFeed rq xml) s))"

text \<open>The site is built outside \<open>sitesMutex\<close>, but nobody sees it before it is entered.\<close>

definition step_load ::
  "('c, 'm, 'd, 'n) env \<Rightarrow> nat \<Rightarrow> site_request \<Rightarrow> string \<Rightarrow> ('c, 'm, 'd, 'n) site_sys
     \<Rightarrow> ('c, 'm, 'd, 'n) site_sys" where
  "step_load E t rq xml s = (case rq of (subdomain, secret_key, staging) \<Rightarrow>
     (case load_site E subdomain staging xml (sy_server s) of
        (Inl e, sv) \<Rightarrow> give t rq (Inl e) (s\<lparr>sy_server := sv\<rparr>)
      | (Inr r, sv) \<Rightarrow> move_to t (HasSite rq r) (s\<lparr>sy_server := sv\<rparr>)))"

definition step_check ::
  "('c, 'm, 'd, 'n) env \<Rightarrow> nat \<Rightarrow> site_request \<Rightarrow> nat \<Rightarrow> ('c, 'm, 'd, 'n) site_sys
     \<Rightarrow> ('c, 'm, 'd, 'n) site_sys" where
  "step_check E t rq r s = (case rq of (subdomain, secret_key, staging) \<Rightarrow>
     give t rq
       (ebind (fst (site_at r (sy_server s))) (\<lambda>site.
          ebind (validate_secret_key (e_test_mode E) site secret_key) (\<lambda>_. Inr r))) s)"

definition thread_step ::
  "('c, 'm, 'd, 'n) env \<Rightarrow> nat \<Rightarrow> ('c, 'm, 'd, 'n) site_sys \<Rightarrow> ('c, 'm, 'd, 'n) site_sys option" where
  "thread_step E t s = (case sy_thread s t of
     AwaitsLock rq \<Rightarrow> step_lock t rq s
   | HasLock rq \<Rightarrow> Some (step_lookup E t rq s)
   | NotFound rq \<Rightarrow> Some (step_fetch E t rq s)
   | HasFeed rq xml \<Rightarrow> Some (step_load E t rq xml s)
   | HasSite rq r \<Rightarrow> Some (step_check E t rq r s)
   | _ \<Rightarrow> None)"

text \<open>What can happen: a thread calls or goes on, the bus reloads, a feed is published.\<close>

datatype site_action =
    Call nat site_request
  | Go nat
  | BusReload string
  | Publish string "string outcome"

fun site_move ::
  "('c, 'm, 'd, 'n) env \<Rightarrow> site_action \<Rightarrow> ('c, 'm, 'd, 'n) site_sys \<Rightarrow> ('c, 'm, 'd, 'n) site_sys option" where
  "site_move E (Call t rq) s =
     (case sy_thread s t of
        AtRest \<Rightarrow> Some (move_to t (AwaitsLock rq) s)
      | Gave x \<Rightarrow> Some (move_to t (AwaitsLock rq) s)
      | _ \<Rightarrow> None)"
| "site_move E (Go t) s = thread_step E t s"
| "site_move E (BusReload subdomain) s = Some (s\<lparr>sy_server := reload_site subdomain (sy_server s)\<rparr>)"
| "site_move E (Publish name x) s = Some (s\<lparr>sy_feed := (sy_feed s)(name := x)\<rparr>)"

fun site_moves ::
  "('c, 'm, 'd, 'n) env \<Rightarrow> site_action list \<Rightarrow> ('c, 'm, 'd, 'n) site_sys \<Rightarrow> ('c, 'm, 'd, 'n) site_sys option" where
  "site_moves E [] s = Some s"
| "site_moves E (a # as) s = (if sy_halted s then None else Option.bind (site_move E a s) (site_moves E as))"

lemma site_moves_append:
  "site_moves E (as @ bs) s = Option.bind (site_moves E as s) (site_moves E bs)"
proof (induction "as" arbitrary: s)
  case (Cons a "as")
  then show ?case by (cases "site_move E a s") simp_all
qed simp

definition sys_new ::
  "('c, 'm, 'd, 'n) server \<Rightarrow> (string \<Rightarrow> string outcome) \<Rightarrow> ('c, 'm, 'd, 'n) site_sys" where
  "sys_new sv feed = \<lparr>sy_server = sv, sy_feed = feed, sy_mutex = (\<lambda>_. None),
     sy_thread = (\<lambda>_. AtRest), sy_halted = False\<rparr>"

section \<open>The invariant\<close>

text \<open>The key whose mutex a thread holds, and the key it is about to load.\<close>

fun section_key :: "site_pc \<Rightarrow> string option" where
  "section_key (HasLock rq) = Some (request_key rq)"
| "section_key (NotFound rq) = Some (request_key rq)"
| "section_key (HasFeed rq xml) = Some (request_key rq)"
| "section_key (HasSite rq r) = Some (request_key rq)"
| "section_key (Hangs rq) = Some (request_key rq)"
| "section_key _ = None"

fun missing_key :: "site_pc \<Rightarrow> string option" where
  "missing_key (NotFound rq) = Some (request_key rq)"
| "missing_key (HasFeed rq xml) = Some (request_key rq)"
| "missing_key _ = None"

definition sites_of :: "('c, 'm, 'd, 'n) site_sys \<Rightarrow> string \<Rightarrow> nat option" where
  "sites_of s = map_of (sv_sites (sy_server s))"

definition locks_ok :: "('c, 'm, 'd, 'n) site_sys \<Rightarrow> bool" where
  "locks_ok s \<longleftrightarrow>
     (\<forall>t key. section_key (sy_thread s t) = Some key \<longleftrightarrow> sy_mutex s key = Some t) \<and>
     (\<forall>t key. missing_key (sy_thread s t) = Some key \<longrightarrow> sites_of s key = None)"

lemma locks_okD:
  assumes "locks_ok s"
  shows "section_key (sy_thread s t) = Some key \<longleftrightarrow> sy_mutex s key = Some t"
    and "missing_key (sy_thread s t) = Some key \<Longrightarrow> sites_of s key = None"
  using assms by (simp_all add: locks_ok_def)

lemma missing_section: "missing_key pc = Some key \<Longrightarrow> section_key pc = Some key"
  by (cases pc) simp_all

lemma move_to_simps [simp]:
  "sy_thread (move_to t pc s) = (sy_thread s)(t := pc)" "sy_mutex (move_to t pc s) = sy_mutex s"
  "sy_server (move_to t pc s) = sy_server s" "sy_feed (move_to t pc s) = sy_feed s"
  "sy_halted (move_to t pc s) = sy_halted s"
  by (simp_all add: move_to_def)

lemma release_simps [simp]:
  "sy_thread (release t rq x s) = (sy_thread s)(t := Gave x)"
  "sy_mutex (release t rq x s) = (sy_mutex s)(request_key rq := None)"
  "sy_server (release t rq x s) = sy_server s" "sy_feed (release t rq x s) = sy_feed s"
  "sy_halted (release t rq x s) = sy_halted s"
  by (simp_all add: release_def)

lemma settled_simps [simp]:
  "settled (Inr r)" "settled (Inl (VaeDbInternalError m))" "settled (Inl (VaeDbQueryError m))"
  "\<not> settled (Inl Diverges)" "\<not> settled (Inl Aborts)" "\<not> settled (Inl (UB u))"
  by (simp_all add: settled_def)

lemma give_simps [simp]:
  "settled x \<Longrightarrow> give t rq x s = release t rq x s"
  "sy_server (give t rq x s) = sy_server s" "sy_feed (give t rq x s) = sy_feed s"
  by (simp_all add: give_def)

lemma give_thread:
  "sy_thread (give t rq x s) =
     (if settled x then (sy_thread s)(t := Gave x) else if x = Inl Diverges then (sy_thread s)(t := Hangs rq)
      else sy_thread s)"
  by (simp add: give_def)

lemma sites_of_simps [simp]:
  "sites_of (move_to t pc s) = sites_of s" "sites_of (give t rq x s) = sites_of s"
  "sites_of (release t rq x s) = sites_of s" "sites_of (s\<lparr>sy_halted := h\<rparr>) = sites_of s"
  "sites_of (s\<lparr>sy_feed := f\<rparr>) = sites_of s" "sites_of (s\<lparr>sy_mutex := m\<rparr>) = sites_of s"
  by (simp_all add: sites_of_def)

text \<open>The moves of a thread within its section, out of it, and into it.\<close>

lemma locks_ok_within:
  assumes "locks_ok s" and "section_key (sy_thread s t) = section_key pc"
    and "missing_key pc = None \<or> missing_key pc = missing_key (sy_thread s t) \<or> (\<exists>key. missing_key pc = Some key \<and> sites_of s key = None)"
  shows "locks_ok (move_to t pc s)"
  unfolding locks_ok_def move_to_simps sites_of_simps
proof (intro conjI allI)
  fix u key
  show "section_key (((sy_thread s)(t := pc)) u) = Some key \<longleftrightarrow> sy_mutex s key = Some u"
    using locks_okD(1) [OF assms(1), of u key] locks_okD(1) [OF assms(1), of t key] assms(2) by simp
  show "missing_key (((sy_thread s)(t := pc)) u) = Some key \<longrightarrow> sites_of s key = None"
    using locks_okD(2) [OF assms(1), of u key] assms(3) by auto
qed

lemma locks_ok_release:
  assumes "locks_ok s" and "section_key (sy_thread s t) = Some (request_key rq)"
  shows "locks_ok (release t rq x s)"
  unfolding locks_ok_def release_simps sites_of_simps
proof (intro conjI allI)
  fix u key
  have h: "sy_mutex s (request_key rq) = Some t" using locks_okD(1) [OF assms(1)] assms(2) by blast
  show "section_key (((sy_thread s)(t := Gave x)) u) = Some key \<longleftrightarrow>
      ((sy_mutex s)(request_key rq := None)) key = Some u"
    using locks_okD(1) [OF assms(1), of u key] locks_okD(1) [OF assms(1), of t key] h assms(2) by auto
  show "missing_key (((sy_thread s)(t := Gave x)) u) = Some key \<longrightarrow> sites_of s key = None"
    using locks_okD(2) [OF assms(1), of u key] by simp
qed

lemma locks_ok_give:
  assumes "locks_ok s" and "section_key (sy_thread s t) = Some (request_key rq)"
  shows "locks_ok (give t rq x s)"
proof -
  have "locks_ok (move_to t (Hangs rq) s)" by (rule locks_ok_within [OF assms(1)]) (simp_all add: assms(2))
  moreover have "locks_ok (s\<lparr>sy_halted := True\<rparr>)" using assms(1) by (simp add: locks_ok_def)
  ultimately show ?thesis using locks_ok_release [OF assms] by (simp add: give_def)
qed

lemma locks_ok_lock:
  assumes "locks_ok s" and "section_key (sy_thread s t) = None" and "sy_mutex s (request_key rq) = None"
  shows "locks_ok ((move_to t (HasLock rq) s)\<lparr>sy_mutex := (sy_mutex s)(request_key rq \<mapsto> t)\<rparr>)"
proof -
  have "section_key (((sy_thread s)(t := HasLock rq)) u) = Some key \<longleftrightarrow>
      ((sy_mutex s)(request_key rq \<mapsto> t)) key = Some u" for u key
    using locks_okD(1) [OF assms(1), of u key] assms(2,3) by auto
  moreover have "missing_key (((sy_thread s)(t := HasLock rq)) u) = Some key \<longrightarrow> sites_of s key = None" for u key
    using locks_okD(2) [OF assms(1), of u key] by simp
  ultimately show ?thesis by (simp add: locks_ok_def)
qed

text \<open>Changes of the map: fewer sites, and a site under the key of the thread that enters it.\<close>

lemma locks_ok_server:
  assumes "locks_ok s" and "\<And>key u. missing_key (sy_thread s u) = Some key \<Longrightarrow> map_of (sv_sites sv) key = None"
  shows "locks_ok (s\<lparr>sy_server := sv\<rparr>)"
  using assms by (simp add: locks_ok_def sites_of_def)

lemma load_site_sites:
  "load_site E su st xml sv = (x, sv') \<Longrightarrow>
     map_of (sv_sites sv') = (case x of Inl e \<Rightarrow> map_of (sv_sites sv)
       | Inr r \<Rightarrow> (map_of (sv_sites sv))(site_key su st \<mapsto> r))"
  by (auto simp: load_site_def Let_def split: sum.splits)

lemma locks_ok_load:
  assumes ok: "locks_ok s" and t: "sy_thread s t = HasFeed rq xml"
  shows "locks_ok (step_load E t rq xml s)"
proof -
  obtain su k st where rq: "rq = (su, k, st)" by (metis prod_cases3)
  obtain x sv where l: "load_site E su st xml (sy_server s) = (x, sv)" by (metis surj_pair)
  note sites = load_site_sites [OF l]
  show ?thesis
  proof (cases x)
    case (Inl e)
    have "locks_ok (s\<lparr>sy_server := sv\<rparr>)"
      using locks_okD(2) [OF ok] sites Inl by (intro locks_ok_server [OF ok]) (simp add: sites_of_def)
    then have "locks_ok (give t rq (Inl e) (s\<lparr>sy_server := sv\<rparr>))" by (rule locks_ok_give) (simp add: t)
    with Inl l show ?thesis by (simp add: step_load_def rq)
  next
    case (Inr r)
    have "locks_ok (move_to t (HasSite rq r) s)" by (rule locks_ok_within [OF ok]) (simp_all add: t)
    then have "locks_ok ((move_to t (HasSite rq r) s)\<lparr>sy_server := sv\<rparr>)"
    proof (rule locks_ok_server)
      fix key u assume m: "missing_key (sy_thread (move_to t (HasSite rq r) s) u) = Some key"
      then have u: "u \<noteq> t" and mu: "missing_key (sy_thread s u) = Some key" by (auto split: if_splits)
      have "key \<noteq> request_key rq"
        using locks_okD(1) [OF ok, of u key] locks_okD(1) [OF ok, of t key] missing_section [OF mu] t u by auto
      then show "map_of (sv_sites sv) key = None"
        using locks_okD(2) [OF ok mu] sites Inr by (simp add: sites_of_def request_key_def rq)
    qed
    moreover have "(move_to t (HasSite rq r) s)\<lparr>sy_server := sv\<rparr> = move_to t (HasSite rq r) (s\<lparr>sy_server := sv\<rparr>)"
      by (cases s) (simp add: move_to_def)
    ultimately have "locks_ok (move_to t (HasSite rq r) (s\<lparr>sy_server := sv\<rparr>))" by metis
    with Inr l show ?thesis by (simp add: step_load_def rq)
  qed
qed

lemma locks_ok_thread_step:
  assumes ok: "locks_ok s" and step: "thread_step E t s = Some s'"
  shows "locks_ok s'"
proof (cases "sy_thread s t")
  case (AwaitsLock rq)
  with step ok show ?thesis
    by (auto simp: thread_step_def step_lock_def split: if_splits intro!: locks_ok_lock)
next
  case (HasLock rq)
  obtain su k st where rq: "rq = (su, k, st)" by (metis prod_cases3)
  have "lookup_site E (site_key su st) k (sy_server s) = Inr None \<Longrightarrow> sites_of s (request_key rq) = None"
    by (auto simp: lookup_site_def sites_of_def request_key_def rq ebind_eq_Inr_iff split: option.splits)
  with step ok HasLock show ?thesis
    by (auto simp: thread_step_def step_lookup_def rq split: sum.splits option.splits
        intro!: locks_ok_give locks_ok_release locks_ok_within)
next
  case (NotFound rq)
  with step ok show ?thesis
    by (auto simp: thread_step_def step_fetch_def split: sum.splits prod.splits
        intro!: locks_ok_give locks_ok_release locks_ok_within)
next
  case (HasFeed rq xml)
  with step have "s' = step_load E t rq xml s" by (simp add: thread_step_def)
  with locks_ok_load [OF ok HasFeed] show ?thesis by simp
next
  case (HasSite rq r)
  with step ok show ?thesis
    by (auto simp: thread_step_def step_check_def split: prod.splits intro!: locks_ok_give)
qed (use step in \<open>simp_all add: thread_step_def\<close>)

lemma locks_ok_move:
  assumes ok: "locks_ok s" and move: "site_move E a s = Some s'"
  shows "locks_ok s'"
proof (cases a)
  case (Call t rq)
  with move ok show ?thesis by (auto split: site_pc.splits intro!: locks_ok_within)
next
  case (Go t)
  with move locks_ok_thread_step [OF ok] show ?thesis by simp
next
  case (BusReload su)
  with move locks_okD(2) [OF ok] show ?thesis
    by (auto simp: reload_site_sites sites_of_def intro!: locks_ok_server [OF ok])
next
  case (Publish name x)
  with move ok show ?thesis by (auto simp: locks_ok_def sites_of_def)
qed

lemma locks_ok_moves: "site_moves E as s = Some s' \<Longrightarrow> locks_ok s \<Longrightarrow> locks_ok s'"
  by (induction "as" arbitrary: s) (auto simp: bind_eq_Some_conv intro: locks_ok_move simp del: site_move.simps split: if_splits)

lemma locks_ok_new: "locks_ok (sys_new sv feed)"
  by (simp add: locks_ok_def sys_new_def)

lemmas locks_ok_run = locks_ok_moves [OF _ locks_ok_new]

section \<open>Mutual exclusion\<close>

text \<open>(C7) Whatever the interleaving of requests, reloads and publications, at most one thread at a time is
  between the lookup and the return of \<open>getSite\<close> for a key, and no thread that is about to load a site
  can find one under the key by then: a load never replaces a loaded site.\<close>

theorem site_lock_exclusive:
  assumes "site_moves E as (sys_new sv feed) = Some s"
  shows "(section_key (sy_thread s t) = Some key \<and> section_key (sy_thread s u) = Some key \<longrightarrow> t = u) \<and>
    (missing_key (sy_thread s t) = Some key \<longrightarrow> map_of (sv_sites (sy_server s)) key = None)"
proof -
  note ok = locks_okD [OF locks_ok_run [OF assms], unfolded sites_of_def]
  show ?thesis using ok(1) [of t key] ok(1) [of u key] ok(2) [of t key] by auto
qed

lemma two_calls:
  "\<exists>s. site_moves E [Call 1 (''a'', ''k1'', False), Call 2 (''a'', ''k2'', False), Go 1] (sys_new sv feed) = Some s \<and>
     sy_thread s 1 = HasLock (''a'', ''k1'', False) \<and> sy_thread s 2 = AwaitsLock (''a'', ''k2'', False)"
  by (simp add: sys_new_def thread_step_def step_lock_def move_to_def)

theorem site_lock_exclusive_witness:
  "\<forall>(E :: ('c, 'm, 'd, 'n) env) sv feed. \<exists>s.
     site_moves E [Call 1 (''a'', ''k1'', False), Call 2 (''a'', ''k2'', False), Go 1] (sys_new sv feed) = Some s \<and>
     section_key (sy_thread s 1) = Some ''a'' \<and> section_key (sy_thread s 2) \<noteq> Some ''a''"
proof (intro allI)
  fix E :: "('c, 'm, 'd, 'n) env" and sv feed
  from two_calls [of E sv feed] obtain s where
    s: "site_moves E [Call 1 (''a'', ''k1'', False), Call 2 (''a'', ''k2'', False), Go 1] (sys_new sv feed) = Some s"
    and "sy_thread s 1 = HasLock (''a'', ''k1'', False)" by blast
  then have "section_key (sy_thread s 1) = Some ''a''" by (simp add: request_key_def site_key_def)
  with site_lock_exclusive [OF s, of 1 "''a''" 2] s
  show "\<exists>s. site_moves E [Call 1 (''a'', ''k1'', False), Call 2 (''a'', ''k2'', False), Go 1] (sys_new sv feed) = Some s \<and>
     section_key (sy_thread s 1) = Some ''a'' \<and> section_key (sy_thread s 2) \<noteq> Some ''a''"
    by fastforce
qed

section \<open>A loaded site is shared until a reload\<close>

definition reloads :: "site_action \<Rightarrow> bool" where
  "reloads a \<longleftrightarrow> (\<exists>su. a = BusReload su)"

definition calls :: "nat \<Rightarrow> site_action \<Rightarrow> bool" where
  "calls t a \<longleftrightarrow> (\<exists>rq. a = Call t rq)"

text \<open>The thread \<open>t\<close> has asked for the site \<open>r\<close> that is in the map.\<close>

definition sharing ::
  "('c, 'm, 'd, 'n) env \<Rightarrow> nat \<Rightarrow> site_request \<Rightarrow> nat \<Rightarrow> site \<Rightarrow> ('c, 'm, 'd, 'n) site_sys \<Rightarrow> bool" where
  "sharing E t rq r site s \<longleftrightarrow> locks_ok s \<and> sites_of s (request_key rq) = Some r \<and>
     map_of (sv_site_store (sy_server s)) r = Some site \<and>
     sy_thread s t \<in> {AwaitsLock rq, HasLock rq,
       Gave (ebind (validate_secret_key (e_test_mode E) site (fst (snd rq))) (\<lambda>_. Inr r))}"

lemma load_site_store:
  "load_site E su st xml sv = (x, sv') \<Longrightarrow> map_of (sv_site_store sv) r = Some site \<Longrightarrow>
     map_of (sv_site_store sv') r = Some site"
  using fresh_ref_fresh [of "sv_site_store sv"]
  by (auto simp: load_site_def Let_def split: sum.splits)

text \<open>A step of another thread, or of this one, keeps the map entry and the site.\<close>

lemma thread_step_keeps:
  assumes ok: "locks_ok s" and step: "thread_step E u s = Some s'"
    and r: "sites_of s key = Some r" "map_of (sv_site_store (sy_server s)) r = Some site"
  shows "sites_of s' key = Some r \<and> map_of (sv_site_store (sy_server s')) r = Some site"
proof (cases "\<exists>rq xml. sy_thread s u = HasFeed rq xml")
  case True
  then obtain su k st xml where u: "sy_thread s u = HasFeed (su, k, st) xml" by (metis prod_cases3)
  obtain x sv where l: "load_site E su st xml (sy_server s) = (x, sv)" by (metis surj_pair)
  have "key \<noteq> site_key su st"
    using locks_okD(2) [OF ok, of u "site_key su st"] u r(1) by (auto simp: request_key_def)
  with step u l load_site_sites [OF l] load_site_store [OF l r(2)] r(1) show ?thesis
    by (auto simp: thread_step_def step_load_def sites_of_def split: sum.splits)
next
  case False
  with step have "sy_server s' = sy_server s"
    by (auto simp: thread_step_def step_lock_def step_lookup_def step_fetch_def step_check_def
        split: site_pc.splits if_splits sum.splits option.splits prod.splits)
  with r show ?thesis by (simp add: sites_of_def)
qed

lemma thread_step_others:
  "thread_step E u s = Some s' \<Longrightarrow> t \<noteq> u \<Longrightarrow> sy_thread s' t = sy_thread s t"
  by (auto simp: thread_step_def step_lock_def step_lookup_def step_fetch_def step_load_def step_check_def give_thread
      split: site_pc.splits if_splits sum.splits option.splits prod.splits)

lemma settled_validate: "settled (ebind (validate_secret_key tm site k) (\<lambda>_. Inr x))"
  by (simp add: validate_secret_key_def)

lemma sharing_own_step:
  assumes sh: "sharing E t rq r site s" and step: "thread_step E t s = Some s'"
  shows "sy_thread s' t \<in> {AwaitsLock rq, HasLock rq,
    Gave (ebind (validate_secret_key (e_test_mode E) site (fst (snd rq))) (\<lambda>_. Inr r))}"
proof -
  obtain su k st where rq: "rq = (su, k, st)" by (metis prod_cases3)
  have l: "lookup_site E (site_key su st) k (sy_server s) =
      ebind (validate_secret_key (e_test_mode E) site k) (\<lambda>_. Inr (Some r))"
    using sh by (simp add: sharing_def lookup_site_def sites_of_def request_key_def rq)
  from sh consider "sy_thread s t = AwaitsLock rq" | "sy_thread s t = HasLock rq"
    | "\<exists>x. sy_thread s t = Gave x" by (auto simp: sharing_def)
  then show ?thesis
  proof cases
    case 1
    with step show ?thesis by (auto simp: thread_step_def step_lock_def split: if_splits)
  next
    case 2
    with step l show ?thesis
      using settled_validate [of "e_test_mode E" site k r]
      by (cases "validate_secret_key (e_test_mode E) site k") (auto simp: thread_step_def step_lookup_def rq)
  next
    case 3
    with step show ?thesis by (auto simp: thread_step_def)
  qed
qed

lemma sharing_move:
  assumes sh: "sharing E t rq r site s" and move: "site_move E a s = Some s'"
    and a: "\<not> reloads a" "\<not> calls t a"
  shows "sharing E t rq r site s'"
proof -
  have ok: "locks_ok s'" using locks_ok_move [OF _ move] sh by (simp add: sharing_def)
  show ?thesis
  proof (cases a)
    case (Go u)
    with move have step: "thread_step E u s = Some s'" by simp
    have "sy_thread s' t \<in> {AwaitsLock rq, HasLock rq,
        Gave (ebind (validate_secret_key (e_test_mode E) site (fst (snd rq))) (\<lambda>_. Inr r))}"
    proof (cases "u = t")
      case True
      with sharing_own_step [OF sh] step show ?thesis by blast
    next
      case False
      with thread_step_others [OF step] sh show ?thesis by (simp add: sharing_def)
    qed
    with ok thread_step_keeps [OF _ step, of "request_key rq" r site] sh show ?thesis by (simp add: sharing_def)
  next
    case (Call u rq')
    then have "u \<noteq> t" using a(2) unfolding calls_def by blast
    with Call move ok sh show ?thesis by (auto simp: sharing_def sites_of_def split: site_pc.splits)
  qed (use a move ok sh in \<open>auto simp: reloads_def sharing_def sites_of_def\<close>)
qed

lemma sharing_moves:
  "site_moves E as s = Some s' \<Longrightarrow> sharing E t rq r site s \<Longrightarrow> \<forall>a \<in> set as. \<not> reloads a \<and> \<not> calls t a \<Longrightarrow>
     sharing E t rq r site s'"
proof (induction "as" arbitrary: s)
  case (Cons a "as")
  from Cons.prems(1) obtain s1 where "site_move E a s = Some s1" "site_moves E as s1 = Some s'"
    by (auto simp: bind_eq_Some_conv simp del: site_move.simps split: if_splits)
  with Cons.IH sharing_move Cons.prems(2,3) show ?case by (metis list.set_intros)
qed simp

text \<open>(C8) A site is loaded once: as long as nothing reloads, a request for a key that has a site is answered
  with that very site, or with the exception for a wrong secret key, whatever other threads do meanwhile.\<close>

theorem loaded_site_shared:
  assumes "site_moves E past (sys_new sv feed) = Some s"
    and "map_of (sv_sites (sy_server s)) (site_key su st) = Some r"
    and "map_of (sv_site_store (sy_server s)) r = Some site"
    and "site_moves E (Call t (su, k, st) # as) s = Some s'"
    and "\<forall>a \<in> set as. \<not> reloads a \<and> \<not> calls t a" and "sy_thread s' t = Gave x"
  shows "x = ebind (validate_secret_key (e_test_mode E) site k) (\<lambda>_. Inr r) \<and>
    map_of (sv_sites (sy_server s')) (site_key su st) = Some r"
proof -
  from assms(4) obtain s1 where c: "site_move E (Call t (su, k, st)) s = Some s1" and m: "site_moves E as s1 = Some s'"
    by (auto simp: bind_eq_Some_conv simp del: site_move.simps split: if_splits)
  have "locks_ok s1" using locks_ok_move [OF locks_ok_run [OF assms(1)] c] .
  moreover have "s1 = move_to t (AwaitsLock (su, k, st)) s" using c by (auto split: site_pc.splits)
  ultimately have "sharing E t (su, k, st) r site s1"
    using assms(2,3) by (simp add: sharing_def sites_of_def request_key_def)
  from sharing_moves [OF m this assms(5)] assms(6) show ?thesis
    by (simp add: sharing_def sites_of_def request_key_def)
qed

theorem loaded_site_shared_witness:
  "\<forall>(E :: ('c, 'm, 'd, 'n) env) lg mc my feed. \<exists>s'. site_moves (demo_env E)
     [Call 1 (''a'', ''k1'', False), Call 2 (''a'', ''k9'', False), Go 2, Go 2, Go 1, Go 1]
     (sys_new (demo_server lg mc my) feed) = Some s' \<and>
     sy_thread s' 1 = Gave (Inr 0)"
proof (intro allI)
  fix E :: "('c, 'm, 'd, 'n) env" and lg mc my feed
  let ?s = "sys_new (demo_server lg mc my) feed :: ('c, 'm, 'd, 'n) site_sys"
  let ?as = "[Call 2 (''a'', ''k9'', False), Go 2, Go 2, Go 1, Go 1]"
  let ?run = "site_moves (demo_env E) (Call 1 (''a'', ''k1'', False) # ?as) ?s"
  have run: "?run \<noteq> None \<and> (\<exists>x. map_option (\<lambda>s. sy_thread s 1) ?run = Some (Gave x))"
    by (simp add: sys_new_def thread_step_def step_lock_def step_lookup_def move_to_def give_def request_key_def
        site_key_def lookup_site_def demo_server_def demo_env_def validate_secret_key_def site_empty_def)
  then obtain s' x where s': "?run = Some s'" "sy_thread s' 1 = Gave x" by auto
  have past: "site_moves (demo_env E) [] ?s = Some ?s" by simp
  have "x = ebind (validate_secret_key (e_test_mode (demo_env E)) (site_empty ''a'' False [''k1'', ''k2'']) ''k1'')
      (\<lambda>_. Inr 0) \<and> map_of (sv_sites (sy_server s')) (site_key ''a'' False) = Some 0"
    by (rule loaded_site_shared [OF past _ _ s'(1) _ s'(2)])
      (simp_all add: sys_new_def demo_server_def site_key_def reloads_def calls_def)
  with s' show "\<exists>s'. site_moves (demo_env E)
     [Call 1 (''a'', ''k1'', False), Call 2 (''a'', ''k9'', False), Go 2, Go 2, Go 1, Go 1] ?s = Some s' \<and>
     sy_thread s' 1 = Gave (Inr 0)"
    by (auto simp: demo_env_def validate_secret_key_def site_empty_def)
qed

section \<open>Nobody is given a site without its key\<close>

text \<open>The sites of the map and those that a thread has just entered were loaded for their key.\<close>

definition sites_ok :: "('c, 'm, 'd, 'n) env \<Rightarrow> ('c, 'm, 'd, 'n) site_sys \<Rightarrow> bool" where
  "sites_ok E s \<longleftrightarrow> server_ok E (sy_server s) \<and>
     (\<forall>t rq r. sy_thread s t = HasSite rq r \<longrightarrow>
        (\<exists>site. map_of (sv_site_store (sy_server s)) r = Some site \<and> site_authentic E (request_key rq) site))"

lemma sites_okD:
  assumes "sites_ok E s"
  shows "server_ok E (sy_server s)"
    and "sy_thread s t = HasSite rq r \<Longrightarrow>
      \<exists>site. map_of (sv_site_store (sy_server s)) r = Some site \<and> site_authentic E (request_key rq) site"
  using assms unfolding sites_ok_def by blast+

lemma sites_ok_same:
  assumes "sites_ok E s" and "sy_server s' = sy_server s"
    and "\<And>u rq r. sy_thread s' u = HasSite rq r \<Longrightarrow> sy_thread s u = HasSite rq r"
  shows "sites_ok E s'"
  using assms unfolding sites_ok_def by metis

lemma reload_site_keeps [simp]:
  "sv_site_store (reload_site su sv) = sv_site_store sv" "sv_sessions (reload_site su sv) = sv_sessions sv"
  by (simp_all add: reload_site_def Let_def)

lemma server_ok_reload:
  assumes ok: "server_ok E sv"
  shows "server_ok E (reload_site su sv)"
proof -
  have "servers_agree E (reload_site su sv) (reload_site su sv)"
    unfolding reload_site_def Let_def by (rule servers_agree_update [OF server_okD(1) [OF ok]]) simp_all
  moreover have "map_of (sv_sites (reload_site su sv)) key = Some r \<Longrightarrow> map_of (sv_sites sv) key = Some r" for key r
    by (simp add: reload_site_sites split: if_splits)
  ultimately show ?thesis using server_okD(2-4) [OF ok] by (simp add: server_ok_def)
qed

text \<open>The steps that do not load.\<close>

lemma thread_step_pc:
  assumes "thread_step E u s = Some s'" and "\<And>rq xml. sy_thread s u \<noteq> HasFeed rq xml"
  shows "sy_server s' = sy_server s" and "sy_thread s' u \<noteq> HasSite rq r \<or> sy_thread s u = HasSite rq r"
  using assms
  by (auto simp: thread_step_def step_lock_def step_lookup_def step_fetch_def step_check_def give_thread
      split: site_pc.splits if_splits sum.splits option.splits prod.splits)

lemma sites_ok_thread_step:
  assumes ok: "sites_ok E s" and step: "thread_step E u s = Some s'"
  shows "sites_ok E s'"
proof (cases "\<exists>rq xml. sy_thread s u = HasFeed rq xml")
  case False
  show ?thesis
  proof (rule sites_ok_same [OF ok])
    show "sy_server s' = sy_server s" using thread_step_pc(1) [OF step] False by blast
    show "sy_thread s v = HasSite rq r" if "sy_thread s' v = HasSite rq r" for v rq r
      using thread_step_pc(2) [OF step, of rq r] thread_step_others [OF step, of v] that False by metis
  qed
next
  case True
  then obtain su k st xml where u: "sy_thread s u = HasFeed (su, k, st) xml" by (metis prod_cases3)
  obtain x sv where l: "load_site E su st xml (sy_server s) = (x, sv)" by (metis surj_pair)
  have sv: "server_ok E sv" using keepsD [OF server_ok_load_site sites_okD(1) [OF ok], of su st xml] l by simp
  have kept: "\<exists>site. map_of (sv_site_store sv) r = Some site \<and> site_authentic E (request_key rq) site"
    if "sy_thread s v = HasSite rq r" for v rq r
    using sites_okD(2) [OF ok that] load_site_store [OF l] by blast
  show ?thesis
  proof (cases x)
    case (Inl e)
    with step u l have s': "s' = give u (su, k, st) (Inl e) (s\<lparr>sy_server := sv\<rparr>)"
      by (simp add: thread_step_def step_load_def)
    then have "sy_thread s v = HasSite rq r" if "sy_thread s' v = HasSite rq r" for v rq r
      using that by (simp add: give_thread split: if_splits)
    moreover have "sy_server s' = sv" by (simp add: s')
    ultimately show ?thesis unfolding sites_ok_def using sv kept by metis
  next
    case (Inr r)
    with step u l have s': "s' = move_to u (HasSite (su, k, st) r) (s\<lparr>sy_server := sv\<rparr>)"
      by (simp add: thread_step_def step_load_def)
    have "\<exists>site. map_of (sv_site_store sv) r = Some site \<and> site_authentic E (site_key su st) site"
      by (rule load_site_Inr [OF l [unfolded Inr]]) auto
    with sv kept s' show ?thesis by (auto simp: sites_ok_def request_key_def)
  qed
qed

lemma sites_ok_move:
  assumes ok: "sites_ok E s" and move: "site_move E a s = Some s'"
  shows "sites_ok E s'"
proof (cases a)
  case (Go u)
  with move sites_ok_thread_step [OF ok] show ?thesis by simp
next
  case (BusReload su)
  with move ok server_ok_reload [of E "sy_server s" su] show ?thesis by (auto simp: sites_ok_def)
qed (use move ok in \<open>auto split: site_pc.splits if_splits intro: sites_ok_same\<close>)

lemma sites_ok_moves: "site_moves E as s = Some s' \<Longrightarrow> sites_ok E s \<Longrightarrow> sites_ok E s'"
  by (induction "as" arbitrary: s)
    (auto simp: bind_eq_Some_conv intro: sites_ok_move simp del: site_move.simps split: if_splits)

lemma sites_ok_new: "server_ok E sv \<Longrightarrow> sites_ok E (sys_new sv feed)"
  by (simp add: sites_ok_def sys_new_def)

text \<open>The request a thread is serving, and what it may be given for it.\<close>

fun pc_request :: "site_pc \<Rightarrow> site_request option" where
  "pc_request (AwaitsLock rq) = Some rq"
| "pc_request (HasLock rq) = Some rq"
| "pc_request (NotFound rq) = Some rq"
| "pc_request (HasFeed rq xml) = Some rq"
| "pc_request (HasSite rq r) = Some rq"
| "pc_request (Hangs rq) = Some rq"
| "pc_request _ = None"

definition granted ::
  "('c, 'm, 'd, 'n) env \<Rightarrow> site_request \<Rightarrow> nat \<Rightarrow> ('c, 'm, 'd, 'n) server \<Rightarrow> bool" where
  "granted E rq r sv \<longleftrightarrow> (\<exists>site. map_of (sv_site_store sv) r = Some site \<and>
     site_authentic E (request_key rq) site \<and> fst (snd rq) \<in> set (s_secret_keys site))"

definition serving ::
  "('c, 'm, 'd, 'n) env \<Rightarrow> nat \<Rightarrow> site_request \<Rightarrow> ('c, 'm, 'd, 'n) site_sys \<Rightarrow> bool" where
  "serving E t rq s \<longleftrightarrow> sites_ok E s \<and>
     (pc_request (sy_thread s t) = Some rq \<or>
      (\<exists>x. sy_thread s t = Gave x \<and> (\<forall>r. x = Inr r \<longrightarrow> granted E rq r (sy_server s))))"

lemma thread_step_store:
  assumes "thread_step E u s = Some s'" and "map_of (sv_site_store (sy_server s)) r = Some site"
  shows "map_of (sv_site_store (sy_server s')) r = Some site"
proof (cases "\<exists>rq xml. sy_thread s u = HasFeed rq xml")
  case False
  then have "sy_server s' = sy_server s" using thread_step_pc(1) [OF assms(1)] by blast
  with assms(2) show ?thesis by simp
next
  case True
  then obtain su k st xml where u: "sy_thread s u = HasFeed (su, k, st) xml" by (metis prod_cases3)
  obtain x sv where l: "load_site E su st xml (sy_server s) = (x, sv)" by (metis surj_pair)
  from assms(1) u l have "sy_server s' = sv" by (auto simp: thread_step_def step_load_def split: sum.splits)
  with load_site_store [OF l assms(2)] show ?thesis by simp
qed

lemma granted_store:
  "granted E rq r sv \<Longrightarrow> (\<And>site. map_of (sv_site_store sv) r = Some site \<Longrightarrow> map_of (sv_site_store sv') r = Some site) \<Longrightarrow>
    granted E rq r sv'"
  by (auto simp: granted_def)

text \<open>The two steps that give a thread a site: a lookup, and the check after a load.\<close>

lemma lookup_granted:
  assumes "server_ok E sv" and "\<not> e_test_mode E" and "lookup_site E (request_key (su, k, st)) k sv = Inr (Some r)"
  shows "granted E (su, k, st) r sv"
proof -
  from assms(3) obtain site where m: "map_of (sv_sites sv) (request_key (su, k, st)) = Some r"
    and site: "map_of (sv_site_store sv) r = Some site"
    and "validate_secret_key (e_test_mode E) site k = Inr ()"
    by (auto simp: lookup_site_def ebind_eq_Inr_iff split: option.splits)
  with assms(2) have "k \<in> set (s_secret_keys site)"
    by (auto simp: validate_secret_key_def list_ex_iff split: if_splits)
  with server_okD(3) [OF assms(1) m] site show ?thesis by (simp add: granted_def)
qed

lemma check_granted:
  assumes "sites_ok E s" and "\<not> e_test_mode E" and "sy_thread s t = HasSite (su, k, st) r"
    and "ebind (fst (site_at r (sy_server s))) (\<lambda>site.
      ebind (validate_secret_key (e_test_mode E) site k) (\<lambda>_. Inr r)) = Inr r'"
  shows "r' = r \<and> granted E (su, k, st) r (sy_server s)"
proof -
  from sites_okD(2) [OF assms(1,3)] obtain site where site: "map_of (sv_site_store (sy_server s)) r = Some site"
    "site_authentic E (request_key (su, k, st)) site" by blast
  with assms(4) have "validate_secret_key (e_test_mode E) site k = Inr () \<and> r' = r"
    by (auto simp: site_at_def ebind_eq_Inr_iff)
  with assms(2) have "r' = r \<and> k \<in> set (s_secret_keys site)"
    by (auto simp: validate_secret_key_def list_ex_iff split: if_splits)
  with site show ?thesis by (simp add: granted_def)
qed

lemma serving_own_step:
  assumes sv: "serving E t rq s" and tm: "\<not> e_test_mode E" and step: "thread_step E t s = Some s'"
  shows "serving E t rq s'"
proof -
  have ok: "sites_ok E s" "sites_ok E s'" using sv sites_ok_thread_step [OF _ step] by (auto simp: serving_def)
  obtain su k st where rq: "rq = (su, k, st)" by (metis prod_cases3)
  have pc: "pc_request (sy_thread s t) = Some rq"
    using sv step by (auto simp: serving_def thread_step_def)
  have "pc_request (sy_thread s' t) = Some rq \<or> (\<exists>x. sy_thread s' t = Gave x \<and>
      (\<forall>r. x = Inr r \<longrightarrow> granted E rq r (sy_server s')))"
  proof (cases "sy_thread s t")
    case (HasLock rq')
    with pc have l: "s' = step_lookup E t rq s" using step by (simp add: thread_step_def)
    show ?thesis
    proof (cases "lookup_site E (site_key su st) k (sy_server s)")
      case (Inl e)
      then show ?thesis using l HasLock pc by (simp add: step_lookup_def rq give_thread)
    next
      case (Inr o')
      show ?thesis
      proof (cases o')
        case None
        with Inr l show ?thesis by (simp add: step_lookup_def rq)
      next
        case (Some r)
        with Inr lookup_granted [OF sites_okD(1) [OF ok(1)] tm, of su k st r] l show ?thesis
          by (simp add: step_lookup_def rq request_key_def)
      qed
    qed
  next
    case (HasSite rq' r)
    with pc have l: "s' = step_check E t rq r s" using step by (simp add: thread_step_def)
    let ?x = "ebind (fst (site_at r (sy_server s))) (\<lambda>site.
      ebind (validate_secret_key (e_test_mode E) site k) (\<lambda>_. Inr r))"
    have s': "s' = give t rq ?x s" using l by (simp add: step_check_def rq)
    have "granted E rq r' (sy_server s)" if "?x = Inr r'" for r'
      using check_granted [OF ok(1) tm _ that] HasSite pc rq by simp
    with HasSite pc show ?thesis unfolding s' by (simp add: give_thread)
  qed (use step pc in \<open>auto simp: thread_step_def step_lock_def step_fetch_def step_load_def give_thread
      split: if_splits sum.splits prod.splits\<close>)
  with ok(2) show ?thesis by (simp add: serving_def)
qed

lemma serving_move:
  assumes sv: "serving E t rq s" and tm: "\<not> e_test_mode E" and move: "site_move E a s = Some s'"
    and a: "\<not> calls t a"
  shows "serving E t rq s'"
proof -
  have ok: "sites_ok E s'" using sites_ok_move [OF _ move] sv by (simp add: serving_def)
  show ?thesis
  proof (cases "a = Go t")
    case True
    with serving_own_step [OF sv tm] move show ?thesis by simp
  next
    case False
    have "sy_thread s' t = sy_thread s t"
      using move a False thread_step_others [of E _ s s' t] by (cases a) (auto simp: calls_def split: site_pc.splits if_splits)
    moreover have "map_of (sv_site_store (sy_server s')) r = Some site" if "map_of (sv_site_store (sy_server s)) r = Some site" for r site
      using move that thread_step_store [of E _ s s' r site]
      by (cases a) (auto split: site_pc.splits if_splits)
    ultimately show ?thesis using sv ok granted_store [of E rq _ "sy_server s" "sy_server s'"] unfolding serving_def by metis
  qed
qed

lemma serving_moves:
  "site_moves E as s = Some s' \<Longrightarrow> serving E t rq s \<Longrightarrow> \<not> e_test_mode E \<Longrightarrow> \<forall>a \<in> set as. \<not> calls t a \<Longrightarrow> serving E t rq s'"
proof (induction "as" arbitrary: s)
  case (Cons a "as")
  from Cons.prems(1) obtain s1 where "site_move E a s = Some s1" "site_moves E as s1 = Some s'"
    by (auto simp: bind_eq_Some_conv simp del: site_move.simps split: if_splits)
  with Cons.IH serving_move Cons.prems(2-4) show ?case by (metis list.set_intros)
qed simp

text \<open>(C12) However requests, reloads and publications interleave, outside the test mode a thread that calls
  \<open>getSite\<close> is only ever given a site that was loaded for the key it asked for and whose secret file has
  the secret key it presented, even when another thread loaded the site and entered it into the map before
  anybody's key had been checked.\<close>

theorem concurrent_site_authorised:
  assumes "server_ok E sv" and "\<not> e_test_mode E"
    and "site_moves E (past @ Call t (su, k, st) # as) (sys_new sv feed) = Some s"
    and "\<forall>a \<in> set as. \<not> calls t a" and "sy_thread s t = Gave (Inr r)"
  shows "\<exists>site keys. map_of (sv_site_store (sy_server s)) r = Some site \<and>
    site_key (s_subdomain site) (s_staging site) = site_key su st \<and>
    e_read_s3 E (s_subdomain site @ ''-secret'') = Inr keys \<and>
    k \<in> set (boost_split (e_text E) ('','' @ '';'' @ [CHR 0x0A]) keys)"
proof -
  from assms(3) obtain s0 s1 where p: "site_moves E past (sys_new sv feed) = Some s0"
    and c: "site_move E (Call t (su, k, st)) s0 = Some s1" and m: "site_moves E as s1 = Some s"
    by (auto simp: site_moves_append bind_eq_Some_conv simp del: site_move.simps split: if_splits)
  have "sites_ok E s1" using sites_ok_move [OF sites_ok_moves [OF p sites_ok_new [OF assms(1)]] c] .
  moreover have "sy_thread s1 t = AwaitsLock (su, k, st)" using c by (auto split: site_pc.splits)
  ultimately have "serving E t (su, k, st) s1" by (simp add: serving_def)
  from serving_moves [OF m this assms(2,4)] assms(5) have "granted E (su, k, st) r (sy_server s)"
    by (simp add: serving_def)
  with assms(2) show ?thesis by (force simp: granted_def site_authentic_def request_key_def)
qed

theorem concurrent_site_authorised_witness:
  "\<forall>(E :: ('c, 'm, 'd, 'n) env) lg mc my feed. \<exists>s site. site_moves (demo_env E)
     ([Call 2 (''a'', ''k9'', False)] @ Call 1 (''a'', ''k1'', False) # [Go 2, Go 2, Go 1, BusReload ''b'', Go 1])
     (sys_new (demo_server lg mc my) feed) = Some s \<and>
     sy_thread s 1 = Gave (Inr 0) \<and> map_of (sv_site_store (sy_server s)) 0 = Some site \<and>
     site_key (s_subdomain site) (s_staging site) = ''a''"
proof (intro allI)
  fix E :: "('c, 'm, 'd, 'n) env" and lg mc my feed
  let ?as = "[Call 2 (''a'', ''k9'', False)] @ Call 1 (''a'', ''k1'', False) # [Go 2, Go 2, Go 1, BusReload ''b'', Go 1]"
  let ?s = "sys_new (demo_server lg mc my) feed :: ('c, 'm, 'd, 'n) site_sys"
  have run: "map_option (\<lambda>s. sy_thread s 1) (site_moves (demo_env E) ?as ?s) = Some (Gave (Inr 0))"
    by (simp add: sys_new_def thread_step_def step_lock_def step_lookup_def move_to_def release_def request_key_def
        site_key_def lookup_site_def demo_server_def demo_env_def validate_secret_key_def site_empty_def reload_site_def)
  then obtain s where s: "site_moves (demo_env E) ?as ?s = Some s" "sy_thread s 1 = Gave (Inr 0)" by auto
  have "\<not> e_test_mode (demo_env E)" by (simp add: demo_env_def)
  moreover have "\<forall>a \<in> set [Go 2, Go 2, Go 1, BusReload ''b'', Go 1]. \<not> calls 1 a" by (simp add: calls_def)
  ultimately obtain site where "map_of (sv_site_store (sy_server s)) 0 = Some site"
    "site_key (s_subdomain site) (s_staging site) = site_key ''a'' False"
    using concurrent_site_authorised [OF demo_server_ok _ s(1) _ s(2)] by blast
  moreover have "site_key ''a'' False = ''a''" by (simp add: site_key_def)
  ultimately show "\<exists>s site. site_moves (demo_env E) ?as ?s = Some s \<and> sy_thread s 1 = Gave (Inr 0) \<and>
     map_of (sv_site_store (sy_server s)) 0 = Some site \<and> site_key (s_subdomain site) (s_staging site) = ''a''"
    using s by metis
qed

section \<open>Progress\<close>

text \<open>How many of its own steps a thread is from the result.\<close>

fun steps_left :: "site_pc \<Rightarrow> nat" where
  "steps_left (AwaitsLock rq) = 5"
| "steps_left (HasLock rq) = 4"
| "steps_left (NotFound rq) = 3"
| "steps_left (HasFeed rq xml) = 2"
| "steps_left (HasSite rq r) = 1"
| "steps_left _ = 0"

text \<open>The calls that leave the program come back: the downloads of feeds, and the construction of a site,
  which downloads its secret keys and parses the feed.\<close>

definition callees_return :: "('c, 'm, 'd, 'n) env \<Rightarrow> ('c, 'm, 'd, 'n) site_sys \<Rightarrow> bool" where
  "callees_return E s \<longleftrightarrow> (\<forall>name. settled (sy_feed s name)) \<and>
     (\<forall>su st xml. settled (site_new (e_text E) (e_xml E) (e_test_mode E) (e_read_s3 E) su st xml))"

definition running :: "('c, 'm, 'd, 'n) env \<Rightarrow> ('c, 'm, 'd, 'n) site_sys \<Rightarrow> bool" where
  "running E s \<longleftrightarrow> sites_ok E s \<and> callees_return E s \<and> \<not> sy_halted s"

text \<open>A thread within its section: one step brings it nearer to its result.\<close>

definition nearer :: "nat \<Rightarrow> site_request \<Rightarrow> ('c, 'm, 'd, 'n) site_sys \<Rightarrow> ('c, 'm, 'd, 'n) site_sys \<Rightarrow> bool" where
  "nearer t rq s s' \<longleftrightarrow>
     (pc_request (sy_thread s' t) = Some rq \<and> section_key (sy_thread s' t) = Some (request_key rq) \<and>
      sy_thread s' t \<noteq> Hangs rq \<and> sy_mutex s' = sy_mutex s \<and> steps_left (sy_thread s' t) < steps_left (sy_thread s t)) \<or>
     ((\<exists>x. sy_thread s' t = Gave x \<and> settled x) \<and> sy_mutex s' = (sy_mutex s)(request_key rq := None))"

lemma nearer_give: "settled x \<Longrightarrow> nearer t rq s (give t rq x (s\<lparr>sy_server := sv\<rparr>))"
  by (auto simp: nearer_def)

lemma settled_lookup:
  assumes "server_ok E sv"
  shows "lookup_site E key k sv = Inl e \<Longrightarrow> settled (Inl e :: nat outcome)"
  using server_okD(3) [OF assms, of key] settled_validate [of "e_test_mode E" _ k "0 :: nat"]
  by (fastforce simp: lookup_site_def ebind_def split: option.splits sum.splits)

lemma load_site_settled:
  "callees_return E s \<Longrightarrow> load_site E su st xml sv = (Inl e, sv') \<Longrightarrow> settled (Inl e :: nat outcome)"
  unfolding callees_return_def load_site_def by (auto simp: settled_def Let_def split: sum.splits)

lemma section_step:
  assumes run: "running E s" and pc: "pc_request (sy_thread s t) = Some rq"
    and sec: "section_key (sy_thread s t) = Some (request_key rq)" "sy_thread s t \<noteq> Hangs rq"
  shows "\<exists>s'. thread_step E t s = Some s' \<and> running E s' \<and> nearer t rq s s'"
proof -
  have ok: "sites_ok E s" "callees_return E s" "\<not> sy_halted s" using run by (simp_all add: running_def)
  obtain su k st where rq: "rq = (su, k, st)" by (metis prod_cases3)
  have "\<exists>s'. thread_step E t s = Some s' \<and> nearer t rq s s' \<and> sy_feed s' = sy_feed s \<and> \<not> sy_halted s'"
  proof (cases "sy_thread s t")
    case (HasLock rq')
    with pc have l: "thread_step E t s = Some (step_lookup E t rq s)" by (simp add: thread_step_def)
    show ?thesis
    proof (cases "lookup_site E (site_key su st) k (sy_server s)")
      case (Inl e)
      with settled_lookup [OF sites_okD(1) [OF ok(1)]] have "settled (Inl e :: nat outcome)" by blast
      with l Inl ok(3) nearer_give [of "Inl e" t rq s "sy_server s"] show ?thesis
        by (simp add: step_lookup_def rq)
    next
      case (Inr known)
      with l ok(3) pc HasLock nearer_give [of "Inr r" t rq s "sy_server s" for r] show ?thesis
        by (cases known) (simp_all add: step_lookup_def rq nearer_def)
    qed
  next
    case (NotFound rq')
    with pc have l: "thread_step E t s = Some (step_fetch E t rq s)" by (simp add: thread_step_def)
    let ?x = "if e_test_mode E then Inr [] else sy_feed s (su @ ''-feed.xml'')"
    have "settled ?x" using ok(2) by (simp add: callees_return_def)
    then have "settled (Inl e :: nat outcome)" if "?x = Inl e" for e using that by (simp add: settled_def split: if_splits)
    with l ok(3) pc NotFound show ?thesis
      unfolding step_fetch_def rq by (cases ?x) (auto simp: nearer_def split: if_splits)
  next
    case (HasFeed rq' xml)
    with pc have l: "thread_step E t s = Some (step_load E t rq xml s)" by (simp add: thread_step_def)
    obtain x sv where x: "load_site E su st xml (sy_server s) = (x, sv)" by (metis surj_pair)
    with l ok(3) pc HasFeed load_site_settled [OF ok(2), of su st xml "sy_server s"]
      nearer_give [of x t rq s sv] show ?thesis
      by (cases x) (auto simp: step_load_def rq nearer_def)
  next
    case (HasSite rq' r)
    with pc have l: "thread_step E t s = Some (step_check E t rq r s)" by (simp add: thread_step_def)
    from sites_okD(2) [OF ok(1) HasSite] obtain site where "map_of (sv_site_store (sy_server s)) r = Some site" by blast
    with l ok(3) settled_validate [of "e_test_mode E" site k r] show ?thesis
      by (auto simp: step_check_def rq site_at_def nearer_def)
  qed (use sec pc in auto)
  moreover have "running E s'" if "thread_step E t s = Some s'" "sy_feed s' = sy_feed s" "\<not> sy_halted s'" for s'
    using sites_ok_thread_step [OF ok(1) that(1)] ok(2) that by (simp add: running_def callees_return_def)
  ultimately show ?thesis by blast
qed

lemma section_completes:
  assumes "running E s" and "pc_request (sy_thread s t) = Some rq"
    and "section_key (sy_thread s t) = Some (request_key rq)" "sy_thread s t \<noteq> Hangs rq"
  shows "\<exists>n s' x. n \<le> steps_left (sy_thread s t) \<and> site_moves E (replicate n (Go t)) s = Some s' \<and> running E s' \<and>
    sy_thread s' t = Gave x \<and> settled x \<and> sy_mutex s' = (sy_mutex s)(request_key rq := None) \<and>
    (\<forall>u. u \<noteq> t \<longrightarrow> sy_thread s' u = sy_thread s u)"
  using assms
proof (induction "steps_left (sy_thread s t)" arbitrary: s rule: less_induct)
  case less
  from section_step [OF less.prems] obtain s1 where
    s1: "thread_step E t s = Some s1" "running E s1" "nearer t rq s s1" by blast
  have h: "\<not> sy_halted s" using less.prems(1) by (simp add: running_def)
  have o: "\<forall>u. u \<noteq> t \<longrightarrow> sy_thread s1 u = sy_thread s u" using thread_step_others [OF s1(1)] by blast
  have pos: "1 \<le> steps_left (sy_thread s t)" using less.prems(3,4,2) by (cases "sy_thread s t") auto
  show ?case
  proof (cases "\<exists>x. sy_thread s1 t = Gave x")
    case True
    with s1(3) have "(\<exists>x. sy_thread s1 t = Gave x \<and> settled x) \<and> sy_mutex s1 = (sy_mutex s)(request_key rq := None)"
      by (auto simp: nearer_def)
    moreover have "site_moves E (replicate 1 (Go t)) s = Some s1" using s1(1) h by simp
    ultimately show ?thesis using s1(2) o pos by blast
  next
    case False
    with s1(3) have n: "pc_request (sy_thread s1 t) = Some rq" "section_key (sy_thread s1 t) = Some (request_key rq)"
      "sy_thread s1 t \<noteq> Hangs rq" "sy_mutex s1 = sy_mutex s"
      "steps_left (sy_thread s1 t) < steps_left (sy_thread s t)"
      by (auto simp: nearer_def)
    from less.hyps [OF n(5) s1(2) n(1-3)] obtain m s' x where
      m: "m \<le> steps_left (sy_thread s1 t)" "site_moves E (replicate m (Go t)) s1 = Some s'" and
      s': "running E s'" "sy_thread s' t = Gave x" "settled x" "sy_mutex s' = (sy_mutex s1)(request_key rq := None)"
        "\<forall>u. u \<noteq> t \<longrightarrow> sy_thread s' u = sy_thread s1 u"
      by blast
    have "site_moves E (replicate (Suc m) (Go t)) s = Some s'" using m(2) s1(1) h by simp
    moreover have "Suc m \<le> steps_left (sy_thread s t)" using m(1) n(5) by simp
    ultimately show ?thesis using s' n(4) o by metis
  qed
qed

text \<open>A thread that waits for a free mutex, and the holder of a mutex.\<close>

lemma waiting_completes:
  assumes run: "running E s" and t: "sy_thread s t = AwaitsLock rq" and free: "sy_mutex s (request_key rq) = None"
  shows "\<exists>m s' x. m \<le> 5 \<and> site_moves E (replicate m (Go t)) s = Some s' \<and> sy_thread s' t = Gave x \<and> settled x"
proof -
  let ?s = "(move_to t (HasLock rq) s)\<lparr>sy_mutex := (sy_mutex s)(request_key rq \<mapsto> t)\<rparr>"
  have h: "\<not> sy_halted s" using run by (simp add: running_def)
  have step: "thread_step E t s = Some ?s" using t free by (simp add: thread_step_def step_lock_def)
  have "sites_ok E ?s" using sites_ok_thread_step [OF _ step] run by (simp add: running_def)
  then have "running E ?s" using run by (simp add: running_def callees_return_def)
  from section_completes [OF this, of t rq] obtain m s' x where
    "m \<le> 4" "site_moves E (replicate m (Go t)) ?s = Some s'" "sy_thread s' t = Gave x" "settled x" by auto
  moreover from this(2) have "site_moves E (replicate (Suc m) (Go t)) s = Some s'" using step h by simp
  moreover from \<open>m \<le> 4\<close> have "Suc m \<le> 5" by simp
  ultimately show ?thesis by blast
qed

lemma holder_request: "section_key pc = Some key \<Longrightarrow> \<exists>rq. pc_request pc = Some rq \<and> request_key rq = key"
  by (cases pc) auto

text \<open>A call that never returns: its thread stays where it is, and so does every thread that waits for its
  mutex.\<close>

lemma site_move_thread:
  "site_move E a s = Some s' \<Longrightarrow> a = Go u \<or> calls u a \<or> sy_thread s' u = sy_thread s u"
  by (cases a) (auto simp: calls_def dest: thread_step_others [of _ _ _ _ u] split: site_pc.splits if_splits)

lemma hang_stays:
  assumes "locks_ok s" and "sy_thread s u = Hangs rq'" and move: "site_move E a s = Some s'"
  shows "sy_thread s' u = Hangs rq'" and "sy_thread s t = AwaitsLock rq \<Longrightarrow> request_key rq = request_key rq' \<Longrightarrow>
    sy_thread s' t = AwaitsLock rq"
proof -
  have m: "sy_mutex s (request_key rq') = Some u" using locks_okD(1) [OF assms(1), of u "request_key rq'"] assms(2) by simp
  have "a \<noteq> Go u" "\<not> calls u a" using move assms(2) by (auto simp: thread_step_def calls_def)
  with site_move_thread [OF move] assms(2) show "sy_thread s' u = Hangs rq'" by metis
  assume t: "sy_thread s t = AwaitsLock rq" "request_key rq = request_key rq'"
  then have "a \<noteq> Go t" "\<not> calls t a" using move m by (auto simp: thread_step_def step_lock_def calls_def)
  with site_move_thread [OF move] t(1) show "sy_thread s' t = AwaitsLock rq" by metis
qed

lemma hang_stays_moves:
  "site_moves E as s = Some s' \<Longrightarrow> locks_ok s \<Longrightarrow> sy_thread s u = Hangs rq' \<Longrightarrow> sy_thread s t = AwaitsLock rq \<Longrightarrow>
     request_key rq = request_key rq' \<Longrightarrow> sy_thread s' t = AwaitsLock rq"
proof (induction "as" arbitrary: s)
  case (Cons a "as")
  from Cons.prems(1) obtain s1 where "site_move E a s = Some s1" "site_moves E as s1 = Some s'"
    by (auto simp: bind_eq_Some_conv simp del: site_move.simps split: if_splits)
  with Cons.IH locks_ok_move [OF Cons.prems(2)] hang_stays [OF Cons.prems(2,3)] Cons.prems(4,5) show ?case by metis
qed simp

text \<open>(C13) When a waiting request gets its answer.  If the calls that leave the program come back and nothing
  is undefined, the thread that has the mutex needs at most four of its own steps to release it, and the
  waiting thread at most five after that to get a site or an exception: no deadlock, and no exception
  leaves a mutex locked.  But a call under the mutex that never returns, such as a download, blocks every request
  for the key for ever, whatever else happens.\<close>

theorem site_lock_progress:
  assumes "server_ok E sv" and "site_moves E as (sys_new sv feed) = Some s" and "sy_thread s t = AwaitsLock rq"
  shows "(callees_return E s \<longrightarrow> \<not> sy_halted s \<longrightarrow> (\<forall>u rq'. sy_thread s u \<noteq> Hangs rq') \<longrightarrow>
      (\<exists>n m s' x. n \<le> 4 \<and> m \<le> 5 \<and>
        site_moves E ((case sy_mutex s (request_key rq) of None \<Rightarrow> [] | Some u \<Rightarrow> replicate n (Go u)) @ replicate m (Go t)) s =
          Some s' \<and> sy_thread s' t = Gave x \<and> settled x)) \<and>
    (\<forall>u rq' bs s'. sy_thread s u = Hangs rq' \<longrightarrow> request_key rq' = request_key rq \<longrightarrow>
      site_moves E bs s = Some s' \<longrightarrow> sy_thread s' t = AwaitsLock rq)"
proof (intro conjI impI allI)
  note ok = locks_ok_run [OF assms(2)] and sok = sites_ok_moves [OF assms(2) sites_ok_new [OF assms(1)]]
  show "sy_thread s' t = AwaitsLock rq"
    if "sy_thread s u = Hangs rq'" "request_key rq' = request_key rq" "site_moves E bs s = Some s'" for u rq' bs s'
    using hang_stays_moves [OF that(3) ok that(1) assms(3)] that(2) by simp
  assume "callees_return E s" "\<not> sy_halted s" and nohang: "\<forall>u rq'. sy_thread s u \<noteq> Hangs rq'"
  with sok have run: "running E s" by (simp add: running_def)
  show "\<exists>n m s' x. n \<le> 4 \<and> m \<le> 5 \<and>
      site_moves E ((case sy_mutex s (request_key rq) of None \<Rightarrow> [] | Some u \<Rightarrow> replicate n (Go u)) @ replicate m (Go t)) s =
        Some s' \<and> sy_thread s' t = Gave x \<and> settled x"
  proof (cases "sy_mutex s (request_key rq)")
    case None
    with waiting_completes [OF run assms(3)] show ?thesis by auto
  next
    case (Some u)
    then have sec: "section_key (sy_thread s u) = Some (request_key rq)" using locks_okD(1) [OF ok] by blast
    from holder_request [OF sec] obtain rq' where
      pc: "pc_request (sy_thread s u) = Some rq'" and rq': "request_key rq' = request_key rq" by blast
    from section_completes [OF run pc] sec rq' nohang obtain n s1 x where
      n: "n \<le> steps_left (sy_thread s u)" "site_moves E (replicate n (Go u)) s = Some s1" and
      s1: "running E s1" "sy_mutex s1 = (sy_mutex s)(request_key rq := None)" "\<forall>v. v \<noteq> u \<longrightarrow> sy_thread s1 v = sy_thread s v"
      by auto
    have "n \<le> 4" using n(1) sec by (cases "sy_thread s u") auto
    moreover have "t \<noteq> u" using sec assms(3) by auto
    with s1 assms(3) have "sy_thread s1 t = AwaitsLock rq" "sy_mutex s1 (request_key rq) = None" by simp_all
    from waiting_completes [OF s1(1) this] obtain m s' x where
      "m \<le> 5" "site_moves E (replicate m (Go t)) s1 = Some s'" "sy_thread s' t = Gave x" "settled x" by blast
    ultimately show ?thesis using n(2) Some
      by (intro exI [of _ n] exI [of _ m] exI [of _ s'] exI [of _ x]) (simp add: site_moves_append)
  qed
qed

section \<open>A reload can be lost\<close>

text \<open>A document whose feed is the text of its generation node.\<close>

definition feed_dom :: "string \<Rightarrow> dom" where
  "feed_dom feed = \<lparr>dom_nodes = [(0, plain_node ElementNode ''content'' [] None),
     (1, plain_node ElementNode ''design'' [] None), (2, plain_node ElementNode ''generation'' [] (Some 3)),
     (3, plain_node TextNode ''text'' feed None)], dom_top = 4\<rparr>"

definition feed_xml :: xml_lib where
  "feed_xml = \<lparr>xpath_eval = (\<lambda>_ _ q. XNodes (Some
       [if q = ''/website/content'' then 0 else if q = ''/website/design'' then 1 else 2])),
     xml_unlink = (\<lambda>_ d. d), xml_free_node = (\<lambda>_ d. d), xml_free_node_list = (\<lambda>_ d. d),
     xml_copy_node = (\<lambda>_ d. (None, d)), xml_add_child = (\<lambda>_ _ d. d), xml_parse_file = (\<lambda>_. None),
     xml_read_memory = (\<lambda>feed _. Some (feed_dom feed)), xml_order_elems = (\<lambda>d. d)\<rparr>"

definition feed_env :: "('c, 'm, 'd, 'n) env \<Rightarrow> ('c, 'm, 'd, 'n) env" where
  "feed_env E = E\<lparr>e_text := text_ref, e_xml := feed_xml, e_test_mode := False,
     e_read_s3 := (\<lambda>_. Inr ''k1,k2'')\<rparr>"

theorem site_lock_progress_witness:
  "\<forall>(E :: ('c, 'm, 'd, 'n) env) lg mc my now. \<exists>n m s'. n \<le> 4 \<and> m \<le> 5 \<and>
     site_moves ((feed_env E)\<lparr>e_test_mode := True\<rparr>)
       ([Call 1 (''a'', ''k1'', False), Call 2 (''a'', ''k2'', False), Go 1] @ replicate n (Go 1) @ replicate m (Go 2))
       (sys_new (server_new lg mc my now) (\<lambda>_. Inr ''1'')) = Some s' \<and> (\<exists>x. sy_thread s' 2 = Gave x)"
proof (intro allI)
  fix E :: "('c, 'm, 'd, 'n) env" and lg mc my now
  let ?E = "(feed_env E)\<lparr>e_test_mode := True\<rparr>"
  let ?as = "[Call 1 (''a'', ''k1'', False), Call 2 (''a'', ''k2'', False), Go 1]"
  let ?s = "sys_new (server_new lg mc my now) (\<lambda>_. Inr ''1'') :: ('c, 'm, 'd, 'n) site_sys"
  define s where "s = ?s\<lparr>sy_mutex := (\<lambda>_. None)(''a'' \<mapsto> 1),
    sy_thread := (\<lambda>_. AtRest)(1 := HasLock (''a'', ''k1'', False), 2 := AwaitsLock (''a'', ''k2'', False))\<rparr>"
  have s: "site_moves ?E ?as ?s = Some s"
    by (simp add: s_def sys_new_def thread_step_def step_lock_def move_to_def request_key_def site_key_def fun_upd_twist)
  have "callees_return ?E s"
    by (simp add: callees_return_def s_def sys_new_def feed_env_def site_new_def load_xml_doc_def feed_xml_def sthrow_def)
  moreover have "\<not> sy_halted s" "sy_thread s 2 = AwaitsLock (''a'', ''k2'', False)"
    "sy_mutex s (request_key (''a'', ''k2'', False)) = Some 1" "\<forall>u rq'. sy_thread s u \<noteq> Hangs rq'"
    by (simp_all add: s_def sys_new_def request_key_def site_key_def)
  ultimately obtain n m s' x where "n \<le> 4" "m \<le> 5"
    "site_moves ?E (replicate n (Go 1) @ replicate m (Go 2)) s = Some s'" "sy_thread s' 2 = Gave x"
    using site_lock_progress [OF server_ok_new s, of 2 "(''a'', ''k2'', False)"] by auto
  moreover from this(3) have "site_moves ?E (?as @ replicate n (Go 1) @ replicate m (Go 2)) ?s = Some s'"
    using s by (simp only: site_moves_append [of _ ?as] bind.bind_lunit)
  ultimately show "\<exists>n m s'. n \<le> 4 \<and> m \<le> 5 \<and>
     site_moves ?E (?as @ replicate n (Go 1) @ replicate m (Go 2)) ?s = Some s' \<and> (\<exists>x. sy_thread s' 2 = Gave x)"
    by blast
qed

lemma feed_site:
  "\<exists>site. site_new text_ref feed_xml False (\<lambda>_. Inr ''k1,k2'') ''a'' False ''1'' = Inr site \<and>
     s_generation site = 1 \<and> s_secret_keys site = [''k1'', ''k2'']"
proof -
  let ?s = "site_new text_ref feed_xml False (\<lambda>_. Inr ''k1,k2'') ''a'' False ''1''"
  have "map_sum (\<lambda>_. ()) (\<lambda>s. (s_generation s, s_secret_keys s)) ?s = Inr (1, [''k1'', ''k2''])"
    by code_simp
  then show ?thesis by (cases ?s) auto
qed

text \<open>(C36) A reload can be lost: a thread has read the feed of a site, a newer feed is published and the bus
  reloads the site, twice as it does; then the thread enters the site it built from the older feed, which
  everybody is given from then on, although no reload is outstanding.\<close>

theorem reload_lost:
  "\<exists>as s r site. site_moves (feed_env E) as (sys_new (server_new lg mc my now) (\<lambda>_. Inr ''1'')) = Some s \<and>
     sy_feed s ''a-feed.xml'' = Inr ''2'' \<and> (\<exists>past. as = past @ [BusReload ''a'', BusReload ''a'', Go 0, Go 0]) \<and>
     sy_thread s 0 = Gave (Inr r) \<and> (\<forall>t. section_key (sy_thread s t) = None) \<and>
     map_of (sv_sites (sy_server s)) ''a'' = Some r \<and> map_of (sv_site_store (sy_server s)) r = Some site \<and>
     get_generation site = 1"
proof -
  obtain site where site: "site_new text_ref feed_xml False (\<lambda>_. Inr ''k1,k2'') ''a'' False ''1'' = Inr site"
    "s_generation site = 1" "s_secret_keys site = [''k1'', ''k2'']" using feed_site by blast
  let ?past = "[Call 0 (''a'', ''k1'', False), Go 0, Go 0, Go 0, Publish ''a-feed.xml'' (Inr ''2'')]"
  let ?s0 = "sys_new (server_new lg mc my now) (\<lambda>_. Inr ''1'')"
  define s1 where "s1 = ?s0\<lparr>sy_thread := (\<lambda>_. AtRest)(0 := HasFeed (''a'', ''k1'', False) ''1''),
    sy_mutex := (\<lambda>_. None)(''a'' \<mapsto> 0), sy_feed := (\<lambda>_. Inr ''1'')(''a-feed.xml'' := Inr ''2'')\<rparr>"
  have "site_moves (feed_env E) ?past ?s0 = Some s1"
    by (simp add: s1_def sys_new_def thread_step_def step_lock_def step_lookup_def step_fetch_def move_to_def
        request_key_def site_key_def lookup_site_def server_new_def feed_env_def)
  moreover have h1: "\<not> sy_halted s1" by (simp add: s1_def sys_new_def)
  moreover define s2 where "s2 = s1\<lparr>sy_server := reload_site ''a'' (reload_site ''a'' (sy_server s1))\<rparr>"
  have "site_moves (feed_env E) [BusReload ''a'', BusReload ''a''] s1 = Some s2" by (simp add: s2_def h1)
  moreover have h2: "\<not> sy_halted s2" by (simp add: s2_def h1)
  moreover have sv: "sv_sites (sy_server s2) = []" "sv_site_store (sy_server s2) = []"
    "sy_thread s2 = (\<lambda>_. AtRest)(0 := HasFeed (''a'', ''k1'', False) ''1'')"
    "sy_feed s2 ''a-feed.xml'' = Inr ''2''"
    by (simp_all add: s2_def s1_def reload_site_def sys_new_def server_new_def)
  define sv3 where "sv3 = (sy_server s2)\<lparr>sv_site_store := [(1, site)], sv_sites := [(''a'', 1)]\<rparr>"
  have "load_site (feed_env E) ''a'' False ''1'' (sy_server s2) = (Inr 1, sv3)"
    by (simp add: load_site_def feed_env_def site sv sv3_def fresh_ref_def site_key_def Let_def)
  then have "site_moves (feed_env E) [Go 0] s2 = Some (move_to 0 (HasSite (''a'', ''k1'', False) 1) (s2\<lparr>sy_server := sv3\<rparr>))"
    by (simp add: thread_step_def sv step_load_def h2)
  moreover have "site_moves (feed_env E) [Go 0] (move_to 0 (HasSite (''a'', ''k1'', False) 1) (s2\<lparr>sy_server := sv3\<rparr>)) =
      Some (give 0 (''a'', ''k1'', False) (Inr 1) (move_to 0 (HasSite (''a'', ''k1'', False) 1) (s2\<lparr>sy_server := sv3\<rparr>)))"
    by (simp add: thread_step_def step_check_def site_at_def sv3_def site validate_secret_key_def feed_env_def h2)
  ultimately have "site_moves (feed_env E) (?past @ [BusReload ''a'', BusReload ''a''] @ [Go 0] @ [Go 0]) ?s0 =
      Some (give 0 (''a'', ''k1'', False) (Inr 1) (move_to 0 (HasSite (''a'', ''k1'', False) 1) (s2\<lparr>sy_server := sv3\<rparr>)))"
    by (simp only: site_moves_append bind.bind_lunit)
  moreover have "map_of (sv_sites sv3) ''a'' = Some 1" "map_of (sv_site_store sv3) 1 = Some site"
    "get_generation site = 1"
    using site by (simp_all add: sv3_def get_generation_def)
  ultimately show ?thesis using sv
    by (intro exI [of _ "?past @ [BusReload ''a'', BusReload ''a''] @ [Go 0] @ [Go 0]"] exI [of _ 1] exI [of _ site] exI conjI)
      (assumption | simp)+
qed

end
