(* ===== verification/SessionThreads.thy ===== *)
theory SessionThreads
  imports Session
begin

text \<open>
  Requests on one session at the same time (\<^verbatim>\<open>src/session.cpp\<close>).  The vector of responses has no lock, and an
  access to it takes time: \<open>push_back\<close> that overlaps with any other access is a data race, after which
  nothing is known.  The operations of \<open>Session\<close> are modelled with the beginning and the end of each access.
\<close>

section \<open>The accesses to the vector\<close>

text \<open>
  A thread looks its parent up (as \<open>data\<close>, \<open>structure\<close> and \<open>createInfo\<close> look up their response), knows
  it, has made its response, is inside \<open>responses.size()\<close>, has put the number into its answer, is inside
  \<open>push_back\<close>, has returned.
\<close>

datatype get_pc =
    Looking int
  | Evaluating "response option"
  | Evaluated response
  | Sizing response
  | NumberRead response int
  | Storing response int
  | Answered response int

record get_sys =
  gs_session :: session
  gs_thread :: "nat \<Rightarrow> get_pc option"
  gs_raced :: bool

datatype access = Reads | Writes

fun access_of :: "get_pc option \<Rightarrow> access option" where
  "access_of (Some (Looking i)) = Some Reads"
| "access_of (Some (Sizing r)) = Some Reads"
| "access_of (Some (Storing r i)) = Some Writes"
| "access_of _ = None"

text \<open>Two accesses of different threads conflict when one of them writes.\<close>

definition conflict :: "get_sys \<Rightarrow> nat \<Rightarrow> access \<Rightarrow> bool" where
  "conflict s t a \<longleftrightarrow> (\<exists>u b. u \<noteq> t \<and> access_of (gs_thread s u) = Some b \<and> (a = Writes \<or> b = Writes))"

definition at_pc :: "nat \<Rightarrow> get_pc option \<Rightarrow> get_sys \<Rightarrow> get_sys" where
  "at_pc t pc s = s\<lparr>gs_thread := (gs_thread s)(t := pc)\<rparr>"

text \<open>The beginning of an access.\<close>

definition begin_access :: "nat \<Rightarrow> get_pc \<Rightarrow> access \<Rightarrow> get_sys \<Rightarrow> get_sys" where
  "begin_access t pc a s = (at_pc t (Some pc) s)\<lparr>gs_raced := gs_raced s \<or> conflict s t a\<rparr>"

definition read_number :: "session \<Rightarrow> int" where
  "read_number se = int (length (se_responses se)) + 1"

definition store_response :: "response \<Rightarrow> session \<Rightarrow> session" where
  "store_response r se = se\<lparr>se_responses := se_responses se @ [r]\<rparr>"

text \<open>The steps of \<open>get\<close>, in order; a request that only reads, or throws, ends with its lookup.  What the
  query yields is left open.  After a race anything can happen.\<close>

inductive get_step :: "get_sys \<Rightarrow> get_sys \<Rightarrow> bool" where
  look: "gs_thread s t = None \<Longrightarrow> get_step s (begin_access t (Looking i) Reads s)"
| found: "gs_thread s t = Some (Looking i) \<Longrightarrow> session_parent (gs_session s) i = Inr p \<Longrightarrow>
    get_step s (at_pc t (Some (Evaluating p)) s)"
| read_only: "gs_thread s t = Some (Looking i) \<Longrightarrow> get_step s (at_pc t None s)"
| evaluate: "gs_thread s t = Some (Evaluating p) \<Longrightarrow> get_step s (at_pc t (Some (Evaluated r)) s)"
| get_size: "gs_thread s t = Some (Evaluated r) \<Longrightarrow> get_step s (begin_access t (Sizing r) Reads s)"
| number: "gs_thread s t = Some (Sizing r) \<Longrightarrow>
    get_step s (at_pc t (Some (NumberRead r (read_number (gs_session s)))) s)"
| push: "gs_thread s t = Some (NumberRead r i) \<Longrightarrow> get_step s (begin_access t (Storing r i) Writes s)"
| pushed: "gs_thread s t = Some (Storing r i) \<Longrightarrow>
    get_step s ((at_pc t (Some (Answered r i)) s)\<lparr>gs_session := store_response r (gs_session s)\<rparr>)"
| next_request: "gs_thread s t = Some (Answered r i) \<Longrightarrow> get_step s (at_pc t None s)"
| undefined: "gs_raced s \<Longrightarrow> gs_raced s' \<Longrightarrow> get_step s s'"

inductive_cases get_stepE: "get_step s s'"

definition get_start :: "session \<Rightarrow> get_sys" where
  "get_start se = \<lparr>gs_session = se, gs_thread = (\<lambda>_. None), gs_raced = False\<rparr>"

abbreviation get_reachable :: "session \<Rightarrow> get_sys \<Rightarrow> bool" where
  "get_reachable se \<equiv> get_step\<^sup>*\<^sup>* (get_start se)"

lemma at_pc_simps [simp]:
  "gs_session (at_pc t pc s) = gs_session s" "gs_thread (at_pc t pc s) = (gs_thread s)(t := pc)"
  "gs_raced (at_pc t pc s) = gs_raced s"
  by (simp_all add: at_pc_def)

lemma begin_access_simps [simp]:
  "gs_session (begin_access t pc a s) = gs_session s"
  "gs_thread (begin_access t pc a s) = (gs_thread s)(t \<mapsto> pc)"
  "gs_raced (begin_access t pc a s) = (gs_raced s \<or> conflict s t a)"
  by (simp_all add: begin_access_def)

section \<open>What holds until two accesses collide\<close>

text \<open>The responses only grow, a number that has been read is not beyond the next one, and nobody else is
  at the vector while a response is stored.\<close>

definition numbers_ok :: "session \<Rightarrow> get_sys \<Rightarrow> bool" where
  "numbers_ok se s \<longleftrightarrow> (\<exists>rs. se_responses (gs_session s) = se_responses se @ rs) \<and>
     (\<forall>t r i. gs_thread s t = Some (NumberRead r i) \<or> gs_thread s t = Some (Storing r i) \<longrightarrow>
        1 \<le> i \<and> i \<le> int (length (se_responses (gs_session s))) + 1) \<and>
     (\<forall>t r i. gs_thread s t = Some (Answered r i) \<longrightarrow>
        1 \<le> i \<and> i \<le> int (length (se_responses (gs_session s))))"

text \<open>Race freedom means that a writer is alone at the vector.\<close>

definition exclusive :: "get_sys \<Rightarrow> bool" where
  "exclusive s \<longleftrightarrow> (\<forall>t u. t \<noteq> u \<longrightarrow> access_of (gs_thread s t) = Some Writes \<longrightarrow> access_of (gs_thread s u) = None)"

lemma raced_stays: "get_step s s' \<Longrightarrow> gs_raced s \<Longrightarrow> gs_raced s'"
  by (induction rule: get_step.induct) simp_all

lemma numbers_ok_step: "get_step s s' \<Longrightarrow> \<not> gs_raced s' \<Longrightarrow> numbers_ok se s \<Longrightarrow> numbers_ok se s'"
  by (induction rule: get_step.induct)
    (auto simp: numbers_ok_def read_number_def store_response_def split: if_splits; fastforce)+

lemma exclusive_free: "exclusive s \<Longrightarrow> access_of pc = None \<Longrightarrow> exclusive (at_pc t pc s)"
  by (auto simp: exclusive_def)

lemma exclusive_begin:
  "exclusive s \<Longrightarrow> access_of (Some pc) = Some a \<Longrightarrow> \<not> conflict s t a \<Longrightarrow> exclusive (begin_access t pc a s)"
  unfolding exclusive_def conflict_def by (auto split: if_splits)

lemma exclusive_step: "get_step s s' \<Longrightarrow> \<not> gs_raced s' \<Longrightarrow> exclusive s \<Longrightarrow> exclusive s'"
proof (induction rule: get_step.induct)
  case (pushed s t r i)
  then show ?case using exclusive_free [of s "Some (Answered r i)" t] by (simp add: exclusive_def)
qed (auto simp: exclusive_free exclusive_begin)

lemma reachable_ok: "get_reachable se s \<Longrightarrow> \<not> gs_raced s \<Longrightarrow> numbers_ok se s \<and> exclusive s"
proof (induction rule: rtranclp_induct)
  case base
  show ?case by (simp add: numbers_ok_def exclusive_def get_start_def)
next
  case (step s s')
  then show ?case using raced_stays numbers_ok_step exclusive_step by metis
qed

lemma response_in_range:
  assumes "1 \<le> i" and "i \<le> int (length (se_responses se))" and "length (se_responses se) < 2 ^ 31"
  shows "session_response se i = Inr (se_responses se ! nat (i - 1))"
proof -
  have "uint (word_of_int i :: 64 word) = i" "uint (word_of_int (i - 1) :: 64 word) = i - 1"
    using assms by (intro uint_word_of_int64; simp)+
  then have "unat (word_of_int (i - 1) :: 64 word) = nat (i - 1)" by (simp add: unat_eq_nat_uint)
  with assms show ?thesis
    by (simp add: session_response_def response_known_def response_at_def Let_def \<open>uint (word_of_int i :: 64 word) = i\<close>)
qed

section \<open>Schedules\<close>

text \<open>A thread that runs \<open>get\<close> without a parent up to its number, undisturbed; and the system with two threads.\<close>

lemma no_parent: "session_parent se 0 = Inr None"
  by (simp add: session_parent_def)

lemma begin_free: "\<not> conflict s t a \<Longrightarrow> begin_access t pc a s = at_pc t (Some pc) s"
  by (cases s) (simp add: begin_access_def at_pc_def)

lemma conflict_at_pc [simp]: "conflict (at_pc t pc s) t a = conflict s t a"
  by (auto simp: conflict_def)

lemma at_pc_again [simp]: "at_pc t p (at_pc t q s) = at_pc t p s"
  by (simp add: at_pc_def)

lemma numbered:
  assumes "gs_thread s t = None" and c: "\<not> conflict s t Reads"
  shows "get_step\<^sup>*\<^sup>* s (at_pc t (Some (NumberRead r (read_number (gs_session s)))) s)"
proof -
  let ?s = "\<lambda>pc. at_pc t (Some pc) s"
  note join = rtranclp.rtrancl_into_rtrancl [where r = get_step]
  have "get_step\<^sup>*\<^sup>* s (?s (Looking 0))"
    using get_step.look [OF assms(1), of 0] c by (simp add: begin_free r_into_rtranclp)
  from join [OF this get_step.found [of _ t 0 None]] have "get_step\<^sup>*\<^sup>* s (?s (Evaluating None))" by (simp add: no_parent)
  from join [OF this get_step.evaluate [of _ t None r]] have "get_step\<^sup>*\<^sup>* s (?s (Evaluated r))" by simp
  from join [OF this get_step.get_size [of _ t r]] c have "get_step\<^sup>*\<^sup>* s (?s (Sizing r))" by (simp add: begin_free)
  from join [OF this get_step.number [of _ t r]] show ?thesis by simp
qed

lemma pushes:
  assumes "gs_thread s t = Some (NumberRead r i)" and c: "\<not> conflict s t Writes"
  shows "get_step\<^sup>*\<^sup>* s (at_pc t (Some (Answered r i)) s\<lparr>gs_session := store_response r (gs_session s)\<rparr>)"
proof -
  have "get_step\<^sup>*\<^sup>* s (at_pc t (Some (Storing r i)) s)"
    using get_step.push [OF assms(1)] c by (simp add: begin_free r_into_rtranclp)
  from rtranclp.rtrancl_into_rtrancl [OF this get_step.pushed [of _ t r i]] show ?thesis by simp
qed

definition two_threads :: "get_pc option \<Rightarrow> get_pc option \<Rightarrow> session \<Rightarrow> get_sys" where
  "two_threads p q se = \<lparr>gs_session = se, gs_thread = (\<lambda>_. None)(0 := p, 1 := q), gs_raced = False\<rparr>"

lemma two_threads_simps [simp]:
  "gs_session (two_threads p q se) = se" "gs_thread (two_threads p q se) 0 = p"
  "gs_thread (two_threads p q se) (Suc 0) = q" "\<not> gs_raced (two_threads p q se)"
  "at_pc 0 p' (two_threads p q se) = two_threads p' q se" "at_pc (Suc 0) q' (two_threads p q se) = two_threads p q' se"
  "(two_threads p q se)\<lparr>gs_session := se'\<rparr> = two_threads p q se'"
  by (auto simp: two_threads_def at_pc_def)

lemma conflict_two [simp]:
  "conflict (two_threads p q se) 0 a \<longleftrightarrow> (\<exists>b. access_of q = Some b \<and> (a = Writes \<or> b = Writes))"
  "conflict (two_threads p q se) (Suc 0) a \<longleftrightarrow> (\<exists>b. access_of p = Some b \<and> (a = Writes \<or> b = Writes))"
  by (auto simp: conflict_def two_threads_def split: if_splits)

text \<open>Two requests that both read the size before either stores.\<close>

lemma both_numbered:
  "get_reachable se (two_threads (Some (NumberRead r0 (read_number se))) (Some (NumberRead r1 (read_number se))) se)"
proof -
  have "get_start se = two_threads None None se" by (auto simp: get_start_def two_threads_def)
  moreover from numbered [of "two_threads None None se" 0 r0]
  have "get_step\<^sup>*\<^sup>* (two_threads None None se) (two_threads (Some (NumberRead r0 (read_number se))) None se)" by simp
  moreover from numbered [of "two_threads (Some (NumberRead r0 (read_number se))) None se" 1 r1]
  have "get_step\<^sup>*\<^sup>* (two_threads (Some (NumberRead r0 (read_number se))) None se)
      (two_threads (Some (NumberRead r0 (read_number se))) (Some (NumberRead r1 (read_number se))) se)" by simp
  ultimately show ?thesis by (simp only: rtranclp_trans)
qed

lemma two_gets:
  "\<exists>s. get_reachable (session_new ref now) s \<and> \<not> gs_raced s \<and> gs_thread s 0 = Some (Answered r0 1) \<and>
     gs_thread s 1 = Some (Answered r1 1) \<and> se_responses (gs_session s) = [r0, r1] \<and>
     session_response (gs_session s) 1 = Inr r0"
proof -
  define se where "se = session_new ref now"
  have n: "read_number se = 1" by (simp add: se_def session_new_def read_number_def)
  let ?n0 = "Some (NumberRead r0 1)" and ?n1 = "Some (NumberRead r1 1)"
    and ?a0 = "Some (Answered r0 1)" and ?a1 = "Some (Answered r1 1)"
  let ?se1 = "store_response r0 se"
  let ?se2 = "store_response r1 ?se1"
  have "get_reachable se (two_threads ?n0 ?n1 se)" using both_numbered [of se r0 r1] by (simp add: n)
  moreover have "get_step\<^sup>*\<^sup>* (two_threads ?n0 ?n1 se) (two_threads ?a0 ?n1 ?se1)"
    using pushes [of "two_threads ?n0 ?n1 se" 0] by simp
  moreover have "get_step\<^sup>*\<^sup>* (two_threads ?a0 ?n1 ?se1) (two_threads ?a0 ?a1 ?se2)"
    using pushes [of "two_threads ?a0 ?n1 ?se1" 1] by simp
  ultimately have "get_reachable se (two_threads ?a0 ?a1 ?se2)" by (simp only: rtranclp_trans)
  moreover have r: "se_responses ?se2 = [r0, r1]" by (simp add: store_response_def se_def session_new_def)
  moreover have "session_response ?se2 1 = Inr r0" using response_in_range [of 1 ?se2] r by simp
  ultimately show ?thesis unfolding se_def [symmetric]
    by (intro exI [of _ "two_threads ?a0 ?a1 ?se2"]) simp
qed

text \<open>Two requests that store at the same time.\<close>

lemma two_pushes: "\<exists>s. get_reachable se s \<and> gs_raced s"
proof -
  obtain r :: response where True by simp
  let ?n = "Some (NumberRead r (read_number se))" and ?p = "Storing r (read_number se)"
  have "get_step (two_threads ?n ?n se) (two_threads (Some ?p) ?n se)"
    using get_step.push [of "two_threads ?n ?n se" 0] by (simp add: begin_free)
  moreover have "get_step (two_threads (Some ?p) ?n se) (begin_access 1 ?p Writes (two_threads (Some ?p) ?n se))"
    using get_step.push [of "two_threads (Some ?p) ?n se" 1] by simp
  ultimately have "get_reachable se (begin_access 1 ?p Writes (two_threads (Some ?p) ?n se))"
    using both_numbered [of se r r] by (simp only: rtranclp.rtrancl_into_rtrancl)
  moreover have "gs_raced (begin_access 1 ?p Writes (two_threads (Some ?p) ?n se))"
    unfolding begin_access_simps One_nat_def conflict_two by simp
  ultimately show ?thesis by blast
qed



text \<open>Even without a collision two requests on one session can be answered with the same number: both read
  the size before either stores.  The number then names the response of the request that stored first, and
  the other client's next query runs below a response it never saw.\<close>

theorem response_number_race:
  "\<exists>s. get_reachable (session_new ref now) s \<and> \<not> gs_raced s \<and> gs_thread s 0 = Some (Answered r0 1) \<and>
     gs_thread s 1 = Some (Answered r1 1) \<and> se_responses (gs_session s) = [r0, r1] \<and>
     session_response (gs_session s) 1 = Inr r0"
  by (rule two_gets)

end
