(* ===== verification/Faults.thy ===== *)
theory Faults
  imports Access JsonRoundTrip
begin

text \<open>
  Requests that a front end can send and the server does not withstand, or answers with something that is
  no JSON.
\<close>

section \<open>A request without a response id\<close>

lemma response_zero: "length (se_responses se) < 2 ^ 64 - 1 \<Longrightarrow> session_response se 0 = Inl (UB OutOfBounds)"
proof -
  assume l: "length (se_responses se) < 2 ^ 64 - 1"
  have "unat (word_of_int (0 - 1) :: 64 word) = 2 ^ 64 - 1" by (simp add: unsigned_minus_1_eq_mask mask_eq_exp_minus_1)
  with l show ?thesis by (simp add: session_response_def response_known_def response_at_def Let_def)
qed

lemma iparam_missing:
  "map_of kvs name = None \<Longrightarrow> fst (iparam name (JObject kvs)) = Inr 0"
  by (simp add: iparam_fst param_at_def int_param_def)

text \<open>A \<open>data\<close> or \<open>structure\<close> request without a \<open>responseId\<close> reads before the first response of the
  session: the missing number is read as 0, which the test against the number of responses lets through,
  and \<open>responses[responseId-1]\<close> is undefined.\<close>

theorem missing_response_id_undefined:
  assumes "server_ok E sv" and "map_of (sv_sessions sv) sid = Some se"
    and "length (se_responses se) < 2 ^ 64 - 1" and "ep = Data \<or> ep = Structure"
    and "request_params N body = Inr (JObject kvs)" and "map_of kvs ''sessionId'' = Some v"
    and "get_int32 v = Inr sid" and "map_of kvs ''responseId'' = None"
  shows "fst (handle N E ep body t0 t1 sv) = Inl (UB OutOfBounds)"
proof -
  obtain entry lg where e: "entry_new (sv_query_log sv) = (entry, lg)" by (metis surj_pair)
  let ?sv = "sv\<lparr>sv_query_log := lg\<rparr>"
  obtain s where s: "map_of (sv_site_store sv) (se_site se) = Some s"
    using server_okD(4) [OF assms(1,2)] by blast
  have "\<not> is_null v" using assms(7) by (cases v) simp_all
  then have f: "find_session (JObject kvs) ?sv = Inr (FoundSession sid (get_subdomain s))"
    using assms(2,6,7) s by (simp add: find_session_def json_index_def)
  have "fst (handler E ep sid (JObject kvs) ?sv) = Inl (UB OutOfBounds)"
    using assms(2,4) s iparam_missing [OF assms(8)] response_zero [OF assms(3)]
    by (auto simp: h_data_def h_structure_def with_params_def session_at_def sbind_sread on_site_def
        session_data_def session_structure_def)
  then have "fst (run_handler (json_dump N) E ep sid (JObject kvs) ?sv) = Inl (UB OutOfBounds)"
    by (cases "handler E ep sid (JObject kvs) ?sv") (simp add: run_handler_def)
  with f e assms(4,5) show ?thesis
    by (auto simp: handle_def process_def request_params_def serve_def requires_session_def catch_all_def
        split: prod.split)
qed

theorem missing_response_id_undefined_witness:
  "\<forall>N (E :: ('c, 'm, 'd, 'n) env) lg mc my.
     fst (handle N (demo_env E) Data demo_body 0 1 (demo_server lg mc my)) = Inl (UB OutOfBounds)"
proof (intro allI)
  fix N and E :: "('c, 'm, 'd, 'n) env" and lg mc my
  have "map_of (sv_sessions (demo_server lg mc my :: ('c, 'm, 'd, 'n) server)) 1 = Some (session_new 0 90)"
    by (simp add: demo_server_def)
  from missing_response_id_undefined [OF demo_server_ok this _ _ demo_body_params, of Data]
  show "fst (handle N (demo_env E) Data demo_body 0 1 (demo_server lg mc my)) = Inl (UB OutOfBounds)"
    by (simp add: session_new_def to_int32_def)
qed

section \<open>Replies that are not JSON\<close>

text \<open>The bodies of the fixed error replies are no JSON, although every reply is sent as
  \<^verbatim>\<open>application/json\<close>: their key has no quotes and their value has single quotes.\<close>

theorem error_body_not_json:
  "\<exists>what. json_parse N (error_body msg) = Inl (StdError what)"
proof -
  let ?rest = "''rror:'' @ squote @ msg @ squote @ ''}''"
  have a: "input_adapter (error_body msg) = error_body msg"
    by (rule input_adapter_ascii [of _ "CHR ''{''" "CHR ''e'' # ?rest"]) (simp_all add: error_body_def)
  define p where "p = read_token N (parser_new (error_body msg))"
  have "lx_rest (pr_lexer (parser_new (error_body msg))) = CHR ''{'' # CHR ''e'' # ?rest"
    by (simp add: parser_new_def lexer_new_def a) (simp add: error_body_def)
  from readsD [OF reads_punctuation(3) [OF this, of N]]
  have p: "pr_last p = BeginObject" "lx_rest (pr_lexer p) = CHR ''e'' # ?rest" by (simp_all add: p_def)
  have "scan N (pr_lexer p) = lx_fail ''invalid literal'' (lx_get (pr_lexer p))"
    using scan_first [OF p(2)] by (simp add: is_ws_def is_digit_def)
  then have q: "pr_last (read_token N p) = ParseError" by (simp add: read_token_def lx_fail_def)
  obtain n where n: "parse_fuel (error_body msg) = Suc (Suc n)"
    by (simp add: parse_fuel_def numeral_eq_Suc)
  have "isl (json_parse N (error_body msg))"
    using p(1) q by (simp add: json_parse_def parse_strict_def sbind_parser_simps p_def [symmetric] n)
  then show ?thesis using json_parse_outcome [of N "error_body msg"]
    by (cases "json_parse N (error_body msg)") (auto simp: std_outcome_def)
qed

end
