(* ===== verification/Answers.thy ===== *)
theory Answers
  imports Requests JsonText
begin

text \<open>
  The types of the answers: for each endpoint a schema, which every answer of its handler has, and what a
  front end therefore reads in the body of a reply.
\<close>

section \<open>Programs that only return values with a property\<close>

definition yields :: "('a \<Rightarrow> bool) \<Rightarrow> ('s, 'a) sm \<Rightarrow> bool" where
  "yields Q m \<longleftrightarrow> (\<forall>s x s'. m s = (Inr x, s') \<longrightarrow> Q x)"

named_theorems yields_intro \<open>programs that only return values with a property\<close>

lemma yieldsD: "yields Q m \<Longrightarrow> m s = (Inr x, s') \<Longrightarrow> Q x"
  unfolding yields_def by blast

lemma yields_sret: "Q x \<Longrightarrow> yields Q (sret x)"
  by (simp add: yields_def sret_def)

lemma yields_sthrow [yields_intro]: "yields Q (sthrow e)"
  by (simp add: yields_def sthrow_def)

lemma yields_sread: "(\<And>s x. f s = Inr x \<Longrightarrow> Q x) \<Longrightarrow> yields Q (sread f)"
  by (simp add: yields_def)

lemma yields_sbind [yields_intro]: "(\<And>x. yields Q (f x)) \<Longrightarrow> yields Q (sbind m f)"
  unfolding yields_def sbind_eq_Inr_iff by blast

text \<open>The rule that uses what the first program returns.\<close>

lemma yields_sbind_from: "yields R m \<Longrightarrow> (\<And>x. R x \<Longrightarrow> yields Q (f x)) \<Longrightarrow> yields Q (sbind m f)"
  unfolding yields_def sbind_eq_Inr_iff by blast

lemma yields_if [yields_intro]: "yields Q m \<Longrightarrow> yields Q m' \<Longrightarrow> yields Q (if b then m else m')"
  by simp

lemma yields_case_prod [yields_intro]:
  "(\<And>x y. yields Q (f x y)) \<Longrightarrow> yields Q (case p of (x, y) \<Rightarrow> f x y)"
  by (cases p) auto

lemma yields_smap:
  assumes "\<And>x. yields Q (f x)" shows "yields (list_all Q) (smap f xs)"
proof (induction xs)
  case Nil
  show ?case by (simp add: yields_sret)
next
  case (Cons x xs)
  have "yields (list_all Q) (sbind (smap f xs) (\<lambda>ys. sret (y # ys)))" if "Q y" for y
    by (rule yields_sbind_from [OF Cons], rule yields_sret) (simp add: that)
  then show ?case unfolding smap.simps by (rule yields_sbind_from [OF assms])
qed

lemma yields_on_site [yields_intro]: "yields Q m \<Longrightarrow> yields Q (on_site r m)"
  by (auto simp: yields_def on_site_def split: option.splits prod.splits)

lemma yields_on_mysql [yields_intro]:
  assumes "yields Q m" shows "yields Q (on_mysql m)"
  unfolding yields_def on_mysql_def
proof (intro allI impI)
  fix s x s' assume "(case m (sv_mysql s) of (res, y) \<Rightarrow> (res, s\<lparr>sv_mysql := y\<rparr>)) = (Inr x, s')"
  then show "Q x" by (cases "m (sv_mysql s)") (auto dest: yieldsD [OF assms])
qed

lemma yields_with_connection [yields_intro]:
  assumes "\<And>c. yields Q (f c)" shows "yields Q (with_connection msg f)"
  unfolding yields_def
proof (intro allI impI)
  fix ps x s' assume "with_connection msg f ps = (Inr x, s')"
  then obtain c t t' where "f c t = (Inr x, t')"
    by (auto simp: with_connection_def split: prod.splits acquired.splits)
  then show "Q x" by (rule yieldsD [OF assms])
qed

lemma yields_with_params [yields_intro]:
  "(\<And>p. yields Q (act p)) \<Longrightarrow> yields Q (with_params reads params act)"
  by (cases "fst (reads params)") (simp_all add: with_params_def yields_sthrow)

section \<open>Schemas\<close>

fun is_text :: "json \<Rightarrow> bool" where
  "is_text (JString s) = True"
| "is_text _ = False"

fun is_integer :: "json \<Rightarrow> bool" where
  "is_integer (JInt i) = True"
| "is_integer (JUnsigned i) = True"
| "is_integer _ = False"

fun array_of :: "(json \<Rightarrow> bool) \<Rightarrow> json \<Rightarrow> bool" where
  "array_of Q (JArray js) = list_all Q js"
| "array_of Q _ = False"

text \<open>An object with the given fields, in the order of their names, and no others.\<close>

fun has_fields :: "(string \<times> (json \<Rightarrow> bool)) list \<Rightarrow> json \<Rightarrow> bool" where
  "has_fields fs (JObject kvs) = list_all2 (\<lambda>(k, Q) (k', v). k = k' \<and> Q v) fs kvs"
| "has_fields fs _ = False"

fun text_map :: "json \<Rightarrow> bool" where
  "text_map (JObject kvs) = list_all (\<lambda>(k, v). is_text v) kvs"
| "text_map _ = False"

text \<open>A context of the answer to \<open>get\<close>: it has an id, or the text of a node without one.\<close>

fun context_answer :: "json \<Rightarrow> bool" where
  "context_answer (JObject kvs) =
     (list_all (\<lambda>(k, v). if k = ''id'' \<or> k = ''structure_id'' then is_integer v
        else (k = ''data'' \<or> k = ''permalink'' \<or> k = ''type'') \<and> is_text v) kvs \<and>
      (map_of kvs ''id'' = None) = (map_of kvs ''data'' \<noteq> None))"
| "context_answer _ = False"

definition key_value :: "json \<Rightarrow> bool" where
  "key_value = has_fields [(''key'', is_text), (''value'', is_text)]"

definition key_only :: "json \<Rightarrow> bool" where
  "key_only = has_fields [(''key'', is_text)]"

definition query_answer :: "json \<Rightarrow> bool" where
  "query_answer = has_fields [(''contexts'', array_of (has_fields
     [(''contexts'', array_of context_answer), (''totalItems'', is_integer)])), (''id'', is_integer)]"

fun answer_ok :: "endpoint \<Rightarrow> json \<Rightarrow> bool" where
  "answer_ok Ping = has_fields [(''ping'', is_text)]"
| "answer_ok OpenSession = has_fields [(''generation'', is_integer), (''sessionId'', is_integer)]"
| "answer_ok CloseSession = has_fields [(''session'', is_integer)]"
| "answer_ok CreateInfo = array_of (has_fields [(''row_id'', is_integer), (''structure_id'', is_integer)])"
| "answer_ok Data = array_of text_map"
| "answer_ok Get = query_answer"
| "answer_ok Structure = array_of (has_fields [(''id'', is_integer), (''name'', is_text), (''permalink'', is_text),
     (''type'', is_text)])"
| "answer_ok LongTermCacheGet = key_value"
| "answer_ok LongTermCacheSet = key_value"
| "answer_ok LongTermCacheDelete = key_only"
| "answer_ok LongTermCacheEmpty = has_fields [(''empty'', \<lambda>j. j = JBool True)]"
| "answer_ok LongTermCacheSweeperInfo = text_map"
| "answer_ok SessionCacheGet = key_value"
| "answer_ok SessionCacheSet = key_value"
| "answer_ok SessionCacheDelete = key_only"
| "answer_ok ShortTermCacheGet = key_value"
| "answer_ok ShortTermCacheSet = key_value"
| "answer_ok ShortTermCacheDelete = key_only"
| "answer_ok SitewideLock = has_fields [(''status'', is_integer)]"
| "answer_ok SitewideUnlock = has_fields [(''status'', is_integer)]"

section \<open>The answers of the handlers\<close>

lemma key_answers:
  "key_only (init_json [jpair ''key'' (JString k)])"
  "key_value (init_json [jpair ''key'' (JString k), jpair ''value'' (JString v)])"
  by (simp_all add: key_only_def key_value_def init_json_def obj_emplace_def)

lemma text_map_json_of_map: "text_map (json_of_map kvs)"
  by (auto simp: json_of_map_def list_all_iff)

lemma context_fields:
  assumes "json_fields
     ((case st of Some st' \<Rightarrow> [(''structure_id'', JInt (st_id st')), (''type'', JString ty)] | None \<Rightarrow> [])
      @ (case p of Some p' \<Rightarrow> [(''permalink'', JString p')] | None \<Rightarrow> []) @ [lst]) JNull = Inr j"
    and "(\<exists>d. lst = (''data'', JString d)) \<or> (\<exists>i. lst = (''id'', JInt i))"
  shows "context_answer j"
  using assms by (cases st; cases p)
    (auto simp: json_fields_def json_set_def json_index_def)

lemma yields_context_to_json: "yields context_answer (context_to_json r)"
  unfolding context_to_json_def
proof (rule yields_sbind)
  fix c
  let ?last = "if cx_id c = 0 then sbind (context_single_data r) (\<lambda>d. sret (''data'', JString d))
    else sret (''id'', JInt (cx_id c))"
  have "yields (\<lambda>l. (\<exists>d. l = (''data'', JString d)) \<or> (\<exists>i. l = (''id'', JInt i))) ?last"
    by (intro yields_intro yields_sret) auto
  then show "yields context_answer (sbind ?last (\<lambda>lst. sread (\<lambda>_. json_fields
      ((case cx_structure c of
          Some st \<Rightarrow> [(''structure_id'', JInt (st_id st)), (''type'', JString (cx_type c))]
        | None \<Rightarrow> [])
       @ (case cx_permalink c of Some p \<Rightarrow> [(''permalink'', JString p)] | None \<Rightarrow> [])
       @ [lst]) JNull)))"
    by (rule yields_sbind_from) (blast intro: yields_sread context_fields)
qed

lemma yields_contexts_to_json: "yields (array_of context_answer) (contexts_to_json cs)"
  unfolding contexts_to_json_def
  by (rule yields_sbind_from [OF yields_smap [OF yields_context_to_json]], rule yields_sret) simp

lemma yields_response_json:
  "yields (has_fields [(''contexts'', array_of (has_fields
     [(''contexts'', array_of context_answer), (''totalItems'', is_integer)]))]) (response_get_json r)"
proof -
  have "yields (has_fields [(''contexts'', array_of context_answer), (''totalItems'', is_integer)])
      (response_context_to_json rc)" for rc
    unfolding response_context_to_json_def
    by (rule yields_sbind_from [OF yields_contexts_to_json], rule yields_sret)
      (simp add: init_json_def obj_emplace_def)
  then show ?thesis
    unfolding response_get_json_def
    by (intro yields_sbind_from [OF yields_smap] yields_sret) simp_all
qed

lemma yields_session_get: "yields (\<lambda>x. query_answer (fst x)) (session_get T X S se i q opts)"
  unfolding session_get_def
proof (rule yields_sbind, rule yields_sbind, rule yields_sbind_from [OF yields_response_json])
  fix response :: response and res
  assume res: "has_fields [(''contexts'', array_of (has_fields
     [(''contexts'', array_of context_answer), (''totalItems'', is_integer)]))] res"
  then obtain v where r: "res = JObject [(''contexts'', v)]"
    by (cases res) (auto simp: list_all2_Cons1)
  have "yields query_answer (sread (\<lambda>s. json_set ''id'' (JUnsigned (int (length (se_responses se)) + 1)) res))"
    using res by (intro yields_sread) (auto simp: r json_set_def json_index_def query_answer_def)
  then show "yields (\<lambda>x. query_answer (fst x))
      (sbind (sread (\<lambda>_. json_set ''id'' (JUnsigned (int (length (se_responses se)) + 1)) res)) (\<lambda>res'.
         sret (res', se\<lparr>se_responses := se_responses se @ [response]\<rparr>)))"
    by (rule yields_sbind_from) (simp add: yields_sret)
qed

lemma yields_create_info:
  "yields (array_of (has_fields [(''row_id'', is_integer), (''structure_id'', is_integer)]))
     (session_create_info T X se i q)"
proof -
  have e: "emap create_info_to_json cis = Inr js \<Longrightarrow>
      list_all (has_fields [(''row_id'', is_integer), (''structure_id'', is_integer)]) js" for cis js
    by (induction cis arbitrary: js)
      (auto simp: ebind_eq_Inr_iff create_info_to_json_def init_json_def obj_emplace_def split: option.splits)
  show ?thesis
    unfolding session_create_info_def response_get_create_info_def
    by (intro yields_sbind yields_sread) (auto simp: ebind_eq_Inr_iff e)
qed

lemma yields_response_data: "yields (array_of text_map) (response_get_data r)"
  unfolding response_get_data_def
  by (intro yields_sbind_from [OF yields_smap] yields_sret yields_sbind)
    (simp_all add: text_map_json_of_map)

lemma yields_response_structure:
  "yields (array_of (has_fields [(''id'', is_integer), (''name'', is_text), (''permalink'', is_text),
     (''type'', is_text)])) (response_get_structure r)"
proof -
  have "has_fields [(''id'', is_integer), (''name'', is_text), (''permalink'', is_text), (''type'', is_text)]
      (structure_to_json st)" for st
    by (simp add: structure_to_json_def init_json_def obj_emplace_def)
  then show ?thesis
    unfolding response_get_structure_def
    by (intro yields_sbind_from [OF yields_smap] yields_sret yields_sbind) simp_all
qed

lemma yields_sweeper_info: "yields text_map (mysql_sweeper_info lib db su)"
  unfolding mysql_sweeper_info_def
  by (intro yields_intro yields_sret text_map_json_of_map)

lemma yields_h_get: "yields query_answer (h_get E sid params)"
proof -
  have "yields query_answer (sbind (on_site r (session_get T X S se i q opts)) (\<lambda>(res, se').
      sbind (smodify (\<lambda>sv. sv\<lparr>sv_sessions := put sid se' (sv_sessions sv)\<rparr>)) (\<lambda>_. sret res)))"
    for r T X S se i q opts
    by (rule yields_sbind_from [OF yields_on_site [OF yields_session_get]]) (auto intro!: yields_sbind yields_sret)
  note run = this
  show ?thesis
    unfolding h_get_def
    by (rule yields_with_params, (rule yields_case_prod)+, rule yields_sbind, rule run)
qed

lemma yields_h_long_term_get: "yields key_value (h_long_term_get E sid params)"
  unfolding h_long_term_get_def
  by (intro yields_intro yields_sret key_answers)

lemma yields_handler: "yields (answer_ok ep) (handler E ep sid params)"
proof (cases ep)
  case OpenSession
  then show ?thesis
    by (auto simp: h_open_session_def init_json_def obj_emplace_def intro!: yields_intro yields_sret)
next
  case CreateInfo
  then show ?thesis by (auto simp: h_create_info_def intro!: yields_intro yields_create_info)
next
  case Data
  then show ?thesis
    by (auto simp: h_data_def session_data_def intro!: yields_intro yields_response_data)
next
  case Structure
  then show ?thesis
    by (auto simp: h_structure_def session_structure_def intro!: yields_intro yields_response_structure)
next
  case LongTermCacheGet
  then show ?thesis by (simp add: yields_h_long_term_get)
next
  case Get
  then show ?thesis by (simp add: yields_h_get)
next
  case LongTermCacheSweeperInfo
  then show ?thesis by (auto simp: h_sweeper_info_def intro!: yields_intro yields_sweeper_info)
qed (auto simp: h_ping_def h_close_session_def h_long_term_set_def
    h_long_term_delete_def h_long_term_empty_def h_session_cache_get_def h_session_cache_set_def
    h_session_cache_delete_def h_short_term_get_def h_short_term_set_def h_short_term_delete_def
    h_sitewide_lock_def h_sitewide_unlock_def init_json_def obj_emplace_def key_value_def key_only_def
    intro!: yields_intro yields_sret)

lemma answer_not_null: "answer_ok ep j \<Longrightarrow> \<not> is_null j"
  by (cases ep; cases j) (simp_all add: query_answer_def key_value_def key_only_def)

text \<open>The bodies a status promises.\<close>

definition reply_ok :: "num_lib \<Rightarrow> endpoint \<Rightarrow> http_response \<Rightarrow> bool" where
  "reply_ok N ep resp \<longleftrightarrow>
     (if http_status resp = 200 then \<exists>j. answer_ok ep j \<and> strings_ok j \<and> http_body resp = text_of N j
      else http_status resp = 400 \<or> http_status resp = 500)"

lemma json_dump_Inr: "json_dump N j = Inr b \<Longrightarrow> strings_ok j \<and> b = text_of N j"
  using json_dump_text [of j N] json_dump_bad [of j N] by (cases "strings_ok j") auto

lemma run_handler_reply:
  assumes "run_handler (json_dump N) E ep sid params sv = (Inr resp, sv')"
  shows "reply_ok N ep resp"
proof -
  from assms obtain j t where h: "handler E ep sid params sv = (Inr j, t)"
    unfolding run_handler_def sbind_eq_Inr_iff by blast
  note j = yieldsD [OF yields_handler h]
  with assms h answer_not_null [OF j] obtain b where "json_dump N j = Inr b" "resp = \<lparr>http_status = 200, http_body = b\<rparr>"
    by (auto simp: run_handler_def sbind_sread sret_def split: sum.splits)
  with j json_dump_Inr show ?thesis unfolding reply_ok_def by fastforce
qed

lemma error_response_reply: "error_response dmp e = Inr resp \<Longrightarrow> reply_ok N ep resp"
  by (cases e) (auto simp: ebind_eq_Inr_iff reply_ok_def)

lemma catch_all_reply:
  "(\<And>resp. r = Inr resp \<Longrightarrow> reply_ok N ep resp) \<Longrightarrow> catch_all dmp r = Inr resp \<Longrightarrow> reply_ok N ep resp"
  by (cases r) (auto simp: catch_all_def intro: error_response_reply)

lemma serve_reply:
  assumes "serve (json_dump N) E ep params entry sv = ((Inr resp, x), t)"
  shows "reply_ok N ep resp"
  using assms
  by (auto simp: serve_def reply_ok_def [of N ep "\<lparr>http_status = 400, http_body = b\<rparr>" for b]
      split: if_splits sum.splits session_lookup.splits prod.splits intro: run_handler_reply)

text \<open>(C6) Every reply is typed: its status is 200, 400 or 500, and with 200 the body is the JSON text of an
  answer with the schema of the endpoint, all of whose strings are UTF-8.\<close>

theorem reply_typed:
  assumes "handle N E ep body t0 t1 sv = (Inr resp, sv')"
  shows "reply_ok N ep resp"
proof (cases "if 0 < length body then json_parse N body else Inr (init_json [])")
  case (Inl e)
  with assms show ?thesis by (auto simp: handle_def process_def intro: error_response_reply)
next
  case (Inr params)
  obtain entry lg where e: "entry_new (sv_query_log sv) = (entry, lg)" by (metis surj_pair)
  obtain r x t where s: "serve (json_dump N) E ep params (method_call lg t0 (endpoint_name ep) entry)
      (sv\<lparr>sv_query_log := lg\<rparr>) = ((r, x), t)" by (metis surj_pair)
  from assms Inr e s have "catch_all (json_dump N) r = Inr resp"
    by (simp add: handle_def process_def)
  then show ?thesis
    by (rule catch_all_reply [rotated]) (use serve_reply s in blast)
qed

theorem reply_typed_witness:
  "\<forall>N E sv t0 t1. \<exists>resp sv'. handle N E Ping [] t0 t1 sv = (Inr resp, sv') \<and>
     http_status resp = 200 \<and> (\<exists>j. answer_ok Ping j \<and> http_body resp = text_of N j)"
proof (intro allI)
  fix N E sv t0 t1
  obtain r sv' where h: "handle N E Ping [] t0 t1 sv = (r, sv')" by (metis surj_pair)
  have u: "utf8_valid ''pong''" "utf8_valid ''ping''" by code_simp+
  have "map_sum (\<lambda>_. ()) http_status r = Inr 200"
    using h json_dump_text [of "JObject [(''ping'', JString ''pong'')]" N] u
    by (auto simp: handle_def process_def serve_def requires_session_def run_handler_def h_ping_def
        catch_all_def sbind_sread sret_def init_json_def obj_emplace_def split: prod.splits)
  then obtain resp where r: "r = Inr resp" "http_status resp = 200" by (cases r) auto
  from reply_typed [OF h [unfolded r(1)]] r h show "\<exists>resp sv'. handle N E Ping [] t0 t1 sv = (Inr resp, sv') \<and>
     http_status resp = 200 \<and> (\<exists>j. answer_ok Ping j \<and> http_body resp = text_of N j)"
    unfolding reply_ok_def by auto
qed

end
