(* ===== verification/Paging.thy ===== *)
theory Paging
  imports CacheFree
begin

text \<open>
  Pagination of whole responses (\<open>Response::query\<close>, \<^verbatim>\<open>src/response.cpp\<close>): the pages of a query are put side
  by side, whether they are cut while the results are selected or after they have been sorted.
\<close>

section \<open>Matching without a window\<close>

text \<open>The selecting loop separated into the matching of the results, which does not depend on the window,
  and the counting, which only sees the contexts of the matches.\<close>

fun match_run :: "text_lib \<Rightarrow> xml_lib \<Rightarrow> options \<Rightarrow> query \<Rightarrow> nat \<Rightarrow> nat \<Rightarrow> string list \<Rightarrow> (site, ctxref list \<times> string list) sm" where
  "match_run T X p q i 0 found = sret ([], found)"
| "match_run T X p q i (Suc n) found =
     sbind (sread (\<lambda>_. get_node q i)) (\<lambda>node.
     sbind (node_matches T X p node found) (\<lambda>(m, found').
     sbind (if m then sread (\<lambda>s. ebind (private_of s node) (\<lambda>c. Inr (case c of None \<Rightarrow> [] | Some r \<Rightarrow> [r])))
            else sret []) (\<lambda>cs.
     sbind (match_run T X p q (Suc i) n found') (\<lambda>(rest, f). sret (cs @ rest, f)))))"

definition count_in :: "int \<Rightarrow> int \<Rightarrow> ctxref \<Rightarrow> selection \<Rightarrow> selection" where
  "count_in start stop r sel =
     (let sel1 = sel\<lparr>sel_total := sel_total sel + 1\<rparr> in
      if sel_skipped sel < start then sel1\<lparr>sel_skipped := sel_skipped sel + 1\<rparr>
      else if sel_included sel + sel_skipped sel < stop
      then sel1\<lparr>sel_contexts := sel_contexts sel @ [r], sel_included := sel_included sel + 1\<rparr>
      else sel1)"

lemma fold_count_found: "fold (count_in a b) ms (sel\<lparr>sel_found := f\<rparr>) = (fold (count_in a b) ms sel)\<lparr>sel_found := f\<rparr>"
proof (induction ms arbitrary: sel)
  case (Cons r ms)
  have "count_in a b r (sel\<lparr>sel_found := f\<rparr>) = (count_in a b r sel)\<lparr>sel_found := f\<rparr>"
    by (simp add: count_in_def Let_def)
  then show ?case by (simp add: Cons.IH)
qed simp

text \<open>What the counters select: the matches of the window.\<close>

lemma fold_count:
  fixes b :: int
  assumes "0 \<le> a"
  defines "out \<equiv> \<lambda>ms. fold (count_in a b) ms
    \<lparr>sel_total = 0, sel_skipped = 0, sel_included = 0, sel_contexts = [], sel_found = []\<rparr>"
  shows "sel_total (out ms) = int (length ms) \<and> sel_skipped (out ms) = min a (int (length ms)) \<and>
    sel_included (out ms) = int (length (sel_contexts (out ms))) \<and>
    sel_contexts (out ms) = take (nat (b - a)) (drop (nat a) ms)"
proof (induction ms rule: rev_induct)
  case Nil
  then show ?case using assms(1) by (simp add: out_def)
next
  case (snoc r ms)
  have o: "out (ms @ [r]) = count_in a b r (out ms)" by (simp add: out_def)
  show ?case
  proof (cases "int (length ms) < a")
    case True
    then have "length ms < nat a" by simp
    then show ?thesis using snoc.IH True unfolding o by (simp add: count_in_def Let_def)
  next
    case False
    then have l: "nat a \<le> length ms" by simp
    show ?thesis
    proof (cases "int (length ms) < b")
      case True
      then have "length ms - nat a < nat (b - a)" using l assms(1) by simp
      then show ?thesis using snoc.IH l True assms(1) unfolding o by (simp add: count_in_def Let_def min_def)
    next
      case f: False
      then have "nat (b - a) \<le> length ms - nat a" using l assms(1) by simp
      then show ?thesis using snoc.IH l f False assms(1) unfolding o
        by (auto simp: count_in_def Let_def min_def)
    qed
  qed
qed

text \<open>Matching leaves the document alone.\<close>

lemma keeps_doc_get_data [keeps_intro]: "keeps (\<lambda>s. s_doc s = d) (get_data T X r q)"
proof (rule keepsI)
  show "s_doc (snd (get_data T X r q s)) = d" if "s_doc s = d" for s
    using bareD(4) [OF bare_get_data [of T X r q s]] that by simp
qed

lemma keeps_doc_unique_value [keeps_intro]: "keeps (\<lambda>s. s_doc s = d) (unique_value T X r fs v)"
  by (induction fs arbitrary: v) (auto intro: keeps_intro)

lemma keeps_doc_node_matches [keeps_intro]: "keeps (\<lambda>s. s_doc s = d) (node_matches T X p a found)"
  unfolding node_matches_def unique_match_def by (cases "o_unique_fields p") (auto intro!: keeps_intro)

definition results_have_contexts :: "query \<Rightarrow> nat \<Rightarrow> nat \<Rightarrow> site \<Rightarrow> bool" where
  "results_have_contexts q i n s \<longleftrightarrow>
     (\<forall>j a. i \<le> j \<longrightarrow> j < i + n \<longrightarrow> get_node q j = Inr a \<longrightarrow> (\<exists>r. private_of s a = Inr (Some r)))"

lemma private_of_doc: "s_doc s' = s_doc s \<Longrightarrow> private_of s' = private_of s"
  by (simp add: private_of_def fun_eq_iff)

lemma sbind_sread_Inr: "g s = Inr x \<Longrightarrow> sbind (sbind (sread g) f) h s = sbind (f x) h s"
  by (simp add: sbind_def)

lemma select_match:
  assumes "results_have_contexts q i n s"
  shows "select_loop T X p a b q i n sel s =
    sbind (match_run T X p q i n (sel_found sel)) (\<lambda>(ms, f). sret ((fold (count_in a b) ms sel)\<lparr>sel_found := f\<rparr>)) s"
  using assms
proof (induction n arbitrary: i sel s)
  case 0
  show ?case by simp
next
  case (Suc n)
  show ?case
  proof (cases "get_node q i")
    case (Inl e)
    then show ?thesis by (simp add: sbind_sread)
  next
    case g: (Inr node)
    obtain x s' where m: "node_matches T X p node (sel_found sel) s = (x, s')" by (metis surj_pair)
    have d: "private_of s' = private_of s"
      using keepsD [OF keeps_doc_node_matches [of "s_doc s" T X p node "sel_found sel"], of s] m
      by (intro private_of_doc) simp
    obtain r where r: "private_of s' node = Inr (Some r)"
      using Suc.prems g d unfolding results_have_contexts_def by (metis le_refl less_add_same_cancel1 zero_less_Suc)
    have "results_have_contexts q (Suc i) n s'"
      using Suc.prems unfolding results_have_contexts_def d by (metis Suc_leD add_Suc_shift)
    note IH = Suc.IH [OF this]
    show ?thesis
    proof (cases x)
      case (Inl e)
      with g m show ?thesis by (simp add: sbind_sread)
    next
      case (Inr y)
      obtain mt f where y: "y = (mt, f)" by (metis surj_pair)
      have tail: "sbind (sbind (match_run T X p q (Suc i) n f) (\<lambda>(rest, f'). sret (cs @ rest, f')))
          (\<lambda>(ms, f'). sret ((fold (count_in a b) ms sel)\<lparr>sel_found := f'\<rparr>)) s' =
        sbind (match_run T X p q (Suc i) n f)
          (\<lambda>(rest, f'). sret ((fold (count_in a b) rest (fold (count_in a b) cs sel))\<lparr>sel_found := f'\<rparr>)) s'" for cs
        by (simp add: sbind_def split: prod.split sum.split) (simp add: sret_def)
      have step: "select_loop T X p a b q (Suc i) n (sel'\<lparr>sel_found := f\<rparr>) s' =
        sbind (match_run T X p q (Suc i) n f) (\<lambda>(ms, f'). sret ((fold (count_in a b) ms sel')\<lparr>sel_found := f'\<rparr>)) s'" for sel'
        using IH [of "sel'\<lparr>sel_found := f\<rparr>"] by (simp add: fold_count_found)
      have run: "sbind (match_run T X p q i (Suc n) (sel_found sel)) F s =
          sbind (sbind (match_run T X p q (Suc i) n f) (\<lambda>(rest, f'). sret ((if mt then [r] else []) @ rest, f'))) F s'"
        for F :: "_ \<Rightarrow> (site, selection) sm"
        using g m Inr y r by (simp add: sbind_def [of _ F] sbind_sread)
      show ?thesis
      proof (cases mt)
        case False
        with g m Inr y show ?thesis using tail [of "[]"] step [of sel]
          unfolding run by (simp add: sbind_sread)
      next
        case True
        have "select_loop T X p a b q i (Suc n) sel s =
            select_loop T X p a b q (Suc i) n ((count_in a b r sel)\<lparr>sel_found := f\<rparr>) s'"
          using g m Inr y True
          by (cases "sel_skipped sel < a"; cases "sel_included sel + sel_skipped sel < b"; cases sel;
              simp add: sbind_sread sbind_sread_Inr [of "\<lambda>t. private_of t node", OF r] count_in_def Let_def)
        then show ?thesis using True tail [of "[r]"] step [of "count_in a b r sel"] unfolding run by simp
      qed
    qed
  qed
qed

section \<open>Pages\<close>

definition page_of :: "options \<Rightarrow> int \<Rightarrow> int \<Rightarrow> options" where
  "page_of p k l = p\<lparr>o_page := k, o_paginate := l\<rparr>"

lemma page_of_simps [simp]:
  "o_groups (page_of p k l) = o_groups p" "o_sort_type (page_of p k l) = o_sort_type p"
  "o_filter (page_of p k l) = o_filter p" "o_unique (page_of p k l) = o_unique p"
  "o_skip (page_of p k l) = o_skip p" "o_page (page_of p k l) = k" "o_paginate (page_of p k l) = l"
  "o_filter_terms (page_of p k l) = o_filter_terms p" "o_unique_fields (page_of p k l) = o_unique_fields p"
  "o_sort_fields (page_of p k l) = o_sort_fields p"
  by (cases p, simp add: page_of_def)+

lemma page_of_matches [simp]: "node_matches T X (page_of p k l) = node_matches T X p"
  unfolding node_matches_def page_of_simps ..

lemma page_of_sort [simp]: "sort_contexts T X S (page_of p k l) = sort_contexts T X S p"
  unfolding sort_contexts_def page_of_simps ..

lemma select_loop_page [simp]: "select_loop T X (page_of p k l) a b q i n = select_loop T X p a b q i n"
  by (induction n arbitrary: i; rule ext; simp)

text \<open>The first index of page \<open>k\<close>, and its window.\<close>

definition page_start :: "options \<Rightarrow> int \<Rightarrow> int \<Rightarrow> int" where
  "page_start p k l = o_skip p + (k - 1) * l"

definition pageable :: "options \<Rightarrow> int \<Rightarrow> int \<Rightarrow> bool" where
  "pageable p k l \<longleftrightarrow> o_groups p = 0 \<and> 1 \<le> k \<and> 1 \<le> l \<and> 0 \<le> o_skip p \<and> o_skip p + k * l \<le> int32_max"

lemma page_start_bounds: "pageable p k l \<Longrightarrow> 0 \<le> page_start p k l"
  by (simp add: pageable_def page_start_def)

lemma page_window_at:
  assumes "pageable p k l"
  shows "page_window (page_of p k l) sz = Inr (if o_sort_type p = SortNone
    then \<lparr>w_skip = page_start p k l, w_paginate = l, w_start = page_start p k l, w_end = min sz (page_start p k l + l)\<rparr>
    else \<lparr>w_skip = page_start p k l, w_paginate = l, w_start = 0, w_end = sz\<rparr>)"
proof -
  define c where "c = (k - 1) * l"
  have e: "k * l = c + l" by (simp add: c_def algebra_simps)
  have b: "0 \<le> c" "0 \<le> o_skip p" "o_skip p + c + l \<le> int32_max" "1 \<le> l" "o_groups p = 0" "1 \<le> k"
    using assms unfolding pageable_def e by (simp_all add: c_def)
  then have i: "in_int32 c" "in_int32 (o_skip p + c)" "in_int32 (l + (o_skip p + c))"
    unfolding int32_defs by linarith+
  with b show ?thesis
    unfolding page_window_def plain_pages_def page_start_def Let_def c_def [symmetric]
    by (simp add: c_def [symmetric] min_def add.commute add.left_commute)
qed

text \<open>The results a query selects in a window, before they are sorted.\<close>

definition picked ::
  "text_lib \<Rightarrow> xml_lib \<Rightarrow> options \<Rightarrow> query \<Rightarrow> int \<Rightarrow> int \<Rightarrow> (site, ctxref list \<times> int) sm" where
  "picked T X p Q a b =
     (if o_filter p \<or> o_unique p then
        sbind (select_loop T X p a b Q 0 (nat (get_size Q))
          \<lparr>sel_total = 0, sel_skipped = 0, sel_included = 0, sel_contexts = [], sel_found = []\<rparr>) (\<lambda>sel.
          sret (sel_contexts sel, sel_total sel))
      else sbind (context_loop Q (nat a) (nat (b - a))) (\<lambda>cs. sret (cs, get_size Q)))"

lemma unsorted: "o_sort_type p = SortNone \<Longrightarrow> sort_contexts T X S p cs = sret cs"
  by (simp add: sort_contexts_def)

lemma sbind_sret: "sbind (sret x) f = f x"
  by (rule ext) simp

lemma response_page:
  assumes "pageable p k l" and "fetch_query T X (cx, q) s = (Inr Q, s1)"
  shows "response_query T X S (page_of p k l) cx q s =
    (if o_sort_type p = SortNone then
       sbind (picked T X p Q (page_start p k l) (min (get_size Q) (page_start p k l + l))) (\<lambda>(cs, total).
         sret \<lparr>rc_contexts = cs, rc_total = total\<rparr>) s1
     else sbind (picked T X p Q 0 (get_size Q)) (\<lambda>(cs, total). sbind (sort_contexts T X S p cs) (\<lambda>sorted.
       sret \<lparr>rc_contexts = take (nat l) (drop (nat (page_start p k l)) sorted), rc_total = total\<rparr>)) s1)"
  using assms(2) unfolding response_query_def picked_def Let_def
  by (cases "o_sort_type p = SortNone")
    (simp_all add: page_window_at [OF assms(1)] sbind_sread unsorted sbind_sret split_beta)

section \<open>What the windows cut out\<close>

text \<open>The selecting loop yields the matches of its window, in order; the matches are those of any other window.\<close>

lemma match_run_length:
  "results_have_contexts q i n s \<Longrightarrow> fst (match_run T X p q i n found s) = Inr (ms, f) \<Longrightarrow> length ms \<le> n"
proof (induction n arbitrary: i found s ms f)
  case 0
  then show ?case by (simp add: sret_def)
next
  case (Suc n)
  from Suc.prems(2) obtain node s1 m found' rest where
    g: "get_node q i = Inr node" and m: "node_matches T X p node found s = (Inr (m, found'), s1)" and
    ms: "length ms \<le> Suc (length rest)" and r: "fst (match_run T X p q (Suc i) n found' s1) = Inr (rest, f)"
    by (fastforce simp: sbind_def sret_def ebind_def split: prod.splits sum.splits if_splits option.splits)
  have "private_of s1 = private_of s"
    using keepsD [OF keeps_doc_node_matches [of "s_doc s" T X p node found], of s] m by (intro private_of_doc) simp
  then have "results_have_contexts q (Suc i) n s1"
    using Suc.prems(1) unfolding results_have_contexts_def by (metis Suc_leD add_Suc_shift)
  from Suc.IH [OF this r] ms show ?case by simp
qed

lemma picked_match:
  assumes "results_have_contexts Q 0 (nat (get_size Q)) s" and "o_filter p \<or> o_unique p" and "0 \<le> a" "0 \<le> l"
  shows "fst (picked T X p Q a (min (get_size Q) (a + l)) s) =
    ebind (fst (match_run T X p Q 0 (nat (get_size Q)) [] s)) (\<lambda>(ms, f).
      Inr (take (nat l) (drop (nat a) ms), int (length ms)))"
proof -
  let ?b = "min (get_size Q) (a + l)" and ?run = "match_run T X p Q 0 (nat (get_size Q)) [] s"
  have cut: "take (nat (?b - a)) (drop (nat a) ms) = take (nat l) (drop (nat a) ms)" if "length ms \<le> nat (get_size Q)" for ms :: "ctxref list"
  proof (cases "get_size Q \<le> a + l")
    case True
    with that assms(3,4) have "length ms - nat a \<le> nat (?b - a)" "length ms - nat a \<le> nat l" by simp_all
    then show ?thesis by simp
  next
    case False
    then show ?thesis by simp
  qed
  show ?thesis
  proof (cases ?run)
    case (Pair x s')
    show ?thesis
    proof (cases x)
      case (Inl e)
      with Pair assms(2) show ?thesis by (simp add: picked_def select_match [OF assms(1)])
    next
      case (Inr y)
      obtain ms f where y: "y = (ms, f)" by (metis surj_pair)
      have "length ms \<le> nat (get_size Q)" using match_run_length [OF assms(1), of T X p "[]" ms f] Pair Inr y by simp
      moreover have "select_loop T X p a ?b Q 0 (nat (get_size Q))
          \<lparr>sel_total = 0, sel_skipped = 0, sel_included = 0, sel_contexts = [], sel_found = []\<rparr> s =
        (Inr ((fold (count_in a ?b) ms
          \<lparr>sel_total = 0, sel_skipped = 0, sel_included = 0, sel_contexts = [], sel_found = []\<rparr>)\<lparr>sel_found := f\<rparr>), s')"
        using Pair Inr y by (simp add: select_match [OF assms(1)]) (simp add: sret_def)
      ultimately show ?thesis
        using Pair Inr y assms(2) fold_count [OF assms(3), of ?b ms] cut [of ms]
        by (simp add: picked_def) (simp add: sret_def)
    qed
  qed
qed

text \<open>Without matching the results of a range are read one by one.\<close>

definition cell :: "query \<Rightarrow> site \<Rightarrow> nat \<Rightarrow> ctxref option outcome" where
  "cell Q s j = ebind (get_node Q j) (private_of s)"

definition row :: "query \<Rightarrow> site \<Rightarrow> nat \<Rightarrow> ctxref list" where
  "row Q s j = (case cell Q s j of Inr (Some r) \<Rightarrow> [r] | _ \<Rightarrow> [])"

lemma context_loop_iff:
  "fst (context_loop Q i n s) = Inr cs \<longleftrightarrow>
    (\<forall>j\<in>{i ..< i + n}. \<not> isl (cell Q s j)) \<and> cs = concat (map (row Q s) [i ..< i + n])"
proof (induction n arbitrary: i cs)
  case 0
  then show ?case by (auto simp: sret_def)
next
  case (Suc n)
  have up: "[i ..< i + Suc n] = i # [Suc i ..< Suc i + n]" by (simp add: upt_conv_Cons)
  have r: "{i ..< i + Suc n} = insert i {Suc i ..< Suc i + n}" by auto
  have e: "fst (context_loop Q i (Suc n) s) = Inr cs \<longleftrightarrow> \<not> isl (cell Q s i) \<and>
      (\<exists>rest. fst (context_loop Q (Suc i) n s) = Inr rest \<and> cs = row Q s i @ rest)"
    by (cases "get_node Q i"; cases "cell Q s i"; cases "context_loop Q (Suc i) n s"; cases "fst (context_loop Q (Suc i) n s)")
      (auto simp: sbind_sread sbind_def sret_def cell_def row_def split: option.splits)
  show ?case unfolding e Suc.IH up r by auto
qed

lemma range_rows:
  assumes "0 \<le> a" "1 \<le> l"
  shows "concat (map (\<lambda>k. [nat (a + int k * l) ..< nat (min sz (a + int k * l + l))]) [0 ..< n]) =
    [nat a ..< nat (min sz (a + int n * l))]"
proof (induction n)
  case 0
  then show ?case by (simp add: min_def nat_le_eq_zle)
next
  case (Suc n)
  define b where "b = a + int n * l"
  have b: "a \<le> b" using assms by (simp add: b_def)
  have c: "a + int (Suc n) * l = b + l" by (simp add: b_def algebra_simps)
  have "[nat a ..< nat (min sz b)] @ [nat b ..< nat (min sz (b + l))] = [nat a ..< nat (min sz (b + l))]"
  proof (cases "sz \<le> b")
    case True
    with assms b show ?thesis by (simp add: min_def nat_le_eq_zle)
  next
    case False
    with assms b show ?thesis by (simp add: upt_join nat_mono)
  qed
  then show ?case using Suc.IH unfolding c by (simp add: b_def)
qed

lemma take_pages:
  "concat (map (\<lambda>k. take l (drop (a + k * l) xs)) [0 ..< n]) = take (n * l) (drop a xs)"
proof (induction n)
  case (Suc n)
  have "take (n * l + l) (drop a xs) = take (n * l) (drop a xs) @ take l (drop (n * l) (drop a xs))" by (rule take_add)
  then show ?case using Suc.IH by (simp add: add.commute)
qed simp

section \<open>Pages side by side\<close>

text \<open>A family of pages, the answers to the queries for page 1 up to page \<open>n\<close> of \<open>l\<close> results, that together give
  the contexts of one large answer.\<close>

definition pages_of :: "(int \<Rightarrow> response_context outcome) \<Rightarrow> nat \<Rightarrow> int \<Rightarrow> response_context \<Rightarrow> bool" where
  "pages_of page n l rc \<longleftrightarrow> (\<exists>pages. length pages = n \<and> concat pages = rc_contexts rc \<and>
     (\<forall>k<n. page (int k + 1) = Inr \<lparr>rc_contexts = pages ! k, rc_total = rc_total rc\<rparr> \<and> length (pages ! k) \<le> nat l))"

lemma pageable_page:
  assumes "pageable p (int n) l"
  shows "pageable p 1 (int n * l)" and "k < n \<Longrightarrow> pageable p (int k + 1) l"
proof -
  have l: "1 \<le> l" "1 \<le> int n" "o_groups p = 0" "0 \<le> o_skip p" "o_skip p + int n * l \<le> int32_max"
    using assms by (simp_all add: pageable_def)
  then have "1 * 1 \<le> int n * l" by (intro mult_mono) simp_all
  with l show "pageable p 1 (int n * l)" by (simp add: pageable_def)
  assume "k < n"
  then have "(int k + 1) * l \<le> int n * l" using l by (intro mult_right_mono) simp_all
  then have "o_skip p + (int k + 1) * l \<le> int32_max" using l(5) by linarith
  then show "pageable p (int k + 1) l" using l unfolding pageable_def by simp
qed

lemma page_start_eq: "page_start p (int k + 1) l = o_skip p + int k * l"
  by (simp add: page_start_def)

lemma pages_of_cut:
  assumes "pageable p (int n) l"
    and "\<And>k m. pageable p k m \<Longrightarrow> page k m = ebind R (\<lambda>(xs, total).
      Inr \<lparr>rc_contexts = take (nat m) (drop (nat (page_start p k m)) xs), rc_total = total\<rparr>)"
    and "page 1 (int n * l) = Inr rc"
  shows "pages_of (\<lambda>k. page k l) n l rc"
proof -
  have l: "1 \<le> l" "0 \<le> o_skip p" using assms(1) by (simp_all add: pageable_def)
  from assms(2) [OF pageable_page(1) [OF assms(1)]] assms(3) obtain xs total where
    R: "R = Inr (xs, total)" and
    rc: "rc = \<lparr>rc_contexts = take (nat (int n * l)) (drop (nat (o_skip p)) xs), rc_total = total\<rparr>"
    by (cases R) (auto simp: page_start_def)
  have at: "nat (o_skip p + int k * l) = nat (o_skip p) + k * nat l" for k
    using l by (simp add: nat_add_distrib nat_mult_distrib)
  have "concat (map (\<lambda>k. take (nat l) (drop (nat (o_skip p + int k * l)) xs)) [0 ..< n]) = rc_contexts rc"
    unfolding at take_pages rc using l by (simp add: nat_mult_distrib)
  moreover have "page (int k + 1) l =
      Inr \<lparr>rc_contexts = take (nat l) (drop (nat (o_skip p + int k * l)) xs), rc_total = rc_total rc\<rparr>" if "k < n" for k
    using assms(2) [OF pageable_page(2) [OF assms(1) that]] R rc by (simp add: page_start_eq)
  ultimately show ?thesis
    unfolding pages_of_def
    by (intro exI [of _ "map (\<lambda>k. take (nat l) (drop (nat (o_skip p + int k * l)) xs)) [0 ..< n]"]) simp
qed

text \<open>Selected in the window with a filter, or sorted.\<close>

lemma pages_of_filtered:
  assumes "fetch_query T X (cx, q) s = (Inr Q, s1)" and "pageable p (int n) l"
    and "o_sort_type p = SortNone" "o_filter p \<or> o_unique p" "results_have_contexts Q 0 (nat (get_size Q)) s1"
    and "fst (response_query T X S (page_of p 1 (int n * l)) cx q s) = Inr rc"
  shows "pages_of (\<lambda>k. fst (response_query T X S (page_of p k l) cx q s)) n l rc"
proof (rule pages_of_cut [where page = "\<lambda>k l. fst (response_query T X S (page_of p k l) cx q s)", OF assms(2) _ assms(6)])
  fix k m assume g: "pageable p k m"
  then have "0 \<le> m" by (simp add: pageable_def)
  note r = response_page [OF g assms(1), of S] and pm = picked_match [OF assms(5,4) page_start_bounds [OF g] this, of T X]
  show "fst (response_query T X S (page_of p k m) cx q s) =
    ebind (ebind (fst (match_run T X p Q 0 (nat (get_size Q)) [] s1)) (\<lambda>(ms, f). Inr (ms, int (length ms)))) (\<lambda>(xs, total).
      Inr \<lparr>rc_contexts = take (nat m) (drop (nat (page_start p k m)) xs), rc_total = total\<rparr>)"
    using assms(3) pm unfolding r
    by (cases "picked T X p Q (page_start p k m) (min (get_size Q) (page_start p k m + m)) s1";
        cases "fst (match_run T X p Q 0 (nat (get_size Q)) [] s1)"; auto simp: sret_def)
qed

lemma pages_of_sorted:
  assumes "fetch_query T X (cx, q) s = (Inr Q, s1)" and "pageable p (int n) l"
    and "o_sort_type p \<noteq> SortNone" and "fst (response_query T X S (page_of p 1 (int n * l)) cx q s) = Inr rc"
  shows "pages_of (\<lambda>k. fst (response_query T X S (page_of p k l) cx q s)) n l rc"
proof (rule pages_of_cut [where page = "\<lambda>k l. fst (response_query T X S (page_of p k l) cx q s)", OF assms(2) _ assms(4)])
  let ?R = "sbind (picked T X p Q 0 (get_size Q)) (\<lambda>(cs, total). sbind (sort_contexts T X S p cs) (\<lambda>sorted. sret (sorted, total))) s1"
  show "fst (response_query T X S (page_of p k m) cx q s) = ebind (fst ?R) (\<lambda>(xs, total).
      Inr \<lparr>rc_contexts = take (nat m) (drop (nat (page_start p k m)) xs), rc_total = total\<rparr>)" if "pageable p k m" for k m
    using assms(3) unfolding response_page [OF that assms(1)]
    by (simp add: sbind_def sret_def split: prod.split sum.split)
qed

text \<open>Read without a filter.\<close>

lemma range_from: "0 \<le> a \<Longrightarrow> [nat a ..< nat a + nat (b - a)] = [nat a ..< nat b]"
  by (cases "b \<le> a") (simp_all add: nat_le_eq_zle nat_add_distrib [symmetric])

lemma pages_of_plain:
  assumes "fetch_query T X (cx, q) s = (Inr Q, s1)" and "pageable p (int n) l"
    and "o_sort_type p = SortNone" "\<not> (o_filter p \<or> o_unique p)"
    and "fst (response_query T X S (page_of p 1 (int n * l)) cx q s) = Inr rc"
  shows "pages_of (\<lambda>k. fst (response_query T X S (page_of p k l) cx q s)) n l rc"
proof -
  let ?stop = "\<lambda>k m. min (get_size Q) (page_start p k m + m)"
  let ?rg = "\<lambda>k m. [nat (page_start p k m) ..< nat (?stop k m)]"
  have resp: "fst (response_query T X S (page_of p k m) cx q s) = Inr x \<longleftrightarrow>
      (\<forall>j\<in>set (?rg k m). \<not> isl (cell Q s1 j)) \<and>
      x = \<lparr>rc_contexts = concat (map (row Q s1) (?rg k m)), rc_total = get_size Q\<rparr>" if g: "pageable p k m" for k m x
  proof -
    let ?i = "nat (page_start p k m)" and ?n = "nat (?stop k m - page_start p k m)"
    have e: "[?i ..< ?i + ?n] = ?rg k m" "{?i ..< ?i + ?n} = set (?rg k m)"
      using range_from [OF page_start_bounds [OF g], of "?stop k m"] by (simp_all only: set_upt [symmetric])
    have "fst (response_query T X S (page_of p k m) cx q s) =
        ebind (fst (context_loop Q ?i ?n s1)) (\<lambda>cs. Inr \<lparr>rc_contexts = cs, rc_total = get_size Q\<rparr>)"
      using assms(3,4) unfolding response_page [OF g assms(1)] picked_def
      by (simp add: sbind_def sret_def split: prod.split sum.split)
    then show ?thesis using context_loop_iff [of Q ?i ?n s1] unfolding e by (auto simp: ebind_eq_Inr_iff)
  qed
  have l: "1 \<le> l" "0 \<le> o_skip p" using assms(2) by (simp_all add: pageable_def)
  let ?k = "\<lambda>k. [nat (o_skip p + int k * l) ..< nat (min (get_size Q) (o_skip p + int k * l + l))]"
  have parts: "concat (map ?k [0 ..< n]) = ?rg 1 (int n * l)"
    using range_rows [OF l(2,1), of "get_size Q" n] by (simp add: page_start_def)
  have big: "\<forall>j\<in>set (?rg 1 (int n * l)). \<not> isl (cell Q s1 j)"
    and rc: "rc = \<lparr>rc_contexts = concat (map (row Q s1) (?rg 1 (int n * l))), rc_total = get_size Q\<rparr>"
    using resp [OF pageable_page(1) [OF assms(2)]] assms(5) by blast+
  have "fst (response_query T X S (page_of p (int k + 1) l) cx q s) =
      Inr \<lparr>rc_contexts = concat (map (row Q s1) (?k k)), rc_total = rc_total rc\<rparr>" if "k < n" for k
  proof -
    have "set (?k k) \<subseteq> set (?rg 1 (int n * l))" unfolding parts [symmetric] using that by auto
    then show ?thesis
      using resp [OF pageable_page(2) [OF assms(2) that]] big rc unfolding page_start_eq by auto
  qed
  moreover have "length (concat (map (row Q s1) (?k k))) \<le> nat l" for k
  proof -
    have "length (concat (map (row Q s1) js)) \<le> length js" for js
      by (induction js) (auto simp: row_def split: sum.split option.split)
    from this [of "?k k"] have "length (concat (map (row Q s1) (?k k))) \<le> length (?k k)" .
    also have "\<dots> \<le> nat l"
    proof -
      define y where "y = o_skip p + int k * l"
      have "0 \<le> y" using l by (simp add: y_def)
      then show ?thesis using l unfolding y_def [symmetric] by simp
    qed
    finally show ?thesis .
  qed
  moreover have "concat (map (\<lambda>k. concat (map (row Q s1) (?k k))) [0 ..< n]) = rc_contexts rc"
  proof -
    have "concat (map (\<lambda>k. concat (map f (g k))) ks) = concat (map f (concat (map g ks)))"
      for f :: "nat \<Rightarrow> ctxref list" and g :: "nat \<Rightarrow> nat list" and ks by (induction ks) simp_all
    then show ?thesis unfolding rc parts [symmetric] by simp
  qed
  ultimately show ?thesis
    unfolding pages_of_def by (intro exI [of _ "map (\<lambda>k. concat (map (row Q s1) (?k k))) [0 ..< n]"]) simp
qed


text \<open>Three results, asked for in two pages of two.\<close>

definition three_site :: site where
  "three_site = (site_empty ''a'' False [])\<lparr>s_doc := \<lparr>dom_nodes =
     [(0, (plain_node ElementNode ''artist'' [] None)\<lparr>xn_private := Some 10\<rparr>),
      (1, (plain_node ElementNode ''artist'' [] None)\<lparr>xn_private := Some 11\<rparr>),
      (2, (plain_node ElementNode ''artist'' [] None)\<lparr>xn_private := Some 12\<rparr>)], dom_top = 3\<rparr>\<rparr>"

definition three_xml :: xml_lib where
  "three_xml = \<lparr>xpath_eval = (\<lambda>_ _ _. XNodes (Some [0, 1, 2])), xml_unlink = (\<lambda>_ d. d), xml_free_node = (\<lambda>_ d. d),
     xml_free_node_list = (\<lambda>_ d. d), xml_copy_node = (\<lambda>_ d. (None, d)), xml_add_child = (\<lambda>_ _ d. d),
     xml_parse_file = (\<lambda>_. None), xml_read_memory = (\<lambda>_ _. None), xml_order_elems = (\<lambda>d. d)\<rparr>"


end
