(* ===== verification/Spec2Isabelle.thy ===== *)
theory Spec2Isabelle
  imports Replies LruCache Util QueryLog Pool MemcacheProxy MysqlProxy JsonRoundTrip JsonFlatten JsonModify JsonOrder
    JsonConvert JsonCallback Cbor MsgPack BusThread
    S3 Boot Teardown SiteLocks SessionThreads Faults Answers Paging
begin

text \<open>
  VaeDB is the query server of a content management system.  A web front end opens a session on a
  site (a subdomain) with a secret key, and runs path queries on the XML content of the site; the
  server keeps the sites in memory and the sessions with their answers, numbers the answers, and
  shares caches and locks between front ends through memcached and MySQL.

  The program's parts and the theories that model them.
  \<^item> \<^verbatim>\<open>src/server.cpp\<close>: \<open>Server\<close>.  The record \<open>server\<close> holds the maps of sites and sessions; \<open>h_*\<close> are
    the handlers, \<open>load_site\<close>, \<open>get_site\<close> and \<open>reload_site\<close> the site cache, \<open>process\<close> the dispatch
    with its three kinds of exception.  \<^verbatim>\<open>src/reaper.cpp\<close> is \<open>reaper_step\<close>, \<open>ZeroMq\<close> is the binding
    \<^verbatim>\<open>src/zmq.hpp\<close> over a parameter for the C library, and \<open>BusThread\<close> is \<^verbatim>\<open>src/bus.cpp\<close>: its thread, which
    takes the messages, and the threads it starts.
    \<open>Requests\<close> puts \<open>process\<close> together with the JSON library and runs a server on sequences of requests,
    reaper turns, reloads and clock ticks.  \<open>SiteLocks\<close> splits \<open>get_site\<close> into the steps of threads that
    share the mutexes of the sites; a download that does not return keeps its thread where it is, with the
    mutex.  \<open>SessionThreads\<close> does so for the concurrent requests of one session, whose accesses to the
    vector of responses have a beginning and an end, so that a data race is a state of the model.
  \<^item> \<^verbatim>\<open>src/session.cpp\<close>: \<open>Session\<close>, the responses of a session and their numbers;
    \<^verbatim>\<open>src/response.cpp\<close>: \<open>Response\<close>, options, pagination, filter, uniqueness, sorting and JSON; \<open>Paging\<close> shows what
    the pages of one query have in common.
  \<^item> \<^verbatim>\<open>src/site.cpp\<close>: \<open>SiteState\<close> (the objects of a site) and \<open>Site\<close> (loading, keys, the query
    cache), \<open>Teardown\<close> (the destructor, which deletes the contexts and
    then calls \<^verbatim>\<open>xmlFreeDoc\<close>, a parameter);
    \<^verbatim>\<open>src/context.cpp\<close>: \<open>ContextObj\<close>; \<^verbatim>\<open>src/query.cpp\<close>: \<open>QueryEngine\<close>, the rewriting of a path query and
    its evaluation.  \<open>Dom\<close> is the document that libxml2 builds, as a heap of nodes.
  \<^item> \<^verbatim>\<open>src/lru_cache.h\<close>: \<open>LruCache\<close>; \<^verbatim>\<open>src/util.cpp\<close>: \<open>Util\<close> (natural string comparison, with the
    arithmetic of \<open>Floats\<close>); \<^verbatim>\<open>src/query_log.cpp\<close>: \<open>QueryLog\<close>.
  \<^item> \<^verbatim>\<open>src/memcache_proxy.cpp\<close> and \<^verbatim>\<open>src/mysql_proxy.cpp\<close>: \<open>Pool\<close> is the connection pool they have in
    common, with its threads, mutex and condition variable; \<open>MemcacheProxy\<close> and \<open>MysqlProxy\<close> are the
    operations, the latter with a reference interpretation of the tables of \<^verbatim>\<open>src/db/schema.sql\<close>.
  \<^item> \<^verbatim>\<open>src/json.hpp\<close>, the parts the server uses: \<open>Json\<close> (values), \<open>JsonLexer\<close>, \<open>JsonParser\<close>,
    \<open>JsonSerializer\<close>; \<open>JsonUtf8\<close> relates the two UTF-8 recognisers, \<open>JsonText\<close> gives the text that
    \<open>dump\<close> writes, and \<open>JsonRoundTrip\<close> reads it back; \<open>JsonCallback\<close> is the parser with a callback.  What else the library offers on its values:
    \<open>JsonPointer\<close> and \<open>JsonPatch\<close> (pointers, comparison, patch and diff), with \<open>JsonDiff\<close> for the law that
    connects the last two, \<open>JsonFlatten\<close> (\<open>flatten\<close> and \<open>unflatten\<close>); \<open>JsonIter\<close> (iterators, as addresses with a
    position, over a heap of values) and \<open>JsonModify\<close> (what is done with them: \<open>erase\<close>, \<open>insert\<close>, \<open>update\<close>);
    \<open>JsonOrder\<close> (\<open>operator<\<close>) and \<open>JsonConvert\<close> (types, construction, conversions, element access); \<open>Binary\<close> (numbers in network order, floating-point formats, the state of the binary
    reader), \<open>Cbor\<close> and \<open>MsgPack\<close> (the two formats, with their round trips).
  \<^item> \<^verbatim>\<open>src/s3.cpp\<close>: \<open>S3\<close>, downloads with a file cache, over any sequence of reads; \<^verbatim>\<open>src/logger.cpp\<close> and the settings of
    \<^verbatim>\<open>src/main.cpp\<close>: \<open>Startup\<close>; the rest of \<open>main\<close> with the constructors it calls: \<open>Boot\<close>.
  \<^item> \<open>Prelude\<close> holds the outcomes of C++ code, the state monad with errors and its reasoning rules;
    \<open>CStrings\<close> the string functions; \<open>Memo\<close> what a cache that never changes an answer must do.

  Conventions.  A call returns an \<open>outcome\<close>: a value, a thrown exception, undefined behaviour,
  \<open>Diverges\<close>, or \<open>Aborts\<close> for an assertion that fails.  Stateful code is a state monad (\<open>sm\<close>) over the record of its state.  Machine integers
  that matter for overflow are checked (\<open>in_int32\<close>) or wrap (\<open>mod\<close>, \<open>word\<close>).  Code that is not in
  the repository (libxml2, pcrecpp, boost, libmemcached, the MySQL client, \<open>std::sort\<close>, \<open>strtod\<close>)
  is a parameter, with its documented behaviour as a named hypothesis where a property needs it.

  What the lemmas show.  Each component has the lemmas of its operations and the invariant they
  keep (\<open>lru_ok\<close>, \<open>caches_ok\<close>, the pool's safety).  \<open>CacheFree\<close> shows that a site with its caches and
  one without give the same answers, \<open>Transparency\<close> and \<open>Requests\<close> that this holds for whole servers.
  \<open>Access\<close> has the invariant of the server, who gets a session and who can touch one; \<open>Replies\<close> has
  what single requests are answered, \<open>Answers\<close> the types of the replies and \<open>Faults\<close> the requests that the
  server does not withstand.  \<open>SiteLocks\<close> has the mutual exclusion of loading, the authorisation of
  whatever the threads are given, their progress and the reload that is lost; \<open>Boot\<close> shows that a started server never loses a connection.
  \<open>keeps\<close>, \<open>post\<close> and \<open>uniform\<close> (in \<open>Prelude\<close>) are the three
  judgements the component proofs use: an invariant kept by a monadic operation, a postcondition of
  it, and an indistinguishability of states it respects.

  Bounds and fuel.  \<open>parse_fuel\<close> bounds the recursion of the JSON parser; \<open>json_parse_returns\<close>
  shows that it is enough for every input.  \<open>binary_fuel\<close> does so for the binary readers, which take at least
  one byte for every two steps of the recursion (\<open>from_cbor_returns\<close>, \<open>from_msgpack_returns\<close>).  Loading a document
  uses the height of the tree.

  The reads of a site go through a parameter \<open>e_read_s3\<close>, a function of the object's name: within the
  model of the server an object does not change, and \<open>S3\<close> says how its content comes about.

  Not modelled: the parsing of the command line, which is boost's (\<open>vaedb_main\<close> gets its result), the
  signal handler that prints a stack, and of \<^verbatim>\<open>src/json.hpp\<close> the stream operators, the parser without exceptions, the
  allocation of memory and the type traits, which have no behaviour at run time.
\<close>

end
